(* ===== verification/Prelude.thy ===== *)
theory Prelude
  imports Complex_Main "HOL-Library.Word"
begin

text \<open>
  Shared vocabulary of the development: the C types of \<^verbatim>\<open>src/src/core/sim_defs.h\<close>
  (status codes, values, addresses), the fact collections every component extends,
  and the generic lemmas on lists, options and machine words the components share.
\<close>

unbundle bit_operations_syntax

subsection \<open>Fact collections\<close>

named_theorems scp_simps \<open>rewrite rules of the simulator control program's components\<close>
named_theorems scp_inv \<open>preservation rules of the components' invariants\<close>
named_theorems bits_bound \<open>bounds on masked and shifted machine words\<close>

subsection \<open>C types\<close>

text \<open>\<^verbatim>\<open>int32_t\<close> status codes are mathematical integers: the code only compares them.\<close>

type_synonym t_stat = int
type_synonym t_value = "64 word"
type_synonym t_addr = "32 word"
type_synonym u32 = "32 word"
type_synonym u8 = "8 word"

text \<open>The status codes of \<^verbatim>\<open>sim_defs.h\<close> the modelled code returns or tests.\<close>

abbreviation (input) SCPE_OK :: t_stat where "SCPE_OK \<equiv> 0"
abbreviation (input) SCPE_BASE :: t_stat where "SCPE_BASE \<equiv> 64"
abbreviation (input) SCPE_NXM :: t_stat where "SCPE_NXM \<equiv> 64"
abbreviation (input) SCPE_IOERR :: t_stat where "SCPE_IOERR \<equiv> 66"
abbreviation (input) SCPE_MEM :: t_stat where "SCPE_MEM \<equiv> 71"
abbreviation (input) SCPE_ARG :: t_stat where "SCPE_ARG \<equiv> 72"
abbreviation (input) SCPE_STOP :: t_stat where "SCPE_STOP \<equiv> 77"
abbreviation (input) SCPE_NOFNC :: t_stat where "SCPE_NOFNC \<equiv> 89"
abbreviation (input) SCPE_IERR :: t_stat where "SCPE_IERR \<equiv> 101"
abbreviation (input) SCPE_KFLAG :: t_stat where "SCPE_KFLAG \<equiv> 0x10000000"
abbreviation (input) SCPE_INVEXPR :: t_stat where "SCPE_INVEXPR \<equiv> 111"

text \<open>\<^verbatim>\<open>CBUFSIZE\<close> is \<^verbatim>\<open>128 + PATH_MAX\<close>, with the \<^verbatim>\<open>PATH_MAX\<close> of Linux.\<close>

abbreviation (input) CBUFSIZE :: nat where "CBUFSIZE \<equiv> 4224"

text \<open>\<^verbatim>\<open>SWMASK(x)\<close>: the switch bit of a letter.\<close>

definition SWMASK :: "char \<Rightarrow> u32" where
  "SWMASK c = push_bit (of_char c - of_char CHR ''A'') 1"

subsection \<open>Words that fit in a number of bits\<close>

definition fits :: "nat \<Rightarrow> 'w::len word \<Rightarrow> bool" where
  "fits n x \<longleftrightarrow> take_bit n x = x"

lemma fits_bit: "fits n x \<longleftrightarrow> (\<forall>k \<ge> n. \<not> bit x k)"
  by (auto simp: fits_def bit_eq_iff bit_take_bit_iff dest: bit_imp_le_length) (metis linorder_not_less bit_imp_le_length)+

lemma fits_bitD: "fits n x \<Longrightarrow> bit x k \<Longrightarrow> k < n"
  by (simp add: fits_bit) (meson linorder_not_less)

lemma fits_less: "fits n x \<longleftrightarrow> unat x < 2 ^ n"
  by (simp add: fits_def word_unat_eq_iff unsigned_take_bit_eq take_bit_nat_eq_self_iff)

lemma fits_mono: "fits m x \<Longrightarrow> m \<le> n \<Longrightarrow> fits n x"
  by (auto simp: fits_bit)

lemma fits_bitwise [bits_bound, intro]:
  "fits n x \<Longrightarrow> fits n (x AND y)" "fits n y \<Longrightarrow> fits n (x AND y)"
  "fits n x \<Longrightarrow> fits n y \<Longrightarrow> fits n (x OR y)" "fits n x \<Longrightarrow> fits n y \<Longrightarrow> fits n (x XOR y)"
  by (auto simp: fits_bit bit_simps)

lemma fits_push_bit: "fits m x \<Longrightarrow> m + k \<le> n \<Longrightarrow> fits n (push_bit k x)"
  by (auto simp: fits_bit bit_simps)

lemma fits_drop_bit: "fits m x \<Longrightarrow> m \<le> n + k \<Longrightarrow> fits n (drop_bit k x)"
  by (auto simp: fits_bit bit_simps)

lemma fits_0 [simp]: "fits n 0"
  by (simp add: fits_def)

lemma fits_1 [simp]: "fits n 1 \<longleftrightarrow> 0 < n"
  by (cases n) (auto simp: fits_bit bit_simps Suc_le_eq)

lemma fits_numeral [simp]:
  "fits (numeral n) (numeral m :: 'w::len word) \<longleftrightarrow> take_bit (numeral n) (numeral m :: 'w word) = numeral m"
  by (simp add: fits_def)

lemma fits_add:
  fixes x y :: "'w::len word"
  assumes "fits n x" "fits n y" "Suc n < LENGTH('w)"
  shows "fits (Suc n) (x + y)"
proof -
  have "unat x < 2 ^ n" "unat y < 2 ^ n" using assms by (simp_all add: fits_less)
  then have "unat x + unat y < 2 ^ Suc n" by simp
  moreover have "unat (x + y) \<le> unat x + unat y" by (simp add: unat_plus_if')
  ultimately show ?thesis using assms(3) by (simp add: fits_less)
qed

end
