(* ===== verification/Scheduler.thy ===== *)
theory Scheduler
  imports Prelude "HOL-Library.Sublist"
begin

text \<open>
  The contract of an event scheduler, which the simulators' instruction loops and devices
  rely on: a clock and a list of pending units in order of their absolute due times, where
  a unit scheduled for a due time already taken goes behind the units that took it.
  The queue of \<^verbatim>\<open>src/src/core/scp.c\<close>, which stores relative times, is shown to keep
  this contract in the theory of the event queue.
\<close>

type_synonym uid = nat

fun sched_insert :: "uid \<Rightarrow> real \<Rightarrow> (uid \<times> real) list \<Rightarrow> (uid \<times> real) list" where
  "sched_insert u d [] = [(u, d)]"
| "sched_insert u d ((c, x) # q) =
     (if d < x then (u, d) # (c, x) # q else (c, x) # sched_insert u d q)"

definition sched_remove :: "uid \<Rightarrow> (uid \<times> real) list \<Rightarrow> (uid \<times> real) list" where
  "sched_remove u q = filter (\<lambda>p. fst p \<noteq> u) q"

lemma set_sched_insert [simp]: "set (sched_insert u d q) = insert (u, d) (set q)"
  by (induction u d q rule: sched_insert.induct) auto

lemma map_of_sched_insert:
  "u \<notin> fst ` set q \<Longrightarrow> map_of (sched_insert u d q) = (map_of q)(u \<mapsto> d)"
  by (induction u d q rule: sched_insert.induct) (auto simp: fun_upd_twist)

lemma map_of_sched_remove: "map_of (sched_remove u q) = (map_of q)(u := None)"
  by (induction q) (auto simp: sched_remove_def)

lemma sched_insert_split:
  "sorted (map snd q) \<Longrightarrow>
   sched_insert u d q = takeWhile (\<lambda>p. snd p \<le> d) q @ (u, d) # dropWhile (\<lambda>p. snd p \<le> d) q"
  by (induction u d q rule: sched_insert.induct) auto

lemma sorted_sched_insert: "sorted (map snd q) \<Longrightarrow> sorted (map snd (sched_insert u d q))"
  by (induction u d q rule: sched_insert.induct) auto

subsection \<open>The abstract calendar\<close>

text \<open>The specification: a clock and the due time of each pending unit.\<close>

datatype sched_op = Activate uid int | Activate_Abs uid int | Cancel uid | Tick

type_synonym calendar = "real \<times> (uid \<rightharpoonup> real)"

fun cal_step :: "sched_op \<Rightarrow> calendar \<Rightarrow> calendar" where
  "cal_step (Activate u t) (n, m) = (n, if m u = None then m(u \<mapsto> n + real_of_int t) else m)"
| "cal_step (Activate_Abs u t) (n, m) = (n, m(u \<mapsto> n + real_of_int t))"
| "cal_step (Cancel u) (n, m) = (n, m(u := None))"
| "cal_step Tick (n, m) = (n + 1, m)"

text \<open>The same operations on the ordered list of pending units, at the time \<open>n\<close>.\<close>

fun sched_step :: "real \<Rightarrow> sched_op \<Rightarrow> (uid \<times> real) list \<Rightarrow> (uid \<times> real) list" where
  "sched_step n (Activate u t) p = (if u \<in> fst ` set p then p else sched_insert u (n + real_of_int t) p)"
| "sched_step n (Activate_Abs u t) p = sched_insert u (n + real_of_int t) (sched_remove u p)"
| "sched_step n (Cancel u) p = sched_remove u p"
| "sched_step n Tick p = p"

lemma sorted_sched_remove: "sorted (map snd p) \<Longrightarrow> sorted (map snd (sched_remove u p))"
  by (simp add: sched_remove_def sorted_filter)

lemma sorted_sched_step: "sorted (map snd p) \<Longrightarrow> sorted (map snd (sched_step n a p))"
  by (cases a) (simp_all add: sorted_sched_insert sorted_sched_remove)

lemma sorted_sched_steps: "sorted (map snd p) \<Longrightarrow> sorted (map snd (fold (sched_step n) as p))"
  by (induction as arbitrary: p) (simp_all add: sorted_sched_step)

subsection \<open>Dispatching the due units\<close>

text \<open>
  A service routine, seen from the schedule: from the state of its device it computes a status,
  a new state and the requests it makes of the scheduler.  A request for later leaves no unit due
  that was not due before.  Running the units due at \<open>n\<close> takes the first one off the list, runs
  its routine and carries out its requests, until none is due or a routine reports a status
  other than \<^verbatim>\<open>SCPE_OK\<close>; \<open>us\<close> are the units run.
\<close>

type_synonym 'a routine = "uid \<Rightarrow> 'a \<Rightarrow> t_stat \<times> 'a \<times> sched_op list"

fun later_op :: "sched_op \<Rightarrow> bool" where
  "later_op (Activate u t) \<longleftrightarrow> 0 < t"
| "later_op (Activate_Abs u t) \<longleftrightarrow> 0 < t"
| "later_op (Cancel u) \<longleftrightarrow> True"
| "later_op Tick \<longleftrightarrow> False"

inductive fires :: "'a routine \<Rightarrow> real \<Rightarrow> (uid \<times> real) list \<Rightarrow> 'a \<Rightarrow> uid list \<Rightarrow> t_stat \<Rightarrow>
    (uid \<times> real) list \<Rightarrow> 'a \<Rightarrow> bool" for r n where
  fires_none: "fires r n [] x [] SCPE_OK [] x"
| fires_done: "n < d \<Longrightarrow> fires r n ((u, d) # p) x [] SCPE_OK ((u, d) # p) x"
| fires_stop: "d \<le> n \<Longrightarrow> r u x = (st, x1, as) \<Longrightarrow> st \<noteq> SCPE_OK \<Longrightarrow>
    fires r n ((u, d) # p) x [u] st (fold (sched_step n) as p) x1"
| fires_more: "d \<le> n \<Longrightarrow> r u x = (SCPE_OK, x1, as) \<Longrightarrow>
    fires r n (fold (sched_step n) as p) x1 us st p' x' \<Longrightarrow> fires r n ((u, d) # p) x (u # us) st p' x'"

inductive_simps fires_Nil [simp]: "fires r n [] x us st p' x'"
inductive_simps fires_Cons: "fires r n ((u, d) # p) x us st p' x'"

definition due_by :: "real \<Rightarrow> (uid \<times> real) list \<Rightarrow> (uid \<times> real) list" where
  "due_by n p = filter (\<lambda>q. snd q \<le> n) p"

text \<open>The units a request withdraws from the list of due ones.\<close>

fun withdraws :: "sched_op \<Rightarrow> bool" where
  "withdraws (Activate u t) = False"
| "withdraws (Activate_Abs u t) = True"
| "withdraws (Cancel u) = True"
| "withdraws Tick = False"

lemma due_by_insert: "n < d \<Longrightarrow> due_by n (sched_insert u d p) = due_by n p"
  by (induction u d p rule: sched_insert.induct) (auto simp: due_by_def)

lemma due_by_remove: "due_by n (sched_remove u p) = sched_remove u (due_by n p)"
  by (simp add: due_by_def sched_remove_def conj_commute)

lemma subseq_remove: "subseq (map fst (sched_remove u p)) (map fst p)"
  unfolding sched_remove_def by (intro subseq_map subseq_filter_left)

lemma due_by_step:
  "later_op a \<Longrightarrow> subseq (map fst (due_by n (sched_step n a p))) (map fst (due_by n p))"
  by (cases a) (simp_all add: due_by_insert due_by_remove subseq_remove)

lemma due_by_steps:
  "list_all later_op as \<Longrightarrow> subseq (map fst (due_by n (fold (sched_step n) as p))) (map fst (due_by n p))"
proof (induction as arbitrary: p)
  case (Cons a as)
  then show ?case using due_by_step [of a n p] subseq_order.trans by fastforce
qed simp

lemma due_by_steps_keep:
  "list_all later_op as \<Longrightarrow> list_all (\<lambda>a. \<not> withdraws a) as \<Longrightarrow> due_by n (fold (sched_step n) as p) = due_by n p"
proof (induction as arbitrary: p)
  case (Cons a as)
  then show ?case by (cases a) (simp_all add: due_by_insert)
qed simp

text \<open>Only due units are run, in their order; all of them when none is withdrawn.\<close>

lemma fires_subseq:
  "fires r n p x us st p' x' \<Longrightarrow> \<forall>u x. list_all later_op (snd (snd (r u x))) \<Longrightarrow>
   subseq us (map fst (due_by n p))"
proof (induction rule: fires.induct)
  case (fires_more d u x x1 as p us st p' x')
  then have "list_all later_op as" by (metis snd_conv)
  with fires_more show ?case using due_by_steps [of as n p] subseq_order.trans by (fastforce simp: due_by_def)
qed (auto simp: due_by_def)

lemma sorted_none_due: "sorted (map snd ((u, d) # p)) \<Longrightarrow> n < d \<Longrightarrow> due_by n ((u, d) # p) = []"
  by (fastforce simp: due_by_def filter_empty_conv)

lemma fires_all:
  "fires r n p x us st p' x' \<Longrightarrow> st = SCPE_OK \<Longrightarrow> sorted (map snd p) \<Longrightarrow>
   \<forall>u x. list_all later_op (snd (snd (r u x))) \<and> list_all (\<lambda>a. \<not> withdraws a) (snd (snd (r u x))) \<Longrightarrow>
   us = map fst (due_by n p)"
proof (induction rule: fires.induct)
  case (fires_more d u x x1 as p us st p' x')
  then have "list_all later_op as" "list_all (\<lambda>a. \<not> withdraws a) as" by (metis snd_conv)+
  with fires_more show ?case using due_by_steps_keep [of as n p] sorted_sched_steps [of p n as]
    by (simp add: due_by_def)
next
  case (fires_done d u p x)
  then show ?case using sorted_none_due [of u d p n] by simp
qed (auto simp: due_by_def)

subsection \<open>The interface\<close>

locale scheduler =
  fixes now :: "'s \<Rightarrow> real"
    and pending :: "'s \<Rightarrow> (uid \<times> real) list"
    and activate :: "uid \<Rightarrow> int \<Rightarrow> 's \<Rightarrow> 's"
    and cancel :: "uid \<Rightarrow> 's \<Rightarrow> 's"
    and tick :: "'s \<Rightarrow> 's"
    and inv :: "'s \<Rightarrow> bool"
  assumes pending_activate:
      "inv s \<Longrightarrow> u \<notin> fst ` set (pending s) \<Longrightarrow>
       pending (activate u t s) = sched_insert u (now s + real_of_int t) (pending s)"
    and pending_activate_busy:
      "inv s \<Longrightarrow> u \<in> fst ` set (pending s) \<Longrightarrow> pending (activate u t s) = pending s"
    and now_activate: "now (activate u t s) = now s"
    and pending_cancel: "inv s \<Longrightarrow> pending (cancel u s) = sched_remove u (pending s)"
    and now_cancel: "now (cancel u s) = now s"
    and pending_tick: "pending (tick s) = pending s"
    and now_tick: "now (tick s) = now s + 1"
    and inv_activate: "inv s \<Longrightarrow> inv (activate u t s)"
    and inv_cancel: "inv s \<Longrightarrow> inv (cancel u s)"
    and inv_tick: "inv s \<Longrightarrow> inv (tick s)"
    and inv_sorted: "inv s \<Longrightarrow> sorted (map snd (pending s)) \<and> distinct (map fst (pending s))"
begin

definition calendar_of :: "'s \<Rightarrow> calendar" where
  "calendar_of s = (now s, map_of (pending s))"

definition op_step :: "sched_op \<Rightarrow> 's \<Rightarrow> 's" where
  "op_step a s = (case a of
     Activate u t \<Rightarrow> activate u t s
   | Activate_Abs u t \<Rightarrow> activate u t (cancel u s)
   | Cancel u \<Rightarrow> cancel u s
   | Tick \<Rightarrow> tick s)"

lemma not_pending_cancel: "inv s \<Longrightarrow> u \<notin> fst ` set (pending (cancel u s))"
  by (auto simp: pending_cancel sched_remove_def)

lemma pending_reschedule:
  "inv s \<Longrightarrow> pending (activate u t (cancel u s)) =
     sched_insert u (now s + real_of_int t) (sched_remove u (pending s))"
  using pending_activate [OF inv_cancel not_pending_cancel] by (simp add: now_cancel pending_cancel)

lemma inv_op_step: "inv s \<Longrightarrow> inv (op_step a s)"
  by (cases a) (simp_all add: op_step_def inv_activate inv_cancel inv_tick)

lemma map_of_pending_eq_None: "map_of (pending s) u = None \<longleftrightarrow> u \<notin> fst ` set (pending s)"
  by (simp add: map_of_eq_None_iff)

lemma calendar_op_step:
  assumes "inv s"
  shows "calendar_of (op_step a s) = cal_step a (calendar_of s)"
proof (cases a)
  case (Activate u t)
  show ?thesis
  proof (cases "u \<in> fst ` set (pending s)")
    case True
    then have "map_of (pending s) u \<noteq> None" by (simp add: map_of_pending_eq_None)
    with True Activate assms show ?thesis
      by (auto simp: calendar_of_def op_step_def now_activate pending_activate_busy)
  next
    case False
    then have "map_of (pending s) u = None" by (simp add: map_of_pending_eq_None)
    with False Activate assms show ?thesis
      by (simp add: calendar_of_def op_step_def now_activate pending_activate map_of_sched_insert)
  qed
next
  case (Activate_Abs u t)
  have "u \<notin> fst ` set (sched_remove u (pending s))" by (auto simp: sched_remove_def)
  with Activate_Abs assms show ?thesis
    by (simp add: calendar_of_def op_step_def now_activate now_cancel pending_reschedule
        map_of_sched_insert map_of_sched_remove)
next
  case (Cancel u)
  with assms show ?thesis
    by (simp add: calendar_of_def op_step_def now_cancel pending_cancel map_of_sched_remove)
next
  case Tick
  then show ?thesis
    by (simp add: calendar_of_def op_step_def now_tick pending_tick)
qed

lemma now_op_step: "a \<noteq> Tick \<Longrightarrow> now (op_step a s) = now s"
  by (cases a) (simp_all add: op_step_def now_activate now_cancel)

lemma pending_op_step: "inv s \<Longrightarrow> pending (op_step a s) = sched_step (now s) a (pending s)"
  by (cases a) (simp_all add: op_step_def pending_activate pending_activate_busy pending_cancel pending_reschedule pending_tick)

lemma run_ops:
  "inv s \<Longrightarrow> list_all (\<lambda>a. a \<noteq> Tick) as \<Longrightarrow>
   inv (fold op_step as s) \<and> now (fold op_step as s) = now s \<and>
   pending (fold op_step as s) = fold (sched_step (now s)) as (pending s)"
  by (induction as arbitrary: s) (simp_all add: inv_op_step now_op_step pending_op_step)

lemma calendar_run:
  "inv s \<Longrightarrow> inv (fold op_step as s) \<and> calendar_of (fold op_step as s) = fold cal_step as (calendar_of s)"
  by (induction as arbitrary: s) (simp_all add: inv_op_step calendar_op_step)

lemma activate_is_fifo:
  assumes "inv s" and "u \<notin> fst ` set (pending s)"
  shows "pending (activate u t s) =
    takeWhile (\<lambda>p. snd p \<le> now s + real_of_int t) (pending s) @ (u, now s + real_of_int t) #
    dropWhile (\<lambda>p. snd p \<le> now s + real_of_int t) (pending s)"
  using assms inv_sorted [OF assms(1)] by (simp add: pending_activate sched_insert_split)

lemma funpow_tick: "now ((tick ^^ n) s) = now s + real n" "pending ((tick ^^ n) s) = pending s"
  by (induction n) (simp_all add: now_tick pending_tick)

end

end
