(* ===== verification/EventQueue.thy ===== *)
theory EventQueue
  imports Scheduler
begin

text \<open>
  The event queue package of \<^verbatim>\<open>src/src/core/scp.c\<close> (\<^verbatim>\<open>sim_activate\<close>,
  \<^verbatim>\<open>sim_activate_abs\<close>, \<^verbatim>\<open>sim_cancel\<close>, \<^verbatim>\<open>sim_process_event\<close> and their kin).
  The chain of \<^verbatim>\<open>UNIT\<close>s linked through \<^verbatim>\<open>next\<close> from \<^verbatim>\<open>sim_clock_queue\<close> to
  \<^verbatim>\<open>QUEUE_LIST_END\<close> is a list of unit numbers with their \<^verbatim>\<open>time\<close> field, which is
  relative to the previous entry.  A \<^verbatim>\<open>double\<close> is a \<^typ>\<open>real\<close>; an \<^verbatim>\<open>int32_t\<close>
  is an \<^typ>\<open>int\<close> (a bound that excludes overflow is proved below); \<^verbatim>\<open>sim_rtime\<close>, which
  the code lets roll over, is a 32-bit word.  The \<^verbatim>\<open>AIO_\<close> macros are those of the build
  without asynchronous I/O, where they are empty.
\<close>

subsection \<open>State\<close>

record evq =
  sim_clock_queue :: "(uid \<times> int) list"
  sim_interval :: int
  noqueue_time :: int
  sim_vm_time :: real
  sim_rtime :: u32
  stop_cpu :: bool
  sim_processing_event :: bool
  usecs_remaining :: "uid \<Rightarrow> real"

text \<open>
  What the package reaches through pointers: the \<^verbatim>\<open>action\<close> and \<^verbatim>\<open>cancel\<close> pointers of a
  unit, its \<^verbatim>\<open>UNIT_TMR_UNIT\<close> flag, and the entry points of the calibrated timer package
  (\<^verbatim>\<open>src/src/runtime/sim_timer.c\<close>).  They may read and change the whole machine state,
  whose type is the parameter.  Units on a timer's co-schedule list, which borrows the same
  \<^verbatim>\<open>next\<close> link, are outside the model: \<^verbatim>\<open>next\<close> is set exactly for the queue's members.
\<close>

record 'e unit_ops =
  action :: "uid \<Rightarrow> ('e \<Rightarrow> t_stat \<times> 'e) option"
  cancel :: "uid \<Rightarrow> 'e \<Rightarrow> bool \<times> 'e"
  tmr_unit :: "uid \<Rightarrow> 'e \<Rightarrow> bool"
  sim_timer_is_active :: "uid \<Rightarrow> 'e \<Rightarrow> bool"
  sim_timer_cancel :: "uid \<Rightarrow> 'e \<Rightarrow> t_stat \<times> 'e"
  sim_timer_activate :: "uid \<Rightarrow> int \<Rightarrow> 'e \<Rightarrow> t_stat \<times> 'e"
  sim_timer_activate_after :: "uid \<Rightarrow> real \<Rightarrow> 'e \<Rightarrow> t_stat \<times> 'e"
  sim_timer_activate_time :: "uid \<Rightarrow> 'e \<Rightarrow> int"
  sim_timer_inst_per_sec :: "'e \<Rightarrow> real"

text \<open>
  Following \<^verbatim>\<open>QUEUE_LIST_END\<close>, the pointer constant 1, is undefined in C; a service
  routine that keeps queueing itself with no delay keeps the dispatch loop running.
\<close>

datatype ev_fault = Sentinel_Deref | Out_Of_Fuel

abbreviation (input) NOQUEUE_WAIT :: int where "NOQUEUE_WAIT \<equiv> 1000000"

subsection \<open>Simulated time\<close>

text \<open>The macro \<^verbatim>\<open>UPDATE_SIM_TIME\<close>.\<close>

definition update_sim_time :: "'a evq_scheme \<Rightarrow> 'a evq_scheme" where
  "update_sim_time e =
     (let x = (case sim_clock_queue e of [] \<Rightarrow> noqueue_time e | (u, t) # q \<Rightarrow> t);
          e1 = e\<lparr>sim_vm_time := sim_vm_time e + real_of_int (x - sim_interval e),
                 sim_rtime := sim_rtime e + of_int (x - sim_interval e)\<rparr>
      in case sim_clock_queue e of
           [] \<Rightarrow> e1\<lparr>noqueue_time := sim_interval e\<rparr>
         | (u, t) # q \<Rightarrow> e1\<lparr>sim_clock_queue := (u, sim_interval e) # q\<rparr>)"

definition sim_gtime :: "'a evq_scheme \<Rightarrow> real \<times> 'a evq_scheme" where
  "sim_gtime e = (let e1 = update_sim_time e in (sim_vm_time e1, e1))"

definition sim_grtime :: "'a evq_scheme \<Rightarrow> u32 \<times> 'a evq_scheme" where
  "sim_grtime e = (let e1 = update_sim_time e in (sim_rtime e1, e1))"

definition sim_qcount :: "'a evq_scheme \<Rightarrow> nat" where
  "sim_qcount e = length (sim_clock_queue e)"

subsection \<open>Activation and cancellation\<close>

definition in_queue :: "uid \<Rightarrow> 'a evq_scheme \<Rightarrow> bool" where
  "in_queue u e \<longleftrightarrow> u \<in> fst ` set (sim_clock_queue e)"

definition sim_is_active :: "('a evq_scheme) unit_ops \<Rightarrow> uid \<Rightarrow> 'a evq_scheme \<Rightarrow> bool" where
  "sim_is_active ops u e \<longleftrightarrow>
     in_queue u e \<or>
     (if tmr_unit ops u e then sim_timer_is_active ops u e else False)"

text \<open>
  The scan of \<^verbatim>\<open>_sim_activate\<close> and the insertion at the place it stops: \<open>accum\<close> is
  the running sum of the entries passed, the entry behind the new one keeps its due time.
\<close>

fun queue_insert :: "uid \<Rightarrow> int \<Rightarrow> int \<Rightarrow> (uid \<times> int) list \<Rightarrow> (uid \<times> int) list" where
  "queue_insert u event_time accum [] = [(u, event_time - accum)]"
| "queue_insert u event_time accum ((c, t) # q) =
     (if event_time < accum + t
      then (u, event_time - accum) # (c, t - (event_time - accum)) # q
      else (c, t) # queue_insert u event_time (accum + t) q)"

definition sim_activate0 ::
  "('a evq_scheme) unit_ops \<Rightarrow> uid \<Rightarrow> int \<Rightarrow> 'a evq_scheme \<Rightarrow> t_stat \<times> 'a evq_scheme" where
  "sim_activate0 ops u event_time e =
     (if sim_is_active ops u e then (SCPE_OK, e)
      else let e1 = update_sim_time e;
               q = queue_insert u event_time 0 (sim_clock_queue e1)
           in (SCPE_OK, e1\<lparr>sim_clock_queue := q, sim_interval := snd (hd q)\<rparr>))"

definition sim_activate ::
  "('a evq_scheme) unit_ops \<Rightarrow> uid \<Rightarrow> int \<Rightarrow> 'a evq_scheme \<Rightarrow> t_stat \<times> 'a evq_scheme" where
  "sim_activate ops u event_time e =
     (if tmr_unit ops u e then sim_timer_activate ops u event_time e
      else sim_activate0 ops u event_time e)"

text \<open>The unlinking of a unit: the entry behind it absorbs its relative time.\<close>

fun queue_remove :: "uid \<Rightarrow> (uid \<times> int) list \<Rightarrow> (uid \<times> int) list" where
  "queue_remove u [] = []"
| "queue_remove u ((c, t) # q) =
     (if c = u then (case q of [] \<Rightarrow> [] | (n, tn) # r \<Rightarrow> (n, tn + t) # r)
      else (c, t) # queue_remove u q)"

definition sim_cancel_queue :: "uid \<Rightarrow> 'a evq_scheme \<Rightarrow> 'a evq_scheme" where
  "sim_cancel_queue u e =
     (let e1 = update_sim_time e;
          q = queue_remove u (sim_clock_queue e1);
          e2 = e1\<lparr>sim_clock_queue := q, usecs_remaining := (usecs_remaining e1)(u := 0)\<rparr>
      in case q of
           [] \<Rightarrow> e2\<lparr>sim_interval := NOQUEUE_WAIT, noqueue_time := NOQUEUE_WAIT\<rparr>
         | (c, t) # r \<Rightarrow> e2\<lparr>sim_interval := t\<rparr>)"

definition sim_cancel ::
  "('a evq_scheme) unit_ops \<Rightarrow> uid \<Rightarrow> 'a evq_scheme \<Rightarrow> t_stat \<times> 'a evq_scheme" where
  "sim_cancel ops u e =
     (let (cancelled, e0) = cancel ops u e in
      if cancelled then (SCPE_OK, e0)
      else let (st, e1) = (if tmr_unit ops u e0 then sim_timer_cancel ops u e0 else (SCPE_OK, e0)) in
      if st \<noteq> SCPE_OK then (st, e1)
      else if sim_clock_queue e1 = [] then (SCPE_OK, e1)
      else if \<not> sim_is_active ops u e1 then (SCPE_OK, e1)
      else (SCPE_OK, sim_cancel_queue u e1))"

definition sim_activate_abs ::
  "('a evq_scheme) unit_ops \<Rightarrow> uid \<Rightarrow> int \<Rightarrow> 'a evq_scheme \<Rightarrow> t_stat \<times> 'a evq_scheme" where
  "sim_activate_abs ops u event_time e = sim_activate0 ops u event_time (snd (sim_cancel ops u e))"

definition sim_activate_notbefore ::
  "('a evq_scheme) unit_ops \<Rightarrow> uid \<Rightarrow> int \<Rightarrow> 'a evq_scheme \<Rightarrow> t_stat \<times> 'a evq_scheme" where
  "sim_activate_notbefore ops u rtime e =
     (let urtime = (of_int rtime :: u32);
          e1 = snd (sim_cancel ops u e);
          (rtimenow, e2) = sim_grtime e1;
          e3 = snd (sim_cancel ops u e2)
      in if 0x80000000 \<le> urtime - rtimenow then sim_activate0 ops u 0 e3
         else sim_activate ops u (sint (urtime - rtimenow)) e3)"

definition sim_activate_after0 ::
  "('a evq_scheme) unit_ops \<Rightarrow> uid \<Rightarrow> real \<Rightarrow> 'a evq_scheme \<Rightarrow> t_stat \<times> 'a evq_scheme" where
  "sim_activate_after0 ops u usec_delay e =
     (if sim_is_active ops u e then (SCPE_OK, e)
      else sim_timer_activate_after ops u usec_delay e)"

definition sim_activate_after_abs0 ::
  "('a evq_scheme) unit_ops \<Rightarrow> uid \<Rightarrow> real \<Rightarrow> 'a evq_scheme \<Rightarrow> t_stat \<times> 'a evq_scheme" where
  "sim_activate_after_abs0 ops u usec_delay e =
     (if usec_delay < 0 then sim_timer_activate_after ops u usec_delay e
      else sim_activate_after0 ops u usec_delay (snd (sim_cancel ops u e)))"

definition sim_activate_after ::
  "('a evq_scheme) unit_ops \<Rightarrow> uid \<Rightarrow> u32 \<Rightarrow> 'a evq_scheme \<Rightarrow> t_stat \<times> 'a evq_scheme" where
  "sim_activate_after ops u usec_delay e = sim_activate_after0 ops u (real (unat usec_delay)) e"

definition sim_activate_after_abs ::
  "('a evq_scheme) unit_ops \<Rightarrow> uid \<Rightarrow> u32 \<Rightarrow> 'a evq_scheme \<Rightarrow> t_stat \<times> 'a evq_scheme" where
  "sim_activate_after_abs ops u usec_delay e =
     sim_activate_after_abs0 ops u (real (unat usec_delay)) e"

subsection \<open>Time to activation\<close>

text \<open>
  The queue walk of \<^verbatim>\<open>_sim_activate_queue_time\<close>: the first entry counts as
  \<^verbatim>\<open>sim_interval\<close> when that is positive, every later one as its \<^verbatim>\<open>time\<close> field.
\<close>

fun queue_time :: "uid \<Rightarrow> int \<Rightarrow> (uid \<times> int) list \<Rightarrow> int" where
  "queue_time u accum [] = 0"
| "queue_time u accum ((c, t) # q) =
     (if c = u then accum + t + 1 else queue_time u (accum + t) q)"

definition sim_activate_queue_time :: "uid \<Rightarrow> 'a evq_scheme \<Rightarrow> int" where
  "sim_activate_queue_time u e =
     (case sim_clock_queue e of
        [] \<Rightarrow> 0
      | (c, t) # q \<Rightarrow>
          (let accum = (if sim_interval e > 0 then sim_interval e else 0)
           in if c = u then accum + 1 else queue_time u accum q))"

text \<open>The C conversion of a \<^verbatim>\<open>double\<close> to an integer truncates towards zero.\<close>

definition trunc_real :: "real \<Rightarrow> int" where
  "trunc_real x = (if x < 0 then - \<lfloor>- x\<rfloor> else \<lfloor>x\<rfloor>)"

definition sim_activate_time0 :: "('a evq_scheme) unit_ops \<Rightarrow> uid \<Rightarrow> 'a evq_scheme \<Rightarrow> int" where
  "sim_activate_time0 ops u e =
     (let accum = sim_activate_queue_time u e
      in if accum \<noteq> 0
         then accum + trunc_real (usecs_remaining e u * sim_timer_inst_per_sec ops e / 1000000)
         else 0)"

definition sim_activate_time :: "('a evq_scheme) unit_ops \<Rightarrow> uid \<Rightarrow> 'a evq_scheme \<Rightarrow> int" where
  "sim_activate_time ops u e =
     (let accum = sim_timer_activate_time ops u e
      in if accum \<ge> 0 then accum else sim_activate_time0 ops u e)"

subsection \<open>Dispatching events\<close>

text \<open>
  One pass through the \<^verbatim>\<open>do\<close> loop of \<^verbatim>\<open>sim_process_event\<close>: unlink the first unit, set
  the interval to the next one, run the service routine (or requeue the unit for the rest of
  a long delay), then move the catch-up time on.  \<open>c\<close> is \<^verbatim>\<open>sim_interval_catchup\<close>.
\<close>

definition dispatch ::
  "('a evq_scheme) unit_ops \<Rightarrow> int \<Rightarrow> 'a evq_scheme \<Rightarrow> ev_fault + (t_stat \<times> int \<times> 'a evq_scheme)" where
  "dispatch ops c e =
     (case sim_clock_queue e of
        [] \<Rightarrow> Inl Sentinel_Deref
      | (u, t0) # q \<Rightarrow>
          (let e1 = e\<lparr>sim_clock_queue := q\<rparr>;
               e2 = (case q of
                       (n, t) # r \<Rightarrow>
                         e1\<lparr>sim_interval := (if c < 0 then - c else sim_interval e1) + (c + t)\<rparr>
                     | [] \<Rightarrow> e1\<lparr>sim_interval := NOQUEUE_WAIT, noqueue_time := NOQUEUE_WAIT\<rparr>);
               (reason, e3) =
                 (if usecs_remaining e2 u \<noteq> 0
                  then sim_timer_activate_after ops u (usecs_remaining e2 u) e2
                  else case action ops u of None \<Rightarrow> (SCPE_OK, e2) | Some f \<Rightarrow> f e2)
           in if c < -1
              then (case sim_clock_queue e3 of
                      [] \<Rightarrow> Inl Sentinel_Deref
                    | (n, t) # r \<Rightarrow>
                        Inr (reason, c + t,
                             e3\<lparr>sim_vm_time := sim_vm_time e3 + real_of_int t,
                                sim_rtime := sim_rtime e3 + of_int t\<rparr>))
              else Inr (reason, 0, e3)))"

fun dispatch_loop ::
  "nat \<Rightarrow> ('a evq_scheme) unit_ops \<Rightarrow> int \<Rightarrow> 'a evq_scheme \<Rightarrow> ev_fault + (t_stat \<times> 'a evq_scheme)" where
  "dispatch_loop 0 ops c e = Inl Out_Of_Fuel"
| "dispatch_loop (Suc fuel) ops c e =
     (case dispatch ops c e of
        Inl f \<Rightarrow> Inl f
      | Inr (reason, c', e') \<Rightarrow>
          if reason = SCPE_OK \<and> sim_interval e' + c' \<le> 0 \<and> sim_clock_queue e' \<noteq> [] \<and> \<not> stop_cpu e'
          then dispatch_loop fuel ops c' e'
          else Inr (reason, e'))"

definition sim_process_event ::
  "nat \<Rightarrow> ('a evq_scheme) unit_ops \<Rightarrow> 'a evq_scheme \<Rightarrow> ev_fault + (t_stat \<times> 'a evq_scheme)" where
  "sim_process_event fuel ops e =
     (if stop_cpu e then Inr (SCPE_STOP, e\<lparr>stop_cpu := False\<rparr>)
      else let e1 = update_sim_time e in
      if sim_interval e1 > 0 then Inr (SCPE_OK, e1)
      else if sim_clock_queue e1 = []
      then Inr (SCPE_OK, e1\<lparr>sim_interval := NOQUEUE_WAIT, noqueue_time := NOQUEUE_WAIT\<rparr>)
      else let e2 = e1\<lparr>sim_processing_event := True\<rparr>;
               (c, e3) = (if sim_interval e2 < 0
                          then let e' = update_sim_time (e2\<lparr>sim_interval := 0\<rparr>);
                                   t = snd (hd (sim_clock_queue e'))
                               in (sim_interval e2,
                                   e'\<lparr>sim_vm_time := sim_vm_time e' - real_of_int t,
                                      sim_rtime := sim_rtime e' - of_int t\<rparr>)
                          else (0, e2))
           in case dispatch_loop fuel ops c e3 of
                Inl f \<Rightarrow> Inl f
              | Inr (reason, e4) \<Rightarrow>
                  (let e5 = (if sim_clock_queue e4 = []
                             then e4\<lparr>sim_interval := NOQUEUE_WAIT, noqueue_time := NOQUEUE_WAIT\<rparr>
                             else e4);
                       (reason', e6) = (if reason = SCPE_OK \<and> stop_cpu e5
                                        then (SCPE_STOP, e5\<lparr>stop_cpu := False\<rparr>)
                                        else (reason, e5))
                   in Inr (reason', e6\<lparr>sim_processing_event := False\<rparr>)))"

subsection \<open>Abstraction to absolute times\<close>

fun due_from :: "real \<Rightarrow> (uid \<times> int) list \<Rightarrow> (uid \<times> real) list" where
  "due_from b [] = []"
| "due_from b ((u, t) # q) = (u, b + real_of_int t) # due_from (b + real_of_int t) q"

definition now :: "'a evq_scheme \<Rightarrow> real" where
  "now e = fst (sim_gtime e)"

definition pending :: "'a evq_scheme \<Rightarrow> (uid \<times> real) list" where
  "pending e = due_from (sim_vm_time e) (sim_clock_queue e)"

definition evq_inv :: "'a evq_scheme \<Rightarrow> bool" where
  "evq_inv e \<longleftrightarrow> distinct (map fst (sim_clock_queue e)) \<and>
     list_all (\<lambda>p. snd p \<ge> 0) (tl (sim_clock_queue e))"

lemma map_fst_due_from [simp]: "map fst (due_from b q) = map fst q"
  by (induction b q rule: due_from.induct) auto

lemma set_fst_due_from [simp]: "fst ` set (due_from b q) = fst ` set q"
  by (metis list.set_map map_fst_due_from)

lemma due_from_queue_insert:
  "due_from (b + real_of_int a) (queue_insert u t a q) =
   sched_insert u (b + real_of_int t) (due_from (b + real_of_int a) q)"
proof (induction u t a q rule: queue_insert.induct)
  case (1 u t a)
  then show ?case by simp
next
  case (2 u t a c x q)
  have eq: "b + real_of_int t < b + real_of_int a + real_of_int x \<longleftrightarrow> t < a + x"
    by linarith
  show ?case
    using 2 by (auto simp: eq ac_simps)
qed

lemma due_from_queue_remove:
  "distinct (map fst q) \<Longrightarrow> due_from b (queue_remove u q) = sched_remove u (due_from b q)"
proof (induction u q arbitrary: b rule: queue_remove.induct)
  case (1 u)
  then show ?case by (simp add: sched_remove_def)
next
  case (2 u c t q)
  show ?case
  proof (cases "c = u")
    case True
    have "filter (\<lambda>p. fst p \<noteq> u) (due_from b' q) = due_from b' q" for b'
      using 2(2) True by (subst filter_id_conv) (metis distinct.simps(2) list.simps(9) fst_conv image_eqI set_fst_due_from set_map)
    then show ?thesis
      using True by (cases q) (auto simp: sched_remove_def ac_simps split: prod.splits)
  next
    case False
    then show ?thesis using 2 by (auto simp: sched_remove_def)
  qed
qed

lemma now_eq: "now e = sim_vm_time e +
    real_of_int ((case sim_clock_queue e of [] \<Rightarrow> noqueue_time e | (u, t) # q \<Rightarrow> t) - sim_interval e)"
  by (auto simp: now_def sim_gtime_def update_sim_time_def Let_def split: list.splits)

lemma update_sim_time_simps [simp]:
  "sim_interval (update_sim_time e) = sim_interval e"
  "stop_cpu (update_sim_time e) = stop_cpu e"
  "usecs_remaining (update_sim_time e) = usecs_remaining e"
  "sim_processing_event (update_sim_time e) = sim_processing_event e"
  "evq.more (update_sim_time e) = evq.more e"
  "map fst (sim_clock_queue (update_sim_time e)) = map fst (sim_clock_queue e)"
  "sim_clock_queue (update_sim_time e) = [] \<longleftrightarrow> sim_clock_queue e = []"
  "tl (sim_clock_queue (update_sim_time e)) = tl (sim_clock_queue e)"
  by (auto simp: update_sim_time_def Let_def split: list.splits)

lemma sim_vm_time_update [simp]: "sim_vm_time (update_sim_time e) = now e"
  by (simp add: now_def sim_gtime_def Let_def)

lemma now_update [simp]: "now (update_sim_time e) = now e"
  by (auto simp: now_eq update_sim_time_def Let_def split: list.splits)

lemma pending_update [simp]: "pending (update_sim_time e) = pending e"
  by (auto simp: pending_def update_sim_time_def Let_def split: list.splits)

lemma update_sim_time_idem [simp]: "update_sim_time (update_sim_time e) = update_sim_time e"
  by (auto simp: update_sim_time_def Let_def split: list.splits)

lemma evq_inv_update [simp]: "evq_inv (update_sim_time e) = evq_inv e"
  by (simp add: evq_inv_def)

lemma queue_insert_not_Nil [simp]: "queue_insert u t a q \<noteq> []"
  by (cases "(u, t, a, q)" rule: queue_insert.cases) auto

lemma set_fst_queue_insert: "fst ` set (queue_insert u t a q) = insert u (fst ` set q)"
  by (induction u t a q rule: queue_insert.induct) auto

lemma distinct_queue_insert:
  "u \<notin> fst ` set q \<Longrightarrow> distinct (map fst (queue_insert u t a q)) = distinct (map fst q)"
  by (induction u t a q rule: queue_insert.induct) (auto simp: set_fst_queue_insert)

lemma tl_queue_insert_nonneg:
  "list_all (\<lambda>p. snd p \<ge> 0) q \<Longrightarrow> a \<le> t \<Longrightarrow> list_all (\<lambda>p. snd p \<ge> 0) (queue_insert u t a q)"
  by (induction u t a q rule: queue_insert.induct) auto

lemma evq_inv_queue_insert:
  assumes "distinct (map fst q)" "list_all (\<lambda>p. snd p \<ge> 0) (tl q)" "u \<notin> fst ` set q"
  shows "distinct (map fst (queue_insert u t 0 q)) \<and>
         list_all (\<lambda>p. snd p \<ge> 0) (tl (queue_insert u t 0 q))"
  using assms by (cases q) (auto simp: distinct_queue_insert set_fst_queue_insert intro!: tl_queue_insert_nonneg)

lemma queue_remove_idle: "u \<notin> fst ` set q \<Longrightarrow> queue_remove u q = q"
  by (induction u q rule: queue_remove.induct) auto

lemma map_fst_queue_remove: "map fst (queue_remove u q) = remove1 u (map fst q)"
proof (induction u q rule: queue_remove.induct)
  case (2 u c t q)
  then show ?case by (cases q) auto
qed simp

lemma distinct_queue_remove: "distinct (map fst q) \<Longrightarrow> distinct (map fst (queue_remove u q))"
  by (simp add: map_fst_queue_remove)

lemma queue_remove_nonneg:
  "list_all (\<lambda>p. snd p \<ge> 0) q \<Longrightarrow> list_all (\<lambda>p. snd p \<ge> 0) (queue_remove u q)"
  by (induction u q rule: queue_remove.induct) (auto split: list.splits)

lemma tl_queue_remove_nonneg:
  assumes "list_all (\<lambda>p. snd p \<ge> 0) (tl q)"
  shows "list_all (\<lambda>p. snd p \<ge> 0) (tl (queue_remove u q))"
proof (cases q)
  case (Cons p r)
  then show ?thesis
    using assms queue_remove_nonneg [of r u] by (cases p; cases r) auto
qed simp

lemma in_queue_pending: "in_queue u e \<longleftrightarrow> u \<in> fst ` set (pending e)"
  by (simp add: in_queue_def pending_def)

lemma in_queue_update [simp]: "in_queue u (update_sim_time e) = in_queue u e"
  by (simp add: in_queue_pending)

definition plain_ops :: "('a evq_scheme) unit_ops \<Rightarrow> ('a evq_scheme) unit_ops" where
  "plain_ops ops = ops\<lparr>cancel := (\<lambda>u e. (False, e)), tmr_unit := (\<lambda>u e. False),
                       sim_timer_activate_time := (\<lambda>u e. -1)\<rparr>"

lemma plain_ops_simps [simp]:
  "cancel (plain_ops ops) u e = (False, e)" "\<not> tmr_unit (plain_ops ops) u e"
  "action (plain_ops ops) = action ops"
  "sim_timer_activate_time (plain_ops ops) u e = -1"
  "sim_timer_inst_per_sec (plain_ops ops) = sim_timer_inst_per_sec ops"
  "sim_timer_activate_after (plain_ops ops) = sim_timer_activate_after ops"
  by (simp_all add: plain_ops_def)

lemma sim_is_active_plain [simp]: "sim_is_active (plain_ops ops) u e \<longleftrightarrow> in_queue u e"
  by (simp add: sim_is_active_def)

definition do_activate :: "('a evq_scheme) unit_ops \<Rightarrow> uid \<Rightarrow> int \<Rightarrow> 'a evq_scheme \<Rightarrow> 'a evq_scheme" where
  "do_activate ops u t e = snd (sim_activate (plain_ops ops) u t e)"

definition do_cancel :: "('a evq_scheme) unit_ops \<Rightarrow> uid \<Rightarrow> 'a evq_scheme \<Rightarrow> 'a evq_scheme" where
  "do_cancel ops u e = snd (sim_cancel (plain_ops ops) u e)"

definition tick :: "'a evq_scheme \<Rightarrow> 'a evq_scheme" where
  "tick e = e\<lparr>sim_interval := sim_interval e - 1\<rparr>"

lemma do_activate_eq:
  "do_activate ops u t e =
     (if in_queue u e then e
      else let q = queue_insert u t 0 (sim_clock_queue (update_sim_time e))
           in (update_sim_time e)\<lparr>sim_clock_queue := q, sim_interval := snd (hd q)\<rparr>)"
  by (simp add: do_activate_def sim_activate_def sim_activate0_def Let_def)

lemma do_cancel_eq:
  "do_cancel ops u e = (if in_queue u e then sim_cancel_queue u e else e)"
  by (auto simp: do_cancel_def sim_cancel_def in_queue_def Let_def)

lemma pending_do_activate:
  "\<not> in_queue u e \<Longrightarrow> pending (do_activate ops u t e) = sched_insert u (now e + real_of_int t) (pending e)"
proof -
  assume idle: "\<not> in_queue u e"
  let ?e = "update_sim_time e"
  have "pending (do_activate ops u t e) = due_from (now e) (queue_insert u t 0 (sim_clock_queue ?e))"
    using idle by (simp add: do_activate_eq Let_def pending_def)
  also have "\<dots> = sched_insert u (now e + real_of_int t) (due_from (now e) (sim_clock_queue ?e))"
    using due_from_queue_insert [of "now e" 0] by simp
  also have "due_from (now e) (sim_clock_queue ?e) = pending e"
    using pending_update [of e] by (simp add: pending_def del: pending_update)
  finally show ?thesis .
qed

lemma now_do_activate: "now (do_activate ops u t e) = now e"
proof (cases "in_queue u e")
  case False
  then show ?thesis
    by (cases "queue_insert u t 0 (sim_clock_queue (update_sim_time e))")
       (auto simp: do_activate_eq Let_def now_eq [of "update_sim_time e\<lparr>sim_clock_queue := _, sim_interval := _\<rparr>"])
qed (simp add: do_activate_eq)

lemma set_fst_queue_update [simp]:
  "fst ` set (sim_clock_queue (update_sim_time e)) = fst ` set (sim_clock_queue e)"
  by (metis list.set_map update_sim_time_simps(6))

lemma evq_inv_do_activate: "evq_inv e \<Longrightarrow> evq_inv (do_activate ops u t e)"
  using evq_inv_queue_insert [of "sim_clock_queue (update_sim_time e)" u t]
  by (auto simp: do_activate_eq Let_def evq_inv_def in_queue_def)

lemma pending_sim_cancel_queue:
  "evq_inv e \<Longrightarrow> pending (sim_cancel_queue u e) = sched_remove u (pending e)"
proof -
  assume inv: "evq_inv e"
  let ?e = "update_sim_time e"
  have "pending (sim_cancel_queue u e) = due_from (now e) (queue_remove u (sim_clock_queue ?e))"
    by (auto simp: sim_cancel_queue_def Let_def pending_def split: list.splits)
  also have "\<dots> = sched_remove u (due_from (now e) (sim_clock_queue ?e))"
    using inv by (intro due_from_queue_remove) (simp add: evq_inv_def)
  also have "due_from (now e) (sim_clock_queue ?e) = pending e"
    using pending_update [of e] by (simp add: pending_def del: pending_update)
  finally show ?thesis .
qed

lemma now_sim_cancel_queue: "now (sim_cancel_queue u e) = now e"
  by (auto simp: sim_cancel_queue_def Let_def now_eq [of "_\<lparr>sim_interval := _\<rparr>"]
      now_eq [of "_\<lparr>sim_interval := _, noqueue_time := _\<rparr>"] split: list.splits)

lemma pending_do_cancel:
  "evq_inv e \<Longrightarrow> pending (do_cancel ops u e) = sched_remove u (pending e)"
  by (auto simp: do_cancel_eq pending_sim_cancel_queue in_queue_pending sched_remove_def
           intro!: filter_True [symmetric])

lemma now_do_cancel: "now (do_cancel ops u e) = now e"
  by (simp add: do_cancel_eq now_sim_cancel_queue)

lemma sim_clock_queue_cancel [simp]:
  "sim_clock_queue (sim_cancel_queue u e) = queue_remove u (sim_clock_queue (update_sim_time e))"
  by (simp add: sim_cancel_queue_def Let_def split: list.splits)

lemma evq_inv_do_cancel: "evq_inv e \<Longrightarrow> evq_inv (do_cancel ops u e)"
  using distinct_queue_remove [of "sim_clock_queue (update_sim_time e)" u]
    tl_queue_remove_nonneg [of "sim_clock_queue (update_sim_time e)" u]
  by (simp add: do_cancel_eq evq_inv_def)

lemma tick_simps [simp]:
  "pending (tick e) = pending e" "now (tick e) = now e + 1" "evq_inv (tick e) = evq_inv e"
  by (auto simp: tick_def pending_def now_eq evq_inv_def split: list.splits)

lemma sorted_due_from:
  "list_all (\<lambda>p. snd p \<ge> 0) q \<Longrightarrow> sorted (map snd (due_from b q)) \<and> (\<forall>x \<in> set (due_from b q). b \<le> snd x)"
proof (induction b q rule: due_from.induct)
  case (2 b u t q)
  then show ?case by fastforce
qed simp

lemma evq_inv_sorted: "evq_inv e \<Longrightarrow> sorted (map snd (pending e)) \<and> distinct (map fst (pending e))"
proof -
  assume inv: "evq_inv e"
  have "sorted (map snd (pending e))"
  proof (cases "sim_clock_queue e")
    case (Cons p q)
    then show ?thesis
      using inv sorted_due_from [of q] by (cases p) (auto simp: pending_def evq_inv_def)
  qed (simp add: pending_def)
  with inv show ?thesis by (simp add: evq_inv_def pending_def)
qed

interpretation evq: scheduler now pending "do_activate ops" "do_cancel ops" tick evq_inv
  for ops :: "('a evq_scheme) unit_ops"
proof unfold_locales
  fix u t and s :: "'a evq_scheme"
  show "u \<notin> fst ` set (pending s) \<Longrightarrow>
        pending (do_activate ops u t s) = sched_insert u (now s + real_of_int t) (pending s)"
    by (simp add: pending_do_activate in_queue_pending)
  show "u \<in> fst ` set (pending s) \<Longrightarrow> pending (do_activate ops u t s) = pending s"
    by (simp add: do_activate_eq in_queue_pending)
qed (simp_all add: now_do_activate pending_do_cancel now_do_cancel evq_inv_do_activate
      evq_inv_do_cancel evq_inv_sorted)

subsection \<open>The queue as a calendar\<close>

text \<open>One request to the package on behalf of an ordinary unit, or one elapsed instruction.\<close>

fun ev_op :: "('a evq_scheme) unit_ops \<Rightarrow> sched_op \<Rightarrow> 'a evq_scheme \<Rightarrow> 'a evq_scheme" where
  "ev_op ops (Activate u t) e = snd (sim_activate (plain_ops ops) u t e)"
| "ev_op ops (Activate_Abs u t) e = snd (sim_activate_abs (plain_ops ops) u t e)"
| "ev_op ops (Cancel u) e = snd (sim_cancel (plain_ops ops) u e)"
| "ev_op ops Tick e = e\<lparr>sim_interval := sim_interval e - 1\<rparr>"

definition ev_calendar :: "'a evq_scheme \<Rightarrow> calendar" where
  "ev_calendar e = (now e, map_of (pending e))"

lemma ev_op_eq: "ev_op ops a e = evq.op_step ops a e"
  by (cases a) (simp_all add: evq.op_step_def do_activate_def do_cancel_def tick_def
      sim_activate_abs_def sim_activate_def)

lemma ev_calendar_eq: "ev_calendar = evq.calendar_of"
  by (simp add: fun_eq_iff ev_calendar_def evq.calendar_of_def)

lemma ev_op_fold: "fold (ev_op ops) = fold (evq.op_step ops)"
  by (simp add: ev_op_eq fun_eq_iff ext [of "ev_op ops" "evq.op_step ops"])

lemma ev_calendar_run:
  "evq_inv e \<Longrightarrow> evq_inv (fold (ev_op ops) as e) \<and>
     ev_calendar (fold (ev_op ops) as e) = fold cal_step as (ev_calendar e)"
  using evq.calendar_run by (simp add: ev_calendar_eq ev_op_fold)

subsection \<open>Dispatching\<close>

text \<open>
  The service routines of ordinary units, as the schedule sees them: a routine updates the state
  of its device and calls \<^verbatim>\<open>sim_activate\<close>, \<^verbatim>\<open>sim_activate_abs\<close> and
  \<^verbatim>\<open>sim_cancel\<close>, also for its own unit; it changes nothing else of the queue, the clock and
  the stop flag.  A unit without a routine does nothing.
\<close>

definition unit_routines :: "('a evq_scheme) unit_ops \<Rightarrow> 'a routine \<Rightarrow> bool" where
  "unit_routines ops r \<longleftrightarrow>
     (\<forall>u e. (case action ops u of None \<Rightarrow> (SCPE_OK, e) | Some f \<Rightarrow> f e) =
       (let (st, x, as) = r u (evq.more e) in (st, fold (ev_op ops) as (evq.more_update (\<lambda>_. x) e))))"

lemma more_update_simps [simp]:
  "sim_clock_queue (evq.more_update f e) = sim_clock_queue e"
  "sim_interval (evq.more_update f e) = sim_interval e"
  "noqueue_time (evq.more_update f e) = noqueue_time e"
  "sim_vm_time (evq.more_update f e) = sim_vm_time e"
  "sim_rtime (evq.more_update f e) = sim_rtime e"
  "stop_cpu (evq.more_update f e) = stop_cpu e"
  "usecs_remaining (evq.more_update f e) = usecs_remaining e"
  "evq.more (evq.more_update f e) = f (evq.more e)"
  by (cases e; simp)+

lemma evq_more_update [simp]:
  "now (evq.more_update f e) = now e" "pending (evq.more_update f e) = pending e"
  "evq_inv (evq.more_update f e) = evq_inv e"
  by (simp_all add: now_eq pending_def evq_inv_def split: list.split)

text \<open>
  While events are dispatched the clock is up to date, nothing queued lies in the past and no unit
  has a rest of a long delay to wait for.
\<close>

definition dispatching :: "'a evq_scheme \<Rightarrow> bool" where
  "dispatching e \<longleftrightarrow> evq_inv e \<and> sim_vm_time e = now e \<and> \<not> stop_cpu e \<and>
     (\<forall>v. usecs_remaining e v = 0) \<and> (\<forall>p \<in> set (pending e). now e \<le> snd p)"

lemma do_activate_frame:
  "evq.more (do_activate ops u t e) = evq.more e" "stop_cpu (do_activate ops u t e) = stop_cpu e"
  "usecs_remaining (do_activate ops u t e) = usecs_remaining e"
  "sim_vm_time e = now e \<Longrightarrow> sim_vm_time (do_activate ops u t e) = now e"
  by (simp_all add: do_activate_eq Let_def)

lemma do_cancel_frame:
  "evq.more (do_cancel ops u e) = evq.more e" "stop_cpu (do_cancel ops u e) = stop_cpu e"
  "\<forall>v. usecs_remaining e v = 0 \<Longrightarrow> usecs_remaining (do_cancel ops u e) v = 0"
  "sim_vm_time e = now e \<Longrightarrow> sim_vm_time (do_cancel ops u e) = now e"
  by (auto simp: do_cancel_eq sim_cancel_queue_def Let_def split: list.splits)

lemma later_op_pending:
  "later_op a \<Longrightarrow> \<forall>p \<in> set q. n \<le> snd p \<Longrightarrow> \<forall>p \<in> set (sched_step n a q). n \<le> snd p"
  by (cases a) (auto simp: sched_remove_def)

lemma ev_op_dispatching:
  assumes "dispatching e" "later_op a"
  shows "dispatching (ev_op ops a e)" "now (ev_op ops a e) = now e"
    "pending (ev_op ops a e) = sched_step (now e) a (pending e)" "evq.more (ev_op ops a e) = evq.more e"
proof -
  have a: "a \<noteq> Tick" using assms(2) by auto
  show n: "now (ev_op ops a e) = now e" by (simp add: ev_op_eq evq.now_op_step a)
  have inv: "evq_inv e" using assms(1) by (simp add: dispatching_def)
  show p: "pending (ev_op ops a e) = sched_step (now e) a (pending e)"
    by (simp add: ev_op_eq evq.pending_op_step inv)
  show "evq.more (ev_op ops a e) = evq.more e"
    using assms(2) by (cases a) (simp_all add: ev_op_eq evq.op_step_def do_activate_frame do_cancel_frame)
  have "evq_inv (ev_op ops a e)" by (simp add: ev_op_eq evq.inv_op_step inv)
  moreover have "sim_vm_time (ev_op ops a e) = now e \<and> \<not> stop_cpu (ev_op ops a e) \<and>
      (\<forall>v. usecs_remaining (ev_op ops a e) v = 0)"
    using assms by (cases a) (simp_all add: dispatching_def ev_op_eq evq.op_step_def do_activate_frame
        do_cancel_frame now_do_cancel)
  moreover have "\<forall>p \<in> set (pending (ev_op ops a e)). now e \<le> snd p"
    unfolding p using assms by (intro later_op_pending) (simp_all add: dispatching_def)
  ultimately show "dispatching (ev_op ops a e)" by (simp add: dispatching_def n)
qed

lemma ev_ops_dispatching:
  "dispatching e \<Longrightarrow> list_all later_op as \<Longrightarrow> dispatching (fold (ev_op ops) as e) \<and>
     now (fold (ev_op ops) as e) = now e \<and> evq.more (fold (ev_op ops) as e) = evq.more e \<and>
     pending (fold (ev_op ops) as e) = fold (sched_step (now e)) as (pending e)"
  by (induction as arbitrary: e) (simp_all add: ev_op_dispatching)

text \<open>The unlinking of the first unit by the dispatch loop when nothing is overdue.\<close>

definition unlinked :: "(uid \<times> int) list \<Rightarrow> 'a evq_scheme \<Rightarrow> 'a evq_scheme" where
  "unlinked q e =
     (case q of
        [] \<Rightarrow> e\<lparr>sim_clock_queue := [], sim_interval := NOQUEUE_WAIT, noqueue_time := NOQUEUE_WAIT\<rparr>
      | (n, t) # r \<Rightarrow> e\<lparr>sim_clock_queue := q, sim_interval := t\<rparr>)"

lemma unlinked_simps [simp]:
  "sim_clock_queue (unlinked q e) = q" "sim_vm_time (unlinked q e) = sim_vm_time e"
  "stop_cpu (unlinked q e) = stop_cpu e" "usecs_remaining (unlinked q e) = usecs_remaining e"
  "evq.more (unlinked q e) = evq.more e" "now (unlinked q e) = sim_vm_time e"
  "pending (unlinked q e) = due_from (sim_vm_time e) q"
  by (auto simp: unlinked_def now_eq pending_def split: list.splits)

lemma dispatching_head:
  assumes "dispatching e" "sim_clock_queue e = (u, t) # q"
  shows "sim_interval e = t" "0 \<le> t" "pending e = (u, now e + real_of_int t) # due_from (now e + real_of_int t) q"
  using assms by (auto simp: dispatching_def now_eq pending_def)

lemma dispatch_due:
  assumes "unit_routines ops r" "dispatching e" "sim_clock_queue e = (u, t) # q" "t \<le> 0"
    "r u (evq.more e) = (st, x, as)"
  shows "dispatch ops 0 e = Inr (st, 0, fold (ev_op ops) as (evq.more_update (\<lambda>_. x) (unlinked q e)))"
proof -
  have f: "(case action ops u of None \<Rightarrow> (SCPE_OK, unlinked q e) | Some f \<Rightarrow> f (unlinked q e)) =
      (st, fold (ev_op ops) as (evq.more_update (\<lambda>_. x) (unlinked q e)))"
    using assms(1,5) unfolding unit_routines_def by simp
  have t: "sim_interval e = 0" "usecs_remaining e u = 0"
    using dispatching_head [OF assms(2,3)] assms(2,4) by (simp_all add: dispatching_def)
  have e2: "(case q of
       (n, t) # r \<Rightarrow> e\<lparr>sim_clock_queue := q\<rparr>
          \<lparr>sim_interval := (if (0::int) < 0 then - 0 else sim_interval (e\<lparr>sim_clock_queue := q\<rparr>)) + (0 + t)\<rparr>
     | [] \<Rightarrow> e\<lparr>sim_clock_queue := q\<rparr>\<lparr>sim_interval := NOQUEUE_WAIT, noqueue_time := NOQUEUE_WAIT\<rparr>) = unlinked q e"
    using t by (simp add: unlinked_def split: list.split)
  show ?thesis
    unfolding dispatch_def assms(3) list.case prod.case Let_def e2 by (simp add: t f)
qed

lemma dispatching_unlinked:
  assumes "dispatching e" "sim_clock_queue e = (u, t) # q" "t \<le> 0"
  shows "dispatching (evq.more_update g (unlinked q e))" "pending e = (u, now e) # due_from (now e) q"
proof -
  note h = dispatching_head [OF assms(1,2)]
  have nn: "list_all (\<lambda>p. 0 \<le> snd p) q" "distinct (map fst q)"
    using assms by (auto simp: dispatching_def evq_inv_def)
  show p: "pending e = (u, now e) # due_from (now e) q" using h assms(3) by simp
  have "list_all (\<lambda>p. 0 \<le> snd p) (tl q)" using nn(1) by (cases q) simp_all
  with nn sorted_due_from [OF nn(1)] assms show "dispatching (evq.more_update g (unlinked q e))"
    by (simp add: dispatching_def evq_inv_def)
qed

lemma fst_in_due_by:
  "dispatching e \<Longrightarrow> sim_clock_queue e = (u, t) # q \<Longrightarrow> t \<le> 0 \<Longrightarrow>
   due_by (now e) (pending e) = (u, now e) # due_by (now e) (due_from (now e) q)"
  by (simp add: dispatching_unlinked(2) due_by_def)

lemma dispatch_loop_fires:
  assumes "unit_routines ops r" "\<forall>u x. list_all later_op (snd (snd (r u x)))"
  shows "dispatching e \<Longrightarrow> sim_clock_queue e = (u, t) # q \<Longrightarrow> t \<le> 0 \<Longrightarrow>
    length (due_by (now e) (pending e)) \<le> fuel \<Longrightarrow>
    \<exists>us st e'. dispatch_loop fuel ops 0 e = Inr (st, e') \<and>
      fires r (now e) (pending e) (evq.more e) us st (pending e') (evq.more e') \<and>
      dispatching e' \<and> now e' = now e \<and> (st = SCPE_OK \<longrightarrow> sim_clock_queue e' \<noteq> [] \<longrightarrow> 0 < sim_interval e')"
proof (induction fuel arbitrary: e u t q)
  case 0
  then show ?case using fst_in_due_by [OF 0(1-3)] by simp
next
  case (Suc fuel)
  obtain st x as where r: "r u (evq.more e) = (st, x, as)" by (cases "r u (evq.more e)")
  have later: "list_all later_op as" using assms(2) r by (metis snd_conv)
  let ?e1 = "evq.more_update (\<lambda>_. x) (unlinked q e)"
  define e2 where "e2 = fold (ev_op ops) as ?e1"
  have disp: "dispatch ops 0 e = Inr (st, 0, e2)"
    unfolding e2_def by (rule dispatch_due [OF assms(1) Suc.prems(1-3) r])
  have vm: "sim_vm_time e = now e" using Suc.prems(1) by (simp add: dispatching_def)
  have e2: "dispatching e2" "now e2 = now e" "evq.more e2 = x"
    "pending e2 = fold (sched_step (now e)) as (due_from (now e) q)"
    using ev_ops_dispatching [OF dispatching_unlinked(1) [OF Suc.prems(1-3)] later]
    by (simp_all add: e2_def vm)
  have p: "pending e = (u, now e) # due_from (now e) q" by (rule dispatching_unlinked(2) [OF Suc.prems(1-3)])
  show ?case
  proof (cases "st = SCPE_OK \<and> sim_clock_queue e2 \<noteq> [] \<and> sim_interval e2 \<le> 0")
    case True
    then obtain v t' q' where q': "sim_clock_queue e2 = (v, t') # q'" by (cases "sim_clock_queue e2") auto
    have t': "t' \<le> 0" using True dispatching_head(1) [OF e2(1) q'] by simp
    have "length (due_by (now e) (pending e2)) \<le> length (due_by (now e) (due_from (now e) q))"
      using list_emb_length [OF due_by_steps [OF later, of "now e" "due_from (now e) q"]] by (simp add: e2(4))
    then have "length (due_by (now e2) (pending e2)) \<le> fuel"
      using Suc.prems(4) fst_in_due_by [OF Suc.prems(1-3)] by (simp add: e2(2))
    from Suc.IH [OF e2(1) q' t' this] obtain us st' e' where
      "dispatch_loop fuel ops 0 e2 = Inr (st', e')"
      "fires r (now e) (pending e2) x us st' (pending e') (evq.more e')" "dispatching e'" "now e' = now e"
      "st' = SCPE_OK \<longrightarrow> sim_clock_queue e' \<noteq> [] \<longrightarrow> 0 < sim_interval e'"
      unfolding e2(2,3) by blast
    moreover have "fires r (now e) (pending e) (evq.more e) (u # us) st' (pending e') (evq.more e')"
      using calculation(2) r True unfolding p e2(4) by (intro fires_more) simp_all
    ultimately show ?thesis using True disp e2(1) q' by (auto simp: dispatching_def)
  next
    case False
    have loop: "dispatch_loop (Suc fuel) ops 0 e = Inr (st, e2)" using False disp by auto
    have "\<exists>us. fires r (now e) (pending e) (evq.more e) us st (pending e2) x"
    proof (cases "st = SCPE_OK")
      case True
      have "fires r (now e) (pending e2) x [] SCPE_OK (pending e2) x"
      proof (cases "sim_clock_queue e2")
        case Nil
        then show ?thesis by (simp add: pending_def)
      next
        case (Cons a q')
        then obtain v t' where q': "sim_clock_queue e2 = (v, t') # q'" by (cases a) auto
        have "0 < t'" using True False q' dispatching_head(1) [OF e2(1) q'] by simp
        then show ?thesis using dispatching_head(3) [OF e2(1) q'] e2(2) by (simp add: fires_done)
      qed
      then show ?thesis using True r fires_more [of "now e" "now e" r u "evq.more e" x as "due_from (now e) q"]
        unfolding p e2(4) by blast
    next
      case False
      then show ?thesis using r unfolding p e2(4) by (auto intro: fires_stop)
    qed
    then show ?thesis using loop e2 False by force
  qed
qed

lemma set_processing_simps [simp]:
  "now (e\<lparr>sim_processing_event := b\<rparr>) = now e"
  "pending (e\<lparr>sim_processing_event := b\<rparr>) = pending e"
  "evq_inv (e\<lparr>sim_processing_event := b\<rparr>) = evq_inv e"
  by (simp_all add: now_eq pending_def evq_inv_def split: list.split)

lemma update_sim_time_head:
  assumes "sim_clock_queue e \<noteq> []"
  shows "sim_clock_queue (update_sim_time e) = (fst (hd (sim_clock_queue e)), sim_interval e) # tl (sim_clock_queue e)"
  using assms by (auto simp: update_sim_time_def Let_def split: list.splits)

lemma dispatching_start:
  assumes "evq_inv e" "\<not> stop_cpu e" "0 \<le> sim_interval e" "sim_clock_queue e \<noteq> []" "\<forall>v. usecs_remaining e v = 0"
  shows "dispatching ((update_sim_time e)\<lparr>sim_processing_event := True\<rparr>)"
proof -
  have nn: "list_all (\<lambda>p. 0 \<le> snd p) (tl (sim_clock_queue e))" using assms(1) by (simp add: evq_inv_def)
  have "pending e = due_from (now e) ((fst (hd (sim_clock_queue e)), sim_interval e) # tl (sim_clock_queue e))"
    using pending_update [of e] assms(4) by (simp add: pending_def update_sim_time_head del: pending_update)
  then have "\<forall>p \<in> set (pending e). now e \<le> snd p"
    using sorted_due_from [of "(_, sim_interval e) # tl (sim_clock_queue e)" "now e"] nn assms(3) by simp
  with assms show ?thesis by (simp add: dispatching_def)
qed

lemma process_event_fires:
  assumes "unit_routines ops r" "\<forall>u x. list_all later_op (snd (snd (r u x)))" "evq_inv e" "\<not> stop_cpu e"
    "sim_interval e = 0" "sim_clock_queue e \<noteq> []" "\<forall>v. usecs_remaining e v = 0" "length (sim_clock_queue e) \<le> fuel"
  shows "\<exists>us st e'. sim_process_event fuel ops e = Inr (st, e') \<and>
    fires r (now e) (pending e) (evq.more e) us st (pending e') (evq.more e') \<and>
    now e' = now e \<and> evq_inv e' \<and> (st = SCPE_OK \<longrightarrow> 0 < sim_interval e')"
proof -
  let ?e = "(update_sim_time e)\<lparr>sim_processing_event := True\<rparr>"
  have start: "dispatching ?e" using assms by (intro dispatching_start) simp_all
  have q: "sim_clock_queue ?e = (fst (hd (sim_clock_queue e)), 0) # tl (sim_clock_queue e)"
    using assms by (simp add: update_sim_time_head)
  have "length (due_by (now ?e) (pending ?e)) \<le> fuel"
  proof -
    have "length (due_by (now ?e) (pending ?e)) \<le> length (pending e)" by (simp add: due_by_def)
    also have "\<dots> = length (sim_clock_queue e)" by (metis length_map map_fst_due_from pending_def)
    finally show ?thesis using assms(8) by simp
  qed
  from dispatch_loop_fires [OF assms(1,2) start q _ this] obtain us st e4 where
    loop: "dispatch_loop fuel ops 0 ?e = Inr (st, e4)"
    and e4: "fires r (now e) (pending e) (evq.more e) us st (pending e4) (evq.more e4)" "dispatching e4" "now e4 = now e"
      "st = SCPE_OK \<longrightarrow> sim_clock_queue e4 \<noteq> [] \<longrightarrow> 0 < sim_interval e4"
    by auto
  define e5 where "e5 = (if sim_clock_queue e4 = [] then e4\<lparr>sim_interval := NOQUEUE_WAIT, noqueue_time := NOQUEUE_WAIT\<rparr> else e4)"
  have "sim_process_event fuel ops e = Inr (st, e5\<lparr>sim_processing_event := False\<rparr>)"
    using assms(4,5,6) loop e4(2) by (auto simp: sim_process_event_def Let_def e5_def dispatching_def)
  moreover have "pending e5 = pending e4" "evq.more e5 = evq.more e4" "evq_inv e5" "now e5 = now e"
    "st = SCPE_OK \<longrightarrow> 0 < sim_interval e5"
    using e4 by (auto simp: e5_def pending_def dispatching_def evq_inv_def now_eq)
  ultimately show ?thesis
    using e4(1) by (intro exI [of _ us] exI [of _ st] exI [of _ "e5\<lparr>sim_processing_event := False\<rparr>"]) simp
qed

subsection \<open>Overdue events\<close>

lemma process_overdue_last:
  assumes "\<forall>f e0. action ops u = Some f \<longrightarrow> sim_clock_queue e0 = [] \<longrightarrow> sim_clock_queue (snd (f e0)) = []"
    "\<not> stop_cpu e" "sim_interval e \<le> -2" "sim_clock_queue e = [(u, t)]" "usecs_remaining e u = 0"
  shows "sim_process_event (Suc fuel) ops e = Inl Sentinel_Deref"
proof (cases "action ops u")
  case None
  with assms(2-) show ?thesis
    by (cases e) (simp add: sim_process_event_def update_sim_time_def dispatch_def Let_def)
next
  case (Some f)
  with assms(1) have f: "sim_clock_queue e0 = [] \<Longrightarrow> sim_clock_queue (snd (f e0)) = []" for e0 by blast
  from Some assms(2-) show ?thesis
    by (cases e) (simp add: sim_process_event_def update_sim_time_def dispatch_def Let_def case_prod_beta f)
qed

lemma process_overdue_skew:
  assumes "action ops u = Some (\<lambda>e. (SCPE_OK, evq.more_update g e))" "\<not> stop_cpu e" "sim_interval e = - k" "2 \<le> k"
    "sim_clock_queue e = [(u, t), (v, d)]" "k < 2 * d" "usecs_remaining e u = 0"
  shows "\<exists>e'. sim_process_event (Suc fuel) ops e = Inr (SCPE_OK, e') \<and>
     pending e = [(u, now e - real_of_int k), (v, now e - real_of_int k + real_of_int d)] \<and>
     pending e' = [(v, now e - real_of_int k + 2 * real_of_int d)]"
  using assms by (cases e) (auto simp: sim_process_event_def update_sim_time_def dispatch_def
      Let_def pending_def now_eq)

subsection \<open>Time to activation\<close>

lemma queue_time_due:
  "map_of (due_from b q) u = Some d \<Longrightarrow> real_of_int (queue_time u a q) = d - b + real_of_int a + 1"
  by (induction u a q arbitrary: b rule: queue_time.induct) (fastforce split: if_splits)+

lemma queue_time_absent: "u \<notin> fst ` set q \<Longrightarrow> queue_time u a q = 0"
  by (induction u a q rule: queue_time.induct) auto

lemma activate_queue_time_due:
  assumes "0 \<le> sim_interval e" "map_of (pending e) u = Some d"
  shows "real_of_int (sim_activate_queue_time u e) = d - now e + 1"
proof -
  obtain c t q where q: "sim_clock_queue e = (c, t) # q"
    using assms(2) by (cases "sim_clock_queue e") (auto simp: pending_def)
  show ?thesis
  proof (cases "c = u")
    case True
    with assms q show ?thesis by (auto simp: pending_def sim_activate_queue_time_def now_eq)
  next
    case False
    with assms(2) q have "map_of (due_from (sim_vm_time e + real_of_int t) q) u = Some d"
      by (simp add: pending_def)
    from queue_time_due [OF this] False assms(1) q show ?thesis
      by (auto simp: sim_activate_queue_time_def now_eq Let_def)
  qed
qed

lemma activate_queue_time_idle: "\<not> in_queue u e \<Longrightarrow> sim_activate_queue_time u e = 0"
  by (auto simp: sim_activate_queue_time_def in_queue_def queue_time_absent Let_def split: list.splits)

subsection \<open>Absence of 32-bit overflow\<close>

text \<open>The intermediate results \<^verbatim>\<open>_sim_activate\<close> computes, in order.\<close>

fun insert_values :: "int \<Rightarrow> int \<Rightarrow> (uid \<times> int) list \<Rightarrow> int list" where
  "insert_values event_time accum [] = [event_time - accum]"
| "insert_values event_time accum ((c, t) # q) =
     (accum + t) # (if event_time < accum + t
                    then [event_time - accum, t - (event_time - accum)]
                    else insert_values event_time (accum + t) q)"

text \<open>With the elapsed time of \<^verbatim>\<open>UPDATE_SIM_TIME\<close>, which comes first.\<close>

definition activate_values :: "int \<Rightarrow> 'a evq_scheme \<Rightarrow> int list" where
  "activate_values event_time e =
     ((case sim_clock_queue e of [] \<Rightarrow> noqueue_time e | (u, t) # q \<Rightarrow> t) - sim_interval e) #
     insert_values event_time 0 (sim_clock_queue (update_sim_time e))"

definition horizon :: "(uid \<times> int) list \<Rightarrow> int" where
  "horizon q = sum_list (map snd q)"

lemma horizon_nonneg: "list_all (\<lambda>p. snd p \<ge> 0) q \<Longrightarrow> 0 \<le> horizon q"
  by (induction q) (auto simp: horizon_def)

lemma insert_values_bound:
  assumes "list_all (\<lambda>p. snd p \<ge> 0) q" "0 \<le> a" "a \<le> t" "t \<le> B" "a + horizon q \<le> B"
  shows "list_all (\<lambda>x. 0 \<le> x \<and> x \<le> B) (insert_values t a q)"
  using assms
proof (induction t a q rule: insert_values.induct)
  case (2 t a c x q)
  then have "0 \<le> horizon q" by (simp add: horizon_nonneg)
  with 2 show ?case by (auto simp: horizon_def)
qed simp

lemma horizon_queue_insert:
  "a \<le> t \<Longrightarrow> list_all (\<lambda>p. snd p \<ge> 0) q \<Longrightarrow> a + horizon (queue_insert u t a q) = max t (a + horizon q)"
proof (induction u t a q rule: queue_insert.induct)
  case (2 u t a c x q)
  then have "0 \<le> horizon q" by (simp add: horizon_nonneg)
  with 2 show ?case by (auto simp: horizon_def)
qed (simp add: horizon_def)

subsection \<open>What dispatching leaves alone\<close>

text \<open>A predicate the service routines keep and the queue's own fields do not enter.\<close>

definition units_keep :: "('e \<Rightarrow> bool) \<Rightarrow> 'e unit_ops \<Rightarrow> bool" where
  "units_keep P ops \<longleftrightarrow>
     (\<forall>u f e. action ops u = Some f \<longrightarrow> P e \<longrightarrow> P (snd (f e))) \<and>
     (\<forall>u d e. P e \<longrightarrow> P (snd (sim_timer_activate_after ops u d e)))"

definition queue_free :: "('a evq_scheme \<Rightarrow> bool) \<Rightarrow> bool" where
  "queue_free P \<longleftrightarrow>
     (\<forall>e q i n v r c p f. P (e\<lparr>sim_clock_queue := q\<rparr>) = P e \<and> P (e\<lparr>sim_interval := i\<rparr>) = P e \<and>
        P (e\<lparr>noqueue_time := n\<rparr>) = P e \<and> P (e\<lparr>sim_vm_time := v\<rparr>) = P e \<and> P (e\<lparr>sim_rtime := r\<rparr>) = P e \<and>
        P (e\<lparr>stop_cpu := c\<rparr>) = P e \<and> P (e\<lparr>sim_processing_event := p\<rparr>) = P e \<and>
        P (e\<lparr>usecs_remaining := f\<rparr>) = P e)"

lemma update_sim_time_keeps: "queue_free P \<Longrightarrow> P (update_sim_time e) = P e"
  by (simp add: update_sim_time_def queue_free_def Let_def split: list.split)

text \<open>The entry points of the timer package and a unit's own \<^verbatim>\<open>cancel\<close> keep a predicate.\<close>

definition timers_keep :: "('e \<Rightarrow> bool) \<Rightarrow> 'e unit_ops \<Rightarrow> bool" where
  "timers_keep P ops \<longleftrightarrow>
     (\<forall>u t e. P e \<longrightarrow> P (snd (sim_timer_activate ops u t e))) \<and>
     (\<forall>u d e. P e \<longrightarrow> P (snd (sim_timer_activate_after ops u d e))) \<and>
     (\<forall>u e. P e \<longrightarrow> P (snd (sim_timer_cancel ops u e))) \<and> (\<forall>u e. P e \<longrightarrow> P (snd (cancel ops u e)))"

lemma sim_activate_keeps:
  assumes "queue_free P" "timers_keep P ops" "P e"
  shows "P (snd (sim_activate ops u t e))" "P (snd (sim_activate0 ops u t e))"
proof -
  show 0: "P (snd (sim_activate0 ops u t e))"
    using assms(1,3) by (simp add: sim_activate0_def Let_def update_sim_time_keeps) (simp add: queue_free_def update_sim_time_keeps)
  show "P (snd (sim_activate ops u t e))" using assms 0 by (simp add: sim_activate_def timers_keep_def)
qed

lemma sim_activate_after_keeps:
  "timers_keep P ops \<Longrightarrow> P e \<Longrightarrow> P (snd (sim_activate_after ops u d e))"
  by (simp add: sim_activate_after_def sim_activate_after0_def timers_keep_def)

lemma sim_cancel_keeps:
  assumes free: "queue_free P" and ops: "timers_keep P ops" and e: "P e"
  shows "P (snd (sim_cancel ops u e))"
proof -
  have q: "P (sim_cancel_queue u e') = P e'" for e'
    using free update_sim_time_keeps [OF free, of e']
    by (simp add: sim_cancel_queue_def Let_def queue_free_def split: list.split)
  obtain c e0 where c: "cancel ops u e = (c, e0)" by fastforce
  have e0: "P e0" using ops e c unfolding timers_keep_def by (metis snd_conv)
  define p where "p = (if tmr_unit ops u e0 then sim_timer_cancel ops u e0 else (SCPE_OK, e0))"
  have "P (snd p)" using ops e0 by (simp add: p_def timers_keep_def)
  with e0 c q show ?thesis by (simp add: sim_cancel_def case_prod_beta flip: p_def)
qed

lemma sim_activate_abs_keeps:
  "queue_free P \<Longrightarrow> timers_keep P ops \<Longrightarrow> P e \<Longrightarrow> P (snd (sim_activate_abs ops u t e))"
  by (simp add: sim_activate_abs_def sim_activate_keeps(2) sim_cancel_keeps)

lemma dispatch_keeps:
  assumes ops: "units_keep P ops" and free: "queue_free P" and "P e" "dispatch ops c e = Inr (r, c', e')"
  shows "P e'"
proof -
  obtain u t q where q: "sim_clock_queue e = (u, t) # q"
    using assms(4) by (cases "sim_clock_queue e") (auto simp: dispatch_def)
  define e2 where "e2 = (case q of
      (n, t) # r \<Rightarrow> e\<lparr>sim_clock_queue := q\<rparr>
         \<lparr>sim_interval := (if c < 0 then - c else sim_interval (e\<lparr>sim_clock_queue := q\<rparr>)) + (c + t)\<rparr>
    | [] \<Rightarrow> e\<lparr>sim_clock_queue := q\<rparr>\<lparr>sim_interval := NOQUEUE_WAIT, noqueue_time := NOQUEUE_WAIT\<rparr>)"
  have e2: "P e2" using free assms(3) by (auto simp: e2_def queue_free_def split: list.splits)
  define run where "run = (if usecs_remaining e2 u \<noteq> 0 then sim_timer_activate_after ops u (usecs_remaining e2 u) e2
       else case action ops u of None \<Rightarrow> (SCPE_OK, e2) | Some f \<Rightarrow> f e2)"
  have e3: "P (snd run)" using ops e2 by (auto simp: run_def units_keep_def split: option.splits)
  have d: "dispatch ops c e = (let (reason, e3) = run in
      if c < -1 then (case sim_clock_queue e3 of [] \<Rightarrow> Inl Sentinel_Deref
        | (n, t) # r \<Rightarrow> Inr (reason, c + t, e3\<lparr>sim_vm_time := sim_vm_time e3 + real_of_int t,
             sim_rtime := sim_rtime e3 + of_int t\<rparr>)) else Inr (reason, 0, e3))"
    unfolding dispatch_def q list.case prod.case Let_def run_def e2_def by (rule refl)
  show ?thesis
    using assms(4) e3 free unfolding d queue_free_def by (auto split: prod.splits if_splits list.splits)
qed

lemma dispatch_loop_keeps:
  assumes "units_keep P ops" "queue_free P"
  shows "P e \<Longrightarrow> dispatch_loop fuel ops c e = Inr (r, e') \<Longrightarrow> P e'"
proof (induction fuel arbitrary: c e)
  case (Suc fuel)
  obtain r1 c1 e1 where d: "dispatch ops c e = Inr (r1, c1, e1)"
    using Suc.prems(2) by (cases "dispatch ops c e") auto
  then have "P e1" by (rule dispatch_keeps [OF assms Suc.prems(1)])
  with d Suc show ?case by (auto split: if_splits)
qed simp

lemma process_event_keeps:
  assumes ops: "units_keep P ops" and free: "queue_free P" and "P e" "sim_process_event fuel ops e = Inr (r, e')"
  shows "P e'"
proof -
  have up: "P (update_sim_time e) = P e" for e by (rule update_sim_time_keeps [OF free])
  note fr = free [unfolded queue_free_def, rule_format]
  define e1 where "e1 = update_sim_time e"
  have e1: "P e1" using up assms(3) by (simp add: e1_def)
  show ?thesis
  proof (cases "stop_cpu e \<or> 0 < sim_interval e1 \<or> sim_clock_queue e1 = []")
    case True
    then show ?thesis
      using assms(3,4) e1 fr by (auto simp: sim_process_event_def Let_def simp flip: e1_def split: if_splits)
  next
    case False
    define p where "p = (if sim_interval e1 < 0
      then let e' = update_sim_time (e1\<lparr>sim_processing_event := True, sim_interval := 0\<rparr>);
               t = snd (hd (sim_clock_queue e'))
           in (sim_interval e1, e'\<lparr>sim_vm_time := sim_vm_time e' - real_of_int t, sim_rtime := sim_rtime e' - of_int t\<rparr>)
      else (0, e1\<lparr>sim_processing_event := True\<rparr>))"
    have p: "P (snd p)" using e1 fr up by (simp add: p_def Let_def)
    have ev: "sim_process_event fuel ops e = (case dispatch_loop fuel ops (fst p) (snd p) of Inl f \<Rightarrow> Inl f
      | Inr (reason, e4) \<Rightarrow>
         (let e5 = (if sim_clock_queue e4 = [] then e4\<lparr>sim_interval := NOQUEUE_WAIT, noqueue_time := NOQUEUE_WAIT\<rparr> else e4);
              (reason', e6) = (if reason = SCPE_OK \<and> stop_cpu e5 then (SCPE_STOP, e5\<lparr>stop_cpu := False\<rparr>) else (reason, e5))
          in Inr (reason', e6\<lparr>sim_processing_event := False\<rparr>)))"
      using False by (simp add: sim_process_event_def Let_def p_def case_prod_beta flip: e1_def)
    obtain r4 e4 where d: "dispatch_loop fuel ops (fst p) (snd p) = Inr (r4, e4)"
      using assms(4) by (cases "dispatch_loop fuel ops (fst p) (snd p)") (auto simp: ev)
    have "P e4" using dispatch_loop_keeps [OF ops free p d] .
    with assms(4) fr show ?thesis by (auto simp: ev d Let_def split: if_splits)
  qed
qed

subsection \<open>Properties\<close>

text \<open>A machine whose service routines record their unit.\<close>

definition log_ops :: "(uid list evq_scheme) unit_ops" where
  "log_ops = \<lparr>action = (\<lambda>u. Some (\<lambda>e. (SCPE_OK, evq.more_update (\<lambda>l. l @ [u]) e))),
     cancel = (\<lambda>u e. (False, e)), tmr_unit = (\<lambda>u e. False), sim_timer_is_active = (\<lambda>u e. False),
     sim_timer_cancel = (\<lambda>u e. (SCPE_OK, e)), sim_timer_activate = (\<lambda>u t e. (SCPE_OK, e)),
     sim_timer_activate_after = (\<lambda>u d e. (SCPE_OK, e)), sim_timer_activate_time = (\<lambda>u e. -1),
     sim_timer_inst_per_sec = (\<lambda>e. 1)\<rparr>"

definition ev_log :: "(uid \<times> int) list \<Rightarrow> int \<Rightarrow> uid list evq_scheme" where
  "ev_log q i = \<lparr>sim_clock_queue = q, sim_interval = i, noqueue_time = NOQUEUE_WAIT, sim_vm_time = 0, sim_rtime = 0,
     stop_cpu = False, sim_processing_event = False, usecs_remaining = (\<lambda>u. 0), \<dots> = []\<rparr>"

lemma ev_op_ops: "ev_op ops a e = ev_op ops' a e"
  by (cases a) (simp_all add: ev_op_eq evq.op_step_def do_activate_eq do_cancel_eq)

lemma ev_op_log: "ev_op ops = ev_op log_ops"
  using ev_op_ops by blast

text \<open>One in which, besides, unit 3 polls: its routine queues it again, five instructions later.\<close>

definition poll_routine :: "uid list routine" where
  "poll_routine u l = (SCPE_OK, l @ [u], if u = 3 then [Activate 3 5] else [])"

definition poll_ops :: "(uid list evq_scheme) unit_ops" where
  "poll_ops = log_ops\<lparr>action := (\<lambda>u. Some (\<lambda>e. let (st, l, as) = poll_routine u (evq.more e)
     in (st, fold (ev_op log_ops) as (evq.more_update (\<lambda>_. l) e))))\<rparr>"

lemma poll_ops_routines: "unit_routines poll_ops poll_routine"
  by (simp add: unit_routines_def ev_op_log [of poll_ops]) (simp add: poll_ops_def)

lemma poll_routine_later: "list_all later_op (snd (snd (poll_routine u l)))"
  "list_all (\<lambda>a. \<not> withdraws a) (snd (snd (poll_routine u l)))"
  by (simp_all add: poll_routine_def)

lemma ev_log_simps [simp]:
  "sim_clock_queue (ev_log q i) = q" "sim_interval (ev_log q i) = i" "\<not> stop_cpu (ev_log q i)"
  "usecs_remaining (ev_log q i) u = 0" "evq.more (ev_log q i) = []" "sim_vm_time (ev_log q i) = 0"
  "noqueue_time (ev_log q i) = NOQUEUE_WAIT"
  by (simp_all add: ev_log_def)

text \<open>
  C1. Refinement: after any sequence of \<^verbatim>\<open>sim_activate\<close>, \<^verbatim>\<open>sim_activate_abs\<close>,
  \<^verbatim>\<open>sim_cancel\<close> and elapsed instructions, the clock and the absolute due time of every unit
  that the relative-time queue represents are those of a calendar that stores due times directly;
  the queue's invariant is kept.
\<close>

theorem event_queue_is_calendar:
  "evq_inv e \<Longrightarrow> evq_inv (fold (ev_op ops) as e) \<and>
     ev_calendar (fold (ev_op ops) as e) = fold cal_step as (ev_calendar e)"
  by (rule ev_calendar_run)

theorem event_queue_is_calendar_witness:
  "ev_calendar (fold (ev_op log_ops) [Activate 1 5, Tick, Activate 2 2, Cancel 1] (ev_log [] NOQUEUE_WAIT)) =
   (1, [2 \<mapsto> 3])"
  using event_queue_is_calendar [of "ev_log [] NOQUEUE_WAIT" log_ops "[Activate 1 5, Tick, Activate 2 2, Cancel 1]"]
  by (simp add: evq_inv_def ev_calendar_def now_eq pending_def)

text \<open>
  \<^verbatim>\<open>sim_activate\<close> of an idle unit puts it in front of the units due strictly later and
  behind all others: units due at the same time fire in the order they were activated.
\<close>

lemma activate_keeps_order:
  assumes "evq_inv e" "\<not> in_queue u e"
  shows "pending (snd (sim_activate (plain_ops ops) u t e)) =
    takeWhile (\<lambda>p. snd p \<le> now e + real_of_int t) (pending e) @ (u, now e + real_of_int t) #
    dropWhile (\<lambda>p. snd p \<le> now e + real_of_int t) (pending e)"
  using evq.activate_is_fifo [OF assms(1), of u ops t] assms(2) by (simp add: do_activate_def in_queue_pending)

text \<open>
  C2. Let the first event be due now (\<^verbatim>\<open>sim_interval\<close> is 0, nothing is overdue), no stop be
  requested and no unit wait for the rest of a long delay, and let the service routines do no more
  than update their devices, return any status and activate, reactivate or cancel any ordinary
  unit, their own too, where an activation is for later (a positive delay).  Then
  \<^verbatim>\<open>sim_process_event\<close> returns, and what it did is what the abstract schedule does: it took
  the first due unit off, ran its routine and carried out its requests, again and again until no
  unit was due or a routine returned a status other than \<^verbatim>\<open>SCPE_OK\<close>, which it returns.  The
  units run are due ones in queue order; they are all the due ones if no routine cancels or
  reactivates and all return \<^verbatim>\<open>SCPE_OK\<close>.  The time is unchanged, the invariant is kept, and
  after \<^verbatim>\<open>SCPE_OK\<close> the interval is positive.
\<close>

theorem process_event_runs_due:
  assumes "unit_routines ops r" "\<forall>u x. list_all later_op (snd (snd (r u x)))" "evq_inv e" "\<not> stop_cpu e"
    "sim_interval e = 0" "sim_clock_queue e \<noteq> []" "\<forall>v. usecs_remaining e v = 0" "length (sim_clock_queue e) \<le> fuel"
  shows "\<exists>us st e'. sim_process_event fuel ops e = Inr (st, e') \<and>
    fires r (now e) (pending e) (evq.more e) us st (pending e') (evq.more e') \<and>
    subseq us (map fst (due_by (now e) (pending e))) \<and>
    (st = SCPE_OK \<and> (\<forall>u x. list_all (\<lambda>a. \<not> withdraws a) (snd (snd (r u x)))) \<longrightarrow>
       us = map fst (due_by (now e) (pending e))) \<and>
    now e' = now e \<and> evq_inv e' \<and> (st = SCPE_OK \<longrightarrow> 0 < sim_interval e')"
proof -
  obtain us st e' where e': "sim_process_event fuel ops e = Inr (st, e')"
    "fires r (now e) (pending e) (evq.more e) us st (pending e') (evq.more e')"
    "now e' = now e \<and> evq_inv e' \<and> (st = SCPE_OK \<longrightarrow> 0 < sim_interval e')"
    using process_event_fires [OF assms] by blast
  moreover have "subseq us (map fst (due_by (now e) (pending e)))" by (rule fires_subseq [OF e'(2) assms(2)])
  moreover have "us = map fst (due_by (now e) (pending e))"
    if "st = SCPE_OK" "\<forall>u x. list_all (\<lambda>a. \<not> withdraws a) (snd (snd (r u x)))"
    using fires_all [OF e'(2) that(1)] that(2) assms(2) evq_inv_sorted [OF assms(3)] by blast
  ultimately show ?thesis by blast
qed

theorem process_event_runs_due_witness:
  "\<exists>e'. sim_process_event 3 poll_ops (ev_log [(3, 0), (1, 0), (2, 7)] 0) = Inr (SCPE_OK, e') \<and>
    evq.more e' = [3, 1] \<and> pending e' = [(3, 5), (2, 7)] \<and> 0 < sim_interval e'"
proof -
  let ?e = "ev_log [(3, 0), (1, 0), (2, 7)] 0"
  obtain us st e' where "sim_process_event 3 poll_ops ?e = Inr (st, e')"
    "fires poll_routine (now ?e) (pending ?e) (evq.more ?e) us st (pending e') (evq.more e')"
    "st = SCPE_OK \<longrightarrow> 0 < sim_interval e'"
    using process_event_runs_due [OF poll_ops_routines, of ?e 3] poll_routine_later
    by (auto simp: evq_inv_def)
  then show ?thesis
    by (auto simp: now_eq pending_def fires_Cons poll_routine_def)
qed

text \<open>
  C38. The catch-up code follows the end marker of the queue: when the only queued unit is at
  least two instructions overdue and its service routine, if it has one, leaves an empty queue
  empty (it queues no unit), \<^verbatim>\<open>sim_process_event\<close> reads \<^verbatim>\<open>sim_clock_queue->time\<close> through
  \<^verbatim>\<open>QUEUE_LIST_END\<close> after running it.
\<close>

theorem overdue_last_event_faults:
  assumes "\<forall>f e0. action ops u = Some f \<longrightarrow> sim_clock_queue e0 = [] \<longrightarrow> sim_clock_queue (snd (f e0)) = []"
    "\<not> stop_cpu e" "sim_interval e \<le> -2" "sim_clock_queue e = [(u, t)]" "usecs_remaining e u = 0"
  shows "sim_process_event (Suc fuel) ops e = Inl Sentinel_Deref"
  using assms by (rule process_overdue_last)

theorem overdue_last_event_faults_witness:
  "sim_process_event 1 log_ops (ev_log [(4, -2)] (-2)) = Inl Sentinel_Deref"
  using overdue_last_event_faults [of log_ops 4 "ev_log [(4, -2)] (-2)" "-2" 0] by (force simp: log_ops_def)

text \<open>
  C34. No intermediate result of \<^verbatim>\<open>sim_activate\<close> of an ordinary unit overflows 32 bits, the
  elapsed time of \<^verbatim>\<open>UPDATE_SIM_TIME\<close> included: when \<^verbatim>\<open>sim_interval\<close> is not negative and
  no larger than the first delay (or, with nothing queued, \<^verbatim>\<open>noqueue_time\<close>), with non-negative
  delays behind it, and the sum of the delays, \<^verbatim>\<open>noqueue_time\<close> and the new delay are below
  \<open>2^31\<close>, all of them stay in range and the sum of the new queue does too.
\<close>

theorem activate_no_overflow:
  assumes "list_all (\<lambda>p. snd p \<ge> 0) (tl (sim_clock_queue e))" "0 \<le> sim_interval e"
    "sim_interval e \<le> (case sim_clock_queue e of [] \<Rightarrow> noqueue_time e | (u, t) # q \<Rightarrow> t)"
    "noqueue_time e < 2 ^ 31" "0 \<le> t" "t < 2 ^ 31" "horizon (sim_clock_queue e) < 2 ^ 31"
  shows "list_all (\<lambda>x. 0 \<le> x \<and> x < 2 ^ 31) (activate_values t e) \<and>
    horizon (sim_clock_queue (snd (sim_activate (plain_ops ops) u t e))) < 2 ^ 31"
proof
  let ?q = "sim_clock_queue (update_sim_time e)"
  have nn: "list_all (\<lambda>p. snd p \<ge> 0) ?q"
    using assms(1,2) by (cases "sim_clock_queue e") (simp_all add: update_sim_time_def Let_def case_prod_beta)
  have h: "horizon ?q < 2 ^ 31"
    using assms(3,7) by (cases "sim_clock_queue e") (auto simp: horizon_def update_sim_time_def Let_def)
  have "list_all (\<lambda>x. 0 \<le> x \<and> x \<le> 2 ^ 31 - 1) (insert_values t 0 ?q)"
    using nn h assms(5,6) by (intro insert_values_bound) simp_all
  moreover have "(case sim_clock_queue e of [] \<Rightarrow> noqueue_time e | (u, t) # q \<Rightarrow> t) < 2 ^ 31"
    using assms(1,4,7) horizon_nonneg [of "tl (sim_clock_queue e)"]
    by (auto simp: horizon_def split: list.split)
  ultimately show "list_all (\<lambda>x. 0 \<le> x \<and> x < 2 ^ 31) (activate_values t e)"
    using assms(2,3) by (auto simp: activate_values_def list_all_iff)
  show "horizon (sim_clock_queue (snd (sim_activate (plain_ops ops) u t e))) < 2 ^ 31"
    using assms(7) nn h assms(5,6) horizon_queue_insert [of 0 t ?q u]
    by (simp add: sim_activate_def sim_activate0_def Let_def)
qed

theorem activate_no_overflow_witness:
  "horizon (sim_clock_queue (snd (sim_activate (plain_ops log_ops) 9 2147483647
     (ev_log [(1, 2147483000), (2, 647)] 2147483000)))) < 2 ^ 31"
  using activate_no_overflow [of "ev_log [(1, 2147483000), (2, 647)] 2147483000" 2147483647 log_ops 9]
  by (simp add: horizon_def)

end
