(* ===== verification/CString.thy ===== *)
theory CString
  imports Prelude
begin

text \<open>
  Characters and C strings: the ASCII classification of \<^verbatim>\<open>src/src/lib/sim_ctype.c\<close>, the
  bounded copies of \<^verbatim>\<open>src/src/compat/strlcpy.c\<close> and \<^verbatim>\<open>strlcat.c\<close>, and the trimming of
  \<^verbatim>\<open>src/src/runtime/sim_fio.c\<close>.  A \<^verbatim>\<open>char *\<close> that walks over a NUL-terminated
  string is the list of the characters still ahead of it; the terminator is read at the end of
  the list.  A \<^verbatim>\<open>char\<close> is promoted to a signed \<^verbatim>\<open>int\<close>.
\<close>

subsection \<open>Reading through a pointer\<close>

abbreviation (input) NUL :: char where "NUL \<equiv> CHR 0x00"

definition deref :: "string \<Rightarrow> char" where
  "deref s = (case s of [] \<Rightarrow> NUL | c # _ \<Rightarrow> c)"

definition cint :: "char \<Rightarrow> int" where
  "cint c = (let n = of_char c in if n < 128 then n else n - 256)"

definition cstring :: "string \<Rightarrow> bool" where
  "cstring s \<longleftrightarrow> NUL \<notin> set s"

subsection \<open>Classification\<close>

text \<open>The standard library's predicates in the C locale.\<close>

definition isspace_C :: "int \<Rightarrow> bool" where "isspace_C c \<longleftrightarrow> c = 32 \<or> 9 \<le> c \<and> c \<le> 13"
definition isalpha_C :: "int \<Rightarrow> bool" where "isalpha_C c \<longleftrightarrow> 65 \<le> c \<and> c \<le> 90 \<or> 97 \<le> c \<and> c \<le> 122"
definition isprint_C :: "int \<Rightarrow> bool" where "isprint_C c \<longleftrightarrow> 32 \<le> c \<and> c \<le> 126"
definition isgraph_C :: "int \<Rightarrow> bool" where "isgraph_C c \<longleftrightarrow> 33 \<le> c \<and> c \<le> 126"
definition isalnum_C :: "int \<Rightarrow> bool" where "isalnum_C c \<longleftrightarrow> isalpha_C c \<or> 48 \<le> c \<and> c \<le> 57"

definition sim_isspace :: "int \<Rightarrow> bool" where
  "sim_isspace c \<longleftrightarrow> 0 \<le> c \<and> c < 128 \<and> isspace_C c"

definition sim_islower :: "int \<Rightarrow> bool" where
  "sim_islower c \<longleftrightarrow> 97 \<le> c \<and> c \<le> 122"

definition sim_isupper :: "int \<Rightarrow> bool" where
  "sim_isupper c \<longleftrightarrow> 65 \<le> c \<and> c \<le> 90"

definition sim_isalpha :: "int \<Rightarrow> bool" where
  "sim_isalpha c \<longleftrightarrow> 0 \<le> c \<and> c < 128 \<and> isalpha_C c"

definition sim_isprint :: "int \<Rightarrow> bool" where
  "sim_isprint c \<longleftrightarrow> 0 \<le> c \<and> c < 128 \<and> isprint_C c"

definition sim_isdigit :: "int \<Rightarrow> bool" where
  "sim_isdigit c \<longleftrightarrow> 48 \<le> c \<and> c \<le> 57"

definition sim_isgraph :: "int \<Rightarrow> bool" where
  "sim_isgraph c \<longleftrightarrow> 0 \<le> c \<and> c < 128 \<and> isgraph_C c"

definition sim_isalnum :: "int \<Rightarrow> bool" where
  "sim_isalnum c \<longleftrightarrow> 0 \<le> c \<and> c < 128 \<and> isalnum_C c"

definition sim_toupper :: "int \<Rightarrow> int" where
  "sim_toupper c = (if 97 \<le> c \<and> c \<le> 122 then c - 97 + 65 else c)"

definition sim_tolower :: "int \<Rightarrow> int" where
  "sim_tolower c = (if 65 \<le> c \<and> c \<le> 90 then c - 65 + 97 else c)"

lemmas ctype_defs =
  isspace_C_def isalpha_C_def isprint_C_def isgraph_C_def isalnum_C_def
  sim_isspace_def sim_islower_def sim_isupper_def sim_isalpha_def sim_isprint_def
  sim_isdigit_def sim_isgraph_def sim_isalnum_def sim_toupper_def sim_tolower_def

text \<open>The cast \<^verbatim>\<open>(char)\<close> of an \<^verbatim>\<open>int\<close>.\<close>

definition to_char :: "int \<Rightarrow> char" where
  "to_char n = char_of n"

lemma cint_to_char: "-128 \<le> n \<Longrightarrow> n < 128 \<Longrightarrow> cint (to_char n) = n"
  using mod_pos_pos_trivial [of n 256] mod_pos_pos_trivial [of "n + 256" 256]
  by (cases "n < 0") (auto simp: cint_def to_char_def Let_def)

lemma to_char_cint [simp]: "to_char (cint c) = c"
proof -
  have "char_of (of_char c - (256::int)) = c"
    by (simp add: char_of_eq_iff take_bit_eq_mod)
  then show ?thesis by (simp add: to_char_def cint_def Let_def)
qed

lemma cint_inject: "cint a = cint b \<longleftrightarrow> a = b"
  by (metis to_char_cint)

lemma cint_char_of: "n < 128 \<Longrightarrow> cint (char_of n) = int n" for n :: nat
proof -
  assume "n < 128"
  then have "of_char (char_of n) = int n"
    by (subst of_nat_of_char [symmetric]) simp
  with \<open>n < 128\<close> show ?thesis by (simp add: cint_def)
qed

lemma deref_simps [simp]: "deref [] = NUL" "deref (c # s) = c"
  by (simp_all add: deref_def)

lemma sim_isspace_NUL [simp]: "\<not> sim_isspace (cint NUL)" "\<not> sim_isalnum (cint NUL)" "cint NUL = 0"
  by (simp_all add: ctype_defs cint_def)

subsection \<open>Skipping and trimming\<close>

text \<open>\<^verbatim>\<open>while (sim_isspace (*p)) p++\<close>\<close>

definition skip_space :: "string \<Rightarrow> string" where
  "skip_space s = dropWhile (\<lambda>c. sim_isspace (cint c)) s"

definition sim_trim_endspc :: "string \<Rightarrow> string" where
  "sim_trim_endspc s = rev (dropWhile (\<lambda>c. sim_isspace (cint c)) (rev s))"

subsection \<open>Bounded copies\<close>

text \<open>
  A destination is the list of its bytes, the pointer \<^verbatim>\<open>dst\<close> an index; storing past its
  end is a fault.  The loop of \<^verbatim>\<open>strlcpy\<close> is the first function; its result is the source
  left, the destination, the index and \<^verbatim>\<open>nleft\<close>.
\<close>

definition store :: "string \<Rightarrow> nat \<Rightarrow> char \<Rightarrow> string option" where
  "store buf i c = (if i < length buf then Some (buf[i := c]) else None)"

fun strlcpy_loop :: "nat \<Rightarrow> string \<Rightarrow> string \<Rightarrow> nat \<Rightarrow> (bool \<times> string \<times> string \<times> nat) option" where
  "strlcpy_loop 0 src buf i = Some (False, src, buf, i)"
| "strlcpy_loop (Suc 0) src buf i = Some (False, src, buf, i)"
| "strlcpy_loop (Suc (Suc n)) src buf i =
     (case store buf i (deref src) of
        None \<Rightarrow> None
      | Some buf' \<Rightarrow>
          (case src of
             [] \<Rightarrow> Some (True, [], buf', Suc i)
           | c # src' \<Rightarrow> strlcpy_loop (Suc n) src' buf' (Suc i)))"

definition strlcpy :: "string \<Rightarrow> string \<Rightarrow> nat \<Rightarrow> (nat \<times> string) option" where
  "strlcpy buf src dsize =
     (case strlcpy_loop dsize src buf 0 of
        None \<Rightarrow> None
      | Some (ended, rest, buf1, i) \<Rightarrow>
          (if ended then Some (length src, buf1)
           else map_option (Pair (length src)) (if dsize \<noteq> 0 then store buf1 i NUL else Some buf1)))"

text \<open>The first loop of \<^verbatim>\<open>strlcat\<close> finds the end of the destination, within \<open>n\<close> bytes.\<close>

fun strlcat_end :: "nat \<Rightarrow> string \<Rightarrow> nat \<Rightarrow> nat" where
  "strlcat_end 0 buf i = i"
| "strlcat_end (Suc n) buf i = (if buf ! i \<noteq> NUL then strlcat_end n buf (Suc i) else i)"

fun strlcat_loop :: "nat \<Rightarrow> string \<Rightarrow> string \<Rightarrow> nat \<Rightarrow> (string \<times> nat) option" where
  "strlcat_loop n [] buf i = Some (buf, i)"
| "strlcat_loop 0 (c # src) buf i = strlcat_loop 0 src buf i"
| "strlcat_loop (Suc n) (c # src) buf i =
     (case store buf i c of None \<Rightarrow> None | Some buf' \<Rightarrow> strlcat_loop n src buf' (Suc i))"

definition strlcat :: "string \<Rightarrow> string \<Rightarrow> nat \<Rightarrow> (nat \<times> string) option" where
  "strlcat buf src dsize =
     (let dlen = strlcat_end dsize buf 0; n = dsize - dlen in
      if n = 0 then Some (dlen + length src, buf)
      else case strlcat_loop (n - 1) src buf dlen of
             None \<Rightarrow> None
           | Some (buf', i) \<Rightarrow> map_option (Pair (dlen + length src)) (store buf' i NUL))"

text \<open>The C string a buffer holds.\<close>

definition cstr_of :: "string \<Rightarrow> string" where
  "cstr_of buf = takeWhile (\<lambda>c. c \<noteq> NUL) buf"

lemma cstr_of_append_NUL: "cstring s \<Longrightarrow> cstr_of (s @ NUL # r) = s"
  by (induction s) (auto simp: cstr_of_def cstring_def)

lemma store_append [simp]: "store (pre @ x # post) (length pre) c = Some (pre @ c # post)"
  by (simp add: store_def)

lemma strlcpy_loop_spec:
  "n \<le> length mid \<Longrightarrow> 0 < n \<Longrightarrow>
   strlcpy_loop n src (pre @ mid) (length pre) =
     (if length src < n - 1
      then Some (True, [], pre @ src @ NUL # drop (Suc (length src)) mid, length pre + Suc (length src))
      else Some (False, drop (n - 1) src, pre @ take (n - 1) src @ drop (n - 1) mid, length pre + n - 1))"
proof (induction n src "pre @ mid" "length pre" arbitrary: pre mid rule: strlcpy_loop.induct)
  case (3 n src)
  then obtain x post where mid: "mid = x # post" by (cases mid) auto
  show ?case
  proof (cases src)
    case Nil
    then show ?thesis by (simp add: mid)
  next
    case (Cons c src')
    have "strlcpy_loop (Suc n) src' ((pre @ [c]) @ post) (length (pre @ [c])) =
      (if length src' < Suc n - 1
       then Some (True, [], (pre @ [c]) @ src' @ NUL # drop (Suc (length src')) post, length (pre @ [c]) + Suc (length src'))
       else Some (False, drop (Suc n - 1) src', (pre @ [c]) @ take (Suc n - 1) src' @ drop (Suc n - 1) post,
                  length (pre @ [c]) + Suc n - 1))"
      by (rule "3.hyps") (use "3.prems" in \<open>auto simp: mid Cons\<close>)
    then show ?thesis by (simp add: mid Cons)
  qed
qed auto

lemma strlcpy_spec:
  assumes "0 < dsize" "dsize \<le> length buf"
  shows "strlcpy buf src dsize = Some (length src,
    take (dsize - 1) src @ NUL # drop (Suc (min (length src) (dsize - 1))) buf)"
proof -
  obtain x where x: "drop (dsize - 1) buf = x # drop dsize buf"
    using assms by (metis Cons_nth_drop_Suc Suc_pred' diff_less less_le_trans zero_less_one)
  show ?thesis
  proof (cases "length src < dsize - 1")
    case True
    with assms strlcpy_loop_spec [of dsize buf src "[]"] show ?thesis
      by (simp add: strlcpy_def min_def)
  next
    case False
    moreover have "store (take (dsize - 1) src @ x # drop dsize buf) (dsize - 1) NUL =
        Some (take (dsize - 1) src @ NUL # drop dsize buf)"
      using False store_append [of "take (dsize - 1) src" x "drop dsize buf" NUL] by simp
    ultimately show ?thesis
      using assms strlcpy_loop_spec [of dsize buf src "[]"] by (simp add: strlcpy_def x [simplified] min_absorb2)
  qed
qed

lemma strlcat_loop_spec:
  "n < length mid \<Longrightarrow>
   strlcat_loop n src (pre @ mid) (length pre) =
     Some (pre @ take n src @ drop (min n (length src)) mid, length pre + min n (length src))"
proof (induction n src "pre @ mid" "length pre" arbitrary: pre mid rule: strlcat_loop.induct)
  case (3 n c src)
  then obtain x post where mid: "mid = x # post" by (cases mid) auto
  have "strlcat_loop n src ((pre @ [c]) @ post) (length (pre @ [c])) =
    Some ((pre @ [c]) @ take n src @ drop (min n (length src)) post, length (pre @ [c]) + min n (length src))"
    by (rule "3.hyps") (use "3.prems" in \<open>auto simp: mid\<close>)
  then show ?case by (simp add: mid)
qed simp_all

lemma strlcat_end_spec:
  "cstring d \<Longrightarrow> strlcat_end n (pre @ d @ NUL # r) (length pre) = length pre + min n (length d)"
proof (induction d arbitrary: n pre)
  case Nil
  then show ?case by (cases n) simp_all
next
  case (Cons c d)
  then have "strlcat_end m ((pre @ [c]) @ d @ NUL # r) (length (pre @ [c])) = length (pre @ [c]) + min m (length d)" for m
    by (intro Cons.IH) (simp add: cstring_def)
  with Cons.prems show ?case by (cases n) (auto simp: cstring_def)
qed

lemma strlcat_spec:
  assumes "cstring d" "length d < dsize" "dsize \<le> length (d @ NUL # r)"
  shows "\<exists>r'. strlcat (d @ NUL # r) src dsize =
    Some (length d + length src, d @ take (dsize - length d - 1) src @ NUL # r')"
proof -
  let ?n = "dsize - length d - 1"
  have "strlcat_loop ?n src (d @ NUL # r) (length d) =
    Some (d @ take ?n src @ drop (min ?n (length src)) (NUL # r), length d + min ?n (length src))"
    using strlcat_loop_spec [of ?n "NUL # r" src d] assms by simp
  moreover obtain x post where "drop (min ?n (length src)) (NUL # r) = x # post"
    using assms by (cases "drop (min ?n (length src)) (NUL # r)") auto
  moreover have "store ((d @ take ?n src) @ x # post) (length (d @ take ?n src)) NUL = Some ((d @ take ?n src) @ NUL # post)" for x post
    by (rule store_append)
  ultimately show ?thesis
    using strlcat_end_spec [OF assms(1), of dsize "[]" r] assms
    by (simp add: strlcat_def Let_def min.commute)
qed

subsection \<open>Properties\<close>

text \<open>
  C35. Bounds: \<^verbatim>\<open>strlcpy\<close> stores only inside the destination, terminates it, copies as much of the
  source as fits and returns the source's length; a destination size of zero stores nothing.
  \<^verbatim>\<open>strlcat\<close> appends behind the string in the destination, within its size, terminates it and
  returns the length it tried to create.
\<close>

theorem bounded_copies:
  "(dsize \<le> length buf \<longrightarrow> strlcpy buf src dsize = Some (length src,
     if dsize = 0 then buf else take (dsize - 1) src @ NUL # drop (Suc (min (length src) (dsize - 1))) buf)) \<and>
   (cstring d \<and> length d < dsize \<and> dsize \<le> length (d @ NUL # r) \<longrightarrow>
     (\<exists>r'. strlcat (d @ NUL # r) src dsize =
        Some (length d + length src, d @ take (dsize - length d - 1) src @ NUL # r')))"
  using strlcpy_spec [of dsize buf src] strlcat_spec [of d dsize r src] by (cases "dsize = 0") (simp_all add: strlcpy_def)

theorem bounded_copies_witness:
  "strlcpy (replicate 4 CHR ''x'') ''hello'' 4 = Some (5, ''hel'' @ [NUL]) \<and>
   (\<exists>r'. strlcat (''ab'' @ NUL # ''xyz'') ''cdef'' 6 = Some (6, ''abcde'' @ NUL # r'))"
  using bounded_copies [of 4 "replicate 4 CHR ''x''" "''hello''"] bounded_copies [of 6 "[]" "''cdef''" "''ab''" "''xyz''"]
  by (simp add: cstring_def numeral_eq_Suc)

end
