(* ===== verification/KeyedStore.thy ===== *)
theory KeyedStore
  imports Prelude
begin

text \<open>
  The contract of a table whose entries are reached by a key: an update changes the entry
  of its key only, in a way that depends on that entry, on the request and on an
  environment no update touches.  The breakpoint table of
  \<^verbatim>\<open>src/src/core/scp_breakpoint.c\<close> keeps this contract.
\<close>

locale keyed_store =
  fixes content :: "'s \<Rightarrow> 'k \<Rightarrow> 'c"
    and env :: "'s \<Rightarrow> 'e"
    and update :: "'k \<Rightarrow> 'o \<Rightarrow> 's \<Rightarrow> 's"
    and change :: "'e \<Rightarrow> 'k \<Rightarrow> 'o \<Rightarrow> 'c \<Rightarrow> 'c"
    and inv :: "'s \<Rightarrow> bool"
  assumes content_update: "inv s \<Longrightarrow> content (update k x s) = (content s)(k := change (env s) k x (content s k))"
    and env_update: "inv s \<Longrightarrow> env (update k x s) = env s"
    and inv_update: "inv s \<Longrightarrow> inv (update k x s)"
begin

lemma content_frame: "inv s \<Longrightarrow> k' \<noteq> k \<Longrightarrow> content (update k x s) k' = content s k'"
  by (simp add: content_update)

lemma update_run:
  "inv s \<Longrightarrow> inv (fold (case_prod update) xs s) \<and> env (fold (case_prod update) xs s) = env s \<and>
     content (fold (case_prod update) xs s) k =
     fold (\<lambda>p. change (env s) k (snd p)) (filter (\<lambda>p. fst p = k) xs) (content s k)"
proof (induction xs arbitrary: s)
  case (Cons p xs)
  obtain k' x where p: "p = (k', x)" by fastforce
  note IH = Cons.IH [OF inv_update [OF Cons.prems], of k' x]
  show ?case
    using IH by (cases "k' = k") (simp_all add: p env_update [OF Cons.prems] content_update [OF Cons.prems])
qed simp

lemma update_commute:
  "inv s \<Longrightarrow> k \<noteq> k' \<Longrightarrow> content (update k x (update k' y s)) = content (update k' y (update k x s))"
  by (simp add: content_update env_update inv_update fun_upd_twist)

end

end
