(* ===== verification/Breakpoint.thy ===== *)
theory Breakpoint
  imports EventQueue CString KeyedStore
begin

text \<open>
  The breakpoint package, \<^verbatim>\<open>src/src/core/scp_breakpoint.c\<close>: the sorted table of
  breakpoint chains with its binary search, setting, clearing and testing breakpoints, and
  the pending action strings.  The state record extends the event queue's, because a test
  reads the simulated time.  A slot of \<^verbatim>\<open>sim_brk_tab\<close> is the list of the entries
  linked through \<^verbatim>\<open>next\<close>, the empty list being \<^verbatim>\<open>NULL\<close>; allocation succeeds.
\<close>

unbundle bit_operations_syntax

subsection \<open>State\<close>

abbreviation (input) SIM_BRK_INILNT :: nat where "SIM_BRK_INILNT \<equiv> 4096"
abbreviation (input) SIM_BRK_ALLTYP :: u32 where "SIM_BRK_ALLTYP \<equiv> 0xFFFFFFFB"
abbreviation (input) SIM_BKPT_V_SPC :: nat where "SIM_BKPT_V_SPC \<equiv> 29"
abbreviation (input) SIM_BKPT_N_SPC :: nat where "SIM_BKPT_N_SPC \<equiv> 8"
abbreviation (input) BRK_TYP_DYN_STEPOVER :: u32 where "BRK_TYP_DYN_STEPOVER \<equiv> 0x4000000"
abbreviation (input) BRK_TYP_DYN_ALL :: u32 where "BRK_TYP_DYN_ALL \<equiv> 0xC000000"
abbreviation (input) BRK_TYP_TEMP :: u32 where "BRK_TYP_TEMP \<equiv> 0x10000000"

record brktab =
  brk_addr :: t_addr
  brk_typ :: u32
  brk_cnt :: int
  brk_act :: "string option"
  time_fired :: "real list"

record brkst = evq +
  sim_brk_summ :: u32
  sim_brk_types :: u32
  sim_brk_dflt :: u32
  sim_brk_match_type :: u32
  sim_brk_match_addr :: t_addr
  sim_brk_act :: "nat \<Rightarrow> string option"
  sim_brk_act_buf :: "nat \<Rightarrow> string option"
  sim_do_depth :: nat
  sim_brk_tab :: "brktab list list"
  sim_brk_ent :: nat
  sim_brk_lnt :: nat
  sim_brk_ins :: int

subsection \<open>Searching\<close>

abbreviation chain_addr :: "brktab list \<Rightarrow> t_addr" where
  "chain_addr c \<equiv> brk_addr (hd c)"

text \<open>
  The loop of \<^verbatim>\<open>sim_brk_fnd\<close>, entered with \<open>lo \<le> hi\<close>, and the choice of the
  insertion point after it: \<open>(True, p)\<close> is a match in slot \<open>p\<close>, \<open>(False, p)\<close> a miss.
\<close>

function brk_search :: "brktab list list \<Rightarrow> t_addr \<Rightarrow> int \<Rightarrow> int \<Rightarrow> bool \<times> int" where
  "brk_search tab loc lo hi =
     (let p = (lo + hi) div 2; a = chain_addr (tab ! nat p)
      in if loc = a then (True, p)
         else if loc < a
         then (if lo \<le> p - 1 then brk_search tab loc lo (p - 1) else (False, p))
         else (if p + 1 \<le> hi then brk_search tab loc (p + 1) hi else (False, p + 1)))"
  by pat_completeness auto
termination
  by (relation "measure (\<lambda>(tab, loc, lo, hi). nat (hi - lo + 1))") auto

declare brk_search.simps [simp del]

definition sim_brk_fnd :: "t_addr \<Rightarrow> 'a brkst_scheme \<Rightarrow> bool \<times> 'a brkst_scheme" where
  "sim_brk_fnd loc s =
     (if sim_brk_ent s = 0 then (False, s\<lparr>sim_brk_ins := 0\<rparr>)
      else let (found, p) = brk_search (sim_brk_tab s) loc 0 (int (sim_brk_ent s) - 1)
           in (found, s\<lparr>sim_brk_ins := p\<rparr>))"

text \<open>The slot the last search left in \<^verbatim>\<open>sim_brk_ins\<close>, and replacing its chain.\<close>

definition ins_chain :: "'a brkst_scheme \<Rightarrow> brktab list" where
  "ins_chain s = sim_brk_tab s ! nat (sim_brk_ins s)"

definition set_ins_chain :: "brktab list \<Rightarrow> 'a brkst_scheme \<Rightarrow> 'a brkst_scheme" where
  "set_ins_chain c s = s\<lparr>sim_brk_tab := (sim_brk_tab s)[nat (sim_brk_ins s) := c]\<rparr>"

text \<open>
  \<^verbatim>\<open>sim_brk_fnd_ex\<close>: the place in the chain of the first entry of the given type, or,
  with \<^verbatim>\<open>any_typ\<close>, of the first one sharing a type bit that has not fired at this time.
\<close>

fun chain_find_ex :: "u32 \<Rightarrow> bool \<Rightarrow> nat \<Rightarrow> nat \<Rightarrow> brktab list \<Rightarrow> 'a brkst_scheme \<Rightarrow> nat option \<times> 'a brkst_scheme" where
  "chain_find_ex btyp any_typ spc i [] s = (None, s)"
| "chain_find_ex btyp any_typ spc i (b # bs) s =
     (if any_typ
      then (if brk_typ b AND btyp \<noteq> 0
            then let (t, s1) = sim_gtime s
                 in if time_fired b ! spc \<noteq> t then (Some i, s1)
                    else chain_find_ex btyp any_typ spc (Suc i) bs s1
            else chain_find_ex btyp any_typ spc (Suc i) bs s)
      else (if brk_typ b = btyp then (Some i, s)
            else chain_find_ex btyp any_typ spc (Suc i) bs s))"

definition sim_brk_fnd_ex ::
  "t_addr \<Rightarrow> u32 \<Rightarrow> bool \<Rightarrow> nat \<Rightarrow> 'a brkst_scheme \<Rightarrow> nat option \<times> 'a brkst_scheme" where
  "sim_brk_fnd_ex loc btyp any_typ spc s =
     (let (found, s1) = sim_brk_fnd loc s
      in if found then chain_find_ex btyp any_typ spc 0 (ins_chain s1) s1 else (None, s1))"

subsection \<open>Inserting\<close>

text \<open>\<^verbatim>\<open>for (i = ent; i > ins; --i) tab[i] = tab[i - 1]\<close>\<close>

fun shift_up :: "nat \<Rightarrow> nat \<Rightarrow> 'b list \<Rightarrow> 'b list" where
  "shift_up 0 ins tab = tab"
| "shift_up (Suc i) ins tab =
     (if Suc i > ins then shift_up i ins (tab[Suc i := tab ! i]) else tab)"

definition new_brktab :: "t_addr \<Rightarrow> u32 \<Rightarrow> brktab" where
  "new_brktab loc btyp =
     \<lparr>brk_addr = loc, brk_typ = btyp, brk_cnt = 0, brk_act = None,
      time_fired = replicate SIM_BKPT_N_SPC (-1)\<rparr>"

text \<open>A full table is copied into one with \<^verbatim>\<open>SIM_BRK_INILNT\<close> more empty slots.\<close>

definition brk_grow :: "'a brkst_scheme \<Rightarrow> 'a brkst_scheme" where
  "brk_grow s =
     (if sim_brk_ent s \<ge> sim_brk_lnt s
      then s\<lparr>sim_brk_tab := sim_brk_tab s @ replicate SIM_BRK_INILNT [],
             sim_brk_lnt := sim_brk_lnt s + SIM_BRK_INILNT\<rparr>
      else s)"

definition sim_brk_new :: "t_addr \<Rightarrow> u32 \<Rightarrow> 'a brkst_scheme \<Rightarrow> bool \<times> 'a brkst_scheme" where
  "sim_brk_new loc btyp s =
     (if sim_brk_ins s < 0 then (False, s)
      else let ins = nat (sim_brk_ins s); ent = sim_brk_ent s;
               s1 = brk_grow s;
               s2 = (if ins = ent \<or> chain_addr (sim_brk_tab s1 ! ins) \<noteq> loc
                     then s1\<lparr>sim_brk_tab := (shift_up ent ins (sim_brk_tab s1))[ins := []]\<rparr>
                     else s1);
               next = sim_brk_tab s2 ! ins;
               s3 = s2\<lparr>sim_brk_tab := (sim_brk_tab s2)[ins := new_brktab loc btyp # next]\<rparr>
           in (True, if next = [] then s3\<lparr>sim_brk_ent := ent + 1\<rparr> else s3))"

text \<open>The rest of \<^verbatim>\<open>sim_brk_set\<close> on the entry it found or made.\<close>

definition brk_assign :: "u32 \<Rightarrow> int \<Rightarrow> string option \<Rightarrow> brktab \<Rightarrow> brktab" where
  "brk_assign sw ncnt act b =
     (let b1 = b\<lparr>brk_cnt := ncnt\<rparr>;
          b2 = (if sw AND BRK_TYP_DYN_ALL = 0 \<and> brk_act b1 \<noteq> None \<and> act \<noteq> None
                then b1\<lparr>brk_act := None\<rparr> else b1)
      in case act of
           None \<Rightarrow> b2
         | Some a \<Rightarrow> (if a \<noteq> [] then b2\<lparr>brk_act := Some (take (CBUFSIZE - 1) a)\<rparr> else b2))"

fun chain_find_typ :: "u32 \<Rightarrow> nat \<Rightarrow> brktab list \<Rightarrow> nat option" where
  "chain_find_typ t i [] = None"
| "chain_find_typ t i (b # bs) = (if brk_typ b = t then Some i else chain_find_typ t (Suc i) bs)"

definition sim_brk_set ::
  "t_addr \<Rightarrow> u32 \<Rightarrow> int \<Rightarrow> string option \<Rightarrow> 'a brkst_scheme \<Rightarrow> t_stat \<times> 'a brkst_scheme" where
  "sim_brk_set loc sw0 ncnt act s =
     (let sw = (if sw0 = 0 \<or> sw0 = BRK_TYP_DYN_STEPOVER then sw0 OR sim_brk_dflt s else sw0) in
      if NOT (sim_brk_types s) AND sw \<noteq> 0 then (SCPE_NOFNC, s)
      else if sw AND BRK_TYP_DYN_ALL \<noteq> 0 \<and> act \<noteq> None then (SCPE_ARG, s)
      else let (found, s1) = sim_brk_fnd loc s;
               place = (if found then chain_find_typ sw 0 (ins_chain s1) else None);
               (ok, i, s2) = (case place of
                                Some i \<Rightarrow> (True, i, s1)
                              | None \<Rightarrow> (let (ok, s') = sim_brk_new loc sw s1 in (ok, 0, s')))
           in if \<not> ok then (SCPE_MEM, s2)
              else let c = ins_chain s2;
                       s3 = set_ins_chain (c[i := brk_assign sw ncnt act (c ! i)]) s2
                   in (SCPE_OK, s3\<lparr>sim_brk_summ := sim_brk_summ s3 OR (sw AND NOT BRK_TYP_TEMP)\<rparr>))"

subsection \<open>Clearing\<close>

text \<open>The unlinking loop of \<^verbatim>\<open>sim_brk_clr\<close> and the closing of a freed slot.\<close>

fun brk_clr_chain :: "u32 \<Rightarrow> brktab list \<Rightarrow> brktab list" where
  "brk_clr_chain sw [] = []"
| "brk_clr_chain sw (b # bs) =
     (if brk_typ b = brk_typ b AND sw then brk_clr_chain sw bs else b # brk_clr_chain sw bs)"

text \<open>\<^verbatim>\<open>for (i = ins; i < ent; i++) tab[i] = tab[i + 1]\<close>, counting the remaining steps.\<close>

fun shift_down :: "nat \<Rightarrow> nat \<Rightarrow> 'b list \<Rightarrow> 'b list" where
  "shift_down 0 i tab = tab"
| "shift_down (Suc n) i tab = shift_down n (Suc i) (tab[i := tab ! Suc i])"

definition chain_summ :: "brktab list \<Rightarrow> u32 \<Rightarrow> u32" where
  "chain_summ c acc = fold (\<lambda>b acc. acc OR (brk_typ b AND NOT BRK_TYP_TEMP)) c acc"

definition sim_brk_clr :: "t_addr \<Rightarrow> u32 \<Rightarrow> 'a brkst_scheme \<Rightarrow> t_stat \<times> 'a brkst_scheme" where
  "sim_brk_clr loc sw0 s =
     (let (found, s1) = sim_brk_fnd loc s in
      if \<not> found then (SCPE_OK, s1)
      else let sw = (if sw0 = 0 then SIM_BRK_ALLTYP else sw0);
               ins = nat (sim_brk_ins s1);
               s2 = set_ins_chain (brk_clr_chain sw (ins_chain s1)) s1;
               s3 = (if ins_chain s2 = []
                     then s2\<lparr>sim_brk_ent := sim_brk_ent s2 - 1,
                             sim_brk_tab := shift_down (sim_brk_ent s2 - 1 - ins) ins (sim_brk_tab s2)\<rparr>
                     else s2)
           in (SCPE_OK,
               s3\<lparr>sim_brk_summ := fold chain_summ (take (sim_brk_ent s3) (sim_brk_tab s3)) 0\<rparr>))"

primrec brk_clrall_loop :: "nat \<Rightarrow> nat \<Rightarrow> u32 \<Rightarrow> 'a brkst_scheme \<Rightarrow> 'a brkst_scheme option" where
  "brk_clrall_loop 0 i sw s = None"
| "brk_clrall_loop (Suc fuel) i sw s =
     (if i < sim_brk_ent s
      then let loc = chain_addr (sim_brk_tab s ! i);
               s1 = snd (sim_brk_clr loc sw s)
           in if i < sim_brk_ent s1 \<and> loc = chain_addr (sim_brk_tab s1 ! i)
              then brk_clrall_loop fuel (i + 1) sw s1
              else brk_clrall_loop fuel i sw s1
      else Some s)"

definition sim_brk_clrall :: "nat \<Rightarrow> u32 \<Rightarrow> 'a brkst_scheme \<Rightarrow> (t_stat \<times> 'a brkst_scheme) option" where
  "sim_brk_clrall fuel sw s =
     map_option (Pair SCPE_OK)
       (brk_clrall_loop fuel 0 (if sw = 0 then SIM_BRK_ALLTYP else sw) s)"

subsection \<open>Pending actions\<close>

definition sim_brk_clract :: "'a brkst_scheme \<Rightarrow> 'a brkst_scheme" where
  "sim_brk_clract s =
     s\<lparr>sim_brk_act := (sim_brk_act s)(sim_do_depth s := None),
       sim_brk_act_buf := (sim_brk_act_buf s)(sim_do_depth s := None)\<rparr>"

text \<open>
  The scan of \<^verbatim>\<open>sim_brk_getact\<close> for the semicolon that ends the first command: from an
  opening quote it skips to the closing one (\<^verbatim>\<open>skip_quoted\<close> stops at it), and then takes
  the next semicolon wherever it is.  The result is the text from that semicolon on.
\<close>

fun skip_quoted :: "char \<Rightarrow> string \<Rightarrow> string" where
  "skip_quoted q [] = []"
| "skip_quoted q [c] = (if c = q then [c] else [])"
| "skip_quoted q (c # d # r) =
     (if c = q then c # d # r
      else if c = CHR 0x5C \<and> d = q then skip_quoted q r
      else skip_quoted q (d # r))"

definition command_end :: "string \<Rightarrow> string option" where
  "command_end a =
     (let to_semicolon = (\<lambda>s. case dropWhile (\<lambda>c. c \<noteq> CHR '';'') s of [] \<Rightarrow> None | r \<Rightarrow> Some r) in
      case dropWhile (\<lambda>c. c \<notin> set [CHR '';'', CHR 0x22, CHR 0x27]) a of
        [] \<Rightarrow> None
      | q # r \<Rightarrow> if q = CHR '';'' then Some (q # r) else to_semicolon (skip_quoted q r))"

text \<open>
  \<^verbatim>\<open>sim_brk_getact\<close> copies the first command into the caller's buffer of \<open>bufsize\<close> bytes.  The
  \<^verbatim>\<open>memcpy\<close> of a command that a semicolon ends is not bounded by \<open>bufsize\<close>; writing past
  the buffer is the result \<^const>\<open>None\<close>.
\<close>

definition sim_brk_getact :: "nat \<Rightarrow> 'a brkst_scheme \<Rightarrow> (string option \<times> 'a brkst_scheme) option" where
  "sim_brk_getact bufsize s =
     (let d = sim_do_depth s in
      case sim_brk_act s d of
        None \<Rightarrow> Some (None, s)
      | Some a0 \<Rightarrow>
          (let a = skip_space a0; s1 = s\<lparr>sim_brk_act := (sim_brk_act s)(d \<mapsto> a)\<rparr> in
           if a = [] then Some (None, sim_brk_clract s1)
           else case command_end a of
                  Some ep \<Rightarrow>
                    (let lnt = length a - length ep in
                     if lnt + 1 > bufsize then None
                     else Some (Some (sim_trim_endspc (take lnt a)),
                                s1\<lparr>sim_brk_act := (sim_brk_act s1)(d \<mapsto> drop (lnt + 1) a)\<rparr>))
                | None \<Rightarrow>
                    Some (Some (sim_trim_endspc (take (bufsize - 1) a)),
                          sim_brk_clract (s1\<lparr>sim_brk_act := (sim_brk_act s1)(d := None)\<rparr>))))"

definition sim_brk_setact :: "string option \<Rightarrow> 'a brkst_scheme \<Rightarrow> 'a brkst_scheme" where
  "sim_brk_setact act s =
     (let d = sim_do_depth s in
      case act of
        None \<Rightarrow> sim_brk_clract s
      | Some a \<Rightarrow>
          (let buf = (case sim_brk_act s d of
                        Some old \<Rightarrow> (if old \<noteq> [] then a @ ''; '' @ old else a)
                      | None \<Rightarrow> a)
           in s\<lparr>sim_brk_act_buf := (sim_brk_act_buf s)(d \<mapsto> buf),
                sim_brk_act := (sim_brk_act s)(d \<mapsto> buf)\<rparr>))"

definition sim_brk_replace_act :: "string option \<Rightarrow> 'a brkst_scheme \<Rightarrow> string option \<times> 'a brkst_scheme" where
  "sim_brk_replace_act new_action s =
     (sim_brk_act_buf s (sim_do_depth s),
      s\<lparr>sim_brk_act_buf := (sim_brk_act_buf s)(sim_do_depth s := new_action)\<rparr>)"

subsection \<open>Testing\<close>

definition sim_brk_test :: "t_addr \<Rightarrow> u32 \<Rightarrow> 'a brkst_scheme \<Rightarrow> u32 \<times> 'a brkst_scheme" where
  "sim_brk_test loc btyp0 s =
     (let spc = unat (drop_bit SIM_BKPT_V_SPC btyp0 AND 7);
          btyp = (if sim_brk_summ s AND BRK_TYP_DYN_ALL \<noteq> 0 then btyp0 OR BRK_TYP_DYN_ALL else btyp0);
          (place, s1) = sim_brk_fnd_ex loc btyp True spc s
      in case place of
           None \<Rightarrow> (0, s1)
         | Some i \<Rightarrow>
             (let (s_gtime, s2) = sim_gtime s1;
                  c = ins_chain s2; b = c ! i in
              if time_fired b ! spc = s_gtime then (0, s2)
              else let b1 = b\<lparr>time_fired := (time_fired b)[spc := s_gtime], brk_cnt := brk_cnt b - 1\<rparr> in
              if brk_cnt b1 > 0 then (0, set_ins_chain (c[i := b1]) s2)
              else let s3 = sim_brk_setact (brk_act b1) (set_ins_chain (c[i := b1\<lparr>brk_cnt := 0\<rparr>]) s2);
                       s4 = s3\<lparr>sim_brk_match_type := btyp AND brk_typ b1\<rparr>;
                       s5 = (if brk_typ b1 AND BRK_TYP_TEMP \<noteq> 0
                             then snd (sim_brk_clr loc (brk_typ b1) s4) else s4)
                   in (sim_brk_match_type s5, s5\<lparr>sim_brk_match_addr := loc\<rparr>)))"

text \<open>\<^verbatim>\<open>sim_brk_npc\<close> and \<^verbatim>\<open>sim_brk_clrspc\<close> reset fired times in every used slot.\<close>

definition map_used :: "(brktab \<Rightarrow> brktab) \<Rightarrow> 'a brkst_scheme \<Rightarrow> 'a brkst_scheme" where
  "map_used f s =
     s\<lparr>sim_brk_tab := map (map f) (take (sim_brk_ent s) (sim_brk_tab s)) @ drop (sim_brk_ent s) (sim_brk_tab s)\<rparr>"

definition sim_brk_npc :: "nat \<Rightarrow> 'a brkst_scheme \<Rightarrow> 'a brkst_scheme" where
  "sim_brk_npc cnt0 s =
     (let cnt = (if cnt0 = 0 \<or> cnt0 > SIM_BKPT_N_SPC then SIM_BKPT_N_SPC else cnt0)
      in map_used (\<lambda>b. b\<lparr>time_fired := replicate cnt (-1) @ drop cnt (time_fired b)\<rparr>) s)"

definition sim_brk_clrspc :: "nat \<Rightarrow> u32 \<Rightarrow> 'a brkst_scheme \<Rightarrow> 'a brkst_scheme" where
  "sim_brk_clrspc spc btyp s =
     (if spc < SIM_BKPT_N_SPC
      then map_used (\<lambda>b. if brk_typ b AND btyp \<noteq> 0
                         then b\<lparr>time_fired := (time_fired b)[spc := -1]\<rparr> else b) s
      else s)"

definition sim_brk_init :: "'a brkst_scheme \<Rightarrow> t_stat \<times> 'a brkst_scheme" where
  "sim_brk_init s =
     (let s1 = s\<lparr>sim_brk_lnt := SIM_BRK_INILNT, sim_brk_tab := replicate SIM_BRK_INILNT [],
                 sim_brk_ent := 0, sim_brk_ins := 0\<rparr>
      in (SCPE_OK, sim_brk_npc 0 (sim_brk_clract s1)))"

subsection \<open>Well-formed tables\<close>

definition chains :: "'a brkst_scheme \<Rightarrow> brktab list list" where
  "chains s = take (sim_brk_ent s) (sim_brk_tab s)"

definition wf_chain :: "brktab list \<Rightarrow> bool" where
  "wf_chain c \<longleftrightarrow> c \<noteq> [] \<and> list_all (\<lambda>b. brk_addr b = chain_addr c) c \<and> distinct (map brk_typ c) \<and>
     list_all (\<lambda>b. length (time_fired b) = SIM_BKPT_N_SPC) c"

definition wf_chains :: "brktab list list \<Rightarrow> bool" where
  "wf_chains cs \<longleftrightarrow> list_all wf_chain cs \<and> sorted_wrt (<) (map (\<lambda>c. chain_addr c) cs)"

definition brk_inv :: "'a brkst_scheme \<Rightarrow> bool" where
  "brk_inv s \<longleftrightarrow> length (sim_brk_tab s) = sim_brk_lnt s \<and> sim_brk_ent s \<le> sim_brk_lnt s \<and>
     wf_chains (chains s)"

text \<open>What the table stands for: the chain of each address, empty where there is none.\<close>

fun chain_at :: "brktab list list \<Rightarrow> t_addr \<Rightarrow> brktab list" where
  "chain_at [] a = []"
| "chain_at (c # cs) a = (if chain_addr c = a then c else chain_at cs a)"

lemma length_chains: "brk_inv s \<Longrightarrow> length (chains s) = sim_brk_ent s"
  by (simp add: brk_inv_def chains_def)

lemma wf_chains_nth_less:
  "wf_chains cs \<Longrightarrow> i < j \<Longrightarrow> j < length cs \<Longrightarrow> chain_addr (cs ! i) < chain_addr (cs ! j)"
  by (auto simp: wf_chains_def sorted_wrt_iff_nth_less)

lemma chain_at_absent: "a \<notin> (\<lambda>c. chain_addr c) ` set cs \<Longrightarrow> chain_at cs a = []"
  by (induction cs) auto

lemma chain_at_append:
  "chain_at (xs @ ys) a = (if a \<in> (\<lambda>c. chain_addr c) ` set xs then chain_at xs a else chain_at ys a)"
  by (induction xs) auto

lemma chain_at_nth:
  assumes "wf_chains cs" "p < length cs"
  shows "chain_at cs (chain_addr (cs ! p)) = cs ! p"
  using assms
proof (induction cs arbitrary: p)
  case (Cons c cs)
  then show ?case
    by (cases p) (auto simp: wf_chains_def)
qed simp

subsection \<open>The binary search\<close>

definition search_post :: "brktab list list \<Rightarrow> nat \<Rightarrow> t_addr \<Rightarrow> bool \<times> int \<Rightarrow> bool" where
  "search_post tab n loc r \<longleftrightarrow> (case r of (found, p) \<Rightarrow> 0 \<le> p \<and>
     (if found then p < int n \<and> chain_addr (tab ! nat p) = loc
      else p \<le> int n \<and> (\<forall>i. int i < p \<longrightarrow> chain_addr (tab ! i) < loc) \<and>
           (\<forall>i<n. p \<le> int i \<longrightarrow> loc < chain_addr (tab ! i))))"

lemma brk_search_post:
  assumes sorted: "\<And>i j. i < j \<Longrightarrow> j < n \<Longrightarrow> chain_addr (tab ! i) < chain_addr (tab ! j)"
    and "0 \<le> lo" "lo \<le> hi" "hi < int n"
    and "\<And>i. int i < lo \<Longrightarrow> chain_addr (tab ! i) < loc"
    and "\<And>i. hi < int i \<Longrightarrow> i < n \<Longrightarrow> loc < chain_addr (tab ! i)"
  shows "search_post tab n loc (brk_search tab loc lo hi)"
  using assms
proof (induction tab loc lo hi rule: brk_search.induct)
  case (1 tab loc lo hi)
  note sorted = 1(3) and lo = 1(4) and le = 1(5) and hi = 1(6) and below = 1(7) and above = 1(8)
  define m where "m = (lo + hi) div 2"
  have m: "lo \<le> m" "m \<le> hi" using le by (auto simp: m_def)
  let ?a = "chain_addr (tab ! nat m)"
  have unfold: "brk_search tab loc lo hi =
      (if loc = ?a then (True, m)
       else if loc < ?a then (if lo \<le> m - 1 then brk_search tab loc lo (m - 1) else (False, m))
       else (if m + 1 \<le> hi then brk_search tab loc (m + 1) hi else (False, m + 1)))"
    by (subst brk_search.simps) (simp only: Let_def m_def)
  consider (eq) "loc = ?a" | (lt) "loc < ?a" | (gt) "?a < loc" by fastforce
  then show ?case
  proof cases
    case eq
    show ?thesis
      unfolding unfold using eq m lo hi by (simp add: search_post_def)
  next
    case lt
    have up: "loc < chain_addr (tab ! i)" if "m \<le> int i" "i < n" for i
      using lt sorted [of "nat m" i] that m lo by (cases "int i = m") (auto simp: nat_less_iff)
    show ?thesis
    proof (cases "lo \<le> m - 1")
      case True
      have "search_post tab n loc (brk_search tab loc lo (m - 1))"
        using lt True m lo hi below up sorted
        by (intro 1(1) [OF m_def refl less_imp_neq [OF lt] lt]) auto
      with less_imp_neq [OF lt] lt True show ?thesis
        by (simp add: unfold)
    next
      case False
      with m have "m = lo" by simp
      with lt lo hi le below up False show ?thesis
        by (simp add: unfold search_post_def)
    qed
  next
    case gt
    have down: "chain_addr (tab ! i) < loc" if "int i \<le> m" for i
      using gt sorted [of i "nat m"] that m lo hi by (cases "int i = m") (auto simp: nat_less_iff zless_nat_eq_int_zless)
    show ?thesis
    proof (cases "m + 1 \<le> hi")
      case True
      have "search_post tab n loc (brk_search tab loc (m + 1) hi)"
        using gt True m lo hi above down sorted
        by (intro 1(2) [OF m_def refl less_imp_neq [OF gt, symmetric] less_not_sym [OF gt]]) auto
      with less_imp_neq [OF gt] less_not_sym [OF gt] True show ?thesis
        by (simp add: unfold)
    next
      case False
      with m have "m = hi" by simp
      moreover from False gt have "brk_search tab loc lo hi = (False, m + 1)"
        using less_imp_neq [OF gt] less_not_sym [OF gt] by (simp add: unfold)
      ultimately show ?thesis using lo hi le above down by (simp add: search_post_def)
    qed
  qed
qed

lemma nth_chains: "i < sim_brk_ent s \<Longrightarrow> chains s ! i = sim_brk_tab s ! i"
  by (simp add: chains_def)

lemma sim_brk_fnd_cases:
  assumes "brk_inv s"
  obtains (found) p where "sim_brk_fnd loc s = (True, s\<lparr>sim_brk_ins := int p\<rparr>)" "p < sim_brk_ent s"
      "chain_addr (chains s ! p) = loc"
  | (missing) p where "sim_brk_fnd loc s = (False, s\<lparr>sim_brk_ins := int p\<rparr>)" "p \<le> sim_brk_ent s"
      "\<forall>i<p. chain_addr (chains s ! i) < loc" "\<forall>i < sim_brk_ent s. p \<le> i \<longrightarrow> loc < chain_addr (chains s ! i)"
proof (cases "sim_brk_ent s = 0")
  case True
  then show thesis by (intro missing [of 0]) (simp_all add: sim_brk_fnd_def)
next
  case False
  let ?n = "sim_brk_ent s"
  obtain f p where fp: "brk_search (sim_brk_tab s) loc 0 (int ?n - 1) = (f, p)" by fastforce
  have "search_post (sim_brk_tab s) ?n loc (brk_search (sim_brk_tab s) loc 0 (int ?n - 1))"
  proof (rule brk_search_post)
    show "chain_addr (sim_brk_tab s ! i) < chain_addr (sim_brk_tab s ! j)" if "i < j" "j < ?n" for i j
    proof -
      have "wf_chains (chains s)" using assms by (simp add: brk_inv_def)
      from wf_chains_nth_less [OF this that(1)] that show ?thesis
        by (simp add: nth_chains length_chains [OF assms])
    qed
  qed (use False in auto)
  then have post: "search_post (sim_brk_tab s) ?n loc (f, p)" by (simp add: fp)
  then have "0 \<le> p" by (simp add: search_post_def)
  then obtain k where k: "p = int k" by (rule nonneg_int_cases)
  have fnd: "sim_brk_fnd loc s = (f, s\<lparr>sim_brk_ins := int k\<rparr>)"
    using False by (simp add: sim_brk_fnd_def fp k)
  show thesis
  proof (cases f)
    case True
    with post k fnd show thesis by (intro found [of k]) (simp_all add: search_post_def nth_chains)
  next
    case False
    with post k fnd show thesis by (intro missing [of k]) (simp_all add: search_post_def nth_chains)
  qed
qed

lemma brk_inv_chains: "brk_inv s \<Longrightarrow> wf_chains (chains s) \<and> length (chains s) = sim_brk_ent s"
  by (simp add: brk_inv_def length_chains)

lemma chain_at_missing:
  assumes inv: "brk_inv s" and lo: "\<forall>i<p. chain_addr (chains s ! i) < loc"
    and hi: "\<forall>i < sim_brk_ent s. p \<le> i \<longrightarrow> loc < chain_addr (chains s ! i)"
  shows "chain_at (chains s) loc = []"
proof (rule chain_at_absent, rule notI)
  assume "loc \<in> (\<lambda>c. chain_addr c) ` set (chains s)"
  then obtain i where "i < sim_brk_ent s" "chain_addr (chains s ! i) = loc"
    using brk_inv_chains [OF inv] by (auto simp: in_set_conv_nth)
  with lo hi show False by (cases "i < p") (auto dest: less_imp_neq)
qed

subsection \<open>Moving slots\<close>

lemma length_shift_up [simp]: "length (shift_up ent ins tab) = length tab"
  by (induction ent ins tab rule: shift_up.induct) auto

lemma nth_shift_up:
  "ent < length tab \<Longrightarrow> j < length tab \<Longrightarrow>
   shift_up ent ins tab ! j = (if ins < j \<and> j \<le> ent then tab ! (j - 1) else tab ! j)"
  by (induction ent ins tab rule: shift_up.induct) (auto simp: nth_list_update le_Suc_eq)

lemma length_shift_down [simp]: "length (shift_down n i tab) = length tab"
  by (induction n i tab rule: shift_down.induct) auto

lemma nth_shift_down:
  "i + n < length tab \<Longrightarrow> j < length tab \<Longrightarrow>
   shift_down n i tab ! j = (if i \<le> j \<and> j < i + n then tab ! Suc j else tab ! j)"
  by (induction n i tab rule: shift_down.induct) (auto simp: nth_list_update)

lemma take_shift_up_update:
  assumes "ins \<le> ent" "ent < length tab"
  shows "take (Suc ent) ((shift_up ent ins tab)[ins := x]) = take ins (take ent tab) @ x # drop ins (take ent tab)"
  using assms
  by (intro nth_equalityI) (auto simp: nth_append nth_shift_up nth_list_update min_def nth_Cons' split: if_splits)

lemma take_shift_down:
  assumes "ins < ent" "ent \<le> length tab"
  shows "take (ent - 1) (shift_down (ent - 1 - ins) ins tab) = take ins (take ent tab) @ drop (Suc ins) (take ent tab)"
  using assms
  by (intro nth_equalityI) (auto simp: nth_append nth_shift_down min_def split: if_splits)

subsection \<open>Tables as functions from addresses to chains\<close>

lemma chain_at_wf: "wf_chains cs \<Longrightarrow> chain_at cs a = [] \<or> wf_chain (chain_at cs a) \<and> chain_addr (chain_at cs a) = a"
  by (induction cs) (auto simp: wf_chains_def)

lemma chain_at_update_other:
  "p < length cs \<Longrightarrow> chain_addr x = chain_addr (cs ! p) \<Longrightarrow> a \<noteq> chain_addr x \<Longrightarrow>
   chain_at (cs[p := x]) a = chain_at cs a"
  by (induction cs arbitrary: p) (auto split: nat.splits)

lemma wf_chains_update:
  assumes "wf_chains cs" "p < length cs" "wf_chain x" "chain_addr x = chain_addr (cs ! p)"
  shows "wf_chains (cs[p := x])" "chain_at (cs[p := x]) = (chain_at cs)(chain_addr x := x)"
proof -
  have "map (\<lambda>c. chain_addr c) (cs[p := x]) = map (\<lambda>c. chain_addr c) cs"
    using assms by (metis list_update_id map_update nth_map)
  moreover have "list_all wf_chain (cs[p := x])"
    using assms by (auto simp: wf_chains_def list_all_length nth_list_update)
  ultimately show wf: "wf_chains (cs[p := x])" using assms by (simp add: wf_chains_def)
  have "chain_at (cs[p := x]) a = chain_at cs a" if "a \<noteq> chain_addr x" for a
    using that assms by (intro chain_at_update_other) auto
  moreover have "chain_at (cs[p := x]) (chain_addr x) = x"
    using chain_at_nth [OF wf, of p] assms by simp
  ultimately show "chain_at (cs[p := x]) = (chain_at cs)(chain_addr x := x)" by (auto simp: fun_eq_iff)
qed

lemma chain_at_insert:
  "a \<notin> (\<lambda>c. chain_addr c) ` set cs \<Longrightarrow> chain_addr x = a \<Longrightarrow>
   chain_at (take p cs @ x # drop p cs) b = (if b = a then x else chain_at cs b)"
  by (induction cs arbitrary: p) (auto simp: take_Cons' drop_Cons')

lemma wf_chains_insert:
  assumes "wf_chains cs" "p \<le> length cs" "wf_chain x"
    "\<forall>i<p. chain_addr (cs ! i) < chain_addr x" "\<forall>i < length cs. p \<le> i \<longrightarrow> chain_addr x < chain_addr (cs ! i)"
  shows "wf_chains (take p cs @ x # drop p cs)"
    "chain_at (take p cs @ x # drop p cs) = (chain_at cs)(chain_addr x := x)"
proof -
  have lo: "chain_addr c < chain_addr x" if "c \<in> set (take p cs)" for c
    using that assms(2,4) by (auto simp: in_set_conv_nth)
  have hi: "chain_addr x < chain_addr c" if "c \<in> set (drop p cs)" for c
    using that assms(2,5) by (auto simp: in_set_conv_nth)
  have "sorted_wrt (<) (map (\<lambda>c. chain_addr c) (take p cs @ drop p cs))" "list_all wf_chain (take p cs @ drop p cs)"
    using assms(1) by (simp_all add: wf_chains_def)
  then show "wf_chains (take p cs @ x # drop p cs)"
    using lo hi assms(3) unfolding wf_chains_def list_all_append map_append sorted_wrt_append
    by auto
  have "chain_addr c \<noteq> chain_addr x" if "c \<in> set (take p cs) \<union> set (drop p cs)" for c
    using that lo [of c] hi [of c] by auto
  moreover have "set (take p cs) \<union> set (drop p cs) = set cs"
    by (metis append_take_drop_id set_append)
  ultimately have "chain_addr x \<notin> (\<lambda>c. chain_addr c) ` set cs" by fastforce
  then show "chain_at (take p cs @ x # drop p cs) = (chain_at cs)(chain_addr x := x)"
    by (simp add: fun_eq_iff chain_at_insert)
qed

lemma chain_at_delete:
  "sorted_wrt (<) (map (\<lambda>c. chain_addr c) cs) \<Longrightarrow> p < length cs \<Longrightarrow>
   chain_at (take p cs @ drop (Suc p) cs) b = (if b = chain_addr (cs ! p) then [] else chain_at cs b)"
proof (induction cs arbitrary: p)
  case (Cons c cs)
  show ?case
  proof (cases p)
    case 0
    with Cons.prems show ?thesis by (auto intro!: chain_at_absent dest: less_imp_neq)
  next
    case (Suc k)
    with Cons.prems have "chain_addr c < chain_addr (cs ! k)" by simp
    with Suc Cons show ?thesis by (auto dest: less_imp_neq)
  qed
qed simp

lemma wf_chains_delete:
  assumes "wf_chains cs" "p < length cs"
  shows "wf_chains (take p cs @ drop (Suc p) cs)"
    "chain_at (take p cs @ drop (Suc p) cs) = (chain_at cs)(chain_addr (cs ! p) := [])"
proof -
  have "sorted_wrt (<) (map (\<lambda>c. chain_addr c) (take p cs @ cs ! p # drop (Suc p) cs))"
    "list_all wf_chain (take p cs @ cs ! p # drop (Suc p) cs)"
    using assms by (simp_all add: wf_chains_def flip: id_take_nth_drop)
  then show "wf_chains (take p cs @ drop (Suc p) cs)"
    by (auto simp: wf_chains_def sorted_wrt_append)
  show "chain_at (take p cs @ drop (Suc p) cs) = (chain_at cs)(chain_addr (cs ! p) := [])"
    using assms by (auto simp: fun_eq_iff chain_at_delete wf_chains_def)
qed

subsection \<open>Setting\<close>

definition set_chain :: "t_addr \<Rightarrow> u32 \<Rightarrow> int \<Rightarrow> string option \<Rightarrow> brktab list \<Rightarrow> brktab list" where
  "set_chain loc sw ncnt act c =
     (case chain_find_typ sw 0 c of
        Some i \<Rightarrow> c[i := brk_assign sw ncnt act (c ! i)]
      | None \<Rightarrow> brk_assign sw ncnt act (new_brktab loc sw) # c)"

lemma brk_assign_simps [simp]:
  "brk_addr (brk_assign sw n act b) = brk_addr b" "brk_typ (brk_assign sw n act b) = brk_typ b"
  "time_fired (brk_assign sw n act b) = time_fired b" "brk_cnt (brk_assign sw n act b) = n"
  by (simp_all add: brk_assign_def Let_def split: option.split)

lemma new_brktab_simps [simp]:
  "brk_addr (new_brktab loc t) = loc" "brk_typ (new_brktab loc t) = t"
  "length (time_fired (new_brktab loc t)) = SIM_BKPT_N_SPC" "brk_act (new_brktab loc t) = None"
  by (simp_all add: new_brktab_def)

lemma chain_find_typ_Some:
  "chain_find_typ t k c = Some i \<Longrightarrow> k \<le> i \<and> i - k < length c \<and> brk_typ (c ! (i - k)) = t"
  by (induction t k c rule: chain_find_typ.induct) (auto split: if_splits simp: Suc_diff_le Suc_le_eq nth_Cons')

lemma chain_find_typ_None: "chain_find_typ t k c = None \<longleftrightarrow> t \<notin> brk_typ ` set c"
  by (induction t k c rule: chain_find_typ.induct) auto

lemma wf_chain_map_update:
  assumes "wf_chain c" "i < length c" "brk_addr b = chain_addr c" "brk_typ b = brk_typ (c ! i)"
    "length (time_fired b) = SIM_BKPT_N_SPC"
  shows "wf_chain (c[i := b])" "chain_addr (c[i := b]) = chain_addr c"
proof -
  have typs: "map brk_typ (c[i := b]) = map brk_typ c"
    using assms by (metis list_update_id map_update nth_map)
  show hd: "chain_addr (c[i := b]) = chain_addr c"
    using assms by (cases c; cases i) auto
  show "wf_chain (c[i := b])"
    using assms hd typs by (auto simp: wf_chain_def list_all_length nth_list_update)
qed

lemma set_chain_wf:
  assumes "c = [] \<or> wf_chain c \<and> chain_addr c = loc"
  shows "wf_chain (set_chain loc sw ncnt act c)" "chain_addr (set_chain loc sw ncnt act c) = loc"
proof -
  have "wf_chain (set_chain loc sw ncnt act c) \<and> chain_addr (set_chain loc sw ncnt act c) = loc"
  proof (cases "chain_find_typ sw 0 c")
    case None
    then have "set_chain loc sw ncnt act c = brk_assign sw ncnt act (new_brktab loc sw) # c"
      "sw \<notin> brk_typ ` set c"
      by (simp_all add: set_chain_def flip: chain_find_typ_None [where k = 0])
    with assms show ?thesis by (auto simp: wf_chain_def)
  next
    case (Some i)
    then have i: "i < length c" "brk_typ (c ! i) = sw" by (auto dest: chain_find_typ_Some)
    then have c: "wf_chain c" "chain_addr c = loc" using assms by auto
    then have "brk_addr (c ! i) = loc" "length (time_fired (c ! i)) = SIM_BKPT_N_SPC"
      using i by (auto simp: wf_chain_def list_all_length)
    with c i show ?thesis
      using wf_chain_map_update [of c i "brk_assign sw ncnt act (c ! i)"] by (simp add: set_chain_def Some)
  qed
  then show "wf_chain (set_chain loc sw ncnt act c)" "chain_addr (set_chain loc sw ncnt act c) = loc"
    by simp_all
qed

lemma brk_grow_cases:
  assumes "brk_inv s"
  obtains tab l where "brk_grow s = s\<lparr>sim_brk_tab := tab, sim_brk_lnt := l\<rparr>" "length tab = l"
    "sim_brk_ent s < l" "take (sim_brk_ent s) tab = chains s"
proof (cases "sim_brk_ent s \<ge> sim_brk_lnt s")
  case True
  with assms show thesis
    by (intro that [where tab = "sim_brk_tab s @ replicate SIM_BRK_INILNT []" and l = "sim_brk_lnt s + SIM_BRK_INILNT"])
       (auto simp: brk_grow_def brk_inv_def chains_def)
next
  case False
  with assms show thesis
    by (intro that [where tab = "sim_brk_tab s" and l = "sim_brk_lnt s"])
       (auto simp: brk_grow_def brk_inv_def chains_def)
qed

lemma sim_brk_new_missing:
  assumes "brk_inv s" "sim_brk_ins s = int p" "p \<le> sim_brk_ent s"
    "\<forall>i < sim_brk_ent s. p \<le> i \<longrightarrow> loc < chain_addr (chains s ! i)"
  obtains tab l where "sim_brk_new loc t s = (True, s\<lparr>sim_brk_tab := tab, sim_brk_lnt := l, sim_brk_ent := Suc (sim_brk_ent s)\<rparr>)"
    "length tab = l" "sim_brk_ent s < l"
    "take (Suc (sim_brk_ent s)) tab = take p (chains s) @ [new_brktab loc t] # drop p (chains s)"
proof -
  let ?n = "sim_brk_ent s"
  obtain tab1 l where g: "brk_grow s = s\<lparr>sim_brk_tab := tab1, sim_brk_lnt := l\<rparr>" "length tab1 = l"
    "?n < l" "take ?n tab1 = chains s" by (rule brk_grow_cases [OF assms(1)])
  have far: "p = ?n \<or> chain_addr (tab1 ! p) \<noteq> loc"
  proof (cases "p = ?n")
    case False
    with assms have "loc < chain_addr (chains s ! p)" by simp
    moreover have "chains s ! p = tab1 ! p" using False assms(3) by (simp flip: g(4))
    ultimately show ?thesis by (auto dest: less_imp_neq)
  qed simp
  let ?tab = "(shift_up ?n p tab1)[p := [new_brktab loc t]]"
  have p: "p < length tab1" using assms(3) g by simp
  show thesis
  proof (rule that [where tab = ?tab and l = l])
    show "sim_brk_new loc t s = (True, s\<lparr>sim_brk_tab := ?tab, sim_brk_lnt := l, sim_brk_ent := Suc ?n\<rparr>)"
      using assms(2) far p by (simp add: sim_brk_new_def Let_def g(1))
    show "take (Suc ?n) ?tab = take p (chains s) @ [new_brktab loc t] # drop p (chains s)"
      using take_shift_up_update [of p ?n tab1] assms(3) g by simp
  qed (use g p in auto)
qed

lemma sim_brk_new_found:
  assumes "brk_inv s" "sim_brk_ins s = int p" "p < sim_brk_ent s" "chain_addr (chains s ! p) = loc"
  obtains tab l where "sim_brk_new loc t s = (True, s\<lparr>sim_brk_tab := tab, sim_brk_lnt := l\<rparr>)"
    "length tab = l" "sim_brk_ent s < l"
    "take (sim_brk_ent s) tab = (chains s)[p := new_brktab loc t # chains s ! p]"
proof -
  let ?n = "sim_brk_ent s"
  obtain tab1 l where g: "brk_grow s = s\<lparr>sim_brk_tab := tab1, sim_brk_lnt := l\<rparr>" "length tab1 = l"
    "?n < l" "take ?n tab1 = chains s" by (rule brk_grow_cases [OF assms(1)])
  have nth: "chains s ! p = tab1 ! p" using assms(3) by (simp flip: g(4))
  have ne: "tab1 ! p \<noteq> []"
    using assms(1,3) nth by (auto simp: brk_inv_def wf_chains_def wf_chain_def list_all_length chains_def)
  let ?tab = "tab1[p := new_brktab loc t # tab1 ! p]"
  show thesis
  proof (rule that [where tab = ?tab and l = l])
    show "sim_brk_new loc t s = (True, s\<lparr>sim_brk_tab := ?tab, sim_brk_lnt := l\<rparr>)"
      using assms(2,3,4) nth ne by (simp add: sim_brk_new_def Let_def g(1))
    show "take ?n ?tab = (chains s)[p := new_brktab loc t # chains s ! p]"
      by (simp add: take_update_swap g nth)
  qed (use g in auto)
qed

definition brk_sw :: "u32 \<Rightarrow> 'a brkst_scheme \<Rightarrow> u32" where
  "brk_sw sw s = (if sw = 0 \<or> sw = BRK_TYP_DYN_STEPOVER then sw OR sim_brk_dflt s else sw)"

definition brk_settable :: "u32 \<Rightarrow> string option \<Rightarrow> 'a brkst_scheme \<Rightarrow> bool" where
  "brk_settable sw act s \<longleftrightarrow> NOT (sim_brk_types s) AND brk_sw sw s = 0 \<and>
     \<not> (brk_sw sw s AND BRK_TYP_DYN_ALL \<noteq> 0 \<and> act \<noteq> None)"

text \<open>Both ways \<^verbatim>\<open>sim_brk_set\<close> finds its entry leave it at place \<open>i\<close> of the chain \<open>c\<close> in slot \<open>p\<close>.\<close>

lemma sim_brk_set_at:
  assumes "brk_settable sw act s"
    and "sim_brk_fnd loc s = (found, s1)"
    and "(if found then chain_find_typ (brk_sw sw s) 0 (ins_chain s1) else None) = place"
    and "case place of Some i \<Rightarrow> s2 = s1 \<and> j = i
         | None \<Rightarrow> sim_brk_new loc (brk_sw sw s) s1 = (True, s2) \<and> j = 0"
  shows "sim_brk_set loc sw ncnt act s =
    (let c = ins_chain s2;
         s3 = set_ins_chain (c[j := brk_assign (brk_sw sw s) ncnt act (c ! j)]) s2
     in (SCPE_OK, s3\<lparr>sim_brk_summ := sim_brk_summ s3 OR (brk_sw sw s AND NOT BRK_TYP_TEMP)\<rparr>))"
  using assms
  by (cases place) (simp_all add: sim_brk_set_def brk_settable_def brk_sw_def [of sw s, symmetric] Let_def)

lemma chains_simps [simp]:
  "chains (s\<lparr>sim_brk_summ := x\<rparr>) = chains s" "chains (s\<lparr>sim_brk_ins := i\<rparr>) = chains s"
  "brk_inv (s\<lparr>sim_brk_summ := x\<rparr>) = brk_inv s" "brk_inv (s\<lparr>sim_brk_ins := i\<rparr>) = brk_inv s"
  by (simp_all add: chains_def brk_inv_def)

lemma set_ins_chain_simps:
  assumes "sim_brk_ins s = int p" "p < sim_brk_ent s"
  shows "chains (set_ins_chain x s) = (chains s)[p := x]" "ins_chain s = chains s ! p"
    "sim_brk_ent (set_ins_chain x s) = sim_brk_ent s" "sim_brk_lnt (set_ins_chain x s) = sim_brk_lnt s"
    "length (sim_brk_tab (set_ins_chain x s)) = length (sim_brk_tab s)"
    "sim_brk_summ (set_ins_chain x s) = sim_brk_summ s"
  using assms by (simp_all add: chains_def set_ins_chain_def ins_chain_def take_update_swap)

lemma sim_brk_set_refines:
  assumes inv: "brk_inv s" and ok: "brk_settable sw act s"
  obtains s' where "sim_brk_set loc sw ncnt act s = (SCPE_OK, s')" "brk_inv s'"
    "chain_at (chains s') = (chain_at (chains s))
       (loc := set_chain loc (brk_sw sw s) ncnt act (chain_at (chains s) loc))"
    "sim_brk_summ s' = sim_brk_summ s OR (brk_sw sw s AND NOT BRK_TYP_TEMP)"
proof -
  let ?sw = "brk_sw sw s" and ?n = "sim_brk_ent s"
  note wf = brk_inv_chains [OF inv, THEN conjunct1] and len = brk_inv_chains [OF inv, THEN conjunct2]
  let ?new = "brk_assign ?sw ncnt act (new_brktab loc ?sw)"
  from inv show thesis
  proof (cases rule: sim_brk_fnd_cases [where loc = loc, case_names found missing])
    case (found p)
    let ?c = "chains s ! p" and ?s1 = "s\<lparr>sim_brk_ins := int p\<rparr>"
    have at: "chain_at (chains s) loc = ?c"
      using chain_at_nth [OF wf, of p] found len by simp
    have wfc: "wf_chain ?c" using wf found(2) len by (simp add: wf_chains_def list_all_length)
    let ?x = "set_chain loc ?sw ncnt act ?c"
    have x: "wf_chain ?x" "chain_addr ?x = loc" using set_chain_wf wfc found(3) by blast+
    have c: "ins_chain ?s1 = ?c" using found(2) by (simp add: ins_chain_def nth_chains)
    note upd = wf_chains_update [OF wf, of p ?x]
    show thesis
    proof (cases "chain_find_typ ?sw 0 ?c")
      case (Some i)
      let ?s' = "(set_ins_chain ?x ?s1)\<lparr>sim_brk_summ := sim_brk_summ s OR (?sw AND NOT BRK_TYP_TEMP)\<rparr>"
      have set: "sim_brk_set loc sw ncnt act s = (SCPE_OK, ?s')"
        using sim_brk_set_at [OF ok found(1), where place = "Some i" and ?s2.0 = ?s1 and j = i] Some c
        by (simp add: Let_def set_chain_def set_ins_chain_def)
      have "chains ?s' = (chains s)[p := ?x]"
        using found(2) by (simp add: set_ins_chain_simps [where p = p])
      then show thesis
        using set upd x at found inv len
        by (intro that [where s' = ?s']) (simp_all add: brk_inv_def set_ins_chain_simps [where p = p])
    next
      case None
      obtain tab l where new: "sim_brk_new loc ?sw ?s1 = (True, ?s1\<lparr>sim_brk_tab := tab, sim_brk_lnt := l\<rparr>)"
        "length tab = l" "?n < l" "take ?n tab = (chains s)[p := new_brktab loc ?sw # ?c]"
        using found inv by (auto intro: sim_brk_new_found [of ?s1 p loc ?sw])
      let ?s2 = "?s1\<lparr>sim_brk_tab := tab, sim_brk_lnt := l\<rparr>"
      have tabp: "tab ! p = new_brktab loc ?sw # ?c"
        using new(4) found(2) len by (metis nth_list_update_eq nth_take)
      let ?s' = "(set_ins_chain ?x ?s2)\<lparr>sim_brk_summ := sim_brk_summ s OR (?sw AND NOT BRK_TYP_TEMP)\<rparr>"
      have set: "sim_brk_set loc sw ncnt act s = (SCPE_OK, ?s')"
        using sim_brk_set_at [OF ok found(1), where place = None and ?s2.0 = ?s2 and j = 0] None c new(1)
        by (simp add: Let_def set_chain_def set_ins_chain_def ins_chain_def tabp)
      have "chains ?s2 = (chains s)[p := new_brktab loc ?sw # ?c]" using new by (simp add: chains_def)
      then have "chains ?s' = (chains s)[p := ?x]"
        using found(2) by (simp add: set_ins_chain_simps [where p = p])
      then show thesis
        using set upd x at found inv len new
        by (intro that [where s' = ?s']) (simp_all add: brk_inv_def set_ins_chain_simps [where p = p])
    qed
  next
    case (missing p)
    let ?s1 = "s\<lparr>sim_brk_ins := int p\<rparr>"
    have at: "chain_at (chains s) loc = []" by (rule chain_at_missing [OF inv missing(3,4)])
    let ?x = "set_chain loc ?sw ncnt act []"
    have x: "wf_chain ?x" "chain_addr ?x = loc" using set_chain_wf [of "[]"] by simp_all
    obtain tab l where new: "sim_brk_new loc ?sw ?s1 = (True, ?s1\<lparr>sim_brk_tab := tab, sim_brk_lnt := l, sim_brk_ent := Suc ?n\<rparr>)"
      "length tab = l" "?n < l" "take (Suc ?n) tab = take p (chains s) @ [new_brktab loc ?sw] # drop p (chains s)"
      using missing inv by (auto intro: sim_brk_new_missing [of ?s1 p loc ?sw])
    let ?s2 = "?s1\<lparr>sim_brk_tab := tab, sim_brk_lnt := l, sim_brk_ent := Suc ?n\<rparr>"
    have pl: "length (take p (chains s)) = p" using missing(2) len by simp
    have tabp: "tab ! p = [new_brktab loc ?sw]"
      using new(4) missing(2) pl by (metis le_imp_less_Suc nth_append_length nth_take)
    let ?s' = "(set_ins_chain ?x ?s2)\<lparr>sim_brk_summ := sim_brk_summ s OR (?sw AND NOT BRK_TYP_TEMP)\<rparr>"
    have set: "sim_brk_set loc sw ncnt act s = (SCPE_OK, ?s')"
      using sim_brk_set_at [OF ok missing(1), where place = None and ?s2.0 = ?s2 and j = 0] new(1)
      by (simp add: Let_def set_chain_def set_ins_chain_def ins_chain_def tabp)
    have "chains ?s2 = take p (chains s) @ [new_brktab loc ?sw] # drop p (chains s)" using new by (simp add: chains_def)
    then have "chains ?s' = take p (chains s) @ ?x # drop p (chains s)"
      using missing(2) pl by (simp add: set_ins_chain_simps [where p = p] list_update_append)
    then show thesis
      using set wf_chains_insert [OF wf, of p ?x] x at missing inv len new
      by (intro that [where s' = ?s']) (simp_all add: brk_inv_def set_ins_chain_simps [where p = p])
  qed
qed

subsection \<open>Clearing\<close>

lemma brk_clr_chain_filter: "brk_clr_chain sw c = filter (\<lambda>b. brk_typ b \<noteq> brk_typ b AND sw) c"
proof (induction c)
  case (Cons b c)
  have neg: "(if \<not> P then x else y) = (if P then y else x)" for P and x y :: "brktab list" by simp
  show ?case by (simp only: brk_clr_chain.simps filter.simps neg Cons)
qed simp

lemma wf_chain_clr:
  assumes "wf_chain c" "brk_clr_chain sw c \<noteq> []"
  shows "wf_chain (brk_clr_chain sw c)" "chain_addr (brk_clr_chain sw c) = chain_addr c"
proof -
  have sub: "set (brk_clr_chain sw c) \<subseteq> set c" by (auto simp: brk_clr_chain_filter)
  have "hd (brk_clr_chain sw c) \<in> set c" using assms(2) sub hd_in_set by blast
  then show hd: "chain_addr (brk_clr_chain sw c) = chain_addr c"
    using assms(1) unfolding wf_chain_def list_all_iff by blast
  have "distinct (map brk_typ (brk_clr_chain sw c))"
    using assms(1) by (simp add: wf_chain_def brk_clr_chain_filter distinct_map_filter)
  then show "wf_chain (brk_clr_chain sw c)"
    using assms(1,2) sub unfolding wf_chain_def hd list_all_iff by blast
qed

definition table_summ :: "brktab list list \<Rightarrow> u32" where
  "table_summ cs = fold chain_summ cs 0"

definition clr_sw :: "u32 \<Rightarrow> u32" where
  "clr_sw sw = (if sw = 0 then SIM_BRK_ALLTYP else sw)"

lemma sim_brk_clr_found:
  fixes s :: "'a brkst_scheme" and sw :: u32
  assumes inv: "brk_inv s" and fnd: "sim_brk_fnd loc s = (True, s\<lparr>sim_brk_ins := int p\<rparr>)"
    and p: "p < sim_brk_ent s"
  defines "c \<equiv> brk_clr_chain (clr_sw sw) (chains s ! p)"
  obtains s' where "sim_brk_clr loc sw s = (SCPE_OK, s')"
    "chains s' = (if c = [] then take p (chains s) @ drop (Suc p) (chains s) else (chains s)[p := c])"
    "sim_brk_ent s' = (if c = [] then sim_brk_ent s - 1 else sim_brk_ent s)"
    "length (sim_brk_tab s') = sim_brk_lnt s'" "sim_brk_ent s' \<le> sim_brk_lnt s'"
    "sim_brk_summ s' = table_summ (chains s')"
proof -
  let ?s1 = "s\<lparr>sim_brk_ins := int p\<rparr>"
  let ?s2 = "set_ins_chain c ?s1"
  let ?s3 = "if c = [] then ?s2\<lparr>sim_brk_ent := sim_brk_ent s - 1,
       sim_brk_tab := shift_down (sim_brk_ent s - 1 - p) p (sim_brk_tab ?s2)\<rparr> else ?s2"
  have plen: "p < length (sim_brk_tab s)" using inv p by (simp add: brk_inv_def)
  have c: "ins_chain ?s1 = chains s ! p" "ins_chain ?s2 = c"
    using p plen by (simp_all add: ins_chain_def nth_chains set_ins_chain_def)
  have s2: "chains ?s2 = (chains s)[p := c]" "sim_brk_ent ?s2 = sim_brk_ent s"
    using p by (simp_all add: set_ins_chain_simps [where p = p])
  have clr: "sim_brk_clr loc sw s = (SCPE_OK, ?s3\<lparr>sim_brk_summ := table_summ (chains ?s3)\<rparr>)"
    unfolding sim_brk_clr_def fnd Let_def prod.case c(1) clr_sw_def [symmetric] c_def [symmetric] c(2)
    by (simp add: s2(2) [unfolded c_def] table_summ_def chains_def [of ?s3] set_ins_chain_def)
  have "chains ?s3 = take p (chains s) @ drop (Suc p) (chains s)" if "c = []"
    using that take_shift_down [of p "sim_brk_ent s" "(sim_brk_tab s)[p := c]"] inv p
    by (simp add: chains_def set_ins_chain_def brk_inv_def take_update_swap drop_update_cancel list_update_beyond)
  then show thesis
    using clr s2 inv by (intro that [where s' = "?s3\<lparr>sim_brk_summ := table_summ (chains ?s3)\<rparr>"])
      (auto simp: set_ins_chain_def brk_inv_def)
qed

lemma sim_brk_clr_refines:
  assumes inv: "brk_inv s"
  obtains s' where "sim_brk_clr loc sw s = (SCPE_OK, s')" "brk_inv s'"
    "chain_at (chains s') = (chain_at (chains s))(loc := brk_clr_chain (clr_sw sw) (chain_at (chains s) loc))"
proof -
  note wf = brk_inv_chains [OF inv, THEN conjunct1] and len = brk_inv_chains [OF inv, THEN conjunct2]
  from inv show thesis
  proof (cases rule: sim_brk_fnd_cases [where loc = loc, case_names found missing])
    case (found p)
    let ?c = "brk_clr_chain (clr_sw sw) (chains s ! p)"
    have at: "chain_at (chains s) loc = chains s ! p"
      using chain_at_nth [OF wf, of p] found len by simp
    have wfc: "wf_chain (chains s ! p)" using wf found(2) len by (simp add: wf_chains_def list_all_length)
    obtain s' where s': "sim_brk_clr loc sw s = (SCPE_OK, s')"
      "chains s' = (if ?c = [] then take p (chains s) @ drop (Suc p) (chains s) else (chains s)[p := ?c])"
      "sim_brk_ent s' = (if ?c = [] then sim_brk_ent s - 1 else sim_brk_ent s)"
      "length (sim_brk_tab s') = sim_brk_lnt s'" "sim_brk_ent s' \<le> sim_brk_lnt s'"
      by (rule sim_brk_clr_found [OF inv found(1,2)])
    show thesis
    proof (cases "?c = []")
      case True
      with s' wf_chains_delete [OF wf, of p] at found len show thesis
        by (intro that [where s' = s']) (simp_all add: brk_inv_def)
    next
      case False
      with s' wf_chains_update [OF wf, of p ?c] wf_chain_clr [OF wfc False] at found len show thesis
        by (intro that [where s' = s']) (simp_all add: brk_inv_def)
    qed
  next
    case (missing p)
    with chain_at_missing [OF inv missing(3,4)] inv show thesis
      by (intro that [where s' = "s\<lparr>sim_brk_ins := int p\<rparr>"]) (auto simp: sim_brk_clr_def)
  qed
qed

subsection \<open>The table as a store keyed by addresses\<close>

datatype brk_op = Brk_Set u32 int "string option" | Brk_Clr u32

fun brk_request :: "t_addr \<Rightarrow> brk_op \<Rightarrow> 'a brkst_scheme \<Rightarrow> 'a brkst_scheme" where
  "brk_request loc (Brk_Set sw ncnt act) s = snd (sim_brk_set loc sw ncnt act s)"
| "brk_request loc (Brk_Clr sw) s = snd (sim_brk_clr loc sw s)"

text \<open>What a request does to the chain of its address.\<close>

fun brk_change :: "u32 \<times> u32 \<Rightarrow> t_addr \<Rightarrow> brk_op \<Rightarrow> brktab list \<Rightarrow> brktab list" where
  "brk_change (types, dflt) loc (Brk_Set sw0 ncnt act) c =
     (let sw = (if sw0 = 0 \<or> sw0 = BRK_TYP_DYN_STEPOVER then sw0 OR dflt else sw0)
      in if NOT types AND sw \<noteq> 0 \<or> sw AND BRK_TYP_DYN_ALL \<noteq> 0 \<and> act \<noteq> None then c
         else set_chain loc sw ncnt act c)"
| "brk_change (types, dflt) loc (Brk_Clr sw) c = brk_clr_chain (clr_sw sw) c"

definition brk_env :: "'a brkst_scheme \<Rightarrow> u32 \<times> u32" where
  "brk_env s = (sim_brk_types s, sim_brk_dflt s)"

lemma brk_env_simps [simp]:
  "brk_env (s\<lparr>sim_brk_tab := a\<rparr>) = brk_env s" "brk_env (s\<lparr>sim_brk_ent := b\<rparr>) = brk_env s"
  "brk_env (s\<lparr>sim_brk_lnt := c\<rparr>) = brk_env s" "brk_env (s\<lparr>sim_brk_ins := d\<rparr>) = brk_env s"
  "brk_env (s\<lparr>sim_brk_summ := e\<rparr>) = brk_env s"
  by (simp_all add: brk_env_def)

lemma brk_env_fnd [simp]: "brk_env (snd (sim_brk_fnd loc s)) = brk_env s"
  by (simp add: sim_brk_fnd_def Let_def case_prod_beta)

lemma brk_env_new [simp]: "brk_env (snd (sim_brk_new loc t s)) = brk_env s"
  by (simp add: sim_brk_new_def brk_grow_def Let_def)

lemma brk_env_set: "brk_env (snd (sim_brk_set loc sw n act s)) = brk_env s"
proof -
  obtain found s1 where fnd: "sim_brk_fnd loc s = (found, s1)" by fastforce
  obtain ok s2 where new: "sim_brk_new loc (brk_sw sw s) s1 = (ok, s2)" by fastforce
  have "brk_env s1 = brk_env s" "brk_env s2 = brk_env s1"
    using brk_env_fnd [of loc s] brk_env_new [of loc "brk_sw sw s" s1] fnd new by simp_all
  then show ?thesis
    by (simp add: sim_brk_set_def brk_sw_def [symmetric] Let_def fnd new set_ins_chain_def split: option.split)
qed

lemma brk_env_clr: "brk_env (snd (sim_brk_clr loc sw s)) = brk_env s"
  by (simp add: sim_brk_clr_def set_ins_chain_def Let_def case_prod_beta)

lemma sim_brk_set_rejects:
  "\<not> brk_settable sw act s \<Longrightarrow> sim_brk_set loc sw n act s =
     (if NOT (sim_brk_types s) AND brk_sw sw s \<noteq> 0 then SCPE_NOFNC else SCPE_ARG, s)"
  by (auto simp: sim_brk_set_def brk_settable_def brk_sw_def [symmetric] Let_def)

lemma brk_request_content:
  assumes "brk_inv s"
  shows "brk_inv (brk_request loc x s) \<and> chain_at (chains (brk_request loc x s)) =
    (chain_at (chains s))(loc := brk_change (brk_env s) loc x (chain_at (chains s) loc))"
proof (cases x)
  case (Brk_Set sw ncnt act)
  show ?thesis
  proof (cases "brk_settable sw act s")
    case True
    then have "brk_change (brk_env s) loc x c = set_chain loc (brk_sw sw s) ncnt act c" for c
      using Brk_Set by (auto simp: brk_settable_def brk_sw_def brk_env_def Let_def)
    then show ?thesis
      by - (rule sim_brk_set_refines [OF assms True, where ncnt = ncnt and loc = loc], simp add: Brk_Set)
  next
    case False
    then have "brk_change (brk_env s) loc x c = c" for c
      using Brk_Set by (auto simp: brk_settable_def brk_sw_def brk_env_def Let_def)
    with False Brk_Set assms show ?thesis by (simp add: sim_brk_set_rejects)
  qed
next
  case (Brk_Clr sw)
  then show ?thesis
    by - (rule sim_brk_clr_refines [OF assms, where loc = loc and sw = sw], simp add: brk_env_def)
qed

interpretation brk: keyed_store "\<lambda>s. chain_at (chains s)" brk_env brk_request brk_change brk_inv
proof
  show "brk_env (brk_request k x s) = brk_env s" for k x and s :: "'a brkst_scheme"
    by (cases x) (simp_all add: brk_env_set brk_env_clr)
qed (use brk_request_content in blast)+

subsection \<open>Clearing all\<close>

text \<open>
  The loop index moves on exactly when the chain of its slot survives, so that the slots
  from the index on are those not visited yet.
\<close>

lemma brk_clrall_step:
  assumes inv: "brk_inv s" and i: "i < sim_brk_ent s"
  defines "loc \<equiv> chain_addr (sim_brk_tab s ! i)"
  obtains s' where "sim_brk_clr loc sw s = (SCPE_OK, s')" "brk_inv s'"
    "chain_at (chains s') = (chain_at (chains s))(loc := brk_clr_chain (clr_sw sw) (chain_at (chains s) loc))"
    "if i < sim_brk_ent s' \<and> loc = chain_addr (sim_brk_tab s' ! i)
     then drop (Suc i) (chains s') = drop (Suc i) (chains s)
     else drop i (chains s') = drop (Suc i) (chains s)"
proof -
  note wf = brk_inv_chains [OF inv, THEN conjunct1] and len = brk_inv_chains [OF inv, THEN conjunct2]
  obtain s' where s': "sim_brk_clr loc sw s = (SCPE_OK, s')" "brk_inv s'"
    "chain_at (chains s') = (chain_at (chains s))(loc := brk_clr_chain (clr_sw sw) (chain_at (chains s) loc))"
    by (rule sim_brk_clr_refines [OF inv])
  have loc: "loc = chain_addr (chains s ! i)" using i by (simp add: loc_def nth_chains)
  have fnd: "sim_brk_fnd loc s = (True, s\<lparr>sim_brk_ins := int i\<rparr>)"
  proof (rule sim_brk_fnd_cases [OF inv, where loc = loc])
    fix p assume p: "sim_brk_fnd loc s = (True, s\<lparr>sim_brk_ins := int p\<rparr>)" "p < sim_brk_ent s" "chain_addr (chains s ! p) = loc"
    then have "p = i" using wf_chains_nth_less [OF wf, of p i] wf_chains_nth_less [OF wf, of i p] i len loc
      by (cases p i rule: linorder_cases) auto
    with p show ?thesis by simp
  next
    fix p assume p: "\<forall>i<p. chain_addr (chains s ! i) < loc" "\<forall>i < sim_brk_ent s. p \<le> i \<longrightarrow> loc < chain_addr (chains s ! i)"
    with i loc show ?thesis by (cases "i < p") (auto dest: less_imp_neq)
  qed
  let ?c = "brk_clr_chain (clr_sw sw) (chains s ! i)"
  obtain s'' where s'': "sim_brk_clr loc sw s = (SCPE_OK, s'')"
    "chains s'' = (if ?c = [] then take i (chains s) @ drop (Suc i) (chains s) else (chains s)[i := ?c])"
    "sim_brk_ent s'' = (if ?c = [] then sim_brk_ent s - 1 else sim_brk_ent s)"
    by (rule sim_brk_clr_found [OF inv fnd i])
  with s' have [simp]: "s'' = s'" by simp
  have wfc: "wf_chain (chains s ! i)" using wf i len by (simp add: wf_chains_def list_all_length)
  have nxt: "loc < chain_addr (chains s ! Suc i)" if "Suc i < sim_brk_ent s"
    using wf_chains_nth_less [OF wf, of i "Suc i"] that len loc by simp
  show thesis
  proof (cases "?c = []")
    case True
    then have ch: "drop i (chains s') = drop (Suc i) (chains s)" using s'' i len by simp
    have "loc \<noteq> chain_addr (sim_brk_tab s' ! i)" if "i < sim_brk_ent s'"
    proof -
      have lt: "Suc i < sim_brk_ent s" using that True s'' by simp
      have "chains s' ! i = chains s ! Suc i"
        using ch that lt len brk_inv_chains [OF s'(2)] by (metis Cons_nth_drop_Suc list.inject)
      with nxt [OF lt] nth_chains [OF that] show ?thesis by auto
    qed
    with ch s' show thesis by (intro that [where s' = s']) auto
  next
    case False
    with wf_chain_clr [OF wfc False] s'' i len have at: "loc = chain_addr (chains s' ! i)" "i < sim_brk_ent s'"
      by (simp_all add: loc)
    have "drop (Suc i) (chains s') = drop (Suc i) (chains s)" using s'' False by simp
    with at s' show thesis unfolding nth_chains [OF at(2)] by (intro that [where s' = s']) simp_all
  qed
qed

definition addrs_of :: "brktab list list \<Rightarrow> t_addr set" where
  "addrs_of cs = (\<lambda>c. chain_addr c) ` set cs"

lemma clrall_loop:
  assumes "brk_inv s" "sim_brk_ent s - i < fuel" "sw \<noteq> 0"
  shows "\<exists>s'. brk_clrall_loop fuel i sw s = Some s' \<and> brk_inv s' \<and>
    chain_at (chains s') = (\<lambda>a. if a \<in> addrs_of (drop i (chains s)) then brk_clr_chain sw (chain_at (chains s) a)
                                else chain_at (chains s) a)"
  using assms
proof (induction fuel arbitrary: i s)
  case 0
  then show ?case by simp
next
  case (Suc fuel)
  note len = brk_inv_chains [OF Suc.prems(1)]
  have sw: "clr_sw sw = sw" using Suc.prems by (simp add: clr_sw_def)
  show ?case
  proof (cases "i < sim_brk_ent s")
    case False
    with len Suc.prems show ?thesis by (simp add: addrs_of_def)
  next
    case True
    let ?loc = "chain_addr (sim_brk_tab s ! i)"
    obtain s' where s': "sim_brk_clr ?loc sw s = (SCPE_OK, s')" "brk_inv s'"
      "chain_at (chains s') = (chain_at (chains s))(?loc := brk_clr_chain sw (chain_at (chains s) ?loc))"
      "if i < sim_brk_ent s' \<and> ?loc = chain_addr (sim_brk_tab s' ! i)
       then drop (Suc i) (chains s') = drop (Suc i) (chains s)
       else drop i (chains s') = drop (Suc i) (chains s)"
      by (rule brk_clrall_step [OF Suc.prems(1) True, where sw = sw]) (simp add: sw)
    define kept where "kept \<longleftrightarrow> i < sim_brk_ent s' \<and> ?loc = chain_addr (sim_brk_tab s' ! i)"
    define j where "j = (if kept then Suc i else i)"
    have rest: "drop j (chains s') = drop (Suc i) (chains s)"
      using s'(4) by (simp add: j_def flip: kept_def split: if_splits)
    have "sim_brk_ent s' - j = sim_brk_ent s - Suc i"
      using arg_cong [OF rest, of length] len brk_inv_chains [OF s'(2)] by simp
    with True Suc.prems have "sim_brk_ent s' - j < fuel" by simp
    from Suc.IH [OF s'(2) this Suc.prems(3)] obtain s2 where
      s2: "brk_clrall_loop fuel j sw s' = Some s2" "brk_inv s2" "chain_at (chains s2) =
        (\<lambda>a. if a \<in> addrs_of (drop (Suc i) (chains s)) then brk_clr_chain sw (chain_at (chains s') a)
                                else chain_at (chains s') a)" unfolding rest by blast
    have "brk_clrall_loop (Suc fuel) i sw s = brk_clrall_loop fuel j sw s'"
      unfolding brk_clrall_loop.simps Let_def s'(1) snd_conv kept_def [symmetric]
      using True by (simp add: j_def)
    moreover have addrs: "addrs_of (drop i (chains s)) = insert ?loc (addrs_of (drop (Suc i) (chains s)))"
      using True len by (simp add: addrs_of_def nth_chains flip: Cons_nth_drop_Suc)
    moreover have "brk_clr_chain sw (brk_clr_chain sw c) = brk_clr_chain sw c" for c
      by (simp add: brk_clr_chain_filter)
    ultimately show ?thesis using s2 s'(3) by (auto simp: fun_eq_iff)
  qed
qed

lemma clrall_all:
  assumes "brk_inv s" "sim_brk_ent s < fuel"
  shows "\<exists>s'. sim_brk_clrall fuel sw s = Some (SCPE_OK, s') \<and> brk_inv s' \<and>
    chain_at (chains s') = (\<lambda>a. brk_clr_chain (clr_sw sw) (chain_at (chains s) a))"
proof -
  have ne: "clr_sw sw \<noteq> 0" by (simp add: clr_sw_def)
  have "chain_at (chains s) a = []" if "a \<notin> addrs_of (chains s)" for a
    using that by (simp add: addrs_of_def chain_at_absent)
  with clrall_loop [OF assms(1) _ ne, of 0 fuel] assms(2) show ?thesis
    by (auto simp: sim_brk_clrall_def clr_sw_def [of sw, symmetric] fun_eq_iff)
qed

subsection \<open>The type summary\<close>

definition brk_covered :: "u32 \<Rightarrow> brktab \<Rightarrow> bool" where
  "brk_covered m b \<longleftrightarrow> brk_typ b AND NOT BRK_TYP_TEMP AND NOT m = 0"

definition summ_inv :: "'a brkst_scheme \<Rightarrow> bool" where
  "summ_inv s \<longleftrightarrow> list_all (list_all (brk_covered (sim_brk_summ s))) (chains s)"

lemma summ_inv_chain_at:
  assumes "brk_inv s"
  shows "summ_inv s \<longleftrightarrow> (\<forall>a. list_all (brk_covered (sim_brk_summ s)) (chain_at (chains s) a))"
proof -
  have "chain_at cs a \<in> insert [] (set cs)" for cs a by (induction cs) auto
  moreover have "\<exists>a. chain_at (chains s) a = c" if "c \<in> set (chains s)" for c
    using that chain_at_nth [OF brk_inv_chains [OF assms, THEN conjunct1]] by (auto simp: in_set_conv_nth)
  ultimately show ?thesis unfolding summ_inv_def list_all_iff by (metis empty_iff empty_set insert_iff)
qed

lemma covered_or: "brk_covered m b \<Longrightarrow> brk_covered (m OR n) b"
  by (simp add: brk_covered_def bit_eq_iff bit_simps) blast

lemma covered_chain_summ:
  "brk_covered acc b \<or> b \<in> set c \<Longrightarrow> brk_covered (chain_summ c acc) b"
proof (induction c arbitrary: acc)
  case (Cons x c)
  let ?acc = "acc OR (brk_typ x AND NOT BRK_TYP_TEMP)"
  have "brk_covered ?acc b \<or> b \<in> set c"
    using Cons.prems covered_or by (auto simp: brk_covered_def bit_eq_iff bit_simps)
  with Cons.IH [of ?acc] show ?case by (simp add: chain_summ_def)
qed (simp add: chain_summ_def)

lemma covered_table_summ: "list_all (list_all (brk_covered (fold chain_summ cs acc))) cs"
proof -
  have "brk_covered acc b \<or> (\<exists>c \<in> set cs. b \<in> set c) \<Longrightarrow> brk_covered (fold chain_summ cs acc) b" for b acc
    by (induction cs arbitrary: acc) (auto simp: covered_chain_summ)
  then show ?thesis by (auto simp: list_all_iff)
qed

lemma summ_inv_clr:
  assumes "brk_inv s" "summ_inv s"
  shows "summ_inv (snd (sim_brk_clr loc sw s))"
  using assms(1)
proof (cases rule: sim_brk_fnd_cases [where loc = loc, case_names found missing])
  case (found p)
  show ?thesis
    by (rule sim_brk_clr_found [OF assms(1) found(1,2), where sw = sw])
      (simp add: summ_inv_def table_summ_def covered_table_summ)
next
  case (missing p)
  with assms(2) show ?thesis by (simp add: sim_brk_clr_def summ_inv_def)
qed

lemma set_chain_set:
  "b \<in> set (set_chain loc sw n act c) \<Longrightarrow> brk_typ b = sw \<or> b \<in> set c"
proof (cases "chain_find_typ sw 0 c")
  case (Some i)
  assume b: "b \<in> set (set_chain loc sw n act c)"
  then have "b \<in> insert (brk_assign sw n act (c ! i)) (set c)"
    using Some set_update_subset_insert by (fastforce simp: set_chain_def)
  with chain_find_typ_Some [OF Some] show ?thesis by auto
qed (auto simp: set_chain_def)

lemma summ_inv_set:
  assumes inv: "brk_inv s" and "summ_inv s"
  shows "summ_inv (snd (sim_brk_set loc sw n act s))"
proof (cases "brk_settable sw act s")
  case True
  obtain s' where s': "sim_brk_set loc sw n act s = (SCPE_OK, s')" "brk_inv s'"
    "chain_at (chains s') = (chain_at (chains s)) (loc := set_chain loc (brk_sw sw s) n act (chain_at (chains s) loc))"
    "sim_brk_summ s' = sim_brk_summ s OR (brk_sw sw s AND NOT BRK_TYP_TEMP)"
    by (rule sim_brk_set_refines [OF inv True])
  have old: "brk_covered (sim_brk_summ s') b" if "b \<in> set (chain_at (chains s) a)" for a b
    using that assms(2) by (auto simp: s'(4) summ_inv_chain_at [OF inv] list_all_iff covered_or)
  have "brk_covered (sim_brk_summ s') b" if "brk_typ b = brk_sw sw s" for b
    using that by (auto simp: brk_covered_def s'(4) bit_eq_iff bit_simps)
  then have "summ_inv s'"
    unfolding summ_inv_chain_at [OF s'(2)] using old
    by (auto simp: s'(3) list_all_iff dest!: set_chain_set)
  then show ?thesis by (simp add: s'(1))
qed (use assms in \<open>simp add: sim_brk_set_rejects\<close>)

subsection \<open>Testing\<close>

definition brk_hit :: "u32 \<Rightarrow> nat \<Rightarrow> real \<Rightarrow> brktab \<Rightarrow> bool" where
  "brk_hit btyp spc t b \<longleftrightarrow> brk_typ b AND btyp \<noteq> 0 \<and> time_fired b ! spc \<noteq> t"

fun find_from :: "('b \<Rightarrow> bool) \<Rightarrow> nat \<Rightarrow> 'b list \<Rightarrow> nat option" where
  "find_from P i [] = None"
| "find_from P i (x # xs) = (if P x then Some i else find_from P (Suc i) xs)"

lemma find_from_Some:
  "find_from P k xs = Some i \<Longrightarrow> k \<le> i \<and> i - k < length xs \<and> P (xs ! (i - k))"
  by (induction P k xs rule: find_from.induct) (auto split: if_splits simp: Suc_diff_le Suc_le_eq nth_Cons')

lemma find_from_None: "find_from P k xs = None \<longleftrightarrow> list_all (\<lambda>x. \<not> P x) xs"
  by (induction P k xs rule: find_from.induct) auto

lemma update_sim_time_brk [simp]:
  "sim_brk_tab (update_sim_time s) = sim_brk_tab s" "sim_brk_ent (update_sim_time s) = sim_brk_ent s"
  "sim_brk_ins (update_sim_time s) = sim_brk_ins s" "sim_brk_lnt (update_sim_time s) = sim_brk_lnt s"
  "sim_brk_summ (update_sim_time s) = sim_brk_summ s" "sim_brk_act (update_sim_time s) = sim_brk_act s"
  "sim_do_depth (update_sim_time s) = sim_do_depth s"
  by (simp_all add: update_sim_time_def Let_def split: list.split)

lemma update_sim_time_chains [simp]:
  "chains (update_sim_time s) = chains s" "brk_inv (update_sim_time s) = brk_inv s"
  "ins_chain (update_sim_time s) = ins_chain s"
  by (simp_all add: chains_def brk_inv_def ins_chain_def)

lemma chain_find_ex_any:
  assumes "chain_find_ex btyp True spc i c s = (place, s')"
  shows "place = find_from (brk_hit btyp spc (now s)) i c \<and> (s' = s \<or> s' = update_sim_time s)"
  using assms
proof (induction c arbitrary: i s)
  case (Cons b c)
  let ?s = "update_sim_time s"
  have t: "sim_gtime s = (now s, ?s)" by (simp add: sim_gtime_def Let_def)
  consider (other) "brk_typ b AND btyp = 0" | (hit) "brk_hit btyp spc (now s) b"
    | (fired) "brk_typ b AND btyp \<noteq> 0" "time_fired b ! spc = now s"
    by (auto simp: brk_hit_def)
  then show ?case
  proof cases
    case other
    with Cons.prems Cons.IH [of "Suc i" s] show ?thesis by (simp add: brk_hit_def)
  next
    case hit
    with Cons.prems show ?thesis by (simp add: t brk_hit_def)
  next
    case fired
    with Cons.prems Cons.IH [of "Suc i" ?s] show ?thesis by (simp add: t brk_hit_def)
  qed
qed simp

text \<open>\<^verbatim>\<open>sim_brk_test\<close> with \<^verbatim>\<open>btyp\<close> as it is after the dynamic types are added.\<close>

definition test_types :: "u32 \<Rightarrow> 'a brkst_scheme \<Rightarrow> u32" where
  "test_types btyp s = (if sim_brk_summ s AND BRK_TYP_DYN_ALL \<noteq> 0 then btyp OR BRK_TYP_DYN_ALL else btyp)"

definition test_space :: "u32 \<Rightarrow> nat" where
  "test_space btyp = unat (drop_bit SIM_BKPT_V_SPC btyp AND 7)"

definition count_hit :: "nat \<Rightarrow> real \<Rightarrow> brktab \<Rightarrow> brktab" where
  "count_hit spc t b = b\<lparr>time_fired := (time_fired b)[spc := t], brk_cnt := brk_cnt b - 1\<rparr>"

text \<open>What a test at time \<open>t\<close> returns and does to the chain of its address.\<close>

definition test_chain :: "u32 \<Rightarrow> nat \<Rightarrow> real \<Rightarrow> brktab list \<Rightarrow> u32 \<times> brktab list" where
  "test_chain btyp spc t c =
     (case find_from (brk_hit btyp spc t) 0 c of
        None \<Rightarrow> (0, c)
      | Some i \<Rightarrow>
          (let b = count_hit spc t (c ! i) in
           if brk_cnt b > 0 then (0, c[i := b])
           else let c' = c[i := b\<lparr>brk_cnt := 0\<rparr>] in
                (btyp AND brk_typ b,
                 if brk_typ b AND BRK_TYP_TEMP \<noteq> 0 then brk_clr_chain (brk_typ b) c' else c')))"

lemma now_brk_simps [simp]:
  "now (s\<lparr>sim_brk_ins := i\<rparr>) = now s" "now (s\<lparr>sim_brk_tab := x\<rparr>) = now s" "now (s\<lparr>sim_brk_ent := n\<rparr>) = now s"
  "now (s\<lparr>sim_brk_summ := m\<rparr>) = now s" "now (s\<lparr>sim_brk_match_type := m\<rparr>) = now s"
  "now (s\<lparr>sim_brk_match_addr := a\<rparr>) = now s" "now (s\<lparr>sim_brk_act := f\<rparr>) = now s"
  "now (s\<lparr>sim_brk_act_buf := f\<rparr>) = now s"
  by (simp_all add: now_eq split: list.split)

lemma now_brk_ops [simp]:
  "now (sim_brk_setact act s) = now s" "now (set_ins_chain c s) = now s" "now (snd (sim_brk_clr loc sw s)) = now s"
  by (simp_all add: sim_brk_setact_def sim_brk_clract_def set_ins_chain_def sim_brk_clr_def sim_brk_fnd_def
      Let_def case_prod_beta split: option.split)

lemma set_ins_chain_summ [simp]: "sim_brk_summ (set_ins_chain x s) = sim_brk_summ s"
  by (simp add: set_ins_chain_def)

lemma sim_brk_fnd_ex_any:
  assumes inv: "brk_inv s" and ex: "sim_brk_fnd_ex loc btyp True spc s = (place, s1)"
  shows "place = find_from (brk_hit btyp spc (now s)) 0 (chain_at (chains s) loc)"
    "\<exists>p. (s1 = s\<lparr>sim_brk_ins := int p\<rparr> \<or> s1 = update_sim_time (s\<lparr>sim_brk_ins := int p\<rparr>)) \<and>
      (place \<noteq> None \<longrightarrow> p < sim_brk_ent s \<and> chains s ! p = chain_at (chains s) loc)"
proof -
  note wf = brk_inv_chains [OF inv, THEN conjunct1] and len = brk_inv_chains [OF inv, THEN conjunct2]
  have both: "place = find_from (brk_hit btyp spc (now s)) 0 (chain_at (chains s) loc) \<and>
    (\<exists>p. (s1 = s\<lparr>sim_brk_ins := int p\<rparr> \<or> s1 = update_sim_time (s\<lparr>sim_brk_ins := int p\<rparr>)) \<and>
      (place \<noteq> None \<longrightarrow> p < sim_brk_ent s \<and> chains s ! p = chain_at (chains s) loc))"
    using inv
  proof (cases rule: sim_brk_fnd_cases [where loc = loc, case_names found missing])
    case (found p)
    have at: "chains s ! p = chain_at (chains s) loc"
      using chain_at_nth [OF wf, of p] found len by simp
    have "ins_chain (s\<lparr>sim_brk_ins := int p\<rparr>) = chains s ! p"
      using found(2) by (simp add: ins_chain_def nth_chains)
    with ex found(1) have "chain_find_ex btyp True spc 0 (chains s ! p) (s\<lparr>sim_brk_ins := int p\<rparr>) = (place, s1)"
      by (simp add: sim_brk_fnd_ex_def)
    from chain_find_ex_any [OF this] found(2) at show ?thesis by auto
  next
    case (missing p)
    with ex have "place = None" "s1 = s\<lparr>sim_brk_ins := int p\<rparr>" by (simp_all add: sim_brk_fnd_ex_def)
    with chain_at_missing [OF inv missing(3,4)] show ?thesis by auto
  qed
  show "place = find_from (brk_hit btyp spc (now s)) 0 (chain_at (chains s) loc)" by (rule both [THEN conjunct1])
  show "\<exists>p. (s1 = s\<lparr>sim_brk_ins := int p\<rparr> \<or> s1 = update_sim_time (s\<lparr>sim_brk_ins := int p\<rparr>)) \<and>
      (place \<noteq> None \<longrightarrow> p < sim_brk_ent s \<and> chains s ! p = chain_at (chains s) loc)" by (rule both [THEN conjunct2])
qed

lemma setact_simps [simp]:
  "chains (sim_brk_setact a s) = chains s" "brk_inv (sim_brk_setact a s) = brk_inv s"
  "sim_brk_summ (sim_brk_setact a s) = sim_brk_summ s"
  by (simp_all add: sim_brk_setact_def sim_brk_clract_def chains_def brk_inv_def Let_def split: option.split)

lemma match_simps [simp]:
  "chains (s\<lparr>sim_brk_match_type := m\<rparr>) = chains s" "brk_inv (s\<lparr>sim_brk_match_type := m\<rparr>) = brk_inv s"
  "chains (s\<lparr>sim_brk_match_addr := l\<rparr>) = chains s" "brk_inv (s\<lparr>sim_brk_match_addr := l\<rparr>) = brk_inv s"
  by (simp_all add: chains_def brk_inv_def)

lemma clr_match_type [simp]: "sim_brk_match_type (snd (sim_brk_clr loc sw s)) = sim_brk_match_type s"
  by (simp add: sim_brk_clr_def sim_brk_fnd_def set_ins_chain_def Let_def case_prod_beta)

lemma set_ins_chain_inv:
  assumes inv: "brk_inv s" and p: "sim_brk_ins s = int p" "p < sim_brk_ent s"
    and x: "wf_chain x" "chain_addr x = chain_addr (chains s ! p)"
  shows "brk_inv (set_ins_chain x s)"
    "chain_at (chains (set_ins_chain x s)) = (chain_at (chains s))(chain_addr x := x)"
  using wf_chains_update [of "chains s" p x] brk_inv_chains [OF inv] inv p x
  by (simp_all add: brk_inv_def set_ins_chain_simps [OF p])

lemma sim_brk_test_unfold:
  assumes "sim_brk_fnd_ex loc (test_types btyp s) True (test_space btyp) s = (place, s1)"
  shows "sim_brk_test loc btyp s = (case place of None \<Rightarrow> (0, s1) | Some i \<Rightarrow>
      (let s2 = update_sim_time s1; c = ins_chain s2; b = c ! i; spc = test_space btyp; m = test_types btyp s in
       if time_fired b ! spc = now s1 then (0, s2)
       else let b1 = count_hit spc (now s1) b in
         if brk_cnt b1 > 0 then (0, set_ins_chain (c[i := b1]) s2)
         else let s3 = sim_brk_setact (brk_act b1) (set_ins_chain (c[i := b1\<lparr>brk_cnt := 0\<rparr>]) s2);
                  s4 = s3\<lparr>sim_brk_match_type := m AND brk_typ b1\<rparr>;
                  s5 = (if brk_typ b1 AND BRK_TYP_TEMP \<noteq> 0 then snd (sim_brk_clr loc (brk_typ b1) s4) else s4)
              in (sim_brk_match_type s5, s5\<lparr>sim_brk_match_addr := loc\<rparr>)))"
  unfolding sim_brk_test_def test_types_def [symmetric] test_space_def [symmetric]
    Let_def assms prod.case sim_gtime_def count_hit_def sim_vm_time_update by (rule refl)

text \<open>Counting a hit changes one entry of the chain of its slot and nothing else of the table.\<close>

lemma set_ins_chain_entry:
  fixes s :: "'a brkst_scheme" and b :: brktab
  assumes inv: "brk_inv s" and p: "sim_brk_ins s = int p" "p < sim_brk_ent s"
    and c: "chains s ! p = c" "i < length c"
    and b: "brk_addr b = brk_addr (c ! i)" "brk_typ b = brk_typ (c ! i)" "length (time_fired b) = length (time_fired (c ! i))"
  defines "s' \<equiv> set_ins_chain (c[i := b]) s"
  shows "brk_inv s'" "chain_at (chains s') = (chain_at (chains s))(chain_addr c := c[i := b])"
    "summ_inv s \<Longrightarrow> summ_inv s'"
proof -
  note wf = brk_inv_chains [OF inv, THEN conjunct1] and len = brk_inv_chains [OF inv, THEN conjunct2]
  have wfc: "wf_chain c" using wf p c len by (auto simp: wf_chains_def list_all_length)
  have b': "brk_addr b = chain_addr c" "length (time_fired b) = SIM_BKPT_N_SPC"
    using wfc c(2) b by (simp_all add: wf_chain_def list_all_length)
  note w = wf_chain_map_update [OF wfc c(2) b'(1) b(2) b'(2)]
  show s': "brk_inv s'" "chain_at (chains s') = (chain_at (chains s))(chain_addr c := c[i := b])"
    using set_ins_chain_inv [OF inv p, where x = "c[i := b]"] w c by (simp_all add: s'_def)
  have at: "chain_at (chains s) (chain_addr c) = c" using chain_at_nth [OF wf, of p] p c len by simp
  assume "summ_inv s"
  then have all: "list_all (brk_covered (sim_brk_summ s)) (chain_at (chains s) a)" for a
    by (simp add: summ_inv_chain_at [OF inv])
  with all [of "chain_addr c"] at c(2) b(2) have "list_all (brk_covered (sim_brk_summ s)) (c[i := b])"
    by (simp add: list_all_length nth_list_update brk_covered_def)
  with all show "summ_inv s'" using s' by (simp add: summ_inv_chain_at) (simp add: s'_def)
qed

lemma sim_brk_test_refines:
  fixes btyp :: u32 and loc :: t_addr and s :: "'a brkst_scheme"
  assumes inv: "brk_inv s"
  defines "r \<equiv> test_chain (test_types btyp s) (test_space btyp) (now s) (chain_at (chains s) loc)"
  obtains s' where "sim_brk_test loc btyp s = (fst r, s')" "brk_inv s'"
    "chain_at (chains s') = (chain_at (chains s))(loc := snd r)"
    "now s' = now s" "summ_inv s \<Longrightarrow> summ_inv s'"
    "list_all (\<lambda>b. brk_typ b AND BRK_TYP_TEMP = 0) (chain_at (chains s) loc) \<Longrightarrow> sim_brk_summ s' = sim_brk_summ s"
proof -
  let ?b = "test_types btyp s" and ?spc = "test_space btyp" and ?c = "chain_at (chains s) loc"
  obtain place s1 where ex: "sim_brk_fnd_ex loc ?b True ?spc s = (place, s1)" by fastforce
  note fnd = sim_brk_fnd_ex_any [OF inv ex] and test = sim_brk_test_unfold [OF ex]
  from fnd(2) obtain p where s1: "s1 = s\<lparr>sim_brk_ins := int p\<rparr> \<or> s1 = update_sim_time (s\<lparr>sim_brk_ins := int p\<rparr>)"
    and p: "place \<noteq> None \<Longrightarrow> p < sim_brk_ent s \<and> chains s ! p = ?c" by blast
  show thesis
  proof (cases place)
    case None
    with fnd(1) test s1 inv show thesis
      by (intro that [where s' = s1]) (auto simp: r_def test_chain_def summ_inv_def)
  next
    case (Some i)
    let ?e = "?c ! i" and ?s2 = "update_sim_time s1"
    let ?h = "count_hit ?spc (now s) ?e"
    let ?z = "?h\<lparr>brk_cnt := 0\<rparr>"
    have pl: "p < sim_brk_ent s" "chains s ! p = ?c" using p Some by simp_all
    have i: "i < length ?c" "brk_hit ?b ?spc (now s) ?e"
      using find_from_Some [OF fnd(1) [symmetric, unfolded Some]] by simp_all
    have s2: "chains ?s2 = chains s" "brk_inv ?s2" "sim_brk_ins ?s2 = int p" "sim_brk_ent ?s2 = sim_brk_ent s"
      "now s1 = now s" "summ_inv ?s2 = summ_inv s" "sim_brk_summ s1 = sim_brk_summ s"
      using s1 inv by (auto simp: summ_inv_def)
    have c: "ins_chain ?s2 = ?c" using set_ins_chain_simps(2) [of ?s2 p] s2 pl by simp
    have addr: "chain_addr ?c = loc" using chain_at_wf [of "chains s" loc] brk_inv_chains [OF inv] i(1) by auto
    have ty: "brk_typ ?h = brk_typ ?e" "brk_typ ?z = brk_typ ?e" by (simp_all add: count_hit_def)
    have h: "brk_inv (set_ins_chain (?c[i := ?h]) ?s2)"
      "chain_at (chains (set_ins_chain (?c[i := ?h]) ?s2)) = (chain_at (chains s))(loc := ?c[i := ?h])"
      "summ_inv s \<Longrightarrow> summ_inv (set_ins_chain (?c[i := ?h]) ?s2)"
      using set_ins_chain_entry [of ?s2 p ?c i ?h] s2 pl i(1) addr by (simp_all add: count_hit_def)
    have z: "brk_inv (set_ins_chain (?c[i := ?z]) ?s2)"
      "chain_at (chains (set_ins_chain (?c[i := ?z]) ?s2)) = (chain_at (chains s))(loc := ?c[i := ?z])"
      "summ_inv s \<Longrightarrow> summ_inv (set_ins_chain (?c[i := ?z]) ?s2)"
      using set_ins_chain_entry [of ?s2 p ?c i ?z] s2 pl i(1) addr by (simp_all add: count_hit_def)
    have r: "r = (if brk_cnt ?h > 0 then (0, ?c[i := ?h])
       else (?b AND brk_typ ?e, if brk_typ ?e AND BRK_TYP_TEMP \<noteq> 0
             then brk_clr_chain (brk_typ ?e) (?c[i := ?z]) else ?c[i := ?z]))"
      unfolding r_def test_chain_def fnd(1) [symmetric] Some using ty by (simp add: Let_def)
    have temp: "brk_typ ?e AND BRK_TYP_TEMP = 0" if "list_all (\<lambda>b. brk_typ b AND BRK_TYP_TEMP = 0) ?c"
      using that i(1) by (simp add: list_all_length)
    have miss: "time_fired ?e ! ?spc \<noteq> now s" using i(2) by (simp add: brk_hit_def)
    note run = test [unfolded Some option.case Let_def c s2(5), unfolded ty]
    let ?s4 = "(sim_brk_setact (brk_act ?h) (set_ins_chain (?c[i := ?z]) ?s2))\<lparr>sim_brk_match_type := ?b AND brk_typ ?e\<rparr>"
    have s4: "brk_inv ?s4" "chain_at (chains ?s4) = (chain_at (chains s))(loc := ?c[i := ?z])"
      "summ_inv s \<Longrightarrow> summ_inv ?s4" using z by (simp_all add: summ_inv_def)
    consider (count) "brk_cnt ?h > 0" | (fire) "\<not> brk_cnt ?h > 0" "brk_typ ?e AND BRK_TYP_TEMP = 0"
      | (once) "\<not> brk_cnt ?h > 0" "brk_typ ?e AND BRK_TYP_TEMP \<noteq> 0" by blast
    then show thesis
    proof cases
      case count
      then show thesis using run miss r h s2
        by (intro that [where s' = "set_ins_chain (?c[i := ?h]) ?s2"]) simp_all
    next
      case fire
      with run miss r s4 s2 show thesis
        by (intro that [where s' = "?s4\<lparr>sim_brk_match_addr := loc\<rparr>"]) (simp_all add: summ_inv_def)
    next
      case once
      then have sw: "clr_sw (brk_typ ?e) = brk_typ ?e" by (auto simp: clr_sw_def)
      obtain s5 where s5: "sim_brk_clr loc (brk_typ ?e) ?s4 = (SCPE_OK, s5)" "brk_inv s5"
        "chain_at (chains s5) = (chain_at (chains ?s4))(loc := brk_clr_chain (brk_typ ?e) (chain_at (chains ?s4) loc))"
        by (rule sim_brk_clr_refines [OF s4(1), where loc = loc and sw = "brk_typ ?e", unfolded sw])
      have "sim_brk_match_type s5 = ?b AND brk_typ ?e" "now s5 = now s"
        using clr_match_type [of loc "brk_typ ?e" ?s4] now_brk_ops(3) [of loc "brk_typ ?e" ?s4] s5(1) s2 by simp_all
      moreover have "summ_inv s5" if "summ_inv s"
        using summ_inv_clr [OF s4(1) s4(3) [OF that], of loc "brk_typ ?e"] s5(1) by simp
      ultimately show thesis
        using s5 run once temp miss r s4(2)
        by (intro that [where s' = "s5\<lparr>sim_brk_match_addr := loc\<rparr>"]) (auto simp: summ_inv_def)
    qed
  qed
qed

subsection \<open>The fast path\<close>

text \<open>Simulators call \<^verbatim>\<open>sim_brk_test\<close> only when \<^verbatim>\<open>sim_brk_summ\<close> is not zero.\<close>

lemma brk_fast_path:
  assumes "brk_inv s" "summ_inv s" "sim_brk_summ s = 0" "btyp AND BRK_TYP_TEMP = 0"
  shows "fst (sim_brk_test loc btyp s) = 0"
proof -
  have "\<not> brk_hit btyp spc t b" if "b \<in> set (chain_at (chains s) loc)" for b spc t
  proof -
    have "brk_covered 0 b" using that assms(1-3) by (simp add: summ_inv_chain_at list_all_iff)
    then have "brk_typ b AND btyp = brk_typ b AND (btyp AND BRK_TYP_TEMP)"
      by (auto simp: brk_covered_def bit_eq_iff bit_simps)
    with assms(4) show ?thesis by (simp add: brk_hit_def)
  qed
  then have "find_from (brk_hit btyp spc t) 0 (chain_at (chains s) loc) = None" for spc t
    by (simp add: find_from_None list_all_iff)
  with assms(3) show ?thesis
    by - (rule sim_brk_test_refines [OF assms(1), where btyp = btyp and loc = loc],
        simp add: test_chain_def test_types_def)
qed

subsection \<open>Counting down\<close>

text \<open>One more instruction has been executed and the breakpoint is tested again.\<close>

definition visit :: "t_addr \<Rightarrow> u32 \<Rightarrow> 'a brkst_scheme \<Rightarrow> u32 \<times> 'a brkst_scheme" where
  "visit loc btyp s = sim_brk_test loc btyp (s\<lparr>sim_interval := sim_interval s - 1\<rparr>)"

primrec visits :: "nat \<Rightarrow> t_addr \<Rightarrow> u32 \<Rightarrow> 'a brkst_scheme \<Rightarrow> u32 list" where
  "visits 0 loc btyp s = []"
| "visits (Suc n) loc btyp s = (let (r, s') = visit loc btyp s in r # visits n loc btyp s')"

lemma tick_brk_simps [simp]:
  "chains (s\<lparr>sim_interval := i\<rparr>) = chains s" "brk_inv (s\<lparr>sim_interval := i\<rparr>) = brk_inv s"
  "sim_brk_summ (s\<lparr>sim_interval := i\<rparr>) = sim_brk_summ s"
  by (simp_all add: chains_def brk_inv_def)

lemma now_tick_brk: "now (s\<lparr>sim_interval := sim_interval s - 1\<rparr>) = now s + 1"
  by (simp add: now_eq split: list.split)

lemma brk_count_down:
  assumes "brk_inv s" "chain_at (chains s) loc = [b]" "brk_typ b AND test_types btyp s \<noteq> 0"
    "brk_typ b AND BRK_TYP_TEMP = 0" "time_fired b ! test_space btyp \<le> now s"
  shows "visits n loc btyp s =
    replicate (min n (nat (brk_cnt b - 1))) 0 @
    replicate (n - nat (brk_cnt b - 1)) (test_types btyp s AND brk_typ b)"
  using assms
proof (induction n arbitrary: s b)
  case (Suc n)
  let ?s = "s\<lparr>sim_interval := sim_interval s - 1\<rparr>" and ?spc = "test_space btyp"
  let ?b = "count_hit ?spc (now ?s) b"
  have types: "test_types btyp ?s = test_types btyp s" by (simp add: test_types_def)
  have hit: "brk_hit (test_types btyp s) ?spc (now ?s) b"
    using Suc.prems by (simp add: brk_hit_def now_tick_brk)
  have spc: "?spc < length (time_fired b)"
  proof -
    have "wf_chain [b]" using chain_at_wf [of "chains s" loc] brk_inv_chains [OF Suc.prems(1)] Suc.prems(2) by auto
    moreover have "drop_bit 29 btyp AND 7 \<le> (7 :: u32)" by (rule word_and_le1)
    then have "?spc \<le> 7" unfolding test_space_def by (simp add: word_le_nat_alt)
    ultimately show ?thesis by (simp add: wf_chain_def)
  qed
  obtain s' where s': "sim_brk_test loc btyp ?s = (fst (test_chain (test_types btyp s) ?spc (now ?s) [b]), s')"
    "brk_inv s'" "chain_at (chains s') loc = snd (test_chain (test_types btyp s) ?spc (now ?s) [b])" "now s' = now ?s"
    "sim_brk_summ s' = sim_brk_summ s"
  proof (rule sim_brk_test_refines [where s = ?s and btyp = btyp and loc = loc])
    show "brk_inv ?s" using Suc.prems(1) by simp
  next
    fix s'
    assume "sim_brk_test loc btyp ?s =
        (fst (test_chain (test_types btyp ?s) ?spc (now ?s) (chain_at (chains ?s) loc)), s')" "brk_inv s'"
      "chain_at (chains s') = (chain_at (chains ?s))
         (loc := snd (test_chain (test_types btyp ?s) ?spc (now ?s) (chain_at (chains ?s) loc)))"
      "now s' = now ?s"
      "list_all (\<lambda>b. brk_typ b AND BRK_TYP_TEMP = 0) (chain_at (chains ?s) loc) \<Longrightarrow> sim_brk_summ s' = sim_brk_summ ?s"
    then show thesis using Suc.prems(2,4) by (intro that [where s' = s']) (simp_all only: types, simp_all)
  qed
  have types': "test_types btyp s' = test_types btyp s" using s'(5) by (simp add: test_types_def)
  have v: "visits (Suc n) loc btyp s = fst (test_chain (test_types btyp s) ?spc (now ?s) [b]) # visits n loc btyp s'"
    using s'(1) by (simp add: visit_def)
  have rest: "visits n loc btyp s' =
      replicate (min n (nat (brk_cnt c - 1))) 0 @ replicate (n - nat (brk_cnt c - 1)) (test_types btyp s AND brk_typ b)"
    if "chain_at (chains s') loc = [c]" "brk_typ c = brk_typ b" "time_fired c = time_fired ?b" for c
  proof -
    have "time_fired c ! ?spc = now ?s" using that(3) spc by (simp add: count_hit_def)
    with Suc.IH [of s' c] that(1,2) s'(2,4) types' Suc.prems(3,4) show ?thesis by simp
  qed
  show ?case
  proof (cases "brk_cnt b > 1")
    case True
    then have "test_chain (test_types btyp s) ?spc (now ?s) [b] = (0, [?b])"
      using hit by (simp add: test_chain_def count_hit_def)
    with rest [of ?b] s'(3) v True show ?thesis
      by (simp add: count_hit_def) (simp add: nat_diff_distrib' flip: replicate_Suc)
  next
    case False
    then have "test_chain (test_types btyp s) ?spc (now ?s) [b] =
        (test_types btyp s AND brk_typ b, [?b\<lparr>brk_cnt := 0\<rparr>])"
      using hit Suc.prems(4) by (simp add: test_chain_def count_hit_def)
    with rest [of "?b\<lparr>brk_cnt := 0\<rparr>"] s'(3) v False show ?thesis by (simp add: count_hit_def)
  qed
qed simp

subsection \<open>Pending actions\<close>

definition plain_command :: "string \<Rightarrow> bool" where
  "plain_command a \<longleftrightarrow> list_all (\<lambda>c. c \<notin> set [CHR '';'', CHR 0x22, CHR 0x27]) a"

lemma command_end_plain: "plain_command a \<Longrightarrow> command_end (a @ CHR '';'' # r) = Some (CHR '';'' # r)"
  by (simp add: command_end_def plain_command_def list_all_iff dropWhile_append2)

lemma skip_space_append: "skip_space a \<noteq> [] \<Longrightarrow> skip_space (a @ b) = skip_space a @ b"
  by (simp add: skip_space_def dropWhile_append) (meson)

lemma plain_command_skip: "plain_command a \<Longrightarrow> plain_command (skip_space a)"
  unfolding plain_command_def list_all_iff skip_space_def by (blast dest: set_dropWhileD)

lemma getact_after_setact:
  assumes "plain_command a" "skip_space a \<noteq> []" "sim_brk_act s (sim_do_depth s) = Some old" "old \<noteq> []"
    "length (skip_space a) < bufsize"
  shows "\<exists>s'. sim_brk_getact bufsize (sim_brk_setact (Some a) s) = Some (Some (sim_trim_endspc (skip_space a)), s') \<and>
    sim_brk_act s' (sim_do_depth s) = Some ('' '' @ old)"
proof -
  let ?s = "sim_brk_setact (Some a) s"
  have act: "sim_brk_act ?s (sim_do_depth ?s) = Some (a @ ''; '' @ old)"
    using assms(3,4) by (simp add: sim_brk_setact_def Let_def)
  have sp: "skip_space (a @ ''; '' @ old) = skip_space a @ CHR '';'' # CHR '' '' # old"
    using skip_space_append [OF assms(2), of "''; '' @ old"] by simp
  have depth: "sim_do_depth ?s = sim_do_depth s" by (simp add: sim_brk_setact_def Let_def)
  show ?thesis
    using act sp command_end_plain [OF plain_command_skip [OF assms(1)]] assms(5) depth
    by (simp add: sim_brk_getact_def Let_def)
qed

lemma getact_overrun:
  assumes "plain_command a" "skip_space a = a" "a \<noteq> []" "bufsize \<le> length a"
    "sim_brk_act s (sim_do_depth s) = Some (a @ CHR '';'' # r)"
  shows "sim_brk_getact bufsize s = None"
  using assms command_end_plain [OF assms(1), of r] skip_space_append [of a "CHR '';'' # r"]
  by (simp add: sim_brk_getact_def Let_def)

lemma getact_none: "sim_brk_act s (sim_do_depth s) = None \<Longrightarrow> sim_brk_getact bufsize s = Some (None, s)"
  by (simp add: sim_brk_getact_def Let_def)

subsection \<open>The other operations\<close>

lemma wf_chain_map:
  assumes "wf_chain c" "\<And>b. brk_addr (f b) = brk_addr b" "\<And>b. brk_typ (f b) = brk_typ b"
    "\<And>b. length (time_fired b) = SIM_BKPT_N_SPC \<Longrightarrow> length (time_fired (f b)) = SIM_BKPT_N_SPC"
  shows "wf_chain (map f c)" "chain_addr (map f c) = chain_addr c"
proof -
  show hd: "chain_addr (map f c) = chain_addr c" using assms by (cases c) (simp_all add: wf_chain_def)
  have "list_all (\<lambda>b. length (time_fired b) = SIM_BKPT_N_SPC) c" using assms(1) by (simp add: wf_chain_def)
  then have "list_all (\<lambda>b. length (time_fired (f b)) = SIM_BKPT_N_SPC) c" using assms(4) by (auto simp: list_all_iff)
  then show "wf_chain (map f c)"
    using assms(1-3) hd by (simp add: wf_chain_def list.pred_map comp_def)
qed

lemma map_used_inv:
  assumes "brk_inv s" "\<And>b. brk_addr (f b) = brk_addr b" "\<And>b. brk_typ (f b) = brk_typ b"
    "\<And>b. length (time_fired b) = SIM_BKPT_N_SPC \<Longrightarrow> length (time_fired (f b)) = SIM_BKPT_N_SPC"
  shows "brk_inv (map_used f s)" "chain_at (chains (map_used f s)) = map f \<circ> chain_at (chains s)"
proof -
  let ?cs = "chains s"
  note len = brk_inv_chains [OF assms(1)]
  have ch: "chains (map_used f s) = map (map f) ?cs"
    using len assms(1) by (simp add: map_used_def chains_def brk_inv_def)
  have wf: "list_all wf_chain cs \<Longrightarrow> list_all wf_chain (map (map f) cs) \<and>
      map (\<lambda>c. chain_addr c) (map (map f) cs) = map (\<lambda>c. chain_addr c) cs \<and>
      chain_at (map (map f) cs) a = map f (chain_at cs a)" for cs a
    using assms(2-4) by (induction cs) (auto simp: wf_chain_map)
  have all: "list_all wf_chain ?cs" using len by (simp add: wf_chains_def)
  note w = wf [OF all]
  show "brk_inv (map_used f s)"
    unfolding brk_inv_def wf_chains_def ch
    using w assms(1) len by (simp add: brk_inv_def wf_chains_def map_used_def del: map_map)
  show "chain_at (chains (map_used f s)) = map f \<circ> chain_at ?cs"
    using w by (simp add: ch fun_eq_iff)
qed

lemma brk_inv_npc: "brk_inv s \<Longrightarrow> brk_inv (sim_brk_npc cnt s)"
  by (simp add: sim_brk_npc_def Let_def map_used_inv)

lemma brk_inv_clrspc: "brk_inv s \<Longrightarrow> brk_inv (sim_brk_clrspc spc btyp s)"
  by (simp add: sim_brk_clrspc_def map_used_inv)

lemma brk_inv_init: "brk_inv (snd (sim_brk_init s)) \<and> chain_at (chains (snd (sim_brk_init s))) = (\<lambda>a. [])"
  by (simp add: sim_brk_init_def sim_brk_npc_def map_used_def sim_brk_clract_def brk_inv_def chains_def
      wf_chains_def Let_def fun_eq_iff)

subsection \<open>The rest of the machine\<close>

lemma brk_more [simp]:
  "brkst.more (update_sim_time s) = brkst.more s" "brkst.more (snd (sim_brk_fnd loc s)) = brkst.more s"
  "brkst.more (set_ins_chain c s) = brkst.more s" "brkst.more (sim_brk_setact act s) = brkst.more s"
  by (simp_all add: update_sim_time_def sim_brk_fnd_def set_ins_chain_def sim_brk_setact_def sim_brk_clract_def
      Let_def case_prod_beta split: list.split option.split)

lemma sim_brk_clr_more [simp]: "brkst.more (snd (sim_brk_clr loc sw s)) = brkst.more s"
  by (simp add: sim_brk_clr_def Let_def case_prod_beta)

lemma chain_find_ex_more: "brkst.more (snd (chain_find_ex btyp any spc i c s)) = brkst.more s"
  by (induction c arbitrary: i s btyp any) (simp_all add: sim_gtime_def Let_def)

lemma sim_brk_fnd_ex_more [simp]: "brkst.more (snd (sim_brk_fnd_ex loc btyp any spc s)) = brkst.more s"
  by (simp add: sim_brk_fnd_ex_def case_prod_beta chain_find_ex_more)

lemma sim_brk_test_more: "brkst.more (snd (sim_brk_test loc btyp s)) = brkst.more s"
proof -
  obtain place s1 where ex: "sim_brk_fnd_ex loc (test_types btyp s) True (test_space btyp) s = (place, s1)" by fastforce
  then have s1: "brkst.more s1 = brkst.more s" using sim_brk_fnd_ex_more [of loc "test_types btyp s" True "test_space btyp" s] by simp
  show ?thesis
    unfolding sim_brk_test_unfold [OF ex] using s1 by (simp add: Let_def split: option.split)
qed

subsection \<open>Properties\<close>

text \<open>A package with \<open>types\<close> available and the table \<open>tab\<close>, all of it in use.\<close>

definition brk_example :: "u32 \<Rightarrow> brktab list list \<Rightarrow> brkst" where
  "brk_example types tab =
     \<lparr>sim_clock_queue = [], sim_interval = NOQUEUE_WAIT, noqueue_time = NOQUEUE_WAIT, sim_vm_time = 0, sim_rtime = 0,
      stop_cpu = False, sim_processing_event = False, usecs_remaining = (\<lambda>u. 0),
      sim_brk_summ = 0, sim_brk_types = types, sim_brk_dflt = 0x10, sim_brk_match_type = 0, sim_brk_match_addr = 0,
      sim_brk_act = (\<lambda>n. None), sim_brk_act_buf = (\<lambda>n. None), sim_do_depth = 0,
      sim_brk_tab = tab, sim_brk_ent = length tab, sim_brk_lnt = length tab, sim_brk_ins = 0\<rparr>"

lemma brk_example_simps [simp]:
  "sim_brk_tab (brk_example types tab) = tab" "sim_brk_ent (brk_example types tab) = length tab"
  "sim_brk_lnt (brk_example types tab) = length tab" "sim_brk_types (brk_example types tab) = types"
  "sim_brk_dflt (brk_example types tab) = 0x10" "sim_brk_summ (brk_example types tab) = 0"
  "now (brk_example types tab) = 0" "sim_brk_act (brk_example types tab) d = None" "sim_do_depth (brk_example types tab) = 0"
  by (simp_all add: brk_example_def now_eq)

lemma brk_example_chains [simp]: "chains (brk_example types tab) = tab"
  by (simp add: chains_def)

lemma brk_example_inv: "wf_chains tab \<Longrightarrow> brk_inv (brk_example types tab)"
  by (simp add: brk_inv_def)

lemma brk_fnd_place:
  assumes inv: "brk_inv s"
  shows "(fst (sim_brk_fnd loc s) \<longleftrightarrow> chain_at (chains s) loc \<noteq> []) \<and>
    (\<exists>p \<le> sim_brk_ent s. snd (sim_brk_fnd loc s) = s\<lparr>sim_brk_ins := int p\<rparr> \<and>
       (\<forall>i<p. chain_addr (chains s ! i) < loc) \<and> (\<forall>i < sim_brk_ent s. p \<le> i \<longrightarrow> loc \<le> chain_addr (chains s ! i)))"
  using inv
proof (cases rule: sim_brk_fnd_cases [where loc = loc, case_names found missing])
  case (found p)
  note wf = brk_inv_chains [OF inv]
  have "chain_at (chains s) loc = chains s ! p" using chain_at_nth [of "chains s" p] wf found by simp
  moreover have "wf_chain (chains s ! p)" using wf found(2) by (simp add: wf_chains_def list_all_length)
  moreover have "chain_addr (chains s ! i) < loc" if "i < p" for i
    using wf_chains_nth_less [of "chains s" i p] wf found that by simp
  moreover have "loc \<le> chain_addr (chains s ! i)" if "i < sim_brk_ent s" "p \<le> i" for i
    using wf_chains_nth_less [of "chains s" p i] wf found that by (cases "p = i") (auto simp: less_imp_le)
  ultimately show ?thesis using found by (intro conjI exI [of _ p]) (simp_all add: wf_chain_def)
next
  case (missing p)
  with chain_at_missing [OF inv missing(3,4)] show ?thesis
    by (intro conjI exI [of _ p]) (simp_all add: less_imp_le)
qed

text \<open>
  C3. Refinement: any sequence of \<^verbatim>\<open>sim_brk_set\<close> and \<^verbatim>\<open>sim_brk_clr\<close> requests on the sorted
  array keeps its invariant, and the breakpoints at an address afterwards are those the requests
  for that address alone produce: the array implements a map from addresses to breakpoints.
\<close>

theorem breakpoints_are_map:
  "brk_inv s \<Longrightarrow> brk_inv (fold (case_prod brk_request) xs s) \<and>
     chain_at (chains (fold (case_prod brk_request) xs s)) a =
     fold (\<lambda>p. brk_change (brk_env s) a (snd p)) (filter (\<lambda>p. fst p = a) xs) (chain_at (chains s) a)"
  using brk.update_run [of s xs a] by blast

theorem breakpoints_are_map_witness:
  "chain_at (chains (fold (case_prod brk_request) [(5, Brk_Set 0x10 1 None), (3, Brk_Set 0x10 2 None), (5, Brk_Clr 0x10)]
     (brk_example 0x10 []))) 5 = []"
  using breakpoints_are_map [of "brk_example 0x10 []"
      "[(5, Brk_Set 0x10 1 None), (3, Brk_Set 0x10 2 None), (5, Brk_Clr 0x10)]" 5]
  by (simp add: brk_example_inv wf_chains_def brk_env_def set_chain_def clr_sw_def new_brktab_def brk_assign_def)

text \<open>
  The binary search of \<^verbatim>\<open>sim_brk_fnd\<close> finds an address exactly when it has a breakpoint;
  otherwise \<^verbatim>\<open>sim_brk_ins\<close> is the place that keeps the table sorted.
\<close>

lemma brk_fnd_correct:
  assumes "brk_inv s"
  shows "(fst (sim_brk_fnd loc s) \<longleftrightarrow> chain_at (chains s) loc \<noteq> []) \<and>
    (\<exists>p \<le> sim_brk_ent s. snd (sim_brk_fnd loc s) = s\<lparr>sim_brk_ins := int p\<rparr> \<and>
       (\<forall>i<p. chain_addr (chains s ! i) < loc) \<and> (\<forall>i < sim_brk_ent s. p \<le> i \<longrightarrow> loc \<le> chain_addr (chains s ! i)))"
  by (rule brk_fnd_place [OF assms])

text \<open>
  C19. \<^verbatim>\<open>sim_brk_clrall\<close>, whose loop removes entries from the table it walks, terminates (one
  pass more than entries is enough) and clears the given types at every address.
\<close>

theorem brk_clrall_clears:
  assumes "brk_inv s" "sim_brk_ent s < fuel"
  shows "\<exists>s'. sim_brk_clrall fuel sw s = Some (SCPE_OK, s') \<and> brk_inv s' \<and>
    chain_at (chains s') = (\<lambda>a. brk_clr_chain (clr_sw sw) (chain_at (chains s) a))"
  using assms by (rule clrall_all)

theorem brk_clrall_clears_witness:
  "\<exists>s'. sim_brk_clrall 3 0 (brk_example 0x10 [[new_brktab 3 0x10], [new_brktab 7 0x10]]) = Some (SCPE_OK, s') \<and>
     chain_at (chains s') 7 = []"
  using brk_clrall_clears [of "brk_example 0x10 [[new_brktab 3 0x10], [new_brktab 7 0x10]]" 3 0]
  by (auto simp: brk_example_inv wf_chains_def wf_chain_def new_brktab_def clr_sw_def)

text \<open>
  \<^verbatim>\<open>sim_brk_test\<close> is the test of the chain of its address: the first breakpoint of a
  matching type that has not fired at this time counts down, and hits when its count is used up; a
  temporary one is removed then.  Other addresses and the time are untouched.
\<close>

lemma brk_test_correct:
  assumes "brk_inv s"
  shows "\<exists>s'. sim_brk_test loc btyp s =
      (fst (test_chain (test_types btyp s) (test_space btyp) (now s) (chain_at (chains s) loc)), s') \<and> brk_inv s' \<and>
    chain_at (chains s') = (chain_at (chains s))
      (loc := snd (test_chain (test_types btyp s) (test_space btyp) (now s) (chain_at (chains s) loc))) \<and> now s' = now s"
  using assms by (rule sim_brk_test_refines [where loc = loc and btyp = btyp]) blast

text \<open>
  The guard \<^verbatim>\<open>sim_brk_summ\<close> of the instruction loops is safe: \<^verbatim>\<open>sim_brk_set\<close> and
  \<^verbatim>\<open>sim_brk_clr\<close> keep the summary covering every breakpoint's types, so while it is zero no
  test of a type other than the temporary flag can hit.
\<close>

lemma brk_summary_safe:
  assumes "brk_inv s" "summ_inv s"
  shows "summ_inv (snd (sim_brk_set loc sw n act s)) \<and> summ_inv (snd (sim_brk_clr loc sw s)) \<and>
    (sim_brk_summ s = 0 \<and> btyp AND BRK_TYP_TEMP = 0 \<longrightarrow> fst (sim_brk_test loc btyp s) = 0)"
  using summ_inv_set [OF assms] summ_inv_clr [OF assms] brk_fast_path [OF assms] by blast

text \<open>
  A breakpoint with count \<open>n\<close> is passed \<open>n - 1\<close> times and hits at every visit from the
  \<open>n\<close>th on.
\<close>

lemma brk_counts_down:
  assumes "brk_inv s" "chain_at (chains s) loc = [b]" "brk_typ b AND test_types btyp s \<noteq> 0"
    "brk_typ b AND BRK_TYP_TEMP = 0" "time_fired b ! test_space btyp \<le> now s"
  shows "visits n loc btyp s =
    replicate (min n (nat (brk_cnt b - 1))) 0 @ replicate (n - nat (brk_cnt b - 1)) (test_types btyp s AND brk_typ b)"
  using assms by (rule brk_count_down)

text \<open>
  The action text a breakpoint queues is what \<^verbatim>\<open>sim_brk_getact\<close> returns next, trimmed, with
  the actions queued before still waiting behind it.
\<close>

lemma action_round_trip:
  assumes "plain_command a" "skip_space a \<noteq> []" "sim_brk_act s (sim_do_depth s) = Some old" "old \<noteq> []"
    "length (skip_space a) < bufsize"
  shows "\<exists>s'. sim_brk_getact bufsize (sim_brk_setact (Some a) s) = Some (Some (sim_trim_endspc (skip_space a)), s') \<and>
    sim_brk_act s' (sim_do_depth s) = Some ('' '' @ old)"
  using assms by (rule getact_after_setact)

text \<open>
  \<^verbatim>\<open>sim_brk_getact\<close> copies one command into the caller's buffer without regard to its size:
  a command of at least that length writes past the end.
\<close>

lemma getact_overruns_buffer:
  assumes "plain_command a" "skip_space a = a" "a \<noteq> []" "bufsize \<le> length a"
    "sim_brk_act s (sim_do_depth s) = Some (a @ CHR '';'' # r)"
  shows "sim_brk_getact bufsize s = None"
  using assms by (rule getact_overrun)

end
