(* ===== verification/Quoted.thy ===== *)
theory Quoted
  imports CString
begin

text \<open>
  Quoted strings of \<^verbatim>\<open>src/src/core/scp.c\<close>: \<^verbatim>\<open>sim_decode_quoted_string\<close> and
  \<^verbatim>\<open>sim_encode_quoted_string\<close>.  The data on the binary side are bytes.  A read before the
  first or behind the terminating character of a string is a fault of the model.
\<close>

unbundle bit_operations_syntax

subsection \<open>Decoding\<close>

datatype str_fault = Read_Before_Start | Read_Past_End

definition simple_escapes :: "(char \<times> u8) list" where
  "simple_escapes =
     [(CHR ''r'', 13), (CHR ''n'', 10), (CHR ''f'', 12), (CHR ''t'', 9), (CHR ''v'', 11), (CHR ''b'', 8),
      (CHR 0x5C, 92), (CHR ''e'', 27), (CHR 0x27, 39), (CHR 0x22, 34), (CHR ''?'', 63)]"

definition is_octal :: "char \<Rightarrow> bool" where
  "is_octal c \<longleftrightarrow> 48 \<le> cint c \<and> cint c \<le> 55"

text \<open>One more octal digit, if the next character is one.\<close>

definition octal_more :: "u8 \<times> string \<Rightarrow> u8 \<times> string" where
  "octal_more = (\<lambda>(v, s). if is_octal (deref s) then (push_bit 3 v + of_int (cint (deref s) - 48), tl s) else (v, s))"

text \<open>
  One more hexadecimal digit; \<^verbatim>\<open>strchr\<close> finds the terminator of its string too.
\<close>

definition hex_digit :: "char \<Rightarrow> nat option" where
  "hex_digit c =
     (let u = to_char (sim_toupper (cint c)); hex_digits = ''0123456789ABCDEF'' in
      if u = NUL then Some 16
      else if u \<in> set hex_digits then Some (length (takeWhile (\<lambda>x. x \<noteq> u) hex_digits)) else None)"

definition hex_more :: "u8 \<times> string \<Rightarrow> u8 \<times> string" where
  "hex_more = (\<lambda>(v, s). case hex_digit (deref s) of Some n \<Rightarrow> (push_bit 4 v + of_nat n, tl s) | None \<Rightarrow> (v, s))"

text \<open>The \<^verbatim>\<open>switch\<close> behind a backslash: the byte and the text behind the escape.\<close>

definition decode_escape :: "string \<Rightarrow> (u8 \<times> string) option" where
  "decode_escape s =
     (let d = deref s; r = tl s in
      case map_of simple_escapes d of
        Some b \<Rightarrow> Some (b, r)
      | None \<Rightarrow>
          if is_octal d then Some (octal_more (octal_more (of_int (cint d - 48), r)))
          else if d = CHR ''x'' then Some (hex_more (hex_more (0, r)))
          else None)"

lemma octal_more_length: "length (snd (octal_more p)) \<le> length (snd p)"
  by (cases p) (simp add: octal_more_def)

lemma hex_more_length: "length (snd (hex_more p)) \<le> length (snd p)"
  by (cases p) (simp add: hex_more_def split: option.split)

lemma decode_escape_shorter:
  assumes "decode_escape s = Some (b, r)"
  shows "length r \<le> length (tl s)"
proof -
  have "length (snd (octal_more (octal_more p))) \<le> length (snd p)"
    "length (snd (hex_more (hex_more p))) \<le> length (snd p)" for p
    using octal_more_length hex_more_length order_trans by blast+
  from this [of "(of_int (cint (deref s) - 48), tl s)"] this [of "(0, tl s)"] assms show ?thesis
    by (auto simp: decode_escape_def Let_def split: option.splits if_splits)
qed

text \<open>The loop: \<open>s\<close> is the text at \<^verbatim>\<open>iptr\<close>, \<open>q\<close> the quote character.\<close>

function decode_loop :: "char \<Rightarrow> string \<Rightarrow> u8 list \<Rightarrow> str_fault + (t_stat \<times> u8 list)" where
  "decode_loop q [] out = Inl Read_Past_End"
| "decode_loop q [c] out = Inr (SCPE_OK, out)"
| "decode_loop q (c # d # r) out =
     (if c \<noteq> CHR 0x5C
      then (if c = q then Inr (SCPE_ARG, []) else decode_loop q (d # r) (out @ [of_char c]))
      else case decode_escape (d # r) of
             None \<Rightarrow> Inr (SCPE_ARG, [])
           | Some (b, r') \<Rightarrow> decode_loop q r' (out @ [b]))"
  by pat_completeness auto
termination
  by (relation "measure (\<lambda>(q, s, out). length s)") (auto dest: decode_escape_shorter)

text \<open>The data are those \<^verbatim>\<open>osize\<close> counts, none when the status is an error.\<close>

definition sim_decode_quoted_string :: "string \<Rightarrow> str_fault + (t_stat \<times> u8 list)" where
  "sim_decode_quoted_string iptr =
     (if length iptr = 1 then Inr (SCPE_ARG, [])
      else if iptr = [] then Inl Read_Before_Start
      else if hd iptr \<noteq> last iptr \<or> last iptr \<noteq> CHR 0x22 \<and> last iptr \<noteq> CHR 0x27 then Inr (SCPE_ARG, [])
      else decode_loop (hd iptr) (tl iptr) [])"

subsection \<open>Encoding\<close>

definition octal3 :: "u8 \<Rightarrow> string" where
  "octal3 b = map (\<lambda>n. char_of (48 + n)) [unat b div 64, unat b div 8 mod 8, unat b mod 8]"

definition encode_byte :: "char \<Rightarrow> u8 \<Rightarrow> string" where
  "encode_byte q b =
     (if b = 13 then [CHR 0x5C, CHR ''r'']
      else if b = 10 then [CHR 0x5C, CHR ''n'']
      else if b = 12 then [CHR 0x5C, CHR ''f'']
      else if b = 9 then [CHR 0x5C, CHR ''t'']
      else if b = 11 then [CHR 0x5C, CHR ''v'']
      else if b = 8 then [CHR 0x5C, CHR ''b'']
      else if b = 92 then [CHR 0x5C, CHR 0x5C]
      else (if (b = 34 \<or> b = 39) \<and> q = char_of (unat b) then [CHR 0x5C] else []) @
           (if sim_isprint (uint b) then [char_of (unat b)] else CHR 0x5C # octal3 b))"

definition quote_for :: "u8 list \<Rightarrow> char" where
  "quote_for data = (if 34 \<in> set data \<and> 39 \<notin> set data then CHR 0x27 else CHR 0x22)"

definition sim_encode_quoted_string :: "u8 list \<Rightarrow> string" where
  "sim_encode_quoted_string data =
     (let q = quote_for data in q # concat (map (encode_byte q) data) @ [q])"

subsection \<open>The round trip\<close>

lemma byte_less: "unat b < 256" for b :: u8
proof -
  have "unat b < 2 ^ LENGTH(8)" by (rule unsigned_less)
  then show ?thesis by simp
qed

lemma of_char_char_of_byte [simp]: "of_char (char_of (unat b)) = b" for b :: u8
proof -
  have "of_char (char_of (unat b)) = (of_nat (of_char (char_of (unat b)) :: nat) :: u8)"
    by (rule of_nat_of_char [symmetric])
  also have "\<dots> = of_nat (unat b)"
    using byte_less [of b] by simp
  finally show ?thesis by simp
qed

lemma octal_digit:
  assumes "n < 8"
  shows "is_octal (char_of (48 + n))" "cint (char_of (48 + n)) - 48 = int n"
    "map_of simple_escapes (char_of (48 + n)) = None"
proof -
  have c: "cint (char_of (48 + n)) = 48 + int n" using assms by (simp add: cint_char_of)
  then show "is_octal (char_of (48 + n))" "cint (char_of (48 + n)) - 48 = int n"
    using assms by (simp_all add: is_octal_def)
  have "c \<noteq> char_of (48 + n)" if "c \<in> fst ` set simple_escapes" for c
  proof
    assume "c = char_of (48 + n)"
    with c have "cint c = 48 + int n" by simp
    with that assms show False by (auto simp: simple_escapes_def cint_def)
  qed
  then show "map_of simple_escapes (char_of (48 + n)) = None" by (auto simp: map_of_eq_None_iff)
qed

lemma decode_octal3: "decode_escape (octal3 b @ rest) = Some (b, rest)"
proof -
  have lt: "unat b div 64 < 8" "unat b div 8 mod 8 < 8" "unat b mod 8 < 8"
    using byte_less [of b] by (simp_all add: div_less_iff_less_mult)
  have "push_bit 3 (push_bit 3 (of_nat (unat b div 64)) + of_nat (unat b div 8 mod 8)) + of_nat (unat b mod 8) =
      (of_nat (8 * (8 * (unat b div 64) + unat b div 8 mod 8) + unat b mod 8) :: u8)"
    by (simp add: push_bit_eq_mult algebra_simps)
  also have "8 * (8 * (unat b div 64) + unat b div 8 mod 8) + unat b mod 8 = unat b"
    using div_mult2_eq [of "unat b" 8 8] mult_div_mod_eq [of 8 "unat b"] mult_div_mod_eq [of 8 "unat b div 8"] by simp
  finally show ?thesis
    using octal_digit [OF lt(1)] octal_digit [OF lt(2)] octal_digit [OF lt(3)]
    by (simp add: decode_escape_def octal3_def octal_more_def Let_def)
qed


lemma octal3_decode_loop:
  "rest \<noteq> [] \<Longrightarrow> decode_loop q (CHR 0x5C # octal3 b @ rest) out = decode_loop q rest (out @ [b])"
proof -
  obtain d r where "octal3 b @ rest = d # r" by (cases "octal3 b @ rest") (simp_all add: octal3_def)
  then show ?thesis using decode_octal3 [of b rest] by simp
qed

lemma encode_quote:
  "encode_byte q 34 = (if q = CHR 0x22 then [CHR 0x5C, CHR 0x22] else [CHR 0x22])"
  "encode_byte q 39 = (if q = CHR 0x27 then [CHR 0x5C, CHR 0x27] else [CHR 0x27])"
proof -
  have "char_of (34::nat) = CHR 0x22" "char_of (39::nat) = CHR 0x27" by code_simp+
  then show "encode_byte q 34 = (if q = CHR 0x22 then [CHR 0x5C, CHR 0x22] else [CHR 0x22])"
    "encode_byte q 39 = (if q = CHR 0x27 then [CHR 0x5C, CHR 0x27] else [CHR 0x27])"
    by (simp_all add: encode_byte_def ctype_defs)
qed

lemma decode_encode_byte:
  assumes "rest \<noteq> []" "q = CHR 0x22 \<or> q = CHR 0x27"
  shows "decode_loop q (encode_byte q b @ rest) out = decode_loop q rest (out @ [b])"
proof -
  obtain d r where rest: "rest = d # r" using assms(1) by (cases rest) auto
  consider (simple) "b \<in> set [13, 10, 12, 9, 11, 8, 92]"
    | (quote) "b = 34 \<or> b = 39"
    | (plain) "b \<notin> set [13, 10, 12, 9, 11, 8, 92, 34, 39]" "sim_isprint (uint b)"
    | (octal) "b \<notin> set [13, 10, 12, 9, 11, 8, 92, 34, 39]" "\<not> sim_isprint (uint b)" by auto
  then show ?thesis
  proof cases
    case simple
    then have "b = 13 \<or> b = 10 \<or> b = 12 \<or> b = 9 \<or> b = 11 \<or> b = 8 \<or> b = 92" by simp
    then show ?thesis
      by (elim disjE) (simp_all add: encode_byte_def simple_escapes_def decode_escape_def)
  next
    case quote
    then show ?thesis
      using assms(2) by (elim disjE) (simp_all add: encode_quote rest simple_escapes_def decode_escape_def)
  next
    case plain
    have ne: "char_of (unat b) \<noteq> c" if "of_char c \<noteq> b" for c using that by (metis of_char_char_of_byte)
    have "char_of (unat b) \<noteq> CHR 0x5C" "char_of (unat b) \<noteq> q"
      using plain(1) assms(2) by (auto intro!: ne)
    with plain show ?thesis by (simp add: encode_byte_def rest)
  next
    case octal
    then show ?thesis using octal3_decode_loop [OF assms(1)] by (simp add: encode_byte_def)
  qed
qed

lemma decode_encode_bytes:
  assumes "q = CHR 0x22 \<or> q = CHR 0x27"
  shows "decode_loop q (concat (map (encode_byte q) data) @ [q]) out = Inr (SCPE_OK, out @ data)"
proof (induction data arbitrary: out)
  case (Cons b data)
  have "decode_loop q (encode_byte q b @ concat (map (encode_byte q) data) @ [q]) out =
      decode_loop q (concat (map (encode_byte q) data) @ [q]) (out @ [b])"
    by (rule decode_encode_byte [OF _ assms]) simp
  with Cons show ?case by simp
qed simp

lemma decode_encode: "sim_decode_quoted_string (sim_encode_quoted_string data) = Inr (SCPE_OK, data)"
proof -
  have "quote_for data = CHR 0x22 \<or> quote_for data = CHR 0x27" by (simp add: quote_for_def)
  then show ?thesis
    using decode_encode_bytes [of "quote_for data" data "[]"]
    by (auto simp: sim_decode_quoted_string_def sim_encode_quoted_string_def Let_def)
qed

text \<open>The buffer of \<^verbatim>\<open>4 * size + 3\<close> bytes holds the text and its terminator.\<close>

lemma encode_length: "length (sim_encode_quoted_string data) + 1 \<le> 4 * length data + 3"
proof -
  have "length (encode_byte q b) \<le> 4" for q b
    by (auto simp: encode_byte_def octal3_def ctype_defs)
  then have "length (concat (map (encode_byte q) data)) \<le> 4 * length data" for q
    by (induction data) (auto simp: add_mono)
  then show ?thesis by (simp add: sim_encode_quoted_string_def Let_def)
qed

text \<open>The decoded data never outgrow the quoted text.\<close>

lemma decode_loop_length:
  "decode_loop q s out = Inr (st, data) \<Longrightarrow> length data \<le> length out + length s"
proof (induction q s out rule: decode_loop.induct)
  case (3 q c d r out)
  show ?case
  proof (cases "c = CHR 0x5C")
    case True
    then obtain b r' where esc: "decode_escape (d # r) = Some (b, r') \<and> decode_loop q r' (out @ [b]) = Inr (st, data)
        \<or> data = []"
      using "3.prems" by (cases "decode_escape (d # r)") auto
    with decode_escape_shorter [of "d # r" b r'] "3.IH"(2) [of "(b, r')" b r'] True show ?thesis by auto
  next
    case False
    with 3 show ?thesis by (auto split: if_splits)
  qed
qed auto

lemma decode_length:
  "sim_decode_quoted_string s = Inr (st, data) \<Longrightarrow> length data \<le> length s"
  by (auto simp: sim_decode_quoted_string_def split: if_splits dest!: decode_loop_length)

text \<open>A backslash before the closing quote hides it.\<close>

lemma decode_reads_past_end: "sim_decode_quoted_string (CHR 0x22 # s @ [CHR 0x5C, CHR 0x22]) = Inl Read_Past_End"
  if "list_all (\<lambda>c. c \<noteq> CHR 0x22 \<and> c \<noteq> CHR 0x5C) s"
proof -
  have "decode_loop (CHR 0x22) (s @ [CHR 0x5C, CHR 0x22]) out = Inl Read_Past_End" for out
    using that
  proof (induction s arbitrary: out)
    case Nil
    then show ?case by (simp add: decode_escape_def simple_escapes_def)
  next
    case (Cons c s)
    then obtain d r where dr: "s @ [CHR 0x5C, CHR 0x22] = d # r" by (cases s) auto
    have "decode_loop (CHR 0x22) (d # r) (out @ [of_char c]) = Inl Read_Past_End"
      unfolding dr [symmetric] using Cons by simp
    with Cons.prems show ?case by (simp add: dr)
  qed
  then show ?thesis by (simp add: sim_decode_quoted_string_def)
qed

subsection \<open>Properties\<close>

text \<open>
  C26. Round trip: every byte string, encoded by \<^verbatim>\<open>sim_encode_quoted_string\<close>, fits the buffer
  the encoder allocates and is decoded by \<^verbatim>\<open>sim_decode_quoted_string\<close> to itself.
\<close>

theorem quoted_round_trip:
  "sim_decode_quoted_string (sim_encode_quoted_string data) = Inr (SCPE_OK, data) \<and>
   length (sim_encode_quoted_string data) + 1 \<le> 4 * length data + 3"
  using decode_encode encode_length by blast

end
