(* ===== verification/Parse.thy ===== *)
theory Parse
  imports CString
begin

text \<open>
  Tokens and switches of the command language: \<^verbatim>\<open>src/src/core/scp_parse.c\<close> and
  \<^verbatim>\<open>put_switches\<close> of \<^verbatim>\<open>src/src/core/scp.c\<close>.  A token is returned together with the
  text after it; the buffers the callers supply are large enough for the command line.
\<close>

unbundle bit_operations_syntax

subsection \<open>Tokens\<close>

text \<open>The quoting state after a character, and whether it closed a quoted token.\<close>

definition glyph_quote :: "char \<Rightarrow> bool \<Rightarrow> bool \<Rightarrow> char \<Rightarrow> char \<Rightarrow> bool \<times> bool \<times> char \<times> bool" where
  "glyph_quote escape_char quoting escaping quote_char c =
     (if quoting
      then (if \<not> escaping
            then (if c = escape_char then (True, True, quote_char, False)
                  else if c = quote_char then (False, False, quote_char, True)
                  else (True, False, quote_char, False))
            else (True, False, quote_char, False))
      else if c = CHR 0x22 \<or> c = CHR 0x27 then (True, escaping, c, False)
      else (quoting, escaping, quote_char, False))"

fun glyph_loop ::
  "char \<Rightarrow> bool \<Rightarrow> bool \<Rightarrow> char \<Rightarrow> bool \<Rightarrow> bool \<Rightarrow> char \<Rightarrow> string \<Rightarrow> string \<times> string" where
  "glyph_loop mchar uc quote escape_char quoting escaping quote_char [] = ([], [])"
| "glyph_loop mchar uc quote escape_char quoting escaping quote_char (c # r) =
     (if quote \<and> quoting \<or> \<not> sim_isspace (cint c) \<and> c \<noteq> mchar
      then let (quoting', escaping', quote_char', got_quoted) =
                 (if quote then glyph_quote escape_char quoting escaping quote_char c
                  else (quoting, escaping, quote_char, False));
               out = (if sim_islower (cint c) \<and> uc then to_char (sim_toupper (cint c)) else c);
               (outs, rest) = (if got_quoted then ([], r)
                               else glyph_loop mchar uc quote escape_char quoting' escaping' quote_char' r)
           in (out # outs, rest)
      else ([], c # r))"

definition get_glyph_gen :: "string \<Rightarrow> char \<Rightarrow> bool \<Rightarrow> bool \<Rightarrow> char \<Rightarrow> string \<times> string" where
  "get_glyph_gen iptr mchar uc quote escape_char =
     (let (optr, r) = glyph_loop mchar uc quote escape_char False False NUL iptr;
          r1 = (if mchar \<noteq> NUL \<and> deref r = mchar then tl r else r)
      in (optr, skip_space r1))"

definition get_glyph :: "string \<Rightarrow> char \<Rightarrow> string \<times> string" where
  "get_glyph iptr mchar = get_glyph_gen iptr mchar True False NUL"

definition get_glyph_nc :: "string \<Rightarrow> char \<Rightarrow> string \<times> string" where
  "get_glyph_nc iptr mchar = get_glyph_gen iptr mchar False False NUL"

definition get_glyph_quoted :: "string \<Rightarrow> char \<Rightarrow> string \<times> string" where
  "get_glyph_quoted iptr mchar = get_glyph_gen iptr mchar False True CHR 0x5C"

definition get_glyph_cmd :: "string \<Rightarrow> string \<times> string" where
  "get_glyph_cmd iptr =
     (if deref iptr = CHR ''!'' \<and> \<not> sim_isspace (cint (deref (tl iptr)))
      then (''!'', tl iptr)
      else get_glyph_gen iptr NUL True False NUL)"

subsection \<open>Switches\<close>

datatype SWITCH_PARSE = SW_ERROR | SW_BITMASK | SW_NUMBER

text \<open>
  \<^verbatim>\<open>strtol\<close> in base ten on a text that starts with a digit: the value of its digits, cut
  off at \<^verbatim>\<open>LONG_MAX\<close>, and the text behind them.
\<close>

definition strtol_digits :: "string \<Rightarrow> int \<times> string" where
  "strtol_digits s =
     (let ds = takeWhile (\<lambda>c. sim_isdigit (cint c)) s
      in (min (2 ^ 63 - 1) (foldl (\<lambda>v c. 10 * v + (cint c - 48)) 0 ds),
          dropWhile (\<lambda>c. sim_isdigit (cint c)) s))"

fun switch_letters :: "string \<Rightarrow> u32 \<Rightarrow> SWITCH_PARSE \<times> u32" where
  "switch_letters [] sw = (SW_BITMASK, sw)"
| "switch_letters (c # r) sw =
     (if sim_isspace (cint c) then (SW_BITMASK, sw)
      else if \<not> sim_isalpha (cint c) then (SW_ERROR, sw)
      else switch_letters r (sw OR SWMASK (to_char (sim_toupper (cint c)))))"

text \<open>
  \<open>want\<close> says whether the caller passed a place for a number; the number is \<^const>\<open>None\<close>
  where it is not assigned.  The cast to \<^verbatim>\<open>int32_t\<close> wraps.
\<close>

definition get_switches :: "string \<Rightarrow> bool \<Rightarrow> SWITCH_PARSE \<times> u32 \<times> int option" where
  "get_switches cptr want =
     (if deref cptr \<noteq> CHR ''-'' then (SW_BITMASK, 0, None)
      else let number = (if want then Some 0 else None) in
      if sim_isdigit (cint (deref (tl cptr)))
      then let (val, end') = strtol_digits (tl cptr)
           in if end' \<noteq> [] \<or> \<not> want then (SW_ERROR, 0, number)
              else (SW_NUMBER, 0, Some (signed_take_bit 31 val))
      else let (r, sw) = switch_letters (tl cptr) 0 in (r, sw, number))"

record switches =
  sim_switches :: u32
  sim_switch_number :: int

lemma skip_space_length: "length (skip_space s) \<le> length s"
  by (simp add: skip_space_def length_dropWhile_le)

lemma glyph_loop_length:
  "length (snd (glyph_loop m uc q e a b c s)) \<le> length s"
  by (induction s arbitrary: a b c) (simp_all add: Let_def case_prod_beta le_SucI)

lemma glyph_loop_progress:
  "\<not> sim_isspace (cint x) \<Longrightarrow> x \<noteq> m \<Longrightarrow> length (snd (glyph_loop m uc q e a b c (x # s))) \<le> length s"
  by (simp add: Let_def case_prod_beta glyph_loop_length)

lemma get_glyph_progress:
  assumes "deref s = CHR ''-''"
  shows "length (snd (get_glyph s NUL)) < length s"
proof (cases s)
  case (Cons c r)
  with assms have "c = CHR ''-''" by simp
  then have "\<not> sim_isspace (cint c)" "c \<noteq> NUL" by (simp_all add: ctype_defs cint_def)
  from glyph_loop_progress [OF this, of True False NUL False False NUL r] show ?thesis
    using order_trans [OF skip_space_length]
    by (simp add: Cons get_glyph_def get_glyph_gen_def Let_def case_prod_beta less_Suc_eq_le)
qed (use assms in simp)

lemma get_glyph_rest_shorter:
  "(g, r) = get_glyph s NUL \<Longrightarrow> deref s = CHR ''-'' \<Longrightarrow> length r < length s"
  using get_glyph_progress by (metis snd_conv)

function get_sim_sw :: "string \<Rightarrow> switches \<Rightarrow> string option \<times> switches" where
  "get_sim_sw cptr s =
     (if deref cptr = CHR ''-''
      then let (gbuf, cptr') = get_glyph cptr NUL in
           case get_switches gbuf True of
             (SW_ERROR, lsw, lnum) \<Rightarrow> (None, s)
           | (SW_BITMASK, lsw, lnum) \<Rightarrow> get_sim_sw cptr' (s\<lparr>sim_switches := sim_switches s OR lsw\<rparr>)
           | (SW_NUMBER, lsw, lnum) \<Rightarrow> get_sim_sw cptr' (s\<lparr>sim_switch_number := the lnum\<rparr>)
      else (Some cptr, s))"
  by pat_completeness auto
termination
  by (relation "measure (\<lambda>(cptr, s). length cptr)") (simp_all add: get_glyph_rest_shorter)

declare get_sim_sw.simps [simp del]

text \<open>\<^verbatim>\<open>put_switches\<close>: the string left in the buffer of \<open>bufsize\<close> bytes.\<close>

definition put_switches :: "nat \<Rightarrow> u32 \<Rightarrow> string" where
  "put_switches bufsize sw =
     (if sw = 0 \<or> bufsize < 3 then []
      else fold (\<lambda>bit' out. if sw AND push_bit bit' 1 \<noteq> 0 \<and> length out < bufsize - 1
                            then out @ [char_of (65 + bit')] else out)
             [0..<26] ''-'')"


subsection \<open>Printing and reading switches\<close>

definition switch_chars :: "u32 \<Rightarrow> nat list \<Rightarrow> string" where
  "switch_chars sw bits = map (\<lambda>n. char_of (65 + n)) (filter (bit sw) bits)"

lemma put_switches_fold:
  "length out + length bits < bufsize \<Longrightarrow>
   fold (\<lambda>bit' out. if sw AND push_bit bit' 1 \<noteq> 0 \<and> length out < bufsize - 1 then out @ [char_of (65 + bit')] else out)
     bits out = out @ switch_chars sw bits"
  by (induction bits arbitrary: out) (auto simp: switch_chars_def and_exp_eq_0_iff_not_bit)

lemma put_switches_letters:
  "sw \<noteq> 0 \<Longrightarrow> 27 < bufsize \<Longrightarrow> put_switches bufsize sw = CHR ''-'' # switch_chars sw [0..<26]"
  using put_switches_fold [of "''-''" "[0..<26]" bufsize sw] unfolding put_switches_def by simp

lemma letter_class:
  assumes "n < 26"
  shows "\<not> sim_isspace (cint (char_of (65 + n)))" "sim_isalpha (cint (char_of (65 + n)))"
    "\<not> sim_isdigit (cint (char_of (65 + n)))"
    "SWMASK (to_char (sim_toupper (cint (char_of (65 + n))))) = push_bit n 1"
proof -
  have c: "cint (char_of (65 + n)) = 65 + int n" using assms by (simp add: cint_char_of)
  show "\<not> sim_isspace (cint (char_of (65 + n)))" "sim_isalpha (cint (char_of (65 + n)))"
    "\<not> sim_isdigit (cint (char_of (65 + n)))"
    using assms unfolding c by (simp_all add: ctype_defs)
  have "sim_toupper (cint (char_of (65 + n))) = cint (char_of (65 + n))"
    using assms unfolding c by (simp add: ctype_defs)
  then show "SWMASK (to_char (sim_toupper (cint (char_of (65 + n))))) = push_bit n 1"
    using assms by (simp add: SWMASK_def)
qed

lemma switch_letters_chars:
  "list_all (\<lambda>n. n < 26) bits \<Longrightarrow>
   \<exists>r. switch_letters (switch_chars sw bits) acc = (SW_BITMASK, r) \<and>
       (\<forall>k. bit r k \<longleftrightarrow> bit acc k \<or> k \<in> set bits \<and> bit sw k)"
proof (induction bits arbitrary: acc)
  case (Cons n bits)
  let ?acc = "if bit sw n then acc OR push_bit n 1 else acc"
  have acc: "bit ?acc k \<longleftrightarrow> bit acc k \<or> k = n \<and> bit sw n" for k
    using Cons.prems by (auto simp: bit_simps)
  have "switch_letters (switch_chars sw (n # bits)) acc = switch_letters (switch_chars sw bits) ?acc"
    using Cons.prems letter_class [of n] by (simp add: switch_chars_def)
  with Cons.IH [of ?acc] Cons.prems acc show ?case by auto
qed (simp add: switch_chars_def)

lemma get_put_switches:
  assumes "27 < bufsize"
  shows "get_switches (put_switches bufsize sw) want =
    (SW_BITMASK, sw AND mask 26, if want \<and> sw \<noteq> 0 then Some 0 else None)"
proof (cases "sw = 0")
  case True
  then show ?thesis by (simp add: get_switches_def put_switches_def)
next
  case False
  let ?cs = "switch_chars sw [0..<26]"
  have nd: "\<not> sim_isdigit (cint (deref ?cs))"
  proof (cases ?cs)
    case (Cons c r)
    then have "c \<in> set ?cs" by simp
    then obtain n :: nat where "n < 26" "c = char_of (65 + n)" by (auto simp: switch_chars_def)
    with Cons show ?thesis by (simp add: letter_class)
  qed (simp add: ctype_defs)
  obtain r where r: "switch_letters ?cs 0 = (SW_BITMASK, r)" "\<forall>k. bit r k \<longleftrightarrow> k < 26 \<and> bit sw k"
    using switch_letters_chars [of "[0..<26]" sw 0] by (auto simp: list_all_iff)
  have "r = sw AND mask 26" by (rule bit_eqI) (auto simp: r(2) bit_simps)
  with r(1) nd False show ?thesis
    using put_switches_letters [OF False assms] by (simp add: get_switches_def)
qed

subsection \<open>Properties\<close>

text \<open>
  Round trip: the text \<^verbatim>\<open>put_switches\<close> writes for a switch word is read back by
  \<^verbatim>\<open>get_switches\<close> as the same letters.
\<close>

lemma switches_round_trip:
  assumes "27 < bufsize"
  shows "get_switches (put_switches bufsize sw) want =
    (SW_BITMASK, sw AND mask 26, if want \<and> sw \<noteq> 0 then Some 0 else None)"
  using assms by (rule get_put_switches)

end
