(* ===== verification/Numbers.thy ===== *)
theory Numbers
  imports Parse
begin

text \<open>
  The radix independent input and output package of \<^verbatim>\<open>src/src/core/scp.c\<close> and the
  parsers built on it: unsigned numbers, address ranges, search specifications and the
  printing of values.  \<^verbatim>\<open>t_value\<close> is the 64-bit type of the \<^verbatim>\<open>USE_INT64\<close> builds.
  Where the code returns through an end pointer the model returns the text from there on.
\<close>

unbundle bit_operations_syntax

subsection \<open>Reading numbers\<close>

text \<open>
  The digit loop.  \<^const>\<open>None\<close> is the early return for a digit outside the radix; the
  flag is \<^verbatim>\<open>nodigits\<close>.
\<close>

fun digit_of :: "nat \<Rightarrow> char \<Rightarrow> nat option" where
  "digit_of radix c =
     (let u = sim_toupper (cint c) in
      if sim_isdigit u then Some (nat (u - 48))
      else if radix \<le> 10 then None else Some (nat (u + 10 - 65)))"

fun strtotv_loop :: "nat \<Rightarrow> t_value \<Rightarrow> bool \<Rightarrow> string \<Rightarrow> (t_value \<times> bool \<times> string) option" where
  "strtotv_loop radix val nodigits [] = Some (val, nodigits, [])"
| "strtotv_loop radix val nodigits (c # s) =
     (if \<not> sim_isalnum (cint c) then Some (val, nodigits, c # s)
      else case digit_of radix c of
             None \<Rightarrow> Some (val, nodigits, c # s)
           | Some digit \<Rightarrow>
               (if digit \<ge> radix then None
                else strtotv_loop radix (val * of_nat radix + of_nat digit) False s))"

text \<open>The prefixes \<^verbatim>\<open>0x\<close> and \<^verbatim>\<open>0b\<close> and the default radix.\<close>

definition radix_prefix :: "nat \<Rightarrow> string \<Rightarrow> nat \<times> string" where
  "radix_prefix radix s =
     (let (r1, s1) = (if (radix = 0 \<or> radix = 16) \<and> (take 2 s = ''0x'' \<or> take 2 s = ''0X'')
                      then (16, drop 2 s) else (radix, s));
          (r2, s2) = (if (r1 = 0 \<or> r1 = 2) \<and> (take 2 s1 = ''0b'' \<or> take 2 s1 = ''0B'')
                      then (2, drop 2 s1) else (r1, s1));
          r3 = (if r2 = 0 \<and> deref s2 = CHR ''0'' then 8 else r2)
      in (if r3 = 0 then 10 else r3, s2))"

definition strtotv :: "string \<Rightarrow> nat \<Rightarrow> t_value \<times> string" where
  "strtotv inptr radix =
     (if (radix < 2 \<or> radix > 36) \<and> radix \<noteq> 0 then (0, inptr)
      else let (r, s) = radix_prefix radix (skip_space inptr) in
      case strtotv_loop r 0 True s of
        None \<Rightarrow> (0, inptr)
      | Some (val, nodigits, rest) \<Rightarrow> if nodigits then (0, inptr) else (val, rest))"

text \<open>
  The signed variant accumulates in a \<^verbatim>\<open>t_svalue\<close>, where overflow is undefined: the
  result \<open>Inl\<close> is a value that left the 64-bit range.  The other faults are those of the
  expression evaluator: a shift by a count outside the type, a call through a null pointer.
\<close>

datatype num_fault = Signed_Overflow | Bad_Shift | Null_Call

fun strtotsv_loop :: "nat \<Rightarrow> int \<Rightarrow> bool \<Rightarrow> string \<Rightarrow> num_fault + (int \<times> bool \<times> string) option" where
  "strtotsv_loop radix val nodigits [] = Inr (Some (val, nodigits, []))"
| "strtotsv_loop radix val nodigits (c # s) =
     (if \<not> sim_isalnum (cint c) then Inr (Some (val, nodigits, c # s))
      else case digit_of radix c of
             None \<Rightarrow> Inr (Some (val, nodigits, c # s))
           | Some digit \<Rightarrow>
               (if digit \<ge> radix then Inr None
                else let v = val * int radix + int digit
                     in if v \<ge> 2 ^ 63 then Inl Signed_Overflow
                        else strtotsv_loop radix v False s))"

definition strtotsv :: "string \<Rightarrow> nat \<Rightarrow> num_fault + (int \<times> string)" where
  "strtotsv inptr radix =
     (if (radix < 2 \<or> radix > 36) \<and> radix \<noteq> 0 then Inr (0, inptr)
      else let s0 = skip_space inptr;
               negate = (if deref s0 = CHR ''-'' then -1 else 1);
               s1 = (if deref s0 = CHR ''-'' \<or> deref s0 = CHR ''+'' then tl s0 else s0);
               (r, s) = radix_prefix radix s1 in
      case strtotsv_loop r 0 True s of
        Inl f \<Rightarrow> Inl f
      | Inr None \<Rightarrow> Inr (0, inptr)
      | Inr (Some (val, nodigits, rest)) \<Rightarrow> Inr (if nodigits then (0, inptr) else (val * negate, rest)))"

definition get_uint :: "string \<Rightarrow> nat \<Rightarrow> t_value \<Rightarrow> t_value \<times> t_stat" where
  "get_uint cptr radix max' =
     (let (val, tptr) = strtotv cptr radix in
      if cptr = tptr \<or> val > max' then (val, SCPE_ARG)
      else let t1 = skip_space tptr;
               k = sim_toupper (cint (deref t1));
               (val', t2) = (if k = 75 then (val * 1000, tl t1)
                             else if k = 77 then (val * 1000000, tl t1) else (val, t1))
           in if t2 \<noteq> [] \<or> val' > max' then (val', SCPE_ARG) else (val', SCPE_OK))"

subsection \<open>Address ranges\<close>

record last_ref =
  sim_last_addr :: t_addr
  sim_last_val :: t_value

text \<open>
  \<open>parse_addr\<close> is the simulator's \<^verbatim>\<open>sim_vm_parse_addr\<close> on the given device,
  \<^const>\<open>None\<close> where the device or the hook is missing.
\<close>

definition range_addr :: "(string \<Rightarrow> t_addr \<times> string) option \<Rightarrow> nat \<Rightarrow> string \<Rightarrow> t_addr \<times> string" where
  "range_addr parse_addr rdx cptr =
     (case parse_addr of
        Some f \<Rightarrow> f cptr
      | None \<Rightarrow> (let (v, t) = strtotv cptr rdx in (ucast v, t)))"

definition range_low ::
  "(string \<Rightarrow> t_addr \<times> string) option \<Rightarrow> nat \<Rightarrow> string \<Rightarrow> last_ref \<Rightarrow> (t_addr \<times> string) option" where
  "range_low parse_addr rdx cptr st =
     (if deref cptr = CHR ''.'' \<and> deref (tl cptr) \<in> set [NUL, CHR ''-'', CHR '':'', CHR ''/'']
      then Some (sim_last_addr st, tl cptr)
      else if deref cptr = CHR ''$'' then Some (ucast (sim_last_val st), tl cptr)
      else let (lo, tptr) = range_addr parse_addr rdx cptr
           in if cptr = tptr then None else Some (lo, tptr))"

definition range_high ::
  "(string \<Rightarrow> t_addr \<times> string) option \<Rightarrow> nat \<Rightarrow> t_addr \<Rightarrow> string \<Rightarrow> (t_addr \<times> string) option" where
  "range_high parse_addr rdx lo tptr =
     (if deref tptr = CHR ''-'' \<or> deref tptr = CHR '':''
      then let (hi, t) = range_addr parse_addr rdx (tl tptr)
           in if tl tptr = t \<or> lo > hi then None else Some (hi, t)
      else if deref tptr = CHR ''/''
      then let (v, t) = strtotv (tl tptr) rdx; n = (ucast v :: t_addr)
           in if tl tptr = t \<or> n = 0 then None else Some (lo + n - 1, t)
      else Some (lo, tptr))"

definition get_range ::
  "(string \<Rightarrow> t_addr \<times> string) option \<Rightarrow> string \<Rightarrow> nat \<Rightarrow> t_addr \<Rightarrow> char \<Rightarrow> last_ref \<Rightarrow>
   (t_addr \<times> t_addr \<times> string) option \<times> last_ref" where
  "get_range parse_addr cptr rdx max' term' st =
     (let r = (if max' \<noteq> 0 \<and> take 3 cptr = ''ALL'' then Some (0, max', drop 3 cptr)
               else case range_low parse_addr rdx cptr st of
                      None \<Rightarrow> None
                    | Some (lo, t) \<Rightarrow>
                        (case range_high parse_addr rdx lo t of
                           None \<Rightarrow> None
                         | Some (hi, t') \<Rightarrow> Some (lo, hi, t')))
      in case r of
           None \<Rightarrow> (None, st)
         | Some (lo, hi, t) \<Rightarrow>
             (let st' = st\<lparr>sim_last_addr := hi\<rparr> in
              if term' \<noteq> NUL
              then (if deref t \<noteq> term' then (None, st') else (Some (lo, hi, tl t), st'))
              else (Some (lo, hi, t), st')))"

subsection \<open>File extensions\<close>

text \<open>\<^verbatim>\<open>strrchr\<close>: the text from the last occurrence on.\<close>

fun strrchr :: "string \<Rightarrow> char \<Rightarrow> string option" where
  "strrchr [] c = None"
| "strrchr (x # s) c =
     (case strrchr s c of Some r \<Rightarrow> Some r | None \<Rightarrow> if x = c then Some (x # s) else None)"

fun ext_matches :: "string \<Rightarrow> string \<Rightarrow> bool" where
  "ext_matches [] e = (e = [])"
| "ext_matches (f # fs) e =
     (sim_toupper (cint f) = sim_toupper (cint (deref e)) \<and> ext_matches fs (tl e))"

definition match_ext :: "string option \<Rightarrow> string option \<Rightarrow> string option" where
  "match_ext fnam ext =
     (case (fnam, ext) of
        (Some f, Some e) \<Rightarrow>
          (case strrchr f CHR ''.'' of
             None \<Rightarrow> None
           | Some p \<Rightarrow> if ext_matches (tl p) e then Some p else None)
      | _ \<Rightarrow> None)"

subsection \<open>Searching\<close>

record SCHTAB =
  sch_logic :: nat
  sch_boolop :: nat
  sch_count :: nat
  sch_mask :: "t_value list"
  sch_comp :: "t_value list"

definition sch_masked :: "nat \<Rightarrow> t_value \<Rightarrow> t_value \<Rightarrow> t_value" where
  "sch_masked logic v m =
     (if logic = 0 then v OR m else if logic = 1 then v AND m else if logic = 2 then v XOR m else v)"

definition sch_fails :: "nat \<Rightarrow> t_value \<Rightarrow> t_value \<Rightarrow> bool" where
  "sch_fails boolop v c =
     (if boolop = 0 \<or> boolop = 4 then v \<noteq> c
      else if boolop = 1 \<or> boolop = 5 then v = c
      else if boolop = 2 then v \<le> c
      else if boolop = 6 then v < c
      else if boolop = 3 then v \<ge> c
      else if boolop = 7 then v > c
      else False)"

text \<open>The comparison loop runs from the last word down to word 0 while \<^verbatim>\<open>ret\<close> is 1.\<close>

primrec sch_loop :: "nat \<Rightarrow> nat \<Rightarrow> t_value list \<Rightarrow> t_value list \<Rightarrow> bool" where
  "sch_loop 0 boolop val comp' = True"
| "sch_loop (Suc i) boolop val comp' =
     (if sch_fails boolop (val ! i) (comp' ! i) then False else sch_loop i boolop val comp')"

definition test_search :: "t_value list \<Rightarrow> SCHTAB option \<Rightarrow> bool" where
  "test_search values schptr =
     (case schptr of
        None \<Rightarrow> False
      | Some t \<Rightarrow>
          (let val = map (\<lambda>i. sch_masked (sch_logic t) (values ! i) (sch_mask t ! i)) [0..<sch_count t]
           in sch_loop (sch_count t) (sch_boolop t) val (sch_comp t)))"

text \<open>The clauses of a register search: a pair of operator and value for each kind.\<close>

definition strchr_index :: "string \<Rightarrow> char \<Rightarrow> nat option" where
  "strchr_index s c = (if c \<in> set s then Some (length (takeWhile (\<lambda>x. x \<noteq> c) s)) else None)"

lemma strtotv_rest: "length (snd (strtotv s radix)) \<le> length s"
proof -
  have loop: "strtotv_loop r v n t = Some (v', n', rest) \<Longrightarrow> length rest \<le> length t" for r v n t v' n' rest
    by (induction r v n t rule: strtotv_loop.induct) (auto split: if_splits option.splits)
  have "length (snd (radix_prefix radix t)) \<le> length t" for t
    by (auto simp: radix_prefix_def Let_def)
  then have "length (snd (radix_prefix radix (skip_space s))) \<le> length s"
    using skip_space_length order_trans by blast
  then show ?thesis
    by (auto simp: strtotv_def Let_def split: prod.splits option.splits dest!: loop)
qed

text \<open>One clause: whether it is a mask, the operator, the value and the text behind it.\<close>

definition rsearch_clause :: "string \<Rightarrow> nat \<Rightarrow> (bool \<times> nat \<times> t_value \<times> string) option" where
  "rsearch_clause cptr radix =
     (let c = hd cptr; r = tl cptr in
      case strchr_index ''|&^'' c of
        Some logop \<Rightarrow> (let (v, t) = strtotv r radix in if r = t then None else Some (True, logop, v, t))
      | None \<Rightarrow>
          (case strchr_index ''=!><'' c of
             None \<Rightarrow> None
           | Some op \<Rightarrow>
               (let (cmpop, r') = (if deref r = CHR ''='' then (op + 4, tl r) else (op, r));
                    (v, t) = strtotv r' radix
                in if r' = t then None else Some (False, cmpop, v, t))))"

lemma rsearch_clause_shorter:
  assumes "rsearch_clause cptr radix = Some (b, op, v, t)" "cptr \<noteq> []"
  shows "length t < length cptr"
proof -
  have "length t \<le> length (tl cptr)"
    using assms(1) strtotv_rest [of "tl cptr" radix] strtotv_rest [of "tl (tl cptr)" radix]
    by (auto simp: rsearch_clause_def Let_def split: option.splits prod.splits if_splits)
  with assms(2) show ?thesis by (cases cptr) simp_all
qed

function rsearch_loop ::
  "string \<Rightarrow> nat \<Rightarrow> (nat \<times> t_value) option \<Rightarrow> (nat \<times> t_value) option \<Rightarrow>
   ((nat \<times> t_value) option \<times> (nat \<times> t_value) option) option" where
  "rsearch_loop cptr radix lg cmp' =
     (if cptr = [] then Some (lg, cmp')
      else case rsearch_clause cptr radix of
             None \<Rightarrow> None
           | Some (masking, op, v, t) \<Rightarrow>
               rsearch_loop t radix (if masking then Some (op, v) else lg) (if masking then cmp' else Some (op, v)))"
  by pat_completeness auto
termination
  by (relation "measure (\<lambda>(cptr, radix, lg, cmp'). length cptr)") (auto simp: rsearch_clause_shorter)

declare rsearch_loop.simps [simp del]

definition get_rsearch :: "nat \<Rightarrow> string \<Rightarrow> nat \<Rightarrow> SCHTAB \<Rightarrow> SCHTAB option" where
  "get_rsearch sim_emax cptr radix schptr =
     (if cptr = [] then None
      else case rsearch_loop cptr radix None None of
             None \<Rightarrow> None
           | Some (lg, cmp') \<Rightarrow>
               (let s0 = (if sch_count schptr \<noteq> 1
                          then schptr\<lparr>sch_mask := replicate sim_emax 0, sch_comp := replicate sim_emax 0\<rparr>
                          else schptr);
                    s1 = (case lg of
                            Some (op, v) \<Rightarrow> s0\<lparr>sch_logic := op, sch_mask := (sch_mask s0)[0 := v]\<rparr>
                          | None \<Rightarrow> s0);
                    s2 = (case cmp' of
                            Some (op, v) \<Rightarrow> s1\<lparr>sch_boolop := op, sch_comp := (sch_comp s1)[0 := v]\<rparr>
                          | None \<Rightarrow> s1)
                in Some (s2\<lparr>sch_count := 1\<rparr>)))"

subsection \<open>Printing values\<close>

abbreviation (input) PV_RZRO :: nat where "PV_RZRO \<equiv> 0"
abbreviation (input) PV_RSPC :: nat where "PV_RSPC \<equiv> 1"
abbreviation (input) PV_RCOMMA :: nat where "PV_RCOMMA \<equiv> 2"
abbreviation (input) PV_LEFT :: nat where "PV_LEFT \<equiv> 3"
abbreviation (input) PV_RCOMMASIGN :: nat where "PV_RCOMMASIGN \<equiv> 6"
abbreviation (input) PV_LEFTSIGN :: nat where "PV_LEFTSIGN \<equiv> 7"
abbreviation (input) MAX_WIDTH :: nat where "MAX_WIDTH \<equiv> 86"

definition digit_char :: "nat \<Rightarrow> char" where
  "digit_char digit = (if digit \<le> 9 then char_of (48 + digit) else char_of (65 + (digit - 10)))"

primrec sprint_digits :: "nat \<Rightarrow> t_value \<Rightarrow> t_value \<Rightarrow> string \<Rightarrow> nat \<times> string" where
  "sprint_digits 0 radix val dbuf = (0, dbuf)"
| "sprint_digits (Suc d) radix val dbuf =
     (let dbuf' = dbuf[d := digit_char (unat (val mod radix))]; val' = val div radix
      in if d > 0 \<and> val' \<noteq> 0 then sprint_digits d radix val' dbuf' else (d, dbuf'))"

text \<open>The moves that make room for the commas, and the commas.\<close>

definition comma_moves :: "nat \<Rightarrow> string \<Rightarrow> string" where
  "comma_moves ndigits dbuf =
     fold (\<lambda>digit b. b[MAX_WIDTH + digit - ndigits - (ndigits - digit - 1) div 3 := b ! (MAX_WIDTH + digit - ndigits)])
       [0..<ndigits - 3] dbuf"

definition put_commas :: "nat \<Rightarrow> string \<Rightarrow> string" where
  "put_commas commas dbuf = fold (\<lambda>digit b. b[MAX_WIDTH - digit * 4 := CHR '','']) [1..<commas + 1] dbuf"

text \<open>The count of digits a value of \<open>width\<close> bits needs.\<close>

definition width_mask :: "nat \<Rightarrow> t_value" where
  "width_mask width = mask width"

primrec width_digits :: "nat \<Rightarrow> t_value \<Rightarrow> t_value \<Rightarrow> t_value \<Rightarrow> t_value \<Rightarrow> nat \<Rightarrow> nat option" where
  "width_digits 0 limit radix owtest wtest ndigits = None"
| "width_digits (Suc fuel) limit radix owtest wtest ndigits =
     (if wtest < limit \<and> wtest \<ge> owtest
      then width_digits fuel limit radix wtest (wtest * radix) (ndigits + 1)
      else Some ndigits)"

text \<open>
  \<^verbatim>\<open>sprint_val\<close> with a buffer: the status and the string left in it.  The result is
  \<^const>\<open>None\<close> when the width selects an entry outside \<^verbatim>\<open>width_mask\<close>.
\<close>

definition sprint_justify ::
  "nat \<Rightarrow> t_value \<Rightarrow> nat \<Rightarrow> nat \<Rightarrow> bool \<Rightarrow> nat \<Rightarrow> string \<Rightarrow> (nat \<times> string) option" where
  "sprint_justify fuel radix width format negative d dbuf =
     (if format = PV_RCOMMA \<or> format = PV_RCOMMASIGN
      then let ndigits = length (dropWhile (\<lambda>c. c = CHR '' '') dbuf);
               commas = (ndigits - 1) div 3;
               b1 = put_commas commas (comma_moves ndigits dbuf);
               d1 = d - commas;
               (d2, b2) = (if negative \<and> format = PV_RCOMMASIGN then (d1 - 1, b1[d1 - 1 := CHR ''-'']) else (d1, b1))
           in Some (if width > MAX_WIDTH then 0 else if width > 0 then MAX_WIDTH - width else d2, b2)
      else if format = PV_RZRO \<or> format = PV_RSPC
      then (if width > 64 then None
            else map_option (\<lambda>ndigits. (min d (MAX_WIDTH - ndigits), dbuf))
                   (width_digits fuel (width_mask width) radix radix radix 1))
      else Some (d, dbuf))"

definition sprint_val :: "nat \<Rightarrow> t_value \<Rightarrow> t_value \<Rightarrow> nat \<Rightarrow> nat \<Rightarrow> (t_stat \<times> string) option" where
  "sprint_val fuel val radix width format =
     (let negative = ((format = PV_LEFTSIGN \<or> format = PV_RCOMMASIGN) \<and> sint val < 0);
          v = (if negative then - val else val);
          dbuf0 = replicate MAX_WIDTH (if format = PV_RZRO then CHR ''0'' else CHR '' '');
          (d, dbuf) = sprint_digits MAX_WIDTH radix v dbuf0;
          (d1, dbuf1) = (if negative \<and> format = PV_LEFTSIGN then (d - 1, dbuf[d - 1 := CHR ''-'']) else (d, dbuf))
      in case sprint_justify fuel radix width format negative d1 dbuf1 of
           None \<Rightarrow> None
         | Some (d2, b) \<Rightarrow>
             (if (format = PV_RCOMMA \<or> format = PV_RCOMMASIGN) \<and> width > MAX_WIDTH
              then Some (SCPE_OK, b @ replicate (width - MAX_WIDTH) CHR '' '')
              else if width < length (drop d2 b) then Some (SCPE_IOERR, [])
              else Some (SCPE_OK, drop d2 b)))"

subsection \<open>Digits\<close>

lemma digit_char_class:
  assumes "n < 36"
  shows "\<not> sim_isspace (cint (digit_char n))" "sim_isalnum (cint (digit_char n))"
    "digit_char n \<noteq> CHR ''x''" "digit_char n \<noteq> CHR ''b''"
    "n < 10 \<Longrightarrow> cint (digit_char n) = 48 + int n" "\<not> n < 10 \<Longrightarrow> cint (digit_char n) = 55 + int n"
proof -
  show lo: "n < 10 \<Longrightarrow> cint (digit_char n) = 48 + int n" and hi: "\<not> n < 10 \<Longrightarrow> cint (digit_char n) = 55 + int n"
    using assms by (simp_all add: digit_char_def cint_char_of)
  show "\<not> sim_isspace (cint (digit_char n))" "sim_isalnum (cint (digit_char n))"
    using assms lo hi by (cases "n < 10"; simp add: ctype_defs)+
  have "cint (digit_char n) \<le> 90" using assms lo hi by (cases "n < 10") simp_all
  then show "digit_char n \<noteq> CHR ''x''" "digit_char n \<noteq> CHR ''b''" by (auto simp: cint_def)
qed

lemma digit_char_hex: "n < 16 \<Longrightarrow> digit_char n \<noteq> CHR ''X''"
proof
  assume n: "n < 16" "digit_char n = CHR ''X''"
  then have "cint (digit_char n) = 88" by (simp add: cint_def)
  with n(1) digit_char_class(5,6) [of n] show False by (cases "n < 10") simp_all
qed

lemma digit_char_binary: "n < 2 \<Longrightarrow> digit_char n \<noteq> CHR ''B''"
proof
  assume n: "n < 2" "digit_char n = CHR ''B''"
  then have "cint (digit_char n) = 66" by (simp add: cint_def)
  with n(1) digit_char_class(5) [of n] show False by simp
qed

lemma digit_of_char: "n < radix \<Longrightarrow> radix \<le> 36 \<Longrightarrow> digit_of radix (digit_char n) = Some n"
  using digit_char_class(5,6) [of n] by (cases "n < 10") (auto simp: ctype_defs Let_def)

declare digit_of.simps [simp del]

definition horner :: "nat \<Rightarrow> t_value \<Rightarrow> nat list \<Rightarrow> t_value" where
  "horner radix v ds = foldl (\<lambda>v d. v * of_nat radix + of_nat d) v ds"

lemma strtotv_loop_digits:
  "list_all (\<lambda>d. d < radix) ds \<Longrightarrow> radix \<le> 36 \<Longrightarrow>
   strtotv_loop radix v b (map digit_char ds) = Some (horner radix v ds, ds = [] \<and> b, [])"
  by (induction ds arbitrary: v b) (auto simp: horner_def digit_char_class digit_of_char)

lemma radix_prefix_digits:
  assumes "list_all (\<lambda>d. d < radix) ds" "2 \<le> radix" "radix \<le> 36"
  shows "radix_prefix radix (map digit_char ds) = (radix, map digit_char ds)"
proof -
  let ?s = "map digit_char ds"
  have hd: "take 2 ?s \<noteq> [a, digit_char' ]" if "\<And>d. d < radix \<Longrightarrow> digit_char d \<noteq> digit_char'" for a digit_char'
  proof (cases ds)
    case (Cons d ds')
    with that assms(1) show ?thesis by (cases ds') auto
  qed simp
  have "take 2 ?s \<noteq> ''0x'' \<and> take 2 ?s \<noteq> ''0X''" if "radix = 16"
    using that by (auto intro!: hd simp: digit_char_hex digit_char_class(3))
  moreover have "take 2 ?s \<noteq> ''0b'' \<and> take 2 ?s \<noteq> ''0B''" if "radix = 2"
    using that by (auto intro!: hd simp: digit_char_binary digit_char_class(4))
  ultimately show ?thesis using assms(2) by (auto simp: radix_prefix_def Let_def)
qed

lemma strtotv_digits:
  assumes "list_all (\<lambda>d. d < radix) ds" "2 \<le> radix" "radix \<le> 36" "ds \<noteq> []"
  shows "strtotv (map digit_char ds) radix = (horner radix 0 ds, [])"
proof -
  have "skip_space (map digit_char ds) = map digit_char ds"
    using assms by (cases ds) (simp_all add: skip_space_def digit_char_class)
  then show ?thesis
    using assms radix_prefix_digits [OF assms(1-3)] strtotv_loop_digits [OF assms(1,3)]
    by (simp add: strtotv_def)
qed

subsection \<open>Printing\<close>

primrec to_digits :: "nat \<Rightarrow> t_value \<Rightarrow> t_value \<Rightarrow> nat list" where
  "to_digits 0 radix val = []"
| "to_digits (Suc d) radix val =
     (if d > 0 \<and> val div radix \<noteq> 0 then to_digits d radix (val div radix) else []) @ [unat (val mod radix)]"

lemma to_digits_length: "length (to_digits d radix val) \<le> d" "0 < d \<Longrightarrow> to_digits d radix val \<noteq> []"
  by (induction d arbitrary: val) (auto simp: le_SucI)

lemma sprint_digits_spec:
  "d \<le> length buf \<Longrightarrow> 0 < d \<Longrightarrow> sprint_digits d radix val buf =
     (d - length (to_digits d radix val),
      take (d - length (to_digits d radix val)) buf @ map digit_char (to_digits d radix val) @ drop d buf)"
proof (induction d arbitrary: val buf)
  case (Suc d)
  let ?b = "buf[d := digit_char (unat (val mod radix))]"
  have b: "take k ?b = take k buf" if "k \<le> d" for k using that by simp
  have "drop d ?b = digit_char (unat (val mod radix)) # drop (Suc d) buf"
    using Suc.prems by (simp add: drop_update_swap flip: Cons_nth_drop_Suc)
  moreover have "?b = take d buf @ digit_char (unat (val mod radix)) # drop (Suc d) buf"
    using Suc.prems by (simp add: upd_conv_take_nth_drop)
  ultimately show ?case
    using Suc by (auto simp: Let_def)
qed simp

lemma to_digits_radix:
  "2 \<le> radix \<Longrightarrow> radix \<le> 36 \<Longrightarrow> list_all (\<lambda>d. d < radix) (to_digits d (of_nat radix) val)"
proof (induction d arbitrary: val)
  case (Suc d)
  have "unat (val mod of_nat radix) < radix"
    using Suc.prems by (simp add: unat_mod unat_of_nat take_bit_nat_eq_self)
  with Suc show ?case by simp
qed simp

lemma horner_to_digits:
  assumes "2 \<le> radix" "radix \<le> 36"
  shows "unat val < radix ^ d \<Longrightarrow> horner radix 0 (to_digits d (of_nat radix) val) = val"
proof (induction d arbitrary: val)
  case (Suc d)
  let ?r = "of_nat radix :: t_value"
  have r: "unat ?r = radix" using assms by (simp add: unat_of_nat take_bit_nat_eq_self)
  have q: "unat (val div ?r) = unat val div radix" by (simp add: unat_div r)
  have lt: "unat (val div ?r) < radix ^ d"
    using Suc.prems assms by (simp add: q div_less_iff_less_mult mult.commute)
  have eq: "val div ?r * ?r + of_nat (unat (val mod ?r)) = val"
    by (simp add: word_mod_div_equality)
  have "val div ?r = 0" if "d = 0" using lt that by (simp add: unat_eq_0)
  with Suc.IH [OF lt] eq show ?case by (auto simp: horner_def)
qed (simp add: horner_def unat_eq_0)

lemma to_digits_short:
  assumes "2 \<le> radix" "radix \<le> 36"
  shows "unat val < radix ^ Suc k \<Longrightarrow> length (to_digits d (of_nat radix) val) \<le> Suc k"
proof (induction d arbitrary: val k)
  case (Suc d)
  have r: "unat (of_nat radix :: t_value) = radix" using assms by (simp add: unat_of_nat take_bit_nat_eq_self)
  have q: "unat (val div of_nat radix) < radix ^ k"
    using Suc.prems assms by (simp add: unat_div r div_less_iff_less_mult mult.commute)
  show ?case
  proof (cases k)
    case 0
    with q show ?thesis by (simp add: unat_eq_0)
  next
    case (Suc k')
    with Suc.IH [of "val div of_nat radix" k'] q show ?thesis by simp
  qed
qed simp


lemma print_parse_value:
  fixes val :: t_value
  assumes "2 \<le> radix" "radix \<le> 36" "64 \<le> width"
  shows "\<exists>s. sprint_val fuel val (of_nat radix) width PV_LEFT = Some (SCPE_OK, s) \<and> strtotv s radix = (val, [])"
proof -
  let ?ds = "to_digits MAX_WIDTH (of_nat radix) val"
  have "unat val < 2 ^ 64" using unsigned_less [of val] by simp
  also have "\<dots> \<le> radix ^ Suc 63" using assms(1) power_mono [of 2 radix 64] by simp
  finally have lt: "unat val < radix ^ Suc 63" .
  also have "radix ^ Suc 63 \<le> radix ^ MAX_WIDTH" using assms(1) by (intro power_increasing) simp_all
  finally have lt': "unat val < radix ^ MAX_WIDTH" .
  have len: "length ?ds \<le> 64" using to_digits_short [OF assms(1,2) lt] by simp
  have "sprint_digits MAX_WIDTH (of_nat radix) val (replicate MAX_WIDTH CHR '' '') =
      (MAX_WIDTH - length ?ds, replicate (MAX_WIDTH - length ?ds) CHR '' '' @ map digit_char ?ds)"
    using sprint_digits_spec [of MAX_WIDTH "replicate MAX_WIDTH CHR '' ''" "of_nat radix" val] by simp
  then have "sprint_val fuel val (of_nat radix) width PV_LEFT = Some (SCPE_OK, map digit_char ?ds)"
    using assms(3) len by (simp add: sprint_val_def sprint_justify_def Let_def)
  moreover have "strtotv (map digit_char ?ds) radix = (val, [])"
    using strtotv_digits [OF to_digits_radix [OF assms(1,2)] assms(1,2) to_digits_length(2)]
      horner_to_digits [OF assms(1,2) lt'] by simp
  ultimately show ?thesis by blast
qed

subsection \<open>Searching\<close>

lemma sch_loop_all: "sch_loop n boolop val cs \<longleftrightarrow> (\<forall>i<n. \<not> sch_fails boolop (val ! i) (cs ! i))"
  by (induction n) (auto simp: less_Suc_eq)

lemma test_search_all:
  "test_search values (Some t) \<longleftrightarrow>
     (\<forall>i < sch_count t. \<not> sch_fails (sch_boolop t) (sch_masked (sch_logic t) (values ! i) (sch_mask t ! i)) (sch_comp t ! i))"
  by (simp add: test_search_def sch_loop_all)

subsection \<open>Bounds of what the parsers accept\<close>

lemma get_uint_max: "get_uint cptr radix m = (v, SCPE_OK) \<Longrightarrow> v \<le> m"
  by (auto simp: get_uint_def Let_def split: prod.splits if_splits)

lemma get_uint_digits:
  assumes "list_all (\<lambda>d. d < radix) ds" "2 \<le> radix" "radix \<le> 36" "ds \<noteq> []" "horner radix 0 ds \<le> m"
  shows "get_uint (map digit_char ds) radix m = (horner radix 0 ds, SCPE_OK)"
  using assms by (simp add: get_uint_def strtotv_digits skip_space_def sim_toupper_def Let_def)

lemma get_uint_wraps:
  "get_uint ''18446744073709551615K'' 10 (- 1) = (- 1000, SCPE_OK)"
  by code_simp

lemma strtotv_rest_set: "set (snd (strtotv s radix)) \<subseteq> set s"
proof -
  have loop: "strtotv_loop r v n t = Some (v', n', rest) \<Longrightarrow> set rest \<subseteq> set t" for r v n t v' n' rest
    by (induction r v n t rule: strtotv_loop.induct) (auto split: if_splits option.splits)
  have "set (snd (radix_prefix radix t)) \<subseteq> set t" for t
    by (auto simp: radix_prefix_def Let_def dest: in_set_dropD)
  moreover have "set (skip_space s) \<subseteq> set s" by (auto simp: skip_space_def dest: set_dropWhileD)
  ultimately have pre: "set (snd (radix_prefix radix (skip_space s))) \<subseteq> set s" by blast
  obtain r t where rt: "radix_prefix radix (skip_space s) = (r, t)" by fastforce
  show ?thesis
  proof (cases "strtotv_loop r 0 True t")
    case (Some res)
    obtain v n rest where res: "res = (v, n, rest)" by (cases res) auto
    have "set rest \<subseteq> set s" using loop [OF Some [unfolded res]] pre rt by auto
    with Some show ?thesis by (simp add: strtotv_def rt res)
  qed (simp add: strtotv_def rt)
qed

lemma deref_in_set: "deref s \<noteq> NUL \<Longrightarrow> deref s \<in> set s"
  by (cases s) simp_all

lemma get_range_last: "get_range p cptr rdx m term' st = (Some (lo, hi, rest), st') \<Longrightarrow> sim_last_addr st' = hi"
  by (auto simp: get_range_def Let_def split: option.splits if_splits)

lemma get_range_ordered:
  assumes "get_range None cptr rdx m term' st = (Some (lo, hi, rest), st')" "CHR ''/'' \<notin> set cptr"
  shows "lo \<le> hi"
proof (cases "m \<noteq> 0 \<and> take 3 cptr = ''ALL''")
  case True
  with assms(1) show ?thesis by (auto simp: get_range_def Let_def split: if_splits)
next
  case False
  with assms(1) obtain t t' where lo: "range_low None rdx cptr st = Some (lo, t)"
    and hi: "range_high None rdx lo t = Some (hi, t')"
    by (auto simp: get_range_def Let_def split: option.splits if_splits)
  have "set t \<subseteq> set cptr"
  proof -
    have "set (tl cptr) \<subseteq> set cptr" by (cases cptr) auto
    with lo strtotv_rest_set [of cptr rdx] show ?thesis
      by (auto simp: range_low_def range_addr_def Let_def split: if_splits prod.splits)
  qed
  with assms(2) have "deref t \<noteq> CHR ''/''" using deref_in_set [of t] by auto
  with hi show ?thesis by (auto simp: range_high_def Let_def split: if_splits prod.splits)
qed

lemma get_range_wraps:
  "fst (get_range None ''FFFFFFFF/2'' 16 0 NUL \<lparr>sim_last_addr = 0, sim_last_val = 0\<rparr>) = Some (0xFFFFFFFF, 0, [])"
  by code_simp

subsection \<open>Properties\<close>

text \<open>
  C29. Round trip: for every radix from 2 to 36, what \<^verbatim>\<open>sprint_val\<close> prints left-justified for a
  64-bit value is read back by \<^verbatim>\<open>strtotv\<close> as that value, with no text left.
\<close>

theorem value_round_trip:
  fixes val :: t_value
  assumes "2 \<le> radix" "radix \<le> 36" "64 \<le> width"
  shows "\<exists>s. sprint_val fuel val (of_nat radix) width PV_LEFT = Some (SCPE_OK, s) \<and> strtotv s radix = (val, [])"
  using assms by (rule print_parse_value)

theorem value_round_trip_witness:
  "\<exists>s. sprint_val 0 0xFFFFFFFFFFFFFFFF 36 80 PV_LEFT = Some (SCPE_OK, s) \<and> strtotv s 36 = (0xFFFFFFFFFFFFFFFF, [])"
  using value_round_trip [of 36 80 0 "0xFFFFFFFFFFFFFFFF"] by simp

text \<open>
  \<^verbatim>\<open>get_uint\<close> accepts a plain digit string exactly for its value when that is within the
  limit, and never returns success with a value above the limit.
\<close>

lemma get_uint_limits:
  "(get_uint cptr radix m = (v, SCPE_OK) \<longrightarrow> v \<le> m) \<and>
   (list_all (\<lambda>d. d < radix) ds \<and> 2 \<le> radix \<and> radix \<le> 36 \<and> ds \<noteq> [] \<and> horner radix 0 ds \<le> m \<longrightarrow>
    get_uint (map digit_char ds) radix m = (horner radix 0 ds, SCPE_OK))"
  using get_uint_max [of cptr radix m v] get_uint_digits [of radix ds m] by blast

text \<open>
  A range \<^verbatim>\<open>get_range\<close> accepts is ordered and its high end becomes the last address, unless
  it was given in the relative form with a slash.
\<close>

lemma range_ordered:
  assumes "get_range None cptr rdx m term' st = (Some (lo, hi, rest), st')" "CHR ''/'' \<notin> set cptr"
  shows "lo \<le> hi \<and> sim_last_addr st' = hi"
  using get_range_ordered [OF assms] get_range_last [OF assms(1)] by simp

end
