(* ===== verification/Expr.thy ===== *)
theory Expr
  imports Numbers "HOL-Library.Signed_Division"
begin

text \<open>
  The expression parser and evaluator of \<^verbatim>\<open>src/src/core/scp_expr.c\<close> with the string
  comparisons it calls (\<^verbatim>\<open>sim_strwhitecasecmp\<close> of \<^verbatim>\<open>src/src/runtime/sim_fio.c\<close> and
  \<^verbatim>\<open>src/src/compat/strcasecmp.c\<close>).  A stack is the list of its elements, the top first;
  an element without operator is an operand.  A \<^verbatim>\<open>t_svalue\<close> is an integer in the 64-bit
  range, and the arithmetic the C standard leaves undefined is a fault.  The register and
  environment lookups are the parameters of the evaluator.
\<close>

unbundle bit_operations_syntax

subsection \<open>Comparing strings\<close>

definition uchar :: "char \<Rightarrow> int" where
  "uchar c = of_char c"

text \<open>The standard library's \<^verbatim>\<open>strcmp\<close>, by its sign.\<close>

fun list_cmp :: "int list \<Rightarrow> int list \<Rightarrow> int" where
  "list_cmp [] [] = 0"
| "list_cmp [] (y # ys) = -1"
| "list_cmp (x # xs) [] = 1"
| "list_cmp (x # xs) (y # ys) = (if x = y then list_cmp xs ys else if x < y then -1 else 1)"

definition strcmp :: "string \<Rightarrow> string \<Rightarrow> int" where
  "strcmp l r = list_cmp (map uchar l) (map uchar r)"

fun strcasecmp :: "string \<Rightarrow> string \<Rightarrow> int" where
  "strcasecmp (l # ls) (r # rs) =
     (if l = r \<or> sim_tolower (uchar l) = sim_tolower (uchar r) then strcasecmp ls rs
      else sim_tolower (uchar l) - sim_tolower (uchar r))"
| "strcasecmp ls rs = sim_tolower (uchar (deref ls)) - sim_tolower (uchar (deref rs))"

text \<open>
  The next character of a side of \<^verbatim>\<open>sim_strwhitecasecmp\<close>; \<open>sp\<close> says that the last one was
  a space, after which all whitespace is passed over.
\<close>

fun white_read :: "bool \<Rightarrow> bool \<Rightarrow> string \<Rightarrow> int \<times> string" where
  "white_read casecmp sp [] = (0, [])"
| "white_read casecmp sp (c # s) =
     (if sim_isspace (uchar c) then (if sp then white_read casecmp sp s else (32, s))
      else (if casecmp then sim_toupper (uchar c) else uchar c, s))"

lemma white_read_shorter: "white_read cc sp s = (x, s') \<Longrightarrow> x \<noteq> 0 \<Longrightarrow> length s' < length s"
  by (induction cc sp s rule: white_read.induct) (auto split: if_splits)

function white_loop :: "bool \<Rightarrow> bool \<Rightarrow> string \<Rightarrow> string \<Rightarrow> int" where
  "white_loop casecmp sp string1 string2 =
     (let (s1, r1) = white_read casecmp sp string1; (s2, r2) = white_read casecmp sp string2
      in if s1 = s2 then (if s1 = 0 then 0 else white_loop casecmp (s1 = 32) r1 r2)
         else if s1 < s2 then -1 else 1)"
  by pat_completeness auto
termination
  by (relation "measure (\<lambda>(cc, sp, a, b). length a)") (simp_all, metis white_read_shorter)

declare white_loop.simps [simp del]

definition sim_strwhitecasecmp :: "string \<Rightarrow> string \<Rightarrow> bool \<Rightarrow> int" where
  "sim_strwhitecasecmp string1 string2 casecmp = white_loop casecmp False string1 string2"

definition i_strcmp :: "u32 \<Rightarrow> string \<Rightarrow> string \<Rightarrow> int" where
  "i_strcmp sw s1 s2 =
     (if sw AND SWMASK CHR ''W'' \<noteq> 0
      then sim_strwhitecasecmp s1 s2 (sw AND SWMASK CHR ''I'' \<noteq> 0)
      else if sw AND SWMASK CHR ''I'' \<noteq> 0 then strcasecmp s2 s1 else strcmp s2 s1)"

subsection \<open>The operator table\<close>

datatype Operator =
    Op_open | Op_close | Op_add | Op_sub | Op_mult | Op_div | Op_mod | Op_log_and | Op_log_or
  | Op_bit_and | Op_bit_rsh | Op_bit_lsh | Op_bit_or | Op_bit_xor | Op_eq | Op_ne | Op_le | Op_lt
  | Op_ge | Op_gt | Op_log_not | Op_comp

definition operators :: "Operator list" where
  "operators = [Op_open, Op_close, Op_add, Op_sub, Op_mult, Op_div, Op_mod, Op_log_and, Op_log_or,
     Op_bit_and, Op_bit_rsh, Op_bit_lsh, Op_bit_or, Op_bit_xor, Op_eq, Op_ne, Op_le, Op_lt,
     Op_ge, Op_gt, Op_log_not, Op_comp]"

primrec op_string :: "Operator \<Rightarrow> string" where
  "op_string Op_open = ''(''"
| "op_string Op_close = '')''"
| "op_string Op_add = ''+''"
| "op_string Op_sub = ''-''"
| "op_string Op_mult = ''*''"
| "op_string Op_div = ''/''"
| "op_string Op_mod = ''%''"
| "op_string Op_log_and = ''&&''"
| "op_string Op_log_or = ''||''"
| "op_string Op_bit_and = ''&''"
| "op_string Op_bit_rsh = ''>>''"
| "op_string Op_bit_lsh = ''<<''"
| "op_string Op_bit_or = ''|''"
| "op_string Op_bit_xor = ''^''"
| "op_string Op_eq = ''==''"
| "op_string Op_ne = ''!=''"
| "op_string Op_le = ''<=''"
| "op_string Op_lt = ''<''"
| "op_string Op_ge = ''>=''"
| "op_string Op_gt = ''>''"
| "op_string Op_log_not = ''!''"
| "op_string Op_comp = ''~''"

primrec op_precedence :: "Operator \<Rightarrow> nat" where
  "op_precedence Op_open = 99"
| "op_precedence Op_close = 99"
| "op_precedence Op_add = 4"
| "op_precedence Op_sub = 4"
| "op_precedence Op_mult = 3"
| "op_precedence Op_div = 3"
| "op_precedence Op_mod = 3"
| "op_precedence Op_log_and = 11"
| "op_precedence Op_log_or = 12"
| "op_precedence Op_bit_and = 8"
| "op_precedence Op_bit_rsh = 5"
| "op_precedence Op_bit_lsh = 5"
| "op_precedence Op_bit_or = 10"
| "op_precedence Op_bit_xor = 9"
| "op_precedence Op_eq = 7"
| "op_precedence Op_ne = 7"
| "op_precedence Op_le = 6"
| "op_precedence Op_lt = 6"
| "op_precedence Op_ge = 6"
| "op_precedence Op_gt = 6"
| "op_precedence Op_log_not = 2"
| "op_precedence Op_comp = 2"

definition op_unary :: "Operator \<Rightarrow> bool" where
  "op_unary op \<longleftrightarrow> op = Op_log_not \<or> op = Op_comp"

text \<open>A result that has to fit a \<^verbatim>\<open>t_svalue\<close>.\<close>

definition svalue :: "int \<Rightarrow> num_fault + int" where
  "svalue v = (if - (2 ^ 63) \<le> v \<and> v < 2 ^ 63 then Inr v else Inl Signed_Overflow)"

definition op_div :: "int \<Rightarrow> int \<Rightarrow> num_fault + int" where
  "op_div divisor dividend = (if divisor \<noteq> 0 then svalue (dividend sdiv divisor) else Inr (2 ^ 63 - 1))"

text \<open>The remainder of a division whose quotient overflows is undefined as well.\<close>

definition op_mod :: "int \<Rightarrow> int \<Rightarrow> num_fault + int" where
  "op_mod divisor dividend =
     (if divisor \<noteq> 0
      then (case svalue (dividend sdiv divisor) of Inl f \<Rightarrow> Inl f | Inr q \<Rightarrow> Inr (dividend smod divisor))
      else Inr 0)"

definition op_bit_rsh :: "int \<Rightarrow> int \<Rightarrow> num_fault + int" where
  "op_bit_rsh shift dat = (if 0 \<le> shift \<and> shift < 64 then Inr (drop_bit (nat shift) dat) else Inl Bad_Shift)"

definition op_bit_lsh :: "int \<Rightarrow> int \<Rightarrow> num_fault + int" where
  "op_bit_lsh shift dat =
     (if 0 \<le> shift \<and> shift < 64
      then (if dat < 0 then Inl Signed_Overflow else svalue (push_bit (nat shift) dat))
      else Inl Bad_Shift)"

text \<open>The functions of the table; the first argument is the operand popped first.\<close>

primrec op_function :: "Operator \<Rightarrow> (int \<Rightarrow> int \<Rightarrow> num_fault + int) option" where
  "op_function Op_open = None"
| "op_function Op_close = None"
| "op_function Op_add = Some (\<lambda>augend addend. svalue (augend + addend))"
| "op_function Op_sub = Some (\<lambda>subtrahend minuend. svalue (minuend - subtrahend))"
| "op_function Op_mult = Some (\<lambda>factorx factory. svalue (factorx * factory))"
| "op_function Op_div = Some op_div"
| "op_function Op_mod = Some op_mod"
| "op_function Op_log_and = Some (\<lambda>data1 data2. Inr (of_bool (data2 \<noteq> 0 \<and> data1 \<noteq> 0)))"
| "op_function Op_log_or = Some (\<lambda>data1 data2. Inr (of_bool (data2 \<noteq> 0 \<or> data1 \<noteq> 0)))"
| "op_function Op_bit_and = Some (\<lambda>data1 data2. Inr (data2 AND data1))"
| "op_function Op_bit_rsh = Some op_bit_rsh"
| "op_function Op_bit_lsh = Some op_bit_lsh"
| "op_function Op_bit_or = Some (\<lambda>data1 data2. Inr (data2 OR data1))"
| "op_function Op_bit_xor = Some (\<lambda>data1 data2. Inr (data2 XOR data1))"
| "op_function Op_eq = Some (\<lambda>data1 data2. Inr (of_bool (data2 = data1)))"
| "op_function Op_ne = Some (\<lambda>data1 data2. Inr (of_bool (data2 \<noteq> data1)))"
| "op_function Op_le = Some (\<lambda>data1 data2. Inr (of_bool (data2 \<le> data1)))"
| "op_function Op_lt = Some (\<lambda>data1 data2. Inr (of_bool (data2 < data1)))"
| "op_function Op_ge = Some (\<lambda>data1 data2. Inr (of_bool (data2 \<ge> data1)))"
| "op_function Op_gt = Some (\<lambda>data1 data2. Inr (of_bool (data2 > data1)))"
| "op_function Op_log_not = Some (\<lambda>dat unused. Inr (of_bool (dat = 0)))"
| "op_function Op_comp = Some (\<lambda>dat unused. Inr (NOT dat))"

definition op_string_function :: "Operator \<Rightarrow> (u32 \<Rightarrow> string \<Rightarrow> string \<Rightarrow> int) option" where
  "op_string_function op =
     (if op = Op_eq then Some (\<lambda>sw str1 str2. of_bool (0 = i_strcmp sw str2 str1))
      else if op = Op_ne then Some (\<lambda>sw str1 str2. of_bool (0 \<noteq> i_strcmp sw str2 str1))
      else if op = Op_le then Some (\<lambda>sw str1 str2. of_bool (0 \<le> i_strcmp sw str2 str1))
      else if op = Op_lt then Some (\<lambda>sw str1 str2. of_bool (0 < i_strcmp sw str2 str1))
      else if op = Op_ge then Some (\<lambda>sw str1 str2. of_bool (0 \<ge> i_strcmp sw str2 str1))
      else if op = Op_gt then Some (\<lambda>sw str1 str2. of_bool (0 > i_strcmp sw str2 str1))
      else None)"

subsection \<open>Tokens\<close>

text \<open>A number with digit grouping: a comma at every fourth place from the end and nowhere else.\<close>

definition grouping_ok :: "string \<Rightarrow> bool" where
  "grouping_ok num =
     (let commas = length (filter (\<lambda>c. c = CHR '','') num); digits = length num - commas
      in (commas > 0 \<longrightarrow> commas = (digits - 1) div 3) \<and>
         (\<forall>k \<in> set [1..<commas + 1]. num ! (length num - 4 * k) = CHR '',''))"

definition is_decimal :: "char \<Rightarrow> bool" where
  "is_decimal c \<longleftrightarrow> sim_isdigit (cint c)"

definition glyph_number :: "string \<Rightarrow> (string \<times> string) option" where
  "glyph_number cptr =
     (if take 2 cptr = ''0x'' \<or> take 2 cptr = ''0X''
      then let d = takeWhile (\<lambda>c. c \<in> set ''0123456789abcdefABCDEF'') (drop 2 cptr)
           in Some (take 2 cptr @ d, drop (2 + length d) cptr)
      else if take 2 cptr = ''0b'' \<or> take 2 cptr = ''0B''
      then let d = takeWhile (\<lambda>c. c \<in> set ''01'') (drop 2 cptr)
           in Some (take 2 cptr @ d, drop (2 + length d) cptr)
      else if deref cptr = CHR ''0''
      then let d = takeWhile (\<lambda>c. c \<in> set ''01234567'') cptr in Some (d, drop (length d) cptr)
      else let num = takeWhile (\<lambda>c. is_decimal c \<or> c = CHR '','') cptr
           in if grouping_ok num then Some (filter (\<lambda>c. c \<noteq> CHR '','') num, drop (length num) cptr)
              else None)"

definition find_operator :: "string \<Rightarrow> Operator option" where
  "find_operator cptr = List.find (\<lambda>op. take (length (op_string op)) cptr = op_string op) operators"

text \<open>
  The token, its operator if it is one, the status and the text behind; \<open>icase\<close> is the switch
  \<^verbatim>\<open>-I\<close>.
\<close>

definition get_glyph_exp :: "bool \<Rightarrow> string \<Rightarrow> string \<times> Operator option \<times> t_stat \<times> string" where
  "get_glyph_exp icase iptr =
     (let cptr = skip_space iptr; c = deref cptr in
      if sim_isalpha (cint c) \<or> c = CHR ''_''
      then let w = takeWhile (\<lambda>c. sim_isalnum (cint c) \<or> c = CHR ''.'' \<or> c = CHR ''_'') cptr
           in (w, None, SCPE_OK, skip_space (drop (length w) cptr))
      else if is_decimal c
      then (case glyph_number cptr of
              None \<Rightarrow> ([], None, SCPE_INVEXPR, cptr)
            | Some (num, r) \<Rightarrow>
                if sim_isalpha (cint (deref r)) then (num, None, SCPE_INVEXPR, r)
                else (num, None, SCPE_OK, skip_space r))
      else if (c = CHR ''-'' \<or> c = CHR ''+'') \<and> is_decimal (deref (tl cptr))
      then let d = takeWhile is_decimal (tl cptr); r = drop (length d) (tl cptr)
           in if sim_isalpha (cint (deref r)) then (c # d, None, SCPE_INVEXPR, r)
              else (c # d, None, SCPE_OK, skip_space r)
      else if c = CHR 0x22 \<or> c = CHR 0x27
      then let (g, r) = get_glyph_gen cptr NUL icase True CHR 0x5C in (g, None, SCPE_OK, skip_space r)
      else case find_operator cptr of
             None \<Rightarrow> ([], None, SCPE_INVEXPR, cptr)
           | Some op \<Rightarrow> (op_string op, Some op, SCPE_OK, skip_space (drop (length (op_string op)) cptr)))"

subsection \<open>From infix to postfix\<close>

text \<open>
  A stack of operators, or of operands and operators.  An element keeps at most 71 characters
  of its text.
\<close>

type_synonym 'o Stack = "('o \<times> string) list"

definition push_Stack :: "'o Stack \<Rightarrow> string \<Rightarrow> 'o \<Rightarrow> 'o Stack" where
  "push_Stack st dat op = (op, take 71 dat) # st"

fun pop_operators :: "Operator \<Rightarrow> Operator option Stack \<Rightarrow> Operator Stack \<Rightarrow> Operator option Stack \<times> Operator Stack" where
  "pop_operators op stack1 [] = (stack1, [])"
| "pop_operators op stack1 ((top_op, top_buf) # stack2) =
     (if op_precedence top_op > op_precedence op then (stack1, (top_op, top_buf) # stack2)
      else pop_operators op (push_Stack stack1 top_buf (Some top_op)) stack2)"

text \<open>The closing parenthesis, with the element popped last.\<close>

fun close_paren :: "Operator \<times> string \<Rightarrow> Operator option Stack \<Rightarrow> Operator Stack \<Rightarrow> Operator option Stack \<times> Operator Stack" where
  "close_paren temp stack1 [] =
     (if fst temp = Op_open then (stack1, []) else (push_Stack stack1 (snd temp) (Some (fst temp)), []))"
| "close_paren temp stack1 (e # stack2) =
     (if fst temp = Op_open then (stack1, e # stack2)
      else close_paren e (push_Stack stack1 (snd temp) (Some (fst temp))) stack2)"

fun flush_Stack :: "Operator option Stack \<Rightarrow> Operator Stack \<Rightarrow> Operator option Stack" where
  "flush_Stack stack1 [] = stack1"
| "flush_Stack stack1 ((op, buf) # stack2) = flush_Stack (push_Stack stack1 buf (Some op)) stack2"

text \<open>A signed number directly behind an operand is the operator of its sign.\<close>

definition sign_operator ::
  "Operator option \<Rightarrow> string \<Rightarrow> string \<times> Operator option \<times> string \<Rightarrow> string \<times> Operator option \<times> string" where
  "sign_operator last_op last_cptr g =
     (case g of (gbuf, op, cptr) \<Rightarrow>
        if last_op = None \<and> op = None \<and> (deref gbuf = CHR ''-'' \<or> deref gbuf = CHR ''+'')
        then (CHR ''0'' # tl gbuf, List.find (\<lambda>op. deref (op_string op) = deref gbuf) operators, tl last_cptr)
        else (gbuf, op, cptr))"

abbreviation (input) INVALID_NESTING :: t_stat where "INVALID_NESTING \<equiv> 0x4000006F"

lemma find_operator_string: "find_operator s = Some op \<Longrightarrow> op_string op \<noteq> [] \<and> s \<noteq> []"
  by (cases op; cases s) (auto simp: find_operator_def find_Some_iff)

lemma glyph_number_progress: "is_decimal (deref s) \<Longrightarrow> glyph_number s = Some (g, r) \<Longrightarrow> length r < length s"
proof -
  assume d: "is_decimal (deref s)" and g: "glyph_number s = Some (g, r)"
  have "\<not> is_decimal NUL" by (simp add: is_decimal_def sim_isdigit_def)
  with d obtain c t where s: "s = c # t" by (cases s) auto
  with d have "c = CHR ''0'' \<or> length (takeWhile (\<lambda>c. is_decimal c \<or> c = CHR '','') s) > 0" by simp
  with g s show ?thesis by (auto simp: glyph_number_def Let_def split: if_splits)
qed

lemma get_glyph_quoted_progress:
  assumes "c = CHR 0x22 \<or> c = CHR 0x27"
  shows "length (snd (get_glyph_gen (c # s) NUL icase True CHR 0x5C)) \<le> length s"
proof -
  have "\<not> sim_isspace (cint c)" "c \<noteq> NUL" using assms by (auto simp: cint_def ctype_defs)
  from glyph_loop_progress [OF this]
  have "length (snd (glyph_loop NUL icase True CHR 0x5C False False NUL (c # s))) \<le> length s" .
  moreover have "snd (get_glyph_gen (c # s) NUL icase True CHR 0x5C) =
      skip_space (snd (glyph_loop NUL icase True CHR 0x5C False False NUL (c # s)))"
    by (simp add: get_glyph_gen_def case_prod_beta del: glyph_loop.simps)
  ultimately show ?thesis by (simp only:) (rule le_trans [OF skip_space_length])
qed

lemma get_glyph_exp_progress:
  assumes "get_glyph_exp icase s = (g, op, SCPE_OK, r)"
  shows "length r < length s"
proof -
  have nul: "\<not> sim_isalpha (cint NUL)" "\<not> is_decimal NUL" by (simp_all add: is_decimal_def ctype_defs)
  have sk: "length (skip_space u) < n" if "length u < n" for u n
    using skip_space_length [of u] that by simp
  obtain c t where ct: "skip_space s = c # t"
    using assms nul find_operator_string [of "[]"]
    by (cases "skip_space s") (auto simp: get_glyph_exp_def Let_def split: option.splits)
  have "length r < length (c # t)"
  proof -
    consider "sim_isalpha (cint c) \<or> c = CHR ''_''" | "is_decimal c" "\<not> (sim_isalpha (cint c) \<or> c = CHR ''_'')"
      | "\<not> (sim_isalpha (cint c) \<or> c = CHR ''_'')" "\<not> is_decimal c" "c = CHR 0x22 \<or> c = CHR 0x27"
      | "\<not> (sim_isalpha (cint c) \<or> c = CHR ''_'')" "\<not> is_decimal c" "\<not> (c = CHR 0x22 \<or> c = CHR 0x27)"
      by blast
    then show ?thesis
    proof cases
      case 1
      then have al: "sim_isalnum (cint c) \<or> c = CHR ''.'' \<or> c = CHR ''_''" by (auto simp: ctype_defs)
      with 1 assms show ?thesis by (auto simp: get_glyph_exp_def ct Let_def intro!: sk)
    next
      case 2
      with assms glyph_number_progress [of "c # t"] show ?thesis
        by (fastforce simp: get_glyph_exp_def ct Let_def intro!: sk split: option.splits if_splits)
    next
      case 3
      with assms get_glyph_quoted_progress [OF 3(3), of t icase] show ?thesis
        by (auto simp: get_glyph_exp_def ct Let_def intro!: sk split: prod.splits)
    next
      case 4
      with assms find_operator_string [of "c # t"] show ?thesis
        by (auto simp: get_glyph_exp_def ct Let_def intro!: sk split: option.splits if_splits)
    qed
  qed
  also have "length (c # t) \<le> length s" using skip_space_length [of s] ct by simp
  finally show ?thesis .
qed

lemma sign_operator_progress:
  assumes "get_glyph_exp icase s = (g, op, SCPE_OK, r)" "sign_operator lst s (g, op, r) = (g', op', r')"
  shows "length r' < length s"
  using get_glyph_exp_progress [OF assms(1)] assms(2)
  by (cases s) (auto simp: sign_operator_def split: if_splits)

function into_postfix_loop ::
  "bool \<Rightarrow> bool \<Rightarrow> string \<Rightarrow> Operator option \<Rightarrow> int \<Rightarrow> Operator option Stack \<Rightarrow> Operator Stack \<Rightarrow>
   t_stat \<times> string \<times> Operator option Stack" where
  "into_postfix_loop icase parens_required cptr last_op parens stack1 stack2 =
     (if cptr = [] then (if parens \<noteq> 0 then INVALID_NESTING else SCPE_OK, [], flush_Stack stack1 stack2)
      else case get_glyph_exp icase cptr of (gbuf0, op0, stat, r0) \<Rightarrow>
        if stat \<noteq> SCPE_OK then (stat, r0, stack1)
        else case sign_operator last_op cptr (gbuf0, op0, r0) of (gbuf, op, r) \<Rightarrow>
          case op of
            None \<Rightarrow> into_postfix_loop icase parens_required r op parens (push_Stack stack1 gbuf None) stack2
          | Some o' \<Rightarrow>
              if o' = Op_open
              then into_postfix_loop icase parens_required r op (parens + 1) stack1 (push_Stack stack2 gbuf o')
              else if o' = Op_close
              then (case stack2 of
                      [] \<Rightarrow> (INVALID_NESTING, r, stack1)
                    | temp # stack2' \<Rightarrow>
                        if parens - 1 < 0 then (INVALID_NESTING, r, stack1)
                        else case close_paren temp stack1 stack2' of (s1, s2) \<Rightarrow>
                          if parens_required \<and> parens - 1 = 0 then (SCPE_OK, r, s1)
                          else into_postfix_loop icase parens_required r op (parens - 1) s1 s2)
              else case pop_operators o' stack1 stack2 of (s1, s2) \<Rightarrow>
                     into_postfix_loop icase parens_required r op parens s1 (push_Stack s2 gbuf o'))"
  by pat_completeness auto

termination
  by (relation "measure (\<lambda>(icase, pr, cptr, lst, parens, s1, s2). length cptr)")
    (simp_all, (metis sign_operator_progress)+)

declare into_postfix_loop.simps [simp del]

definition sim_into_postfix :: "bool \<Rightarrow> string \<Rightarrow> bool \<Rightarrow> t_stat \<times> string \<times> Operator option Stack" where
  "sim_into_postfix icase cptr0 parens_required =
     (let cptr = skip_space cptr0 in
      if parens_required \<and> deref cptr \<noteq> CHR ''('' then (SCPE_INVEXPR, cptr, [])
      else into_postfix_loop icase parens_required cptr None 0 [] [])"

subsection \<open>Evaluation\<close>

text \<open>
  What the evaluator looks up: the devices by name, the value of a register of a device and of
  a register searched in all devices, the environment with the special variables, and the
  substitution of the command's arguments.
\<close>

record 'd expr_env =
  find_dev :: "string \<Rightarrow> 'd option"
  find_reg :: "string \<Rightarrow> 'd \<Rightarrow> int option"
  find_reg_glob :: "string \<Rightarrow> int option"
  sim_get_env_special :: "string \<Rightarrow> string option"
  sim_sub_args :: "string \<Rightarrow> string"
  exp_switches :: u32

abbreviation (input) CBUFSIZE :: nat where "CBUFSIZE \<equiv> 4224"

definition print_svalue :: "int \<Rightarrow> string" where
  "print_svalue v =
     (case sprint_val 0 (of_int v) 10 (CBUFSIZE + 1) PV_LEFTSIGN of Some (st, s) \<Rightarrow> s | None \<Rightarrow> [])"

definition register_value :: "'d expr_env \<Rightarrow> string \<Rightarrow> int option \<times> string" where
  "register_value env dat =
     (if CHR ''.'' \<in> set dat
      then let devnam = takeWhile (\<lambda>c. c \<noteq> CHR ''.'') dat; rest = drop (length devnam + 1) dat
           in case find_dev env devnam of
                None \<Rightarrow> (None, dat)
              | Some dptr \<Rightarrow> (find_reg env rest dptr, rest)
      else case find_reg_glob env dat of
             Some v \<Rightarrow> (Some v, dat)
           | None \<Rightarrow> (let tbuf = fst (get_glyph dat NUL)
                      in (if dat \<noteq> tbuf then find_reg_glob env tbuf else None, dat)))"

text \<open>The text of a value that is not a name: a quoted string or a number.\<close>

definition literal_value :: "'d expr_env \<Rightarrow> string \<Rightarrow> num_fault + (bool \<times> int \<times> string)" where
  "literal_value env dat =
     (let n = length dat;
          str1 = (if deref dat = CHR 0x27 \<and> n > 1 \<and> last dat = CHR 0x27
                  then CHR 0x22 # take (n - 2) (tl dat) @ [CHR 0x22] else []);
          str2 = (if deref dat = CHR 0x22 \<and> n > 1 \<and> last dat = CHR 0x22 then dat else str1);
          txt = (if str2 = [] then dat else sim_sub_args env str2)
      in case strtotsv txt 0 of
           Inl f \<Rightarrow> Inl f
         | Inr (v, rest) \<Rightarrow> Inr (rest = [] \<and> txt \<noteq> [], v, txt))"

definition value_of :: "'d expr_env \<Rightarrow> string \<Rightarrow> num_fault + (bool \<times> int \<times> string)" where
  "value_of env dat =
     (if sim_isalpha (cint (deref dat)) \<or> deref dat = CHR ''_''
      then case register_value env dat of
             (Some v, _) \<Rightarrow> Inr (True, v, print_svalue v)
           | (None, dat') \<Rightarrow>
               (case sim_get_env_special env dat' of
                  Some g \<Rightarrow>
                    (case strtotsv g 0 of
                       Inl f \<Rightarrow> Inl f
                     | Inr (v, rest) \<Rightarrow> Inr (rest = [] \<and> print_svalue v \<noteq> [], v, print_svalue v))
                | None \<Rightarrow> literal_value env [])
      else literal_value env dat)"

definition apply_operator :: "'d expr_env \<Rightarrow> Operator \<Rightarrow> string \<Rightarrow> string \<Rightarrow> num_fault + int" where
  "apply_operator env op item1 item2 =
     (case value_of env item1 of
        Inl f \<Rightarrow> Inl f
      | Inr (num1, val1, string1) \<Rightarrow>
          (case value_of env item2 of
             Inl f \<Rightarrow> Inl f
           | Inr (num2, val2, string2) \<Rightarrow>
               (case (if \<not> (num1 \<and> num2) then op_string_function op else None) of
                  Some h \<Rightarrow> Inr (h (exp_switches env) string1 string2)
                | None \<Rightarrow> (case op_function op of None \<Rightarrow> Inl Null_Call | Some f \<Rightarrow> f val1 val2))))"

text \<open>The operand below the first: absent for a unary operator and for a sign.\<close>

definition second_operand :: "Operator \<Rightarrow> string list \<Rightarrow> (string \<times> string list) option" where
  "second_operand op rest1 =
     (if op_unary op then Some (''0'', rest1)
      else case rest1 of
             item2 # rest2 \<Rightarrow> Some (item2, rest2)
           | [] \<Rightarrow> if op = Op_sub \<or> op = Op_add then Some ([], []) else None)"

text \<open>
  The second loop of \<^verbatim>\<open>sim_eval_postfix\<close>: \<open>stack2\<close> is the expression in order, \<open>stack1\<close>
  the operands.  The result is the operand left on top, or \<^const>\<open>None\<close> for
  \<^verbatim>\<open>SCPE_INVEXPR\<close>.
\<close>

fun eval_loop :: "'d expr_env \<Rightarrow> Operator option Stack \<Rightarrow> string list \<Rightarrow> num_fault + string list option" where
  "eval_loop env [] stack1 = Inr (Some stack1)"
| "eval_loop env ((None, dat) # stack2) stack1 = eval_loop env stack2 (take 71 dat # stack1)"
| "eval_loop env ((Some op, dat) # stack2) stack1 =
     (case stack1 of
        [] \<Rightarrow> Inr None
      | item1 # rest1 \<Rightarrow>
          (case second_operand op rest1 of
             None \<Rightarrow> Inr None
           | Some (item2, rest2) \<Rightarrow>
               (case apply_operator env op item1 item2 of
                  Inl f \<Rightarrow> Inl f
                | Inr v \<Rightarrow> eval_loop env stack2 (take 71 (print_svalue v) # rest2))))"

definition sim_eval_postfix :: "'d expr_env \<Rightarrow> Operator option Stack \<Rightarrow> num_fault + (int \<times> t_stat)" where
  "sim_eval_postfix env stack1 =
     (case eval_loop env (rev stack1) [] of
        Inl f \<Rightarrow> Inl f
      | Inr None \<Rightarrow> Inr (0, SCPE_INVEXPR)
      | Inr (Some []) \<Rightarrow> Inr (0, SCPE_INVEXPR)
      | Inr (Some (temp_data # rest)) \<Rightarrow>
          (case value_of env temp_data of
             Inl f \<Rightarrow> Inl f
           | Inr (num, v, txt) \<Rightarrow> Inr (if num then v else of_bool (length txt > 2), SCPE_OK)))"

abbreviation (input) ARG_SHOWN :: t_stat where "ARG_SHOWN \<equiv> 0x40000048"

definition sim_eval_expression :: "'d expr_env \<Rightarrow> string \<Rightarrow> bool \<Rightarrow> num_fault + (int \<times> t_stat \<times> string)" where
  "sim_eval_expression env cptr parens_required =
     (case sim_into_postfix (exp_switches env AND SWMASK CHR ''I'' \<noteq> 0) cptr parens_required of
        (stat, rest, postfix) \<Rightarrow>
          if stat \<noteq> SCPE_OK then Inr (0, ARG_SHOWN, rest)
          else case sim_eval_postfix env postfix of
                 Inl f \<Rightarrow> Inl f
               | Inr (v, stat') \<Rightarrow> Inr (v, stat', rest))"

end
