(* ===== verification/ExprSemantics.thy ===== *)
theory ExprSemantics
  imports Expr
begin

text \<open>
  What the expression evaluator computes: no parenthesis reaches the evaluation, numbers printed
  as operands are read back, and an expression in infix form evaluates to the value its tree has
  under the operator table's precedences; the whitespace-insensitive comparison decides equality
  of the collapsed strings.  The last section shows where the evaluator departs from arithmetic.
\<close>

unbundle bit_operations_syntax

subsection \<open>No parenthesis reaches the evaluator\<close>

definition no_parens :: "Operator option Stack \<Rightarrow> bool" where
  "no_parens st \<longleftrightarrow> list_all (\<lambda>e. fst e \<noteq> Some Op_open \<and> fst e \<noteq> Some Op_close) st"

definition opens :: "Operator Stack \<Rightarrow> int" where
  "opens st = int (length (filter (\<lambda>e. fst e = Op_open) st))"

definition no_close :: "Operator Stack \<Rightarrow> bool" where
  "no_close st \<longleftrightarrow> list_all (\<lambda>e. fst e \<noteq> Op_close) st"

lemmas paren_defs = no_parens_def opens_def no_close_def push_Stack_def

lemma push_parens [simp]:
  "no_parens (push_Stack s1 g op) \<longleftrightarrow> op \<noteq> Some Op_open \<and> op \<noteq> Some Op_close \<and> no_parens s1"
  "no_close (push_Stack s2 g o') \<longleftrightarrow> o' \<noteq> Op_close \<and> no_close s2"
  "opens (push_Stack s2 g o') = opens s2 + (if o' = Op_open then 1 else 0)"
  by (simp_all add: paren_defs)

lemma pop_operators_parens:
  assumes "no_parens s1" "no_close s2" "op_precedence op < 99" "pop_operators op s1 s2 = (s1', s2')"
  shows "no_parens s1' \<and> no_close s2' \<and> opens s2' = opens s2"
  using assms
proof (induction op s1 s2 rule: pop_operators.induct)
  case (2 op s1 top b s2)
  show ?case
  proof (cases "op_precedence top > op_precedence op")
    case False
    then have "top \<noteq> Op_open" using 2(4) by auto
    with 2 False show ?thesis by (auto simp: paren_defs)
  qed (use 2 in auto)
qed (auto simp: paren_defs)

lemma close_paren_parens:
  assumes "no_parens s1" "no_close (t # s2)" "close_paren t s1 s2 = (s1', s2')"
  shows "no_parens s1' \<and> no_close s2' \<and> opens s2' = max 0 (opens (t # s2) - 1)"
  using assms by (induction t s1 s2 rule: close_paren.induct) (auto simp: paren_defs split: if_splits)

lemma flush_parens: "no_parens s1 \<Longrightarrow> no_close s2 \<Longrightarrow> opens s2 = 0 \<Longrightarrow> no_parens (flush_Stack s1 s2)"
  by (induction s1 s2 rule: flush_Stack.induct) (auto simp: paren_defs split: if_splits)

lemma precedence_less: "op \<noteq> Op_open \<Longrightarrow> op \<noteq> Op_close \<Longrightarrow> op_precedence op < 99"
  by (cases op) simp_all

text \<open>The parser's loop with the token it reads made explicit.\<close>

lemma into_postfix_step:
  assumes "cptr \<noteq> []" "get_glyph_exp icase cptr = (g0, op0, SCPE_OK, r0)"
    "sign_operator lst cptr (g0, op0, r0) = (g, op, r)"
  shows "into_postfix_loop icase pr cptr lst parens s1 s2 =
    (case op of
       None \<Rightarrow> into_postfix_loop icase pr r op parens (push_Stack s1 g None) s2
     | Some o' \<Rightarrow>
         if o' = Op_open then into_postfix_loop icase pr r op (parens + 1) s1 (push_Stack s2 g o')
         else if o' = Op_close
         then (case s2 of
                 [] \<Rightarrow> (INVALID_NESTING, r, s1)
               | t # s2' \<Rightarrow>
                   if parens - 1 < 0 then (INVALID_NESTING, r, s1)
                   else case close_paren t s1 s2' of (s1', s2'') \<Rightarrow>
                     if pr \<and> parens - 1 = 0 then (SCPE_OK, r, s1')
                     else into_postfix_loop icase pr r op (parens - 1) s1' s2'')
         else case pop_operators o' s1 s2 of (s1', s2') \<Rightarrow>
                into_postfix_loop icase pr r op parens s1' (push_Stack s2' g o'))"
  using assms by (subst into_postfix_loop.simps) simp

lemma into_postfix_no_parens:
  "into_postfix_loop icase pr cptr lst parens s1 s2 = (SCPE_OK, rest, st) \<Longrightarrow>
    no_parens s1 \<Longrightarrow> no_close s2 \<Longrightarrow> parens = opens s2 \<Longrightarrow> no_parens st"
proof (induction "length cptr" arbitrary: cptr lst parens s1 s2 rule: less_induct)
  case less
  show ?case
  proof (cases "cptr = []")
    case True
    with less.prems show ?thesis
      by (subst (asm) into_postfix_loop.simps) (auto simp: flush_parens split: if_splits)
  next
    case False
    obtain g0 op0 stat r0 where g: "get_glyph_exp icase cptr = (g0, op0, stat, r0)" by (metis prod_cases4)
    have st: "stat = SCPE_OK"
      using less.prems(1) False g by (subst (asm) into_postfix_loop.simps) (auto split: if_splits)
    obtain g1 op r where sg: "sign_operator lst cptr (g0, op0, r0) = (g1, op, r)" by (metis prod_cases3)
    note eq = less.prems(1) [unfolded into_postfix_step [OF False g [unfolded st] sg]]
    note IH = less.hyps [OF sign_operator_progress [OF g [unfolded st] sg]]
    show ?thesis
    proof (cases op)
      case None
      with eq less.prems show ?thesis by (auto intro: IH)
    next
      case (Some o')
      consider "o' = Op_open" | "o' = Op_close" | "o' \<noteq> Op_open" "o' \<noteq> Op_close" by blast
      then show ?thesis
      proof cases
        case 1
        with eq less.prems Some show ?thesis by (auto intro: IH)
      next
        case 2
        with eq Some obtain t s2' where s2: "s2 = t # s2'" "\<not> parens - 1 < 0" by (auto split: list.splits if_splits)
        obtain a b where ab: "close_paren t s1 s2' = (a, b)" by fastforce
        have "no_parens a \<and> no_close b \<and> opens b = max 0 (opens (t # s2') - 1)"
          using close_paren_parens [OF _ _ ab] less.prems s2 by simp
        with eq Some 2 s2 ab less.prems show ?thesis by (auto intro: IH split: if_splits)
      next
        case 3
        obtain a b where ab: "pop_operators o' s1 s2 = (a, b)" by fastforce
        have "no_parens a \<and> no_close b \<and> opens b = opens s2"
          using pop_operators_parens [OF _ _ precedence_less [OF 3] ab] less.prems by simp
        with eq Some 3 ab less.prems show ?thesis by (auto intro: IH)
      qed
    qed
  qed
qed

lemma sim_into_postfix_no_parens: "sim_into_postfix icase cptr pr = (SCPE_OK, rest, st) \<Longrightarrow> no_parens st"
  by (rule into_postfix_no_parens [of icase pr "skip_space cptr" None 0 "[]" "[]" rest])
    (auto simp: sim_into_postfix_def Let_def paren_defs split: if_splits)

lemma op_function_Some: "op \<noteq> Op_open \<Longrightarrow> op \<noteq> Op_close \<Longrightarrow> op_function op \<noteq> None"
  by (cases op) simp_all

lemma svalue_fault: "svalue v = Inl f \<Longrightarrow> f = Signed_Overflow"
  by (simp add: svalue_def split: if_splits)

lemma svalue_no_null: "svalue v \<noteq> Inl Null_Call"
  by (simp add: svalue_def)

lemma op_function_no_null: "op_function op = Some f \<Longrightarrow> f a b \<noteq> Inl Null_Call"
  by (cases op) (auto simp: svalue_no_null op_div_def op_mod_def op_bit_rsh_def op_bit_lsh_def
      split: sum.splits if_splits dest: svalue_fault)

lemma strtotsv_no_null: "strtotsv s radix \<noteq> Inl Null_Call"
proof -
  have "strtotsv_loop r v b t \<noteq> Inl Null_Call" for r v b t
    by (induction r v b t rule: strtotsv_loop.induct) (auto simp: Let_def split: option.splits)
  then show ?thesis by (auto simp: strtotsv_def Let_def split: prod.splits sum.splits option.splits if_splits)
qed

lemma literal_value_no_null: "literal_value env dat \<noteq> Inl Null_Call"
proof -
  obtain s where s: "literal_value env dat = (case strtotsv s 0 of Inl f \<Rightarrow> Inl f
      | Inr (v, rest) \<Rightarrow> Inr (rest = [] \<and> s \<noteq> [], v, s))"
    unfolding literal_value_def Let_def by blast
  show ?thesis
  proof (cases "strtotsv s 0")
    case (Inl f)
    then show ?thesis using strtotsv_no_null [of s 0] by (simp add: s)
  next
    case (Inr p)
    then show ?thesis by (simp add: s case_prod_beta)
  qed
qed

lemma value_of_no_null: "value_of env dat \<noteq> Inl Null_Call"
  using strtotsv_no_null literal_value_no_null [of env]
  by (auto simp: value_of_def split: prod.splits option.splits sum.splits)

lemma apply_operator_no_null:
  "op \<noteq> Op_open \<Longrightarrow> op \<noteq> Op_close \<Longrightarrow> apply_operator env op a b \<noteq> Inl Null_Call"
  using value_of_no_null [of env a] value_of_no_null [of env b] op_function_Some [of op] op_function_no_null [of op]
  by (auto simp: apply_operator_def split: prod.splits option.splits sum.splits)

lemma eval_loop_no_null: "no_parens code \<Longrightarrow> eval_loop env code stk \<noteq> Inl Null_Call"
proof (induction code arbitrary: stk)
  case (Cons e code)
  obtain op dat where e: "e = (op, dat)" by fastforce
  have IH: "eval_loop env code st \<noteq> Inl Null_Call" for st
    using Cons by (simp add: no_parens_def)
  show ?case
  proof (cases op)
    case None
    with IH e show ?thesis by simp
  next
    case (Some o')
    have "apply_operator env o' a b \<noteq> Inl Null_Call" for a b
      using Cons.prems e Some by (intro apply_operator_no_null) (auto simp: no_parens_def)
    then have "(case apply_operator env o' a b of Inl f \<Rightarrow> Inl f
        | Inr v \<Rightarrow> eval_loop env code (take 71 (print_svalue v) # r)) \<noteq> Inl Null_Call" for a b r
      using IH by (simp split: sum.split) metis
    with e Some show ?thesis by (simp split: list.split option.split)
  qed
qed simp

lemma no_parens_rev [simp]: "no_parens (rev st) = no_parens st"
  by (simp add: no_parens_def)

lemma sim_eval_expression_no_null: "sim_eval_expression env cptr pr \<noteq> Inl Null_Call"
proof -
  obtain stat rest st where p: "sim_into_postfix (exp_switches env AND SWMASK CHR ''I'' \<noteq> 0) cptr pr = (stat, rest, st)"
    by (metis prod_cases3)
  have "sim_eval_postfix env st \<noteq> Inl Null_Call" if "stat = SCPE_OK"
    using eval_loop_no_null [of "rev st" env "[]"] sim_into_postfix_no_parens [of _ cptr pr rest st] value_of_no_null p that
    by (auto simp: sim_eval_postfix_def split: sum.splits option.splits list.splits)
  then show ?thesis by (auto simp: sim_eval_expression_def p split: sum.splits)
qed

subsection \<open>Decimal numbers\<close>

definition dval :: "int \<Rightarrow> nat list \<Rightarrow> int" where
  "dval v ds = foldl (\<lambda>v d. v * 10 + int d) v ds"

lemma dval_mono: "0 \<le> v \<Longrightarrow> v \<le> dval v ds"
proof (induction ds arbitrary: v)
  case (Cons d ds)
  have "v \<le> v * 10 + int d" using Cons.prems by simp
  also have "\<dots> \<le> dval (v * 10 + int d) ds" using Cons.prems by (intro Cons.IH) simp
  finally show ?case by (simp add: dval_def)
qed (simp add: dval_def)

lemma strtotsv_loop_digits:
  assumes "list_all (\<lambda>d. d < 10) ds" "0 \<le> v" "dval v ds < 2 ^ 63"
  shows "strtotsv_loop 10 v b (map digit_char ds) = Inr (Some (dval v ds, ds = [] \<and> b, []))"
  using assms
proof (induction ds arbitrary: v b)
  case (Cons d ds)
  have "v * 10 + int d < 2 ^ 63" using Cons.prems dval_mono [of "v * 10 + int d" ds] by (simp add: dval_def)
  moreover have "digit_of 10 (digit_char d) = Some d" "sim_isalnum (cint (digit_char d))" "d < 10"
    using Cons.prems(1) digit_of_char [of d 10] digit_char_class(2) [of d] by simp_all
  ultimately show ?case using Cons by (simp add: dval_def Let_def)
qed (simp add: dval_def)

lemma dval_to_digits: "unat val < 10 ^ d \<Longrightarrow> dval 0 (to_digits d 10 val) = int (unat val)" for val :: t_value
proof (induction d arbitrary: val)
  case (Suc d)
  have q: "unat (val div 10) = unat val div 10" "unat (val mod 10) = unat val mod 10"
    by (simp_all add: unat_div unat_mod)
  have lt: "unat (val div 10) < 10 ^ d" using Suc.prems by (simp add: q div_less_iff_less_mult mult.commute)
  have z: "val div 10 = 0" if "d = 0" using lt that by (simp add: unat_eq_0)
  have "dval 0 (to_digits (Suc d) 10 val) =
      (if 0 < d \<and> val div 10 \<noteq> 0 then int (unat (val div 10)) else 0) * 10 + int (unat (val mod 10))"
    using Suc.IH [OF lt] by (simp add: dval_def)
  also have "\<dots> = int (unat (val div 10)) * 10 + int (unat (val mod 10))" using z by (auto simp: unat_eq_0)
  also have "\<dots> = int (unat (val div 10) * 10 + unat (val mod 10))" by (simp del: of_nat_unat)
  also have "\<dots> = int (unat val)" by (simp only: q div_mult_mod_eq)
  finally show ?case .
qed (simp add: dval_def)

definition decimal :: "t_value \<Rightarrow> nat list" where
  "decimal val = to_digits MAX_WIDTH 10 val"

lemma decimal_digits:
  "decimal val \<noteq> []" "list_all (\<lambda>d. d < 10) (decimal val)" "dval 0 (decimal val) = int (unat val)"
  "length (decimal val) \<le> 64"
proof -
  have "unat val < 2 ^ 64" using unsigned_less [of val] by simp
  also have "\<dots> \<le> 10 ^ Suc 63" by simp
  finally have lt: "unat val < 10 ^ Suc 63" .
  also have "\<dots> \<le> (10::nat) ^ MAX_WIDTH" by (intro power_increasing) simp_all
  finally show "dval 0 (decimal val) = int (unat val)" unfolding decimal_def by (rule dval_to_digits)
  show "decimal val \<noteq> []" unfolding decimal_def by (rule to_digits_length) simp
  show "list_all (\<lambda>d. d < 10) (decimal val)" using to_digits_radix [of 10 MAX_WIDTH val] by (simp add: decimal_def)
  show "length (decimal val) \<le> 64" using to_digits_short [OF _ _ lt, of MAX_WIDTH] by (simp add: decimal_def)
qed

lemma hd_to_digits: "hd (to_digits (Suc d) 10 val) = 0 \<Longrightarrow> unat val < 10 ^ Suc d \<Longrightarrow> val = 0" for val :: t_value
proof (induction d arbitrary: val)
  case 0
  then show ?case by (simp add: unat_mod unat_eq_0)
next
  case (Suc d)
  have q: "unat (val div 10) = unat val div 10" "unat (val mod 10) = unat val mod 10"
    by (simp_all add: unat_div unat_mod)
  have lt: "unat (val div 10) < 10 ^ Suc d" using Suc.prems(2) by (simp add: q div_less_iff_less_mult mult.commute)
  show ?case
  proof (cases "val div 10 = 0")
    case True
    then have "unat val mod 10 = 0" using Suc.prems(1) q by simp
    moreover have "unat val div 10 = 0" using True q by simp
    ultimately show ?thesis by (metis div_mult_mod_eq mult_0 add_0 unat_eq_0)
  next
    case False
    then have "hd (to_digits (Suc (Suc d)) 10 val) = hd (to_digits (Suc d) 10 (val div 10))"
      using to_digits_length(2) [of "Suc d" 10 "val div 10"] by (subst to_digits.simps(2)) (simp del: to_digits.simps)
    with Suc lt False show ?thesis by metis
  qed
qed

lemma hd_decimal: "hd (decimal val) = 0 \<longleftrightarrow> val = 0"
proof
  have "unat val < 2 ^ 64" using unsigned_less [of val] by simp
  also have "\<dots> \<le> 10 ^ Suc 85" by simp
  finally show "hd (decimal val) = 0 \<Longrightarrow> val = 0"
    using hd_to_digits [of 85 val] unfolding decimal_def by simp
qed (simp add: decimal_def numeral_eq_Suc)

lemma decimal_0: "decimal 0 = [0]"
  by (simp add: decimal_def numeral_eq_Suc)

lemma print_svalue_eq:
  assumes "- (2 ^ 63) < v" "v < 2 ^ 63"
  shows "print_svalue v = (if v < 0 then [CHR ''-''] else []) @ map digit_char (decimal (of_int \<bar>v\<bar>))"
proof -
  let ?ds = "decimal (of_int \<bar>v\<bar>)"
  have "sint (of_int v :: t_value) = v"
    using assms by (simp only: signed_of_int) (simp add: signed_take_bit_int_eq_self)
  then have neg: "sint (of_int v :: t_value) < 0 \<longleftrightarrow> v < 0" by simp
  have mag: "(if v < 0 then - of_int v else of_int v :: t_value) = of_int \<bar>v\<bar>" by (simp add: abs_if)
  have sp: "sprint_digits MAX_WIDTH 10 (of_int \<bar>v\<bar>) (replicate MAX_WIDTH CHR '' '') =
      (MAX_WIDTH - length ?ds, replicate (MAX_WIDTH - length ?ds) CHR '' '' @ map digit_char ?ds)"
    using sprint_digits_spec [of MAX_WIDTH "replicate MAX_WIDTH CHR '' ''" 10 "of_int \<bar>v\<bar>"]
    by (simp add: decimal_def)
  have len: "length ?ds \<le> 64" by (rule decimal_digits)
  have minus: "(replicate (86 - length ?ds) c @ map digit_char ?ds)[85 - length ?ds := m] =
      replicate (85 - length ?ds) c @ m # map digit_char ?ds" for c m
  proof -
    have "86 - length ?ds = Suc (85 - length ?ds)" using len by simp
    then have "replicate (86 - length ?ds) c = replicate (85 - length ?ds) c @ [c]"
      by (simp add: replicate_append_same)
    then show ?thesis by (simp add: list_update_append)
  qed
  show ?thesis
  proof (cases "v < 0")
    case True
    then have v: "\<bar>v\<bar> = - v" by simp
    show ?thesis
      unfolding print_svalue_def sprint_val_def sprint_justify_def Let_def 
      using len sp minus [unfolded v] True by (simp add: neg v)
  next
    case False
    then have v: "\<bar>v\<bar> = v" by simp
    show ?thesis
      unfolding print_svalue_def sprint_val_def sprint_justify_def Let_def 
      using len sp False by (simp add: neg v)
  qed
qed

lemma print_svalue_length: "- (2 ^ 63) < v \<Longrightarrow> v < 2 ^ 63 \<Longrightarrow> length (print_svalue v) \<le> 65"
  using decimal_digits(4) [of "of_int \<bar>v\<bar>"] by (auto simp only: print_svalue_eq length_append length_map list.size split: if_split)

lemma digit_char_eq: "n < 10 \<Longrightarrow> digit_char n = c \<longleftrightarrow> cint c = 48 + int n"
  using digit_char_class(5) [of n] cint_inject [of "digit_char n" c] by auto

lemma radix_prefix_decimal:
  "radix_prefix 0 (map digit_char (decimal val)) = (if val = 0 then 8 else 10, map digit_char (decimal val))"
proof -
  let ?s = "map digit_char (decimal val)"
  obtain d ds where ds: "decimal val = d # ds" using decimal_digits(1) by (cases "decimal val") auto
  have lt: "\<forall>e \<in> set (d # ds). e < 10" using decimal_digits(2) [of val] ds by (simp add: list_all_iff)
  have second: "take 2 ?s \<noteq> [c, x]" if "x \<in> {CHR ''x'', CHR ''X'', CHR ''b'', CHR ''B''}" for c x
  proof (cases ds)
    case (Cons e es)
    have "digit_char e \<noteq> x"
      using that lt Cons by (auto simp: digit_char_eq cint_def)
    with ds Cons show ?thesis by simp
  qed (use ds in simp)
  have "deref ?s = CHR ''0'' \<longleftrightarrow> val = 0"
  proof -
    have "digit_char d = CHR ''0'' \<longleftrightarrow> d = 0" using lt by (simp add: digit_char_eq cint_def)
    then show ?thesis using hd_decimal [of val] ds by simp
  qed
  with second show ?thesis by (auto simp: radix_prefix_def Let_def)
qed

lemma strtotsv_decimal:
  assumes "unat val < 2 ^ 63"
  shows "strtotsv (map digit_char (decimal val)) 0 = Inr (int (unat val), [])"
    "strtotsv (CHR ''-'' # map digit_char (decimal val)) 0 = Inr (- int (unat val), [])"
proof -
  let ?s = "map digit_char (decimal val)"
  obtain d ds where ds: "decimal val = d # ds" using decimal_digits(1) by (cases "decimal val") auto
  have d: "d < 10" using decimal_digits(2) [of val] ds by simp
  have hd: "digit_char d \<noteq> CHR ''-''" "digit_char d \<noteq> CHR ''+''" "\<not> sim_isspace (cint (digit_char d))"
    using d digit_char_class(1) [of d] by (simp_all add: digit_char_eq cint_def)
  have minus: "\<not> sim_isspace (cint CHR ''-'')" by (simp add: cint_def ctype_defs)
  have loop: "strtotsv_loop (if val = 0 then 8 else 10) 0 True ?s = Inr (Some (int (unat val), False, []))"
  proof (cases "val = 0")
    case True
    then show ?thesis
      by (simp add: decimal_0 digit_of_char [of 0 8, simplified] digit_char_class(2) [of 0, simplified])
  next
    case False
    then show ?thesis
      using strtotsv_loop_digits [OF decimal_digits(2), of 0 val True] decimal_digits(1,3) [of val] assms
      by (simp del: of_nat_unat)
  qed
  show "strtotsv ?s 0 = Inr (int (unat val), [])" "strtotsv (CHR ''-'' # ?s) 0 = Inr (- int (unat val), [])"
    using radix_prefix_decimal [of val] loop hd minus
    by (simp_all add: strtotsv_def skip_space_def ds Let_def del: of_nat_unat)
qed

lemma value_of_print:
  assumes "- (2 ^ 63) < v" "v < 2 ^ 63"
  shows "value_of env (print_svalue v) = Inr (True, v, print_svalue v)"
proof -
  let ?val = "of_int \<bar>v\<bar> :: t_value"
  have u: "int (unat ?val) = \<bar>v\<bar>" using assms by (simp add: unsigned_of_int take_bit_int_eq_self)
  have "int (unat ?val) < 2 ^ 63" using u assms by simp
  then have lt: "unat ?val < 2 ^ 63" by (simp del: of_nat_unat)
  obtain d ds where ds: "decimal ?val = d # ds" using decimal_digits(1) by (cases "decimal ?val") auto
  have d: "d < 10" using decimal_digits(2) [of ?val] ds by simp
  obtain c r where p: "print_svalue v = c # r" "c = CHR ''-'' \<or> c = digit_char d"
    using print_svalue_eq [OF assms] ds by (cases "v < 0") auto
  have c: "\<not> sim_isalpha (cint c)" "c \<noteq> CHR ''_''" "c \<noteq> CHR 0x22" "c \<noteq> CHR 0x27"
  proof -
    have k: "cint c = 45 \<or> 48 \<le> cint c \<and> cint c \<le> 57"
      using p(2) d digit_char_class(5) [of d] by (auto simp: cint_def [of "CHR ''-''"])
    then show "\<not> sim_isalpha (cint c)" by (auto simp: ctype_defs)
    show "c \<noteq> CHR ''_''" "c \<noteq> CHR 0x22" "c \<noteq> CHR 0x27" using k by (auto simp: cint_def)
  qed
  have "strtotsv (print_svalue v) 0 = Inr (v, [])"
    using strtotsv_decimal [OF lt] u by (cases "v < 0") (simp_all add: print_svalue_eq [OF assms] del: of_nat_unat)
  then show ?thesis using p(1) c by (simp add: value_of_def literal_value_def Let_def)
qed

subsection \<open>Expressions\<close>

text \<open>
  The reference: expressions as trees, the text with a space after each token, and the value,
  which is undefined where a step leaves the range of a \<^verbatim>\<open>t_svalue\<close>.  \<open>wf_exp\<close> says that
  the tree is the one precedence and left associativity give to the text.
\<close>

datatype iexp = Num nat | Paren iexp | Unary Operator iexp | Binary Operator iexp iexp

fun tokens :: "iexp \<Rightarrow> (string \<times> Operator option) list" where
  "tokens (Num n) = [(print_svalue (int n), None)]"
| "tokens (Paren e) = (op_string Op_open, Some Op_open) # tokens e @ [(op_string Op_close, Some Op_close)]"
| "tokens (Unary op e) = (op_string op, Some op) # tokens e"
| "tokens (Binary op a b) = tokens a @ (op_string op, Some op) # tokens b"

definition token_text :: "(string \<times> Operator option) list \<Rightarrow> string" where
  "token_text ts = concat (map (\<lambda>t. fst t @ '' '') ts)"

definition exp_text :: "iexp \<Rightarrow> string" where
  "exp_text e = token_text (tokens e)"

fun level :: "iexp \<Rightarrow> nat" where
  "level (Num n) = 0"
| "level (Paren e) = 0"
| "level (Unary op e) = op_precedence op"
| "level (Binary op a b) = op_precedence op"

fun wf_exp :: "iexp \<Rightarrow> bool" where
  "wf_exp (Num n) = (n < 2 ^ 63)"
| "wf_exp (Paren e) = wf_exp e"
| "wf_exp (Unary op e) = (op_unary op \<and> level e < op_precedence op \<and> wf_exp e)"
| "wf_exp (Binary op a b) =
     (\<not> op_unary op \<and> op \<noteq> Op_open \<and> op \<noteq> Op_close \<and>
      level a \<le> op_precedence op \<and> level b < op_precedence op \<and> wf_exp a \<and> wf_exp b)"

definition in_range :: "num_fault + int \<Rightarrow> int option" where
  "in_range r = (case r of Inr v \<Rightarrow> if - (2 ^ 63) < v \<and> v < 2 ^ 63 then Some v else None | Inl f \<Rightarrow> None)"

fun exp_value :: "iexp \<Rightarrow> int option" where
  "exp_value (Num n) = Some (int n)"
| "exp_value (Paren e) = exp_value e"
| "exp_value (Unary op e) =
     (case (op_function op, exp_value e) of (Some f, Some v) \<Rightarrow> in_range (f v 0) | _ \<Rightarrow> None)"
| "exp_value (Binary op a b) =
     (case (op_function op, exp_value a, exp_value b) of
        (Some f, Some v, Some w) \<Rightarrow> in_range (f w v) | _ \<Rightarrow> None)"

text \<open>The postfix form, split into what is emitted at once and what stays on the operator stack.\<close>

fun post :: "iexp \<Rightarrow> (Operator option \<times> string) list" where
  "post (Num n) = [(None, print_svalue (int n))]"
| "post (Paren e) = post e"
| "post (Unary op e) = post e @ [(Some op, op_string op)]"
| "post (Binary op a b) = post a @ post b @ [(Some op, op_string op)]"

fun waiting :: "iexp \<Rightarrow> Operator list" where
  "waiting (Num n) = []"
| "waiting (Paren e) = []"
| "waiting (Unary op e) = waiting e @ [op]"
| "waiting (Binary op a b) = waiting b @ [op]"

fun emitted :: "iexp \<Rightarrow> (Operator option \<times> string) list" where
  "emitted (Num n) = [(None, print_svalue (int n))]"
| "emitted (Paren e) = post e"
| "emitted (Unary op e) = emitted e"
| "emitted (Binary op a b) = post a @ emitted b"

abbreviation (input) op_elem :: "Operator \<Rightarrow> Operator \<times> string" where "op_elem op \<equiv> (op, op_string op)"
abbreviation (input) post_elem :: "Operator \<Rightarrow> Operator option \<times> string" where "post_elem op \<equiv> (Some op, op_string op)"

lemma post_split: "post e = emitted e @ map post_elem (waiting e)"
  by (induction e) simp_all

lemma take_op_string [simp]: "take 71 (op_string op) = op_string op"
  by (cases op) simp_all

lemma pop_waiting:
  assumes "list_all (\<lambda>o'. op_precedence o' \<le> op_precedence op) w"
    "case s2 of [] \<Rightarrow> True | e # _ \<Rightarrow> op_precedence op < op_precedence (fst e)"
  shows "pop_operators op s1 (map op_elem w @ s2) = (rev (map post_elem w) @ s1, s2)"
  using assms
proof (induction w arbitrary: s1)
  case Nil
  then show ?case by (cases s2) auto
qed (auto simp: push_Stack_def)

lemma close_waiting:
  assumes "list_all (\<lambda>o'. o' \<noteq> Op_open) w"
  shows "case map op_elem w @ op_elem Op_open # s2 of t # r \<Rightarrow>
    close_paren t s1 r = (rev (map post_elem w) @ s1, s2) | [] \<Rightarrow> False"
  using assms
proof (induction w arbitrary: s1)
  case Nil
  then show ?case by (cases s2) simp_all
next
  case (Cons o' w)
  show ?case
  proof (cases w)
    case Nil
    with Cons show ?thesis by (cases s2) (simp_all add: push_Stack_def)
  next
    case w: (Cons p r)
    with Cons.IH [of "push_Stack s1 (op_string o') (Some o')"] Cons.prems show ?thesis by (simp add: push_Stack_def)
  qed
qed

lemma flush_waiting: "flush_Stack s1 (map op_elem w) = rev (map post_elem w) @ s1"
  by (induction w arbitrary: s1) (simp_all add: push_Stack_def)

lemma cint_chars:
  "cint CHR '' '' = 32" "cint CHR '','' = 44" "cint CHR ''-'' = 45" "cint CHR ''+'' = 43" "cint CHR ''_'' = 95"
  "cint CHR 0x22 = 34" "cint CHR 0x27 = 39" "cint CHR ''x'' = 120" "cint CHR ''X'' = 88" "cint CHR ''b'' = 98"
  "cint CHR ''B'' = 66" "cint CHR ''0'' = 48"
  by (simp_all add: cint_def)

lemma space_char [simp]: "sim_isspace (cint CHR '' '')"
  by (simp add: cint_def ctype_defs)

lemma skip_space_space: "skip_space (CHR '' '' # s) = skip_space s"
  by (simp add: skip_space_def)

lemma op_string_class:
  obtains c r where "op_string op = c # r" "\<not> sim_isspace (cint c)" "\<not> sim_isalpha (cint c)" "c \<noteq> CHR ''_''"
    "\<not> is_decimal c" "c \<noteq> CHR 0x22" "c \<noteq> CHR 0x27" "list_all (\<lambda>c. \<not> is_decimal c) r"
  by (cases op) (simp_all add: cint_def ctype_defs is_decimal_def)

lemma find_operator_token: "find_operator (op_string op @ CHR '' '' # s) = Some op"
  by (cases op) (simp_all add: find_operator_def operators_def)

lemma glyph_operator:
  assumes "skip_space s = s"
  shows "get_glyph_exp icase (op_string op @ CHR '' '' # s) = (op_string op, Some op, SCPE_OK, s)"
proof -
  obtain c r where c: "op_string op = c # r" "\<not> sim_isspace (cint c)" "\<not> sim_isalpha (cint c)" "c \<noteq> CHR ''_''"
    "\<not> is_decimal c" "c \<noteq> CHR 0x22" "c \<noteq> CHR 0x27" "list_all (\<lambda>c. \<not> is_decimal c) r"
    by (rule op_string_class)
  have "\<not> is_decimal (deref (r @ CHR '' '' # s))"
    using c(8) by (cases r) (simp_all add: is_decimal_def cint_def ctype_defs)
  with c find_operator_token [of op s] assms show ?thesis
    by (simp add: get_glyph_exp_def Let_def skip_space_def)
qed

lemma takeWhile_digits:
  "list_all (\<lambda>d. P (digit_char d)) ds \<Longrightarrow> \<not> P CHR '' '' \<Longrightarrow>
   takeWhile P (map digit_char ds @ CHR '' '' # s) = map digit_char ds"
  by (induction ds) simp_all

lemma decimal_class: "n < 10 \<Longrightarrow> is_decimal (digit_char n) \<and> digit_char n \<noteq> CHR '',''"
  by (simp add: is_decimal_def digit_char_eq digit_char_class(5) sim_isdigit_def cint_chars)

lemma glyph_number_token:
  "glyph_number (map digit_char (decimal val) @ CHR '' '' # s) = Some (map digit_char (decimal val), CHR '' '' # s)"
proof -
  let ?m = "map digit_char (decimal val)"
  obtain d ds where ds: "decimal val = d # ds" using decimal_digits(1) by (cases "decimal val") auto
  have lt: "\<forall>e \<in> set (d # ds). e < 10" using decimal_digits(2) [of val] ds by (simp add: list_all_iff)
  have second: "take 2 (?m @ CHR '' '' # s) \<noteq> [c, x]" if "x \<in> {CHR ''x'', CHR ''X'', CHR ''b'', CHR ''B''}" for c x
  proof (cases ds)
    case (Cons e es)
    have "digit_char e \<noteq> x" using that lt Cons by (auto simp: digit_char_eq cint_chars)
    with ds Cons show ?thesis by simp
  next
    case Nil
    with that ds show ?thesis by auto
  qed
  have dec: "list_all (\<lambda>d. is_decimal (digit_char d) \<or> digit_char d = CHR '','') (decimal val)"
    "\<forall>c \<in> set ?m. c \<noteq> CHR '',''"
    using lt ds decimal_class by (auto simp: list_all_iff)
  have sp: "\<not> (is_decimal CHR '' '' \<or> CHR '' '' = CHR '','')" by (simp add: is_decimal_def cint_def ctype_defs)
  have tw: "takeWhile (\<lambda>c. is_decimal c \<or> c = CHR '','') (?m @ CHR '' '' # s) = ?m"
    by (rule takeWhile_digits [OF dec(1) sp])
  have fl: "filter (\<lambda>c. c = CHR '','') ?m = []" "filter (\<lambda>c. c \<noteq> CHR '','') ?m = ?m"
    using dec(2) by (auto simp: filter_empty_conv)
  have zero: "deref (?m @ CHR '' '' # s) = CHR ''0'' \<longleftrightarrow> val = 0"
    using lt hd_decimal [of val] ds by (simp add: digit_char_eq cint_chars)
  show ?thesis
  proof (cases "val = 0")
    case True
    then have m: "?m = ''0''" by (simp add: decimal_0 digit_char_eq [of 0, simplified] cint_chars)
    show ?thesis unfolding m by (simp add: glyph_number_def)
  next
    case False
    with second zero tw fl show ?thesis by (simp add: glyph_number_def Let_def grouping_ok_def)
  qed
qed

lemma glyph_operand:
  assumes "n < 2 ^ 63" "skip_space s = s"
  shows "get_glyph_exp icase (print_svalue (int n) @ CHR '' '' # s) = (print_svalue (int n), None, SCPE_OK, s)"
    "deref (print_svalue (int n)) \<noteq> CHR ''-''" "deref (print_svalue (int n)) \<noteq> CHR ''+''"
    "skip_space (print_svalue (int n) @ r) = print_svalue (int n) @ r"
proof -
  let ?val = "of_int (int n) :: t_value" and ?p = "print_svalue (int n)"
  have p: "?p = map digit_char (decimal ?val)" using print_svalue_eq [of "int n"] assms(1) by simp
  obtain d ds where ds: "decimal ?val = d # ds" using decimal_digits(1) by (cases "decimal ?val") auto
  have d: "d < 10" using decimal_digits(2) [of ?val] ds by simp
  then have k: "cint (digit_char d) = 48 + int d" by (simp add: digit_char_class(5))
  have c: "is_decimal (digit_char d)" "\<not> sim_isspace (cint (digit_char d))" "\<not> sim_isalpha (cint (digit_char d))"
    "digit_char d \<noteq> CHR ''_''" "digit_char d \<noteq> CHR ''-''" "digit_char d \<noteq> CHR ''+''"
    using d by (simp_all add: is_decimal_def k ctype_defs digit_char_eq cint_chars)
  show "deref ?p \<noteq> CHR ''-''" "deref ?p \<noteq> CHR ''+''" using c p ds by simp_all
  show "skip_space (?p @ r) = ?p @ r" using c(2) p ds by (simp add: skip_space_def)
  have sk: "skip_space (?p @ CHR '' '' # s) = ?p @ CHR '' '' # s" "deref (?p @ CHR '' '' # s) = digit_char d"
    using c(2) p ds by (simp_all add: skip_space_def)
  have sp: "\<not> sim_isalpha (cint CHR '' '')" by (simp add: cint_def ctype_defs)
  show "get_glyph_exp icase (?p @ CHR '' '' # s) = (?p, None, SCPE_OK, s)"
    unfolding get_glyph_exp_def sk Let_def
    using c glyph_number_token [of ?val s] p sp assms(2) by (simp add: skip_space_space)
qed

subsection \<open>The parser\<close>

lemma waiting_level: "wf_exp e \<Longrightarrow> list_all (\<lambda>o'. op_precedence o' \<le> level e \<and> o' \<noteq> Op_open) (waiting e)"
  by (induction e) (auto simp: list_all_iff op_unary_def)

lemma skip_token_text: "wf_exp e \<Longrightarrow> skip_space (token_text (tokens e) @ s) = token_text (tokens e) @ s"
proof (induction e arbitrary: s)
  case (Num n)
  then show ?case using glyph_operand(4) [of n "[]"] by (simp add: token_text_def skip_space_def)
next
  case (Paren e)
  show ?case by (simp add: token_text_def skip_space_def cint_def ctype_defs)
next
  case (Unary op e)
  obtain c r where "op_string op = c # r" "\<not> sim_isspace (cint c)" by (rule op_string_class)
  then show ?case by (simp add: token_text_def skip_space_def)
next
  case (Binary op a b)
  then show ?case by (simp add: token_text_def)
qed

text \<open>One token of the text, by its kind.\<close>

lemma loop_operand:
  assumes "n < 2 ^ 63" "skip_space s = s"
  shows "into_postfix_loop icase pr (print_svalue (int n) @ CHR '' '' # s) lst parens s1 s2 =
    into_postfix_loop icase pr s None parens ((None, print_svalue (int n)) # s1) s2"
proof -
  note g = glyph_operand [OF assms]
  have "take 71 (print_svalue (int n)) = print_svalue (int n)"
    using print_svalue_length [of "int n"] assms(1) by simp
  then show ?thesis
    using g(2,3) by (subst into_postfix_step [OF _ g(1)]) (auto simp: sign_operator_def push_Stack_def)
qed

lemma loop_token:
  assumes "skip_space s = s"
  shows "into_postfix_loop icase pr (op_string Op_open @ CHR '' '' # s) lst parens s1 s2 =
      into_postfix_loop icase pr s (Some Op_open) (parens + 1) s1 (op_elem Op_open # s2)"
    "op \<noteq> Op_open \<Longrightarrow> op \<noteq> Op_close \<Longrightarrow>
      into_postfix_loop icase pr (op_string op @ CHR '' '' # s) lst parens s1 s2 =
      (case pop_operators op s1 s2 of (s1', s2') \<Rightarrow>
         into_postfix_loop icase pr s (Some op) parens s1' (op_elem op # s2'))"
    "0 < parens \<Longrightarrow> pr \<longrightarrow> 1 < parens \<Longrightarrow> close_paren t s1 s2 = (s1', s2') \<Longrightarrow>
      into_postfix_loop icase pr (op_string Op_close @ CHR '' '' # s) lst parens s1 (t # s2) =
      into_postfix_loop icase pr s (Some Op_close) (parens - 1) s1' s2'"
proof -
  have ne: "op_string op @ r \<noteq> []" for op r by (cases op) simp_all
  have sg: "sign_operator lst cptr (op_string op, Some op, s) = (op_string op, Some op, s)" for cptr op
    by (simp add: sign_operator_def)
  note step = into_postfix_step [OF ne glyph_operator [OF assms] sg]
  show "into_postfix_loop icase pr (op_string Op_open @ CHR '' '' # s) lst parens s1 s2 =
      into_postfix_loop icase pr s (Some Op_open) (parens + 1) s1 (op_elem Op_open # s2)"
    by (subst step) (simp add: push_Stack_def)
  show "op \<noteq> Op_open \<Longrightarrow> op \<noteq> Op_close \<Longrightarrow>
      into_postfix_loop icase pr (op_string op @ CHR '' '' # s) lst parens s1 s2 =
      (case pop_operators op s1 s2 of (s1', s2') \<Rightarrow>
         into_postfix_loop icase pr s (Some op) parens s1' (op_elem op # s2'))"
    by (subst step) (simp add: push_Stack_def)
  show "0 < parens \<Longrightarrow> pr \<longrightarrow> 1 < parens \<Longrightarrow> close_paren t s1 s2 = (s1', s2') \<Longrightarrow>
      into_postfix_loop icase pr (op_string Op_close @ CHR '' '' # s) lst parens s1 (t # s2) =
      into_postfix_loop icase pr s (Some Op_close) (parens - 1) s1' s2'"
    by (subst step) auto
qed

definition blocks :: "nat \<Rightarrow> Operator Stack \<Rightarrow> bool" where
  "blocks n s2 = (case s2 of [] \<Rightarrow> True | e # _ \<Rightarrow> n < op_precedence (fst e))"

lemma loop_expression:
  assumes "wf_exp e" "blocks (level e) s2" "0 \<le> parens" "pr \<longrightarrow> 0 < parens" "skip_space s = s"
  shows "\<exists>lst'. into_postfix_loop icase pr (token_text (tokens e) @ s) lst parens s1 s2 =
    into_postfix_loop icase pr s lst' parens (rev (emitted e) @ s1) (map op_elem (waiting e) @ s2)"
  using assms
proof (induction e arbitrary: s lst parens s1 s2)
  case (Num n)
  then show ?case using loop_operand [of n s] by (auto simp: token_text_def)
next
  case (Paren e)
  let ?s = "op_string Op_close @ CHR '' '' # s"
  have sk: "skip_space ?s = ?s" by (simp add: skip_space_def cint_def ctype_defs)
  have lv: "blocks (level e) (op_elem Op_open # s2)" using Paren.prems by (cases e) (auto simp: blocks_def precedence_less op_unary_def)
  obtain l where l: "into_postfix_loop icase pr (token_text (tokens e) @ ?s) (Some Op_open) (parens + 1) s1 (op_elem Op_open # s2) =
      into_postfix_loop icase pr ?s l (parens + 1) (rev (emitted e) @ s1) (map op_elem (waiting e) @ op_elem Op_open # s2)"
    using Paren.IH [OF _ lv _ _ sk] Paren.prems by fastforce
  have w: "list_all (\<lambda>o'. o' \<noteq> Op_open) (waiting e)" using waiting_level [of e] Paren.prems by (auto simp: list_all_iff)
  obtain t r where tr: "map op_elem (waiting e) @ op_elem Op_open # s2 = t # r" by (cases "waiting e") auto
  with close_waiting [OF w, where ?s2.0 = s2 and ?s1.0 = "rev (emitted e) @ s1"]
  have cl: "close_paren t (rev (emitted e) @ s1) r = (rev (post e) @ s1, s2)" by (simp add: post_split)
  have "into_postfix_loop icase pr ?s l (parens + 1) (rev (emitted e) @ s1) (t # r) =
      into_postfix_loop icase pr s (Some Op_close) parens (rev (post e) @ s1) s2"
    using loop_token(3) [OF Paren.prems(5) _ _ cl, of "parens + 1"] Paren.prems by simp
  moreover have "into_postfix_loop icase pr (token_text (tokens (Paren e)) @ s) lst parens s1 s2 =
      into_postfix_loop icase pr (token_text (tokens e) @ ?s) (Some Op_open) (parens + 1) s1 (op_elem Op_open # s2)"
    using loop_token(1) [of "token_text (tokens e) @ ?s"] skip_token_text [of e ?s] Paren.prems by (simp add: token_text_def)
  ultimately show ?case using l tr by auto
next
  case (Unary op e)
  have "op \<noteq> Op_open" "op \<noteq> Op_close" using Unary.prems(1) by (auto simp: op_unary_def)
  note tok = loop_token(2) [OF _ this, of "token_text (tokens e) @ s"]
  have p: "pop_operators op s1 s2 = (s1, s2)"
    using Unary.prems(2) pop_waiting [of op "[]" s2 s1] by (simp add: blocks_def)
  have "blocks (level e) (op_elem op # s2)" using Unary.prems(1) by (simp add: blocks_def)
  from Unary.IH [OF _ this Unary.prems(3,4,5)] Unary.prems(1) tok skip_token_text [of e s] p show ?case
    by (auto simp: token_text_def)
next
  case (Binary op a b)
  have op: "op \<noteq> Op_open" "op \<noteq> Op_close" using Binary.prems(1) by simp_all
  let ?r = "op_string op @ CHR '' '' # token_text (tokens b) @ s"
  obtain c q where "op_string op = c # q" "\<not> sim_isspace (cint c)" by (rule op_string_class)
  then have sk: "skip_space ?r = ?r" by (simp add: skip_space_def)
  have "blocks (level a) s2" using Binary.prems(1,2) by (auto simp: blocks_def split: list.splits)
  then obtain l where l: "into_postfix_loop icase pr (token_text (tokens a) @ ?r) lst parens s1 s2 =
      into_postfix_loop icase pr ?r l parens (rev (emitted a) @ s1) (map op_elem (waiting a) @ s2)"
    using Binary.IH(1) [OF _ _ Binary.prems(3,4) sk] Binary.prems(1) by fastforce
  have "list_all (\<lambda>o'. op_precedence o' \<le> op_precedence op) (waiting a)"
    using waiting_level [of a] Binary.prems(1) by (auto simp: list_all_iff)
  from pop_waiting [OF this] Binary.prems(2)
  have p: "pop_operators op (rev (emitted a) @ s1) (map op_elem (waiting a) @ s2) = (rev (post a) @ s1, s2)"
    by (simp add: blocks_def post_split)
  have "blocks (level b) (op_elem op # s2)" using Binary.prems(1) by (simp add: blocks_def)
  from Binary.IH(2) [OF _ this Binary.prems(3,4,5), of "Some op" "rev (post a) @ s1"] Binary.prems(1)
    loop_token(2) [OF _ op, of "token_text (tokens b) @ s"] skip_token_text [of b s] p l
  show ?case by (auto simp: token_text_def)
qed

lemma sim_into_postfix_expression:
  assumes "wf_exp e"
  shows "sim_into_postfix icase (exp_text e) False = (SCPE_OK, [], rev (post e))"
proof -
  obtain l where "into_postfix_loop icase False (exp_text e) None 0 [] [] =
      into_postfix_loop icase False [] l 0 (rev (emitted e)) (map op_elem (waiting e))"
    using loop_expression [OF assms, of "[]" 0 False "[]" icase None "[]"]
    by (auto simp: blocks_def exp_text_def skip_space_def)
  moreover have "skip_space (exp_text e) = exp_text e" using skip_token_text [OF assms, of "[]"] by (simp add: exp_text_def)
  ultimately show ?thesis
    by (simp add: sim_into_postfix_def into_postfix_loop.simps [of _ _ "[]"] flush_waiting post_split)
qed

subsection \<open>The evaluator\<close>

lemma exp_value_range: "wf_exp e \<Longrightarrow> exp_value e = Some v \<Longrightarrow> - (2 ^ 63) < v \<and> v < 2 ^ 63"
  by (induction e arbitrary: v)
    (auto simp: in_range_def split: option.splits sum.splits if_splits)

lemma apply_operator_values:
  assumes "- (2 ^ 63) < v" "v < 2 ^ 63" "- (2 ^ 63) < w" "w < 2 ^ 63" "op_function op = Some f"
  shows "apply_operator env op (print_svalue v) (print_svalue w) = f v w"
  using value_of_print [OF assms(1,2), of env] value_of_print [OF assms(3,4), of env] assms(5)
  by (simp add: apply_operator_def)

lemma print_zero: "print_svalue 0 = ''0''"
  using print_svalue_eq [of 0] by (simp add: decimal_0 digit_char_eq [of 0, simplified] cint_chars)

lemma in_range_Some: "in_range r = Some v \<longleftrightarrow> r = Inr v \<and> - (2 ^ 63) < v \<and> v < 2 ^ 63"
  by (auto simp: in_range_def split: sum.splits)

lemma take_print: "- (2 ^ 63) < v \<Longrightarrow> v < 2 ^ 63 \<Longrightarrow> take 71 (print_svalue v) = print_svalue v"
  using print_svalue_length [of v] by simp

lemma eval_loop_post:
  "wf_exp e \<Longrightarrow> exp_value e = Some v \<Longrightarrow>
   eval_loop env (post e @ code) stk = eval_loop env code (print_svalue v # stk)"
proof (induction e arbitrary: v code stk)
  case (Num n)
  then show ?case using take_print [of "int n"] by simp
next
  case (Unary op e)
  then obtain f w where f: "op_function op = Some f" and w: "exp_value e = Some w" and v: "f w 0 = Inr v" "- (2 ^ 63) < v" "v < 2 ^ 63"
    by (auto simp: in_range_Some split: option.splits)
  have "apply_operator env op (print_svalue w) ''0'' = Inr v"
    using apply_operator_values [of w 0 op f env] exp_value_range [OF _ w] Unary.prems(1) f v(1) by (simp add: print_zero)
  with Unary w take_print [OF v(2,3)] show ?case by (simp add: second_operand_def)
next
  case (Binary op a b)
  then obtain f x y where f: "op_function op = Some f" and xy: "exp_value a = Some x" "exp_value b = Some y"
    and v: "f y x = Inr v" "- (2 ^ 63) < v" "v < 2 ^ 63"
    by (auto simp: in_range_Some split: option.splits)
  have "apply_operator env op (print_svalue y) (print_svalue x) = Inr v"
    using apply_operator_values [of y x op f env] exp_value_range [OF _ xy(1)] exp_value_range [OF _ xy(2)]
      Binary.prems(1) f v(1) by simp
  with Binary xy take_print [OF v(2,3)] show ?case by (simp add: second_operand_def)
qed simp

lemma eval_postfix_expression:
  assumes "wf_exp e" "exp_value e = Some v"
  shows "sim_eval_postfix env (rev (post e)) = Inr (v, SCPE_OK)"
  using eval_loop_post [OF assms, of env "[]" "[]"] value_of_print [of v env] exp_value_range [OF assms]
  by (simp add: sim_eval_postfix_def)

lemma eval_expression_correct:
  assumes "wf_exp e" "exp_value e = Some v"
  shows "sim_eval_expression env (exp_text e) False = Inr (v, SCPE_OK, [])"
  by (simp add: sim_eval_expression_def sim_into_postfix_expression [OF assms(1)] eval_postfix_expression [OF assms])

subsection \<open>Comparing with whitespace collapsed\<close>

fun white_norm :: "bool \<Rightarrow> bool \<Rightarrow> string \<Rightarrow> int list" where
  "white_norm casecmp sp [] = []"
| "white_norm casecmp sp (c # s) =
     (if sim_isspace (uchar c) then (if sp then white_norm casecmp sp s else 32 # white_norm casecmp True s)
      else (if casecmp then sim_toupper (uchar c) else uchar c) # white_norm casecmp False s)"

lemma uchar_nat: "uchar c = int (of_char c)"
  unfolding uchar_def by (rule of_nat_of_char [symmetric])

lemma uchar_nonneg: "0 \<le> uchar c"
  unfolding uchar_nat by (rule of_nat_0_le_iff)

lemma uchar_zero: "uchar c = 0 \<longleftrightarrow> c = NUL"
proof
  assume "uchar c = 0"
  then have z: "of_char c = (0 :: nat)" by (simp only: uchar_nat of_nat_eq_0_iff)
  have "c = char_of (of_char c :: nat)" by (rule char_of_char [symmetric])
  also have "\<dots> = NUL" unfolding z by (simp add: char_of_def)
  finally show "c = NUL" .
qed (simp add: uchar_def)

lemma white_read_norm:
  assumes "cstring s" "white_read cc sp s = (x, r)"
  shows "cstring r \<and> white_norm cc sp s = (if x = 0 then [] else x # white_norm cc (x = 32) r)"
  using assms
proof (induction cc sp s rule: white_read.induct)
  case (2 cc sp c s)
  have nz: "uchar c \<noteq> 0" using 2(2) by (auto simp: uchar_zero cstring_def)
  have up: "sim_toupper (uchar c) \<noteq> 32 \<and> sim_toupper (uchar c) \<noteq> 0" if "\<not> sim_isspace (uchar c)"
    using that nz by (auto simp: ctype_defs)
  have sp: "\<not> sim_isspace (uchar c) \<Longrightarrow> uchar c \<noteq> 32" by (auto simp: ctype_defs)
  show ?case using 2 nz up sp by (auto simp: cstring_def split: if_splits)
qed auto

lemma white_loop_norm:
  assumes "cstring a" "cstring b"
  shows "white_loop cc sp a b = list_cmp (white_norm cc sp a) (white_norm cc sp b)"
  using assms
proof (induction cc sp a b rule: white_loop.induct)
  case (1 cc sp a b)
  obtain x a' where x: "white_read cc sp a = (x, a')" by fastforce
  obtain y b' where y: "white_read cc sp b = (y, b')" by fastforce
  note nx = white_read_norm [OF 1(2) x] and ny = white_read_norm [OF 1(3) y]
  have pos: "white_read cc sp s = (z, r) \<Longrightarrow> 0 \<le> z" for s z r
    by (induction cc sp s rule: white_read.induct) (auto simp: uchar_nonneg sim_toupper_def split: if_splits)
  show ?case
    using 1(1) [OF x [symmetric] refl y [symmetric] refl] nx ny x y pos [OF x] pos [OF y]
    by (subst white_loop.simps) auto
qed

lemma list_cmp_zero: "list_cmp xs ys = 0 \<longleftrightarrow> xs = ys"
  by (induction xs ys rule: list_cmp.induct) auto

lemma strwhitecasecmp_equal:
  assumes "cstring a" "cstring b"
  shows "sim_strwhitecasecmp a b cc = 0 \<longleftrightarrow> white_norm cc False a = white_norm cc False b"
  using white_loop_norm [OF assms, of cc False] by (simp add: sim_strwhitecasecmp_def list_cmp_zero)

lemma strcasecmp_equal:
  assumes "cstring a" "cstring b"
  shows "strcasecmp a b = 0 \<longleftrightarrow> map (sim_tolower \<circ> uchar) a = map (sim_tolower \<circ> uchar) b"
  using assms
proof (induction a b rule: strcasecmp.induct [case_names both left right])
  have nz: "c \<noteq> NUL \<Longrightarrow> sim_tolower (uchar c) \<noteq> 0" for c
    using uchar_zero [of c] by (auto simp: sim_tolower_def)
  have z: "uchar NUL = 0" "sim_tolower 0 = 0" by (simp_all add: uchar_zero sim_tolower_def)
  {
    case (left rs)
    then show ?case using nz [of "hd rs"] z by (cases rs) (simp_all add: cstring_def del: uchar_zero, auto)
  next
    case (right ls)
    then show ?case using nz [of "hd ls"] z by (cases ls) (simp_all add: cstring_def del: uchar_zero, auto)
  }
qed (auto simp: cstring_def)

subsection \<open>Where the evaluator departs from arithmetic\<close>

definition plain_env :: "u32 \<Rightarrow> unit expr_env" where
  "plain_env sw = \<lparr>find_dev = (\<lambda>_. None), find_reg = (\<lambda>_ _. None), find_reg_glob = (\<lambda>_. None),
     sim_get_env_special = (\<lambda>_. None), sim_sub_args = id, exp_switches = sw\<rparr>"

lemma sign_after_paren: "sim_eval_expression (plain_env 0) ''(3)-5'' False = Inr (- 5, SCPE_OK, [])"
  by code_simp

lemma double_negation: "sim_eval_expression (plain_env 0) ''!!1'' False = Inr (0, SCPE_INVEXPR, [])"
  by code_simp

lemma white_order:
  "sim_eval_expression (plain_env 0) ''\"abc\" < \"abd\"'' False = Inr (1, SCPE_OK, [])"
  "sim_eval_expression (plain_env (SWMASK CHR ''W'')) ''\"abc\" < \"abd\"'' False = Inr (0, SCPE_OK, [])"
  by code_simp+

subsection \<open>Properties\<close>

text \<open>
  C4. Correctness of the infix parser and the postfix evaluator: the text of an expression tree that
  respects the operator table's precedences and left associativity evaluates, in any environment and
  with any switches, to the tree's value with nothing left over, provided no step leaves the range
  of a \<^verbatim>\<open>t_svalue\<close>.
\<close>

theorem expression_value:
  assumes "wf_exp e" "exp_value e = Some v"
  shows "sim_eval_expression env (exp_text e) False = Inr (v, SCPE_OK, [])"
  using assms by (rule eval_expression_correct)

theorem expression_value_witness:
  "sim_eval_expression (plain_env 0)
     (exp_text (Binary Op_sub (Binary Op_sub (Num 9) (Binary Op_mult (Num 2) (Num 3))) (Unary Op_log_not (Paren (Num 1)))))
     False = Inr (3, SCPE_OK, [])"
  using expression_value [of "Binary Op_sub (Binary Op_sub (Num 9) (Binary Op_mult (Num 2) (Num 3)))
      (Unary Op_log_not (Paren (Num 1)))" 3 "plain_env 0"]
  by (simp add: op_unary_def svalue_def in_range_def)

text \<open>
  C30. The evaluator never calls through a null function pointer: whatever the text, no parenthesis,
  which has no function in the operator table, reaches the postfix form of an accepted expression.
\<close>

theorem expression_no_null_call: "sim_eval_expression env cptr pr \<noteq> Inl Null_Call"
  by (rule sim_eval_expression_no_null)

text \<open>
  \<^verbatim>\<open>sim_strwhitecasecmp\<close> compares two strings as their forms with every run of whitespace
  collapsed to one blank, letters folded when asked: it returns the sign of their lexicographic
  comparison, 0 exactly when the forms are equal.
\<close>

lemma whitespace_comparison:
  assumes "cstring a" "cstring b"
  shows "sim_strwhitecasecmp a b cc = list_cmp (white_norm cc False a) (white_norm cc False b) \<and>
    (sim_strwhitecasecmp a b cc = 0 \<longleftrightarrow> white_norm cc False a = white_norm cc False b)"
  using white_loop_norm [OF assms, of cc False] strwhitecasecmp_equal [OF assms, of cc]
  by (simp add: sim_strwhitecasecmp_def)

end
