(* ===== verification/InstrLoop.thy ===== *)
theory InstrLoop
  imports Prelude
begin

text \<open>
  The shape every \<^verbatim>\<open>sim_instr\<close> has: a loop that executes one instruction after another
  until an instruction, an event or a breakpoint yields a stop reason.  \<open>instr_loop\<close> runs at
  most \<open>n\<close> instructions and is \<^const>\<open>None\<close> when none of them stopped; a fault of a
  called routine ends the run too.  The locale collects what a processor's step has to satisfy
  and what follows for its runs.
\<close>

primrec instr_loop :: "('s \<Rightarrow> 'f + t_stat \<times> 's) \<Rightarrow> nat \<Rightarrow> 's \<Rightarrow> ('f + t_stat \<times> 's) option" where
  "instr_loop step 0 s = None"
| "instr_loop step (Suc n) s =
     (case step s of
        Inl f \<Rightarrow> Some (Inl f)
      | Inr (reason, s') \<Rightarrow> if reason \<noteq> SCPE_OK then Some (Inr (reason, s')) else instr_loop step n s')"

text \<open>The state after exactly \<open>n\<close> instructions that did not stop.\<close>

primrec steps :: "('s \<Rightarrow> 'f + t_stat \<times> 's) \<Rightarrow> nat \<Rightarrow> 's \<Rightarrow> 's option" where
  "steps step 0 s = Some s"
| "steps step (Suc n) s =
     (case step s of
        Inr (reason, s') \<Rightarrow> if reason = SCPE_OK then steps step n s' else None
      | Inl f \<Rightarrow> None)"

lemma instr_loop_steps: "steps step m s = Some s' \<Longrightarrow> instr_loop step (m + n) s = instr_loop step n s'"
  by (induction m arbitrary: s) (auto split: sum.splits prod.splits if_splits)

lemma instr_loop_stops:
  "steps step m s = Some s1 \<Longrightarrow> step s1 = Inr (reason, s2) \<Longrightarrow> reason \<noteq> SCPE_OK \<Longrightarrow>
   instr_loop step (m + Suc n) s = Some (Inr (reason, s2))"
  by (simp add: instr_loop_steps del: add_Suc_right)

lemma instr_loop_mono: "instr_loop step n s = Some r \<Longrightarrow> n \<le> m \<Longrightarrow> instr_loop step m s = Some r"
proof (induction n arbitrary: s m)
  case (Suc n)
  then obtain m' where "m = Suc m'" by (cases m) auto
  with Suc show ?case by (auto split: sum.splits prod.splits if_splits)
qed simp

locale cpu =
  fixes step :: "'s \<Rightarrow> 'f + t_stat \<times> 's"
    and inv :: "'s \<Rightarrow> bool"
  assumes inv_step: "inv s \<Longrightarrow> step s = Inr (reason, s') \<Longrightarrow> inv s'"
begin

lemma inv_steps: "inv s \<Longrightarrow> steps step n s = Some s' \<Longrightarrow> inv s'"
  by (induction n arbitrary: s) (auto dest: inv_step split: sum.splits prod.splits if_splits)

lemma inv_run: "inv s \<Longrightarrow> instr_loop step n s = Some (Inr (reason, s')) \<Longrightarrow> inv s' \<and> reason \<noteq> SCPE_OK"
  by (induction n arbitrary: s) (auto dest: inv_step split: sum.splits prod.splits if_splits)

lemma run_stopped_by_step:
  "instr_loop step n s = Some (Inr (reason, s')) \<Longrightarrow>
   \<exists>m s1. m < n \<and> steps step m s = Some s1 \<and> step s1 = Inr (reason, s')"
proof (induction n arbitrary: s)
  case (Suc n)
  show ?case
  proof (cases "step s")
    case (Inr p)
    obtain r s2 where p: "p = (r, s2)" by fastforce
    show ?thesis
    proof (cases "r = SCPE_OK")
      case True
      with Suc.IH [of s2] Suc.prems Inr p obtain m s1
        where "m < n" "steps step m s2 = Some s1" "step s1 = Inr (reason, s')" by auto
      with Inr p True show ?thesis by (intro exI [of _ "Suc m"]) auto
    next
      case False
      with Suc.prems Inr p show ?thesis by (intro exI [of _ 0]) auto
    qed
  qed (use Suc.prems in simp)
qed simp

end

end
