(* ===== verification/Pdp8.thy ===== *)
theory Pdp8
  imports Breakpoint Numbers InstrLoop
begin

text \<open>
  The PDP-8 processor, \<^verbatim>\<open>src/simulators/PDP8/pdp8_cpu.c\<close>: instruction fetch with events,
  interrupts and breakpoints, the eight opcodes with both modes of the extended arithmetic
  element, the processor's own IOT instructions, and the memory, reset and dispatch-table
  routines.  The machine record extends the breakpoint package's state.  The locals
  \<^verbatim>\<open>PC\<close>, \<^verbatim>\<open>IF\<close>, \<^verbatim>\<open>DF\<close>, \<^verbatim>\<open>LAC\<close> and \<^verbatim>\<open>MQ\<close> of
  \<^verbatim>\<open>sim_instr\<close> are the fields with the prefix \<open>r\<close>.  An \<^verbatim>\<open>int32_t\<close> register is a
  32-bit word; every register holds a non-negative value (the invariant proved below), so
  unsigned comparison and logical shift are those of the code.  Constants written in octal in
  the code are written in hexadecimal here.
\<close>

unbundle bit_operations_syntax

subsection \<open>State\<close>

record InstHistory =
  hist_pc :: u32
  hist_ea :: u32
  hist_ir :: u32
  hist_opnd :: u32
  hist_lac :: u32
  hist_mq :: u32

record pdp8 = brkst +
  mem :: "u32 \<Rightarrow> u32"
  memsize :: u32
  noeae :: bool
  rPC :: u32
  rIF :: u32
  rDF :: u32
  rLAC :: u32
  rMQ :: u32
  saved_PC :: u32
  saved_DF :: u32
  saved_LAC :: u32
  saved_MQ :: u32
  rIB :: u32
  rSF :: u32
  emode :: u32
  gtf :: u32
  rSC :: u32
  rUB :: u32
  rUF :: u32
  rSR :: u32
  tsc_ir :: u32
  tsc_pc :: u32
  tsc_cdf :: u32
  tsc_enb :: u32
  cpu_astop :: u32
  pcq :: "nat \<Rightarrow> u32"
  pcq_p :: u32
  pcq_qptr :: u32
  dev_done :: u32
  int_enable :: u32
  int_req :: u32
  stop_inst :: t_stat
  hst_p :: nat
  hst_lnt :: nat
  hst :: "InstHistory list"

abbreviation (input) STOP_HALT :: t_stat where "STOP_HALT \<equiv> 2"
abbreviation (input) STOP_IBKPT :: t_stat where "STOP_IBKPT \<equiv> 3"
abbreviation (input) STOP_OPBKPT :: t_stat where "STOP_OPBKPT \<equiv> 4"
abbreviation (input) STOP_LOOP :: t_stat where "STOP_LOOP \<equiv> 7"

abbreviation (input) INT_TTI :: u32 where "INT_TTI \<equiv> 0x10"
abbreviation (input) INT_DEV_ENABLE :: u32 where "INT_DEV_ENABLE \<equiv> 0x3FFF"
abbreviation (input) INT_PWR :: u32 where "INT_PWR \<equiv> 0x400000"
abbreviation (input) INT_UF :: u32 where "INT_UF \<equiv> 0x800000"
abbreviation (input) INT_TSC :: u32 where "INT_TSC \<equiv> 0x1000000"
abbreviation (input) INT_ALL :: u32 where "INT_ALL \<equiv> 0x3FFFFFF"
abbreviation (input) INT_NO_ION_PENDING :: u32 where "INT_NO_ION_PENDING \<equiv> 0x4000000"
abbreviation (input) INT_NO_CIF_PENDING :: u32 where "INT_NO_CIF_PENDING \<equiv> 0x8000000"
abbreviation (input) INT_ION :: u32 where "INT_ION \<equiv> 0x10000000"
abbreviation (input) INT_PENDING :: u32 where "INT_PENDING \<equiv> 0x1C000000"
abbreviation (input) INT_INIT_ENABLE :: u32 where "INT_INIT_ENABLE \<equiv> 0x45F"

text \<open>
  What the processor calls: the service routines of the units, the device dispatch table, the
  reset of all devices, and the idle detection of the timer package.
\<close>

record 's pdp8_env =
  units :: "'s unit_ops"
  dev_tab :: "u32 \<Rightarrow> (u32 \<Rightarrow> u32 \<Rightarrow> 's \<Rightarrow> u32 \<times> 's) option"
  reset_all :: "'s \<Rightarrow> 's"
  sim_idle_enab :: "'s \<Rightarrow> bool"
  sim_idle :: "'s \<Rightarrow> 's"

subsection \<open>Common steps\<close>

definition MEM_ADDR_OK :: "u32 \<Rightarrow> 'a pdp8_scheme \<Rightarrow> bool" where
  "MEM_ADDR_OK a s \<longleftrightarrow> a < memsize s"

definition write_mem :: "u32 \<Rightarrow> u32 \<Rightarrow> 'a pdp8_scheme \<Rightarrow> 'a pdp8_scheme" where
  "write_mem a v s = s\<lparr>mem := (mem s)(a := v)\<rparr>"

text \<open>A routine the processor calls cannot change the local variables of \<^verbatim>\<open>sim_instr\<close>.\<close>

definition keep_locals :: "'a pdp8_scheme \<Rightarrow> 'a pdp8_scheme \<Rightarrow> 'a pdp8_scheme" where
  "keep_locals s s' =
     s'\<lparr>rPC := rPC s, rIF := rIF s, rDF := rDF s, rLAC := rLAC s, rMQ := rMQ s\<rparr>"

text \<open>The macro \<^verbatim>\<open>PCQ_ENTRY\<close>.\<close>

definition pcq_entry :: "u32 \<Rightarrow> 'a pdp8_scheme \<Rightarrow> 'a pdp8_scheme" where
  "pcq_entry x s =
     (let p = (pcq_p s - 1) AND 0x3F in s\<lparr>pcq_p := p, pcq := (pcq s)(unat p := x)\<rparr>)"

definition skip :: "'a pdp8_scheme \<Rightarrow> 'a pdp8_scheme" where
  "skip s = s\<lparr>rPC := (rPC s + 1) AND 0xFFF\<rparr>"

text \<open>The word an indirect reference goes through, incremented first in locations 10-17.\<close>

definition indirect :: "u32 \<Rightarrow> 'a pdp8_scheme \<Rightarrow> u32 \<times> 'a pdp8_scheme" where
  "indirect a s =
     (if a AND 0xFF8 \<noteq> 8 then (mem s a, s)
      else let v = (mem s a + 1) AND 0xFFF in (v, write_mem a v s))"

text \<open>
  The effective address of AND, TAD, ISZ and DCA, decoded from the page and indirect bits;
  \<open>MA\<close> is the address of the instruction.
\<close>

definition operand_addr :: "u32 \<Rightarrow> u32 \<Rightarrow> 'a pdp8_scheme \<Rightarrow> u32 \<times> 'a pdp8_scheme" where
  "operand_addr IR MA s =
     (let a = (if IR AND 0x80 = 0 then rIF s OR (IR AND 0x7F) else (MA AND 0x7F80) OR (IR AND 0x7F))
      in if IR AND 0x100 = 0 then (a, s)
         else let (v, s1) = indirect a s in (rDF s OR v, s1))"

subsection \<open>Opcodes 0 to 3\<close>

definition op_and :: "u32 \<Rightarrow> u32 \<Rightarrow> 'a pdp8_scheme \<Rightarrow> 'a pdp8_scheme" where
  "op_and IR MA s =
     (let (a, s1) = operand_addr IR MA s in s1\<lparr>rLAC := rLAC s1 AND (mem s1 a OR 0x1000)\<rparr>)"

definition op_tad :: "u32 \<Rightarrow> u32 \<Rightarrow> 'a pdp8_scheme \<Rightarrow> 'a pdp8_scheme" where
  "op_tad IR MA s =
     (let (a, s1) = operand_addr IR MA s in s1\<lparr>rLAC := (rLAC s1 + mem s1 a) AND 0x1FFF\<rparr>)"

definition op_isz :: "u32 \<Rightarrow> u32 \<Rightarrow> 'a pdp8_scheme \<Rightarrow> 'a pdp8_scheme" where
  "op_isz IR MA s =
     (let (a, s1) = operand_addr IR MA s;
          MB = (mem s1 a + 1) AND 0xFFF;
          s2 = (if IR AND 0x100 = 0 \<or> MEM_ADDR_OK a s1 then write_mem a MB s1 else s1)
      in if MB = 0 then skip s2 else s2)"

definition op_dca :: "u32 \<Rightarrow> u32 \<Rightarrow> 'a pdp8_scheme \<Rightarrow> 'a pdp8_scheme" where
  "op_dca IR MA s =
     (let (a, s1) = operand_addr IR MA s;
          s2 = (if IR AND 0x100 = 0 \<or> MEM_ADDR_OK a s1 then write_mem a (rLAC s1 AND 0xFFF) s1 else s1)
      in s2\<lparr>rLAC := rLAC s2 AND 0x1000\<rparr>)"

subsection \<open>Opcodes 4 and 5\<close>

text \<open>The field-relative target of JMS and JMP.\<close>

definition jump_addr :: "u32 \<Rightarrow> u32 \<Rightarrow> 'a pdp8_scheme \<Rightarrow> u32 \<times> 'a pdp8_scheme" where
  "jump_addr IR MA s =
     (if IR AND 0x100 = 0
      then (if IR AND 0x80 = 0 then IR AND 0x7F else (MA AND 0xF80) OR (IR AND 0x7F), s)
      else indirect (if IR AND 0x80 = 0 then rIF s OR (IR AND 0x7F) else (MA AND 0x7F80) OR (IR AND 0x7F)) s)"

definition tsc_save :: "u32 \<Rightarrow> 'a pdp8_scheme \<Rightarrow> 'a pdp8_scheme" where
  "tsc_save IR s = (if rUF s \<noteq> 0 then s\<lparr>tsc_ir := IR, tsc_cdf := 0\<rparr> else s)"

definition tsc_trap :: "'a pdp8_scheme \<Rightarrow> 'a pdp8_scheme" where
  "tsc_trap s = s\<lparr>tsc_pc := (rPC s - 1) AND 0xFFF, int_req := int_req s OR INT_TSC\<rparr>"

definition change_fields :: "'a pdp8_scheme \<Rightarrow> 'a pdp8_scheme" where
  "change_fields s =
     s\<lparr>rIF := rIB s, rUF := rUB s, int_req := int_req s OR INT_NO_CIF_PENDING\<rparr>"

definition op_jms :: "u32 \<Rightarrow> u32 \<Rightarrow> 'a pdp8_scheme \<Rightarrow> 'a pdp8_scheme" where
  "op_jms IR MA s =
     (let (a, s1) = jump_addr IR MA (pcq_entry MA s);
          s2 = tsc_save IR s1;
          (a', s3) = (if rUF s2 \<noteq> 0 \<and> tsc_enb s2 \<noteq> 0 then (a, tsc_trap s2)
                      else let s' = change_fields s2; a' = rIF s' OR a
                           in (a', if MEM_ADDR_OK a' s' then write_mem a' (rPC s') s' else s'))
      in s3\<lparr>rPC := (a' + 1) AND 0xFFF\<rparr>)"

text \<open>The check of a direct jump for the idle loops \<^verbatim>\<open>KSF; JMP .-1\<close> and \<^verbatim>\<open>JMP .\<close>\<close>

definition jump_idle ::
  "('a pdp8_scheme) pdp8_env \<Rightarrow> u32 \<Rightarrow> 'a pdp8_scheme \<Rightarrow> t_stat \<times> 'a pdp8_scheme" where
  "jump_idle env a s =
     (if sim_idle_enab env s \<and> rIF s = rIB s
      then (if a = (rPC s - 2) AND 0xFFF
            then (if int_req s AND (INT_ION OR INT_TTI) = 0 \<and>
                     mem s (rIB s OR ((rPC s - 2) AND 0xFFF)) = 0xC19
                  then (SCPE_OK, keep_locals s (sim_idle env s)) else (SCPE_OK, s))
            else if a = (rPC s - 1) AND 0xFFF
            then (if int_req s AND INT_ION = 0 then (STOP_LOOP, s)
                  else if int_req s AND INT_ALL = 0 then (SCPE_OK, keep_locals s (sim_idle env s))
                  else (SCPE_OK, s))
            else (SCPE_OK, s))
      else (SCPE_OK, s))"

definition op_jmp ::
  "('a pdp8_scheme) pdp8_env \<Rightarrow> u32 \<Rightarrow> u32 \<Rightarrow> 'a pdp8_scheme \<Rightarrow> t_stat \<times> 'a pdp8_scheme" where
  "op_jmp env IR MA s =
     (let (a, s1) = jump_addr IR MA (pcq_entry MA s);
          s2 = tsc_save IR s1;
          s3 = (if rUF s2 \<noteq> 0 \<and> tsc_enb s2 \<noteq> 0 then tsc_trap s2 else s2);
          (reason, s4) = (if IR AND 0x180 = 0x80 then jump_idle env a s3 else (SCPE_OK, s3))
      in (reason, (change_fields s4)\<lparr>rPC := a\<rparr>))"

subsection \<open>Opcode 7, group 1\<close>

definition opr1_logic :: "u32 \<Rightarrow> u32 \<Rightarrow> u32" where
  "opr1_logic k LAC =
     (if k = 0 then LAC
      else if k = 1 then LAC XOR 0x1000
      else if k = 2 then LAC XOR 0xFFF
      else if k = 3 then LAC XOR 0x1FFF
      else if k = 4 then LAC AND 0xFFF
      else if k = 5 then LAC OR 0x1000
      else if k = 6 then (LAC XOR 0xFFF) AND 0xFFF
      else if k = 7 then (LAC XOR 0xFFF) OR 0x1000
      else if k = 8 then LAC AND 0x1000
      else if k = 9 then (LAC AND 0x1000) XOR 0x1000
      else if k = 10 then LAC OR 0xFFF
      else if k = 11 then (LAC OR 0xFFF) XOR 0x1000
      else if k = 12 then 0
      else if k = 13 then 0x1000
      else if k = 14 then 0xFFF
      else 0x1FFF)"

definition opr1_shift :: "u32 \<Rightarrow> u32 \<Rightarrow> u32 \<Rightarrow> u32 \<Rightarrow> u32" where
  "opr1_shift k IR MA LAC =
     (if k = 0 then LAC
      else if k = 1 then (LAC AND 0x1000) OR (drop_bit 6 LAC AND 0x3F) OR push_bit 6 (LAC AND 0x3F)
      else if k = 2 then (push_bit 1 LAC OR drop_bit 12 LAC) AND 0x1FFF
      else if k = 3 then (push_bit 2 LAC OR drop_bit 11 LAC) AND 0x1FFF
      else if k = 4 then (drop_bit 1 LAC OR push_bit 12 LAC) AND 0x1FFF
      else if k = 5 then (drop_bit 2 LAC OR push_bit 11 LAC) AND 0x1FFF
      else if k = 6 then LAC AND (IR OR 0x1000)
      else (LAC AND 0x1000) OR (MA AND 0xF80) OR (IR AND 0x7F))"

definition op_opr1 :: "u32 \<Rightarrow> u32 \<Rightarrow> 'a pdp8_scheme \<Rightarrow> 'a pdp8_scheme" where
  "op_opr1 IR MA s =
     (let l1 = opr1_logic (drop_bit 4 IR AND 0xF) (rLAC s);
          l2 = (if IR AND 1 \<noteq> 0 then (l1 + 1) AND 0x1FFF else l1)
      in s\<lparr>rLAC := opr1_shift (drop_bit 1 IR AND 7) IR MA l2\<rparr>)"

subsection \<open>Opcode 7, group 2\<close>

definition opr2_skips :: "u32 \<Rightarrow> u32 \<Rightarrow> bool" where
  "opr2_skips k LAC =
     (if k = 0 then False
      else if k = 1 then True
      else if k = 2 then LAC \<ge> 0x1000
      else if k = 3 then LAC < 0x1000
      else if k = 4 then LAC AND 0xFFF = 0
      else if k = 5 then LAC AND 0xFFF \<noteq> 0
      else if k = 6 then LAC = 0 \<or> LAC \<ge> 0x1000
      else if k = 7 then LAC \<noteq> 0 \<and> LAC < 0x1000
      else if k = 8 then LAC AND 0x800 \<noteq> 0
      else if k = 9 then LAC AND 0x800 = 0
      else if k = 10 then LAC \<ge> 0x800
      else if k = 11 then LAC < 0x800
      else if k = 12 then LAC AND 0x800 \<noteq> 0 \<or> LAC AND 0xFFF = 0
      else if k = 13 then LAC AND 0x800 = 0 \<and> LAC AND 0xFFF \<noteq> 0
      else if k = 14 then LAC \<ge> 0x800 \<or> LAC = 0
      else LAC < 0x800 \<and> LAC \<noteq> 0)"

definition op_opr2 :: "u32 \<Rightarrow> 'a pdp8_scheme \<Rightarrow> t_stat \<times> 'a pdp8_scheme" where
  "op_opr2 IR s =
     (let s1 = (if opr2_skips (drop_bit 3 IR AND 0xF) (rLAC s) then skip s else s);
          s2 = (if IR AND 0x80 \<noteq> 0 then s1\<lparr>rLAC := rLAC s1 AND 0x1000\<rparr> else s1)
      in if IR AND 6 \<noteq> 0 \<and> rUF s2 \<noteq> 0
         then (SCPE_OK, s2\<lparr>int_req := int_req s2 OR INT_UF, tsc_ir := IR, tsc_cdf := 0\<rparr>)
         else (if IR AND 2 \<noteq> 0 then STOP_HALT else SCPE_OK,
               if IR AND 4 \<noteq> 0 then s2\<lparr>rLAC := rLAC s2 OR rSR s2\<rparr> else s2))"

subsection \<open>Opcode 7, group 3\<close>

definition or_sc :: "'a pdp8_scheme \<Rightarrow> 'a pdp8_scheme" where
  "or_sc s = s\<lparr>rLAC := rLAC s OR rSC s\<rparr>"

text \<open>The word behind an EAE instruction: an operand in mode A, the address of one in mode B.\<close>

definition eae_defer :: "'a pdp8_scheme \<Rightarrow> u32 \<times> 'a pdp8_scheme" where
  "eae_defer s = (let (v, s1) = indirect (rIF s OR rPC s) s in (rDF s OR v, s1))"

definition eae_operand :: "'a pdp8_scheme \<Rightarrow> u32 \<times> 'a pdp8_scheme" where
  "eae_operand s = (if emode s \<noteq> 0 then eae_defer s else (rIF s OR rPC s, s))"

definition eae_dad :: "'a pdp8_scheme \<Rightarrow> 'a pdp8_scheme" where
  "eae_dad s =
     (let (a, s1) = eae_defer s;
          mq = rMQ s1 + mem s1 a;
          a' = rDF s1 OR ((a + 1) AND 0xFFF)
      in skip (s1\<lparr>rLAC := (rLAC s1 AND 0xFFF) + mem s1 a' + drop_bit 12 mq, rMQ := mq AND 0xFFF\<rparr>))"

definition eae_acs_scl :: "'a pdp8_scheme \<Rightarrow> 'a pdp8_scheme" where
  "eae_acs_scl s =
     (if emode s \<noteq> 0 then s\<lparr>rSC := rLAC s AND 0x1F, rLAC := rLAC s AND 0x1000\<rparr>
      else skip (s\<lparr>rSC := NOT (mem s (rIF s OR rPC s)) AND 0x1F\<rparr>))"

definition eae_dst :: "'a pdp8_scheme \<Rightarrow> 'a pdp8_scheme" where
  "eae_dst s =
     (let (a, s1) = eae_defer s;
          s2 = (if MEM_ADDR_OK a s1 then write_mem a (rMQ s1 AND 0xFFF) s1 else s1);
          a' = rDF s2 OR ((a + 1) AND 0xFFF);
          s3 = (if MEM_ADDR_OK a' s2 then write_mem a' (rLAC s2 AND 0xFFF) s2 else s2)
      in skip s3)"

definition eae_muy :: "'a pdp8_scheme \<Rightarrow> 'a pdp8_scheme" where
  "eae_muy s =
     (let (a, s1) = eae_operand s;
          temp = rMQ s1 * mem s1 a + (rLAC s1 AND 0xFFF)
      in (skip (s1\<lparr>rLAC := drop_bit 12 temp AND 0xFFF, rMQ := temp AND 0xFFF\<rparr>))\<lparr>rSC := 12\<rparr>)"

definition eae_dvi :: "'a pdp8_scheme \<Rightarrow> 'a pdp8_scheme" where
  "eae_dvi s =
     (let (a, s1) = eae_operand s in
      if rLAC s1 AND 0xFFF \<ge> mem s1 a
      then skip (s1\<lparr>rLAC := rLAC s1 OR 0x1000, rMQ := (push_bit 1 (rMQ s1) + 1) AND 0xFFF, rSC := 0\<rparr>)
      else let temp = push_bit 12 (rLAC s1 AND 0xFFF) OR rMQ s1
           in skip (s1\<lparr>rMQ := temp div mem s1 a, rLAC := temp mod mem s1 a, rSC := 13\<rparr>))"

definition eae_dpsz :: "'a pdp8_scheme \<Rightarrow> 'a pdp8_scheme" where
  "eae_dpsz s = (if (rLAC s OR rMQ s) AND 0xFFF = 0 then skip s else s)"

text \<open>The normalisation loop, with the shift count; twenty-three tests are always enough.\<close>

definition nmi_more :: "u32 \<Rightarrow> bool" where
  "nmi_more temp \<longleftrightarrow> temp AND 0x3FFFFF \<noteq> 0 \<and> temp AND 0x800000 = push_bit 1 temp AND 0x800000"

primrec nmi_loop :: "nat \<Rightarrow> u32 \<Rightarrow> u32 \<Rightarrow> u32 \<times> u32" where
  "nmi_loop 0 temp sc = (temp, sc)"
| "nmi_loop (Suc fuel) temp sc =
     (if nmi_more temp then nmi_loop fuel (push_bit 1 temp) (sc + 1) else (temp, sc))"

definition eae_nmi :: "'a pdp8_scheme \<Rightarrow> 'a pdp8_scheme" where
  "eae_nmi s =
     (let (temp, sc) = nmi_loop 23 (push_bit 12 (rLAC s) OR rMQ s) 0;
          lac = drop_bit 12 temp AND 0x1FFF; mq = temp AND 0xFFF
      in s\<lparr>rSC := sc, rMQ := mq,
           rLAC := (if emode s \<noteq> 0 \<and> lac AND 0xFFF = 0x800 \<and> mq = 0 then lac AND 0x1000 else lac)\<rparr>)"

definition eae_dpic :: "'a pdp8_scheme \<Rightarrow> 'a pdp8_scheme" where
  "eae_dpic s =
     (let temp = (rLAC s + 1) AND 0xFFF
      in s\<lparr>rLAC := rMQ s + (if temp = 0 then 1 else 0), rMQ := temp\<rparr>)"

definition eae_count :: "'a pdp8_scheme \<Rightarrow> u32" where
  "eae_count s = (mem s (rIF s OR rPC s) AND 0x1F) + (emode s XOR 1)"

text \<open>What the three shifts share: splitting the result, skipping the count, the final \<^verbatim>\<open>SC\<close>.\<close>

definition eae_shifted :: "u32 \<Rightarrow> u32 \<Rightarrow> 'a pdp8_scheme \<Rightarrow> 'a pdp8_scheme" where
  "eae_shifted lacmask temp s =
     (skip (s\<lparr>rLAC := drop_bit 12 temp AND lacmask, rMQ := temp AND 0xFFF\<rparr>))
       \<lparr>rSC := (if emode s \<noteq> 0 then 0x1F else 0)\<rparr>"

definition eae_shl :: "'a pdp8_scheme \<Rightarrow> 'a pdp8_scheme" where
  "eae_shl s =
     (let sc = eae_count s;
          temp = (if sc > 25 then 0 else push_bit (unat sc) (push_bit 12 (rLAC s) OR rMQ s))
      in eae_shifted 0x1FFF temp s)"

definition eae_dcm :: "'a pdp8_scheme \<Rightarrow> 'a pdp8_scheme" where
  "eae_dcm s =
     (let temp = (- rLAC s) AND 0xFFF
      in s\<lparr>rLAC := (rMQ s XOR 0xFFF) + (if temp = 0 then 1 else 0), rMQ := temp\<rparr>)"

definition eae_asr :: "'a pdp8_scheme \<Rightarrow> 'a pdp8_scheme" where
  "eae_asr s =
     (let sc = eae_count s;
          t0 = push_bit 12 (rLAC s AND 0xFFF) OR rMQ s;
          t1 = (if rLAC s AND 0x800 \<noteq> 0 then t0 OR 0xFF000000 else t0);
          s1 = (if emode s \<noteq> 0 \<and> sc \<noteq> 0
                then s\<lparr>gtf := signed_drop_bit (unat sc - 1) t1 AND 1\<rparr> else s);
          temp = (if sc > 25 then (if rLAC s AND 0x800 \<noteq> 0 then - 1 else 0)
                  else signed_drop_bit (unat sc) t1)
      in eae_shifted 0x1FFF temp s1)"

definition eae_sam :: "'a pdp8_scheme \<Rightarrow> 'a pdp8_scheme" where
  "eae_sam s =
     (let temp = rLAC s AND 0xFFF
      in s\<lparr>rLAC := rMQ s + (temp XOR 0xFFF) + 1,
           gtf := (if temp \<le> rMQ s then 1 else 0) XOR drop_bit 11 (temp XOR rMQ s)\<rparr>)"

definition eae_lsr :: "'a pdp8_scheme \<Rightarrow> 'a pdp8_scheme" where
  "eae_lsr s =
     (let sc = eae_count s;
          t0 = push_bit 12 (rLAC s AND 0xFFF) OR rMQ s;
          s1 = (if emode s \<noteq> 0 \<and> sc \<noteq> 0 then s\<lparr>gtf := drop_bit (unat sc - 1) t0 AND 1\<rparr> else s);
          temp = (if sc > 24 then 0 else drop_bit (unat sc) t0)
      in eae_shifted 0xFFF temp s1)"

text \<open>
  The decode of \<^verbatim>\<open>IR<6,8:10>\<close>: with bit 6 the mode B operation, or in mode A the
  \<^verbatim>\<open>SCA\<close> before the mode A operation of the remaining bits.
\<close>

definition eae_dispatch :: "u32 \<Rightarrow> 'a pdp8_scheme \<Rightarrow> 'a pdp8_scheme" where
  "eae_dispatch k s =
     (let b = (emode s \<noteq> 0) in
      if k = 0x10 then or_sc s
      else if k = 0 then s
      else if k = 0x11 then (if b then eae_dad s else eae_acs_scl (or_sc s))
      else if k = 1 then eae_acs_scl s
      else if k = 0x12 then (if b then eae_dst s else eae_muy (or_sc s))
      else if k = 2 then eae_muy s
      else if k = 0x13 then (if b then s else eae_dvi (or_sc s))
      else if k = 3 then eae_dvi s
      else if k = 0x14 then (if b then eae_dpsz s else eae_nmi (or_sc s))
      else if k = 4 then eae_nmi s
      else if k = 0x15 then (if b then eae_dpic s else eae_shl (or_sc s))
      else if k = 5 then eae_shl s
      else if k = 0x16 then (if b then eae_dcm s else eae_asr (or_sc s))
      else if k = 6 then eae_asr s
      else if k = 0x17 then (if b then eae_sam s else eae_lsr (or_sc s))
      else eae_lsr s)"

text \<open>The part of group 3 every model has: \<^verbatim>\<open>CLA\<close>, \<^verbatim>\<open>MQL\<close>, \<^verbatim>\<open>MQA\<close>.\<close>

definition opr3_std :: "u32 \<Rightarrow> 'a pdp8_scheme \<Rightarrow> 'a pdp8_scheme" where
  "opr3_std IR s =
     (let temp = rMQ s;
          s1 = (if IR AND 0x80 \<noteq> 0 then s\<lparr>rLAC := rLAC s AND 0x1000\<rparr> else s);
          s2 = (if IR AND 0x10 \<noteq> 0
                then s1\<lparr>rMQ := rLAC s1 AND 0xFFF, rLAC := rLAC s1 AND 0x1000\<rparr> else s1)
      in if IR AND 0x40 \<noteq> 0 then s2\<lparr>rLAC := rLAC s2 OR temp\<rparr> else s2)"

definition op_opr3 :: "u32 \<Rightarrow> 'a pdp8_scheme \<Rightarrow> t_stat \<times> 'a pdp8_scheme" where
  "op_opr3 IR s0 =
     (let s = opr3_std IR s0
      in if IR AND 0x2E \<noteq> 0 \<and> noeae s then (stop_inst s, s)
         else if IR = 0xF19 then (SCPE_OK, s\<lparr>emode := 1\<rparr>)
         else if IR = 0xF27 then (SCPE_OK, s\<lparr>emode := 0, gtf := 0\<rparr>)
         else let s1 = (if emode s = 0 then s\<lparr>gtf := 0\<rparr> else s)
              in (SCPE_OK, eae_dispatch (drop_bit 1 IR AND 0x17) s1))"

subsection \<open>Opcode 6\<close>

definition iot_cpu :: "('a pdp8_scheme) pdp8_env \<Rightarrow> u32 \<Rightarrow> 'a pdp8_scheme \<Rightarrow> 'a pdp8_scheme" where
  "iot_cpu env pulse s =
     (if pulse = 0
      then (let s1 = (if int_req s AND INT_ION \<noteq> 0 then skip s else s)
            in s1\<lparr>int_req := int_req s1 AND NOT INT_ION\<rparr>)
      else if pulse = 1 then s\<lparr>int_req := (int_req s OR INT_ION) AND NOT INT_NO_ION_PENDING\<rparr>
      else if pulse = 2 then s\<lparr>int_req := int_req s AND NOT INT_ION\<rparr>
      else if pulse = 3 then (if int_req s AND INT_ALL \<noteq> 0 then skip s else s)
      else if pulse = 4
      then s\<lparr>rLAC := (rLAC s AND 0x1000) OR drop_bit 1 (rLAC s AND 0x1000) OR push_bit 10 (gtf s) OR
                     push_bit 9 (if int_req s AND INT_ALL \<noteq> 0 then 1 else 0) OR
                     push_bit 7 (if int_req s AND INT_ION \<noteq> 0 then 1 else 0) OR rSF s\<rparr>
      else if pulse = 5
      then s\<lparr>gtf := drop_bit 10 (rLAC s AND 0x400), rUB := drop_bit 6 (rLAC s AND 0x40),
             rIB := push_bit 9 (rLAC s AND 0x38), rDF := push_bit 12 (rLAC s AND 7),
             rLAC := push_bit 1 (rLAC s AND 0x800) OR (rLAC s AND 0xFFF),
             int_req := (int_req s OR INT_ION) AND NOT INT_NO_CIF_PENDING\<rparr>
      else if pulse = 6 then (if gtf s \<noteq> 0 then skip s else s)
      else (let s1 = s\<lparr>gtf := 0, emode := 0, int_req := int_req s AND INT_NO_CIF_PENDING,
                       dev_done := 0, int_enable := INT_INIT_ENABLE, rLAC := 0\<rparr>
            in keep_locals s1 (reset_all env s1)))"

definition iot_memext_4 :: "u32 \<Rightarrow> 'a pdp8_scheme \<Rightarrow> 'a pdp8_scheme" where
  "iot_memext_4 device s =
     (let k = device AND 7 in
      if k = 0 then s\<lparr>int_req := int_req s AND NOT INT_UF\<rparr>
      else if k = 1 then s\<lparr>rLAC := rLAC s OR drop_bit 9 (rDF s)\<rparr>
      else if k = 2 then s\<lparr>rLAC := rLAC s OR drop_bit 9 (rIF s)\<rparr>
      else if k = 3 then s\<lparr>rLAC := rLAC s OR rSF s\<rparr>
      else if k = 4
      then s\<lparr>rUB := drop_bit 6 (rSF s AND 0x40), rIB := push_bit 9 (rSF s AND 0x38),
             rDF := push_bit 12 (rSF s AND 7), int_req := int_req s AND NOT INT_NO_CIF_PENDING\<rparr>
      else if k = 5 then (if int_req s AND INT_UF \<noteq> 0 then skip s else s)
      else if k = 6 then s\<lparr>rUB := 0, int_req := int_req s AND NOT INT_NO_CIF_PENDING\<rparr>
      else s\<lparr>rUB := 1, int_req := int_req s AND NOT INT_NO_CIF_PENDING\<rparr>)"

definition iot_memext :: "u32 \<Rightarrow> u32 \<Rightarrow> u32 \<Rightarrow> 'a pdp8_scheme \<Rightarrow> t_stat \<times> 'a pdp8_scheme" where
  "iot_memext IR device pulse s =
     (let f = push_bit 9 (IR AND 0x38) in
      if pulse = 1 then (SCPE_OK, s\<lparr>rDF := f\<rparr>)
      else if pulse = 2 then (SCPE_OK, s\<lparr>rIB := f, int_req := int_req s AND NOT INT_NO_CIF_PENDING\<rparr>)
      else if pulse = 3
      then (SCPE_OK, s\<lparr>rIB := f, rDF := f, int_req := int_req s AND NOT INT_NO_CIF_PENDING\<rparr>)
      else if pulse = 4 then (SCPE_OK, iot_memext_4 device s)
      else (stop_inst s, s))"

definition iot_power :: "u32 \<Rightarrow> 'a pdp8_scheme \<Rightarrow> t_stat \<times> 'a pdp8_scheme" where
  "iot_power pulse s =
     (if pulse = 1 then (SCPE_OK, s)
      else if pulse = 2 then (SCPE_OK, if int_req s AND INT_PWR \<noteq> 0 then skip s else s)
      else if pulse = 3 then (SCPE_OK, s\<lparr>int_req := int_req s AND NOT INT_PWR\<rparr>)
      else (stop_inst s, s))"

definition iot_device ::
  "('a pdp8_scheme) pdp8_env \<Rightarrow> u32 \<Rightarrow> u32 \<Rightarrow> 'a pdp8_scheme \<Rightarrow> t_stat \<times> 'a pdp8_scheme" where
  "iot_device env IR device s =
     (case dev_tab env device of
        None \<Rightarrow> (stop_inst s, s)
      | Some f \<Rightarrow>
          (let (iot_data, s0) = f IR (rLAC s AND 0xFFF) s;
               s1 = keep_locals s s0;
               s2 = s1\<lparr>rLAC := (rLAC s1 AND 0x1000) OR (iot_data AND 0xFFF)\<rparr>;
               s3 = (if iot_data AND 0x1000 \<noteq> 0 then skip s2 else s2)
           in (if 0x2000 \<le>s iot_data then sint (signed_drop_bit 13 iot_data) else SCPE_OK, s3)))"

definition op_iot ::
  "('a pdp8_scheme) pdp8_env \<Rightarrow> u32 \<Rightarrow> 'a pdp8_scheme \<Rightarrow> t_stat \<times> 'a pdp8_scheme" where
  "op_iot env IR s =
     (if rUF s \<noteq> 0
      then (SCPE_OK, s\<lparr>int_req := int_req s OR INT_UF, tsc_ir := IR,
                       tsc_cdf := (if IR AND 0xFC7 = 0xC81 then 1 else 0)\<rparr>)
      else let device = drop_bit 3 IR AND 0x3F; pulse = IR AND 7 in
      if device = 0 then (SCPE_OK, iot_cpu env pulse s)
      else if 0x10 \<le> device \<and> device \<le> 0x17 then iot_memext IR device pulse s
      else if device = 8 then iot_power pulse s
      else iot_device env IR device s)"

subsection \<open>The instruction loop\<close>

definition take_interrupt :: "'a pdp8_scheme \<Rightarrow> 'a pdp8_scheme" where
  "take_interrupt s =
     (if INT_PENDING <s int_req s
      then let s1 = s\<lparr>int_req := int_req s AND NOT INT_ION,
                      rSF := push_bit 6 (rUF s) OR drop_bit 9 (rIF s) OR drop_bit 12 (rDF s)\<rparr>;
               s2 = pcq_entry (rIF s1 OR rPC s1) s1;
               s3 = s2\<lparr>rIF := 0, rIB := 0, rDF := 0, rUF := 0, rUB := 0\<rparr>
           in (write_mem 0 (rPC s3) s3)\<lparr>rPC := 1\<rparr>
      else s)"

definition hist_addr :: "u32 \<Rightarrow> u32 \<Rightarrow> 'a pdp8_scheme \<Rightarrow> u32" where
  "hist_addr IR MA s =
     (let ea = (if IR AND 0x80 \<noteq> 0 then (MA AND 0x7F80) OR (IR AND 0x7F) else rIF s OR (IR AND 0x7F));
          v = (if ea AND 0xFF8 \<noteq> 8 then mem s ea else (mem s ea + 1) AND 0xFFF)
      in if IR AND 0x100 \<noteq> 0
         then (if IR < 0x800 then rDF s OR v else rIB s OR v)
         else ea)"

definition record_history :: "u32 \<Rightarrow> u32 \<Rightarrow> 'a pdp8_scheme \<Rightarrow> 'a pdp8_scheme" where
  "record_history IR MA s =
     (if hst_lnt s \<noteq> 0
      then let p = (if hst_p s + 1 \<ge> hst_lnt s then 0 else hst_p s + 1);
               h0 = hst s ! p;
               h1 = h0\<lparr>hist_pc := MA OR 0x40000000, hist_ir := IR, hist_lac := rLAC s, hist_mq := rMQ s\<rparr>;
               ea = hist_addr IR MA s;
               h2 = (if IR < 0xC00 then h1\<lparr>hist_ea := ea, hist_opnd := mem s ea\<rparr> else h1)
           in s\<lparr>hst_p := p, hst := (hst s)[p := h2]\<rparr>
      else s)"

text \<open>The decode of \<^verbatim>\<open>IR<0:4>\<close>, by opcode.\<close>

definition execute ::
  "('a pdp8_scheme) pdp8_env \<Rightarrow> u32 \<Rightarrow> u32 \<Rightarrow> 'a pdp8_scheme \<Rightarrow> t_stat \<times> 'a pdp8_scheme" where
  "execute env IR MA s =
     (let opcode = drop_bit 9 IR AND 7 in
      if opcode = 0 then (SCPE_OK, op_and IR MA s)
      else if opcode = 1 then (SCPE_OK, op_tad IR MA s)
      else if opcode = 2 then (SCPE_OK, op_isz IR MA s)
      else if opcode = 3 then (SCPE_OK, op_dca IR MA s)
      else if opcode = 4 then (SCPE_OK, op_jms IR MA s)
      else if opcode = 5 then op_jmp env IR MA s
      else if opcode = 6 then op_iot env IR s
      else if IR AND 0x100 = 0 then (SCPE_OK, op_opr1 IR MA s)
      else if IR AND 1 = 0 then op_opr2 IR s
      else op_opr3 IR s)"

definition fetch :: "'a pdp8_scheme \<Rightarrow> 'a pdp8_scheme" where
  "fetch s =
     s\<lparr>rPC := (rPC s + 1) AND 0xFFF, int_req := int_req s OR INT_NO_ION_PENDING,
       sim_interval := sim_interval s - 1\<rparr>"

definition brk_check :: "t_addr \<Rightarrow> u32 \<Rightarrow> 'a pdp8_scheme \<Rightarrow> bool \<times> 'a pdp8_scheme" where
  "brk_check loc btyp s =
     (if sim_brk_summ s \<noteq> 0 then let (r, s1) = sim_brk_test loc btyp s in (r \<noteq> 0, s1) else (False, s))"

text \<open>The body of the loop from the interrupt check on.\<close>

definition instr_cycle ::
  "('a pdp8_scheme) pdp8_env \<Rightarrow> 'a pdp8_scheme \<Rightarrow> t_stat \<times> 'a pdp8_scheme" where
  "instr_cycle env s0 =
     (let s = take_interrupt s0;
          MA = rIF s OR rPC s;
          (stop, s1) = brk_check MA 0x20000010 s
      in if stop then (STOP_IBKPT, s1)
         else let IR = mem s1 MA;
                  (stop', s2) = brk_check IR 0x40000100 s1
              in if stop' then (STOP_OPBKPT, s2)
                 else execute env IR MA (record_history IR MA (fetch s2)))"

definition pdp8_step ::
  "nat \<Rightarrow> ('a pdp8_scheme) pdp8_env \<Rightarrow> 'a pdp8_scheme \<Rightarrow> ev_fault + t_stat \<times> 'a pdp8_scheme" where
  "pdp8_step fuel env s =
     (if cpu_astop s \<noteq> 0 then Inr (SCPE_STOP, s\<lparr>cpu_astop := 0\<rparr>)
      else if sim_interval s \<le> 0
      then (case sim_process_event fuel (units env) s of
              Inl f \<Rightarrow> Inl f
            | Inr (reason, s') \<Rightarrow>
                (let s1 = keep_locals s s'
                 in if reason \<noteq> SCPE_OK then Inr (reason, s1) else Inr (instr_cycle env s1)))
      else Inr (instr_cycle env s))"

subsection \<open>The device dispatch table\<close>

record 'd DIB =
  dib_dev :: nat
  dib_num :: nat
  dib_dsp :: "'d option list"
  dib_dsp_tbl :: "(nat \<times> 'd option) list option"

definition bad_dev :: "u32 \<Rightarrow> u32 \<Rightarrow> 's \<Rightarrow> u32 \<times> 's" where
  "bad_dev IR AC s = (push_bit 13 (of_int SCPE_IERR) OR AC, s)"

text \<open>Filling the entries of one device; \<^const>\<open>None\<close> is a device number conflict.\<close>

fun fill_slots :: "(nat \<times> 'd option) list \<Rightarrow> (nat \<Rightarrow> 'd option) \<Rightarrow> (nat \<Rightarrow> 'd option) option" where
  "fill_slots [] tab = Some tab"
| "fill_slots ((n, None) # r) tab = fill_slots r tab"
| "fill_slots ((n, Some f) # r) tab = (if tab n \<noteq> None then None else fill_slots r (tab(n \<mapsto> f)))"

definition dib_slots :: "'d DIB \<Rightarrow> (nat \<times> 'd option) list" where
  "dib_slots d =
     (case dib_dsp_tbl d of
        Some tbl \<Rightarrow> take (dib_num d) tbl
      | None \<Rightarrow> map (\<lambda>j. (dib_dev d + j, dib_dsp d ! j)) [0..<dib_num d])"

fun fill_devices :: "'d DIB option list \<Rightarrow> (nat \<Rightarrow> 'd option) \<Rightarrow> (nat \<Rightarrow> 'd option) option" where
  "fill_devices [] tab = Some tab"
| "fill_devices (None # ds) tab = fill_devices ds tab"
| "fill_devices (Some d # ds) tab =
     (case fill_slots (dib_slots d) tab of None \<Rightarrow> None | Some tab' \<Rightarrow> fill_devices ds tab')"

text \<open>
  \<open>devs\<close> are the devices of \<^verbatim>\<open>sim_devices\<close> in order: \<^const>\<open>None\<close> one that is disabled or
  has no information block.
\<close>

definition build_dev_tab :: "'d \<Rightarrow> 'd DIB option list \<Rightarrow> (nat \<Rightarrow> 'd option) option" where
  "build_dev_tab bad devs =
     fill_devices devs (\<lambda>n. if n \<in> set [0, 8, 16, 17, 18, 19, 20, 21, 22, 23] then Some bad else None)"

subsection \<open>Running\<close>

definition restore_regs :: "'a pdp8_scheme \<Rightarrow> 'a pdp8_scheme" where
  "restore_regs s =
     s\<lparr>rPC := saved_PC s AND 0xFFF, rIF := saved_PC s AND 0x7000, rDF := saved_DF s AND 0x7000,
       rLAC := saved_LAC s AND 0x1FFF, rMQ := saved_MQ s AND 0xFFF,
       int_req := (int_req s AND NOT INT_DEV_ENABLE) OR (dev_done s AND int_enable s)\<rparr>"

definition save_regs :: "'a pdp8_scheme \<Rightarrow> 'a pdp8_scheme" where
  "save_regs s =
     s\<lparr>saved_PC := rIF s OR (rPC s AND 0xFFF), saved_DF := rDF s AND 0x7000,
       saved_LAC := rLAC s AND 0x1FFF, saved_MQ := rMQ s AND 0xFFF, pcq_qptr := pcq_p s\<rparr>"

definition sim_instr ::
  "nat \<Rightarrow> nat \<Rightarrow> (u32 \<Rightarrow> u32 \<Rightarrow> 'a pdp8_scheme \<Rightarrow> u32 \<times> 'a pdp8_scheme) DIB option list \<Rightarrow>
   ('a pdp8_scheme) pdp8_env \<Rightarrow> 'a pdp8_scheme \<Rightarrow> (ev_fault + t_stat \<times> 'a pdp8_scheme) option" where
  "sim_instr n fuel devs env s =
     (case build_dev_tab bad_dev devs of
        None \<Rightarrow> Some (Inr (SCPE_STOP, s))
      | Some tab \<Rightarrow>
          (let env' = env\<lparr>dev_tab := (\<lambda>d. tab (unat d))\<rparr> in
           case instr_loop (pdp8_step fuel env') n (restore_regs s) of
             None \<Rightarrow> None
           | Some (Inl f) \<Rightarrow> Some (Inl f)
           | Some (Inr (reason, s')) \<Rightarrow> Some (Inr (reason, save_regs s'))))"

subsection \<open>Reset, examine, deposit and the settings\<close>

text \<open>\<open>found\<close>: whether \<^verbatim>\<open>find_reg\<close> returned the register \<^verbatim>\<open>PCQ\<close>.\<close>

definition cpu_reset :: "bool \<Rightarrow> 'a pdp8_scheme \<Rightarrow> t_stat \<times> 'a pdp8_scheme" where
  "cpu_reset found s =
     (let s1 = s\<lparr>saved_LAC := 0, int_req := (int_req s AND NOT INT_ION) OR INT_NO_CIF_PENDING,
                 saved_DF := saved_PC s AND 0x7000, rIB := saved_PC s AND 0x7000,
                 rUF := 0, rUB := 0, gtf := 0, emode := 0\<rparr>
      in if \<not> found then (SCPE_IERR, s1)
         else (SCPE_OK, s1\<lparr>pcq_qptr := 0, sim_brk_types := 0x110, sim_brk_dflt := 0x10\<rparr>))"

definition cpu_set_bootpc :: "u32 \<Rightarrow> 'a pdp8_scheme \<Rightarrow> 'a pdp8_scheme" where
  "cpu_set_bootpc pc s = s\<lparr>saved_PC := pc, saved_DF := pc AND 0x7000, rIB := pc AND 0x7000\<rparr>"

definition cpu_ex :: "t_addr \<Rightarrow> 'a pdp8_scheme \<Rightarrow> t_stat \<times> u32 option" where
  "cpu_ex addr s = (if addr \<ge> memsize s then (SCPE_NXM, None) else (SCPE_OK, Some (mem s addr AND 0xFFF)))"

definition cpu_dep :: "t_value \<Rightarrow> t_addr \<Rightarrow> 'a pdp8_scheme \<Rightarrow> t_stat \<times> 'a pdp8_scheme" where
  "cpu_dep val addr s =
     (if addr \<ge> memsize s then (SCPE_NXM, s) else (SCPE_OK, write_mem addr (ucast val AND 0xFFF) s))"

text \<open>\<open>yes\<close> is the answer of the operator to the question whether to truncate memory.\<close>

definition cpu_set_size :: "int \<Rightarrow> bool \<Rightarrow> 'a pdp8_scheme \<Rightarrow> t_stat \<times> 'a pdp8_scheme" where
  "cpu_set_size val yes s =
     (if val \<le> 0 \<or> val > 32768 \<or> val mod 4096 \<noteq> 0 then (SCPE_ARG, s)
      else let mc = fold (\<lambda>i mc. mc OR mem s (of_nat i)) [nat val..<unat (memsize s)] 0
           in if mc \<noteq> 0 \<and> \<not> yes then (SCPE_OK, s)
              else (SCPE_OK, s\<lparr>memsize := of_int val,
                               mem := (\<lambda>a. if of_int val \<le> a \<and> a < 0x8000 then 0 else mem s a)\<rparr>))"

definition cpu_set_hist :: "string option \<Rightarrow> 'a pdp8_scheme \<Rightarrow> t_stat \<times> 'a pdp8_scheme" where
  "cpu_set_hist cptr s =
     (case cptr of
        None \<Rightarrow> (SCPE_OK, s\<lparr>hst := map (\<lambda>h. h\<lparr>hist_pc := 0\<rparr>) (hst s), hst_p := 0\<rparr>)
      | Some c \<Rightarrow>
          (let (v, r) = get_uint c 10 65536; lnt = unat v in
           if r \<noteq> SCPE_OK \<or> lnt \<noteq> 0 \<and> lnt < 64 then (SCPE_ARG, s)
           else (SCPE_OK, s\<lparr>hst_p := 0, hst_lnt := lnt,
                            hst := replicate lnt \<lparr>hist_pc = 0, hist_ea = 0, hist_ir = 0, hist_opnd = 0,
                                                  hist_lac = 0, hist_mq = 0\<rparr>\<rparr>)))"

definition set_dev :: "string option \<Rightarrow> 'd DIB option \<Rightarrow> t_stat \<times> 'd DIB option" where
  "set_dev cptr dib =
     (case cptr of
        None \<Rightarrow> (SCPE_ARG, dib)
      | Some c \<Rightarrow>
          (case dib of
             None \<Rightarrow> (SCPE_IERR, dib)
           | Some d \<Rightarrow>
               (let (v, r) = get_uint c 8 63 in
                if r \<noteq> SCPE_OK \<or> unat v = dib_dev d then (r, dib)
                else (SCPE_OK, Some (d\<lparr>dib_dev := unat v\<rparr>)))))"

subsection \<open>Well-formed machines\<close>

text \<open>Field registers hold a field number in bits 12 to 14.\<close>

definition is_field :: "u32 \<Rightarrow> bool" where
  "is_field x \<longleftrightarrow> x AND 0x7000 = x"

definition pdp8_wf :: "'a pdp8_scheme \<Rightarrow> bool" where
  "pdp8_wf s \<longleftrightarrow>
     (\<forall>a. fits 12 (mem s a)) \<and> fits 12 (rPC s) \<and> is_field (rIF s) \<and> is_field (rDF s) \<and> is_field (rIB s) \<and>
     fits 13 (rLAC s) \<and> fits 12 (rMQ s) \<and> fits 7 (rSF s) \<and> fits 1 (emode s) \<and> fits 1 (gtf s) \<and>
     fits 5 (rSC s) \<and> fits 1 (rUB s) \<and> fits 1 (rUF s) \<and> fits 12 (rSR s) \<and> fits 6 (pcq_p s) \<and>
     memsize s \<le> 0x8000 \<and> length (hst s) = hst_lnt s \<and> (hst_lnt s = 0 \<or> hst_p s < hst_lnt s)"

lemma fits_and_const [simp]:
  "fits (numeral n) (numeral m :: 'w::len word) \<Longrightarrow> fits (numeral n) (x AND numeral m :: 'w word)"
  "fits (numeral n) (numeral m :: 'w::len word) \<Longrightarrow> fits (numeral n) (numeral m AND x :: 'w word)"
  by (simp_all only: fits_bitwise)

lemma fits_and_one [simp]: "fits 1 (x AND 1 :: 'w::len word)"
  by (rule fits_bitwise(2)) simp

lemma is_field_fits:
  assumes "is_field x"
  shows "fits 15 x"
proof -
  have "fits 15 (x AND 0x7000)" by simp
  with assms show ?thesis by (simp add: is_field_def)
qed

lemma is_field_simps [simp]:
  "is_field 0" "is_field (push_bit 9 (x AND 0x38))" "is_field (push_bit 12 (x AND 7))" "is_field (x AND 0x7000)"
proof -
  have "push_bit 9 (x AND 0x38) AND push_bit 9 0x38 = push_bit 9 (x AND 0x38 :: u32)"
    "push_bit 12 (x AND 7) AND push_bit 12 7 = push_bit 12 (x AND 7 :: u32)"
    by (simp_all only: push_bit_and and.assoc and.idem)
  then show "is_field 0" "is_field (push_bit 9 (x AND 0x38))" "is_field (push_bit 12 (x AND 7))" "is_field (x AND 0x7000)"
    by (simp_all add: is_field_def and.assoc)
qed

lemma pdp8_wfD:
  assumes "pdp8_wf s"
  shows "fits 12 (mem s a)" "fits 12 (rPC s)" "is_field (rIF s)" "is_field (rDF s)" "is_field (rIB s)"
    "fits 13 (rLAC s)" "fits 12 (rMQ s)" "fits 7 (rSF s)" "fits 1 (emode s)" "fits 1 (gtf s)"
    "fits 5 (rSC s)" "fits 1 (rUB s)" "fits 1 (rUF s)" "fits 12 (rSR s)" "fits 6 (pcq_p s)"
    "fits 15 (rIF s)" "fits 15 (rDF s)" "fits 15 (rIB s)"
  using assms by (simp_all add: pdp8_wf_def is_field_fits)

text \<open>The fields of the processor that the invariant does not mention.\<close>

lemma pdp8_wf_free [simp]:
  "pdp8_wf (s\<lparr>int_req := x\<rparr>) = pdp8_wf s" "pdp8_wf (s\<lparr>tsc_ir := x\<rparr>) = pdp8_wf s"
  "pdp8_wf (s\<lparr>tsc_pc := x\<rparr>) = pdp8_wf s" "pdp8_wf (s\<lparr>tsc_cdf := x\<rparr>) = pdp8_wf s"
  "pdp8_wf (s\<lparr>dev_done := x\<rparr>) = pdp8_wf s" "pdp8_wf (s\<lparr>int_enable := x\<rparr>) = pdp8_wf s"
  "pdp8_wf (s\<lparr>cpu_astop := x\<rparr>) = pdp8_wf s" "pdp8_wf (s\<lparr>sim_interval := i\<rparr>) = pdp8_wf s"
  "pdp8_wf (s\<lparr>pcq := q\<rparr>) = pdp8_wf s"
  by (simp_all add: pdp8_wf_def)

text \<open>Assignments that keep the invariant.\<close>

lemma pdp8_wf_assign [scp_inv]:
  assumes "pdp8_wf s"
  shows "fits 12 x \<Longrightarrow> pdp8_wf (write_mem a x s)" "fits 12 x \<Longrightarrow> pdp8_wf (s\<lparr>rPC := x\<rparr>)"
    "is_field x \<Longrightarrow> pdp8_wf (s\<lparr>rIF := x\<rparr>)" "is_field x \<Longrightarrow> pdp8_wf (s\<lparr>rDF := x\<rparr>)"
    "is_field x \<Longrightarrow> pdp8_wf (s\<lparr>rIB := x\<rparr>)" "fits 13 x \<Longrightarrow> pdp8_wf (s\<lparr>rLAC := x\<rparr>)"
    "fits 12 x \<Longrightarrow> pdp8_wf (s\<lparr>rMQ := x\<rparr>)" "fits 7 x \<Longrightarrow> pdp8_wf (s\<lparr>rSF := x\<rparr>)"
    "fits 1 x \<Longrightarrow> pdp8_wf (s\<lparr>emode := x\<rparr>)" "fits 1 x \<Longrightarrow> pdp8_wf (s\<lparr>gtf := x\<rparr>)"
    "fits 5 x \<Longrightarrow> pdp8_wf (s\<lparr>rSC := x\<rparr>)" "fits 1 x \<Longrightarrow> pdp8_wf (s\<lparr>rUB := x\<rparr>)"
    "fits 1 x \<Longrightarrow> pdp8_wf (s\<lparr>rUF := x\<rparr>)" "fits 6 x \<Longrightarrow> pdp8_wf (s\<lparr>pcq_p := x\<rparr>)"
  using assms by (simp_all add: pdp8_wf_def write_mem_def)

lemma skip_wf [scp_inv]: "pdp8_wf s \<Longrightarrow> pdp8_wf (skip s)"
  by (simp add: skip_def pdp8_wf_assign)

lemma pcq_entry_wf [scp_inv]: "pdp8_wf s \<Longrightarrow> pdp8_wf (pcq_entry x s)"
  by (simp add: pcq_entry_def Let_def pdp8_wf_assign)

subsection \<open>Addresses stay inside memory\<close>

lemma indirect_wf:
  assumes "pdp8_wf s" "indirect a s = (v, s')"
  shows "pdp8_wf s'" "fits 12 v"
  using assms by (auto simp: indirect_def Let_def pdp8_wfD pdp8_wf_assign split: if_splits)

lemma operand_addr_wf:
  assumes wf: "pdp8_wf s" and "operand_addr IR MA s = (a, s')"
  shows "pdp8_wf s'" "fits 15 a"
proof -
  have "fits 15 (rDF s OR v)" if "fits 12 v" for v
    using pdp8_wfD(17) [OF wf] fits_mono [OF that, of 15] by (simp add: fits_bitwise)
  with assms show "pdp8_wf s'" "fits 15 a"
    by (auto simp: operand_addr_def Let_def pdp8_wfD intro!: fits_bitwise(3) intro: fits_mono [of 12 _ 15]
        dest: indirect_wf split: if_splits prod.splits)
qed

lemma jump_addr_wf:
  assumes wf: "pdp8_wf s" and "jump_addr IR MA s = (a, s')"
  shows "pdp8_wf s'" "fits 12 a"
  using assms by (auto simp: jump_addr_def intro!: fits_bitwise(3) dest: indirect_wf split: if_splits)

subsection \<open>Every instruction keeps the machine well formed\<close>

lemma op_and_wf: "pdp8_wf s \<Longrightarrow> pdp8_wf (op_and IR MA s)"
  by (auto simp: op_and_def intro!: pdp8_wf_assign fits_bitwise(1) pdp8_wfD dest: operand_addr_wf split: prod.splits)

lemma op_tad_wf: "pdp8_wf s \<Longrightarrow> pdp8_wf (op_tad IR MA s)"
  by (auto simp: op_tad_def intro!: pdp8_wf_assign dest: operand_addr_wf split: prod.splits)

lemma op_isz_wf: "pdp8_wf s \<Longrightarrow> pdp8_wf (op_isz IR MA s)"
  by (auto simp: op_isz_def Let_def intro!: pdp8_wf_assign skip_wf dest: operand_addr_wf split: prod.splits)

lemma op_dca_wf: "pdp8_wf s \<Longrightarrow> pdp8_wf (op_dca IR MA s)"
  by (auto simp: op_dca_def Let_def intro!: pdp8_wf_assign dest: operand_addr_wf split: prod.splits)

lemma tsc_wf [scp_inv, simp]:
  "pdp8_wf (tsc_save IR s) = pdp8_wf s" "pdp8_wf (tsc_trap s) = pdp8_wf s"
  by (simp_all add: tsc_save_def tsc_trap_def)

lemma change_fields_wf [scp_inv]: "pdp8_wf s \<Longrightarrow> pdp8_wf (change_fields s)"
  by (auto simp: change_fields_def intro!: pdp8_wf_assign pdp8_wfD)

lemma op_jms_wf:
  assumes "pdp8_wf s"
  shows "pdp8_wf (op_jms IR MA s)"
proof -
  obtain a s1 where j: "jump_addr IR MA (pcq_entry MA s) = (a, s1)" by fastforce
  with jump_addr_wf [OF pcq_entry_wf [OF assms] j] show ?thesis
    by (auto simp: op_jms_def Let_def intro!: pdp8_wf_assign change_fields_wf pdp8_wfD)
qed

lemma keep_locals_wf [scp_inv]: "pdp8_wf s \<Longrightarrow> pdp8_wf s' \<Longrightarrow> pdp8_wf (keep_locals s s')"
  by (auto simp: keep_locals_def intro!: pdp8_wf_assign pdp8_wfD)

text \<open>What the processor needs of the routines it calls.\<close>

definition env_wf :: "('a pdp8_scheme) pdp8_env \<Rightarrow> bool" where
  "env_wf env \<longleftrightarrow>
     (\<forall>d f IR dat s. dev_tab env d = Some f \<longrightarrow> pdp8_wf s \<longrightarrow> pdp8_wf (snd (f IR dat s))) \<and>
     (\<forall>s. pdp8_wf s \<longrightarrow> pdp8_wf (reset_all env s)) \<and>
     (\<forall>s. pdp8_wf s \<longrightarrow> pdp8_wf (sim_idle env s)) \<and>
     units_keep pdp8_wf (units env)"

lemma jump_idle_wf: "env_wf env \<Longrightarrow> pdp8_wf s \<Longrightarrow> pdp8_wf (snd (jump_idle env a s))"
  by (simp add: jump_idle_def env_wf_def keep_locals_wf)

lemma op_jmp_wf:
  assumes "env_wf env" "pdp8_wf s"
  shows "pdp8_wf (snd (op_jmp env IR MA s))"
proof -
  obtain a s1 where j: "jump_addr IR MA (pcq_entry MA s) = (a, s1)" by fastforce
  note wf = jump_addr_wf [OF pcq_entry_wf [OF assms(2)] j]
  define s3 where "s3 = (let s2 = tsc_save IR s1 in if rUF s2 \<noteq> 0 \<and> tsc_enb s2 \<noteq> 0 then tsc_trap s2 else s2)"
  have s3: "pdp8_wf s3" using wf by (simp add: s3_def Let_def)
  obtain r s4 where s4: "(if IR AND 0x180 = 0x80 then jump_idle env a s3 else (SCPE_OK, s3)) = (r, s4)" by fastforce
  have "pdp8_wf s4" using s4 s3 jump_idle_wf [OF assms(1) s3, of a] by (auto split: if_splits)
  moreover have "op_jmp env IR MA s = (r, (change_fields s4)\<lparr>rPC := a\<rparr>)"
    using s4 by (simp only: op_jmp_def j s3_def Let_def prod.case)
  ultimately show ?thesis using wf(2) by (simp add: pdp8_wf_assign change_fields_wf)
qed

lemma opr1_logic_fits: "fits 13 l \<Longrightarrow> fits 13 (opr1_logic k l)"
  by (simp add: opr1_logic_def fits_bitwise)

lemma opr1_shift_fits: "fits 13 l \<Longrightarrow> fits 13 (opr1_shift k IR MA l)"
  by (simp add: opr1_shift_def fits_bitwise fits_push_bit [of 6])

lemma op_opr1_wf: "pdp8_wf s \<Longrightarrow> pdp8_wf (op_opr1 IR MA s)"
  by (auto simp: op_opr1_def Let_def intro!: pdp8_wf_assign opr1_shift_fits opr1_logic_fits pdp8_wfD)

lemma op_opr2_wf: "pdp8_wf s \<Longrightarrow> pdp8_wf (snd (op_opr2 IR s))"
  by (simp add: op_opr2_def Let_def pdp8_wf_assign skip_wf fits_bitwise(3) pdp8_wfD(6) fits_mono [OF pdp8_wfD(14)])

lemma unat_add_le: "unat (x + y) \<le> unat x + unat y" for x y :: "'w::len word"
  by (simp add: unat_plus_if')

lemma fits_add3:
  fixes x y z :: u32
  assumes "fits 12 x" "fits 12 y" "fits 1 z"
  shows "fits 13 (x + y + z)"
proof -
  have "unat x < 4096" "unat y < 4096" "unat z < 2" using assms by (simp_all add: fits_less)
  then have "unat (x + y + z) < 8192" using unat_add_le [of "x + y" z] unat_add_le [of x y] by linarith
  then show ?thesis by (simp add: fits_less)
qed

lemma or_sc_wf: "pdp8_wf s \<Longrightarrow> pdp8_wf (or_sc s)"
  by (simp add: or_sc_def pdp8_wf_assign fits_bitwise(3) pdp8_wfD(6) fits_mono [OF pdp8_wfD(11)])

lemma eae_defer_wf:
  assumes wf: "pdp8_wf s" and "eae_defer s = (a, s')"
  shows "pdp8_wf s'" "fits 15 a"
proof -
  have "fits 15 (rDF s OR v)" if "fits 12 v" for v
    using pdp8_wfD(17) [OF wf] fits_mono [OF that, of 15] by (simp add: fits_bitwise)
  with assms show "pdp8_wf s'" "fits 15 a"
    by (auto simp: eae_defer_def dest: indirect_wf split: prod.splits)
qed

lemma eae_operand_wf:
  assumes wf: "pdp8_wf s" and "eae_operand s = (a, s')"
  shows "pdp8_wf s'" "fits 15 a"
proof -
  have "fits 15 (rIF s OR rPC s)"
    using pdp8_wfD(16) [OF wf] fits_mono [OF pdp8_wfD(2) [OF wf], of 15] by (simp add: fits_bitwise)
  with assms show "pdp8_wf s'" "fits 15 a"
    by (auto simp: eae_operand_def dest: eae_defer_wf split: if_splits)
qed

lemma eae_dad_wf:
  assumes "pdp8_wf s"
  shows "pdp8_wf (eae_dad s)"
proof -
  obtain a s1 where a: "eae_defer s = (a, s1)" by fastforce
  note wf = eae_defer_wf [OF assms a]
  have "fits 13 (rMQ s1 + mem s1 a)"
    using fits_add [of 12 "rMQ s1" "mem s1 a"] pdp8_wfD(1,7) [OF wf(1)] by simp
  then have "fits 1 (drop_bit 12 (rMQ s1 + mem s1 a))" by (rule fits_drop_bit) simp
  then have "fits 13 ((rLAC s1 AND 0xFFF) + mem s1 a' + drop_bit 12 (rMQ s1 + mem s1 a))" for a'
    using pdp8_wfD(1) [OF wf(1)] by (intro fits_add3) simp_all
  with wf(1) show ?thesis by (simp add: eae_dad_def a Let_def pdp8_wf_assign skip_wf)
qed

lemma eae_acs_scl_wf: "pdp8_wf s \<Longrightarrow> pdp8_wf (eae_acs_scl s)"
  by (simp add: eae_acs_scl_def pdp8_wf_assign skip_wf)

lemma eae_dst_wf: "pdp8_wf s \<Longrightarrow> pdp8_wf (eae_dst s)"
  by (auto simp: eae_dst_def Let_def intro!: pdp8_wf_assign skip_wf dest: eae_defer_wf split: prod.splits)

lemma eae_muy_wf: "pdp8_wf s \<Longrightarrow> pdp8_wf (eae_muy s)"
  by (auto simp: eae_muy_def Let_def intro!: pdp8_wf_assign skip_wf dest: eae_operand_wf split: prod.splits)

text \<open>The dividend of \<^verbatim>\<open>DVI\<close> as a number, and the bound that keeps the quotient in 12 bits.\<close>

lemma double_word:
  assumes "fits 13 h" "fits 12 l"
  shows "unat (push_bit 12 h OR l :: u32) = unat h * 4096 + unat l"
proof -
  have lt: "unat h < 8192" "unat l < 4096" using assms by (simp_all add: fits_less)
  have "push_bit 12 h AND l = 0" using assms(2) by (auto simp: fits_bit bit_eq_iff bit_simps)
  then have "push_bit 12 h OR l = push_bit 12 h + l" by (simp add: disjunctive_add_eq_or)
  also have "\<dots> = of_nat (unat h * 4096 + unat l)" by (simp add: push_bit_eq_mult)
  finally show ?thesis
    using lt by (simp only: unat_of_nat) (simp add: take_bit_nat_eq_self)
qed

lemma dvi_bounds:
  fixes m :: u32
  assumes "fits 12 h" "fits 12 l" "fits 12 m" "h < m"
  defines "temp \<equiv> push_bit 12 h OR l"
  shows "unat (temp div m) = (unat h * 4096 + unat l) div unat m" "fits 12 (temp div m)"
    "unat (temp mod m) = (unat h * 4096 + unat l) mod unat m" "fits 12 (temp mod m)"
proof -
  have t: "unat temp = unat h * 4096 + unat l" unfolding temp_def by (rule double_word [OF fits_mono [OF assms(1)] assms(2)]) simp
  have m: "unat h < unat m" "unat m < 4096" "unat l < 4096" using assms by (simp_all add: word_less_nat_alt fits_less)
  show q: "unat (temp div m) = (unat h * 4096 + unat l) div unat m" by (simp add: unat_div t)
  show r: "unat (temp mod m) = (unat h * 4096 + unat l) mod unat m" by (simp add: unat_mod t)
  have "unat h * 4096 + unat l < unat m * 4096" using m by linarith
  then show "fits 12 (temp div m)" using m by (simp add: fits_less q div_less_iff_less_mult mult.commute)
  have "(unat h * 4096 + unat l) mod unat m < unat m" using m by (intro mod_less_divisor) linarith
  from less_trans [OF this m(2)] show "fits 12 (temp mod m)" by (simp add: fits_less r)
qed

lemma eae_dvi_wf:
  assumes "pdp8_wf s"
  shows "pdp8_wf (eae_dvi s)"
proof -
  obtain a s1 where a: "eae_operand s = (a, s1)" by fastforce
  note wf = eae_operand_wf(1) [OF assms a]
  have lac: "fits 13 (rLAC s1 OR 0x1000)" using pdp8_wfD(6) [OF wf] by (simp add: fits_bitwise)
  show ?thesis
  proof (cases "mem s1 a \<le> rLAC s1 AND 0xFFF")
    case True
    with wf lac show ?thesis by (simp add: eae_dvi_def a pdp8_wf_assign skip_wf)
  next
    case False
    then have "rLAC s1 AND 0xFFF < mem s1 a" by simp
    note b = dvi_bounds [OF _ pdp8_wfD(7) [OF wf] pdp8_wfD(1) [OF wf] this]
    with wf False fits_mono [OF b(4), of 13] show ?thesis by (simp add: eae_dvi_def a Let_def pdp8_wf_assign skip_wf)
  qed
qed

lemma eae_dpsz_wf: "pdp8_wf s \<Longrightarrow> pdp8_wf (eae_dpsz s)"
  by (simp add: eae_dpsz_def skip_wf)

subsection \<open>Normalisation\<close>

text \<open>After \<open>n\<close> shifts the low \<open>n\<close> bits are zero, so the loop cannot go beyond 22.\<close>

lemma nmi_more_bits: "nmi_more temp \<Longrightarrow> \<exists>k<22. bit temp k"
proof (rule ccontr)
  assume more: "nmi_more temp" and "\<not> (\<exists>k<22. bit temp k)"
  then have "temp AND mask 22 = 0" by (auto simp: bit_eq_iff bit_simps)
  with more show False by (simp add: nmi_more_def mask_eq_exp_minus_1)
qed

lemma nmi_loop_result:
  assumes "\<forall>k<n. \<not> bit temp k" "n + fuel = 23" "n \<le> 22"
  shows "\<exists>m. m + n \<le> 22 \<and> nmi_loop fuel temp (of_nat n) = (push_bit m temp, of_nat (n + m)) \<and>
    \<not> nmi_more (push_bit m temp) \<and> (\<forall>j<m. nmi_more (push_bit j temp))"
  using assms
proof (induction fuel arbitrary: n temp)
  case (Suc fuel)
  show ?case
  proof (cases "nmi_more temp")
    case True
    have bits: "\<forall>k < Suc n. \<not> bit (push_bit 1 temp) k"
    proof (intro allI impI notI)
      fix k assume k: "k < Suc n" "bit (push_bit 1 temp) k"
      then have "1 \<le> k" "bit temp (k - 1)" by (simp_all only: bit_push_bit_iff)
      with Suc.prems(1) k(1) show False by (cases k) auto
    qed
    have "Suc n \<le> 22" using nmi_more_bits [OF True] Suc.prems(1,3) by (cases "n = 22") auto
    from Suc.IH [OF bits _ this] Suc.prems(2) obtain m where m: "m + Suc n \<le> 22"
      "nmi_loop fuel (push_bit 1 temp) (of_nat (Suc n)) = (push_bit m (push_bit 1 temp), of_nat (Suc n + m))"
      "\<not> nmi_more (push_bit m (push_bit 1 temp))" "\<forall>j<m. nmi_more (push_bit j (push_bit 1 temp))"
      by auto
    have sh: "push_bit j (push_bit 1 temp) = push_bit (Suc j) temp" for j
      by (simp only: push_bit_push_bit add_Suc_right add_0_right One_nat_def)
    have "nmi_more (push_bit j temp)" if "j < Suc m" for j
      using that True m(4) sh by (cases j) auto
    moreover have "nmi_loop (Suc fuel) temp (of_nat n) = (push_bit (Suc m) temp, of_nat (n + Suc m))"
      using True m(2) by (simp only: nmi_loop.simps if_True sh of_nat_Suc add.commute add_Suc_right add_Suc)
    ultimately show ?thesis using m(1,3) unfolding sh by (intro exI [of _ "Suc m"]) simp
  next
    case False
    with Suc.prems show ?thesis by (intro exI [of _ 0]) simp
  qed
qed simp

lemma nmi_loop_normal:
  obtains m where "m \<le> 22" "nmi_loop 23 temp 0 = (push_bit m temp, of_nat m)" "\<not> nmi_more (push_bit m temp)"
    "\<forall>j<m. nmi_more (push_bit j temp)"
  using nmi_loop_result [of 0 temp 23] by auto

lemma eae_nmi_wf:
  assumes "pdp8_wf s"
  shows "pdp8_wf (eae_nmi s)"
proof -
  obtain m where m: "m \<le> 22" "nmi_loop 23 (push_bit 12 (rLAC s) OR rMQ s) 0 =
      (push_bit m (push_bit 12 (rLAC s) OR rMQ s), of_nat m)"
    by (rule nmi_loop_normal)
  have "unat (of_nat m :: u32) = m" using m(1) by (simp add: unat_of_nat take_bit_nat_eq_self)
  then have "fits 5 (of_nat m :: u32)" using m(1) by (simp add: fits_less)
  with assms show ?thesis by (simp add: eae_nmi_def m(2) Let_def pdp8_wf_assign)
qed

lemma fits_carry: "fits 12 x \<Longrightarrow> fits 13 (x + (if c then 1 else 0))" for x :: u32
  using fits_add3 [of x 0 1] fits_add3 [of x 0 0] by simp

lemma eae_dpic_wf: "pdp8_wf s \<Longrightarrow> pdp8_wf (eae_dpic s)"
  unfolding eae_dpic_def Let_def by (intro pdp8_wf_assign fits_carry pdp8_wfD) simp_all

lemma eae_dcm_wf: "pdp8_wf s \<Longrightarrow> pdp8_wf (eae_dcm s)"
  unfolding eae_dcm_def Let_def by (intro pdp8_wf_assign fits_carry fits_bitwise(4) pdp8_wfD) simp_all

lemma eae_shifted_wf:
  "pdp8_wf s \<Longrightarrow> lacmask = 0xFFF \<or> lacmask = 0x1FFF \<Longrightarrow> pdp8_wf (eae_shifted lacmask temp s)"
  by (auto simp: eae_shifted_def intro!: pdp8_wf_assign skip_wf)

lemma eae_shl_wf: "pdp8_wf s \<Longrightarrow> pdp8_wf (eae_shl s)"
  by (simp add: eae_shl_def Let_def eae_shifted_wf)

lemma gtf_bit_wf: "pdp8_wf s \<Longrightarrow> pdp8_wf (if c then s\<lparr>gtf := x AND 1\<rparr> else s)"
  by (auto intro!: pdp8_wf_assign fits_and_one)

lemma eae_asr_wf: "pdp8_wf s \<Longrightarrow> pdp8_wf (eae_asr s)"
  unfolding eae_asr_def Let_def by (intro eae_shifted_wf gtf_bit_wf) simp_all

lemma eae_lsr_wf: "pdp8_wf s \<Longrightarrow> pdp8_wf (eae_lsr s)"
  unfolding eae_lsr_def Let_def by (intro eae_shifted_wf gtf_bit_wf) simp_all

lemma eae_sam_wf:
  assumes "pdp8_wf s"
  shows "pdp8_wf (eae_sam s)"
proof -
  have "fits 13 (rMQ s + ((rLAC s AND 0xFFF) XOR 0xFFF) + 1)"
    using pdp8_wfD(7) [OF assms] by (intro fits_add3) (simp_all add: fits_bitwise)
  moreover have "fits 1 (drop_bit 11 ((rLAC s AND 0xFFF) XOR rMQ s))"
    by (rule fits_drop_bit [of 12]) (simp_all add: fits_bitwise pdp8_wfD(7) [OF assms])
  ultimately show ?thesis using assms by (simp add: eae_sam_def Let_def pdp8_wf_assign fits_bitwise(4))
qed

lemmas eae_wf = eae_dad_wf eae_acs_scl_wf eae_dst_wf eae_muy_wf eae_dvi_wf eae_dpsz_wf eae_nmi_wf
  eae_dpic_wf eae_shl_wf eae_dcm_wf eae_asr_wf eae_sam_wf eae_lsr_wf or_sc_wf

lemma eae_dispatch_wf: "pdp8_wf s \<Longrightarrow> pdp8_wf (eae_dispatch k s)"
  by (simp add: eae_dispatch_def Let_def eae_wf)

lemma opr3_std_wf: "pdp8_wf s \<Longrightarrow> pdp8_wf (opr3_std IR s)"
  by (simp add: opr3_std_def Let_def pdp8_wf_assign fits_bitwise(3) pdp8_wfD(6) fits_mono [OF pdp8_wfD(7)])

lemma op_opr3_wf: "pdp8_wf s \<Longrightarrow> pdp8_wf (snd (op_opr3 IR s))"
  by (simp add: op_opr3_def Let_def opr3_std_wf pdp8_wf_assign eae_dispatch_wf)

lemma iot_cpu_wf:
  assumes env: "env_wf env" and wf: "pdp8_wf s"
  shows "pdp8_wf (iot_cpu env pulse s)"
proof -
  have b: "fits 13 (push_bit k (if c then 1 else 0 :: u32))" if "k \<le> 12" for k c
    using that by (intro fits_push_bit [of 1]) simp_all
  have gtf: "fits 13 (push_bit 10 (gtf s))" by (rule fits_push_bit [OF pdp8_wfD(10) [OF wf]]) simp
  have sf: "fits 13 (rSF s)" by (rule fits_mono [OF pdp8_wfD(8) [OF wf]]) simp
  have lnk: "fits 13 (drop_bit 1 (rLAC s AND 0x1000))" by (rule fits_drop_bit [of 13]) simp_all
  have rtf: "fits 1 (drop_bit 10 (rLAC s AND 0x400))" "fits 1 (drop_bit 6 (rLAC s AND 0x40))"
    "fits 13 (push_bit 1 (rLAC s AND 0x800) OR (rLAC s AND 0xFFF))"
    by (rule fits_drop_bit [of 11] fits_drop_bit [of 7]; simp; fail)+
       (intro fits_bitwise(3) fits_push_bit [of 12]; simp)
  let ?caf = "s\<lparr>gtf := 0, emode := 0, int_req := int_req s AND INT_NO_CIF_PENDING,
      dev_done := 0, int_enable := INT_INIT_ENABLE, rLAC := 0\<rparr>"
  have caf: "pdp8_wf ?caf" using wf by (simp add: pdp8_wf_assign)
  then have "pdp8_wf (keep_locals ?caf (reset_all env ?caf))" using env by (simp add: env_wf_def keep_locals_wf)
  then show ?thesis
    using wf by (auto simp only: iot_cpu_def Let_def pdp8_wf_free intro!: pdp8_wf_assign skip_wf
        fits_bitwise(3) b gtf sf lnk rtf is_field_simps fits_and_const split: if_split) (simp_all)
qed

lemma iot_memext_wf: "pdp8_wf s \<Longrightarrow> pdp8_wf (snd (iot_memext IR device pulse s))"
proof -
  assume wf: "pdp8_wf s"
  have ld: "fits 13 (drop_bit 9 (rDF s))" "fits 13 (drop_bit 9 (rIF s))"
    using pdp8_wfD(16,17) [OF wf] by (auto intro: fits_drop_bit)
  have sf: "fits 13 (rSF s)" by (rule fits_mono [OF pdp8_wfD(8) [OF wf]]) simp
  have ub: "fits 1 (drop_bit 6 (rSF s AND 0x40))" by (rule fits_drop_bit [of 7]) simp_all
  have "pdp8_wf (iot_memext_4 device s)"
    using wf ld sf ub pdp8_wfD(6) [OF wf]
    by (simp add: iot_memext_4_def Let_def pdp8_wf_assign skip_wf fits_bitwise(3))
  with wf show ?thesis by (simp add: iot_memext_def Let_def pdp8_wf_assign)
qed

lemma iot_power_wf: "pdp8_wf s \<Longrightarrow> pdp8_wf (snd (iot_power pulse s))"
  by (simp add: iot_power_def skip_wf)

lemma iot_device_wf:
  assumes env: "env_wf env" and wf: "pdp8_wf s"
  shows "pdp8_wf (snd (iot_device env IR device s))"
proof (cases "dev_tab env device")
  case (Some f)
  obtain dat s0 where f: "f IR (rLAC s AND 0xFFF) s = (dat, s0)" by fastforce
  have "pdp8_wf s0" using env wf Some f unfolding env_wf_def by (metis snd_conv)
  with wf have "pdp8_wf (keep_locals s s0)" by (rule keep_locals_wf [OF _])
  with Some f show ?thesis
    by (simp add: iot_device_def Let_def pdp8_wf_assign skip_wf fits_bitwise(3))
qed (use wf in \<open>simp add: iot_device_def\<close>)

lemma op_iot_wf: "env_wf env \<Longrightarrow> pdp8_wf s \<Longrightarrow> pdp8_wf (snd (op_iot env IR s))"
  by (simp add: op_iot_def Let_def iot_cpu_wf iot_memext_wf iot_power_wf iot_device_wf)

lemma execute_wf: "env_wf env \<Longrightarrow> pdp8_wf s \<Longrightarrow> pdp8_wf (snd (execute env IR MA s))"
  by (simp add: execute_def Let_def op_and_wf op_tad_wf op_isz_wf op_dca_wf op_jms_wf op_jmp_wf op_iot_wf
      op_opr1_wf op_opr2_wf op_opr3_wf)

subsection \<open>The whole loop\<close>

lemma take_interrupt_wf:
  assumes wf: "pdp8_wf s"
  shows "pdp8_wf (take_interrupt s)"
proof -
  have "fits 7 (push_bit 6 (rUF s))" "fits 7 (drop_bit 9 (rIF s))" "fits 7 (drop_bit 12 (rDF s))"
    using pdp8_wfD(13,16,17) [OF wf] by (auto intro: fits_push_bit fits_drop_bit)
  with wf show ?thesis
    by (simp add: take_interrupt_def Let_def pdp8_wf_assign pcq_entry_wf fits_bitwise(3) pdp8_wfD(2))
qed

lemma fetch_wf: "pdp8_wf s \<Longrightarrow> pdp8_wf (fetch s)"
  by (simp add: fetch_def pdp8_wf_assign)

lemma record_history_wf: "pdp8_wf s \<Longrightarrow> pdp8_wf (record_history IR MA s)"
  by (auto simp: record_history_def Let_def pdp8_wf_def)

lemma pdp8_wf_more: "brkst.more s = brkst.more s' \<Longrightarrow> pdp8_wf s = pdp8_wf s'"
  by (cases s; cases s'; simp add: pdp8_wf_def)

lemma queue_free_pdp8_wf: "queue_free pdp8_wf"
  by (simp add: queue_free_def pdp8_wf_def)

lemma brk_check_wf: "pdp8_wf s \<Longrightarrow> pdp8_wf (snd (brk_check loc btyp s))"
  using pdp8_wf_more [OF sim_brk_test_more, of loc btyp s] by (simp add: brk_check_def case_prod_beta)

lemma instr_cycle_wf:
  assumes "env_wf env" "pdp8_wf s"
  shows "pdp8_wf (snd (instr_cycle env s))"
proof -
  obtain stop s1 where b1: "brk_check (rIF (take_interrupt s) OR rPC (take_interrupt s)) 0x20000010 (take_interrupt s) = (stop, s1)"
    by fastforce
  have s1: "pdp8_wf s1" using brk_check_wf [OF take_interrupt_wf [OF assms(2)]] b1 by (metis snd_conv)
  obtain stop' s2 where b2: "brk_check (mem s1 (rIF (take_interrupt s) OR rPC (take_interrupt s))) 0x40000100 s1 = (stop', s2)"
    by fastforce
  have s2: "pdp8_wf s2" using brk_check_wf [OF s1] b2 by (metis snd_conv)
  show ?thesis
    using s1 s2 execute_wf [OF assms(1) record_history_wf [OF fetch_wf [OF s2]]]
    by (simp add: instr_cycle_def Let_def b1 b2)
qed

lemma pdp8_step_wf:
  assumes env: "env_wf env" and wf: "pdp8_wf s" and "pdp8_step fuel env s = Inr (reason, s')"
  shows "pdp8_wf s'"
proof -
  have ops: "units_keep pdp8_wf (units env)" using env by (simp add: env_wf_def)
  have ev: "pdp8_wf (keep_locals s e)" if "sim_process_event fuel (units env) s = Inr (r, e)" for r e
    using keep_locals_wf [OF wf process_event_keeps [OF ops queue_free_pdp8_wf wf that]] .
  have cyc: "pdp8_wf e'" if "instr_cycle env e = (r, e')" "pdp8_wf e" for e e' r
    using instr_cycle_wf [OF env that(2)] that(1) by simp
  from assms(3) wf show ?thesis
    by (auto simp: pdp8_step_def Let_def split: if_splits sum.splits prod.splits dest: cyc ev)
qed

end
