(* ===== verification/Pdp8Semantics.thy ===== *)
theory Pdp8Semantics
  imports Pdp8
begin

text \<open>
  What the PDP-8 instructions compute: the arithmetic of the instruction set and of the extended
  arithmetic element on numbers, the microprogrammed group 1 and group 2 instructions against
  their bitwise reference, interrupts and the return from them, the protection of user mode, the
  dispatch table, and the runs of \<^verbatim>\<open>sim_instr\<close>.
\<close>

unbundle bit_operations_syntax

interpretation pdp8: cpu "pdp8_step fuel env" "\<lambda>s. env_wf env \<and> pdp8_wf s"
  by unfold_locales (auto dest: pdp8_step_wf)

lemma restore_regs_wf: "pdp8_wf s \<Longrightarrow> pdp8_wf (restore_regs s)"
  by (simp add: restore_regs_def pdp8_wf_assign)

lemma save_regs_wf: "pdp8_wf s \<Longrightarrow> pdp8_wf (save_regs s)"
  by (simp add: save_regs_def pdp8_wf_def)

subsection \<open>Group 1 as a microprogram\<close>

text \<open>The reference: the bits of the instruction clear, then complement.\<close>

definition micro1 :: "u32 \<Rightarrow> u32 \<Rightarrow> u32" where
  "micro1 k l =
     (let l1 = (if bit k 3 then l AND 0x1000 else l);
          l2 = (if bit k 2 then l1 AND 0xFFF else l1);
          l3 = (if bit k 1 then l2 XOR 0xFFF else l2)
      in if bit k 0 then l3 XOR 0x1000 else l3)"

lemma octal_masks: "(0xFFF :: u32) = mask 12" "(0x1FFF :: u32) = mask 13"
  by (simp_all add: mask_eq_exp_minus_1)

lemma bit_link: "bit (0x1000 :: int) n \<longleftrightarrow> n = 12"
  using bit_exp_iff [of 12 n, where ?'a = int] by auto

lemma bit_sign: "bit (0x800 :: int) n \<longleftrightarrow> n = 11"
  using bit_exp_iff [of 11 n, where ?'a = int] by auto

lemma less_16_cases:
  fixes k :: u32
  assumes "k < 16"
  shows "k = 0 \<or> k = 1 \<or> k = 2 \<or> k = 3 \<or> k = 4 \<or> k = 5 \<or> k = 6 \<or> k = 7 \<or>
    k = 8 \<or> k = 9 \<or> k = 10 \<or> k = 11 \<or> k = 12 \<or> k = 13 \<or> k = 14 \<or> k = 15"
proof -
  have "unat k \<in> set [0..<16]" using assms by (simp add: word_less_nat_alt)
  then have "of_nat (unat k) \<in> set (map (of_nat :: nat \<Rightarrow> u32) [0..<16])" by (simp del: of_nat_unat word_of_nat_eq_iff)
  moreover have "map of_nat [0..<16] = [0, 1, 2, 3, 4, 5, 6, 7, 8, 9, 10, 11, 12, 13, 14, 15 :: u32]"
    by (simp add: upt_rec)
  ultimately show ?thesis by simp
qed

lemma link_identities:
  assumes "fits 13 l"
  shows "l XOR 0x1FFF = (l XOR 0xFFF) XOR 0x1000" "l OR 0x1000 = (l AND 0xFFF) XOR 0x1000"
    "(l XOR 0xFFF) AND 0xFFF = (l AND 0xFFF) XOR 0xFFF"
    "(l XOR 0xFFF) OR 0x1000 = ((l AND 0xFFF) XOR 0xFFF) XOR 0x1000"
    "l OR 0xFFF = (l AND 0x1000) XOR 0xFFF" "(l AND 0x1000) AND 0xFFF = (0 :: u32)"
proof -
  note l = fits_bitD [OF assms]
  show "l XOR 0x1FFF = (l XOR 0xFFF) XOR 0x1000" "l OR 0x1000 = (l AND 0xFFF) XOR 0x1000"
    "(l XOR 0xFFF) AND 0xFFF = (l AND 0xFFF) XOR 0xFFF"
    "(l XOR 0xFFF) OR 0x1000 = ((l AND 0xFFF) XOR 0xFFF) XOR 0x1000"
    "l OR 0xFFF = (l AND 0x1000) XOR 0xFFF" "(l AND 0x1000) AND 0xFFF = 0"
    unfolding octal_masks by (rule bit_eqI; auto simp: bit_simps bit_link dest: l)+
qed

lemma opr1_logic_micro:
  assumes "k < 16" "fits 13 l"
  shows "opr1_logic k l = micro1 k l"
  using less_16_cases [OF assms(1)]
  by (elim disjE) (simp_all add: opr1_logic_def micro1_def link_identities [OF assms(2)])


subsection \<open>Group 2 as a condition\<close>

text \<open>The reference: any of the selected conditions, reversed by the last bit.\<close>

definition skip_condition :: "u32 \<Rightarrow> u32 \<Rightarrow> bool" where
  "skip_condition k l \<longleftrightarrow>
     (bit k 3 \<and> bit l 11 \<or> bit k 2 \<and> l AND 0xFFF = 0 \<or> bit k 1 \<and> bit l 12) \<noteq> bit k 0"

lemma fits_smaller: "fits (Suc n) x \<Longrightarrow> fits n x \<longleftrightarrow> \<not> bit x n"
  by (auto simp: fits_bit) (metis le_antisym not_less_eq_eq)

lemma link_tests:
  fixes l :: u32
  assumes "fits 13 l"
  shows "0x1000 \<le> l \<longleftrightarrow> bit l 12" "l = 0 \<longleftrightarrow> l AND 0xFFF = 0 \<and> \<not> bit l 12"
    "l AND 0x800 = 0 \<longleftrightarrow> \<not> bit l 11" "0x800 \<le> l \<longleftrightarrow> bit l 11 \<or> bit l 12"
proof -
  have f: "fits 12 l \<longleftrightarrow> l < 0x1000" "fits 11 l \<longleftrightarrow> l < 0x800"
    by (simp_all add: fits_less word_less_nat_alt)
  have 12: "fits 12 l \<longleftrightarrow> \<not> bit l 12" using fits_smaller [of 12 l] assms by simp
  have 11: "fits 11 l \<longleftrightarrow> \<not> bit l 11 \<and> \<not> bit l 12"
    using fits_smaller [of 11 l] fits_mono [of 11 l 12] 12 by auto
  show "0x1000 \<le> l \<longleftrightarrow> bit l 12" using f(1) 12 by (simp add: linorder_not_less [symmetric]) blast
  show "0x800 \<le> l \<longleftrightarrow> bit l 11 \<or> bit l 12" using f(2) 11 by (simp add: linorder_not_less [symmetric]) blast
  show "l AND 0x800 = 0 \<longleftrightarrow> \<not> bit l 11"
    using and_exp_eq_0_iff_not_bit [of l 11] by simp
  have "l AND 0xFFF = l" if "\<not> bit l 12"
    using that 12 by (simp add: octal_masks fits_def take_bit_eq_mask)
  then show "l = 0 \<longleftrightarrow> l AND 0xFFF = 0 \<and> \<not> bit l 12" by auto
qed

lemma opr2_skips_condition:
  assumes "k < 16" "fits 13 l"
  shows "opr2_skips k l = skip_condition k l"
  using less_16_cases [OF assms(1)] link_tests [OF assms(2)]
  by (elim disjE; auto simp: opr2_skips_def skip_condition_def not_le [symmetric])


subsection \<open>Arithmetic\<close>

lemma unat_and_mask: "unat (x AND 0xFFF) = unat x mod 4096" "unat (x AND 0x1FFF) = unat x mod 8192" for x :: u32
  unfolding octal_masks by (simp_all only: flip: take_bit_eq_mask) (simp_all add: unsigned_take_bit_eq take_bit_eq_mod unat_mod)

lemma unat_plus_small: "unat x + unat y < 2 ^ 32 \<Longrightarrow> unat (x + y) = unat x + unat y" for x y :: u32
  by (simp add: unat_plus_if')

lemma unat_times_small: "unat x * unat y < 2 ^ 32 \<Longrightarrow> unat (x * y) = unat x * unat y" for x y :: u32
  by (simp add: unat_word_ariths)

lemma unat_drop_12: "unat (drop_bit 12 x) = unat x div 4096" for x :: u32
  by (simp add: unsigned_drop_bit_eq drop_bit_eq_div unat_div)

lemma wf_bounds:
  assumes "pdp8_wf s"
  shows "unat (mem s a) < 4096" "unat (rPC s) < 4096" "unat (rLAC s) < 8192" "unat (rMQ s) < 4096"
  using assms by (simp_all add: pdp8_wf_def fits_less)

lemma tad_adds:
  assumes "pdp8_wf s" "operand_addr IR MA s = (a, s1)"
  shows "unat (rLAC (op_tad IR MA s)) = (unat (rLAC s) + unat (mem s1 a)) mod 8192"
proof -
  have wf: "pdp8_wf s1" by (rule operand_addr_wf(1) [OF assms])
  have "rLAC s1 = rLAC s" using assms(2)
    by (auto simp: operand_addr_def indirect_def write_mem_def Let_def split: if_splits prod.splits)
  with wf_bounds(1) [OF wf, of a] wf_bounds(3) [OF wf] have "unat (rLAC s1 + mem s1 a) = unat (rLAC s) + unat (mem s1 a)"
    by (simp add: unat_plus_small)
  then show ?thesis using assms(2) by (simp add: op_tad_def unat_and_mask)
qed

lemma muy_multiplies:
  assumes wf: "pdp8_wf s" and a: "eae_operand s = (a, s1)"
  shows "unat (rLAC (eae_muy s)) * 4096 + unat (rMQ (eae_muy s)) =
    unat (rMQ s) * unat (mem s1 a) + unat (rLAC s) mod 4096"
proof -
  have wf1: "pdp8_wf s1" by (rule eae_operand_wf(1) [OF wf a])
  have eq: "rMQ s1 = rMQ s" "rLAC s1 = rLAC s" using a
    by (auto simp: eae_operand_def eae_defer_def indirect_def write_mem_def Let_def split: if_splits prod.splits)
  let ?t = "rMQ s1 * mem s1 a + (rLAC s1 AND 0xFFF)"
  have "unat (rMQ s1) * unat (mem s1 a) \<le> 4095 * 4095"
    using wf_bounds(1) [OF wf1, of a] wf_bounds(4) [OF wf1] by (intro mult_le_mono) simp_all
  then have t: "unat ?t = unat (rMQ s1) * unat (mem s1 a) + unat (rLAC s1) mod 4096" "unat ?t < 4096 * 4096"
    using mod_less_divisor [of 4096 "unat (rLAC s1)"]
    by (simp_all add: unat_plus_small unat_times_small unat_and_mask)
  have "unat ?t div 4096 mod 4096 * 4096 + unat ?t mod 4096 = unat ?t" using t(2)
    by (simp add: div_less_iff_less_mult div_mult_mod_eq)
  then show ?thesis
    using t(1) eq by (simp add: eae_muy_def a Let_def skip_def unat_and_mask unat_drop_12)
qed

lemma dvi_divides:
  assumes wf: "pdp8_wf s" and a: "eae_operand s = (a, s1)" and lt: "rLAC s AND 0xFFF < mem s1 a"
  shows "unat (rMQ (eae_dvi s)) = (unat (rLAC s) mod 4096 * 4096 + unat (rMQ s)) div unat (mem s1 a)"
    "unat (rLAC (eae_dvi s)) = (unat (rLAC s) mod 4096 * 4096 + unat (rMQ s)) mod unat (mem s1 a)"
proof -
  have wf1: "pdp8_wf s1" by (rule eae_operand_wf(1) [OF wf a])
  have eq: "rMQ s1 = rMQ s" "rLAC s1 = rLAC s" using a
    by (auto simp: eae_operand_def eae_defer_def indirect_def write_mem_def Let_def split: if_splits prod.splits)
  have lt1: "rLAC s1 AND 0xFFF < mem s1 a" using lt eq by simp
  note b = dvi_bounds [OF _ pdp8_wfD(7) [OF wf1] pdp8_wfD(1) [OF wf1] lt1]
  have dvi: "eae_dvi s = (let temp = push_bit 12 (rLAC s1 AND 0xFFF) OR rMQ s1
      in skip (s1\<lparr>rMQ := temp div mem s1 a, rLAC := temp mod mem s1 a, rSC := 13\<rparr>))"
    using lt1 unfolding eae_dvi_def a prod.case Let_def by (subst if_not_P) auto
  show "unat (rMQ (eae_dvi s)) = (unat (rLAC s) mod 4096 * 4096 + unat (rMQ s)) div unat (mem s1 a)"
    unfolding dvi Let_def using b(1) eq by (simp only: skip_def pdp8.simps unat_and_mask) simp
  show "unat (rLAC (eae_dvi s)) = (unat (rLAC s) mod 4096 * 4096 + unat (rMQ s)) mod unat (mem s1 a)"
    unfolding dvi Let_def using b(3) eq by (simp only: skip_def pdp8.simps unat_and_mask) simp
qed

lemma dad_adds:
  assumes wf: "pdp8_wf s" and a: "eae_defer s = (a, s1)"
  shows "unat (rLAC (eae_dad s)) * 4096 + unat (rMQ (eae_dad s)) =
    (unat (rLAC s) mod 4096 * 4096 + unat (rMQ s)) +
    (unat (mem s1 (rDF s OR ((a + 1) AND 0xFFF))) * 4096 + unat (mem s1 a))"
proof -
  have wf1: "pdp8_wf s1" by (rule eae_defer_wf(1) [OF wf a])
  have eq: "rMQ s1 = rMQ s" "rLAC s1 = rLAC s" "rDF s1 = rDF s" using a
    by (auto simp: eae_defer_def indirect_def write_mem_def Let_def split: if_splits prod.splits)
  let ?mq = "rMQ s1 + mem s1 a" and ?h = "mem s1 (rDF s OR ((a + 1) AND 0xFFF))"
  note bd = wf_bounds [OF wf1]
  have mq: "unat ?mq = unat (rMQ s) + unat (mem s1 a)" using bd(1) [of a] bd(4) eq by (simp add: unat_plus_small)
  have "unat ((rLAC s1 AND 0xFFF) + ?h + drop_bit 12 ?mq) = unat (rLAC s) mod 4096 + unat ?h + unat ?mq div 4096"
  proof -
    have "unat (rLAC s) mod 4096 < 4096" "unat ?h < 4096" "unat ?mq div 4096 < 2"
      using bd(1) [of a] bd(1) [of "rDF s OR ((a + 1) AND 0xFFF)"] bd(4) eq mq by simp_all
    then show ?thesis
      using eq by (simp add: unat_plus_small unat_and_mask unat_drop_12)
  qed
  moreover have "unat ?mq = unat ?mq div 4096 * 4096 + unat ?mq mod 4096" by simp
  ultimately show ?thesis
    using eq mq by (simp add: eae_dad_def a Let_def skip_def unat_and_mask algebra_simps)
qed

lemma operand_addr_keeps:
  assumes "operand_addr IR MA s = (a, s1)"
  shows "rPC s1 = rPC s" "rLAC s1 = rLAC s" "memsize s1 = memsize s"
  using assms by (auto simp: operand_addr_def indirect_def write_mem_def Let_def split: if_splits prod.splits)

lemma isz_counts:
  assumes wf: "pdp8_wf s" and a: "operand_addr IR MA s = (a, s1)" "IR AND 0x100 = 0 \<or> MEM_ADDR_OK a s1"
  shows "unat (mem (op_isz IR MA s) a) = (unat (mem s1 a) + 1) mod 4096"
    "rPC (op_isz IR MA s) = (if unat (mem s1 a) = 4095 then (rPC s + 1) AND 0xFFF else rPC s)"
proof -
  have wf1: "pdp8_wf s1" by (rule operand_addr_wf(1) [OF wf a(1)])
  have b: "unat (mem s1 a) < 4096" by (rule wf_bounds [OF wf1])
  have v: "unat ((mem s1 a + 1) AND 0xFFF) = (unat (mem s1 a) + 1) mod 4096"
    using b by (simp add: unat_and_mask unat_plus_small)
  have z: "(mem s1 a + 1) AND 0xFFF = 0 \<longleftrightarrow> unat (mem s1 a) = 4095"
    unfolding word_unat_eq_iff v using b by (auto simp: mod_Suc)
  show "unat (mem (op_isz IR MA s) a) = (unat (mem s1 a) + 1) mod 4096"
    using a by (simp add: op_isz_def Let_def skip_def write_mem_def v z)
  show "rPC (op_isz IR MA s) = (if unat (mem s1 a) = 4095 then (rPC s + 1) AND 0xFFF else rPC s)"
    using a z operand_addr_keeps [OF a(1)] by (simp add: op_isz_def Let_def skip_def write_mem_def)
qed

subsection \<open>Rotations\<close>

lemma rotate_bits:
  assumes "fits 13 l"
  shows "bit (opr1_shift 2 IR MA l) n \<longleftrightarrow> (if n = 0 then bit l 12 else n < 13 \<and> bit l (n - 1))"
    "bit (opr1_shift 3 IR MA l) n \<longleftrightarrow> (if n < 2 then bit l (11 + n) else n < 13 \<and> bit l (n - 2))"
    "bit (opr1_shift 4 IR MA l) n \<longleftrightarrow> (if n = 12 then bit l 0 else bit l (n + 1))"
    "bit (opr1_shift 5 IR MA l) n \<longleftrightarrow> (if n = 11 \<or> n = 12 then bit l (n - 11) else bit l (n + 2))"
proof -
  have l: "\<not> bit l k" if "13 \<le> k" for k using assms that by (simp add: fits_bit)
  have rot: "opr1_shift 2 IR MA l = (push_bit 1 l OR drop_bit 12 l) AND mask 13"
    "opr1_shift 3 IR MA l = (push_bit 2 l OR drop_bit 11 l) AND mask 13"
    "opr1_shift 4 IR MA l = (drop_bit 1 l OR push_bit 12 l) AND mask 13"
    "opr1_shift 5 IR MA l = (drop_bit 2 l OR push_bit 11 l) AND mask 13"
    by (simp_all add: opr1_shift_def octal_masks)
  note bits = bit_or_iff bit_and_iff bit_push_bit_iff bit_drop_bit_eq bit_mask_iff comp_def impossible_bit
  show "bit (opr1_shift 2 IR MA l) n \<longleftrightarrow> (if n = 0 then bit l 12 else n < 13 \<and> bit l (n - 1))"
    unfolding rot bits by (cases "n = 0") (auto simp: l)
  show "bit (opr1_shift 3 IR MA l) n \<longleftrightarrow> (if n < 2 then bit l (11 + n) else n < 13 \<and> bit l (n - 2))"
    unfolding rot bits by (auto simp: l)
  show "bit (opr1_shift 4 IR MA l) n \<longleftrightarrow> (if n = 12 then bit l 0 else bit l (n + 1))"
    unfolding rot bits by (cases "n \<le> 12") (auto simp: l)
  show "bit (opr1_shift 5 IR MA l) n \<longleftrightarrow> (if n = 11 \<or> n = 12 then bit l (n - 11) else bit l (n + 2))"
    unfolding rot bits by (cases "n \<le> 10") (auto simp: l)
qed

lemma rotate_laws:
  assumes "fits 13 l"
  shows "opr1_shift 4 IR MA (opr1_shift 2 IR MA l) = l"
    "opr1_shift 3 IR MA l = opr1_shift 2 IR MA (opr1_shift 2 IR MA l)"
    "opr1_shift 5 IR MA l = opr1_shift 4 IR MA (opr1_shift 4 IR MA l)"
proof -
  note l = fits_bitD [OF assms]
  note r = rotate_bits [OF assms] rotate_bits [OF opr1_shift_fits [OF assms]]
  show "opr1_shift 4 IR MA (opr1_shift 2 IR MA l) = l"
    by (rule bit_word_eqI) (auto simp: r dest: l)
  show "opr1_shift 3 IR MA l = opr1_shift 2 IR MA (opr1_shift 2 IR MA l)"
    by (rule bit_word_eqI) (auto simp: r numeral_2_eq_2 less_Suc_eq dest: l)
  show "opr1_shift 5 IR MA l = opr1_shift 4 IR MA (opr1_shift 4 IR MA l)"
    by (rule bit_word_eqI) (auto simp: r dest: l)
qed

subsection \<open>Interrupts and user mode\<close>

lemma is_field_bit: "is_field x \<Longrightarrow> bit x n \<Longrightarrow> 12 \<le> n \<and> n < 15"
proof -
  assume "is_field x" "bit x n"
  moreover have "(0x7000 :: u32) = push_bit 12 (mask 3)" by (simp add: mask_eq_exp_minus_1)
  ultimately have "bit (x AND push_bit 12 (mask 3)) n" by (simp add: is_field_def)
  then show ?thesis unfolding bit_and_iff bit_push_bit_iff bit_mask_iff by auto
qed

lemma save_field_bits:
  fixes u i d :: u32
  assumes "fits 1 u" "is_field i" "is_field d"
  defines "sf \<equiv> push_bit 6 u OR drop_bit 9 i OR drop_bit 12 d"
  shows "drop_bit 6 (sf AND 0x40) = u" "push_bit 9 (sf AND 0x38) = i" "push_bit 12 (sf AND 7) = d"
proof -
  have b: "bit u n \<Longrightarrow> n = 0" "bit i n \<Longrightarrow> 12 \<le> n \<and> n < 15" "bit d n \<Longrightarrow> 12 \<le> n \<and> n < 15" for n
    using assms is_field_bit [of i n] is_field_bit [of d n] by (auto simp: fits_bit not_less_eq_eq)
  have c: "(0x40 :: u32) = push_bit 6 (mask 1)" "(0x38 :: u32) = push_bit 3 (mask 3)" "(7 :: u32) = mask 3"
    by (simp_all add: mask_eq_exp_minus_1)
  note bits = bit_or_iff bit_and_iff bit_push_bit_iff bit_drop_bit_eq bit_mask_iff comp_def impossible_bit
  show "drop_bit 6 (sf AND 0x40) = u" unfolding sf_def c
    by (rule bit_word_eqI; unfold bits) (auto dest: b)
  have "9 + (n - 9) = n" if "bit i n" for n using b(2) [OF that] by simp
  then show "push_bit 9 (sf AND 0x38) = i" unfolding sf_def c
    by (intro bit_word_eqI; unfold bits) (auto dest: b)
  have "12 + (n - 12) = n" if "bit d n" for n using b(3) [OF that] by simp
  then show "push_bit 12 (sf AND 7) = d" unfolding sf_def c
    by (intro bit_word_eqI; unfold bits) (auto dest: b)
qed

text \<open>
  An interrupt and the return from it.  \<open>h\<close> is the machine at the end of the handler, about
  which only what the handler has to preserve is known; \<open>RMF\<close> is 6244 and \<open>JMP I 0\<close> is 5400.
\<close>

lemma take_interrupt_saves:
  assumes wf: "pdp8_wf s" and "INT_PENDING <s int_req s"
  shows "rSF (take_interrupt s) = push_bit 6 (rUF s) OR drop_bit 9 (rIF s) OR drop_bit 12 (rDF s)"
    "mem (take_interrupt s) 0 = rPC s" "rPC (take_interrupt s) = 1" "rIF (take_interrupt s) = 0"
    "rDF (take_interrupt s) = 0" "rUF (take_interrupt s) = 0" "rIB (take_interrupt s) = 0"
    "int_req (take_interrupt s) = int_req s AND NOT INT_ION"
  using assms(2) by (simp_all add: take_interrupt_def Let_def pcq_entry_def write_mem_def)

lemma interrupt_return:
  assumes wf: "pdp8_wf s" and irq: "INT_PENDING <s int_req s"
    and h: "rSF h = rSF (take_interrupt s)" "mem h 0 = mem (take_interrupt s) 0" "rIF h = 0" "rUF h = 0"
    and h1_def: "h1 = snd (execute env 0xCA4 MA h)" and h2_def: "h2 = snd (execute env 0xB00 MA' h1)"
  shows "rPC h2 = rPC s" "rIF h2 = rIF s" "rDF h2 = rDF s" "rUF h2 = rUF s" 
proof -
  note sv = take_interrupt_saves [OF wf irq]
  note f = save_field_bits [OF pdp8_wfD(13,3,4) [OF wf]]
  have h1: "h1 = h\<lparr>rUB := rUF s, rIB := rIF s, rDF := rDF s, int_req := int_req h AND NOT INT_NO_CIF_PENDING\<rparr>"
    using h f unfolding h1_def execute_def op_iot_def iot_memext_def iot_memext_4_def sv(1) by (simp add: Let_def sv(1))
  have h2: "h2 = (change_fields (pcq_entry MA' h1))\<lparr>rPC := mem h1 0\<rparr>"
    using h unfolding h2_def execute_def op_jmp_def jump_addr_def 
    by (simp add: Let_def h1 pcq_entry_def tsc_save_def indirect_def)
  show "rPC h2 = rPC s" "rIF h2 = rIF s" "rDF h2 = rDF s" "rUF h2 = rUF s" 
    using h sv unfolding h2 change_fields_def pcq_entry_def h1 by (simp_all add: Let_def)
qed

lemma user_mode_iot:
  assumes "rUF s \<noteq> 0" "drop_bit 9 IR AND 7 = 6"
  shows "execute env IR MA s = (SCPE_OK, s\<lparr>int_req := int_req s OR INT_UF, tsc_ir := IR,
    tsc_cdf := (if IR AND 0xFC7 = 0xC81 then 1 else 0)\<rparr>)"
  using assms by (simp add: execute_def op_iot_def)

lemma user_mode_opr2:
  assumes "rUF s \<noteq> 0"
  shows "fst (op_opr2 IR s) = SCPE_OK" "IR AND 6 \<noteq> 0 \<Longrightarrow> int_req (snd (op_opr2 IR s)) = int_req s OR INT_UF"
    "rLAC (snd (op_opr2 IR s)) \<in> {rLAC s, rLAC s AND 0x1000}"
proof -
  have "IR AND 2 = 0" "IR AND 4 = 0" if "IR AND 6 = 0"
  proof -
    have "(IR AND 6) AND 2 = IR AND 2" "(IR AND 6) AND 4 = IR AND 4" by (simp_all add: and.assoc)
    with that show "IR AND 2 = 0" "IR AND 4 = 0" by simp_all
  qed
  with assms show "fst (op_opr2 IR s) = SCPE_OK" "IR AND 6 \<noteq> 0 \<Longrightarrow> int_req (snd (op_opr2 IR s)) = int_req s OR INT_UF"
    "rLAC (snd (op_opr2 IR s)) \<in> {rLAC s, rLAC s AND 0x1000}"
    by (auto simp: op_opr2_def Let_def skip_def)
qed

subsection \<open>The extended arithmetic element\<close>

text \<open>The number a 12-bit word stands for in two's complement.\<close>

definition signed12 :: "u32 \<Rightarrow> int" where
  "signed12 x = (if bit x 11 then int (unat x mod 4096) - 4096 else int (unat x mod 4096))"

lemma bit_11: "fits 12 x \<Longrightarrow> bit x 11 \<longleftrightarrow> 2048 \<le> unat x" for x :: u32
  using fits_smaller [of 11 x] by (auto simp: fits_less)

lemma sign_differs:
  fixes x y :: u32
  assumes "fits 12 x" "fits 12 y"
  shows "drop_bit 11 (x XOR y) = (if bit x 11 \<noteq> bit y 11 then 1 else 0)"
proof (rule bit_word_eqI)
  fix n :: nat
  show "bit (drop_bit 11 (x XOR y)) n = bit (if bit x 11 \<noteq> bit y 11 then 1 else 0 :: u32) n"
    using assms by (cases n) (auto simp: fits_bit bit_drop_bit_eq bit_xor_iff bit_1_iff)
qed

lemma complement_12:
  fixes x :: u32
  assumes "fits 12 x"
  shows "unat (x XOR 0xFFF) = 4095 - unat x"
proof -
  have "x AND (x XOR 0xFFF) = 0"
    using fits_bitD [OF assms] unfolding octal_masks by (intro bit_word_eqI) (auto simp: bit_simps)
  moreover have "x OR (x XOR 0xFFF) = 0xFFF"
    using fits_bitD [OF assms] unfolding octal_masks by (intro bit_word_eqI) (auto simp: bit_simps)
  ultimately have "x + (x XOR 0xFFF) = 0xFFF" by (simp add: disjunctive_add_eq_or)
  moreover have "fits 12 (x XOR 0xFFF)" using assms by (simp add: fits_bitwise)
  ultimately have "unat x + unat (x XOR 0xFFF) = 4095" 
    using assms unat_plus_small [of x "x XOR 0xFFF"] by (simp add: fits_less)
  then show ?thesis by simp
qed

lemma sam_compares:
  assumes "pdp8_wf s"
  shows "gtf (eae_sam s) = (if signed12 (rLAC s) \<le> signed12 (rMQ s) then 1 else 0)"
    "unat (rLAC (eae_sam s)) = 4096 + unat (rMQ s) - unat (rLAC s) mod 4096"
proof -
  let ?a = "rLAC s AND 0xFFF"
  have f: "fits 12 ?a" "fits 12 (rMQ s)" using assms by (simp_all add: pdp8_wfD)
  have u: "unat ?a = unat (rLAC s) mod 4096" by (rule unat_and_mask)
  have "bit ?a 11 = bit (rLAC s) 11" by (simp add: octal_masks bit_simps)
  then show "gtf (eae_sam s) = (if signed12 (rLAC s) \<le> signed12 (rMQ s) then 1 else 0)"
    using f bit_11 [OF f(1)] bit_11 [OF f(2)] sign_differs [OF f]
    by (auto simp: eae_sam_def Let_def signed12_def u fits_less word_le_nat_alt simp del: of_nat_unat)
  have lt: "unat (rLAC s) mod 4096 < 4096" by simp
  have "unat (rMQ s + (?a XOR 0xFFF) + 1) = unat (rMQ s) + (4095 - unat ?a) + 1"
    using f by (simp add: unat_plus_small complement_12 [OF f(1)] fits_less)
  then show "unat (rLAC (eae_sam s)) = 4096 + unat (rMQ s) - unat (rLAC s) mod 4096"
    using lt unfolding u by (simp add: eae_sam_def Let_def)
qed

lemma mod_complement:
  fixes a b m :: nat
  assumes "(a + b) mod m = 0" "0 < m"
  shows "b mod m = (m - a mod m) mod m"
proof -
  let ?a = "a mod m" and ?b = "b mod m"
  have s: "(?a + ?b) mod m = 0" using assms(1) by (simp only: mod_add_eq)
  have lt: "?a < m" "?b < m" using assms(2) by simp_all
  show ?thesis
  proof (cases "?a + ?b < m")
    case True
    with s have "?a = 0" "?b = 0" by simp_all
    then show ?thesis by simp
  next
    case False
    with s lt have "?a + ?b - m = 0" by (simp add: mod_if [of "?a + ?b"])
    with False lt have "m - ?a = ?b" by linarith
    with lt show ?thesis by simp
  qed
qed

lemma negate_12: "unat ((- x) AND 0xFFF) = (4096 - unat x mod 4096) mod 4096" for x :: u32
proof -
  have "(unat x + unat (- x)) mod 2 ^ 32 = 0"
    using unat_word_ariths(1) [of x "- x"] by simp
  then have "(2::nat) ^ 32 dvd unat x + unat (- x)" by (simp only: dvd_eq_mod_eq_0)
  then have "4096 dvd unat x + unat (- x)" by (rule dvd_trans [rotated]) simp
  then have "(unat x + unat (- x)) mod 4096 = 0" by simp
  then show ?thesis unfolding unat_and_mask by (rule mod_complement) simp
qed

lemma plus_one_12: "unat ((x + 1) AND 0xFFF) = (unat x mod 4096 + 1) mod 4096" for x :: u32
proof -
  have "unat (x + 1) mod 4096 = (unat x + 1) mod 4096"
    unfolding unat_word_ariths by (simp add: mod_mod_cancel)
  then show ?thesis by (simp add: unat_and_mask mod_simps)
qed

lemma link_or_mq:
  assumes "pdp8_wf s"
  shows "unat ((rLAC s AND 0x1000) OR rMQ s) mod 4096 = unat (rMQ s)"
proof -
  have "((rLAC s AND 0x1000) OR rMQ s) AND 0xFFF = rMQ s"
    using fits_bitD [OF pdp8_wfD(7) [OF assms]] unfolding octal_masks
    by (intro bit_word_eqI) (auto simp: bit_simps bit_link)
  then show ?thesis by (metis unat_and_mask(1))
qed

text \<open>\<open>SWP DCM\<close> is 7575 and \<open>SWP DPIC\<close> is 7573: the double word \<open>AC:MQ\<close> negated, incremented.\<close>

lemma dcm_negates:
  assumes wf: "pdp8_wf s" and "emode s \<noteq> 0" "\<not> noeae s"
    and s': "s' = snd (execute env 0xF7D MA s)"
  shows "unat (rLAC s') * 4096 + unat (rMQ s') = 4096 * 4096 - (unat (rLAC s) mod 4096 * 4096 + unat (rMQ s))"
proof -
  have "s' = eae_dcm (opr3_std 0xF7D s)"
    using assms by (simp add: execute_def op_opr3_def Let_def opr3_std_def eae_dispatch_def)
  then have s': "s' = eae_dcm (s\<lparr>rMQ := rLAC s AND 0xFFF, rLAC := (rLAC s AND 0x1000) OR rMQ s\<rparr>)"
    by (simp add: opr3_std_def Let_def)
  let ?x = "(rLAC s AND 0x1000) OR rMQ s" and ?t = "(- ((rLAC s AND 0x1000) OR rMQ s)) AND 0xFFF"
  have mq: "unat (rMQ s) < 4096" by (rule wf_bounds [OF wf])
  have x: "unat ?x mod 4096 = unat (rMQ s)" by (rule link_or_mq [OF wf])
  have t: "unat ?t = (4096 - unat (rMQ s)) mod 4096" unfolding negate_12 x ..
  have z: "?t = 0 \<longleftrightarrow> unat (rMQ s) = 0" unfolding word_unat_eq_iff t using mq by (auto simp: mod_if)
  have c: "unat ((rLAC s AND 0xFFF) XOR 0xFFF) = 4095 - unat (rLAC s) mod 4096"
    by (subst complement_12) (simp_all add: unat_and_mask)
  have lt: "unat (rLAC s) mod 4096 < 4096" by simp
  then have "unat (rLAC s') = 4095 - unat (rLAC s) mod 4096 + (if unat (rMQ s) = 0 then 1 else 0)"
    unfolding s' by (simp add: eae_dcm_def Let_def z c unat_plus_small, linarith)
  moreover have "unat (rMQ s') = unat ?t" unfolding s' by (simp add: eae_dcm_def Let_def)
  ultimately show ?thesis
    using t mq lt by (cases "unat (rMQ s) = 0") (simp_all add: diff_mult_distrib)
qed

lemma dpic_increments:
  assumes wf: "pdp8_wf s" and "emode s \<noteq> 0" "\<not> noeae s"
    and s': "s' = snd (execute env 0xF7B MA s)"
  shows "unat (rLAC s') * 4096 + unat (rMQ s') = unat (rLAC s) mod 4096 * 4096 + unat (rMQ s) + 1"
proof -
  have s': "s' = eae_dpic (s\<lparr>rMQ := rLAC s AND 0xFFF, rLAC := (rLAC s AND 0x1000) OR rMQ s\<rparr>)"
    using assms by (simp add: execute_def op_opr3_def Let_def opr3_std_def eae_dispatch_def)
  let ?t = "((rLAC s AND 0x1000) OR rMQ s) + 1 AND 0xFFF"
  have mq: "unat (rMQ s) < 4096" by (rule wf_bounds [OF wf])
  have t: "unat ?t = (unat (rMQ s) + 1) mod 4096" unfolding plus_one_12 link_or_mq [OF wf] ..
  have z: "?t = 0 \<longleftrightarrow> unat (rMQ s) = 4095" unfolding word_unat_eq_iff t using mq by (auto simp: mod_if)
  have "unat (rLAC s') = unat (rLAC s) mod 4096 + (if unat (rMQ s) = 4095 then 1 else 0)"
    unfolding s' by (simp add: eae_dpic_def Let_def z unat_plus_small unat_and_mask)
  moreover have "unat (rMQ s') = unat ?t" unfolding s' by (simp add: eae_dpic_def Let_def)
  ultimately show ?thesis using t mq by (simp add: mod_if)
qed

lemma shifted_value:
  "unat (rLAC (eae_shifted 0x1FFF temp s)) * 4096 + unat (rMQ (eae_shifted 0x1FFF temp s)) = unat temp mod 2 ^ 25"
  "unat (rLAC (eae_shifted 0xFFF temp s)) * 4096 + unat (rMQ (eae_shifted 0xFFF temp s)) = unat temp mod 2 ^ 24"
proof -
  have "n div 4096 mod 8192 * 4096 + n mod 4096 = n mod 2 ^ 25" 
    "n div 4096 mod 4096 * 4096 + n mod 4096 = n mod 2 ^ 24" for n :: nat
    using mod_mult2_eq [of n 4096 8192] mod_mult2_eq [of n 4096 4096] by simp_all
  then show 
    "unat (rLAC (eae_shifted 0x1FFF temp s)) * 4096 + unat (rMQ (eae_shifted 0x1FFF temp s)) = unat temp mod 2 ^ 25"
    "unat (rLAC (eae_shifted 0xFFF temp s)) * 4096 + unat (rMQ (eae_shifted 0xFFF temp s)) = unat temp mod 2 ^ 24"
    by (simp_all add: eae_shifted_def skip_def unat_and_mask unat_drop_12)
qed

lemma unat_push_bit_mod: "n \<le> 32 \<Longrightarrow> unat (push_bit k x) mod 2 ^ n = unat x * 2 ^ k mod 2 ^ n" for x :: u32
proof -
  assume n: "n \<le> 32"
  have "unat (push_bit k x) = unat x * 2 ^ k mod 2 ^ 32"
    by (simp only: unsigned_push_bit_eq) (simp add: push_bit_eq_mult take_bit_eq_mod)
  then show ?thesis using n by (simp only: mod_mod_cancel le_imp_power_dvd)
qed

text \<open>The shift counts, read from the word behind the instruction.\<close>

lemma shl_multiplies:
  assumes wf: "pdp8_wf s"
  shows "unat (rLAC (eae_shl s)) * 4096 + unat (rMQ (eae_shl s)) =
    (unat (rLAC s) * 4096 + unat (rMQ s)) * 2 ^ unat (eae_count s) mod 2 ^ 25"
proof (cases "eae_count s > 25")
  case True
  then have "25 < unat (eae_count s)" by (simp add: word_less_nat_alt)
  then have "(2::nat) ^ 25 dvd 2 ^ unat (eae_count s)" by (intro le_imp_power_dvd) simp
  then have "v * 2 ^ unat (eae_count s) mod 2 ^ 25 = 0" for v :: nat by (simp only: dvd_eq_mod_eq_0 [symmetric] dvd_mult)
  with True show ?thesis unfolding eae_shl_def Let_def shifted_value by simp
next
  case False
  then show ?thesis
    unfolding eae_shl_def Let_def shifted_value if_not_P [OF False] 
    using double_word [OF pdp8_wfD(6,7) [OF wf]] by (subst unat_push_bit_mod) simp_all
qed

lemma lsr_divides:
  assumes wf: "pdp8_wf s"
  shows "unat (rLAC (eae_lsr s)) * 4096 + unat (rMQ (eae_lsr s)) =
    (unat (rLAC s) mod 4096 * 4096 + unat (rMQ s)) div 2 ^ unat (eae_count s)"
proof -
  let ?t = "push_bit 12 (rLAC s AND 0xFFF) OR rMQ s"
  have t: "unat ?t = unat (rLAC s) mod 4096 * 4096 + unat (rMQ s)"
    using double_word [OF fits_mono [of 12] pdp8_wfD(7) [OF wf], of "rLAC s AND 0xFFF"] by (simp add: unat_and_mask)
  have b: "unat ?t < 2 ^ 24" using t wf_bounds(4) [OF wf] mod_less_divisor [of 4096 "unat (rLAC s)"] by simp
  show ?thesis
  proof (cases "eae_count s > 24")
    case True
    then have "24 < unat (eae_count s)" by (simp add: word_less_nat_alt)
    then have "unat ?t div 2 ^ unat (eae_count s) = 0"
      using less_le_trans [OF b power_increasing [of 24 "unat (eae_count s)" 2]] by simp
    with True show ?thesis unfolding eae_lsr_def Let_def shifted_value t by simp
  next
    case False
    have "unat (drop_bit (unat (eae_count s)) ?t) = unat ?t div 2 ^ unat (eae_count s)"
      by (subst unat_drop_bit_eq) (simp only: drop_bit_eq_div)
    moreover have "\<dots> < 2 ^ 24" using b by (rule le_less_trans [rotated]) (rule div_le_dividend)
    ultimately show ?thesis unfolding eae_lsr_def Let_def shifted_value if_not_P [OF False] t by simp
  qed
qed

text \<open>The double word as a signed number.\<close>

definition signed24 :: "'a pdp8_scheme \<Rightarrow> int" where
  "signed24 s = signed12 (rLAC s) * 4096 + int (unat (rMQ s))"

lemma bit_11_value: "bit x 11 \<longleftrightarrow> 2048 \<le> unat x mod 4096" for x :: u32
proof -
  have "bit (x AND 0xFFF) 11 = bit x 11" by (simp add: octal_masks bit_simps)
  then show ?thesis using bit_11 [of "x AND 0xFFF"] by (simp add: unat_and_mask)
qed

lemma sint_small: "- (2 ^ 31) \<le> k \<Longrightarrow> k < 2 ^ 31 \<Longrightarrow> sint (of_int k :: u32) = k"
  by (simp only: signed_of_int) (simp add: signed_take_bit_int_eq_self)

lemma extended_value:
  assumes wf: "pdp8_wf s"
  defines "t0 \<equiv> push_bit 12 (rLAC s AND 0xFFF) OR rMQ s"
  shows "sint (if rLAC s AND 0x800 \<noteq> 0 then t0 OR 0xFF000000 else t0) = signed24 s"
proof -
  have u: "unat t0 = unat (rLAC s) mod 4096 * 4096 + unat (rMQ s)"
    using double_word [OF fits_mono [of 12] pdp8_wfD(7) [OF wf], of "rLAC s AND 0xFFF"] by (simp add: unat_and_mask t0_def)
  have b: "unat t0 < 2 ^ 24" using u wf_bounds(4) [OF wf] mod_less_divisor [of 4096 "unat (rLAC s)"] by simp
  have sign: "rLAC s AND 0x800 \<noteq> 0 \<longleftrightarrow> bit (rLAC s) 11"
    using link_tests(3) [OF pdp8_wfD(6) [OF wf]] by simp
  have t0: "t0 = of_int (int (unat t0))" by simp
  show ?thesis
  proof (cases "bit (rLAC s) 11")
    case False
    then have "sint t0 = int (unat t0)" using b by (subst t0, intro sint_small) (simp_all del: of_nat_unat)
    with False sign show ?thesis by (simp add: u signed24_def signed12_def del: of_nat_unat)
  next
    case True
    have f: "(0xFF000000 :: u32) = push_bit 24 (mask 8)" by (simp add: mask_eq_exp_minus_1)
    have "t0 AND 0xFF000000 = 0" 
      using fits_bitD [of 24 t0] b unfolding f fits_less by (intro bit_word_eqI) (fastforce simp: bit_simps)
    then have "t0 OR 0xFF000000 = t0 + 0xFF000000" by (simp only: disjunctive_add_eq_or)
    also have "\<dots> = of_int (int (unat t0) - 2 ^ 24)" by simp
    also have "sint \<dots> = int (unat t0) - 2 ^ 24" using b by (intro sint_small) (simp_all del: of_nat_unat)
    finally show ?thesis using True sign by (simp add: u signed24_def signed12_def del: of_nat_unat)
  qed
qed

lemma asr_divides:
  assumes wf: "pdp8_wf s"
  shows "int (unat (rLAC (eae_asr s)) * 4096 + unat (rMQ (eae_asr s))) =
    signed24 s div 2 ^ unat (eae_count s) mod 2 ^ 25"
proof -
  define t1 where "t1 = (let t0 = push_bit 12 (rLAC s AND 0xFFF) OR rMQ s in
    if rLAC s AND 0x800 \<noteq> 0 then t0 OR 0xFF000000 else t0)"
  have t1: "sint t1 = signed24 s" unfolding t1_def Let_def by (rule extended_value [OF wf])
  have mod: "int (unat w mod 2 ^ 25) = sint w mod 2 ^ 25" for w :: u32
    by (simp only: sint_uint take_bit_eq_mod [symmetric]) (simp add: take_bit_signed_take_bit take_bit_of_nat [symmetric])
  show ?thesis
  proof (cases "eae_count s > 25")
    case True
    have "signed24 s div 2 ^ unat (eae_count s) = (if rLAC s AND 0x800 \<noteq> 0 then - 1 else 0)"
    proof -
      have n: "(2::int) ^ 26 \<le> 2 ^ unat (eae_count s)"
        using True by (intro power_increasing) (simp_all add: word_less_nat_alt)
      have sg: "rLAC s AND 0x800 \<noteq> 0 \<longleftrightarrow> bit (rLAC s) 11" "bit (rLAC s) 11 \<longleftrightarrow> 2048 \<le> unat (rLAC s) mod 4096"
        using link_tests(3) [OF pdp8_wfD(6) [OF wf]] by (simp_all add: bit_11_value)
      have "unat (rLAC s) mod 4096 < 4096" "unat (rMQ s) < 4096" using wf_bounds(4) [OF wf] by simp_all
      then have "(if rLAC s AND 0x800 \<noteq> 0 then - (2 ^ 26) else 0) \<le> signed24 s"
        "signed24 s < (if rLAC s AND 0x800 \<noteq> 0 then 0 else 2 ^ 26)"
        by (auto simp: sg signed24_def signed12_def simp del: of_nat_unat)
      with n show ?thesis 
        by (intro int_div_pos_eq [where r = "signed24 s + (if rLAC s AND 0x800 \<noteq> 0 then 2 ^ unat (eae_count s) else 0)"])
          (auto split: if_splits)
    qed
    with True show ?thesis unfolding eae_asr_def Let_def shifted_value mod by simp
  next
    case False
    show ?thesis unfolding eae_asr_def Let_def shifted_value mod if_not_P [OF False]
      unfolding t1_def [unfolded Let_def, symmetric] sint_signed_drop_bit_eq drop_bit_eq_div t1 ..
  qed
qed

lemma cpu_dep_ex:
  assumes "pdp8_wf s" "cpu_dep v a s = (SCPE_OK, s')"
  shows "cpu_ex a s' = (SCPE_OK, Some (ucast v AND 0xFFF))" "b \<noteq> a \<Longrightarrow> cpu_ex b s' = cpu_ex b s" "pdp8_wf s'"
  using assms by (auto simp: cpu_dep_def cpu_ex_def write_mem_def and.assoc pdp8_wf_def split: if_splits)

lemma restore_sets: "fits 12 (rPC (restore_regs s))" "fits 13 (rLAC (restore_regs s))" "fits 12 (rMQ (restore_regs s))"
    "is_field (rIF (restore_regs s))" "is_field (rDF (restore_regs s))"
  by (simp_all add: restore_regs_def)

text \<open>The handlers a list of slots claims, and those of all devices.\<close>

definition claims :: "(nat \<times> 'd option) list \<Rightarrow> (nat \<times> 'd) list" where
  "claims sl = map (\<lambda>(n, h). (n, the h)) (filter (\<lambda>(n, h). h \<noteq> None) sl)"

definition all_claims :: "'d DIB option list \<Rightarrow> (nat \<times> 'd) list" where
  "all_claims devs = concat (map (\<lambda>d. case d of None \<Rightarrow> [] | Some d \<Rightarrow> claims (dib_slots d)) devs)"

definition no_conflict :: "(nat \<times> 'd) list \<Rightarrow> (nat \<Rightarrow> 'd option) \<Rightarrow> bool" where
  "no_conflict cl tab \<longleftrightarrow> distinct (map fst cl) \<and> (\<forall>n \<in> fst ` set cl. tab n = None)"

lemma claims_simps [simp]:
  "claims [] = []" "claims ((n, None) # r) = claims r" "claims ((n, Some f) # r) = (n, f) # claims r"
  by (simp_all add: claims_def)

lemma no_conflict_Cons: "no_conflict ((n, f) # cl) tab \<longleftrightarrow> tab n = None \<and> no_conflict cl (tab(n \<mapsto> f))"
  by (auto simp: no_conflict_def)

lemma fill_slots_claims:
  "fill_slots sl tab = (if no_conflict (claims sl) tab then Some (tab ++ map_of (claims sl)) else None)"
proof (induction sl tab rule: fill_slots.induct)
  case (3 n f r tab)
  have "n \<notin> fst ` set (claims r) \<Longrightarrow> tab(n \<mapsto> f) ++ map_of (claims r) = (tab ++ map_of (claims r))(n \<mapsto> f)"
    by (rule map_add_upd_left) (simp add: dom_map_of_conv_image_fst)
  then have "no_conflict (claims r) (tab(n \<mapsto> f)) \<Longrightarrow>
      tab(n \<mapsto> f) ++ map_of (claims r) = tab ++ map_of ((n, f) # claims r)"
    by (force simp: no_conflict_def)
  with 3 show ?case by (simp add: no_conflict_Cons del: fun_upd_apply map_of.simps)
qed (simp_all add: no_conflict_def)

lemma no_conflict_append:
  "no_conflict (xs @ ys) tab \<longleftrightarrow> no_conflict xs tab \<and> no_conflict ys (tab ++ map_of xs)"
  by (auto simp: no_conflict_def map_add_None map_of_eq_None_iff) (metis fst_conv image_eqI)

lemma map_of_append_distinct:
  "no_conflict (xs @ ys) tab \<Longrightarrow> tab ++ map_of (xs @ ys) = tab ++ map_of xs ++ map_of ys"
  by (simp add: no_conflict_def map_of_append map_add_comm [of "map_of xs" "map_of ys"] dom_map_of_conv_image_fst Int_commute
      flip: map_add_assoc)

lemma fill_devices_claims:
  "fill_devices devs tab =
     (if no_conflict (all_claims devs) tab then Some (tab ++ map_of (all_claims devs)) else None)"
proof (induction devs tab rule: fill_devices.induct)
  case (3 d ds tab)
  have "all_claims (Some d # ds) = claims (dib_slots d) @ all_claims ds" by (simp add: all_claims_def)
  with 3 no_conflict_append [of "claims (dib_slots d)" "all_claims ds" tab]
    map_of_append_distinct [of "claims (dib_slots d)" "all_claims ds" tab]
  show ?case by (simp add: fill_slots_claims)
next
  case (2 ds tab)
  have "all_claims (None # ds) = all_claims ds" by (simp add: all_claims_def)
  with 2 show ?case by simp
qed (simp add: all_claims_def no_conflict_def)

lemma sim_instr_wf:
  assumes "sim_instr n fuel devs env s = Some (Inr (reason, s'))" "pdp8_wf s"
    and "\<And>tab. build_dev_tab bad_dev devs = Some tab \<Longrightarrow> env_wf (env\<lparr>dev_tab := \<lambda>d. tab (unat d)\<rparr>)"
  shows "pdp8_wf s'"
  using assms pdp8.inv_run [of _ "restore_regs s"] restore_regs_wf [OF assms(2)]
  by (fastforce simp: sim_instr_def Let_def save_regs_wf split: option.splits sum.splits)

subsection \<open>Properties\<close>

text \<open>A cleared machine of 32K words, with given registers and memory, for the witnesses.\<close>

definition pdp8_machine :: "u32 \<Rightarrow> u32 \<Rightarrow> u32 \<Rightarrow> (u32 \<Rightarrow> u32) \<Rightarrow> pdp8" where
  "pdp8_machine pc lac mq m =
     \<lparr>sim_clock_queue = [], sim_interval = NOQUEUE_WAIT, noqueue_time = NOQUEUE_WAIT, sim_vm_time = 0, sim_rtime = 0,
      stop_cpu = False, sim_processing_event = False, usecs_remaining = (\<lambda>u. 0),
      sim_brk_summ = 0, sim_brk_types = 0x110, sim_brk_dflt = 0x10, sim_brk_match_type = 0, sim_brk_match_addr = 0,
      sim_brk_act = (\<lambda>n. None), sim_brk_act_buf = (\<lambda>n. None), sim_do_depth = 0,
      sim_brk_tab = [], sim_brk_ent = 0, sim_brk_lnt = 0, sim_brk_ins = 0,
      mem = m, memsize = 0x8000, noeae = False, rPC = pc, rIF = 0, rDF = 0, rLAC = lac, rMQ = mq,
      saved_PC = pc, saved_DF = 0, saved_LAC = lac, saved_MQ = mq, rIB = 0, rSF = 0, emode = 0, gtf = 0,
      rSC = 0, rUB = 0, rUF = 0, rSR = 0, tsc_ir = 0, tsc_pc = 0, tsc_cdf = 0, tsc_enb = 0, cpu_astop = 0,
      pcq = (\<lambda>n. 0), pcq_p = 0, pcq_qptr = 0, dev_done = 0, int_enable = 0x45F, int_req = INT_NO_CIF_PENDING,
      stop_inst = 0, hst_p = 0, hst_lnt = 0, hst = []\<rparr>"

definition bare_env :: "pdp8 pdp8_env" where
  "bare_env =
     \<lparr>units = \<lparr>action = (\<lambda>u. None), cancel = (\<lambda>u e. (False, e)), tmr_unit = (\<lambda>u e. False),
        sim_timer_is_active = (\<lambda>u e. False), sim_timer_cancel = (\<lambda>u e. (SCPE_OK, e)),
        sim_timer_activate = (\<lambda>u t e. (SCPE_OK, e)), sim_timer_activate_after = (\<lambda>u d e. (SCPE_OK, e)),
        sim_timer_activate_time = (\<lambda>u e. -1), sim_timer_inst_per_sec = (\<lambda>e. 1)\<rparr>,
      dev_tab = (\<lambda>d. None), reset_all = (\<lambda>s. s), sim_idle_enab = (\<lambda>s. False), sim_idle = (\<lambda>s. s)\<rparr>"

lemma pdp8_machine_wf:
  "fits 12 pc \<Longrightarrow> fits 13 lac \<Longrightarrow> fits 12 mq \<Longrightarrow> \<forall>a. fits 12 (m a) \<Longrightarrow> pdp8_wf (pdp8_machine pc lac mq m)"
  by (simp add: pdp8_wf_def pdp8_machine_def)

lemma halt_stops: "rUF s = 0 \<Longrightarrow> op_opr2 0xF02 s = (STOP_HALT, s)"
  by (simp add: op_opr2_def opr2_skips_def)

text \<open>A cycle with no interrupt, breakpoint or history is fetch and execute.\<close>

lemma quiet_cycle:
  "\<not> INT_PENDING <s int_req s \<Longrightarrow> sim_brk_summ s = 0 \<Longrightarrow> hst_lnt s = 0 \<Longrightarrow>
   instr_cycle env s = execute env (mem s (rIF s OR rPC s)) (rIF s OR rPC s) (fetch s)"
  by (simp add: instr_cycle_def take_interrupt_def brk_check_def record_history_def fetch_def Let_def)

lemma nibble_less: "x AND 0xF < (16 :: u32)"
proof -
  have "x AND 0xF = take_bit 4 x" by (simp add: take_bit_eq_mask mask_eq_exp_minus_1)
  then show ?thesis by (simp only: word_less_nat_alt unsigned_take_bit_eq) (simp add: take_bit_eq_mod)
qed

lemma dvi_overflow:
  assumes "eae_operand s = (a, s1)" "\<not> rLAC s AND 0xFFF < mem s1 a"
  shows "rLAC (eae_dvi s) = rLAC s OR 0x1000"
proof -
  have "rLAC s1 = rLAC s" using assms(1)
    by (auto simp: eae_operand_def eae_defer_def indirect_def write_mem_def Let_def split: if_splits)
  with assms show ?thesis by (simp add: eae_dvi_def skip_def not_less)
qed

text \<open>
  C8. Invariant: a run of the processor keeps the machine well formed: twelve-bit memory words,
  program counter and multiplier quotient, a thirteen-bit link and accumulator, field registers that
  hold a field, a history pointer inside its buffer; for every device and service routine that keeps it so.
\<close>

theorem pdp8_run_keeps_machine:
  assumes "sim_instr n fuel devs env s = Some (Inr (reason, s'))" "pdp8_wf s"
    and "\<And>tab. build_dev_tab bad_dev devs = Some tab \<Longrightarrow> env_wf (env\<lparr>dev_tab := \<lambda>d. tab (unat d)\<rparr>)"
  shows "pdp8_wf s'"
  using assms by (rule sim_instr_wf)

theorem pdp8_run_keeps_machine_witness:
  "\<exists>s'. sim_instr 1 0 [] bare_env (pdp8_machine 0x80 0 0 (\<lambda>a. 0xF02)) = Some (Inr (STOP_HALT, s')) \<and> pdp8_wf s'"
proof -
  let ?s = "pdp8_machine 0x80 0 0 (\<lambda>a. 0xF02)"
  have t: "build_dev_tab bad_dev [] = Some tab \<Longrightarrow> env_wf (bare_env\<lparr>dev_tab := \<lambda>d. tab (unat d)\<rparr>)" for tab
    by (auto simp: build_dev_tab_def env_wf_def units_keep_def bare_env_def bad_dev_def split: if_splits)
  have wf: "pdp8_wf ?s" by (rule pdp8_machine_wf) simp_all
  have "pdp8_step 0 env (restore_regs ?s) = Inr (STOP_HALT, fetch (restore_regs ?s))" for env
    by (simp add: pdp8_step_def quiet_cycle restore_regs_def pdp8_machine_def execute_def halt_stops fetch_def word_sless_alt)
  then have s': "sim_instr 1 0 [] bare_env ?s = Some (Inr (STOP_HALT, save_regs (fetch (restore_regs ?s))))"
    by (simp add: sim_instr_def build_dev_tab_def Let_def)
  from pdp8_run_keeps_machine [OF s' wf t] s' show ?thesis by blast
qed

text \<open>
  C32. Equivalence: the table of sixteen cases with which group 1 instructions change link and
  accumulator does what the instruction's bits say, one after the other: clear accumulator, clear
  link, complement accumulator, complement link, then increment, then rotate.
\<close>

theorem pdp8_group1_is_microprogram:
  assumes "drop_bit 9 IR AND 7 = 7" "IR AND 0x100 = 0" "pdp8_wf s"
  shows "execute env IR MA s =
    (SCPE_OK, s\<lparr>rLAC := opr1_shift (drop_bit 1 IR AND 7) IR MA
       (let l = micro1 (drop_bit 4 IR AND 0xF) (rLAC s) in if IR AND 1 \<noteq> 0 then (l + 1) AND 0x1FFF else l)\<rparr>)"
  using assms opr1_logic_micro [of "drop_bit 4 IR AND 0xF" "rLAC s"]
  by (simp add: execute_def op_opr1_def Let_def pdp8_wfD nibble_less)

theorem pdp8_group1_is_microprogram_witness:
  "rLAC (snd (execute bare_env 0xE31 0x80 (pdp8_machine 0x80 0xFFF 0 (\<lambda>a. 0)))) = 0x1001"
  using pdp8_group1_is_microprogram [of "0xE31" "pdp8_machine 0x80 0xFFF 0 (\<lambda>a. 0)" bare_env "0x80"]
  by (simp add: pdp8_machine_wf) (simp add: pdp8_machine_def micro1_def opr1_shift_def Let_def)

text \<open>
  Equivalence: a group 2 instruction skips exactly when one of the conditions its bits select
  holds, negative, zero or link set, the sense reversed by bit 8.
\<close>

lemma pdp8_group2_skips:
  assumes "drop_bit 9 IR AND 7 = 7" "IR AND 0x100 \<noteq> 0" "IR AND 1 = 0" "pdp8_wf s"
  shows "rPC (snd (execute env IR MA s)) =
    (if skip_condition (drop_bit 3 IR AND 0xF) (rLAC s) then (rPC s + 1) AND 0xFFF else rPC s)"
  using assms opr2_skips_condition [of "drop_bit 3 IR AND 0xF" "rLAC s"]
  by (simp add: execute_def op_opr2_def Let_def pdp8_wfD nibble_less skip_def)

text \<open>
  Functional: \<open>TAD\<close> adds the operand to the thirteen bits of link and accumulator modulo
  \<open>2^13\<close>, and \<open>ISZ\<close> increments the operand modulo \<open>2^12\<close>, skipping exactly when it becomes
  zero.
\<close>

lemma pdp8_memory_arithmetic:
  assumes "pdp8_wf s" "operand_addr IR MA s = (a, s1)" "IR AND 0x100 = 0 \<or> MEM_ADDR_OK a s1"
  shows "unat (rLAC (op_tad IR MA s)) = (unat (rLAC s) + unat (mem s1 a)) mod 8192 \<and>
    unat (mem (op_isz IR MA s) a) = (unat (mem s1 a) + 1) mod 4096 \<and>
    rPC (op_isz IR MA s) = (if unat (mem s1 a) = 4095 then (rPC s + 1) AND 0xFFF else rPC s)"
  using tad_adds [OF assms(1,2)] isz_counts [OF assms] by blast

text \<open>
  Functional: \<open>MUY\<close> leaves the product of multiplier quotient and operand, plus the
  accumulator, in accumulator and quotient; \<open>DVI\<close> leaves quotient and remainder of the double word
  when the quotient fits, and otherwise sets the link.
\<close>

lemma pdp8_multiply_divide:
  assumes "pdp8_wf s" "eae_operand s = (a, s1)"
  shows "unat (rLAC (eae_muy s)) * 4096 + unat (rMQ (eae_muy s)) =
      unat (rMQ s) * unat (mem s1 a) + unat (rLAC s) mod 4096 \<and>
    (if unat (rLAC s) mod 4096 < unat (mem s1 a)
     then unat (rMQ (eae_dvi s)) = (unat (rLAC s) mod 4096 * 4096 + unat (rMQ s)) div unat (mem s1 a) \<and>
       unat (rLAC (eae_dvi s)) = (unat (rLAC s) mod 4096 * 4096 + unat (rMQ s)) mod unat (mem s1 a)
     else rLAC (eae_dvi s) = rLAC s OR 0x1000)"
  using muy_multiplies [OF assms] dvi_divides [OF assms] dvi_overflow [OF assms(2)]
  by (auto simp: word_less_nat_alt unat_and_mask)

text \<open>
  Functional: the three shifts are arithmetic on the double word of accumulator and quotient:
  \<open>SHL\<close> multiplies link, accumulator and quotient modulo \<open>2^25\<close>, \<open>LSR\<close> divides the unsigned and
  \<open>ASR\<close> the signed double word, for every count the code can read.
\<close>

lemma pdp8_shifts:
  assumes "pdp8_wf s"
  shows "unat (rLAC (eae_shl s)) * 4096 + unat (rMQ (eae_shl s)) =
      (unat (rLAC s) * 4096 + unat (rMQ s)) * 2 ^ unat (eae_count s) mod 2 ^ 25 \<and>
    unat (rLAC (eae_lsr s)) * 4096 + unat (rMQ (eae_lsr s)) =
      (unat (rLAC s) mod 4096 * 4096 + unat (rMQ s)) div 2 ^ unat (eae_count s) \<and>
    int (unat (rLAC (eae_asr s)) * 4096 + unat (rMQ (eae_asr s))) =
      signed24 s div 2 ^ unat (eae_count s) mod 2 ^ 25"
  using shl_multiplies [OF assms] lsr_divides [OF assms] asr_divides [OF assms] by blast

text \<open>
  Functional: returning from an interrupt.  When an interrupt is taken and the handler, with
  the save field and location 0 still as it found them, ends with \<open>RMF\<close> and an indirect jump
  through location 0, then program counter, both fields and the user flag are those of the
  interrupted program.
\<close>

lemma pdp8_interrupt_return:
  assumes "pdp8_wf s" "INT_PENDING <s int_req s"
    and "rSF h = rSF (take_interrupt s)" "mem h 0 = mem (take_interrupt s) 0" "rIF h = 0" "rUF h = 0"
  shows "(let h2 = snd (execute env 0xB00 MA' (snd (execute env 0xCA4 MA h))) in
    rPC h2 = rPC s \<and> rIF h2 = rIF s \<and> rDF h2 = rDF s \<and> rUF h2 = rUF s)"
  using interrupt_return [OF assms refl refl, of env MA' MA] by (simp add: Let_def)

text \<open>
  C33. Safety: in user mode no IOT instruction reaches a device, and no group 2 instruction halts the
  machine or reads the switches: both only raise the user interrupt and latch the instruction.
\<close>

theorem pdp8_user_mode_traps:
  assumes "rUF s \<noteq> 0"
  shows "(drop_bit 9 IR AND 7 = 6 \<longrightarrow> execute env IR MA s =
      (SCPE_OK, s\<lparr>int_req := int_req s OR INT_UF, tsc_ir := IR, tsc_cdf := (if IR AND 0xFC7 = 0xC81 then 1 else 0)\<rparr>)) \<and>
    fst (op_opr2 IR s) = SCPE_OK \<and>
    (IR AND 6 \<noteq> 0 \<longrightarrow> int_req (snd (op_opr2 IR s)) = int_req s OR INT_UF) \<and>
    rLAC (snd (op_opr2 IR s)) \<in> {rLAC s, rLAC s AND 0x1000}"
  using user_mode_iot [OF assms] user_mode_opr2 [OF assms] by blast

theorem pdp8_user_mode_traps_witness:
  "fst (op_opr2 0xF02 ((pdp8_machine 0x81 0 1 (\<lambda>a. 0))\<lparr>rUF := 1\<rparr>)) = SCPE_OK"
  using pdp8_user_mode_traps [of "(pdp8_machine 0x81 0 1 (\<lambda>a. 0))\<lparr>rUF := 1\<rparr>" "0xF02" bare_env 0] by simp

text \<open>
  Functional: the device dispatch table is built exactly when no device number is claimed
  twice or reserved for the processor, and then every claimed number has its claimant's routine.
\<close>

lemma pdp8_dispatch_table:
  "build_dev_tab bad devs =
     (let reserved = (\<lambda>n. if n \<in> {0, 8, 16, 17, 18, 19, 20, 21, 22, 23} then Some bad else None) in
      if no_conflict (all_claims devs) reserved then Some (reserved ++ map_of (all_claims devs)) else None)"
  unfolding build_dev_tab_def fill_devices_claims by (simp add: Let_def)

end
