(* ===== verification/Pdp8Interrupt.thy ===== *)
theory Pdp8Interrupt
  imports Pdp8Semantics
begin

text \<open>
  The interrupt system of the PDP-8.  The word \<^verbatim>\<open>int_req\<close> of \<^verbatim>\<open>pdp8_cpu.c\<close> keeps the requests of
  the devices, the interrupt enable bit and the two inhibit bits together, so that one signed
  comparison decides whether an interrupt is taken.  This theory states how the word relates to
  the done and enable flags of the devices, that the comparison means what it stands for, and that
  every instruction of the processor keeps the relation as long as devices and event routines do.
\<close>

unbundle bit_operations_syntax


subsection \<open>The interrupt flags\<close>

text \<open>
  The requests of the devices with an enable flag, the low fourteen bits of \<^verbatim>\<open>int_req\<close>, are
  their done flags masked by their enable flags.
\<close>

definition irq_wf :: "u32 \<Rightarrow> u32 \<Rightarrow> u32 \<Rightarrow> bool" where
  "irq_wf req don enb \<longleftrightarrow> fits 29 req \<and> fits 14 don \<and> fits 14 enb \<and> req AND INT_DEV_ENABLE = don AND enb"

abbreviation irq_ok :: "'a pdp8_scheme \<Rightarrow> bool" where
  "irq_ok s \<equiv> irq_wf (int_req s) (dev_done s) (int_enable s)"

lemma dev_mask: "(0x3FFF :: u32) = mask 14"
  by (simp add: mask_eq_exp_minus_1)

lemma irq_wf_bits:
  "irq_wf req don enb \<longleftrightarrow> (\<forall>n. bit req n \<longrightarrow> n < 29) \<and> (\<forall>n. bit don n \<longrightarrow> n < 14) \<and> (\<forall>n. bit enb n \<longrightarrow> n < 14) \<and>
     (\<forall>n < 14. bit req n \<longleftrightarrow> bit don n \<and> bit enb n)"
proof -
  have "req AND INT_DEV_ENABLE = don AND enb \<longleftrightarrow> (\<forall>n < 14. bit req n \<longleftrightarrow> bit don n \<and> bit enb n)" if "fits 14 don"
  proof
    assume eq: "req AND INT_DEV_ENABLE = don AND enb"
    have "bit req n \<longleftrightarrow> bit don n \<and> bit enb n" if "n < 14" for n
      using arg_cong [OF eq, of "\<lambda>w. bit w n"] that unfolding dev_mask by (simp add: bit_simps)
    then show "\<forall>n < 14. bit req n \<longleftrightarrow> bit don n \<and> bit enb n" by blast
  next
    assume "\<forall>n < 14. bit req n \<longleftrightarrow> bit don n \<and> bit enb n"
    then show "req AND INT_DEV_ENABLE = don AND enb"
      using fits_bitD [OF that] unfolding dev_mask by (intro bit_word_eqI) (auto simp: bit_simps)
  qed
  then show ?thesis by (auto simp: irq_wf_def fits_bit not_less [symmetric])
qed

lemma irq_wfD: "irq_wf req don enb \<Longrightarrow> fits 29 req" "irq_wf req don enb \<Longrightarrow> fits 14 don" "irq_wf req don enb \<Longrightarrow> fits 14 enb"
  by (simp_all add: irq_wf_def)

lemma irq_wf_update:
  "fits 29 req \<Longrightarrow> fits 14 don \<Longrightarrow> fits 14 enb \<Longrightarrow> irq_wf ((req AND NOT INT_DEV_ENABLE) OR (don AND enb)) don enb"
  unfolding irq_wf_bits dev_mask by (auto simp: bit_simps dest: fits_bitD)

lemma irq_wf_or: "irq_wf req don enb \<Longrightarrow> fits 29 c \<Longrightarrow> c AND INT_DEV_ENABLE = 0 \<Longrightarrow> irq_wf (req OR c) don enb"
  unfolding irq_wf_bits dev_mask by (auto simp: bit_simps bit_eq_iff dest: fits_bitD)

lemma irq_wf_and_not: "irq_wf req don enb \<Longrightarrow> c AND INT_DEV_ENABLE = 0 \<Longrightarrow> irq_wf (req AND NOT c) don enb"
  unfolding irq_wf_bits dev_mask by (auto simp: bit_simps bit_eq_iff)

lemma irq_wf_clear:
  "irq_wf req don enb \<Longrightarrow> irq_wf (req AND NOT f) (don AND NOT f) enb"
  "irq_wf req don enb \<Longrightarrow> irq_wf (req AND NOT f) don (enb AND NOT f)"
  "irq_wf req don enb \<Longrightarrow> irq_wf (req AND NOT f) (don AND NOT f) (enb AND NOT f)"
  "irq_wf req don enb \<Longrightarrow> fits 14 f \<Longrightarrow> irq_wf (req AND NOT f) (don AND NOT f) (enb OR f)"
  unfolding irq_wf_bits by (auto simp: bit_simps dest: fits_bitD)

lemma irq_overhead:
  assumes "irq_wf req don enb"
  shows "irq_wf (req OR INT_UF) don enb" "irq_wf (req OR INT_TSC) don enb" "irq_wf (req OR INT_NO_CIF_PENDING) don enb"
    "irq_wf (req OR INT_NO_ION_PENDING) don enb" "irq_wf (req OR INT_ION) don enb"
    "irq_wf (req AND NOT INT_UF) don enb" "irq_wf (req AND NOT INT_TSC) don enb" "irq_wf (req AND NOT INT_PWR) don enb"
    "irq_wf (req AND NOT INT_NO_CIF_PENDING) don enb" "irq_wf (req AND NOT INT_NO_ION_PENDING) don enb"
    "irq_wf (req AND NOT INT_ION) don enb"
  by (rule irq_wf_or irq_wf_and_not; use assms in simp; fail)+

lemmas irq_overhead_simps [simp] = irq_overhead [simplified]

text \<open>The processor's test \<^verbatim>\<open>int_req > INT_PENDING\<close> says what its comment means.\<close>

lemma interrupt_test:
  assumes "irq_wf x don enb"
  shows "INT_PENDING <s x \<longleftrightarrow> bit x 26 \<and> bit x 27 \<and> bit x 28 \<and> x AND INT_ALL \<noteq> 0"
proof -
  define h l where "h = unat x div 2 ^ 26" and "l = unat x mod 2 ^ 26"
  have b: "unat x < 2 ^ 29" using irq_wfD(1) [OF assms] by (simp add: fits_less)
  have h8: "h < 8" using b by (simp add: h_def)
  have x: "unat x = h * 2 ^ 26 + l" "l < 2 ^ 26" by (simp_all add: h_def l_def)
  have ui: "uint x = int (unat x)" by simp
  have "uint x < 2 ^ 31" using b unfolding ui by (simp del: of_nat_unat)
  moreover have "- (2 ^ 31) \<le> uint x" by (rule order_trans [of _ 0]) simp_all
  ultimately have "sint x = uint x" by (simp add: sint_uint signed_take_bit_int_eq_self)
  then have "INT_PENDING <s x \<longleftrightarrow> 7 * 2 ^ 26 < uint x" by (simp add: word_sless_alt)
  also have "\<dots> \<longleftrightarrow> 7 * 2 ^ 26 < unat x" unfolding ui by (simp del: of_nat_unat)
  also have "\<dots> \<longleftrightarrow> h = 7 \<and> l \<noteq> 0" using h8 x by (cases "h = 7") simp_all
  finally have lt: "INT_PENDING <s x \<longleftrightarrow> h = 7 \<and> l \<noteq> 0" .
  have hb: "bit x (26 + k) \<longleftrightarrow> bit h k" for k
  proof -
    have "bit x (26 + k) \<longleftrightarrow> bit (unat (drop_bit 26 x)) k" by (simp add: bit_unsigned_iff bit_drop_bit_eq)
    also have "unat (drop_bit 26 x) = h" by (simp add: h_def unsigned_drop_bit_eq drop_bit_eq_div unat_div)
    finally show ?thesis .
  qed
  have "h = 0 \<or> h = 1 \<or> h = 2 \<or> h = 3 \<or> h = 4 \<or> h = 5 \<or> h = 6 \<or> h = 7" using h8 by linarith
  then have h7: "h = 7 \<longleftrightarrow> bit h 0 \<and> bit h 1 \<and> bit h 2" by (elim disjE) (simp_all add: bit_iff_odd)
  have "(0x3FFFFFF :: u32) = mask 26" by (simp add: mask_eq_exp_minus_1)
  then have "x AND INT_ALL = take_bit 26 x" by (simp add: take_bit_eq_mask)
  then have "x AND INT_ALL = 0 \<longleftrightarrow> l = 0"
    by (simp only: word_unat_eq_iff unsigned_take_bit_eq l_def) (simp add: take_bit_eq_mod)
  with lt h7 hb [of 0] hb [of 1] hb [of 2] show ?thesis by simp
qed

subsection \<open>The processor keeps the flags\<close>

lemma flags_kept [simp]:
  "int_req (skip s) = int_req s" "dev_done (skip s) = dev_done s" "int_enable (skip s) = int_enable s"
  "int_req (write_mem a v s) = int_req s" "dev_done (write_mem a v s) = dev_done s" "int_enable (write_mem a v s) = int_enable s"
  "int_req (pcq_entry x s) = int_req s" "dev_done (pcq_entry x s) = dev_done s" "int_enable (pcq_entry x s) = int_enable s"
  "int_req (tsc_save IR s) = int_req s" "dev_done (tsc_save IR s) = dev_done s" "int_enable (tsc_save IR s) = int_enable s"
  "int_req (or_sc s) = int_req s" "dev_done (or_sc s) = dev_done s" "int_enable (or_sc s) = int_enable s"
  "int_req (keep_locals s s') = int_req s'" "dev_done (keep_locals s s') = dev_done s'" "int_enable (keep_locals s s') = int_enable s'"
  "int_req (opr3_std IR s) = int_req s" "dev_done (opr3_std IR s) = dev_done s" "int_enable (opr3_std IR s) = int_enable s"
  "int_req (record_history IR MA s) = int_req s" "dev_done (record_history IR MA s) = dev_done s"
  "int_enable (record_history IR MA s) = int_enable s"
  by (simp_all add: skip_def write_mem_def pcq_entry_def tsc_save_def or_sc_def keep_locals_def opr3_std_def record_history_def
      Let_def)

lemma flags_kept_addr [simp]:
  "int_req (snd (indirect a s)) = int_req s" "dev_done (snd (indirect a s)) = dev_done s"
  "int_enable (snd (indirect a s)) = int_enable s"
  by (simp_all add: indirect_def Let_def)

lemma flags_kept_operand [simp]:
  "int_req (snd (operand_addr IR MA s)) = int_req s" "dev_done (snd (operand_addr IR MA s)) = dev_done s"
  "int_enable (snd (operand_addr IR MA s)) = int_enable s"
  "int_req (snd (jump_addr IR MA s)) = int_req s" "dev_done (snd (jump_addr IR MA s)) = dev_done s"
  "int_enable (snd (jump_addr IR MA s)) = int_enable s"
  "int_req (snd (eae_defer s)) = int_req s" "dev_done (snd (eae_defer s)) = dev_done s"
  "int_enable (snd (eae_defer s)) = int_enable s"
  by (simp_all add: operand_addr_def jump_addr_def eae_defer_def Let_def case_prod_beta)

lemma flags_kept_eae_operand [simp]:
  "int_req (snd (eae_operand s)) = int_req s" "dev_done (snd (eae_operand s)) = dev_done s"
  "int_enable (snd (eae_operand s)) = int_enable s"
  by (simp_all add: eae_operand_def)

lemmas eae_defs = eae_dad_def eae_acs_scl_def eae_dst_def eae_muy_def eae_dvi_def eae_dpsz_def eae_nmi_def eae_dpic_def
  eae_dcm_def eae_shl_def eae_asr_def eae_lsr_def eae_sam_def eae_shifted_def

lemma irq_eae:
  "irq_ok (eae_dad s) = irq_ok s" "irq_ok (eae_acs_scl s) = irq_ok s" "irq_ok (eae_dst s) = irq_ok s"
  "irq_ok (eae_muy s) = irq_ok s" "irq_ok (eae_dvi s) = irq_ok s" "irq_ok (eae_dpsz s) = irq_ok s"
  "irq_ok (eae_nmi s) = irq_ok s" "irq_ok (eae_dpic s) = irq_ok s" "irq_ok (eae_dcm s) = irq_ok s"
  "irq_ok (eae_shl s) = irq_ok s" "irq_ok (eae_asr s) = irq_ok s" "irq_ok (eae_lsr s) = irq_ok s" "irq_ok (eae_sam s) = irq_ok s"
  by (simp_all add: eae_defs Let_def case_prod_beta)

lemma op_opr3_irq: "irq_ok s \<Longrightarrow> irq_ok (snd (op_opr3 IR s))"
  by (simp add: op_opr3_def Let_def eae_dispatch_def irq_eae)

lemma op_memory_irq:
  "irq_ok s \<Longrightarrow> irq_ok (op_and IR MA s)" "irq_ok s \<Longrightarrow> irq_ok (op_tad IR MA s)"
  "irq_ok s \<Longrightarrow> irq_ok (op_isz IR MA s)" "irq_ok s \<Longrightarrow> irq_ok (op_dca IR MA s)" "irq_ok s \<Longrightarrow> irq_ok (op_opr1 IR MA s)"
  by (simp_all add: op_and_def op_tad_def op_isz_def op_dca_def op_opr1_def Let_def case_prod_beta)

lemma op_opr2_irq: "irq_ok s \<Longrightarrow> irq_ok (snd (op_opr2 IR s))"
  by (simp add: op_opr2_def Let_def)

lemma flags_kept_jump [simp]:
  "int_req (change_fields s) = int_req s OR INT_NO_CIF_PENDING" "dev_done (change_fields s) = dev_done s"
  "int_enable (change_fields s) = int_enable s"
  "int_req (tsc_trap s) = int_req s OR INT_TSC" "dev_done (tsc_trap s) = dev_done s" "int_enable (tsc_trap s) = int_enable s"
  by (simp_all add: change_fields_def tsc_trap_def)

lemma op_jms_irq: "irq_ok s \<Longrightarrow> irq_ok (op_jms IR MA s)"
  by (simp add: op_jms_def Let_def case_prod_beta)

text \<open>What the processor's surroundings, devices and event routines, have to keep.\<close>

definition env_keeps :: "('a pdp8_scheme \<Rightarrow> bool) \<Rightarrow> ('a pdp8_scheme) pdp8_env \<Rightarrow> bool" where
  "env_keeps P env \<longleftrightarrow>
     (\<forall>d f IR dat s. dev_tab env d = Some f \<longrightarrow> P s \<longrightarrow> P (snd (f IR dat s))) \<and>
     (\<forall>s. P s \<longrightarrow> P (reset_all env s)) \<and> (\<forall>s. P s \<longrightarrow> P (sim_idle env s)) \<and> units_keep P (units env)"

lemma env_wf_keeps: "env_wf env = env_keeps pdp8_wf env"
  by (simp add: env_wf_def env_keeps_def)

lemma jump_idle_irq: "env_keeps irq_ok env \<Longrightarrow> irq_ok s \<Longrightarrow> irq_ok (snd (jump_idle env a s))"
  by (simp add: jump_idle_def env_keeps_def)

lemma op_jmp_irq: 
  assumes "env_keeps irq_ok env" "irq_ok s"
  shows "irq_ok (snd (op_jmp env IR MA s))"
proof -
  let ?j = "jump_addr IR MA (pcq_entry MA s)"
  let ?s3 = "let s2 = tsc_save IR (snd ?j) in if rUF s2 \<noteq> 0 \<and> tsc_enb s2 \<noteq> 0 then tsc_trap s2 else s2"
  have "irq_ok ?s3" using assms(2) by (simp add: Let_def)
  with jump_idle_irq [OF assms(1) this, of "fst ?j"] show ?thesis
    by (simp add: op_jmp_def Let_def case_prod_beta)
qed

lemma iot_cpu_irq:
  assumes "env_keeps irq_ok env" "irq_ok s"
  shows "irq_ok (iot_cpu env pulse s)"
proof -
  have "irq_wf (int_req s AND INT_NO_CIF_PENDING) 0 INT_INIT_ENABLE"
    unfolding irq_wf_def by (simp add: and.assoc)
  with assms show ?thesis by (simp add: iot_cpu_def Let_def env_keeps_def)
qed

lemma iot_memext_irq: "irq_ok s \<Longrightarrow> irq_ok (snd (iot_memext IR device pulse s))"
  by (simp add: iot_memext_def iot_memext_4_def Let_def)

lemma iot_power_irq: "irq_ok s \<Longrightarrow> irq_ok (snd (iot_power pulse s))"
  by (simp add: iot_power_def)

lemma iot_device_irq:
  assumes "env_keeps irq_ok env" "irq_ok s"
  shows "irq_ok (snd (iot_device env IR device s))"
proof (cases "dev_tab env device")
  case (Some f)
  then have "irq_ok (snd (f IR (rLAC s AND 0xFFF) s))" using assms unfolding env_keeps_def by blast
  with Some show ?thesis by (simp add: iot_device_def Let_def case_prod_beta)
qed (use assms in \<open>simp add: iot_device_def\<close>)

lemma execute_irq: "env_keeps irq_ok env \<Longrightarrow> irq_ok s \<Longrightarrow> irq_ok (snd (execute env IR MA s))"
  by (simp add: execute_def Let_def op_memory_irq op_jms_irq op_jmp_irq op_opr2_irq op_opr3_irq op_iot_def
      iot_cpu_irq iot_memext_irq iot_power_irq iot_device_irq)

lemma take_interrupt_irq: "irq_ok s \<Longrightarrow> irq_ok (take_interrupt s)"
  by (simp add: take_interrupt_def Let_def)

lemma irq_ok_more: "brkst.more s = brkst.more s' \<Longrightarrow> irq_ok s = irq_ok s'"
  by (cases s; cases s'; simp)

lemma brk_check_irq: "irq_ok s \<Longrightarrow> irq_ok (snd (brk_check loc btyp s))"
  using irq_ok_more [OF sim_brk_test_more, of loc btyp s] by (simp add: brk_check_def case_prod_beta)

lemma queue_free_irq: "queue_free irq_ok"
  by (simp add: queue_free_def)

lemma instr_cycle_irq:
  assumes "env_keeps irq_ok env" "irq_ok s"
  shows "irq_ok (snd (instr_cycle env s))"
proof -
  let ?s = "take_interrupt s" 
  let ?MA = "rIF ?s OR rPC ?s"
  let ?b1 = "brk_check ?MA 0x20000010 ?s"
  let ?b2 = "brk_check (mem (snd ?b1) ?MA) 0x40000100 (snd ?b1)"
  have b1: "irq_ok (snd ?b1)" by (rule brk_check_irq [OF take_interrupt_irq [OF assms(2)]])
  have b2: "irq_ok (snd ?b2)" by (rule brk_check_irq [OF b1])
  then have "irq_ok (record_history IR MA (fetch (snd ?b2)))" for IR MA by (simp add: fetch_def)
  from execute_irq [OF assms(1) this] b1 b2 show ?thesis
    by (simp add: instr_cycle_def Let_def case_prod_beta)
qed

lemma pdp8_step_irq:
  assumes env: "env_keeps irq_ok env" and ok: "irq_ok s" and "pdp8_step fuel env s = Inr (reason, s')"
  shows "irq_ok s'"
proof -
  have ops: "units_keep irq_ok (units env)" using env by (simp add: env_keeps_def)
  have ev: "irq_ok (keep_locals s e)" if "sim_process_event fuel (units env) s = Inr (r, e)" for r e
    using process_event_keeps [OF ops queue_free_irq ok that] by simp
  have cyc: "irq_ok e'" if "instr_cycle env e = (r, e')" "irq_ok e" for e e' r
    using instr_cycle_irq [OF env that(2)] that(1) by simp
  from assms(3) ok show ?thesis
    by (auto simp: pdp8_step_def Let_def split: if_splits sum.splits prod.splits dest: cyc ev)
qed

interpretation pdp8_irq: cpu "pdp8_step fuel env" "\<lambda>s. env_keeps irq_ok env \<and> irq_ok s"
  by unfold_locales (auto dest: pdp8_step_irq)

end
