(* ===== verification/Pdp8Devices.thy ===== *)
theory Pdp8Devices
  imports Pdp8Interrupt
begin

text \<open>
  Devices of the PDP-8: the real time clock \<^verbatim>\<open>pdp8_clk.c\<close>, the console terminal
  \<^verbatim>\<open>pdp8_tt.c\<close> with the character conversions of \<^verbatim>\<open>sim_console.c\<close>, paper tape reader and
  punch \<^verbatim>\<open>pdp8_pt.c\<close>, line printer \<^verbatim>\<open>pdp8_lp.c\<close> and the time sharing control
  \<^verbatim>\<open>pdp8_tsc.c\<close>.  Each has an IOT routine, which the processor calls through the dispatch
  table, a service routine, which the event queue calls, and a reset routine.  Their registers
  extend the machine record.
\<close>

unbundle bit_operations_syntax

subsection \<open>State\<close>

text \<open>
  The file behind the reader is the list of what \<^verbatim>\<open>getc\<close> will deliver, \<^const>\<open>None\<close> in it an
  I/O error; a file that is written holds the bytes written so far and whether \<^verbatim>\<open>putc\<close> fails.
  A unit that is not attached has no file.
\<close>

record out_file =
  written :: "u32 list"
  write_error :: bool

record pdp8_sys = pdp8 +
  sim_is_running :: bool
  clk_tps :: int
  tmxr_poll :: int
  clk_wait :: int
  clk_diag :: bool
  tti_buf :: u32
  tti_pos :: t_addr
  tti_wait :: int
  tti_mode :: u32
  tti_buftime :: u32
  tto_buf :: u32
  tto_pos :: t_addr
  tto_wait :: int
  tto_mode :: u32
  sim_tt_pchar :: u32
  ptr_buf :: u32
  ptr_pos :: t_addr
  ptr_wait :: int
  ptr_stopioe :: bool
  ptr_file :: "u8 option list option"
  ptp_buf :: u32
  ptp_pos :: t_addr
  ptp_wait :: int
  ptp_stopioe :: bool
  ptp_file :: "out_file option"
  lpt_buf :: u32
  lpt_pos :: t_addr
  lpt_wait :: int
  lpt_stopioe :: bool
  lpt_err :: bool
  lpt_file :: "out_file option"
  tsc_sn699 :: bool

abbreviation (input) INT_LPT :: u32 where "INT_LPT \<equiv> 0x1"
abbreviation (input) INT_PTP :: u32 where "INT_PTP \<equiv> 0x2"
abbreviation (input) INT_PTR :: u32 where "INT_PTR \<equiv> 0x4"
abbreviation (input) INT_TTO :: u32 where "INT_TTO \<equiv> 0x8"
abbreviation (input) INT_CLK :: u32 where "INT_CLK \<equiv> 0x20"
abbreviation (input) IOT_SKP :: u32 where "IOT_SKP \<equiv> 0x1000"

abbreviation (input) SCPE_UNATT :: t_stat where "SCPE_UNATT \<equiv> 65"
abbreviation (input) SCPE_STALL :: t_stat where "SCPE_STALL \<equiv> 105"

abbreviation (input) clk_unit :: uid where "clk_unit \<equiv> 1"
abbreviation (input) tti_unit :: uid where "tti_unit \<equiv> 2"
abbreviation (input) tto_unit :: uid where "tto_unit \<equiv> 3"
abbreviation (input) ptr_unit :: uid where "ptr_unit \<equiv> 4"
abbreviation (input) ptp_unit :: uid where "ptp_unit \<equiv> 5"
abbreviation (input) lpt_unit :: uid where "lpt_unit \<equiv> 6"

text \<open>
  What the devices call besides the event queue: keyboard and screen, the host's clock in
  milliseconds, the calibration of the clock, and the table of the console's lines.
\<close>

record 's dev_env =
  base_ops :: "'s unit_ops"
  sim_poll_kbd :: "'s \<Rightarrow> t_stat \<times> 's"
  sim_putchar_s :: "u32 \<Rightarrow> 's \<Rightarrow> t_stat \<times> 's"
  sim_os_msec :: "'s \<Rightarrow> u32"
  sim_rtcn_calb :: "int \<Rightarrow> 's \<Rightarrow> int \<times> 's"
  sim_rtcn_init_unit :: "uid \<Rightarrow> int \<Rightarrow> 's \<Rightarrow> int \<times> 's"
  sim_clock_coschedule :: "uid \<Rightarrow> int \<Rightarrow> 's \<Rightarrow> t_stat \<times> 's"
  tmxr_set_console_units :: "uid \<Rightarrow> uid \<Rightarrow> 's \<Rightarrow> 's"

subsection \<open>Flags\<close>

text \<open>The macro \<^verbatim>\<open>INT_UPDATE\<close>, and the two ways in which the devices change their flags.\<close>

definition int_update :: "'a pdp8_scheme \<Rightarrow> 'a pdp8_scheme" where
  "int_update s = s\<lparr>int_req := (int_req s AND NOT INT_DEV_ENABLE) OR (dev_done s AND int_enable s)\<rparr>"

definition set_done :: "u32 \<Rightarrow> 'a pdp8_scheme \<Rightarrow> 'a pdp8_scheme" where
  "set_done f s = int_update (s\<lparr>dev_done := dev_done s OR f\<rparr>)"

definition clear_done :: "u32 \<Rightarrow> 'a pdp8_scheme \<Rightarrow> 'a pdp8_scheme" where
  "clear_done f s = s\<lparr>dev_done := dev_done s AND NOT f, int_req := int_req s AND NOT f\<rparr>"

definition set_enable :: "u32 \<Rightarrow> 'a pdp8_scheme \<Rightarrow> 'a pdp8_scheme" where
  "set_enable f s = int_update (s\<lparr>int_enable := int_enable s OR f\<rparr>)"

definition clear_enable :: "u32 \<Rightarrow> 'a pdp8_scheme \<Rightarrow> 'a pdp8_scheme" where
  "clear_enable f s = int_update (s\<lparr>int_enable := int_enable s AND NOT f\<rparr>)"

definition reset_flags :: "u32 \<Rightarrow> 'a pdp8_scheme \<Rightarrow> 'a pdp8_scheme" where
  "reset_flags f s = (clear_done f s)\<lparr>int_enable := int_enable s OR f\<rparr>"

definition clear_tsc :: "'a pdp8_scheme \<Rightarrow> 'a pdp8_scheme" where
  "clear_tsc s = s\<lparr>int_req := int_req s AND NOT INT_TSC\<rparr>"

definition skip_if :: "bool \<Rightarrow> u32 \<Rightarrow> u32" where
  "skip_if b AC = (if b then IOT_SKP + AC else AC)"

text \<open>The answer to an undefined IOT.\<close>

definition iot_undefined :: "u32 \<Rightarrow> 'a pdp8_scheme \<Rightarrow> u32" where
  "iot_undefined AC s = push_bit 13 (of_int (stop_inst s)) + AC"

subsection \<open>Real time clock\<close>

definition clk :: "u32 \<Rightarrow> u32 \<Rightarrow> 'a pdp8_sys_scheme \<Rightarrow> u32 \<times> 'a pdp8_sys_scheme" where
  "clk IR AC s =
     (let pulse = IR AND 7 in
      if pulse = 1 then (AC, set_enable INT_CLK s)
      else if pulse = 2
      then (AC, s\<lparr>int_enable := int_enable s AND NOT INT_CLK, int_req := int_req s AND NOT INT_CLK\<rparr>)
      else if pulse = 3
      then (if dev_done s AND INT_CLK \<noteq> 0 then (IOT_SKP + AC, clear_done INT_CLK s) else (AC, s))
      else if pulse = 5
      then (AC, if AC AND 1 \<noteq> 0 then set_enable INT_CLK s else clear_enable INT_CLK s)
      else if pulse = 6 then (AC, clear_done INT_CLK s)
      else if pulse = 7 then (skip_if (dev_done s AND INT_CLK \<noteq> 0) AC, s)
      else (iot_undefined AC s, s))"

definition clk_svc :: "('a pdp8_sys_scheme) dev_env \<Rightarrow> 'a pdp8_sys_scheme \<Rightarrow> t_stat \<times> 'a pdp8_sys_scheme" where
  "clk_svc env s0 =
     (let s = set_done INT_CLK s0 in
      if clk_diag s
      then let t = clk_wait s; s1 = snd (sim_activate (base_ops env) clk_unit t s)
           in (SCPE_OK, s1\<lparr>tmxr_poll := t\<rparr>)
      else let (t, s1) = sim_rtcn_calb env (clk_tps s) s;
               s2 = snd (sim_activate_after (base_ops env) clk_unit (of_int (1000000 div clk_tps s1)) s1)
           in (SCPE_OK, s2\<lparr>tmxr_poll := t\<rparr>))"

definition clk_reset :: "('a pdp8_sys_scheme) dev_env \<Rightarrow> 'a pdp8_sys_scheme \<Rightarrow> t_stat \<times> 'a pdp8_sys_scheme" where
  "clk_reset env s0 =
     (let s = (clear_done INT_CLK s0)\<lparr>int_enable := int_enable s0 AND NOT INT_CLK\<rparr> in
      if sim_is_running s then (SCPE_OK, s)
      else let (t, s1) = sim_rtcn_init_unit env clk_unit (clk_wait s) s;
               s2 = s1\<lparr>tmxr_poll := t\<rparr>
           in (SCPE_OK, snd (sim_activate_after (base_ops env) clk_unit (of_int (1000000 div clk_tps s2)) s2)))"

definition clk_set_freq :: "int \<Rightarrow> string option \<Rightarrow> 'a pdp8_sys_scheme \<Rightarrow> t_stat \<times> 'a pdp8_sys_scheme" where
  "clk_set_freq val cptr s =
     (if cptr \<noteq> None then (SCPE_ARG, s)
      else if val \<noteq> 50 \<and> val \<noteq> 60 then (SCPE_IERR, s)
      else (SCPE_OK, s\<lparr>clk_tps := val\<rparr>))"

subsection \<open>Console terminal\<close>

text \<open>
  The character conversions.  Bits 0 and 1 of the mode select 7 bits, 8 bits, upper case or 7 bits
  printing, bits 2 and 3 the parity, bit 4 the behaviour of a KSR teletype.  Bit \<open>8 + n\<close> of the
  constant tells whether the nibble \<open>n\<close> has an odd number of ones.
\<close>

abbreviation (input) TTUF_KSR :: u32 where "TTUF_KSR \<equiv> 0x10"

definition nibble_parity :: "u32 \<Rightarrow> u32" where
  "nibble_parity c = drop_bit (unat (c AND 0xF) + 1) 0x699600 XOR drop_bit (unat (drop_bit 4 c AND 0xF) + 1) 0x699600"

definition sim_tt_inpcvt :: "u32 \<Rightarrow> u32 \<Rightarrow> u32" where
  "sim_tt_inpcvt c0 mode =
     (let md = mode AND 3 in
      if md \<noteq> 1
      then let par_mode = drop_bit 2 mode AND 3;
               c1 = c0 AND 0x7F;
               c2 = (if md = 2
                     then let u = (if 97 \<le> c1 \<and> c1 \<le> 122 then c1 - 32 else c1)
                          in if mode AND TTUF_KSR \<noteq> 0 then u OR 0x80 else u
                     else c1)
           in if par_mode = 2 then c2 OR (nibble_parity c2 AND 0x80)
              else if par_mode = 3 then c2 OR (NOT (nibble_parity c2) AND 0x80)
              else if par_mode = 1 then c2 OR 0x80
              else c2
      else c0 AND 0xFF)"

text \<open>\<^const>\<open>None\<close> is the result \<open>-1\<close>: nothing is printed.\<close>

definition sim_tt_outcvt :: "u32 \<Rightarrow> u32 \<Rightarrow> u32 \<Rightarrow> u32 option" where
  "sim_tt_outcvt pchar c0 mode =
     (let md = mode AND 3 in
      if md \<noteq> 1
      then let c1 = c0 AND 0x7F;
               c = (if md = 2 \<and> 97 \<le> c1 \<and> c1 \<le> 122 then c1 - 32 else c1)
           in if md = 2 \<and> mode AND TTUF_KSR \<noteq> 0 \<and> c \<ge> 0x60 then None
              else if (md = 2 \<or> md = 3) \<and> (c = 0x7F \<or> c < 0x20 \<and> \<not> bit pchar (unat c)) then None
              else Some c
      else Some (c0 AND 0xFF))"

definition tti ::
  "('a pdp8_sys_scheme) dev_env \<Rightarrow> u32 \<Rightarrow> u32 \<Rightarrow> 'a pdp8_sys_scheme \<Rightarrow> u32 \<times> 'a pdp8_sys_scheme" where
  "tti env IR AC s =
     (let pulse = IR AND 7 in
      if pulse = 0 then (AC, clear_done INT_TTI s)
      else if pulse = 1 then (skip_if (dev_done s AND INT_TTI \<noteq> 0) AC, s)
      else if pulse = 2 then (0, clear_done INT_TTI s)
      else if pulse = 4 then (AC OR tti_buf s, s)
      else if pulse = 5
      then (AC, if AC AND 1 \<noteq> 0 then set_enable (INT_TTI + INT_TTO) s else clear_enable (INT_TTI + INT_TTO) s)
      else if pulse = 6
      then (let s1 = snd (sim_activate_abs (base_ops env) tti_unit (tti_wait s) (clear_done INT_TTI s))
            in (tti_buf s1, s1))
      else (iot_undefined AC s, s))"

text \<open>A keyboard poll below \<^verbatim>\<open>SCPE_KFLAG\<close> is a status, otherwise a character with flags.\<close>

definition tti_svc :: "('a pdp8_sys_scheme) dev_env \<Rightarrow> 'a pdp8_sys_scheme \<Rightarrow> t_stat \<times> 'a pdp8_sys_scheme" where
  "tti_svc env s0 =
     (let s = snd (sim_clock_coschedule env tti_unit (tmxr_poll s0) s0) in
      if dev_done s AND INT_TTI \<noteq> 0 \<and> sim_os_msec env s - tti_buftime s < 500 then (SCPE_OK, s)
      else let (c, s1) = sim_poll_kbd env s in
      if c < SCPE_KFLAG then (c, s1)
      else let ch = (if (of_int c :: u32) AND 0x20000000 \<noteq> 0 then 0
                     else sim_tt_inpcvt (of_int c) (tti_mode s1 OR TTUF_KSR));
               s2 = s1\<lparr>tti_buf := ch, tti_buftime := sim_os_msec env s1, tti_pos := tti_pos s1 + 1\<rparr>
           in (SCPE_OK, set_done INT_TTI s2))"

definition tti_reset :: "('a pdp8_sys_scheme) dev_env \<Rightarrow> 'a pdp8_sys_scheme \<Rightarrow> t_stat \<times> 'a pdp8_sys_scheme" where
  "tti_reset env s0 =
     (let s = reset_flags INT_TTI ((tmxr_set_console_units env tti_unit tto_unit s0)\<lparr>tti_buf := 0\<rparr>) in
      (SCPE_OK, if sim_is_running s then s else snd (sim_activate (base_ops env) tti_unit (tmxr_poll s) s)))"

text \<open>Pulse 6 is pulse 2 followed by pulse 4.\<close>

definition tto ::
  "('a pdp8_sys_scheme) dev_env \<Rightarrow> u32 \<Rightarrow> u32 \<Rightarrow> 'a pdp8_sys_scheme \<Rightarrow> u32 \<times> 'a pdp8_sys_scheme" where
  "tto env IR AC s =
     (let pulse = IR AND 7 in
      if pulse = 0 then (AC, set_done INT_TTO s)
      else if pulse = 1 then (skip_if (dev_done s AND INT_TTO \<noteq> 0) AC, s)
      else if pulse = 2 then (AC, clear_done INT_TTO s)
      else if pulse = 5 then (skip_if (int_req s AND (INT_TTI + INT_TTO) \<noteq> 0) AC, s)
      else if pulse = 6 \<or> pulse = 4
      then (let s1 = (if pulse = 6 then clear_done INT_TTO s else s);
                s2 = snd (sim_activate (base_ops env) tto_unit (tto_wait s1) s1)
            in (AC, s2\<lparr>tto_buf := AC\<rparr>))
      else (iot_undefined AC s, s))"

definition tto_svc :: "('a pdp8_sys_scheme) dev_env \<Rightarrow> 'a pdp8_sys_scheme \<Rightarrow> t_stat \<times> 'a pdp8_sys_scheme" where
  "tto_svc env s =
     (let (r, s1) = (case sim_tt_outcvt (sim_tt_pchar s) (tto_buf s) (tto_mode s OR TTUF_KSR) of
                       None \<Rightarrow> (SCPE_OK, s)
                     | Some c \<Rightarrow> sim_putchar_s env c s) in
      if r \<noteq> SCPE_OK
      then (if r = SCPE_STALL then SCPE_OK else r, snd (sim_activate (base_ops env) tto_unit (tto_wait s1) s1))
      else let s2 = set_done INT_TTO s1 in (SCPE_OK, s2\<lparr>tto_pos := tto_pos s2 + 1\<rparr>))"

definition tto_reset :: "('a pdp8_sys_scheme) dev_env \<Rightarrow> 'a pdp8_sys_scheme \<Rightarrow> t_stat \<times> 'a pdp8_sys_scheme" where
  "tto_reset env s0 =
     (let s = reset_flags INT_TTO (s0\<lparr>tto_buf := 0\<rparr>)
      in (SCPE_OK, snd (sim_cancel (base_ops env) tto_unit s)))"

subsection \<open>Paper tape\<close>

definition ptr ::
  "('a pdp8_sys_scheme) dev_env \<Rightarrow> u32 \<Rightarrow> u32 \<Rightarrow> 'a pdp8_sys_scheme \<Rightarrow> u32 \<times> 'a pdp8_sys_scheme" where
  "ptr env IR AC s =
     (let pulse = IR AND 7 in
      if pulse = 0 then (AC, set_enable (INT_PTR + INT_PTP) s)
      else if pulse = 1 then (skip_if (dev_done s AND INT_PTR \<noteq> 0) AC, s)
      else if pulse = 6 \<or> pulse = 2
      then (let s1 = (if pulse = 6 then snd (sim_activate (base_ops env) ptr_unit (ptr_wait s) s) else s)
            in (AC OR ptr_buf s1, clear_done INT_PTR s1))
      else if pulse = 4
      then (AC, clear_done INT_PTR (snd (sim_activate (base_ops env) ptr_unit (ptr_wait s) s)))
      else (iot_undefined AC s, s))"

definition ptr_svc :: "'a pdp8_sys_scheme \<Rightarrow> t_stat \<times> 'a pdp8_sys_scheme" where
  "ptr_svc s =
     (case ptr_file s of
        None \<Rightarrow> (if ptr_stopioe s then SCPE_UNATT else SCPE_OK, s)
      | Some [] \<Rightarrow> (if ptr_stopioe s then SCPE_IOERR else SCPE_OK, s)
      | Some (None # r) \<Rightarrow> (SCPE_IOERR, s\<lparr>ptr_file := Some r\<rparr>)
      | Some (Some b # r) \<Rightarrow>
          (let s1 = set_done INT_PTR (s\<lparr>ptr_file := Some r\<rparr>)
           in (SCPE_OK, s1\<lparr>ptr_buf := ucast b AND 0xFF, ptr_pos := ptr_pos s1 + 1\<rparr>)))"

definition ptr_reset :: "('a pdp8_sys_scheme) dev_env \<Rightarrow> 'a pdp8_sys_scheme \<Rightarrow> t_stat \<times> 'a pdp8_sys_scheme" where
  "ptr_reset env s0 =
     (let s = reset_flags INT_PTR (s0\<lparr>ptr_buf := 0\<rparr>)
      in (SCPE_OK, snd (sim_cancel (base_ops env) ptr_unit s)))"

definition ptp ::
  "('a pdp8_sys_scheme) dev_env \<Rightarrow> u32 \<Rightarrow> u32 \<Rightarrow> 'a pdp8_sys_scheme \<Rightarrow> u32 \<times> 'a pdp8_sys_scheme" where
  "ptp env IR AC s =
     (let pulse = IR AND 7 in
      if pulse = 0 then (AC, clear_enable (INT_PTR + INT_PTP) s)
      else if pulse = 1 then (skip_if (dev_done s AND INT_PTP \<noteq> 0) AC, s)
      else if pulse = 2 then (AC, clear_done INT_PTP s)
      else if pulse = 6 \<or> pulse = 4
      then (let s1 = (if pulse = 6 then clear_done INT_PTP s else s);
                s2 = s1\<lparr>ptp_buf := AC AND 0xFF\<rparr>
            in (AC, snd (sim_activate (base_ops env) ptp_unit (ptp_wait s2) s2)))
      else (iot_undefined AC s, s))"

definition ptp_svc :: "'a pdp8_sys_scheme \<Rightarrow> t_stat \<times> 'a pdp8_sys_scheme" where
  "ptp_svc s0 =
     (let s = set_done INT_PTP s0 in
      case ptp_file s of
        None \<Rightarrow> (if ptp_stopioe s then SCPE_UNATT else SCPE_OK, s)
      | Some f \<Rightarrow>
          (if write_error f then (SCPE_IOERR, s)
           else (SCPE_OK, s\<lparr>ptp_file := Some (f\<lparr>written := written f @ [ptp_buf s]\<rparr>), ptp_pos := ptp_pos s + 1\<rparr>)))"

definition ptp_reset :: "('a pdp8_sys_scheme) dev_env \<Rightarrow> 'a pdp8_sys_scheme \<Rightarrow> t_stat \<times> 'a pdp8_sys_scheme" where
  "ptp_reset env s0 =
     (let s = reset_flags INT_PTP (s0\<lparr>ptp_buf := 0\<rparr>)
      in (SCPE_OK, snd (sim_cancel (base_ops env) ptp_unit s)))"

text \<open>The bootstrap loader, which reads a tape in RIM format.\<close>

definition boot_rom :: "u32 list" where
  "boot_rom = [0xC0C, 0xC09, 0xAEF, 0xC0E, 0xE46, 0xE06, 0xF48, 0xAFC, 0xE06, 0xC09, 0xAF7, 0xC0E, 0xF10, 0x7FE,
     0x6FE, 0xAEF, 0, 0xAC1]"

definition ptr_boot :: "nat \<Rightarrow> 'a pdp8_scheme \<Rightarrow> t_stat \<times> 'a pdp8_scheme" where
  "ptr_boot devno s =
     (if devno \<noteq> 1 then (5, s)
      else (SCPE_OK, cpu_set_bootpc 0xFEE
        (s\<lparr>mem := (\<lambda>a. if 0xFEE \<le> a \<and> a < 0xFEE + 18 then boot_rom ! unat (a - 0xFEE) else mem s a)\<rparr>)))"

subsection \<open>Line printer\<close>

definition lpt_svc :: "'a pdp8_sys_scheme \<Rightarrow> t_stat \<times> 'a pdp8_sys_scheme" where
  "lpt_svc s0 =
     (let s = set_done INT_LPT s0 in
      case lpt_file s of
        None \<Rightarrow> (if lpt_stopioe s then SCPE_UNATT else SCPE_OK, s\<lparr>lpt_err := True\<rparr>)
      | Some f \<Rightarrow>
          (if write_error f then (SCPE_IOERR, s)
           else (SCPE_OK, s\<lparr>lpt_file := Some (f\<lparr>written := written f @ [lpt_buf s]\<rparr>), lpt_pos := lpt_pos s + 1\<rparr>)))"

definition lpt ::
  "('a pdp8_sys_scheme) dev_env \<Rightarrow> u32 \<Rightarrow> u32 \<Rightarrow> 'a pdp8_sys_scheme \<Rightarrow> u32 \<times> 'a pdp8_sys_scheme" where
  "lpt env IR AC s =
     (let pulse = IR AND 7 in
      if pulse = 0 then (AC, set_done INT_LPT s)
      else if pulse = 1 then (skip_if (dev_done s AND INT_LPT \<noteq> 0) AC, s)
      else if pulse = 2 then (AC, clear_done INT_LPT s)
      else if pulse = 3 then (skip_if (lpt_err s) AC, s)
      else if pulse = 6 \<or> pulse = 4
      then (let s1 = (if pulse = 6 then clear_done INT_LPT s else s);
                s2 = s1\<lparr>lpt_buf := AC AND 0x7F\<rparr>
            in if lpt_buf s2 = 13 \<or> lpt_buf s2 = 12 \<or> lpt_buf s2 = 10
               then (AC, snd (sim_activate (base_ops env) lpt_unit (lpt_wait s2) s2))
               else let (r, s3) = lpt_svc s2 in (push_bit 13 (of_int r) + AC, s3))
      else if pulse = 5 then (AC, set_enable INT_LPT s)
      else (AC, s\<lparr>int_enable := int_enable s AND NOT INT_LPT, int_req := int_req s AND NOT INT_LPT\<rparr>))"

definition lpt_reset :: "('a pdp8_sys_scheme) dev_env \<Rightarrow> 'a pdp8_sys_scheme \<Rightarrow> t_stat \<times> 'a pdp8_sys_scheme" where
  "lpt_reset env s0 =
     (let s = (reset_flags INT_LPT (s0\<lparr>lpt_buf := 0\<rparr>))\<lparr>lpt_err := (lpt_file s0 = None)\<rparr>
      in (SCPE_OK, snd (sim_cancel (base_ops env) lpt_unit s)))"

subsection \<open>Time sharing control\<close>

definition tsc :: "u32 \<Rightarrow> u32 \<Rightarrow> 'a pdp8_sys_scheme \<Rightarrow> u32 \<times> 'a pdp8_sys_scheme" where
  "tsc IR AC s =
     (let pulse = IR AND 7 in
      if pulse = 0 then (AC, clear_tsc (s\<lparr>tsc_enb := 0\<rparr>))
      else if pulse = 1 then (skip_if (int_req s AND INT_TSC \<noteq> 0) AC, s)
      else if pulse = 2 then (AC, clear_tsc s)
      else if pulse = 3
      then (let AC1 = AC OR (drop_bit 3 (tsc_ir s) AND 7)
            in (if tsc_cdf s \<noteq> 0 then AC1 OR IOT_SKP else AC1, s\<lparr>tsc_cdf := 0\<rparr>))
      else if pulse = 4 then (tsc_pc s, s)
      else if pulse = 5
      then (if tsc_sn699 s \<and> tsc_cdf s \<noteq> 0 \<and> drop_bit 3 (tsc_ir s AND 0x38) = rSF s AND 7
            then (AC OR IOT_SKP, s\<lparr>tsc_cdf := 0\<rparr>) else (AC, s))
      else if pulse = 6 then (tsc_ir s, s)
      else (AC, s\<lparr>tsc_enb := 1\<rparr>))"

definition tsc_reset :: "'a pdp8_sys_scheme \<Rightarrow> t_stat \<times> 'a pdp8_sys_scheme" where
  "tsc_reset s =
     (SCPE_OK, clear_tsc (s\<lparr>tsc_ir := 0, tsc_pc := 0, tsc_cdf := 0, tsc_enb := 0\<rparr>))"


subsection \<open>What every device keeps\<close>

definition dev_env_keeps :: "('s \<Rightarrow> bool) \<Rightarrow> 's dev_env \<Rightarrow> bool" where
  "dev_env_keeps P env \<longleftrightarrow> timers_keep P (base_ops env) \<and>
     (\<forall>s. P s \<longrightarrow> P (snd (sim_poll_kbd env s))) \<and> (\<forall>c s. P s \<longrightarrow> P (snd (sim_putchar_s env c s))) \<and>
     (\<forall>t s. P s \<longrightarrow> P (snd (sim_rtcn_calb env t s))) \<and> (\<forall>u t s. P s \<longrightarrow> P (snd (sim_rtcn_init_unit env u t s))) \<and>
     (\<forall>u t s. P s \<longrightarrow> P (snd (sim_clock_coschedule env u t s))) \<and>
     (\<forall>u v s. P s \<longrightarrow> P (tmxr_set_console_units env u v s))"

text \<open>
  A predicate on the machine that the changes of the flags keep and into which the registers of
  the devices do not enter.
\<close>

locale device_invariant =
  fixes P :: "'a pdp8_sys_scheme \<Rightarrow> bool"
  assumes free: "queue_free P"
    and frame: "pdp8.truncate s = pdp8.truncate s' \<Longrightarrow> P s = P s'"
    and set_flag: "P s \<Longrightarrow> fits 14 f \<Longrightarrow> P (set_done f s) \<and> P (set_enable f s) \<and> P (reset_flags f s)"
    and clear_flag: "P s \<Longrightarrow> P (clear_done f s) \<and> P (clear_enable f s)"
    and disable: "P s \<Longrightarrow> P (s\<lparr>int_enable := int_enable s AND NOT f, int_req := int_req s AND NOT f\<rparr>)"
    and reset_off: "P s \<Longrightarrow> P ((clear_done f s)\<lparr>int_enable := int_enable s AND NOT f\<rparr>)"
    and tsc_flag: "P s \<Longrightarrow> P (clear_tsc s)"
    and tsc_regs: "P (s\<lparr>tsc_ir := i\<rparr>) = P s" "P (s\<lparr>tsc_pc := p\<rparr>) = P s" "P (s\<lparr>tsc_cdf := c\<rparr>) = P s" "P (s\<lparr>tsc_enb := e\<rparr>) = P s"
begin

lemma own_registers [simp]:
  "P (s\<lparr>tmxr_poll := t\<rparr>) = P s" "P (s\<lparr>tti_buf := b\<rparr>) = P s" "P (s\<lparr>tti_buftime := b\<rparr>) = P s" "P (s\<lparr>tti_pos := n\<rparr>) = P s"
  "P (s\<lparr>tto_buf := b\<rparr>) = P s" "P (s\<lparr>tto_pos := n\<rparr>) = P s" "P (s\<lparr>ptr_buf := b\<rparr>) = P s" "P (s\<lparr>ptr_pos := n\<rparr>) = P s"
  "P (s\<lparr>ptr_file := pf\<rparr>) = P s" "P (s\<lparr>ptp_buf := b\<rparr>) = P s" "P (s\<lparr>ptp_pos := n\<rparr>) = P s" "P (s\<lparr>ptp_file := f\<rparr>) = P s"
  "P (s\<lparr>lpt_buf := b\<rparr>) = P s" "P (s\<lparr>lpt_pos := n\<rparr>) = P s" "P (s\<lparr>lpt_file := f\<rparr>) = P s" "P (s\<lparr>lpt_err := e\<rparr>) = P s"
  by (rule frame; simp add: pdp8.truncate_def)+

lemma iot_no_env:
  assumes "P s"
  shows "P (snd (clk IR AC s))" "P (snd (tsc IR AC s))"
  using assms disable [OF assms, of INT_CLK]
  by (simp_all add: clk_def tsc_def Let_def set_flag clear_flag tsc_flag tsc_regs)

lemma svc_no_env:
  assumes "P s"
  shows "P (snd (ptr_svc s))" "P (snd (ptp_svc s))" "P (snd (lpt_svc s))"
  using assms by (simp_all add: ptr_svc_def ptp_svc_def lpt_svc_def Let_def set_flag split: option.split list.split)

lemma iot_env:
  assumes "dev_env_keeps P env" "P s"
  shows "P (snd (tti env IR AC s))" "P (snd (tto env IR AC s))" "P (snd (ptr env IR AC s))" "P (snd (ptp env IR AC s))"
    "P (snd (lpt env IR AC s))"
proof -
  have ops: "timers_keep P (base_ops env)" using assms(1) by (simp add: dev_env_keeps_def)
  note act = sim_activate_keeps(1) [OF free ops] sim_activate_abs_keeps [OF free ops]
  show "P (snd (tti env IR AC s))" "P (snd (tto env IR AC s))" "P (snd (ptr env IR AC s))" "P (snd (ptp env IR AC s))"
    using assms(2) by (simp_all add: tti_def tto_def ptr_def ptp_def Let_def set_flag clear_flag act)
  show "P (snd (lpt env IR AC s))"
    using assms(2) disable [OF assms(2), of INT_LPT]
    by (simp add: lpt_def Let_def set_flag clear_flag act svc_no_env case_prod_beta)
qed

lemma svc_env:
  assumes "dev_env_keeps P env" "P s"
  shows "P (snd (clk_svc env s))" "P (snd (tti_svc env s))" "P (snd (tto_svc env s))"
proof -
  have ops: "timers_keep P (base_ops env)" using assms(1) by (simp add: dev_env_keeps_def)
  note act = sim_activate_keeps(1) [OF free ops] sim_activate_after_keeps [OF ops]
  note env = assms(1) [unfolded dev_env_keeps_def]
  show "P (snd (clk_svc env s))" "P (snd (tti_svc env s))" "P (snd (tto_svc env s))"
    using assms(2) env by (simp_all add: clk_svc_def tti_svc_def tto_svc_def Let_def case_prod_beta set_flag act split: option.split)
qed

lemma reset_env:
  assumes "dev_env_keeps P env" "P s"
  shows "P (snd (clk_reset env s))" "P (snd (tti_reset env s))" "P (snd (tto_reset env s))" "P (snd (ptr_reset env s))"
    "P (snd (ptp_reset env s))" "P (snd (lpt_reset env s))" "P (snd (tsc_reset s))"
proof -
  have ops: "timers_keep P (base_ops env)" using assms(1) by (simp add: dev_env_keeps_def)
  note act = sim_activate_keeps(1) [OF free ops] sim_activate_after_keeps [OF ops] sim_cancel_keeps [OF free ops]
  note env = assms(1) [unfolded dev_env_keeps_def]
  note off = reset_off [OF assms(2), of INT_CLK]
  show "P (snd (clk_reset env s))" using env off by (simp add: clk_reset_def Let_def case_prod_beta act)
  show "P (snd (tti_reset env s))" "P (snd (tto_reset env s))" "P (snd (ptr_reset env s))"
    "P (snd (ptp_reset env s))" "P (snd (lpt_reset env s))"
    using assms(2) env by (simp_all add: set_flag tti_reset_def tto_reset_def ptr_reset_def ptp_reset_def lpt_reset_def Let_def act)
  show "P (snd (tsc_reset s))" using assms(2) by (simp add: tsc_reset_def tsc_regs tsc_flag)
qed
end


lemma pdp8_wf_frame: "pdp8.truncate s = pdp8.truncate s' \<Longrightarrow> pdp8_wf s = pdp8_wf s'"
  by (cases s; cases s') (simp add: pdp8.truncate_def pdp8_wf_def)

lemma irq_ok_frame: "pdp8.truncate s = pdp8.truncate s' \<Longrightarrow> irq_ok s = irq_ok s'"
  by (cases s; cases s') (simp add: pdp8.truncate_def)

lemmas flag_defs = set_done_def set_enable_def clear_done_def clear_enable_def reset_flags_def clear_tsc_def int_update_def

lemma int_update_irq:
  assumes "fits 29 (int_req s)" "fits 14 (dev_done s)" "fits 14 (int_enable s)"
  shows "irq_ok (int_update s)"
  using irq_wf_update [OF assms] by (simp add: int_update_def)

lemma flags_irq:
  assumes "irq_ok s"
  shows "fits 14 f \<Longrightarrow> irq_ok (set_done f s) \<and> irq_ok (set_enable f s) \<and> irq_ok (reset_flags f s)"
    "irq_ok (clear_done f s) \<and> irq_ok (clear_enable f s)"
  using irq_wfD [OF assms] irq_wf_clear [OF assms]
  by (auto simp: set_done_def set_enable_def reset_flags_def clear_done_def clear_enable_def fits_bitwise
      intro!: int_update_irq)

interpretation wf_devices: device_invariant pdp8_wf
proof
  show "queue_free pdp8_wf" by (rule queue_free_pdp8_wf)
  show "pdp8.truncate s = pdp8.truncate s' \<Longrightarrow> pdp8_wf s = pdp8_wf s'" for s s' :: "'a pdp8_sys_scheme" by (rule pdp8_wf_frame)
qed (simp_all add: flag_defs, simp add: pdp8_wf_def)

interpretation irq_devices: device_invariant irq_ok
proof
  show "queue_free irq_ok" by (rule queue_free_irq)
  show "pdp8.truncate s = pdp8.truncate s' \<Longrightarrow> irq_ok s = irq_ok s'" for s s' :: "'a pdp8_sys_scheme" by (rule irq_ok_frame)
qed (simp_all add: flags_irq clear_tsc_def clear_done_def irq_wf_clear)

subsection \<open>The machine\<close>

text \<open>
  The units' service routines, the devices' information blocks and resets in the order of
  \<^verbatim>\<open>sim_devices\<close>.  The devices that are not modelled enter as parameters: the floating point
  processor, the additional terminals and the disks and tapes that follow the line printer, with
  their information blocks and resets; the service routines of their units are those of
  \<^const>\<open>base_ops\<close>.
\<close>

record 's others =
  fpp_dib :: "(u32 \<Rightarrow> u32 \<Rightarrow> 's \<Rightarrow> u32 \<times> 's) DIB option"
  ttx_dibs :: "(u32 \<Rightarrow> u32 \<Rightarrow> 's \<Rightarrow> u32 \<times> 's) DIB option list"
  rest_dibs :: "(u32 \<Rightarrow> u32 \<Rightarrow> 's \<Rightarrow> u32 \<times> 's) DIB option list"
  fpp_reset :: "'s \<Rightarrow> t_stat \<times> 's"
  ttx_resets :: "('s \<Rightarrow> t_stat \<times> 's) list"
  rest_resets :: "('s \<Rightarrow> t_stat \<times> 's) list"
  idle_enab :: "'s \<Rightarrow> bool"
  idle :: "'s \<Rightarrow> 's"

definition sys_ops :: "('a pdp8_sys_scheme) dev_env \<Rightarrow> ('a pdp8_sys_scheme) unit_ops" where
  "sys_ops env = (base_ops env)\<lparr>action := (action (base_ops env))
     (clk_unit \<mapsto> clk_svc env, tti_unit \<mapsto> tti_svc env, tto_unit \<mapsto> tto_svc env,
      ptr_unit \<mapsto> ptr_svc, ptp_unit \<mapsto> ptp_svc, lpt_unit \<mapsto> lpt_svc)\<rparr>"

definition one_slot :: "nat \<Rightarrow> 'd \<Rightarrow> 'd DIB" where
  "one_slot n f = \<lparr>dib_dev = n, dib_num = 1, dib_dsp = [Some f], dib_dsp_tbl = None\<rparr>"

definition sys_devs ::
  "('a pdp8_sys_scheme) dev_env \<Rightarrow> ('a pdp8_sys_scheme) others \<Rightarrow>
   (u32 \<Rightarrow> u32 \<Rightarrow> 'a pdp8_sys_scheme \<Rightarrow> u32 \<times> 'a pdp8_sys_scheme) DIB option list" where
  "sys_devs env ot =
     [Some (one_slot 30 tsc), fpp_dib ot, Some (one_slot 11 clk), Some (one_slot 1 (ptr env)), Some (one_slot 2 (ptp env)),
      Some (one_slot 3 (tti env)), Some (one_slot 4 (tto env))] @ ttx_dibs ot @ [Some (one_slot 54 (lpt env))] @ rest_dibs ot"

text \<open>\<^verbatim>\<open>reset_all\<close> of \<^verbatim>\<open>scp.c\<close> over the resets it calls: the first failure ends it.\<close>

primrec reset_devices :: "('s \<Rightarrow> t_stat \<times> 's) list \<Rightarrow> 's \<Rightarrow> t_stat \<times> 's" where
  "reset_devices [] s = (SCPE_OK, s)"
| "reset_devices (f # fs) s = (let (r, s') = f s in if r \<noteq> SCPE_OK then (r, s') else reset_devices fs s')"

definition sys_resets ::
  "('a pdp8_sys_scheme) dev_env \<Rightarrow> ('a pdp8_sys_scheme) others \<Rightarrow> ('a pdp8_sys_scheme \<Rightarrow> t_stat \<times> 'a pdp8_sys_scheme) list" where
  "sys_resets env ot =
     [tsc_reset, fpp_reset ot, clk_reset env, ptr_reset env, ptp_reset env, tti_reset env, tto_reset env] @ ttx_resets ot @
     [lpt_reset env] @ rest_resets ot"

definition sys_env :: "('a pdp8_sys_scheme) dev_env \<Rightarrow> ('a pdp8_sys_scheme) others \<Rightarrow> ('a pdp8_sys_scheme) pdp8_env" where
  "sys_env env ot =
     \<lparr>units = sys_ops env, dev_tab = (\<lambda>d. None), reset_all = (\<lambda>s. snd (reset_devices (sys_resets env ot) s)),
      sim_idle_enab = idle_enab ot, sim_idle = idle ot\<rparr>"

text \<open>What is not modelled keeps a predicate.\<close>

definition others_keep :: "('s \<Rightarrow> bool) \<Rightarrow> 's dev_env \<Rightarrow> 's others \<Rightarrow> bool" where
  "others_keep P env ot \<longleftrightarrow> dev_env_keeps P env \<and> units_keep P (base_ops env) \<and>
     (\<forall>(n, f) \<in> set (all_claims (fpp_dib ot # ttx_dibs ot @ rest_dibs ot)). \<forall>IR AC s. P s \<longrightarrow> P (snd (f IR AC s))) \<and>
     (\<forall>f \<in> set (fpp_reset ot # ttx_resets ot @ rest_resets ot). \<forall>s. P s \<longrightarrow> P (snd (f s))) \<and> (\<forall>s. P s \<longrightarrow> P (idle ot s))"

lemma reset_devices_keep:
  "\<forall>f \<in> set fs. \<forall>s. P s \<longrightarrow> P (snd (f s)) \<Longrightarrow> P s \<Longrightarrow> P (snd (reset_devices fs s))"
  by (induction fs arbitrary: s) (auto simp: Let_def case_prod_beta)

lemma claims_one_slot [simp]: "claims (dib_slots (one_slot n f)) = [(n, f)]"
  by (simp add: one_slot_def dib_slots_def)

lemma all_claims_iff: "p \<in> set (all_claims ds) \<longleftrightarrow> (\<exists>d. Some d \<in> set ds \<and> p \<in> set (claims (dib_slots d)))"
  by (force simp: all_claims_def split: option.splits)

lemma sys_claims:
  assumes "(n, f) \<in> set (all_claims (sys_devs env ot))"
  shows "f \<in> {tsc, clk, ptr env, ptp env, tti env, tto env, lpt env} \<or>
      (n, f) \<in> set (all_claims (fpp_dib ot # ttx_dibs ot @ rest_dibs ot))"
  using assms by (auto simp: sys_devs_def all_claims_iff)

text \<open>Every entry of the dispatch table is the routine of a device or the reserved one.\<close>

lemma build_dev_tab_entry:
  assumes "build_dev_tab bad devs = Some tab" "tab d = Some f"
  shows "f = bad \<or> (d, f) \<in> set (all_claims devs)"
  using assms by (auto simp: build_dev_tab_def fill_devices_claims dest: map_of_SomeD split: if_splits)

context device_invariant
begin

lemma sys_units_keep:
  assumes "others_keep P env ot"
  shows "units_keep P (sys_ops env)"
proof -
  have e: "dev_env_keeps P env" and u: "units_keep P (base_ops env)" using assms by (simp_all add: others_keep_def)
  from svc_env [OF e] svc_no_env u show ?thesis
    by (simp add: units_keep_def sys_ops_def)
qed

lemma sys_resets_keep:
  assumes "others_keep P env ot" "P s"
  shows "P (snd (reset_devices (sys_resets env ot) s))"
proof (rule reset_devices_keep [where P = P, OF _ assms(2)])
  have e: "dev_env_keeps P env" using assms by (simp add: others_keep_def)
  have o: "\<forall>f \<in> set (fpp_reset ot # ttx_resets ot @ rest_resets ot). \<forall>s. P s \<longrightarrow> P (snd (f s))"
    using assms by (simp add: others_keep_def)
  with reset_env [OF e] show "\<forall>f \<in> set (sys_resets env ot). \<forall>s. P s \<longrightarrow> P (snd (f s))"
    by (simp add: sys_resets_def)
qed

lemma sys_claims_keep:
  assumes "others_keep P env ot" "(n, f) \<in> set (all_claims (sys_devs env ot))" "P s"
  shows "P (snd (f IR AC s))"
proof -
  have e: "dev_env_keeps P env" using assms(1) by (simp add: others_keep_def)
  have o: "(n, f) \<in> set (all_claims (fpp_dib ot # ttx_dibs ot @ rest_dibs ot)) \<Longrightarrow> P (snd (f IR AC s))"
    using assms(1,3) unfolding others_keep_def by fastforce
  from sys_claims [OF assms(2)] o iot_env [OF e assms(3)] iot_no_env [OF assms(3)] show ?thesis by auto
qed

lemma sys_env_keeps:
  assumes "others_keep P env ot" "build_dev_tab bad_dev (sys_devs env ot) = Some tab"
  shows "env_keeps P ((sys_env env ot)\<lparr>dev_tab := \<lambda>d. tab (unat d)\<rparr>)"
proof -
  have "P (snd (f IR AC s))" if "tab d = Some f" "P s" for d f IR AC s
    using build_dev_tab_entry [OF assms(2) that(1)] sys_claims_keep [OF assms(1) _ that(2)] that(2)
    by (auto simp: bad_dev_def)
  moreover have "\<forall>s. P s \<longrightarrow> P (idle ot s)" using assms(1) by (simp add: others_keep_def)
  ultimately show ?thesis
    using sys_resets_keep [OF assms(1)] sys_units_keep [OF assms(1)] by (simp add: env_keeps_def sys_env_def)
qed

end

text \<open>Processor and devices together.\<close>

lemma sim_instr_irq:
  assumes "sim_instr n fuel devs env s = Some (Inr (reason, s'))" "irq_ok s"
    and "\<And>tab. build_dev_tab bad_dev devs = Some tab \<Longrightarrow> env_keeps irq_ok (env\<lparr>dev_tab := \<lambda>d. tab (unat d)\<rparr>)"
  shows "irq_ok s'"
proof -
  have r: "irq_ok (restore_regs s)"
    using irq_wf_update [OF irq_wfD [OF assms(2)]] by (simp add: restore_regs_def)
  have sv: "irq_ok (save_regs s1) = irq_ok s1" for s1 :: "'a pdp8_scheme" by (simp add: save_regs_def)
  show ?thesis using assms pdp8_irq.inv_run [of _ "restore_regs s"] r
    by (fastforce simp: sim_instr_def Let_def sv split: option.splits sum.splits)
qed

lemma system_run:
  assumes "sim_instr n fuel (sys_devs env ot) (sys_env env ot) s = Some (Inr (reason, s'))"
    and "others_keep pdp8_wf env ot" "others_keep irq_ok env ot" "pdp8_wf s" "irq_ok s"
  shows "pdp8_wf s' \<and> irq_ok s'"
  using sim_instr_wf [OF assms(1,4)] wf_devices.sys_env_keeps [OF assms(2)]
    sim_instr_irq [OF assms(1,5)] irq_devices.sys_env_keeps [OF assms(3)] by (simp add: env_wf_keeps)

end
