(* ===== verification/Pdp8System.thy ===== *)
theory Pdp8System
  imports Pdp8Devices
begin

text \<open>
  What processor and devices of the PDP-8 do together: when a device interrupts the processor, what
  a character or a byte of tape is on its way between a program and the outside, and that whole runs
  keep the machine and its interrupt requests in order.
\<close>

unbundle bit_operations_syntax


subsection \<open>Interrupts of the devices\<close>

text \<open>The requests that no enable flag masks.\<close>

lemma int_all_split: "x AND INT_ALL = 0 \<longleftrightarrow> x AND INT_DEV_ENABLE = 0 \<and> x AND 0x3FFC000 = 0" for x :: u32
proof -
  have "x AND INT_ALL = (x AND INT_DEV_ENABLE) OR (x AND 0x3FFC000)"
    by (simp flip: bit.conj_disj_distrib)
  then show ?thesis by (simp add: or_eq_0_iff)
qed

lemma interrupt_decision:
  assumes "irq_ok s"
  shows "INT_PENDING <s int_req s \<longleftrightarrow> bit (int_req s) 26 \<and> bit (int_req s) 27 \<and> bit (int_req s) 28 \<and>
     (dev_done s AND int_enable s \<noteq> 0 \<or> int_req s AND 0x3FFC000 \<noteq> 0)"
  using interrupt_test [OF assms] assms by (auto simp: int_all_split irq_wf_def)

lemma set_done_bits: "bit (int_req (set_done f s)) n = bit (int_req s) n" if "14 \<le> n" "fits 14 (dev_done s)" "fits 14 f"
proof -
  have m: "\<not> bit (0x3FFF :: u32) n" using that(1) unfolding dev_mask by (simp add: bit_mask_iff)
  show ?thesis
  proof (cases "n < 32")
    case True
    with m show ?thesis using that fits_bitD [OF that(2), of n] fits_bitD [OF that(3), of n]
      by (auto simp: set_done_def int_update_def bit_simps simp del: bit_numeral_iff)
  qed (auto simp: not_less dest: bit_imp_le_length)
qed

lemma done_interrupts:
  assumes "irq_ok s" "fits 14 f" "f AND int_enable s \<noteq> 0"
    and "bit (int_req s) 26" "bit (int_req s) 27" "bit (int_req s) 28"
  shows "INT_PENDING <s int_req (set_done f s)"
proof -
  have ok: "irq_ok (set_done f s)" using flags_irq(1) [OF assms(1,2)] by blast
  have "(dev_done s OR f) AND int_enable s \<noteq> 0" using assms(3) by (simp add: bit.conj_disj_distrib2 or_eq_0_iff)
  then have "dev_done (set_done f s) AND int_enable (set_done f s) \<noteq> 0" by (simp add: set_done_def int_update_def)
  with set_done_bits [of _ s f] irq_wfD(2) [OF assms(1)] assms(2,4-6) show ?thesis
    unfolding interrupt_decision [OF ok] by simp
qed

text \<open>A device with a routine that is listed twice conflicts with itself: no dispatch table is built.\<close>

lemma device_listed_twice:
  assumes "claims (dib_slots d) \<noteq> []"
  shows "build_dev_tab bad (ds @ Some d # ds' @ Some d # ds'') = None"
proof -
  obtain p ps where "claims (dib_slots d) = p # ps" using assms by (cases "claims (dib_slots d)") auto
  then have "\<not> no_conflict (all_claims (ds @ Some d # ds' @ Some d # ds'')) tab" for tab
    by (simp add: no_conflict_def all_claims_def)
  then show ?thesis by (simp add: build_dev_tab_def fill_devices_claims)
qed

subsection \<open>Parity\<close>

primrec ones :: "nat \<Rightarrow> u32 \<Rightarrow> nat" where
  "ones 0 c = 0"
| "ones (Suc n) c = ones n c + of_bool (bit c n)"

lemma ones_4: "ones 4 c = of_bool (bit c 0) + of_bool (bit c 1) + of_bool (bit c 2) + of_bool (bit c 3)"
  by (simp add: eval_nat_numeral)

lemma ones_8: "ones 8 c = ones 4 c + ones 4 (drop_bit 4 c)"
  by (simp add: eval_nat_numeral bit_drop_bit_eq)

lemma parity_table:
  assumes "n < 16"
  shows "bit (0x699600 :: u32) (8 + n) \<longleftrightarrow> odd (ones 4 (of_nat n))"
proof -
  have "n = 0 \<or> n = 1 \<or> n = 2 \<or> n = 3 \<or> n = 4 \<or> n = 5 \<or> n = 6 \<or> n = 7 \<or> n = 8 \<or> n = 9 \<or> n = 10 \<or> n = 11 \<or> n = 12 \<or>
    n = 13 \<or> n = 14 \<or> n = 15" using assms by presburger
  then show ?thesis by (elim disjE) (simp_all add: ones_4)
qed

lemma nibble_table: "bit (0x699600 :: u32) (8 + unat (c AND 0xF)) \<longleftrightarrow> odd (ones 4 c)"
proof -
  have "unat (c AND 0xF) < 16" using nibble_less [of c] by (simp add: word_less_nat_alt)
  from parity_table [OF this] have "bit (0x699600 :: u32) (8 + unat (c AND 0xF)) \<longleftrightarrow> odd (ones 4 (c AND 0xF))"
    by simp
  also have "ones 4 (c AND 0xF) = ones 4 c" by (simp add: ones_4 bit_and_iff)
  finally show ?thesis .
qed

lemma nibble_parity_odd: "bit (nibble_parity c) 7 \<longleftrightarrow> odd (ones 8 c)"
proof -
  have "bit (drop_bit (unat (x AND 0xF) + 1) (0x699600 :: u32)) 7 \<longleftrightarrow> odd (ones 4 x)" for x
  proof -
    have "unat (x AND 0xF) + 1 + 7 = 8 + unat (x AND 0xF)" by simp
    then show ?thesis unfolding bit_drop_bit_eq comp_def using nibble_table [of x] by (simp only: )
  qed
  then show ?thesis by (simp add: nibble_parity_def bit_xor_iff ones_8)
qed

lemma ones_parity_bit:
  assumes "\<not> bit c 7"
  shows "ones 8 (c OR (p AND 0x80)) = ones 8 c + of_bool (bit p 7)"
  using assms by (simp add: ones_8 ones_4 bit_or_iff bit_and_iff bit_drop_bit_eq)

text \<open>The seven bits that a conversion other than that of eight bits leaves of a character.\<close>

definition seven_bits :: "u32 \<Rightarrow> u32 \<Rightarrow> u32" where
  "seven_bits c mode =
     (let c1 = c AND 0x7F in if mode AND 3 = 2 \<and> 97 \<le> c1 \<and> c1 \<le> 122 then c1 - 32 else c1)"

lemma fits_seven_bits: "fits 7 (seven_bits c mode)"
proof -
  let ?c = "c AND 0x7F"
  have "fits 7 ?c" by simp
  then have "unat ?c < 128" by (simp add: fits_less)
  moreover have "unat (?c - 32) = unat ?c - 32" if "97 \<le> ?c" using that by (simp add: unat_sub word_le_nat_alt)
  ultimately have "unat (seven_bits c mode) < 2 ^ 7" by (auto simp: seven_bits_def Let_def)
  then show ?thesis by (simp only: fits_less)
qed

lemma seven_bits_top: "\<not> bit (seven_bits c mode) 7"
  using fits_bitD [OF fits_seven_bits] by blast

lemma inpcvt_seven:
  assumes "mode AND 3 \<noteq> 1" "\<not> (mode AND 3 = 2 \<and> mode AND 0x10 \<noteq> 0)"
  shows "sim_tt_inpcvt c mode =
    (let c2 = seven_bits c mode; par_mode = drop_bit 2 mode AND 3 in
     if par_mode = 2 then c2 OR (nibble_parity c2 AND 0x80)
     else if par_mode = 3 then c2 OR (NOT (nibble_parity c2) AND 0x80)
     else if par_mode = 1 then c2 OR 0x80 else c2)"
  using assms by (auto simp: sim_tt_inpcvt_def seven_bits_def Let_def)

lemma inpcvt_parity:
  assumes "mode AND 3 \<noteq> 1" "\<not> (mode AND 3 = 2 \<and> mode AND 0x10 \<noteq> 0)"
  shows "drop_bit 2 mode AND 3 = 2 \<Longrightarrow> even (ones 8 (sim_tt_inpcvt c mode))"
    "drop_bit 2 mode AND 3 = 3 \<Longrightarrow> odd (ones 8 (sim_tt_inpcvt c mode))"
  using ones_parity_bit [OF seven_bits_top] nibble_parity_odd [of "seven_bits c mode"]
  by (simp_all add: inpcvt_seven [OF assms] Let_def bit_not_iff)

lemma fits_7_and: "fits 7 x \<Longrightarrow> x AND 0x7F = x" for x :: u32
  by (simp add: fits_def take_bit_eq_mask mask_eq_exp_minus_1)

lemma inpcvt_data:
  assumes "mode AND 3 \<noteq> 1" "\<not> (mode AND 3 = 2 \<and> mode AND 0x10 \<noteq> 0)"
  shows "sim_tt_inpcvt c mode AND 0x7F = seven_bits c mode"
  using fits_7_and [OF fits_seven_bits, of c mode]
  by (simp add: inpcvt_seven [OF assms] Let_def bit.conj_disj_distrib2 and.assoc)

subsection \<open>Console and tape\<close>

text \<open>The timer package leaves the registers of the devices alone.\<close>

definition timers_keep_devices :: "('a pdp8_sys_scheme) dev_env \<Rightarrow> bool" where
  "timers_keep_devices env \<longleftrightarrow> (\<forall>d tb pb rb pf rf.
     timers_keep (\<lambda>s. dev_done s = d \<and> tti_buf s = tb \<and> ptp_buf s = pb \<and> ptr_buf s = rb \<and> ptp_file s = pf \<and> ptr_file s = rf)
       (base_ops env))"

abbreviation device_view where
  "device_view s \<equiv> (dev_done s, tti_buf s, ptp_buf s, ptr_buf s, ptp_file s, ptr_file s)"

lemma activate_view:
  assumes "timers_keep_devices env"
  shows "device_view (snd (sim_activate (base_ops env) u t s)) = device_view s"
    "device_view (snd (sim_activate_abs (base_ops env) u t s)) = device_view s"
proof -
  let ?P = "\<lambda>s'. dev_done s' = dev_done s \<and> tti_buf s' = tti_buf s \<and> ptp_buf s' = ptp_buf s \<and> ptr_buf s' = ptr_buf s \<and>
    ptp_file s' = ptp_file s \<and> ptr_file s' = ptr_file s"
  have f: "queue_free ?P" by (simp add: queue_free_def)
  have t: "timers_keep ?P (base_ops env)" using assms by (simp add: timers_keep_devices_def)
  from sim_activate_keeps(1) [OF f t, of s u t] sim_activate_abs_keeps [OF f t, of s u t]
  show "device_view (snd (sim_activate (base_ops env) u t s)) = device_view s"
    "device_view (snd (sim_activate_abs (base_ops env) u t s)) = device_view s" by simp_all
qed

lemmas activate_view_simps = activate_view [unfolded prod.inject]

text \<open>
  A program that punches a byte: load and start the punch, then the service of its unit.  A program
  that reads one: start the reader, the service, read the buffer.
\<close>

definition punch_byte :: "('a pdp8_sys_scheme) dev_env \<Rightarrow> u32 \<Rightarrow> 'a pdp8_sys_scheme \<Rightarrow> 'a pdp8_sys_scheme" where
  "punch_byte env v s = snd (ptp_svc (snd (ptp env 0xC16 v s)))"

definition read_byte :: "('a pdp8_sys_scheme) dev_env \<Rightarrow> 'a pdp8_sys_scheme \<Rightarrow> u32 \<times> 'a pdp8_sys_scheme" where
  "read_byte env s = ptr env 0xC0A 0 (snd (ptr_svc (snd (ptr env 0xC0C 0 s))))"

primrec read_bytes :: "('a pdp8_sys_scheme) dev_env \<Rightarrow> nat \<Rightarrow> 'a pdp8_sys_scheme \<Rightarrow> u32 list" where
  "read_bytes env 0 s = []"
| "read_bytes env (Suc n) s = (let (v, s') = read_byte env s in v # read_bytes env n s')"

lemma punch_byte_writes:
  assumes "timers_keep_devices env" "ptp_file s = Some f" "\<not> write_error f"
  shows "ptp_file (punch_byte env v s) = Some (f\<lparr>written := written f @ [v AND 0xFF]\<rparr>)"
  using assms(2,3) activate_view_simps [OF assms(1)]
  by (simp add: punch_byte_def ptp_def ptp_svc_def Let_def clear_done_def set_done_def int_update_def)

lemma punch_bytes_write:
  "timers_keep_devices env \<Longrightarrow> ptp_file s = Some f \<Longrightarrow> \<not> write_error f \<Longrightarrow>
   ptp_file (fold (punch_byte env) vs s) = Some (f\<lparr>written := written f @ map (\<lambda>v. v AND 0xFF) vs\<rparr>)"
  by (induction vs arbitrary: s f) (simp_all add: punch_byte_writes)

lemma byte_and: "ucast b AND 0xFF = (ucast b :: u32)" for b :: u8
proof -
  have "ucast b AND 0xFF = take_bit 8 (ucast b :: u32)" by (simp add: take_bit_eq_mask mask_eq_exp_minus_1)
  also have "\<dots> = ucast b" by (rule bit_word_eqI) (auto simp: bit_simps dest: bit_imp_le_length)
  finally show ?thesis .
qed

lemma read_byte_reads:
  assumes "timers_keep_devices env" "ptr_file s = Some (Some b # r)"
  shows "fst (read_byte env s) = ucast b" "ptr_file (snd (read_byte env s)) = Some r"
  using assms(2) activate_view_simps [OF assms(1)]
  by (simp_all add: byte_and read_byte_def ptr_def ptr_svc_def Let_def clear_done_def set_done_def int_update_def)

lemma read_bytes_read:
  "timers_keep_devices env \<Longrightarrow> ptr_file s = Some (map Some bs @ r) \<Longrightarrow>
   read_bytes env (length bs) s = map ucast bs"
  by (induction bs arbitrary: s) (simp_all add: read_byte_reads case_prod_beta Let_def)

lemma byte_roundtrip: "ucast (ucast (v AND 0xFF) :: u8) = (v AND 0xFF :: u32)"
proof -
  have "v AND 0xFF = take_bit 8 v" by (simp add: take_bit_eq_mask mask_eq_exp_minus_1)
  then show ?thesis by (simp only:) (rule bit_word_eqI; auto simp: bit_simps)
qed

lemma keyboard_read:
  assumes "timers_keep_devices env" "s1 = snd (sim_clock_coschedule env tti_unit (tmxr_poll s) s)"
    and "dev_done s1 AND INT_TTI = 0" "sim_poll_kbd env s1 = (c, s2)" "SCPE_KFLAG \<le> c" "(of_int c :: u32) AND 0x20000000 = 0"
  shows "fst (tti_svc env s) = SCPE_OK" "fst (tti env 0xC19 AC (snd (tti_svc env s))) = IOT_SKP + AC"
    "fst (tti env 0xC1E AC (snd (tti_svc env s))) = sim_tt_inpcvt (of_int c) (tti_mode s2 OR 0x10)"
    "fst (tti env 0xC19 AC (snd (tti env 0xC1E AC (snd (tti_svc env s))))) = AC"
proof -
  define s3 where "s3 = set_done INT_TTI
    (s2\<lparr>tti_buf := sim_tt_inpcvt (of_int c) (tti_mode s2 OR 0x10), tti_buftime := sim_os_msec env s2, tti_pos := tti_pos s2 + 1\<rparr>)"
  have svc: "tti_svc env s = (SCPE_OK, s3)"
    using assms(3-6) unfolding tti_svc_def assms(2) [symmetric] s3_def by (simp add: Let_def)
  have d: "(dev_done s2 OR 16) AND 16 = (16 :: u32)" by (simp add: bit.conj_disj_distrib2 bit_eq_iff bit_simps) 
  show "fst (tti_svc env s) = SCPE_OK" "fst (tti env 0xC19 AC (snd (tti_svc env s))) = IOT_SKP + AC"
    "fst (tti env 0xC1E AC (snd (tti_svc env s))) = sim_tt_inpcvt (of_int c) (tti_mode s2 OR 0x10)"
    "fst (tti env 0xC19 AC (snd (tti env 0xC1E AC (snd (tti_svc env s))))) = AC"
    using activate_view_simps [OF assms(1)] d
    by (simp_all add: svc s3_def tti_def Let_def skip_if_def set_done_def int_update_def clear_done_def and.assoc)
qed

subsection \<open>Properties\<close>

text \<open>A machine at rest, without other devices and with an empty timer package, for the witnesses.\<close>

definition sys_machine :: "u32 \<Rightarrow> u8 option list \<Rightarrow> pdp8_sys" where
  "sys_machine pc tape = pdp8.extend (pdp8_machine pc 0 0 (\<lambda>a. 0xF02))
     (pdp8_sys.fields False 60 8 16667 False 0 0 100 2 0 0 0 100 2 0x2780 0 0 100 False (Some tape)
       0 0 100 False (Some \<lparr>written = [], write_error = False\<rparr>) 0 0 100 False False None True)"

definition quiet_env :: "pdp8_sys dev_env" where
  "quiet_env =
     \<lparr>base_ops = \<lparr>action = (\<lambda>u. None), cancel = (\<lambda>u e. (False, e)), tmr_unit = (\<lambda>u e. False),
        sim_timer_is_active = (\<lambda>u e. False), sim_timer_cancel = (\<lambda>u e. (SCPE_OK, e)),
        sim_timer_activate = (\<lambda>u t e. (SCPE_OK, e)), sim_timer_activate_after = (\<lambda>u d e. (SCPE_OK, e)),
        sim_timer_activate_time = (\<lambda>u e. -1), sim_timer_inst_per_sec = (\<lambda>e. 1)\<rparr>,
      sim_poll_kbd = (\<lambda>s. (SCPE_KFLAG + 97, s)), sim_putchar_s = (\<lambda>c s. (SCPE_OK, s)), sim_os_msec = (\<lambda>s. 0),
      sim_rtcn_calb = (\<lambda>t s. (t, s)), sim_rtcn_init_unit = (\<lambda>u t s. (t, s)), sim_clock_coschedule = (\<lambda>u t s. (SCPE_OK, s)),
      tmxr_set_console_units = (\<lambda>u v s. s)\<rparr>"

definition no_others :: "pdp8_sys others" where
  "no_others = \<lparr>fpp_dib = None, ttx_dibs = [], rest_dibs = [], fpp_reset = (\<lambda>s. (SCPE_OK, s)), ttx_resets = [], rest_resets = [],
     idle_enab = (\<lambda>s. False), idle = (\<lambda>s. s)\<rparr>"

lemma quiet_keeps: "others_keep P quiet_env no_others" "timers_keep_devices quiet_env"
  by (simp_all add: others_keep_def dev_env_keeps_def timers_keep_def units_keep_def timers_keep_devices_def quiet_env_def
      no_others_def all_claims_def)

lemma sys_machine_ok: "pdp8_wf (sys_machine 0x80 t)" "irq_ok (sys_machine 0x80 t)" "rUF (sys_machine 0x80 t) = 0"
  "ptr_file (sys_machine 0x80 t) = Some t" "ptp_file (sys_machine 0x80 t) = Some \<lparr>written = [], write_error = False\<rparr>"
  by (simp_all add: sys_machine_def pdp8.extend_def pdp8_sys.fields_def pdp8_machine_def pdp8_wf_def irq_wf_def)

lemma quiet_table: "\<exists>tab. build_dev_tab bad_dev (sys_devs quiet_env no_others) = Some tab"
  by (simp add: build_dev_tab_def sys_devs_def no_others_def one_slot_def dib_slots_def)

text \<open>
  C9. Invariant: a run of the processor with the clock, the console, the paper tape, the line printer and
  the time sharing control attached keeps the machine well formed and its interrupt requests true:
  a device requests an interrupt exactly when its done flag and its enable flag are set; for all
  other devices and a timer package that keep this.
\<close>

theorem pdp8_system_run:
  assumes "sim_instr n fuel (sys_devs env ot) (sys_env env ot) s = Some (Inr (reason, s'))"
    and "others_keep pdp8_wf env ot" "others_keep irq_ok env ot" "pdp8_wf s" "irq_ok s"
  shows "pdp8_wf s' \<and> irq_ok s'"
  using assms by (rule system_run)

theorem pdp8_system_run_witness:
  "\<exists>s'. sim_instr 1 0 (sys_devs quiet_env no_others) (sys_env quiet_env no_others) (sys_machine 0x80 []) =
     Some (Inr (STOP_HALT, s')) \<and> pdp8_wf s' \<and> irq_ok s'"
proof -
  let ?s = "sys_machine 0x80 []"
  have "pdp8_step 0 env (restore_regs ?s) = Inr (STOP_HALT, fetch (restore_regs ?s))" for env
    by (simp add: pdp8_step_def quiet_cycle restore_regs_def sys_machine_def pdp8.extend_def pdp8_sys.fields_def pdp8_machine_def
        execute_def halt_stops fetch_def word_sless_alt)
  then have s': "sim_instr 1 0 (sys_devs quiet_env no_others) (sys_env quiet_env no_others) ?s =
      Some (Inr (STOP_HALT, save_regs (fetch (restore_regs ?s))))"
    using quiet_table by (auto simp: sim_instr_def Let_def)
  from pdp8_system_run [OF s' quiet_keeps(1) quiet_keeps(1) sys_machine_ok(1,2)] s' show ?thesis by blast
qed

text \<open>
  Equivalence: the single signed comparison with which the processor decides on an interrupt is
  true exactly when interrupts are on, neither \<open>ION\<close> nor a field change is pending, and a device is
  done and enabled or one of the requests without enable flag is raised.  So a device that sets its
  done flag with its enable flag on, interrupts on and nothing pending, interrupts the next
  instruction, which finds the program counter in location 0.
\<close>

lemma pdp8_interrupt_decision:
  assumes "irq_ok s"
  shows "(INT_PENDING <s int_req s \<longleftrightarrow> bit (int_req s) 26 \<and> bit (int_req s) 27 \<and> bit (int_req s) 28 \<and>
      (dev_done s AND int_enable s \<noteq> 0 \<or> int_req s AND 0x3FFC000 \<noteq> 0)) \<and>
    (fits 14 f \<and> f AND int_enable s \<noteq> 0 \<and> bit (int_req s) 26 \<and> bit (int_req s) 27 \<and> bit (int_req s) 28 \<longrightarrow>
      rPC (take_interrupt (set_done f s)) = 1 \<and> mem (take_interrupt (set_done f s)) 0 = rPC s)"
  using interrupt_decision [OF assms] done_interrupts [OF assms, of f]
  by (auto simp: take_interrupt_def Let_def write_mem_def pcq_entry_def set_done_def int_update_def)

text \<open>
  C31. Round trip: what a program punches, low eight bits of each word, a program that reads the
  punched tape gets back in the same order; what was on the punch's file before precedes it.
\<close>

theorem paper_tape_roundtrip:
  assumes "timers_keep_devices env" "ptp_file s = Some f" "\<not> write_error f"
    and "ptp_file (fold (punch_byte env) vs s) = Some f'"
    and "ptr_file s2 = Some (map (\<lambda>v. Some (ucast v)) (written f'))"
  shows "written f' = written f @ map (\<lambda>v. v AND 0xFF) vs \<and>
    (written f = [] \<longrightarrow> read_bytes env (length vs) s2 = map (\<lambda>v. v AND 0xFF) vs)"
proof -
  have w: "written f' = written f @ map (\<lambda>v. v AND 0xFF) vs"
    using punch_bytes_write [OF assms(1-3), of vs] assms(4) by auto
  have "read_bytes env (length vs) s2 = map (\<lambda>v. v AND 0xFF) vs" if "written f = []"
    using read_bytes_read [OF assms(1), of s2 "map (\<lambda>v. ucast (v AND 0xFF)) vs" "[]"] assms(5) w that
    by (simp add: comp_def byte_roundtrip)
  with w show ?thesis by blast
qed

theorem paper_tape_roundtrip_witness:
  "read_bytes quiet_env 2 (sys_machine 0x80 [Some 0x41, Some 0x42]) = [0x41, 0x42]"
proof -
  let ?s = "sys_machine 0x80 []"
  have p: "ptp_file (fold (punch_byte quiet_env) [0xF41, 0x42] ?s) = Some \<lparr>written = [0x41, 0x42], write_error = False\<rparr>"
    using punch_bytes_write [OF quiet_keeps(2) sys_machine_ok(5), of "[0xF41, 0x42]" "[]"] by simp
  have "ptr_file (sys_machine 0x80 [Some 0x41, Some 0x42]) =
      Some (map (\<lambda>v. Some (ucast v)) (written \<lparr>written = [0x41, 0x42], write_error = False\<rparr>))"
    by (simp add: sys_machine_ok(4))
  from paper_tape_roundtrip [OF quiet_keeps(2) sys_machine_ok(5) _ p this] show ?thesis by (simp add: numeral_2_eq_2)
qed

text \<open>
  Functional: the parity of console input.  Except in eight bit mode and for the teletype in
  upper case, which always sets the top bit, the converted character carries the seven data bits
  (upper case when selected), and with even or odd parity selected an even or odd number of ones.
\<close>

lemma console_input_parity:
  assumes "mode AND 3 \<noteq> 1" "\<not> (mode AND 3 = 2 \<and> mode AND 0x10 \<noteq> 0)"
  shows "sim_tt_inpcvt c mode AND 0x7F = seven_bits c mode \<and>
    (drop_bit 2 mode AND 3 = 2 \<longrightarrow> even (ones 8 (sim_tt_inpcvt c mode))) \<and>
    (drop_bit 2 mode AND 3 = 3 \<longrightarrow> odd (ones 8 (sim_tt_inpcvt c mode)))"
  using inpcvt_data [OF assms] inpcvt_parity [OF assms] by blast

text \<open>
  Functional: a character typed at the keyboard, once the terminal's service has polled it,
  makes \<open>KSF\<close> skip, is what \<open>KRB\<close> loads in the accumulator, converted for the mode of the
  terminal, and after that \<open>KSF\<close> does not skip.
\<close>

lemma console_keyboard_read:
  assumes "timers_keep_devices env" "s1 = snd (sim_clock_coschedule env tti_unit (tmxr_poll s) s)"
    and "dev_done s1 AND INT_TTI = 0" "sim_poll_kbd env s1 = (c, s2)" "SCPE_KFLAG \<le> c" "(of_int c :: u32) AND 0x20000000 = 0"
  shows "case tti_svc env s of (st, s3) \<Rightarrow> st = SCPE_OK \<and> fst (tti env 0xC19 AC s3) = IOT_SKP + AC \<and>
    (case tti env 0xC1E AC s3 of (v, s4) \<Rightarrow>
       v = sim_tt_inpcvt (of_int c) (tti_mode s2 OR 0x10) \<and> fst (tti env 0xC19 AC s4) = AC)"
  using keyboard_read [OF assms] by (simp add: case_prod_beta)

end
