(* ===== verification/Ssem.thy ===== *)
theory Ssem
  imports Breakpoint InstrLoop
begin

text \<open>
  The Manchester Small Scale Experimental Machine, \<^verbatim>\<open>src/simulators/SSEM/ssem_cpu.c\<close>.  The
  two words of the control \<^verbatim>\<open>C\<close> are \<open>C0\<close> and \<open>C1\<close>, the accumulator \<^verbatim>\<open>A[0]\<close> is
  a word whose signed reading is the \<^verbatim>\<open>int32_t\<close> of the code; negation and subtraction wrap.
\<close>

unbundle bit_operations_syntax

record ssem = brkst +
  store_S :: "u32 \<Rightarrow> u32"
  reg_A :: u32
  C0 :: u32
  C1 :: u32
  Staticisor :: u32
  sim_step :: int

abbreviation (input) SSEM_STOP_STOP :: t_stat where "SSEM_STOP_STOP \<equiv> 1"
abbreviation (input) SSEM_STOP_IBKPT :: t_stat where "SSEM_STOP_IBKPT \<equiv> 2"
abbreviation (input) MEMSIZE :: u32 where "MEMSIZE \<equiv> 32"
abbreviation (input) AMASK :: u32 where "AMASK \<equiv> 0x1F"
abbreviation (input) IMASK :: u32 where "IMASK \<equiv> 0xE01F"

definition ssem_Read :: "u32 \<Rightarrow> 'a ssem_scheme \<Rightarrow> u32" where
  "ssem_Read ea s = store_S s ea AND 0xFFFFFFFF"

definition ssem_Write :: "u32 \<Rightarrow> u32 \<Rightarrow> 'a ssem_scheme \<Rightarrow> 'a ssem_scheme" where
  "ssem_Write ea dat s = s\<lparr>store_S := (store_S s)(ea := dat AND 0xFFFFFFFF)\<rparr>"

definition I_GETOP :: "u32 \<Rightarrow> u32" where
  "I_GETOP x = drop_bit 13 x AND 7"

definition I_GETEA :: "u32 \<Rightarrow> u32" where
  "I_GETEA x = x AND AMASK"

text \<open>The opcodes in the order of \<^verbatim>\<open>enum opcodes\<close>; 4 and 5 both subtract.\<close>

definition cpu_one_inst :: "u32 \<Rightarrow> 'a ssem_scheme \<Rightarrow> t_stat \<times> 'a ssem_scheme" where
  "cpu_one_inst ir s =
     (let op = I_GETOP ir; ea = I_GETEA ir in
      if op = 0 then (0, s\<lparr>C0 := ssem_Read ea s\<rparr>)
      else if op = 1 then (0, s\<lparr>C0 := C0 s + ssem_Read ea s\<rparr>)
      else if op = 2 then (0, s\<lparr>reg_A := - ssem_Read ea s\<rparr>)
      else if op = 3 then (0, ssem_Write ea (reg_A s) s)
      else if op = 4 \<or> op = 5 then (0, s\<lparr>reg_A := reg_A s - ssem_Read ea s\<rparr>)
      else if op = 6 then (0, if sint (reg_A s) < 0 then s\<lparr>C0 := C0 s + 1\<rparr> else s)
      else (SSEM_STOP_STOP, s))"

text \<open>One pass of the loop from the breakpoint test on.\<close>

definition ssem_cycle :: "'a ssem_scheme \<Rightarrow> t_stat \<times> 'a ssem_scheme" where
  "ssem_cycle s0 =
     (let (stop, s) = (if sim_brk_summ s0 \<noteq> 0
                       then let (r, s1) = sim_brk_test (C0 s0) (SWMASK CHR ''E'') s0 in (r \<noteq> 0, s1)
                       else (False, s0))
      in if stop then (SSEM_STOP_IBKPT, s)
         else let c = (C0 s + 1) AND AMASK;
                  s1 = s\<lparr>C0 := c\<rparr>;
                  s2 = s1\<lparr>C1 := ssem_Read c s1\<rparr>;
                  s3 = s2\<lparr>Staticisor := C1 s2 AND IMASK, sim_interval := sim_interval s2 - 1\<rparr>;
                  (reason, s4) = cpu_one_inst (Staticisor s3) s3
              in if reason \<noteq> 0 then (reason, s4)
                 else if sim_step s4 \<noteq> 0
                 then let k = sim_step s4 - 1 in (if k \<le> 0 then SCPE_STOP else 0, s4\<lparr>sim_step := k\<rparr>)
                 else (0, s4))"

definition ssem_step ::
  "nat \<Rightarrow> ('a ssem_scheme) unit_ops \<Rightarrow> 'a ssem_scheme \<Rightarrow> ev_fault + t_stat \<times> 'a ssem_scheme" where
  "ssem_step fuel ops s =
     (if sim_interval s \<le> 0
      then (case sim_process_event fuel ops s of
              Inl f \<Rightarrow> Inl f
            | Inr (reason, s1) \<Rightarrow> if reason \<noteq> 0 then Inr (reason, s1) else Inr (ssem_cycle s1))
      else Inr (ssem_cycle s))"

text \<open>\<open>step_unit\<close> is the unit of the step service, which \<^verbatim>\<open>sim_cancel_step\<close> takes off the queue.\<close>

definition ssem_sim_instr ::
  "nat \<Rightarrow> nat \<Rightarrow> uid \<Rightarrow> ('a ssem_scheme) unit_ops \<Rightarrow> 'a ssem_scheme \<Rightarrow>
   (ev_fault + t_stat \<times> 'a ssem_scheme) option" where
  "ssem_sim_instr n fuel step_unit ops s =
     instr_loop (ssem_step fuel ops) n (snd (sim_cancel ops step_unit s))"

definition ssem_cpu_reset :: "'a ssem_scheme \<Rightarrow> t_stat \<times> 'a ssem_scheme" where
  "ssem_cpu_reset s = (SCPE_OK, s\<lparr>sim_brk_types := SWMASK CHR ''E'', sim_brk_dflt := SWMASK CHR ''E''\<rparr>)"

definition ssem_cpu_ex :: "t_addr \<Rightarrow> 'a ssem_scheme \<Rightarrow> t_stat \<times> t_value option" where
  "ssem_cpu_ex addr s = (if addr \<ge> MEMSIZE then (SCPE_NXM, None) else (SCPE_OK, Some (ucast (ssem_Read addr s))))"

definition ssem_cpu_dep :: "t_value \<Rightarrow> t_addr \<Rightarrow> 'a ssem_scheme \<Rightarrow> t_stat \<times> 'a ssem_scheme" where
  "ssem_cpu_dep val addr s =
     (if addr \<ge> MEMSIZE then (SCPE_NXM, s) else (SCPE_OK, ssem_Write addr (ucast val) s))"

subsection \<open>The architecture\<close>

text \<open>
  The reference machine: a store of 32 words, an accumulator and a control number, all read as
  numbers, with the instruction list of the machine's description.
\<close>

datatype baby_instr = JMP nat | JRP nat | LDN nat | STO nat | SUB nat | CMP | STP

record baby =
  b_store :: "nat \<Rightarrow> int"
  b_acc :: int
  b_ci :: int

definition wrap32 :: "int \<Rightarrow> int" where
  "wrap32 x = signed_take_bit 31 x"

fun baby_exec :: "baby_instr \<Rightarrow> baby \<Rightarrow> baby option" where
  "baby_exec (JMP n) m = Some (m\<lparr>b_ci := b_store m n\<rparr>)"
| "baby_exec (JRP n) m = Some (m\<lparr>b_ci := wrap32 (b_ci m + b_store m n)\<rparr>)"
| "baby_exec (LDN n) m = Some (m\<lparr>b_acc := wrap32 (- b_store m n)\<rparr>)"
| "baby_exec (STO n) m = Some (m\<lparr>b_store := (b_store m)(n := b_acc m)\<rparr>)"
| "baby_exec (SUB n) m = Some (m\<lparr>b_acc := wrap32 (b_acc m - b_store m n)\<rparr>)"
| "baby_exec CMP m = Some (if b_acc m < 0 then m\<lparr>b_ci := wrap32 (b_ci m + 1)\<rparr> else m)"
| "baby_exec STP m = None"

definition baby_decode :: "int \<Rightarrow> baby_instr" where
  "baby_decode w =
     (let n = nat (w mod 32); op = w div 8192 mod 8 in
      if op = 0 then JMP n else if op = 1 then JRP n else if op = 2 then LDN n else if op = 3 then STO n
      else if op = 4 \<or> op = 5 then SUB n else if op = 6 then CMP else STP)"

definition baby_of :: "'a ssem_scheme \<Rightarrow> baby" where
  "baby_of s = \<lparr>b_store = (\<lambda>n. if n < 32 then sint (store_S s (of_nat n)) else 0),
     b_acc = sint (reg_A s), b_ci = sint (C0 s)\<rparr>"

definition baby_step :: "baby \<Rightarrow> baby option" where
  "baby_step m =
     (let m1 = m\<lparr>b_ci := (b_ci m + 1) mod 32\<rparr> in baby_exec (baby_decode (b_store m1 (nat (b_ci m1)))) m1)"

subsection \<open>The simulator implements the architecture\<close>

lemma ssem_masks: "(0x1F :: u32) = mask 5" "(7 :: u32) = mask 3" "(0xFFFFFFFF :: u32) = mask 32"
  "(0xE01F :: u32) = mask 5 OR push_bit 13 (mask 3)"
  by (simp_all add: mask_eq_exp_minus_1)

lemma and_MMASK [simp]: "(x :: u32) AND 0xFFFFFFFF = x"
  unfolding ssem_masks by (rule bit_word_eqI) (auto simp: bit_simps)

lemma ssem_Read_eq [simp]: "ssem_Read ea s = store_S s ea"
  by (simp add: ssem_Read_def)

lemma ssem_Write_eq: "ssem_Write ea dat s = s\<lparr>store_S := (store_S s)(ea := dat)\<rparr>"
  by (simp add: ssem_Write_def)

lemma ea_value: "unat (I_GETEA (x AND IMASK)) = nat (sint x mod 32)"
proof -
  have "I_GETEA (x AND IMASK) = take_bit 5 x"
    unfolding I_GETEA_def ssem_masks by (rule bit_word_eqI) (auto simp: bit_simps)
  moreover have "sint x mod 32 = take_bit 5 (uint x)"
    using take_bit_signed_take_bit [of 5 31 "uint x"] by (simp add: sint_uint take_bit_eq_mod)
  ultimately show ?thesis by (simp add: unat_eq_nat_uint unsigned_take_bit_eq)
qed

lemma op_value: "int (unat (I_GETOP (x AND IMASK))) = sint x div 8192 mod 8"
proof -
  have "I_GETOP (x AND IMASK) = take_bit 3 (drop_bit 13 x)"
    unfolding I_GETOP_def ssem_masks by (rule bit_word_eqI) (auto simp: bit_simps)
  moreover have "k div 8192 mod 8 = take_bit 3 (drop_bit 13 k)" for k :: int
    by (simp add: take_bit_eq_mod drop_bit_eq_div)
  then have "sint x div 8192 mod 8 = take_bit 3 (drop_bit 13 (uint x))"
    using take_bit_signed_take_bit [of 16 31 "uint x"] by (simp only: sint_uint) (simp add: take_bit_drop_bit)
  moreover have "take_bit 32 (uint x) = uint x" using unsigned_less [of x, where ?'a = int] by (simp add: take_bit_int_eq_self)
  ultimately show ?thesis unfolding of_nat_unat by (simp add: unsigned_take_bit_eq unsigned_drop_bit_eq)
qed

lemma sint_arith: "sint (x + y) = wrap32 (sint x + sint y)" "sint (x - y) = wrap32 (sint x - sint y)"
  "sint (- x) = wrap32 (- sint x)" for x y :: u32
  by (simp_all add: wrap32_def sint_word_ariths)

lemma baby_of_store: "unat ea < 32 \<Longrightarrow> b_store (baby_of s) (unat ea) = sint (store_S s ea)"
  by (simp add: baby_of_def)

lemma baby_of_write:
  "unat ea < 32 \<Longrightarrow> baby_of (s\<lparr>store_S := (store_S s)(ea := v)\<rparr>) =
     (baby_of s)\<lparr>b_store := (b_store (baby_of s))(unat ea := sint v)\<rparr>"
  by (auto simp: baby_of_def fun_eq_iff unat_of_nat take_bit_nat_eq_self)

lemma one_inst_refines:
  assumes "cpu_one_inst (x AND IMASK) s = (reason, s')"
  shows "baby_exec (baby_decode (sint x)) (baby_of s) = (if reason = 0 then Some (baby_of s') else None)"
    "reason = 0 \<or> reason = SSEM_STOP_STOP"
proof -
  let ?ea = "I_GETEA (x AND IMASK)" and ?op = "I_GETOP (x AND IMASK)"
  have ea: "nat (sint x mod 32) = unat ?ea" "unat ?ea < 32" using ea_value [of x] by (simp_all add: nat_less_iff)
  have op: "sint x div 8192 mod 8 = int (unat ?op)" using op_value [of x] by simp
  have d: "baby_decode (sint x) = (let n = unat ?ea in
      if ?op = 0 then JMP n else if ?op = 1 then JRP n else if ?op = 2 then LDN n else if ?op = 3 then STO n
      else if ?op = 4 \<or> ?op = 5 then SUB n else if ?op = 6 then CMP else STP)"
    unfolding baby_decode_def ea op by (simp add: Let_def word_uint_eq_iff [of ?op])
  have upd: "baby_of (s\<lparr>C0 := a\<rparr>) = (baby_of s)\<lparr>b_ci := sint a\<rparr>" "baby_of (s\<lparr>reg_A := a\<rparr>) = (baby_of s)\<lparr>b_acc := sint a\<rparr>" for a
    by (simp_all add: baby_of_def cong: if_cong)
  have sel: "b_acc (baby_of s) = sint (reg_A s)" "b_ci (baby_of s) = sint (C0 s)" by (simp_all add: baby_of_def)
  have one: "sint (1 :: u32) = 1" by simp
  show "baby_exec (baby_decode (sint x)) (baby_of s) = (if reason = 0 then Some (baby_of s') else None)"
    using assms unfolding d cpu_one_inst_def Let_def
    by (auto simp: upd sel sint_arith one baby_of_store [OF ea(2)] baby_of_write [OF ea(2)] ssem_Write_eq split: if_splits)
  show "reason = 0 \<or> reason = SSEM_STOP_STOP"
    using assms by (auto simp: cpu_one_inst_def Let_def split: if_splits)
qed

lemma next_ci: "sint ((x + 1) AND 0x1F) = (sint x + 1) mod 32" "unat ((x + 1) AND 0x1F) = nat ((sint x + 1) mod 32)" for x :: u32
proof -
  have "(x + 1) AND 0x1F = take_bit 5 (x + 1)" unfolding ssem_masks by (simp add: take_bit_eq_mask)
  then have u: "uint ((x + 1) AND 0x1F) = uint (x + 1) mod 32" by (simp only: unsigned_take_bit_eq) (simp add: take_bit_eq_mod)
  have "sint x mod 32 = uint x mod 32"
    using take_bit_signed_take_bit [of 5 31 "uint x"] by (simp add: sint_uint take_bit_eq_mod)
  then have "(sint x + 1) mod 32 = (uint x + 1) mod 32" by (metis mod_add_left_eq)
  moreover have "uint (x + 1) mod 32 = (uint x + 1) mod 32"
    by (simp add: uint_word_ariths mod_mod_cancel)
  ultimately have v: "uint ((x + 1) AND 0x1F) = (sint x + 1) mod 32" using u by simp
  then have "0 \<le> uint ((x + 1) AND 0x1F) \<and> uint ((x + 1) AND 0x1F) < 32" by simp
  then show "sint ((x + 1) AND 0x1F) = (sint x + 1) mod 32"
    using v by (simp add: sint_uint signed_take_bit_int_eq_self)
  show "unat ((x + 1) AND 0x1F) = nat ((sint x + 1) mod 32)" using v by (simp add: unat_eq_nat_uint)
qed

lemma ssem_cycle_refines:
  assumes "sim_brk_summ s = 0" "sim_step s = 0" "ssem_cycle s = (reason, s')"
  shows "baby_step (baby_of s) = (if reason = 0 then Some (baby_of s') else None)"
proof -
  let ?c = "(C0 s + 1) AND AMASK"
  let ?s3 = "s\<lparr>C0 := ?c, C1 := store_S s ?c, Staticisor := store_S s ?c AND IMASK, sim_interval := sim_interval s - 1\<rparr>"
  obtain r s4 where one: "cpu_one_inst (store_S s ?c AND IMASK) ?s3 = (r, s4)" by fastforce
  have st: "sim_step s4 = 0"
    using one assms(2) by (auto simp: cpu_one_inst_def Let_def ssem_Write_def split: if_splits)
  have "(reason, s') = (r, s4)" using assms one st unfolding ssem_cycle_def by (simp add: Let_def split: if_splits)
  moreover have "baby_of ?s3 = (baby_of s)\<lparr>b_ci := (b_ci (baby_of s) + 1) mod 32\<rparr>"
    by (simp add: baby_of_def next_ci cong: if_cong)
  moreover have "b_store (baby_of s) (nat ((b_ci (baby_of s) + 1) mod 32)) = sint (store_S s ?c)"
  proof -
    have b: "b_ci (baby_of s) = sint (C0 s)" by (simp add: baby_of_def)
    have "unat ?c < 32" unfolding next_ci by (simp add: nat_less_iff)
    then show ?thesis using baby_of_store [of ?c s] unfolding b next_ci(2) by simp
  qed
  ultimately show ?thesis using one_inst_refines(1) [OF one] by (simp add: baby_step_def Let_def)
qed

text \<open>Runs without events and breakpoints.\<close>

primrec baby_run :: "nat \<Rightarrow> baby \<Rightarrow> baby option" where
  "baby_run 0 m = Some m"
| "baby_run (Suc n) m = (case baby_step m of None \<Rightarrow> None | Some m' \<Rightarrow> baby_run n m')"

lemma cycle_keeps:
  assumes "sim_brk_summ s = 0" "sim_step s = 0" "ssem_cycle s = (reason, s')"
  shows "sim_brk_summ s' = 0" "sim_step s' = 0" "sim_interval s' = sim_interval s - 1" "reason = 0 \<or> reason = SSEM_STOP_STOP"
  using assms by (auto simp: ssem_cycle_def cpu_one_inst_def Let_def ssem_Write_def split: if_splits)

lemma ssem_steps_refine:
  "sim_brk_summ s = 0 \<Longrightarrow> sim_step s = 0 \<Longrightarrow> int n \<le> sim_interval s \<Longrightarrow>
   map_option baby_of (steps (ssem_step fuel ops) n s) = baby_run n (baby_of s)"
proof (induction n arbitrary: s)
  case (Suc n)
  obtain reason s' where c: "ssem_cycle s = (reason, s')" by fastforce
  have st: "ssem_step fuel ops s = Inr (reason, s')" using Suc.prems(3) c by (simp add: ssem_step_def)
  note k = cycle_keeps [OF Suc.prems(1,2) c] and r = ssem_cycle_refines [OF Suc.prems(1,2) c]
  show ?case
    using Suc.IH [of s'] k st r Suc.prems(3) by (cases "reason = 0") auto
qed simp

subsection \<open>Every run keeps the breakpoint table well formed\<close>

lemma queue_free_brk_inv: "queue_free brk_inv"
  by (simp add: queue_free_def brk_inv_def chains_def)

lemma sim_brk_test_inv: "brk_inv s \<Longrightarrow> brk_inv (snd (sim_brk_test loc btyp s))"
  by (rule sim_brk_test_refines [of s loc btyp]) simp_all

lemma brk_inv_ssem [simp]:
  "brk_inv (s\<lparr>store_S := a\<rparr>) = brk_inv s" "brk_inv (s\<lparr>reg_A := w\<rparr>) = brk_inv s" "brk_inv (s\<lparr>C0 := w\<rparr>) = brk_inv s"
  "brk_inv (s\<lparr>C1 := w\<rparr>) = brk_inv s" "brk_inv (s\<lparr>Staticisor := w\<rparr>) = brk_inv s" "brk_inv (s\<lparr>sim_step := k\<rparr>) = brk_inv s"
  "brk_inv (s\<lparr>sim_interval := i\<rparr>) = brk_inv s"
  by (simp_all add: brk_inv_def chains_def)

lemma one_inst_inv: "brk_inv (snd (cpu_one_inst ir s)) = brk_inv s"
  by (simp add: cpu_one_inst_def Let_def ssem_Write_def)

lemma ssem_cycle_inv: "brk_inv s \<Longrightarrow> brk_inv (snd (ssem_cycle s))"
  using sim_brk_test_inv [of s "C0 s" "SWMASK CHR ''E''"]
  by (simp add: ssem_cycle_def Let_def case_prod_beta one_inst_inv)

interpretation ssem: cpu "ssem_step fuel ops" "\<lambda>s. units_keep brk_inv ops \<and> brk_inv s"
proof unfold_locales
  fix s :: "'a ssem_scheme" and reason s'
  assume inv: "units_keep brk_inv ops \<and> brk_inv s" and step: "ssem_step fuel ops s = Inr (reason, s')"
  have ev: "sim_process_event fuel ops s = Inr (r, e) \<Longrightarrow> brk_inv e" for r e
    using process_event_keeps [OF _ queue_free_brk_inv] inv by blast
  have cyc: "ssem_cycle e = (r, e') \<Longrightarrow> brk_inv e \<Longrightarrow> brk_inv e'" for e e' r
    using ssem_cycle_inv [of e] by simp
  from step inv show "units_keep brk_inv ops \<and> brk_inv s'"
    by (auto simp: ssem_step_def split: if_splits sum.splits prod.splits dest: cyc ev)
qed

subsection \<open>Examine and deposit\<close>

lemma ssem_dep_ex:
  assumes "ssem_cpu_dep v a s = (SCPE_OK, s')"
  shows "ssem_cpu_ex a s' = (SCPE_OK, Some (take_bit 32 v))" "b \<noteq> a \<Longrightarrow> ssem_cpu_ex b s' = ssem_cpu_ex b s"
proof -
  have "ucast (ucast v :: u32) = take_bit 32 v" by (rule bit_word_eqI) (auto simp: bit_simps)
  then show "ssem_cpu_ex a s' = (SCPE_OK, Some (take_bit 32 v))" "b \<noteq> a \<Longrightarrow> ssem_cpu_ex b s' = ssem_cpu_ex b s"
    using assms by (auto simp: ssem_cpu_dep_def ssem_cpu_ex_def ssem_Write_eq split: if_splits)
qed

subsection \<open>Properties\<close>

text \<open>
  C11. Refinement: as long as no event is due, no breakpoint is set and no step count is active, the
  simulator's instruction loop and the architecture, a machine on integers with wrapping arithmetic,
  stay in step: after \<open>n\<close> instructions they agree on store, accumulator and control, or both
  have stopped.
\<close>

theorem ssem_implements_architecture:
  assumes "sim_brk_summ s = 0" "sim_step s = 0" "int n \<le> sim_interval s"
  shows "map_option baby_of (steps (ssem_step fuel ops) n s) = baby_run n (baby_of s)"
  using assms by (rule ssem_steps_refine)

text \<open>A machine with \<open>LDN 28; SUB 29; STO 30; LDN 30; STP\<close> in locations 1 to 5, which adds 28 and 29.\<close>

definition ssem_adder :: "u32 \<Rightarrow> u32 \<Rightarrow> ssem" where
  "ssem_adder a b =
     \<lparr>sim_clock_queue = [], sim_interval = NOQUEUE_WAIT, noqueue_time = NOQUEUE_WAIT, sim_vm_time = 0, sim_rtime = 0,
      stop_cpu = False, sim_processing_event = False, usecs_remaining = (\<lambda>u. 0),
      sim_brk_summ = 0, sim_brk_types = 0x10, sim_brk_dflt = 0x10, sim_brk_match_type = 0, sim_brk_match_addr = 0,
      sim_brk_act = (\<lambda>n. None), sim_brk_act_buf = (\<lambda>n. None), sim_do_depth = 0,
      sim_brk_tab = [], sim_brk_ent = 0, sim_brk_lnt = 0, sim_brk_ins = 0,
      store_S = (\<lambda>x. if x = 1 then 0x401C else if x = 2 then 0x801D else if x = 3 then 0x601E else
         if x = 4 then 0x401E else if x = 5 then 0xE000 else if x = 28 then a else if x = 29 then b else 0),
      reg_A = 0, C0 = 0, C1 = 0, Staticisor = 0, sim_step = 0\<rparr>"

definition no_units :: "ssem unit_ops" where
  "no_units = \<lparr>action = (\<lambda>u. None), cancel = (\<lambda>u e. (False, e)), tmr_unit = (\<lambda>u e. False),
     sim_timer_is_active = (\<lambda>u e. False), sim_timer_cancel = (\<lambda>u e. (SCPE_OK, e)),
     sim_timer_activate = (\<lambda>u t e. (SCPE_OK, e)), sim_timer_activate_after = (\<lambda>u d e. (SCPE_OK, e)),
     sim_timer_activate_time = (\<lambda>u e. -1), sim_timer_inst_per_sec = (\<lambda>e. 1)\<rparr>"

theorem ssem_implements_architecture_witness:
  "map_option b_acc (map_option baby_of (steps (ssem_step 0 no_units) 4 (ssem_adder 20 22))) = Some 42"
proof -
  have "map_option b_acc (baby_run 4 (baby_of (ssem_adder 20 22))) = Some 42"
    by (simp add: numeral_eq_Suc baby_of_def ssem_adder_def) (simp add: baby_step_def baby_decode_def Let_def wrap32_def)
  moreover have "sim_brk_summ (ssem_adder 20 22) = 0" "sim_step (ssem_adder 20 22) = 0" "int 4 \<le> sim_interval (ssem_adder 20 22)"
    by (simp_all add: ssem_adder_def)
  ultimately show ?thesis using ssem_implements_architecture [of "ssem_adder 20 22" 4 0 no_units] by simp
qed

end
