(* ===== verification/Simulation.thy ===== *)
theory Simulation
  imports Prelude
begin

text \<open>
  Refinement between step relations.  A concrete relation with an invariant simulates an abstract one
  when every concrete step from a state that satisfies the invariant keeps it and is, seen through
  the abstraction function, a sequence of abstract steps; then so is every run.
\<close>

locale simulation =
  fixes step :: "'s \<Rightarrow> 's \<Rightarrow> bool"
    and spec_step :: "'a \<Rightarrow> 'a \<Rightarrow> bool"
    and abs_of :: "'s \<Rightarrow> 'a"
    and inv :: "'s \<Rightarrow> bool"
  assumes inv_step: "inv s \<Longrightarrow> step s s' \<Longrightarrow> inv s'"
    and simulates: "inv s \<Longrightarrow> step s s' \<Longrightarrow> spec_step (abs_of s) (abs_of s')"
begin

lemma inv_run: "step\<^sup>*\<^sup>* s s' \<Longrightarrow> inv s \<Longrightarrow> inv s'"
  by (induction rule: rtranclp_induct) (auto dest: inv_step)

lemma run_simulates:
  assumes "step\<^sup>*\<^sup>* s s'" "inv s"
  shows "spec_step\<^sup>*\<^sup>* (abs_of s) (abs_of s')"
  using assms
proof (induction rule: rtranclp_induct)
  case (step s1 s2)
  from simulates [OF inv_run [OF step(1,4)] step(2)] step(3) [OF step(4)] show ?case by simp
qed simp

end

end
