(* ===== verification/TailQueue.thy ===== *)
theory TailQueue
  imports Simulation
begin

text \<open>
  The tail queue \<^verbatim>\<open>sim_tailq.c\<close>: a ring buffer between any number of producers and one consumer
  that uses no lock.  Every access to shared memory is a step of its own, so that the relation
  \<open>tq_step\<close> has all interleavings of the threads; the atomic operations are taken to be
  sequentially consistent.  The counters have the width \<open>'w\<close> of \<^verbatim>\<open>sim_atomic_type_t\<close> and wrap
  around.

  Shown: in every interleaving the queue is a bounded first-in first-out queue; calls that run
  alone return, with an item or for lack of one; and \<^verbatim>\<open>sim_tailq_destroy\<close> frees items that
  the consumer has taken.
\<close>

unbundle bit_operations_syntax

subsection \<open>Data\<close>

text \<open>An empty slot is \<^const>\<open>None\<close>, the null pointer.\<close>

record ('c, 'i) tailq =
  prod_head :: "'c"
  prod_tail :: "'c"
  prod_size :: nat
  prod_mask :: nat
  cons_head :: "'c"
  cons_tail :: "'c"
  cons_size :: nat
  cons_mask :: nat
  slots :: "'i option list"

abbreviation (input) DEFAULT_TAILQ_CAPACITY :: nat where "DEFAULT_TAILQ_CAPACITY \<equiv> 256"
abbreviation (input) MAX_ENQUEUE_RETRIES :: nat where "MAX_ENQUEUE_RETRIES \<equiv> 4096"

definition is_power_of_2 :: "nat \<Rightarrow> bool" where
  "is_power_of_2 n \<longleftrightarrow> n \<noteq> 0 \<and> n AND (n - 1) = 0"

definition sim_tailq_init_capacity :: "nat \<Rightarrow> ('w::len word, 'i) tailq option" where
  "sim_tailq_init_capacity capacity =
     (if capacity < 2 \<or> \<not> is_power_of_2 capacity then None
      else Some \<lparr>prod_head = 0, prod_tail = 0, prod_size = capacity, prod_mask = capacity - 1, cons_head = 0,
                 cons_tail = 0, cons_size = capacity, cons_mask = capacity - 1, slots = replicate capacity None\<rparr>)"

definition sim_tailq_init :: "('w::len word, 'i) tailq option" where
  "sim_tailq_init = sim_tailq_init_capacity DEFAULT_TAILQ_CAPACITY"

text \<open>What \<^verbatim>\<open>sim_tailq_destroy\<close> passes to \<^verbatim>\<open>free_item\<close>, in this order.\<close>

definition sim_tailq_destroy :: "('c, 'i) tailq \<Rightarrow> 'i list" where
  "sim_tailq_destroy tq = map the (filter (\<lambda>i. i \<noteq> None) (take (prod_size tq) (slots tq)))"

definition sim_tailq_empty :: "('w::len word, 'i) tailq \<Rightarrow> bool" where
  "sim_tailq_empty tq \<longleftrightarrow> cons_head tq = prod_tail tq"

definition sim_tailq_count :: "('w::len word, 'i) tailq \<Rightarrow> 'w word" where
  "sim_tailq_count tq = (of_nat (prod_size tq) + prod_tail tq - cons_tail tq) AND of_nat (prod_mask tq)"

subsection \<open>Threads\<close>

text \<open>
  Where a producer is in \<^verbatim>\<open>sim_tailq_enqueue\<close>, named after the access it does next, with its local
  variables: the item, \<^verbatim>\<open>retries\<close>, \<^verbatim>\<open>prod_head\<close>, \<^verbatim>\<open>cons_tail\<close>.  The natural numbers at the
  end are not part of the program: how many slots had been reserved when \<^verbatim>\<open>prod_head\<close> was read, and
  how many items taken when \<^verbatim>\<open>cons_tail\<close> was read, or the number of the slot that was reserved.
\<close>

datatype ('c, 'i) producer =
    Outside
  | Load_head 'i nat
  | Load_tail 'i nat 'c nat
  | Cas_head 'i nat 'c nat nat
  | Reload_head 'i nat 'c 'c
  | Reload_tail 'i nat 'c 'c 'c
  | Store_slot 'i 'c nat
  | Await_tail 'c nat
  | Store_tail 'c nat
  | Enqueued bool

text \<open>Where the consumer is in \<^verbatim>\<open>sim_tailq_dequeue\<close>.\<close>

datatype ('c, 'i) consumer =
    Away
  | Get_head
  | Get_tail 'c
  | Put_head 'c
  | Get_slot 'c
  | Put_tail 'c "'i option"
  | Dequeued "'i option"

text \<open>
  The queue with its threads.  The last three components record the run: the items for which a slot
  was reserved, how many of them are published in \<^verbatim>\<open>prod_tail\<close>, and what the consumer took.
\<close>

record ('c, 'i) tq_sys =
  tq :: "('c, 'i) tailq"
  producers :: "nat \<Rightarrow> ('c, 'i) producer"
  the_consumer :: "('c, 'i) consumer"
  reserved :: "'i list"
  published :: nat
  taken :: "'i option list"

definition tq_start :: "('c, 'i) tailq \<Rightarrow> ('c, 'i) tq_sys" where
  "tq_start q = \<lparr>tq = q, producers = (\<lambda>p. Outside), the_consumer = Away, reserved = [], published = 0, taken = []\<rparr>"

definition set_producer :: "nat \<Rightarrow> ('c, 'i) producer \<Rightarrow> ('c, 'i) tq_sys \<Rightarrow> ('c, 'i) tq_sys" where
  "set_producer p c s = s\<lparr>producers := (producers s)(p := c)\<rparr>"

definition enqueue_call :: "nat \<Rightarrow> 'i \<Rightarrow> ('c, 'i) tq_sys \<Rightarrow> ('c, 'i) tq_sys" where
  "enqueue_call p x s = set_producer p (Load_head x 0) s"

definition dequeue_call :: "('c, 'i) tq_sys \<Rightarrow> ('c, 'i) tq_sys" where
  "dequeue_call s = s\<lparr>the_consumer := Get_head\<rparr>"

text \<open>One access to shared memory by producer \<open>p\<close>, and what it computes until the next one.\<close>

definition sim_tailq_enqueue :: "nat \<Rightarrow> ('w::len word, 'i) tq_sys \<Rightarrow> ('w word, 'i) tq_sys" where
  "sim_tailq_enqueue p s =
     (case producers s p of
        Outside \<Rightarrow> s
      | Load_head x retries \<Rightarrow> set_producer p (Load_tail x retries (prod_head (tq s)) (length (reserved s))) s
      | Load_tail x retries head n \<Rightarrow>
          (let tail = cons_tail (tq s); available = tail + of_nat (prod_size (tq s)) - (head + 1)
           in set_producer p (if available <s 1 then Reload_head x retries head tail
                              else Cas_head x retries head n (length (taken s))) s)
      | Reload_head x retries head tail \<Rightarrow> set_producer p (Reload_tail x retries head tail (prod_head (tq s))) s
      | Reload_tail x retries head tail head' \<Rightarrow>
          set_producer p (if head = head' \<and> tail = cons_tail (tq s)
            then if retries + 1 < MAX_ENQUEUE_RETRIES then Load_head x (retries + 1) else Enqueued False
            else Load_head x retries) s
      | Cas_head x retries head n c \<Rightarrow>
          (if prod_head (tq s) = head
           then set_producer p (Store_slot x head (length (reserved s)))
             (s\<lparr>tq := (tq s)\<lparr>prod_head := head + 1\<rparr>, reserved := reserved s @ [x]\<rparr>)
           else set_producer p (Load_head x retries) s)
      | Store_slot x head n \<Rightarrow>
          set_producer p (Await_tail head n)
            (s\<lparr>tq := (tq s)\<lparr>slots := (slots (tq s))[unat (head AND of_nat (prod_mask (tq s))) := Some x]\<rparr>\<rparr>)
      | Await_tail head n \<Rightarrow> if prod_tail (tq s) \<noteq> head then s else set_producer p (Store_tail head n) s
      | Store_tail head n \<Rightarrow>
          set_producer p (Enqueued True) (s\<lparr>tq := (tq s)\<lparr>prod_tail := head + 1\<rparr>, published := n + 1\<rparr>)
      | Enqueued b \<Rightarrow> s)"

definition sim_tailq_dequeue :: "('w::len word, 'i) tq_sys \<Rightarrow> ('w word, 'i) tq_sys" where
  "sim_tailq_dequeue s =
     (case the_consumer s of
        Away \<Rightarrow> s
      | Get_head \<Rightarrow> s\<lparr>the_consumer := Get_tail (cons_head (tq s))\<rparr>
      | Get_tail head \<Rightarrow> s\<lparr>the_consumer := (if head = prod_tail (tq s) then Dequeued None else Put_head head)\<rparr>
      | Put_head head \<Rightarrow> s\<lparr>tq := (tq s)\<lparr>cons_head := head + 1\<rparr>, the_consumer := Get_slot head\<rparr>
      | Get_slot head \<Rightarrow>
          s\<lparr>the_consumer := Put_tail head (slots (tq s) ! unat (head AND of_nat (cons_mask (tq s))))\<rparr>
      | Put_tail head item \<Rightarrow>
          s\<lparr>tq := (tq s)\<lparr>cons_tail := head + 1\<rparr>, the_consumer := Dequeued item, taken := taken s @ [item]\<rparr>
      | Dequeued item \<Rightarrow> s)"

text \<open>
  The one thing that a run must not do: let other producers reserve \<open>2 ^ w\<close> slots between a
  producer's load of \<^verbatim>\<open>prod_head\<close> and its compare-and-swap, which would not notice.
\<close>

definition overtaken :: "nat \<Rightarrow> ('w::len word, 'i) tq_sys \<Rightarrow> bool" where
  "overtaken p s = (case producers s p of
     Cas_head x r head n c \<Rightarrow> length (reserved s) \<ge> n + 2 ^ LENGTH('w) | _ \<Rightarrow> False)"

inductive tq_step :: "('w::len word, 'i) tq_sys \<Rightarrow> ('w word, 'i) tq_sys \<Rightarrow> bool" where
  Enqueue_call: "producers s p = Outside \<or> producers s p = Enqueued b \<Longrightarrow> tq_step s (enqueue_call p x s)"
| Enqueue: "\<not> overtaken p s \<Longrightarrow> tq_step s (sim_tailq_enqueue p s)"
| Dequeue_call: "the_consumer s = Away \<or> the_consumer s = Dequeued i \<Longrightarrow> tq_step s (dequeue_call s)"
| Dequeue: "tq_step s (sim_tailq_dequeue s)"


lemma and_pred_rec:
  fixes n :: nat assumes "n \<noteq> 0"
  shows "n AND (n - 1) = (if odd n then n - 1 else 2 * (n div 2 AND (n div 2 - 1)))"
proof (cases "odd n")
  case True
  then obtain k where "n = 2 * k + 1" by (elim oddE)
  then show ?thesis using and_rec [of "2 * k + 1" "2 * k"] by simp
next
  case False
  then obtain k where k: "n = 2 * k" by (auto elim: evenE)
  with assms have "k \<noteq> 0" by simp
  then have "odd (2 * k - 1)" "(2 * k - 1) div 2 = k - 1" by presburger+
  with k show ?thesis by (simp add: and_rec [of "2 * k"])
qed

lemma is_power_of_2_iff: "is_power_of_2 n \<longleftrightarrow> (\<exists>m. n = 2 ^ m)"
proof (induction n rule: less_induct)
  case (less n)
  show ?case
  proof (cases "n \<le> 1")
    case True
    then show ?thesis by (cases "n = 0") (auto simp: is_power_of_2_def intro: exI [of _ 0])
  next
    case False
    show ?thesis
    proof (cases "odd n")
      case True
      with False and_pred_rec [of n] have "\<not> is_power_of_2 n" by (auto simp: is_power_of_2_def)
      moreover have "n \<noteq> 2 ^ m" for m using True False by (cases m) auto
      ultimately show ?thesis by blast
    next
      case even: False
      with False and_pred_rec [of n] have "is_power_of_2 n \<longleftrightarrow> is_power_of_2 (n div 2)"
        by (auto simp: is_power_of_2_def elim: evenE)
      also have "\<dots> \<longleftrightarrow> (\<exists>m. n div 2 = 2 ^ m)" using less False by simp
      also have "\<dots> \<longleftrightarrow> (\<exists>m. n = 2 ^ m)"
      proof
        assume "\<exists>m. n div 2 = 2 ^ m"
        then obtain m where "n div 2 = 2 ^ m" by blast
        with even have "n = 2 ^ Suc m" by (auto elim: evenE)
        then show "\<exists>m. n = 2 ^ m" by blast
      next
        assume "\<exists>m. n = 2 ^ m"
        then obtain m where "n = 2 ^ m" by blast
        with False show "\<exists>m. n div 2 = 2 ^ m" by (cases m) auto
      qed
      finally show ?thesis .
    qed
  qed
qed

subsection \<open>Counters\<close>

text \<open>The index of a slot, and when two counters that may have wrapped around agree.\<close>

lemma ring_index:
  assumes "m < LENGTH('w)"
  shows "unat (of_nat n AND of_nat (2 ^ m - 1) :: 'w::len word) = n mod 2 ^ m"
proof -
  have "(of_nat (2 ^ m - 1) :: 'w word) = mask m" by (simp add: mask_eq_exp_minus_1)
  then have "(of_nat n AND of_nat (2 ^ m - 1) :: 'w word) = take_bit m (of_nat n)" by (simp add: take_bit_eq_mask)
  moreover have "unat (take_bit m (of_nat n :: 'w word)) = take_bit (min m LENGTH('w)) n"
    by (simp only: unsigned_take_bit_eq unsigned_of_nat of_nat_id take_bit_take_bit)
  ultimately show ?thesis using assms by (simp add: min_def take_bit_eq_mod)
qed

lemma counter_eq:
  assumes "(of_nat n :: 'w::len word) = of_nat k" "n \<le> k" "k < n + 2 ^ LENGTH('w)"
  shows "n = k"
proof -
  have "k mod 2 ^ LENGTH('w) = n mod 2 ^ LENGTH('w)" using assms(1) by (metis unat_of_nat)
  then have "2 ^ LENGTH('w) dvd k - n" using assms(2) by (metis mod_eq_dvd_iff_nat)
  moreover have "k - n < 2 ^ LENGTH('w)" using assms(2,3) by linarith
  ultimately have "k - n = 0" using dvd_imp_le by fastforce
  with assms(2) show ?thesis by simp
qed

lemma slot_differs:
  assumes "n mod s = k mod s" "n < k + s" "k < n + s"
  shows "n = (k::nat)"
proof (cases "n \<le> k")
  case True
  with assms(1) have "s dvd k - n" by (metis mod_eq_dvd_iff_nat)
  with assms(3) True show ?thesis by (auto dest: dvd_imp_le)
next
  case False
  with assms(1) have "s dvd n - k" by (metis mod_eq_dvd_iff_nat nat_le_linear)
  with assms(2) False show ?thesis by (auto dest: dvd_imp_le)
qed

lemma none_available:
  assumes "c + s = n + 1" "1 < LENGTH('w)"
  shows "of_nat c + of_nat s - (of_nat n + 1) <s (1 :: 'w::len word)"
proof -
  have "(of_nat c + of_nat s :: 'w word) = of_nat n + 1" using arg_cong [OF assms(1), of "of_nat :: nat \<Rightarrow> 'w word"] by simp
  then show ?thesis using assms(2) by (simp add: word_sless_alt)
qed

lemma some_available:
  assumes "n + 1 < c + s" "c \<le> n" "s \<le> 2 ^ (LENGTH('w) - 1)" "1 < LENGTH('w)"
  shows "\<not> of_nat c + of_nat s - (of_nat n + 1) <s (1 :: 'w::len word)"
proof -
  define v where "v = c + s - (n + 1)"
  have v: "c + s = n + 1 + v" "v < s" "0 < v" using assms by (simp_all add: v_def)
  have "(of_nat c + of_nat s :: 'w word) = of_nat n + 1 + of_nat v"
    using arg_cong [OF v(1), of "of_nat :: nat \<Rightarrow> 'w word"] by simp
  then have "of_nat c + of_nat s - (of_nat n + 1) = (of_nat v :: 'w word)" by simp
  moreover have "sint (of_nat v :: 'w word) = int v"
  proof -
    have "int v < 2 ^ (LENGTH('w) - 1)" using v(2) assms(3) by (metis less_le_trans of_nat_less_iff of_nat_numeral of_nat_power)
    moreover have "- (2 ^ (LENGTH('w) - 1)) \<le> int v" by (rule order_trans [of _ 0]) simp_all
    ultimately show ?thesis by (simp add: signed_of_nat signed_take_bit_int_eq_self)
  qed
  ultimately show ?thesis using v(3) assms(4) by (simp add: word_sless_alt)
qed


subsection \<open>Invariant\<close>

text \<open>
  What holds of a producer: \<open>sz\<close> slots \<open>sl\<close>, reserved items \<open>lg\<close>, \<open>T\<close> of them published,
  \<open>C\<close> items taken.
\<close>

fun producer_ok :: "nat \<Rightarrow> 'i option list \<Rightarrow> 'i list \<Rightarrow> nat \<Rightarrow> nat \<Rightarrow> ('w::len word, 'i) producer \<Rightarrow> bool" where
  "producer_ok sz sl lg T C (Load_tail x r h n) \<longleftrightarrow> h = of_nat n \<and> n \<le> length lg \<and> n < C + sz"
| "producer_ok sz sl lg T C (Cas_head x r h n c) \<longleftrightarrow>
     h = of_nat n \<and> n \<le> length lg \<and> c \<le> C \<and> (c \<le> n \<longrightarrow> n + 1 < c + sz)"
| "producer_ok sz sl lg T C (Store_slot x h n) \<longleftrightarrow> h = of_nat n \<and> T \<le> n \<and> n < length lg \<and> lg ! n = x"
| "producer_ok sz sl lg T C (Await_tail h n) \<longleftrightarrow>
     h = of_nat n \<and> T \<le> n \<and> n < length lg \<and> sl ! (n mod sz) = Some (lg ! n)"
| "producer_ok sz sl lg T C (Store_tail h n) \<longleftrightarrow>
     h = of_nat n \<and> n = T \<and> n < length lg \<and> sl ! (n mod sz) = Some (lg ! n)"
| "producer_ok sz sl lg T C _ \<longleftrightarrow> True"

text \<open>The slot that a producer has reserved and not yet published.\<close>

fun ticket :: "('c, 'i) producer \<Rightarrow> nat option" where
  "ticket (Store_slot x h n) = Some n"
| "ticket (Await_tail h n) = Some n"
| "ticket (Store_tail h n) = Some n"
| "ticket _ = None"

fun consumer_ok :: "'i list \<Rightarrow> nat \<Rightarrow> nat \<Rightarrow> ('w::len word, 'i) consumer \<Rightarrow> bool" where
  "consumer_ok lg T C (Get_tail h) \<longleftrightarrow> h = of_nat C"
| "consumer_ok lg T C (Put_head h) \<longleftrightarrow> h = of_nat C \<and> C < T"
| "consumer_ok lg T C (Get_slot h) \<longleftrightarrow> h = of_nat C \<and> C < T"
| "consumer_ok lg T C (Put_tail h i) \<longleftrightarrow> h = of_nat C \<and> C < T \<and> i = Some (lg ! C)"
| "consumer_ok lg T C _ \<longleftrightarrow> True"

text \<open>By how much \<^verbatim>\<open>cons_head\<close> is ahead of \<^verbatim>\<open>cons_tail\<close>.\<close>

fun ahead :: "('c, 'i) consumer \<Rightarrow> nat" where
  "ahead (Get_slot h) = 1"
| "ahead (Put_tail h i) = 1"
| "ahead _ = 0"

definition ring_shape :: "('w::len word, 'i) tailq \<Rightarrow> bool" where
  "ring_shape q \<longleftrightarrow> 1 < LENGTH('w) \<and> (\<exists>m < LENGTH('w). prod_size q = 2 ^ m) \<and> prod_mask q = prod_size q - 1 \<and>
     cons_mask q = prod_size q - 1 \<and> length (slots q) = prod_size q"

definition counters_ok :: "('w::len word, 'i) tq_sys \<Rightarrow> bool" where
  "counters_ok s \<longleftrightarrow>
     prod_head (tq s) = of_nat (length (reserved s)) \<and> prod_tail (tq s) = of_nat (published s) \<and>
     cons_head (tq s) = of_nat (length (taken s) + ahead (the_consumer s)) \<and> cons_tail (tq s) = of_nat (length (taken s)) \<and>
     length (taken s) + ahead (the_consumer s) \<le> published s \<and> published s \<le> length (reserved s) \<and>
     length (reserved s) < length (taken s) + prod_size (tq s)"

definition slots_ok :: "('w::len word, 'i) tq_sys \<Rightarrow> bool" where
  "slots_ok s \<longleftrightarrow> (\<forall>k < published s. length (reserved s) \<le> k + prod_size (tq s) \<longrightarrow>
     slots (tq s) ! (k mod prod_size (tq s)) = Some (reserved s ! k))"

definition threads_ok :: "('w::len word, 'i) tq_sys \<Rightarrow> bool" where
  "threads_ok s \<longleftrightarrow>
     (\<forall>p. producer_ok (prod_size (tq s)) (slots (tq s)) (reserved s) (published s) (length (taken s)) (producers s p)) \<and>
     (\<forall>p p' n. ticket (producers s p) = Some n \<longrightarrow> ticket (producers s p') = Some n \<longrightarrow> p = p') \<and>
     consumer_ok (reserved s) (published s) (length (taken s)) (the_consumer s)"

definition tq_inv :: "('w::len word, 'i) tq_sys \<Rightarrow> bool" where
  "tq_inv s \<longleftrightarrow> ring_shape (tq s) \<and> counters_ok s \<and> slots_ok s \<and> threads_ok s \<and>
     taken s = map Some (take (length (taken s)) (reserved s))"

lemma tq_invI: "ring_shape (tq s) \<Longrightarrow> counters_ok s \<Longrightarrow> slots_ok s \<Longrightarrow> threads_ok s \<Longrightarrow>
    taken s = map Some (take (length (taken s)) (reserved s)) \<Longrightarrow> tq_inv s"
  by (simp add: tq_inv_def)

lemma tq_invD:
  assumes "tq_inv s"
  shows "ring_shape (tq s)" "counters_ok s" "slots_ok s" "threads_ok s" "taken s = map Some (take (length (taken s)) (reserved s))"
  using assms by (simp_all add: tq_inv_def)

lemma producerD: "tq_inv s \<Longrightarrow>
    producer_ok (prod_size (tq s)) (slots (tq s)) (reserved s) (published s) (length (taken s)) (producers s p)"
  by (simp add: tq_inv_def threads_ok_def)

lemma ticketD: "tq_inv s \<Longrightarrow> ticket (producers s p) = Some n \<Longrightarrow> published s \<le> n \<and> n < length (reserved s)"
  using producerD [of s p] by (cases "producers s p") auto

text \<open>A producer that changes only its own place.\<close>

lemma set_producer_inv:
  assumes inv: "tq_inv s"
    and ok: "producer_ok (prod_size (tq s)) (slots (tq s)) (reserved s) (published s) (length (taken s)) c"
    and tick: "\<And>n p'. ticket c = Some n \<Longrightarrow> p' \<noteq> p \<Longrightarrow> ticket (producers s p') \<noteq> Some n"
  shows "tq_inv (set_producer p c s)"
proof (rule tq_invI)
  let ?ps = "(producers s)(p := c)"
  have tick_eq: "q = q'" if "ticket (producers s q) = Some n" "ticket (producers s q') = Some n" for q q' n
    using tq_invD(4) [OF inv] that by (simp add: threads_ok_def)
  have "q = q'" if "ticket (?ps q) = Some n" "ticket (?ps q') = Some n" for q q' n
    using that tick tick_eq by (metis fun_upd_apply)
  moreover have "producer_ok (prod_size (tq s)) (slots (tq s)) (reserved s) (published s) (length (taken s)) (?ps q)" for q
    using producerD [OF inv, of q] ok by simp
  ultimately show "threads_ok (set_producer p c s)"
    using tq_invD(4) [OF inv] by (simp add: threads_ok_def set_producer_def del: fun_upd_apply)
qed (use tq_invD [OF inv] in \<open>simp_all add: set_producer_def counters_ok_def slots_ok_def\<close>)

text \<open>Reserving a slot.\<close>

lemma reserve_inv:
  assumes inv: "tq_inv s" and room: "length (reserved s) + 1 < length (taken s) + prod_size (tq s)"
  shows "tq_inv (s\<lparr>tq := (tq s)\<lparr>prod_head := prod_head (tq s) + 1\<rparr>, reserved := reserved s @ [x]\<rparr>)" (is "tq_inv ?s")
proof (rule tq_invI)
  note D = tq_invD [OF inv]
  show "ring_shape (tq ?s)" using D(1) by (simp add: ring_shape_def)
  show "counters_ok ?s" using D(2) room by (simp add: counters_ok_def)
  have le: "published s \<le> length (reserved s)" "length (taken s) \<le> length (reserved s)" using D(2) by (simp_all add: counters_ok_def)
  then show "slots_ok ?s" using D(3) by (simp add: slots_ok_def nth_append)
  show "taken ?s = map Some (take (length (taken ?s)) (reserved ?s))" using D(5) le by simp
  have "producer_ok sz sl lg T C c \<Longrightarrow> producer_ok sz sl (lg @ [x]) T C c" for sz sl lg T C and c :: "('a word, 'b) producer"
    by (cases c) (auto simp: nth_append)
  moreover have "consumer_ok lg T C c \<Longrightarrow> T \<le> length lg \<Longrightarrow> consumer_ok (lg @ [x]) T C c" for lg T C and c :: "('a word, 'b) consumer"
    by (cases c) (auto simp: nth_append)
  ultimately show "threads_ok ?s" using D(4) le by (simp add: threads_ok_def)
qed

text \<open>Filling the slot.\<close>

lemma ring_size:
  fixes s :: "('w::len word, 'i) tq_sys"
  assumes "tq_inv s"
  shows "0 < prod_size (tq s)" "prod_size (tq s) \<le> 2 ^ LENGTH('w)"
    "unat (of_nat n AND of_nat (prod_mask (tq s)) :: 'w word) = n mod prod_size (tq s)"
    "unat (of_nat n AND of_nat (cons_mask (tq s)) :: 'w word) = n mod prod_size (tq s)"
proof -
  obtain m where m: "m < LENGTH('w)" "prod_size (tq s) = 2 ^ m" "prod_mask (tq s) = 2 ^ m - 1" "cons_mask (tq s) = 2 ^ m - 1"
    using tq_invD(1) [OF assms] by (auto simp: ring_shape_def)
  then show "0 < prod_size (tq s)" "prod_size (tq s) \<le> 2 ^ LENGTH('w)" by simp_all
  show "unat (of_nat n AND of_nat (prod_mask (tq s)) :: 'w word) = n mod prod_size (tq s)"
    "unat (of_nat n AND of_nat (cons_mask (tq s)) :: 'w word) = n mod prod_size (tq s)"
    unfolding m(2-4) by (rule ring_index [OF m(1)])+
qed

lemma fill_inv:
  assumes inv: "tq_inv s" and tick: "ticket (producers s p) = Some n" and x: "reserved s ! n = x"
  shows "tq_inv (s\<lparr>tq := (tq s)\<lparr>slots := (slots (tq s))[n mod prod_size (tq s) := Some x]\<rparr>\<rparr>)" (is "tq_inv ?s")
proof (rule tq_invI)
  note D = tq_invD [OF inv]
  let ?sz = "prod_size (tq s)" and ?sl = "slots (tq s)"
  have n: "published s \<le> n" "n < length (reserved s)" using ticketD [OF inv tick] by simp_all
  have sz: "0 < ?sz" "length ?sl = ?sz" using ring_size(1) [OF inv] D(1) by (simp_all add: ring_shape_def)
  have cap: "length (reserved s) < length (taken s) + ?sz" "length (taken s) \<le> published s" using D(2) by (simp_all add: counters_ok_def)
  have keep: "?sl[n mod ?sz := Some x] ! (k mod ?sz) = (if k = n then Some x else ?sl ! (k mod ?sz))"
    if "n < k + ?sz" "k < n + ?sz" for k
    using slot_differs [of n ?sz k] that sz by (auto simp: nth_list_update)
  show "ring_shape (tq ?s)" using D(1) by (simp add: ring_shape_def)
  show "counters_ok ?s" using D(2) by (simp add: counters_ok_def)
  show "slots_ok ?s" using D(3) n cap by (auto simp: slots_ok_def keep x)
  show "taken ?s = map Some (take (length (taken ?s)) (reserved ?s))" using D(5) by simp
  have "producer_ok ?sz (?sl[n mod ?sz := Some x]) (reserved s) (published s) (length (taken s)) (producers s q)" for q
    using producerD [OF inv, of q] n cap by (cases "producers s q") (auto simp: keep x)
  then show "threads_ok ?s" using D(4) by (simp add: threads_ok_def)
qed

text \<open>Publishing it.\<close>

lemma publish_inv:
  assumes inv: "tq_inv s" and nxt: "published s < length (reserved s)"
    and slot: "slots (tq s) ! (published s mod prod_size (tq s)) = Some (reserved s ! published s)"
    and free: "\<And>p. ticket (producers s p) \<noteq> Some (published s)"
  shows "tq_inv (s\<lparr>tq := (tq s)\<lparr>prod_tail := prod_tail (tq s) + 1\<rparr>, published := published s + 1\<rparr>)" (is "tq_inv ?s")
proof (rule tq_invI)
  note D = tq_invD [OF inv]
  show "ring_shape (tq ?s)" using D(1) by (simp add: ring_shape_def)
  show "counters_ok ?s" using D(2) nxt by (simp add: counters_ok_def)
  show "slots_ok ?s" using D(3) slot by (auto simp: slots_ok_def less_Suc_eq)
  show "taken ?s = map Some (take (length (taken ?s)) (reserved ?s))" using D(5) by simp
  have "producer_ok sz sl lg (Suc T) C c" if "producer_ok sz sl lg T C c" "ticket c \<noteq> Some T"
    for sz sl lg T C and c :: "('a word, 'b) producer"
    using that by (cases c) auto
  moreover have "consumer_ok lg T C c \<Longrightarrow> consumer_ok lg (Suc T) C c" for lg T C and c :: "('a word, 'b) consumer"
    by (cases c) auto
  ultimately show "threads_ok ?s" using D(4) free by (simp add: threads_ok_def)
qed


subsection \<open>Every step keeps the invariant\<close>

lemma cas_room:
  fixes s :: "('w::len word, 'i) tq_sys"
  assumes inv: "tq_inv s" and p: "producers s p = Cas_head x r h n c" and no: "\<not> overtaken p s" and eq: "prod_head (tq s) = h"
  shows "length (reserved s) + 1 < length (taken s) + prod_size (tq s)"
proof -
  have ok: "h = of_nat n" "n \<le> length (reserved s)" "c \<le> length (taken s)" "c \<le> n \<longrightarrow> n + 1 < c + prod_size (tq s)"
    using producerD [OF inv, of p] p by simp_all
  have head: "prod_head (tq s) = of_nat (length (reserved s))" and le: "length (taken s) \<le> length (reserved s)"
    using tq_invD(2) [OF inv] by (simp_all add: counters_ok_def)
  have "n = length (reserved s)"
    using counter_eq [where 'w = 'w, of n "length (reserved s)"] ok(1,2) head eq no p by (simp add: overtaken_def)
  with ok le show ?thesis by linarith
qed

lemma enqueue_inv:
  fixes s :: "('w::len word, 'i) tq_sys"
  assumes inv: "tq_inv s" and no: "\<not> overtaken p s"
  shows "tq_inv (sim_tailq_enqueue p s)"
proof -
  note set = set_producer_inv [OF inv]
  note D = tq_invD [OF inv] and P = producerD [OF inv, of p]
  have cnt: "prod_head (tq s) = of_nat (length (reserved s))" "prod_tail (tq s) = of_nat (published s)"
    "cons_tail (tq s) = of_nat (length (taken s))" "length (reserved s) < length (taken s) + prod_size (tq s)"
    "length (taken s) \<le> published s" "published s \<le> length (reserved s)"
    using D(2) by (simp_all add: counters_ok_def)
  have tick: "ticket (producers s p') \<noteq> Some n" if "ticket (producers s p) = Some n" "p' \<noteq> p" for n p'
    using D(4) that by (auto simp: threads_ok_def)
  show ?thesis
  proof (cases "producers s p")
    case (Load_head x r)
    have "tq_inv (set_producer p (Load_tail x r (prod_head (tq s)) (length (reserved s))) s)"
      by (rule set) (simp_all add: cnt)
    with Load_head show ?thesis by (simp add: sim_tailq_enqueue_def)
  next
    case (Load_tail x r h n)
    have "1 < LENGTH('w)" using D(1) by (simp add: ring_shape_def)
    then have "n + 1 < length (taken s) + prod_size (tq s)"
      if "\<not> cons_tail (tq s) + of_nat (prod_size (tq s)) - (h + 1) <s 1"
      using that none_available [of "length (taken s)" "prod_size (tq s)" n] P Load_tail cnt(3) by fastforce
    then show ?thesis using P Load_tail by (auto simp: sim_tailq_enqueue_def Let_def intro!: set)
  next
    case (Cas_head x r h n c)
    show ?thesis
    proof (cases "prod_head (tq s) = h")
      case True
      let ?s = "s\<lparr>tq := (tq s)\<lparr>prod_head := prod_head (tq s) + 1\<rparr>, reserved := reserved s @ [x]\<rparr>"
      have "tq_inv ?s" by (rule reserve_inv [OF inv cas_room [OF inv Cas_head no True]])
      moreover have "ticket (producers s p') \<noteq> Some (length (reserved s))" for p'
        using ticketD [OF inv, of p'] by fastforce
      ultimately have "tq_inv (set_producer p (Store_slot x h (length (reserved s))) ?s)"
        using True cnt by (intro set_producer_inv) simp_all
      with True Cas_head show ?thesis by (simp add: sim_tailq_enqueue_def)
    next
      case False
      with Cas_head show ?thesis by (auto simp: sim_tailq_enqueue_def intro!: set)
    qed
  next
    case (Store_slot x h n)
    let ?sl = "(slots (tq s))[n mod prod_size (tq s) := Some x]"
    let ?s = "s\<lparr>tq := (tq s)\<lparr>slots := ?sl\<rparr>\<rparr>"
    have ok: "h = of_nat n" "published s \<le> n" "n < length (reserved s)" "reserved s ! n = x" using P Store_slot by simp_all
    have "tq_inv ?s" using fill_inv [OF inv, of p n x] Store_slot ok by simp
    moreover have "?sl ! (n mod prod_size (tq s)) = Some x"
      using ring_size(1) [OF inv] D(1) by (simp add: ring_shape_def)
    ultimately have "tq_inv (set_producer p (Await_tail h n) ?s)"
      using ok tick Store_slot by (intro set_producer_inv) simp_all
    with Store_slot ok show ?thesis by (simp add: sim_tailq_enqueue_def ring_size(3) [OF inv])
  next
    case (Await_tail h n)
    have "n = published s" if "prod_tail (tq s) = h"
      using that P Await_tail cnt counter_eq [where 'w = 'w, of "published s" n] ring_size(2) [OF inv] by simp
    then show ?thesis using P Await_tail inv tick by (auto simp: sim_tailq_enqueue_def intro!: set)
  next
    case (Store_tail h n)
    let ?s = "set_producer p (Enqueued True) s"
    have ok: "h = of_nat n" "n = published s" "n < length (reserved s)"
      "slots (tq s) ! (n mod prod_size (tq s)) = Some (reserved s ! n)" using P Store_tail by auto
    have s: "tq_inv ?s" by (rule set) simp_all
    have "tq_inv (?s\<lparr>tq := (tq ?s)\<lparr>prod_tail := prod_tail (tq ?s) + 1\<rparr>, published := published ?s + 1\<rparr>)"
      by (rule publish_inv [OF s]) (use ok tick Store_tail in \<open>auto simp: set_producer_def\<close>)
    moreover have "sim_tailq_enqueue p s = ?s\<lparr>tq := (tq ?s)\<lparr>prod_tail := prod_tail (tq ?s) + 1\<rparr>, published := published ?s + 1\<rparr>"
      using Store_tail ok cnt by (cases s) (simp add: sim_tailq_enqueue_def set_producer_def)
    ultimately show ?thesis by simp
  qed (use inv in \<open>auto simp: sim_tailq_enqueue_def intro!: set\<close>)
qed

lemma set_consumer_inv:
  assumes "tq_inv s" "ahead c = ahead (the_consumer s)" "consumer_ok (reserved s) (published s) (length (taken s)) c"
  shows "tq_inv (s\<lparr>the_consumer := c\<rparr>)"
  using assms by (simp add: tq_inv_def counters_ok_def slots_ok_def threads_ok_def)

lemma advance_inv:
  assumes "tq_inv s" "the_consumer s = Put_head h"
  shows "tq_inv (s\<lparr>tq := (tq s)\<lparr>cons_head := h + 1\<rparr>, the_consumer := Get_slot h\<rparr>)"
  using assms by (simp add: tq_inv_def counters_ok_def slots_ok_def threads_ok_def ring_shape_def)

lemma take_inv:
  assumes inv: "tq_inv s" and c: "the_consumer s = Put_tail h i"
  shows "tq_inv (s\<lparr>tq := (tq s)\<lparr>cons_tail := h + 1\<rparr>, the_consumer := Dequeued i, taken := taken s @ [i]\<rparr>)" (is "tq_inv ?s")
proof (rule tq_invI)
  note D = tq_invD [OF inv]
  have ok: "h = of_nat (length (taken s))" "length (taken s) < published s" "i = Some (reserved s ! length (taken s))"
    using D(4) c by (simp_all add: threads_ok_def)
  have le: "published s \<le> length (reserved s)" using D(2) by (simp add: counters_ok_def)
  show "ring_shape (tq ?s)" using D(1) by (simp add: ring_shape_def)
  show "counters_ok ?s" using D(2) ok c by (simp add: counters_ok_def)
  show "slots_ok ?s" using D(3) by (simp add: slots_ok_def)
  have "map Some (take (length (taken s)) (reserved s)) @ [i] = map Some (take (Suc (length (taken s))) (reserved s))"
    using ok le by (simp add: take_Suc_conv_app_nth)
  with D(5) ok(2) le show "taken ?s = map Some (take (length (taken ?s)) (reserved ?s))" by (simp add: min_def)
  have "producer_ok sz sl lg T C c \<Longrightarrow> producer_ok sz sl lg T (Suc C) c" for sz sl lg T C and c :: "('a word, 'b) producer"
    by (cases c) auto
  then show "threads_ok ?s" using D(4) by (simp add: threads_ok_def)
qed

lemma dequeue_inv:
  assumes inv: "tq_inv s"
  shows "tq_inv (sim_tailq_dequeue s)"
proof -
  note D = tq_invD [OF inv]
  have C: "consumer_ok (reserved s) (published s) (length (taken s)) (the_consumer s)" using D(4) by (simp add: threads_ok_def)
  have cnt: "prod_tail (tq s) = of_nat (published s)" "cons_head (tq s) = of_nat (length (taken s) + ahead (the_consumer s))"
    "length (taken s) \<le> published s" "published s \<le> length (reserved s)" "length (reserved s) < length (taken s) + prod_size (tq s)"
    using D(2) by (simp_all add: counters_ok_def)
  show ?thesis
  proof (cases "the_consumer s")
    case (Get_tail h)
    have "length (taken s) < published s" if "h \<noteq> prod_tail (tq s)"
      using that C Get_tail cnt by (cases "length (taken s) = published s") simp_all
    then show ?thesis using C Get_tail inv by (simp add: sim_tailq_dequeue_def set_consumer_inv)
  next
    case (Get_slot h)
    have "slots (tq s) ! (length (taken s) mod prod_size (tq s)) = Some (reserved s ! length (taken s))"
      using D(3) C Get_slot cnt by (simp add: slots_ok_def)
    then show ?thesis using C Get_slot inv by (simp add: sim_tailq_dequeue_def ring_size(4) [OF inv] set_consumer_inv)
  next
    case (Put_tail h i)
    with take_inv [OF inv Put_tail] show ?thesis by (simp add: sim_tailq_dequeue_def)
  next
    case (Put_head h)
    with advance_inv [OF inv Put_head] show ?thesis by (simp add: sim_tailq_dequeue_def)
  qed (use inv cnt in \<open>simp_all add: sim_tailq_dequeue_def set_consumer_inv\<close>)
qed

lemma tq_step_inv: "tq_step s s' \<Longrightarrow> tq_inv s \<Longrightarrow> tq_inv s'"
proof (induction rule: tq_step.induct)
  case (Enqueue_call s p b x)
  then show ?case unfolding enqueue_call_def by (intro set_producer_inv) auto
next
  case (Dequeue_call s i)
  then show ?case unfolding dequeue_call_def by (intro set_consumer_inv) auto
qed (simp_all add: enqueue_inv dequeue_inv)


subsection \<open>A bounded first-in first-out queue\<close>

text \<open>The specification: the items in the queue, and what has been taken from it.\<close>

inductive fifo_step :: "nat \<Rightarrow> 'i list \<times> 'i option list \<Rightarrow> 'i list \<times> 'i option list \<Rightarrow> bool" for cap where
  Stay: "fifo_step cap c c"
| Put: "length q < cap \<Longrightarrow> fifo_step cap (q, t) (q @ [x], t)"
| Take: "fifo_step cap (x # q, t) (q, t @ [Some x])"

definition queue_of :: "('c, 'i) tq_sys \<Rightarrow> 'i list" where
  "queue_of s = drop (length (taken s)) (take (published s) (reserved s))"

lemma queue_of_simps [simp]: "queue_of (set_producer p c s) = queue_of s" "taken (set_producer p c s) = taken s"
  "tq (set_producer p c s) = tq s"
  by (simp_all add: queue_of_def set_producer_def)

lemma publish_queue:
  assumes "tq_inv s" "producers s p = Store_tail h n"
  shows "queue_of (sim_tailq_enqueue p s) = queue_of s @ [reserved s ! n]" "length (queue_of s) < prod_size (tq s) - 1"
proof -
  have "n = published s" "n < length (reserved s)" using producerD [OF assms(1), of p] assms(2) by simp_all
  moreover have "length (taken s) \<le> published s" "length (reserved s) < length (taken s) + prod_size (tq s)"
    using tq_invD(2) [OF assms(1)] by (simp_all add: counters_ok_def)
  ultimately show "queue_of (sim_tailq_enqueue p s) = queue_of s @ [reserved s ! n]" "length (queue_of s) < prod_size (tq s) - 1"
    using assms(2) by (simp_all add: sim_tailq_enqueue_def queue_of_def take_Suc_conv_app_nth set_producer_def)
qed

lemma enqueue_simulates:
  assumes inv: "tq_inv s"
  shows "fifo_step (prod_size (tq s) - 1) (queue_of s, taken s) (queue_of (sim_tailq_enqueue p s), taken (sim_tailq_enqueue p s))"
    "prod_size (tq (sim_tailq_enqueue p s)) = prod_size (tq s)"
proof -
  have le: "published s \<le> length (reserved s)" using tq_invD(2) [OF inv] by (simp add: counters_ok_def)
  have tk: "taken (sim_tailq_enqueue p s) = taken s"
    by (cases "producers s p") (simp_all add: sim_tailq_enqueue_def Let_def)
  show "prod_size (tq (sim_tailq_enqueue p s)) = prod_size (tq s)"
    by (cases "producers s p") (simp_all add: sim_tailq_enqueue_def Let_def)
  show "fifo_step (prod_size (tq s) - 1) (queue_of s, taken s) (queue_of (sim_tailq_enqueue p s), taken (sim_tailq_enqueue p s))"
  proof (cases "producers s p")
    case (Store_tail h n)
    from publish_queue [OF inv this] tk show ?thesis by (simp add: fifo_step.Put)
  next
    case (Cas_head x r h n c)
    have "queue_of (sim_tailq_enqueue p s) = queue_of s"
      using Cas_head le by (simp add: sim_tailq_enqueue_def queue_of_def set_producer_def)
    with tk show ?thesis by (simp add: fifo_step.Stay)
  next
    case (Store_slot x h n)
    then have "queue_of (sim_tailq_enqueue p s) = queue_of s" by (simp add: sim_tailq_enqueue_def queue_of_def set_producer_def)
    with tk show ?thesis by (simp add: fifo_step.Stay)
  qed (simp_all add: sim_tailq_enqueue_def Let_def fifo_step.Stay)
qed

lemma take_queue:
  assumes inv: "tq_inv s" and c: "the_consumer s = Put_tail h i"
  shows "\<exists>x. i = Some x \<and> queue_of s = x # queue_of (sim_tailq_dequeue s)" "taken (sim_tailq_dequeue s) = taken s @ [i]"
proof -
  have ok: "length (taken s) < published s" "i = Some (reserved s ! length (taken s))"
    using tq_invD(4) [OF inv] c by (simp_all add: threads_ok_def)
  have "published s \<le> length (reserved s)" using tq_invD(2) [OF inv] by (simp add: counters_ok_def)
  with ok have "queue_of s = reserved s ! length (taken s) # drop (Suc (length (taken s))) (take (published s) (reserved s))"
    by (simp add: queue_of_def Cons_nth_drop_Suc [symmetric])
  then show "\<exists>x. i = Some x \<and> queue_of s = x # queue_of (sim_tailq_dequeue s)"
    using ok c by (simp add: sim_tailq_dequeue_def queue_of_def)
  show "taken (sim_tailq_dequeue s) = taken s @ [i]" using c by (simp add: sim_tailq_dequeue_def)
qed

lemma dequeue_simulates:
  assumes inv: "tq_inv s"
  shows "fifo_step (prod_size (tq s) - 1) (queue_of s, taken s) (queue_of (sim_tailq_dequeue s), taken (sim_tailq_dequeue s))"
    "prod_size (tq (sim_tailq_dequeue s)) = prod_size (tq s)"
proof -
  show "prod_size (tq (sim_tailq_dequeue s)) = prod_size (tq s)"
    by (cases "the_consumer s") (simp_all add: sim_tailq_dequeue_def)
  show "fifo_step (prod_size (tq s) - 1) (queue_of s, taken s) (queue_of (sim_tailq_dequeue s), taken (sim_tailq_dequeue s))"
  proof (cases "the_consumer s")
    case (Put_tail h i)
    with take_queue [OF inv this] show ?thesis by (auto intro: fifo_step.Take)
  qed (simp_all add: sim_tailq_dequeue_def queue_of_def fifo_step.Stay)
qed

lemma tq_step_simulates:
  assumes "tq_inv s" "tq_step s s'"
  shows "fifo_step (prod_size (tq s) - 1) (queue_of s, taken s) (queue_of s', taken s') \<and> prod_size (tq s') = prod_size (tq s)"
  using assms(2,1)
proof (induction rule: tq_step.induct)
  case (Enqueue_call s p b x)
  then show ?case by (simp add: enqueue_call_def fifo_step.Stay)
next
  case (Dequeue_call s i)
  then show ?case by (simp add: dequeue_call_def queue_of_def fifo_step.Stay)
qed (simp_all only: enqueue_simulates dequeue_simulates simp_thms)

lemma tq_start_inv:
  assumes "sim_tailq_init_capacity cap = Some (q :: ('w::len word, 'i) tailq)" "cap < 2 ^ LENGTH('w)" "1 < LENGTH('w)"
  shows "tq_inv (tq_start q)" "prod_size q = cap"
proof -
  have c: "2 \<le> cap" "is_power_of_2 cap" using assms(1) by (auto simp: sim_tailq_init_capacity_def split: if_splits)
  then obtain m where m: "cap = 2 ^ m" by (auto simp: is_power_of_2_iff)
  then have m': "m < LENGTH('w)" using assms(2) by simp
  have q: "q = \<lparr>prod_head = 0, prod_tail = 0, prod_size = cap, prod_mask = cap - 1, cons_head = 0,
      cons_tail = 0, cons_size = cap, cons_mask = cap - 1, slots = replicate cap None\<rparr>"
    using assms(1) c by (simp add: sim_tailq_init_capacity_def)
  then show "prod_size q = cap" by simp
  have "ring_shape q" using q m m' assms(3) by (auto simp: ring_shape_def)
  then show "tq_inv (tq_start q)"
    using q c by (simp add: tq_inv_def tq_start_def counters_ok_def slots_ok_def threads_ok_def)
qed

interpretation tailq: simulation tq_step "fifo_step (cap - 1)" "\<lambda>s. (queue_of s, taken s)" "\<lambda>s. tq_inv s \<and> prod_size (tq s) = cap"
  using tq_step_inv tq_step_simulates by unfold_locales blast+

subsection \<open>Calls that run alone\<close>

lemma enqueue_alone:
  fixes s :: "('w::len word, 'i) tq_sys"
  assumes inv: "tq_inv s" and room: "length (reserved s) + 1 < length (taken s) + prod_size (tq s)"
    and alone: "published s = length (reserved s)"
  shows "let s' = (sim_tailq_enqueue p ^^ 6) (enqueue_call p x s) in
    producers s' p = Enqueued True \<and> queue_of s' = queue_of s @ [x] \<and> taken s' = taken s"
proof -
  have cnt: "prod_head (tq s) = of_nat (length (reserved s))" "prod_tail (tq s) = of_nat (length (reserved s))"
    "cons_tail (tq s) = of_nat (length (taken s))" "length (taken s) \<le> length (reserved s)"
    using tq_invD(2) [OF inv] alone by (simp_all add: counters_ok_def)
  have "prod_size (tq s) \<le> 2 ^ (LENGTH('w) - 1)" "1 < LENGTH('w)" using tq_invD(1) [OF inv] by (auto simp: ring_shape_def)
  then have "\<not> of_nat (length (taken s)) + of_nat (prod_size (tq s)) - (of_nat (length (reserved s)) + 1) <s (1 :: 'w word)"
    by (intro some_available) (use room cnt in simp_all)
  then show ?thesis
    using cnt alone by (simp add: eval_nat_numeral enqueue_call_def sim_tailq_enqueue_def set_producer_def queue_of_def Let_def)
qed

lemma retry_when_full:
  fixes s :: "('w::len word, 'i) tq_sys"
  assumes inv: "tq_inv s" and full: "length (reserved s) + 1 = length (taken s) + prod_size (tq s)"
    and p: "producers s p = Load_head x r"
  shows "(sim_tailq_enqueue p ^^ 4) s = set_producer p (if r + 1 < 4096 then Load_head x (r + 1) else Enqueued False) s"
proof -
  have cnt: "prod_head (tq s) = of_nat (length (reserved s))" "cons_tail (tq s) = of_nat (length (taken s))"
    using tq_invD(2) [OF inv] by (simp_all add: counters_ok_def)
  have "1 < LENGTH('w)" using tq_invD(1) [OF inv] by (simp add: ring_shape_def)
  then have "of_nat (length (taken s)) + of_nat (prod_size (tq s)) - (of_nat (length (reserved s)) + 1) <s (1 :: 'w word)"
    using full by (intro none_available) simp_all
  then show ?thesis using p cnt
    by (simp add: eval_nat_numeral sim_tailq_enqueue_def set_producer_def Let_def)
qed

lemma give_up_when_full:
  assumes "tq_inv s" "length (reserved s) + 1 = length (taken s) + prod_size (tq s)"
  shows "k < 4096 \<Longrightarrow> producers s p = Load_head x (4095 - k) \<Longrightarrow>
    (sim_tailq_enqueue p ^^ (4 * Suc k)) s = set_producer p (Enqueued False) s"
  using assms
proof (induction k arbitrary: s)
  case 0
  then show ?case using retry_when_full [of s p x 4095] by simp
next
  case (Suc k)
  let ?s = "set_producer p (Load_head x (4095 - k)) s"
  have "Suc (4095 - Suc k) = 4095 - k" using Suc.prems(1) by simp
  then have 4: "(sim_tailq_enqueue p ^^ 4) s = ?s"
    using retry_when_full [OF Suc.prems(3,4,2)] Suc.prems(1) by simp
  have "tq_inv ?s" by (rule set_producer_inv [OF Suc.prems(3)]) simp_all
  then have "(sim_tailq_enqueue p ^^ (4 * Suc k)) ?s = set_producer p (Enqueued False) ?s"
    using Suc.prems by (intro Suc.IH) (simp_all add: set_producer_def)
  moreover have "4 * Suc (Suc k) = 4 * Suc k + 4" by simp
  ultimately show ?case using 4 by (simp only: funpow_add comp_def) (simp add: set_producer_def)
qed

lemma dequeue_alone:
  assumes inv: "tq_inv s" and away: "the_consumer s = Away \<or> the_consumer s = Dequeued i"
  shows "let s' = (sim_tailq_dequeue ^^ 5) (dequeue_call s) in
    (case queue_of s of [] \<Rightarrow> the_consumer s' = Dequeued None \<and> queue_of s' = [] \<and> taken s' = taken s
     | x # q \<Rightarrow> the_consumer s' = Dequeued (Some x) \<and> queue_of s' = q \<and> taken s' = taken s @ [Some x])"
proof -
  have cnt: "prod_tail (tq s) = of_nat (published s)" "cons_head (tq s) = of_nat (length (taken s))"
    "length (taken s) \<le> published s" "published s \<le> length (reserved s)" "length (reserved s) < length (taken s) + prod_size (tq s)"
    using tq_invD(2) [OF inv] away by (auto simp: counters_ok_def)
  show ?thesis
  proof (cases "length (taken s) < published s")
    case False
    with cnt have "queue_of s = []" "length (taken s) = published s" by (simp_all add: queue_of_def)
    with cnt show ?thesis by (simp add: eval_nat_numeral dequeue_call_def sim_tailq_dequeue_def queue_of_def Let_def)
  next
    case True
    have ne: "of_nat (length (taken s)) \<noteq> prod_tail (tq s)"
      using counter_eq [of "length (taken s)" "published s"] True cnt ring_size(2) [OF inv] by fastforce
    have "slots (tq s) ! (length (taken s) mod prod_size (tq s)) = Some (reserved s ! length (taken s))"
      using tq_invD(3) [OF inv] True cnt by (simp add: slots_ok_def)
    moreover have "queue_of s = reserved s ! length (taken s) # drop (Suc (length (taken s))) (take (published s) (reserved s))"
      using True cnt by (simp add: queue_of_def Cons_nth_drop_Suc [symmetric])
    ultimately show ?thesis using ne cnt
      by (simp add: eval_nat_numeral dequeue_call_def sim_tailq_dequeue_def ring_size(4) [OF inv] queue_of_def Let_def)
  qed
qed

subsection \<open>Destruction\<close>

text \<open>The slot of an item that was taken keeps the pointer.\<close>

lemma destroy_frees_taken:
  assumes inv: "tq_inv s" and "taken s \<noteq> []"
  shows "the (last (taken s)) \<in> set (sim_tailq_destroy (tq s))"
proof -
  define k where "k = length (taken s) - 1"
  have cnt: "length (taken s) \<le> published s" "published s \<le> length (reserved s)" "length (reserved s) < length (taken s) + prod_size (tq s)"
    using tq_invD(2) [OF inv] by (simp_all add: counters_ok_def)
  have k: "k < length (taken s)" using assms(2) by (simp add: k_def)
  then have slot: "slots (tq s) ! (k mod prod_size (tq s)) = Some (reserved s ! k)"
    using tq_invD(3) [OF inv] cnt by (simp add: slots_ok_def k_def)
  have len: "k mod prod_size (tq s) < length (slots (tq s))" "length (slots (tq s)) = prod_size (tq s)"
    using ring_size(1) [OF inv] tq_invD(1) [OF inv] by (simp_all add: ring_shape_def)
  have "last (taken s) = taken s ! k" using assms(2) by (simp add: last_conv_nth k_def)
  also have "\<dots> = Some (reserved s ! k)" using tq_invD(5) [OF inv] k cnt by (metis (no_types, lifting) length_map length_take nth_map nth_take min_less_iff_conj)
  finally have "last (taken s) = Some (reserved s ! k)" .
  moreover have "Some (reserved s ! k) \<in> set (slots (tq s))" using slot len by (metis nth_mem)
  ultimately show ?thesis using len(2) by (force simp: sim_tailq_destroy_def)
qed

subsection \<open>Properties\<close>

text \<open>The states that the threads can reach from a new queue of the given capacity.\<close>

definition tq_reaches :: "nat \<Rightarrow> ('w::len word, 'i) tq_sys \<Rightarrow> bool" where
  "tq_reaches cap s \<longleftrightarrow> (\<exists>q. sim_tailq_init_capacity cap = Some q \<and> tq_step\<^sup>*\<^sup>* (tq_start q) s)"

lemma reaches_inv:
  fixes s :: "('w::len word, 'i) tq_sys"
  assumes "tq_reaches cap s" "cap < 2 ^ LENGTH('w)" "1 < LENGTH('w)"
  shows "tq_inv s" "prod_size (tq s) = cap" "(fifo_step (cap - 1))\<^sup>*\<^sup>* ([], []) (queue_of s, taken s)"
proof -
  obtain q :: "('w word, 'i) tailq" where q: "sim_tailq_init_capacity cap = Some q" "tq_step\<^sup>*\<^sup>* (tq_start q) s"
    using assms(1) by (auto simp: tq_reaches_def)
  have "tq_inv (tq_start q) \<and> prod_size (tq (tq_start q)) = cap"
    using tq_start_inv [OF q(1) assms(2,3)] by (simp add: tq_start_def)
  from tailq.inv_run [OF q(2) this] tailq.run_simulates [OF q(2) this]
  show "tq_inv s" "prod_size (tq s) = cap" "(fifo_step (cap - 1))\<^sup>*\<^sup>* ([], []) (queue_of s, taken s)"
    by (simp_all add: queue_of_def tq_start_def)
qed

text \<open>A queue of four slots with 32-bit counters in which one producer has enqueued 7, for the witnesses.\<close>

definition tq_four :: "(32 word, int) tq_sys" where
  "tq_four = tq_start (the (sim_tailq_init_capacity 4))"

definition tq_one :: "(32 word, int) tq_sys" where
  "tq_one = (sim_tailq_enqueue 0 ^^ 6) (enqueue_call 0 7 tq_four)"

lemma init_four: "sim_tailq_init_capacity 4 = Some (the (sim_tailq_init_capacity 4))"
  by (simp add: sim_tailq_init_capacity_def is_power_of_2_def)

lemma four_inv: "tq_inv tq_four" "prod_size (tq tq_four) = 4" "reserved tq_four = []" "taken tq_four = []" "published tq_four = 0"
  using tq_start_inv [OF init_four, where 'w = 32] by (simp_all add: tq_four_def tq_start_def)

lemma reaches_steps: "(\<And>k. k < n \<Longrightarrow> \<not> overtaken p ((sim_tailq_enqueue p ^^ k) s)) \<Longrightarrow> tq_step\<^sup>*\<^sup>* s ((sim_tailq_enqueue p ^^ n) s)"
proof (induction n)
  case (Suc n)
  then have "tq_step ((sim_tailq_enqueue p ^^ n) s) (sim_tailq_enqueue p ((sim_tailq_enqueue p ^^ n) s))"
    by (intro tq_step.Enqueue) simp
  with Suc show ?case by simp
qed simp

lemma enqueue_reserves_one: "length (reserved (sim_tailq_enqueue p s)) \<le> length (reserved s) + 1"
  by (cases "producers s p") (simp_all add: sim_tailq_enqueue_def set_producer_def Let_def)

lemma enqueues_reserve: "length (reserved ((sim_tailq_enqueue p ^^ n) s)) \<le> length (reserved s) + n"
proof (induction n)
  case (Suc n)
  with enqueue_reserves_one [of p "(sim_tailq_enqueue p ^^ n) s"] show ?case by simp
qed simp

lemma one_reached: "tq_reaches 4 tq_one"
proof -
  have "tq_step tq_four (enqueue_call 0 7 tq_four)"
    by (rule tq_step.Enqueue_call) (simp add: tq_four_def tq_start_def)
  moreover have "\<not> overtaken 0 ((sim_tailq_enqueue 0 ^^ k) (enqueue_call 0 7 tq_four))" if "k < 6" for k
    using enqueues_reserve [of k 0 "enqueue_call 0 7 tq_four"] that
    by (auto simp: overtaken_def enqueue_call_def set_producer_def four_inv split: producer.splits)
  ultimately have "tq_step\<^sup>*\<^sup>* tq_four tq_one"
    unfolding tq_one_def by (metis (no_types, lifting) converse_rtranclp_into_rtranclp reaches_steps)
  then show ?thesis using init_four unfolding tq_reaches_def tq_four_def by blast
qed

lemma one_queue: "queue_of tq_one = [7]" "taken tq_one = []"
proof -
  have "queue_of tq_one = queue_of tq_four @ [7] \<and> taken tq_one = taken tq_four"
    using enqueue_alone [OF four_inv(1), of 0 7] unfolding tq_one_def Let_def by (simp add: four_inv)
  moreover have "queue_of tq_four = []" by (simp add: queue_of_def four_inv)
  ultimately show "queue_of tq_one = [7]" "taken tq_one = []" by (simp_all add: four_inv)
qed

lemma enqueues_consumer: "the_consumer ((sim_tailq_enqueue p ^^ n) s) = the_consumer s"
proof (induction n)
  case (Suc n)
  have "the_consumer (sim_tailq_enqueue p s') = the_consumer s'" for s' :: "('a word, 'b) tq_sys"
    by (cases "producers s' p") (simp_all add: sim_tailq_enqueue_def set_producer_def Let_def)
  with Suc show ?case by simp
qed simp

lemma dequeues_reach: "tq_step\<^sup>*\<^sup>* s ((sim_tailq_dequeue ^^ n) s)"
proof (induction n)
  case (Suc n)
  from rtranclp.rtrancl_into_rtrancl [OF this tq_step.Dequeue] show ?case by simp
qed simp

lemma dequeue_call_reaches:
  assumes "tq_reaches cap s" "the_consumer s = Away \<or> the_consumer s = Dequeued i"
  shows "tq_reaches cap ((sim_tailq_dequeue ^^ n) (dequeue_call s))"
proof -
  have "tq_step s (dequeue_call s)" using assms(2) by (rule tq_step.Dequeue_call)
  then have "tq_step\<^sup>*\<^sup>* s ((sim_tailq_dequeue ^^ n) (dequeue_call s))"
    using dequeues_reach [of "dequeue_call s" n] by (rule converse_rtranclp_into_rtranclp)
  with assms(1) show ?thesis unfolding tq_reaches_def by (meson rtranclp_trans)
qed

lemma one_away: "the_consumer tq_one = Away"
  unfolding tq_one_def enqueues_consumer by (simp add: enqueue_call_def set_producer_def tq_four_def tq_start_def)

text \<open>
  C12. Refinement: whatever the interleaving of any number of producers with the consumer, and though
  the counters wrap around, the tail queue is a first-in first-out queue of at most one item less than
  its capacity: every run is one of the specification, the consumer takes the items in the order in
  which their slots were reserved, none lost, none twice.  The accesses are sequentially consistent, and
  in the runs considered no compare-and-swap of \<^verbatim>\<open>prod_head\<close> is overtaken by \<open>2 ^ w\<close> reservations
  of the other producers since its load, which would bring the counter back to the value loaded.
\<close>

theorem tailq_is_fifo:
  fixes s :: "('w::len word, 'i) tq_sys"
  assumes "tq_reaches cap s" "cap < 2 ^ LENGTH('w)" "1 < LENGTH('w)"
  shows "(fifo_step (cap - 1))\<^sup>*\<^sup>* ([], []) (queue_of s, taken s) \<and>
    taken s = map Some (take (length (taken s)) (reserved s)) \<and> length (queue_of s) < cap"
proof -
  note R = reaches_inv [OF assms]
  have "published s \<le> length (reserved s)" "length (reserved s) < length (taken s) + cap" "length (taken s) \<le> published s"
    using tq_invD(2) [OF R(1)] R(2) by (simp_all add: counters_ok_def)
  then have "length (queue_of s) < cap" by (simp add: queue_of_def)
  with R(3) tq_invD(5) [OF R(1)] show ?thesis by blast
qed

theorem tailq_is_fifo_witness: "(fifo_step 3)\<^sup>*\<^sup>* ([], []) (queue_of tq_one, taken tq_one) \<and> queue_of tq_one = [7]"
  using tailq_is_fifo [OF one_reached] one_queue by simp

text \<open>
  C13. Liveness: the calls return.  A producer that runs alone, no other having a slot reserved and not
  published, appends its item in six accesses when there is room; when the queue is full it gives
  up after the 4096 retries and leaves the queue alone.  A consumer that runs alone, in its first call
  or in one that follows a call which has returned, gets the oldest published item in five accesses, or
  the null pointer when there is none.
\<close>

theorem tailq_calls_return:
  fixes s :: "('w::len word, 'i) tq_sys"
  assumes "tq_reaches cap s" "cap < 2 ^ LENGTH('w)" "1 < LENGTH('w)"
  shows "(published s = length (reserved s) \<longrightarrow>
      (if length (queue_of s) < cap - 1
       then let s' = (sim_tailq_enqueue p ^^ 6) (enqueue_call p x s)
            in producers s' p = Enqueued True \<and> queue_of s' = queue_of s @ [x]
       else let s' = (sim_tailq_enqueue p ^^ 16384) (enqueue_call p x s)
            in producers s' p = Enqueued False \<and> queue_of s' = queue_of s)) \<and>
    (the_consumer s = Away \<or> (\<exists>i. the_consumer s = Dequeued i) \<longrightarrow> (let s' = (sim_tailq_dequeue ^^ 5) (dequeue_call s) in
       case queue_of s of [] \<Rightarrow> the_consumer s' = Dequeued None \<and> queue_of s' = [] \<and> taken s' = taken s
       | y # q \<Rightarrow> the_consumer s' = Dequeued (Some y) \<and> queue_of s' = q \<and> taken s' = taken s @ [Some y]))"
proof -
  note R = reaches_inv(1,2) [OF assms]
  have cap: "length (reserved s) < length (taken s) + cap" "length (taken s) \<le> published s"
    using tq_invD(2) [OF R(1)] R(2) by (simp_all add: counters_ok_def)
  have full: "producers s' p = Enqueued False \<and> queue_of s' = queue_of s"
    if "length (reserved s) + 1 = length (taken s) + cap" "s' = (sim_tailq_enqueue p ^^ 16384) (enqueue_call p x s)" for s'
  proof -
    have "tq_inv (enqueue_call p x s)" unfolding enqueue_call_def by (rule set_producer_inv [OF R(1)]) simp_all
    from give_up_when_full [OF this, of 4095 p x] have "s' = set_producer p (Enqueued False) (enqueue_call p x s)"
      using that R(2) by (simp add: enqueue_call_def set_producer_def)
    then show ?thesis by (simp add: enqueue_call_def) (simp add: set_producer_def)
  qed
  have "if length (queue_of s) < cap - 1
      then let s' = (sim_tailq_enqueue p ^^ 6) (enqueue_call p x s)
           in producers s' p = Enqueued True \<and> queue_of s' = queue_of s @ [x]
      else let s' = (sim_tailq_enqueue p ^^ 16384) (enqueue_call p x s)
           in producers s' p = Enqueued False \<and> queue_of s' = queue_of s"
    if "published s = length (reserved s)"
  proof (cases "length (queue_of s) < cap - 1")
    case True
    then have "length (reserved s) + 1 < length (taken s) + prod_size (tq s)" using that R(2) by (simp add: queue_of_def)
    from enqueue_alone [OF R(1) this that, of p x] True show ?thesis by (simp add: Let_def)
  next
    case False
    then have "length (reserved s) + 1 = length (taken s) + cap" using that cap by (simp add: queue_of_def)
    from full [OF this refl] False show ?thesis by (simp add: Let_def)
  qed
  with dequeue_alone [OF R(1)] show ?thesis by blast
qed

theorem tailq_calls_return_witness:
  "let s' = (sim_tailq_dequeue ^^ 5) (dequeue_call tq_one); s'' = (sim_tailq_dequeue ^^ 5) (dequeue_call s')
   in the_consumer s' = Dequeued (Some 7) \<and> queue_of s' = [] \<and> the_consumer s'' = Dequeued None"
proof -
  define s1 where "s1 = (sim_tailq_dequeue ^^ 5) (dequeue_call tq_one)"
  have 1: "the_consumer s1 = Dequeued (Some 7)" "queue_of s1 = []"
    using tailq_calls_return [OF one_reached, of undefined undefined] one_queue one_away
    by (simp_all add: Let_def s1_def)
  have "tq_reaches 4 s1"
    using dequeue_call_reaches [OF one_reached] one_away by (simp add: s1_def)
  from tailq_calls_return [OF this, of undefined undefined] 1 show ?thesis
    by (simp add: Let_def flip: s1_def)
qed

text \<open>
  Error: \<^verbatim>\<open>sim_tailq_destroy\<close> passes the item that the consumer took last to \<^verbatim>\<open>free_item\<close>
  again, in every state in which anything has been taken, because \<^verbatim>\<open>sim_tailq_dequeue\<close> does not
  clear the slot; the Ethernet code has freed it by then.
\<close>

lemma tailq_destroy_frees_taken:
  fixes s :: "('w::len word, 'i) tq_sys"
  assumes "tq_reaches cap s" "cap < 2 ^ LENGTH('w)" "1 < LENGTH('w)" "taken s \<noteq> []"
  shows "the (last (taken s)) \<in> set (sim_tailq_destroy (tq s))"
  using destroy_frees_taken [OF reaches_inv(1) [OF assms(1-3)] assms(4)] .


end
