(* ===== verification/QuotedArgs.thy ===== *)
theory QuotedArgs
  imports Quoted Numbers
begin

text \<open>
  Arguments of commands: operands of the form \<^verbatim>\<open>KEY=value\<close>, and quoted strings as the token
  scanner sees them.  A string that \<^verbatim>\<open>sim_encode_quoted_string\<close> made is one token.
\<close>

subsection \<open>Operands\<close>

text \<open>The value of an operand with the given key; it must not be empty.\<close>

definition operand :: "string \<Rightarrow> string \<Rightarrow> string option" where
  "operand key g = (if take (length key) g = key \<and> length g > length key then Some (drop (length key) g) else None)"

lemma operand_nonempty: "operand key g = Some v \<Longrightarrow> g \<noteq> []"
  by (auto simp: operand_def split: if_splits)

subsection \<open>Tokens\<close>

lemma glyph_loop_lengths:
  "length (fst (glyph_loop m uc q e a b c s)) + length (snd (glyph_loop m uc q e a b c s)) = length s"
proof (induction s arbitrary: a b c)
  case (Cons x s)
  then show ?case by (cases "q \<and> a") (auto simp: Let_def case_prod_beta)
qed simp

lemma get_glyph_shorter:
  assumes "get_glyph s m = (g, r)" "g \<noteq> []"
  shows "length r < length s"
proof -
  let ?l = "glyph_loop m True False NUL False False NUL s"
  have "length r \<le> length (snd ?l)" "g = fst ?l"
    using assms(1) skip_space_length [of "tl (snd ?l)"] skip_space_length [of "snd ?l"]
    by (auto simp: get_glyph_def get_glyph_gen_def Let_def case_prod_beta split: if_splits)
  moreover from this(2) have "length g + length (snd ?l) = length s"
    using glyph_loop_lengths [of m True False NUL False False NUL s] by simp
  moreover have "0 < length g" using assms(2) by simp
  ultimately show ?thesis by linarith
qed

subsection \<open>Encoded strings as tokens\<close>

abbreviation quoted_loop :: "char \<Rightarrow> string \<Rightarrow> string \<times> string" where
  "quoted_loop q \<equiv> glyph_loop NUL False True (CHR 0x5C) True False q"

lemma quoted_loop_plain: "c \<noteq> CHR 0x5C \<Longrightarrow> c \<noteq> q \<Longrightarrow> quoted_loop q (c # r) = apfst ((#) c) (quoted_loop q r)"
  by (simp add: glyph_quote_def Let_def case_prod_beta apfst_def map_prod_def)

lemma quoted_loop_escape:
  "q \<noteq> CHR 0x5C \<Longrightarrow> quoted_loop q (CHR 0x5C # d # r) = apfst (\<lambda>o'. CHR 0x5C # d # o') (quoted_loop q r)"
  by (simp add: glyph_quote_def Let_def case_prod_beta apfst_def map_prod_def)

lemma quoted_loop_close: "q \<noteq> CHR 0x5C \<Longrightarrow> quoted_loop q (q # r) = ([q], r)"
  by (simp add: glyph_quote_def Let_def)

lemma octal_plain:
  assumes "n < (8::nat)" "q = CHR 0x22 \<or> q = CHR 0x27"
  shows "char_of (48 + n) \<noteq> CHR 0x5C" "char_of (48 + n) \<noteq> q"
proof -
  have "cint (char_of (48 + n)) = 48 + int n" using assms by (simp add: cint_char_of)
  then show "char_of (48 + n) \<noteq> CHR 0x5C" "char_of (48 + n) \<noteq> q" using assms by (auto simp: cint_def)
qed

lemma quoted_loop_encode_byte:
  assumes q: "q = CHR 0x22 \<or> q = CHR 0x27"
  shows "quoted_loop q (encode_byte q b @ rest) = apfst ((@) (encode_byte q b)) (quoted_loop q rest)"
proof -
  have e: "q \<noteq> CHR 0x5C" using q by auto
  have ne: "char_of (unat b) \<noteq> c" if "of_char c \<noteq> b" for c using that by (metis of_char_char_of_byte)
  have lt: "unat b div 8 mod 8 < 8" "unat b mod 8 < 8" by simp_all
  show ?thesis
  proof (cases "b \<in> set [13, 10, 12, 9, 11, 8, 92] \<or> b = 34 \<or> b = 39")
    case True
    then consider "b \<in> set [13, 10, 12, 9, 11, 8, 92]" | "b = 34" | "b = 39" by blast
    then show ?thesis
    proof cases
      case 1
      then show ?thesis using e by (auto simp: encode_byte_def quoted_loop_escape apfst_def map_prod_def case_prod_beta simp del: glyph_loop.simps)
    next
      case 2
      with q e show ?thesis
        by (auto simp: encode_quote quoted_loop_escape quoted_loop_plain apfst_def map_prod_def case_prod_beta simp del: glyph_loop.simps)
    next
      case 3
      with q e show ?thesis
        by (auto simp: encode_quote quoted_loop_escape quoted_loop_plain apfst_def map_prod_def case_prod_beta simp del: glyph_loop.simps)
    qed
  next
    case False
    then have "char_of (unat b) \<noteq> CHR 0x5C" "char_of (unat b) \<noteq> q" using q by (auto intro!: ne)
    with False e show ?thesis
      using octal_plain [OF lt(1) q] octal_plain [OF lt(2) q]
      by (auto simp: encode_byte_def octal3_def quoted_loop_escape quoted_loop_plain apfst_def map_prod_def case_prod_beta simp del: glyph_loop.simps)
  qed
qed

lemma quoted_loop_encode_bytes:
  assumes q: "q = CHR 0x22 \<or> q = CHR 0x27"
  shows "quoted_loop q (concat (map (encode_byte q) data) @ q # rest) = (concat (map (encode_byte q) data) @ [q], rest)"
proof (induction data)
  case Nil
  from q have "q \<noteq> CHR 0x5C" by auto
  then show ?case by (simp add: quoted_loop_close del: glyph_loop.simps)
next
  case (Cons b data)
  then show ?case by (simp add: quoted_loop_encode_byte [OF q] del: glyph_loop.simps)
qed

lemma quote_for_cases: "quote_for data = CHR 0x22 \<or> quote_for data = CHR 0x27"
  by (simp add: quote_for_def)

lemma get_glyph_encoded:
  "get_glyph_quoted (sim_encode_quoted_string data @ rest) NUL = (sim_encode_quoted_string data, skip_space rest)"
proof -
  let ?q = "quote_for data"
  have "\<not> sim_isspace (cint ?q)" "?q \<noteq> NUL" using quote_for_cases [of data] by (auto simp: ctype_defs cint_def)
  then have "glyph_loop NUL False True (CHR 0x5C) False False NUL (?q # s) = apfst ((#) ?q) (quoted_loop ?q s)" for s
    using quote_for_cases [of data] by (auto simp: glyph_quote_def Let_def case_prod_beta apfst_def map_prod_def)
  then show ?thesis
    by (simp add: get_glyph_quoted_def get_glyph_gen_def sim_encode_quoted_string_def Let_def
        quoted_loop_encode_bytes [OF quote_for_cases] del: glyph_loop.simps)
qed

text \<open>A token that starts with a quote is not an operand.\<close>

lemma quote_no_operand:
  assumes "c = CHR 0x22 \<or> c = CHR 0x27" "m \<noteq> c" "key \<noteq> []" "hd key \<noteq> c"
  shows "operand key (fst (get_glyph (c # s) m)) = None"
proof -
  have "\<not> sim_isspace (cint c)" "\<not> sim_islower (cint c)" using assms(1) by (auto simp: ctype_defs cint_def)
  then have "\<exists>t. fst (get_glyph (c # s) m) = c # t"
    using assms by (auto simp: get_glyph_def get_glyph_gen_def Let_def case_prod_beta)
  with assms(3,4) show ?thesis by (cases key) (auto simp: operand_def)
qed


end
