(* ===== verification/SubVars.thy ===== *)
theory SubVars
  imports KeyedStore
begin

text \<open>
  The substitution variables of \<^verbatim>\<open>scp_cmdvars.c\<close>: a table of names and values.  A later entry
  of the same name is never reached, so the table keeps the names distinct; it implements a map.
\<close>

fun decimal :: "nat \<Rightarrow> string" where
  "decimal n = (if n < 10 then [char_of (48 + n)] else decimal (n div 10) @ [char_of (48 + n mod 10)])"

declare decimal.simps [simp del]

type_synonym sub_vars = "(string \<times> string) list"

fun sim_sub_var_set :: "string \<Rightarrow> string \<Rightarrow> sub_vars \<Rightarrow> sub_vars" where
  "sim_sub_var_set name val [] = [(name, val)]"
| "sim_sub_var_set name val ((n, v) # r) =
     (if name = n then (n, val) # r else (n, v) # sim_sub_var_set name val r)"

fun sim_sub_var_unset :: "string \<Rightarrow> sub_vars \<Rightarrow> sub_vars" where
  "sim_sub_var_unset name [] = []"
| "sim_sub_var_unset name ((n, v) # r) = (if name = n then r else (n, v) # sim_sub_var_unset name r)"

text \<open>The loop of \<^verbatim>\<open>sim_sub_var_clear_prefix\<close> visits the entries from the last to the first.\<close>

primrec clear_prefix_loop :: "string \<Rightarrow> nat \<Rightarrow> sub_vars \<Rightarrow> sub_vars" where
  "clear_prefix_loop prefix 0 vars = vars"
| "clear_prefix_loop prefix (Suc i) vars =
     clear_prefix_loop prefix i
       (if take (length prefix) (fst (vars ! i)) = prefix then sim_sub_var_unset (fst (vars ! i)) vars else vars)"

definition sim_sub_var_clear_prefix :: "string \<Rightarrow> sub_vars \<Rightarrow> sub_vars" where
  "sim_sub_var_clear_prefix prefix vars = clear_prefix_loop prefix (length vars) vars"

text \<open>A request to the table: \<^const>\<open>Some\<close> value to set, \<^const>\<open>None\<close> to unset.\<close>

definition sub_var_request :: "string \<Rightarrow> string option \<Rightarrow> sub_vars \<Rightarrow> sub_vars" where
  "sub_var_request name x vars = (case x of Some v \<Rightarrow> sim_sub_var_set name v vars | None \<Rightarrow> sim_sub_var_unset name vars)"

abbreviation names_distinct :: "sub_vars \<Rightarrow> bool" where
  "names_distinct vars \<equiv> distinct (map fst vars)"

lemma set_map_of: "map_of (sim_sub_var_set name val vars) = (map_of vars)(name \<mapsto> val)"
  by (induction name val vars rule: sim_sub_var_set.induct) auto

lemma unset_map_of: "names_distinct vars \<Longrightarrow> map_of (sim_sub_var_unset name vars) = (map_of vars)(name := None)"
  by (induction name vars rule: sim_sub_var_unset.induct) (auto simp: fun_eq_iff map_of_eq_None_iff)

lemma set_names: "fst ` set (sim_sub_var_set name val vars) = insert name (fst ` set vars)"
  by (induction name val vars rule: sim_sub_var_set.induct) auto

lemma set_distinct: "names_distinct vars \<Longrightarrow> names_distinct (sim_sub_var_set name val vars)"
  by (induction name val vars rule: sim_sub_var_set.induct) (auto simp: set_names)

lemma unset_subset: "set (sim_sub_var_unset name vars) \<subseteq> set vars"
  by (induction name vars rule: sim_sub_var_unset.induct) auto

lemma unset_distinct: "names_distinct vars \<Longrightarrow> names_distinct (sim_sub_var_unset name vars)"
proof (induction name vars rule: sim_sub_var_unset.induct)
  case (2 name n v r)
  then show ?case using unset_subset [of name r] by auto
qed simp

interpretation sub_vars: keyed_store map_of "\<lambda>vars. ()" sub_var_request "\<lambda>e k x c. x" names_distinct
  by unfold_locales (auto simp: sub_var_request_def set_map_of unset_map_of set_distinct unset_distinct split: option.split)

lemma unset_at: "names_distinct (xs @ (n, v) # ys) \<Longrightarrow> sim_sub_var_unset n (xs @ (n, v) # ys) = xs @ ys"
  by (induction xs) auto

lemma clear_prefix_loop_filter:
  "names_distinct (xs @ ys) \<Longrightarrow> clear_prefix_loop prefix (length xs) (xs @ ys) =
     filter (\<lambda>(n, v). take (length prefix) n \<noteq> prefix) xs @ ys"
proof (induction xs arbitrary: ys rule: rev_induct)
  case (snoc x xs)
  obtain n v where x: "x = (n, v)" by fastforce
  have d: "names_distinct (xs @ (n, v) # ys)" "names_distinct (xs @ ys)" using snoc.prems by (auto simp: x)
  show ?case
    using snoc.IH [OF d(2)] snoc.IH [of "(n, v) # ys"] d unset_at [OF d(1)] by (simp add: x nth_append)
qed simp

lemma clear_prefix_filter:
  "names_distinct vars \<Longrightarrow> sim_sub_var_clear_prefix prefix vars = filter (\<lambda>(n, v). take (length prefix) n \<noteq> prefix) vars"
  using clear_prefix_loop_filter [of vars "[]" prefix] by (simp add: sim_sub_var_clear_prefix_def)

subsection \<open>Properties\<close>

text \<open>
  C20. Refinement: the table of substitution variables is a map: after any sequence of settings and
  removals a name has the value of the last request for it, or what it had before, names stay
  distinct, and clearing a prefix removes exactly the names that start with it.
\<close>

theorem sub_vars_are_map:
  assumes "names_distinct vars"
  shows "let vars' = fold (case_prod sub_var_request) xs vars in
    names_distinct vars' \<and>
    map_of vars' k = fold (\<lambda>p c. snd p) (filter (\<lambda>p. fst p = k) xs) (map_of vars k) \<and>
    map_of (sim_sub_var_clear_prefix prefix vars') k = (if take (length prefix) k = prefix then None else map_of vars' k)"
proof -
  let ?v = "fold (case_prod sub_var_request) xs vars"
  have v: "names_distinct ?v" "map_of ?v k = fold (\<lambda>p c. snd p) (filter (\<lambda>p. fst p = k) xs) (map_of vars k)"
    using sub_vars.update_run [OF assms] by blast+
  have "map_of (filter (\<lambda>(n, v). take (length prefix) n \<noteq> prefix) vs) k = (if take (length prefix) k = prefix then None else map_of vs k)"
    for vs :: sub_vars by (induction vs) auto
  with v show ?thesis by (simp add: clear_prefix_filter Let_def)
qed

theorem sub_vars_are_map_witness:
  "map_of (fold (case_prod sub_var_request) [(''A'', Some ''1''), (''A'', Some ''2''), (''B'', Some ''3''), (''B'', None)] []) ''A'' = Some ''2''"
  using sub_vars_are_map [of "[]" "[(''A'', Some ''1''), (''A'', Some ''2''), (''B'', Some ''3''), (''B'', None)]" "''A''" "''X''"]
  by (simp add: Let_def)

end
