(* ===== verification/Expect.thy ===== *)
theory Expect
  imports QuotedArgs Breakpoint SubVars
begin

text \<open>
  Expect rules and injected input, \<^verbatim>\<open>scp_expect.c\<close>.  Every byte of console output goes through
  \<^verbatim>\<open>sim_exp_check\<close>, which keeps the last bytes in a ring buffer and looks for a rule that they
  match; a rule that has matched often enough starts its action and schedules a stop through the
  event queue.  \<^verbatim>\<open>sim_send_input\<close> queues bytes that the keyboard poll will find.

  Regular expressions are those of the PCRE2 library, which is a parameter.
\<close>

unbundle bit_operations_syntax

subsection \<open>Data\<close>

text \<open>The size of a match string is its length; a regular expression has none.\<close>

record 'r exptab =
  ex_match :: "u8 list"
  match_pattern :: string
  ex_cnt :: int
  ex_after :: u32
  ex_switches :: u32
  ex_regex :: "'r option"
  ex_act :: "string option"

text \<open>An empty list of rules is the null pointer.\<close>

record 'r expect =
  ex_rules :: "'r exptab list"
  ex_buf :: "u8 list"
  buf_ins :: nat
  buf_size :: nat
  buf_data :: nat
  default_haltafter :: u32

record expst = brkst +
  sim_sub_vars :: sub_vars
  sim_exp_match_sub_count :: nat

text \<open>
  The library: compilation of a pattern, with or without regard to case, the number of its groups,
  and the match of a subject, with the range of each group.  The other fields are what memory that
  \<^verbatim>\<open>realloc\<close> adds contains, the text that a command had before the substitution of its arguments,
  the units and the number of the unit that stops the simulation.
\<close>

record ('r, 's) exp_env =
  pcre2_compile :: "string \<Rightarrow> bool \<Rightarrow> 'r option"
  capture_count :: "'r \<Rightarrow> nat"
  pcre2_match :: "'r \<Rightarrow> u8 list \<Rightarrow> (nat \<times> nat) option list option"
  fresh_byte :: "nat \<Rightarrow> u8"
  exp_unsub :: "string \<Rightarrow> string"
  exp_ops :: "'s unit_ops"
  sim_expect_unit :: uid

text \<open>A write outside the buffer, a read of memory that was never written, a pattern without delimiters.\<close>

datatype exp_fault = Buffer_Overrun | Uninitialised_Read | Pattern_Too_Short | Str_Fault str_fault

abbreviation (input) SCPE_NOMESSAGE :: t_stat where "SCPE_NOMESSAGE \<equiv> 0x40000000"
abbreviation (input) SCPE_2FARG :: t_stat where "SCPE_2FARG \<equiv> 94"
abbreviation (input) SCPE_2MARG :: t_stat where "SCPE_2MARG \<equiv> 95"

definition EXP_TYP_PERSIST :: u32 where "EXP_TYP_PERSIST = SWMASK CHR ''P''"
definition EXP_TYP_CLEARALL :: u32 where "EXP_TYP_CLEARALL = SWMASK CHR ''C''"
definition EXP_TYP_REGEX :: u32 where "EXP_TYP_REGEX = SWMASK CHR ''R''"
definition EXP_TYP_REGEX_I :: u32 where "EXP_TYP_REGEX_I = SWMASK CHR ''I''"
definition EXP_TYP_TIME :: u32 where "EXP_TYP_TIME = SWMASK CHR ''T''"

abbreviation is_regex :: "'r exptab \<Rightarrow> bool" where
  "is_regex ep \<equiv> ex_switches ep AND EXP_TYP_REGEX \<noteq> 0"

definition sim_expect_init_context :: "'r expect \<Rightarrow> 'r expect" where
  "sim_expect_init_context ex = ex\<lparr>default_haltafter := 0\<rparr>"

text \<open>A context as static memory has it.\<close>

definition new_expect :: "'r expect" where
  "new_expect = \<lparr>ex_rules = [], ex_buf = [], buf_ins = 0, buf_size = 0, buf_data = 0, default_haltafter = 0\<rparr>"

subsection \<open>Rules\<close>

text \<open>The index of the first rule with the pattern, at or after a position.\<close>

definition sim_exp_fnd :: "'r expect \<Rightarrow> string \<Rightarrow> nat \<Rightarrow> nat option" where
  "sim_exp_fnd ex pat start_rule =
     List.find (\<lambda>i. match_pattern (ex_rules ex ! i) = pat) [start_rule..<length (ex_rules ex)]"

definition sim_exp_clr_tab :: "'r expect \<Rightarrow> nat \<Rightarrow> 'r expect" where
  "sim_exp_clr_tab ex i = ex\<lparr>ex_rules := take i (ex_rules ex) @ drop (Suc i) (ex_rules ex)\<rparr>"

lemma sim_exp_fnd_bound: "sim_exp_fnd ex pat start = Some i \<Longrightarrow> start \<le> i \<and> i < length (ex_rules ex)"
  by (auto simp: sim_exp_fnd_def find_Some_iff)

function sim_exp_clr_loop :: "'r expect \<Rightarrow> string \<Rightarrow> nat \<Rightarrow> 'r expect" where
  "sim_exp_clr_loop ex pat start =
     (case sim_exp_fnd ex pat start of
        None \<Rightarrow> ex
      | Some i \<Rightarrow> sim_exp_clr_loop (sim_exp_clr_tab ex i) pat i)"
  by pat_completeness auto

termination
  by (relation "measure (\<lambda>(ex, pat, start). length (ex_rules ex))")
    (auto simp: sim_exp_clr_tab_def dest: sim_exp_fnd_bound)

declare sim_exp_clr_loop.simps [simp del]

definition sim_exp_clr :: "'r expect \<Rightarrow> string \<Rightarrow> t_stat \<times> 'r expect" where
  "sim_exp_clr ex pat = (SCPE_OK, sim_exp_clr_loop ex pat 0)"

definition sim_exp_clrall :: "'r expect \<Rightarrow> t_stat \<times> 'r expect" where
  "sim_exp_clrall ex = (SCPE_OK, ex\<lparr>ex_rules := [], ex_buf := [], buf_size := 0, buf_data := 0, buf_ins := 0\<rparr>)"

text \<open>The pattern between the delimiters.\<close>

definition sim_exp_extract_regex_pattern :: "string \<Rightarrow> string" where
  "sim_exp_extract_regex_pattern pat = butlast (tl pat)"

text \<open>
  The part of \<^verbatim>\<open>sim_exp_set\<close> that examines the pattern: a status that refuses it, or the rule's match
  string and compiled expression.
\<close>

definition sim_exp_prepare ::
  "('r, 's) exp_env \<Rightarrow> string \<Rightarrow> u32 \<Rightarrow> exp_fault + (t_stat + u8 list \<times> 'r option)" where
  "sim_exp_prepare env pat switches =
     (if switches AND EXP_TYP_REGEX \<noteq> 0
      then if length pat < 2 then Inl Pattern_Too_Short
           else (case pcre2_compile env (sim_exp_extract_regex_pattern pat) (switches AND EXP_TYP_REGEX_I \<noteq> 0) of
                   None \<Rightarrow> Inr (Inl (SCPE_ARG + SCPE_NOMESSAGE))
                 | Some re \<Rightarrow> Inr (Inr ([], Some re)))
      else if switches AND EXP_TYP_REGEX_I \<noteq> 0 then Inr (Inl SCPE_ARG)
      else case sim_decode_quoted_string pat of
             Inl f \<Rightarrow> Inl (Str_Fault f)
           | Inr (st, m) \<Rightarrow> if st \<noteq> SCPE_OK then Inr (Inl SCPE_ARG) else Inr (Inr (m, None)))"

text \<open>One round of the loop that makes the buffer large enough; \<open>pl\<close> is the length of the new rule's pattern.\<close>

definition grow_buffer :: "('r, 's) exp_env \<Rightarrow> nat \<Rightarrow> 'r exptab \<Rightarrow> 'r expect \<Rightarrow> 'r expect" where
  "grow_buffer env pl r ex =
     (let compare_size = (if is_regex r then max (10 * pl) 1024 else length (ex_match r))
      in if compare_size \<ge> buf_size ex
         then ex\<lparr>ex_buf := ex_buf ex @ map (fresh_byte env) [length (ex_buf ex)..<compare_size + 2],
                  buf_size := compare_size + 1\<rparr>
         else ex)"

definition sim_exp_set ::
  "('r, 's) exp_env \<Rightarrow> 'r expect \<Rightarrow> string \<Rightarrow> int \<Rightarrow> u32 \<Rightarrow> u32 \<Rightarrow> string option \<Rightarrow> exp_fault + t_stat \<times> 'r expect" where
  "sim_exp_set env ex pat cnt after switches act =
     (if after > 0x7FFFFFFF then Inr (SCPE_ARG, ex)
      else case sim_exp_prepare env pat switches of
        Inl f \<Rightarrow> Inl f
      | Inr (Inl st) \<Rightarrow> Inr (st, ex)
      | Inr (Inr (m, re)) \<Rightarrow>
          if \<exists>r \<in> set (ex_rules ex). match_pattern r = pat \<and> ex_switches r AND EXP_TYP_PERSIST \<noteq> 0 then Inr (SCPE_ARG, ex)
          else if after \<noteq> 0 \<and> ex_rules ex \<noteq> [] then Inr (SCPE_ARG, ex)
          else
            (let a = (case act of None \<Rightarrow> None
                      | Some t \<Rightarrow> (let t' = skip_space t in if t' = [] then None else Some (exp_unsub env t')));
                 ep = \<lparr>ex_match = m, match_pattern = pat, ex_cnt = cnt, ex_after = after, ex_switches = switches,
                       ex_regex = re, ex_act = a\<rparr>;
                 exp1 = ex\<lparr>ex_rules := ex_rules ex @ [ep]\<rparr>
             in Inr (SCPE_OK, fold (grow_buffer env (length pat)) (ex_rules exp1) exp1)))"

subsection \<open>The commands\<close>

text \<open>\<^verbatim>\<open>EXPECT\<close> with its optional repeat count and halt delay, on the context that the command names.\<close>

definition expect_count :: "string \<Rightarrow> (int \<times> string) option" where
  "expect_count cptr =
     (if deref cptr = CHR ''[''
      then let (v, c1) = strtotv (tl cptr) 10; cnt = signed_take_bit 31 (uint v)
           in if c1 = cptr \<or> deref c1 \<noteq> CHR '']'' \<or> cnt \<le> 0 then None else Some (cnt - 1, skip_space (tl c1))
      else Some (0, cptr))"

definition expect_haltafter :: "'r expect \<Rightarrow> string \<Rightarrow> (u32 \<times> bool \<times> string) option" where
  "expect_haltafter ex cptr =
     (let (g, tptr) = get_glyph cptr CHR '','' in
      case operand ''HALTAFTER='' g of
        Some v \<Rightarrow> (let (n, r) = get_uint v 10 0x7FFFFFFF in if r \<noteq> SCPE_OK then None else Some (ucast n, True, tptr))
      | None \<Rightarrow> Some (default_haltafter ex, False, cptr))"

definition sim_set_expect :: "('r, 's) exp_env \<Rightarrow> u32 \<Rightarrow> 'r expect \<Rightarrow> string \<Rightarrow> exp_fault + t_stat \<times> 'r expect" where
  "sim_set_expect env switches ex cptr =
     (if cptr = [] then Inr (SCPE_2FARG, ex)
      else case expect_count cptr of
        None \<Rightarrow> Inr (SCPE_ARG, ex)
      | Some (cnt, c1) \<Rightarrow>
      case expect_haltafter ex c1 of
        None \<Rightarrow> Inr (SCPE_ARG, ex)
      | Some (after, after_set, c2) \<Rightarrow>
          if c2 \<noteq> [] \<and> deref c2 \<noteq> CHR 0x22 \<and> deref c2 \<noteq> CHR 0x27 then Inr (SCPE_ARG, ex)
          else let (g, act) = get_glyph_quoted c2 NUL
          in if g = [] \<and> act = [] \<and> after_set then Inr (SCPE_OK, ex\<lparr>default_haltafter := after\<rparr>)
             else sim_exp_set env ex g cnt after switches (Some act))"

definition sim_set_noexpect :: "'r expect \<Rightarrow> string \<Rightarrow> t_stat \<times> 'r expect" where
  "sim_set_noexpect ex cptr =
     (if cptr = [] then sim_exp_clrall ex
      else if deref cptr \<noteq> CHR 0x22 \<and> deref cptr \<noteq> CHR 0x27 then (SCPE_ARG, ex)
      else let (g, r) = get_glyph_quoted cptr NUL
           in if r \<noteq> [] then (SCPE_2MARG, ex) else sim_exp_clr ex g)"

subsection \<open>Checking\<close>

text \<open>\<open>memcmp\<close> of \<open>n\<close> bytes from given offsets.\<close>

definition same_bytes :: "u8 list \<Rightarrow> nat \<Rightarrow> u8 list \<Rightarrow> nat \<Rightarrow> nat \<Rightarrow> bool" where
  "same_bytes a i b j n \<longleftrightarrow> take n (drop i a) = take n (drop j b)"

definition sim_exp_check_exact_rule :: "'r expect \<Rightarrow> 'r exptab \<Rightarrow> bool" where
  "sim_exp_check_exact_rule ex ep =
     (let size = length (ex_match ep); ins = buf_ins ex in
      if buf_data ex < size then False
      else if ins < size
      then (if ins > 0 \<and> \<not> same_bytes (ex_buf ex) 0 (ex_match ep) (size - ins) ins then False
            else same_bytes (ex_buf ex) (buf_size ex - (size - ins)) (ex_match ep) 0 (size - ins))
      else same_bytes (ex_buf ex) (ins - size) (ex_match ep) 0 size)"

text \<open>
  The subject of a regular expression: the bytes up to the insertion point, or without the NUL bytes
  among them and with one NUL at the end.  The match reads as many bytes as there were, so more than
  one NUL makes it read what was never written.
\<close>

definition sim_exp_build_regex_buffer :: "'r expect \<Rightarrow> exp_fault + u8 list" where
  "sim_exp_build_regex_buffer ex =
     (let data = take (buf_ins ex) (ex_buf ex); text = filter (\<lambda>b. b \<noteq> 0) data in
      if length text = length data then Inr data
      else if length text + 1 = length data then Inr (text @ [0])
      else Inl Uninitialised_Read)"

definition group_name :: "nat \<Rightarrow> string" where
  "group_name j = ''_EXPECT_MATCH_GROUP_'' @ decimal j"

definition group_text :: "u8 list \<Rightarrow> nat \<Rightarrow> nat \<Rightarrow> string" where
  "group_text cbuf b e = takeWhile (\<lambda>c. c \<noteq> NUL) (map (\<lambda>x. char_of (unat x)) (take (e - b) (drop b cbuf)))"

definition export_group :: "u8 list \<Rightarrow> nat \<times> (nat \<times> nat) option \<Rightarrow> sub_vars \<Rightarrow> sub_vars" where
  "export_group cbuf p vars =
     (case snd p of
        Some (b, e) \<Rightarrow> (if b \<le> e then sim_sub_var_set (group_name (fst p)) (group_text cbuf b e) vars
                       else sim_sub_var_unset (group_name (fst p)) vars)
      | None \<Rightarrow> sim_sub_var_unset (group_name (fst p)) vars)"

definition sim_exp_export_regex_groups ::
  "u8 list \<Rightarrow> (nat \<times> nat) option list \<Rightarrow> nat \<Rightarrow> 'a expst_scheme \<Rightarrow> 'a expst_scheme" where
  "sim_exp_export_regex_groups cbuf groups re_nsub s =
     s\<lparr>sim_sub_vars :=
         fold (\<lambda>j. sim_sub_var_set (group_name j) []) [length groups..<sim_exp_match_sub_count s]
           (fold (export_group cbuf) (zip [0..<length groups] groups) (sim_sub_vars s)),
       sim_exp_match_sub_count := re_nsub + 1\<rparr>"

definition sim_exp_check_regex_rule ::
  "('r, 's) exp_env \<Rightarrow> 'r expect \<Rightarrow> 'r exptab \<Rightarrow> 'a expst_scheme \<Rightarrow> exp_fault + bool \<times> 'a expst_scheme" where
  "sim_exp_check_regex_rule env ex ep s =
     (case sim_exp_build_regex_buffer ex of
        Inl f \<Rightarrow> Inl f
      | Inr cbuf \<Rightarrow>
          (case ex_regex ep of
             None \<Rightarrow> Inr (False, s)
           | Some re \<Rightarrow>
               (case pcre2_match env re cbuf of
                  None \<Rightarrow> Inr (False, s)
                | Some groups \<Rightarrow> Inr (True, sim_exp_export_regex_groups cbuf groups (capture_count env re) s))))"

text \<open>The loop over the rules: the first that matches, and whether a regular expression was tried.\<close>

fun check_rules ::
  "('r, 's) exp_env \<Rightarrow> 'r expect \<Rightarrow> 'r exptab list \<Rightarrow> nat \<Rightarrow> bool \<Rightarrow> 'a expst_scheme \<Rightarrow>
   exp_fault + nat option \<times> bool \<times> 'a expst_scheme" where
  "check_rules env ex [] i tried s = Inr (None, tried, s)"
| "check_rules env ex (ep # r) i tried s =
     (if is_regex ep
      then (case sim_exp_check_regex_rule env ex ep s of
              Inl f \<Rightarrow> Inl f
            | Inr (hit, s') \<Rightarrow> if hit then Inr (Some i, True, s') else check_rules env ex r (Suc i) True s')
      else if sim_exp_check_exact_rule ex ep then Inr (Some i, tried, s)
      else check_rules env ex r (Suc i) tried s)"

text \<open>Storing a byte, with a NUL behind it.\<close>

definition put_byte :: "u8 \<Rightarrow> 'r expect \<Rightarrow> 'r expect" where
  "put_byte d ex = ex\<lparr>ex_buf := (ex_buf ex)[buf_ins ex := d, buf_ins ex + 1 := 0], buf_ins := buf_ins ex + 1,
     buf_data := (if buf_data ex < buf_size ex then buf_data ex + 1 else buf_data ex)\<rparr>"

text \<open>What happens to a full buffer.\<close>

definition wrap_buffer :: "bool \<Rightarrow> 'r expect \<Rightarrow> 'r expect" where
  "wrap_buffer tried ex =
     (if buf_ins ex = buf_size ex
      then if tried
           then let half = buf_size ex div 2; n = buf_size ex - half
                in ex\<lparr>ex_buf := take n (drop half (ex_buf ex)) @ drop n (ex_buf ex), buf_ins := n, buf_data := n\<rparr>
           else ex\<lparr>buf_ins := 0\<rparr>
      else ex)"

definition sim_exp_schedule_halt ::
  "('r, 'a expst_scheme) exp_env \<Rightarrow> u32 \<Rightarrow> u32 \<Rightarrow> 'a expst_scheme \<Rightarrow> t_stat \<times> 'a expst_scheme" where
  "sim_exp_schedule_halt env after switches s =
     (if switches AND EXP_TYP_TIME \<noteq> 0 then sim_activate_after (exp_ops env) (sim_expect_unit env) after s
      else sim_activate (exp_ops env) (sim_expect_unit env) (sint after) s)"

definition exp_fire ::
  "('r, 'a expst_scheme) exp_env \<Rightarrow> 'r expect \<Rightarrow> nat \<Rightarrow> 'a expst_scheme \<Rightarrow> t_stat \<times> 'r expect \<times> 'a expst_scheme" where
  "exp_fire env ex i s0 =
     (let ep = ex_rules ex ! i;
          s = s0\<lparr>sim_sub_vars := sim_sub_var_set ''_EXPECT_MATCH_PATTERN'' (match_pattern ep) (sim_sub_vars s0)\<rparr>
      in if ex_cnt ep > 0
         then (SCPE_OK, ex\<lparr>ex_rules := (ex_rules ex)[i := ep\<lparr>ex_cnt := ex_cnt ep - 1\<rparr>], buf_data := 0, buf_ins := 0\<rparr>, s)
         else let s1 = sim_brk_setact (ex_act ep) s;
                  exp1 = (if ex_switches ep AND EXP_TYP_CLEARALL \<noteq> 0 then snd (sim_exp_clrall ex)
                          else if ex_switches ep AND EXP_TYP_PERSIST = 0 then sim_exp_clr_tab ex i else ex);
                  (r, s2) = sim_exp_schedule_halt env (ex_after ep) (ex_switches ep) s1
              in if r \<noteq> SCPE_OK then (r, exp1, s2) else (SCPE_OK, exp1\<lparr>buf_data := 0, buf_ins := 0\<rparr>, s2))"

definition sim_exp_check ::
  "('r, 'a expst_scheme) exp_env \<Rightarrow> 'r expect \<Rightarrow> u8 \<Rightarrow> 'a expst_scheme \<Rightarrow> exp_fault + t_stat \<times> 'r expect \<times> 'a expst_scheme" where
  "sim_exp_check env ex data s =
     (if ex_rules ex = [] then Inr (SCPE_OK, ex, s)
      else if length (ex_buf ex) \<le> buf_ins ex + 1 then Inl Buffer_Overrun
      else let exp1 = put_byte data ex
      in case check_rules env exp1 (ex_rules exp1) 0 False s of
           Inl f \<Rightarrow> Inl f
         | Inr (hit, tried, s1) \<Rightarrow>
             (let exp2 = wrap_buffer tried exp1
              in case hit of None \<Rightarrow> Inr (SCPE_OK, exp2, s1) | Some i \<Rightarrow> Inr (exp_fire env exp2 i s1)))"

end
