(* ===== verification/ExpectSemantics.thy ===== *)
theory ExpectSemantics
  imports Expect "HOL-Library.Sublist"
begin

text \<open>
  What expect rules do: the ring buffer holds the end of the output, an exact rule matches when the
  output ends with its string, and the commands set rules for the strings they quote.
\<close>

unbundle bit_operations_syntax

subsection \<open>The ring buffer\<close>

text \<open>
  The bytes of the ring from the newest to the oldest.  The NUL that \<^verbatim>\<open>sim_exp_check\<close> stores behind
  a new byte overwrites the oldest one, so the ring knows the output except for its oldest byte.
\<close>

definition ring_back :: "'r expect \<Rightarrow> u8 list" where
  "ring_back ex = rev (take (buf_ins ex) (ex_buf ex)) @ rev (drop (buf_ins ex) (take (buf_size ex) (ex_buf ex)))"

definition ring_view :: "'r expect \<Rightarrow> u8 list \<Rightarrow> bool" where
  "ring_view ex out \<longleftrightarrow> length (ex_buf ex) = buf_size ex + 1 \<and> buf_ins ex \<le> buf_size ex \<and>
     buf_data ex = min (length out) (buf_size ex) \<and>
     (\<forall>n. n \<le> length out \<and> n < buf_size ex \<longrightarrow> take n (ring_back ex) = take n (rev out))"

lemma suffix_take_rev: "suffix m out \<longleftrightarrow> length m \<le> length out \<and> take (length m) (rev out) = rev m"
proof
  assume "suffix m out"
  then show "length m \<le> length out \<and> take (length m) (rev out) = rev m" by (auto simp: suffix_def)
next
  assume "length m \<le> length out \<and> take (length m) (rev out) = rev m"
  then have "rev out = rev m @ drop (length m) (rev out)" by (metis append_take_drop_id)
  then show "suffix m out" by (metis rev_append rev_rev_ident suffix_def)
qed

text \<open>The comparison of a rule, in one piece or in two, compares with the end of the ring.\<close>

lemma two_pieces:
  assumes "length a = i" "length b = length m - i" "i \<le> length m"
  shows "b @ a = m \<longleftrightarrow> a = drop (length m - i) m \<and> b = take (length m - i) m"
proof
  assume "b @ a = m"
  then show "a = drop (length m - i) m \<and> b = take (length m - i) m" using assms by auto
qed (metis append_take_drop_id)

lemma check_exact_ring:
  assumes len: "length (ex_buf ex) = buf_size ex + 1" "buf_ins ex \<le> buf_size ex" and n: "length (ex_match ep) \<le> buf_size ex"
  shows "sim_exp_check_exact_rule ex ep \<longleftrightarrow> length (ex_match ep) \<le> buf_data ex \<and>
     take (length (ex_match ep)) (ring_back ex) = rev (ex_match ep)"
proof (cases "buf_data ex < length (ex_match ep)")
  case False
  let ?m = "ex_match ep" and ?i = "buf_ins ex" and ?s = "buf_size ex" and ?buf = "ex_buf ex"
  show ?thesis
  proof (cases "?i < length ?m")
    case True
    let ?k = "length ?m - ?i"
    have "take (length ?m) (ring_back ex) = rev (take ?k (drop (?s - ?k) ?buf) @ take ?i ?buf)"
      using True n len by (simp add: ring_back_def take_rev drop_take)
    then have "take (length ?m) (ring_back ex) = rev ?m \<longleftrightarrow> take ?k (drop (?s - ?k) ?buf) @ take ?i ?buf = ?m"
      by (simp only: rev_is_rev_conv)
    moreover have "take ?k (drop (?s - ?k) ?buf) @ take ?i ?buf = ?m \<longleftrightarrow>
        take ?i ?buf = drop ?k ?m \<and> take ?k (drop (?s - ?k) ?buf) = take ?k ?m"
      using True n len by (intro two_pieces) simp_all
    moreover have "same_bytes ?buf 0 ?m ?k ?i \<longleftrightarrow> take ?i ?buf = drop ?k ?m" "same_bytes ?buf (?s - ?k) ?m 0 ?k \<longleftrightarrow>
        take ?k (drop (?s - ?k) ?buf) = take ?k ?m" using True by (simp_all add: same_bytes_def)
    ultimately have "take (length ?m) (ring_back ex) = rev ?m \<longleftrightarrow> same_bytes ?buf 0 ?m ?k ?i \<and> same_bytes ?buf (?s - ?k) ?m 0 ?k"
      by (simp only:)
    moreover have "?i = 0 \<Longrightarrow> same_bytes ?buf 0 ?m ?k ?i" by (simp add: same_bytes_def)
    ultimately show ?thesis using True False by (auto simp: sim_exp_check_exact_rule_def Let_def)
  next
    case i: False
    have "take (length ?m) (ring_back ex) = rev (take (length ?m) (drop (?i - length ?m) ?buf))"
      using i n len by (simp add: ring_back_def take_rev drop_take)
    with i False show ?thesis by (simp add: sim_exp_check_exact_rule_def same_bytes_def Let_def)
  qed
qed (simp add: sim_exp_check_exact_rule_def Let_def)

lemma check_exact_suffix:
  assumes "ring_view ex out" "length (ex_match ep) < buf_size ex"
  shows "sim_exp_check_exact_rule ex ep \<longleftrightarrow> suffix (ex_match ep) out"
  using check_exact_ring [of ex ep] assms by (auto simp: ring_view_def suffix_take_rev)

lemma put_byte_ring:
  assumes len: "length (ex_buf ex) = buf_size ex + 1" "buf_ins ex < buf_size ex" and n: "n < buf_size ex"
  shows "take n (ring_back (put_byte d ex)) = take n (d # ring_back ex)"
proof -
  let ?i = "buf_ins ex" and ?s = "buf_size ex" and ?buf = "ex_buf ex"
  have t: "take (Suc ?i) (?buf[?i := d, Suc ?i := 0]) = take ?i ?buf @ [d]"
    using len by (simp add: take_Suc_conv_app_nth)
  show ?thesis
  proof (cases "Suc ?i < ?s")
    case False
    with len have s: "?s = Suc ?i" by simp
    have "take n ((d # rev (take ?i ?buf)) @ r) = take n (d # rev (take ?i ?buf))" for r
      unfolding take_append using n s len by simp
    with s t len show ?thesis by (simp add: ring_back_def put_byte_def)
  next
    case True
    let ?r = "drop (Suc (Suc ?i)) (take ?s ?buf)"
    have "drop (Suc ?i) (take ?s (?buf[?i := d, Suc ?i := 0])) = 0 # ?r"
      using True len by (intro nth_equalityI) (auto simp: nth_Cons' nth_list_update)
    moreover have "drop ?i (take ?s ?buf) = ?buf ! ?i # ?buf ! Suc ?i # ?r"
      using Cons_nth_drop_Suc [of ?i "take ?s ?buf"] Cons_nth_drop_Suc [of "Suc ?i" "take ?s ?buf"] True len by simp
    moreover have "length (d # rev (take ?i ?buf) @ rev ?r) = ?s - 1" using True len by simp
    ultimately show ?thesis using t n by (simp add: ring_back_def put_byte_def take_Cons')
  qed
qed

lemma put_byte_view:
  assumes v: "ring_view ex out" and i: "buf_ins ex < buf_size ex"
  shows "ring_view (put_byte d ex) (out @ [d])"
proof -
  have len: "length (ex_buf ex) = buf_size ex + 1" using v by (simp add: ring_view_def)
  have "take n (ring_back (put_byte d ex)) = take n (d # rev out)" if "n \<le> Suc (length out)" "n < buf_size ex" for n
  proof -
    have "n - 1 \<le> length out \<and> n - 1 < buf_size ex" using that by linarith
    then have "take (n - 1) (ring_back ex) = take (n - 1) (rev out)" using v unfolding ring_view_def by blast
    then show ?thesis using put_byte_ring [OF len i that(2)] by (simp add: take_Cons')
  qed
  moreover have "buf_data (put_byte d ex) = min (Suc (length out)) (buf_size ex)" "buf_ins (put_byte d ex) \<le> buf_size ex"
    "buf_size (put_byte d ex) = buf_size ex" "length (ex_buf (put_byte d ex)) = buf_size ex + 1"
    using v i by (auto simp: ring_view_def put_byte_def)
  ultimately show ?thesis by (simp add: ring_view_def)
qed

lemma wrap_view:
  assumes "ring_view ex out"
  shows "ring_view (wrap_buffer False ex) out"
proof -
  have "ring_back (wrap_buffer False ex) = ring_back ex"
    using assms by (auto simp: ring_view_def wrap_buffer_def ring_back_def)
  with assms show ?thesis by (simp add: ring_view_def wrap_buffer_def split: if_splits)
qed

subsection \<open>Contexts without regular expressions\<close>

definition exact_rules :: "'r expect \<Rightarrow> bool" where
  "exact_rules ex \<longleftrightarrow> list_all (\<lambda>r. \<not> is_regex r \<and> length (ex_match r) < buf_size ex) (ex_rules ex)"

definition expect_ok :: "'r expect \<Rightarrow> u8 list \<Rightarrow> bool" where
  "expect_ok ex out \<longleftrightarrow> ring_view ex out \<and> buf_ins ex < buf_size ex \<and> exact_rules ex"

text \<open>The first rule whose string the output ends with.\<close>

definition first_match :: "'r expect \<Rightarrow> u8 list \<Rightarrow> nat option" where
  "first_match ex out = List.find (\<lambda>i. suffix (ex_match (ex_rules ex ! i)) out) [0..<length (ex_rules ex)]"

lemma find_map: "List.find P (map f xs) = map_option f (List.find (\<lambda>x. P (f x)) xs)"
  by (induction xs) simp_all

lemma check_rules_exact:
  "list_all (\<lambda>r. \<not> is_regex r) rs \<Longrightarrow> check_rules env ex rs i tried s =
     Inr (map_option (\<lambda>k. i + k) (List.find (\<lambda>k. sim_exp_check_exact_rule ex (rs ! k)) [0..<length rs]), tried, s)"
proof (induction rs arbitrary: i)
  case (Cons r rs)
  have "[0..<Suc (length rs)] = 0 # map Suc [0..<length rs]" by (simp add: upt_conv_Cons map_Suc_upt del: upt_Suc)
  with Cons show ?case
    by (cases "List.find (\<lambda>k. sim_exp_check_exact_rule ex (rs ! k)) [0..<length rs]") (auto simp: find_map simp del: upt_Suc)
qed simp

lemma find_cong_upt: "(\<And>k. k < n \<Longrightarrow> P k = Q k) \<Longrightarrow> List.find P [0..<n] = List.find Q [0..<n]"
  by (rule find_cong) auto

lemma put_byte_fields [simp]: "ex_rules (put_byte d ex) = ex_rules ex" "buf_size (put_byte d ex) = buf_size ex"
  "ex_rules (wrap_buffer t ex) = ex_rules ex" "buf_size (wrap_buffer t ex) = buf_size ex"
  by (simp_all add: put_byte_def wrap_buffer_def Let_def)

lemma sim_exp_check_exact:
  assumes ok: "expect_ok ex out" and r: "ex_rules ex \<noteq> []"
  shows "sim_exp_check env ex d s =
    (let ex' = wrap_buffer False (put_byte d ex)
     in Inr (case first_match ex (out @ [d]) of None \<Rightarrow> (SCPE_OK, ex', s) | Some i \<Rightarrow> exp_fire env ex' i s))"
    "expect_ok (wrap_buffer False (put_byte d ex)) (out @ [d])"
proof -
  have v: "ring_view (put_byte d ex) (out @ [d])" using ok by (simp add: expect_ok_def put_byte_view)
  have ex: "list_all (\<lambda>r. \<not> is_regex r) (ex_rules ex)" "\<And>k. k < length (ex_rules ex) \<Longrightarrow> length (ex_match (ex_rules ex ! k)) < buf_size ex"
    using ok by (auto simp: expect_ok_def exact_rules_def list_all_length)
  have "List.find (\<lambda>k. sim_exp_check_exact_rule (put_byte d ex) (ex_rules ex ! k)) [0..<length (ex_rules ex)] =
      first_match ex (out @ [d])"
    unfolding first_match_def by (rule find_cong_upt) (simp add: check_exact_suffix [OF v] ex)
  then have "check_rules env (put_byte d ex) (ex_rules ex) 0 False s = Inr (first_match ex (out @ [d]), False, s)"
    using check_rules_exact [OF ex(1), of env "put_byte d ex" 0 False s] by (simp add: option.map_ident)
  moreover have "\<not> length (ex_buf ex) \<le> buf_ins ex + 1" using ok by (simp add: expect_ok_def ring_view_def)
  ultimately show "sim_exp_check env ex d s =
    (let ex' = wrap_buffer False (put_byte d ex)
     in Inr (case first_match ex (out @ [d]) of None \<Rightarrow> (SCPE_OK, ex', s) | Some i \<Rightarrow> exp_fire env ex' i s))"
    using r by (simp add: sim_exp_check_def Let_def split: option.split)
  have "buf_ins (put_byte d ex) \<le> buf_size ex" "0 < buf_size ex" using v ok by (simp_all add: ring_view_def expect_ok_def)
  then have "buf_ins (wrap_buffer False (put_byte d ex)) < buf_size ex" by (auto simp: wrap_buffer_def)
  with ok wrap_view [OF v] show "expect_ok (wrap_buffer False (put_byte d ex)) (out @ [d])"
    by (simp add: expect_ok_def exact_rules_def)
qed

text \<open>Output during which no rule matches.\<close>

primrec exp_feed ::
  "('r, 'a expst_scheme) exp_env \<Rightarrow> 'r expect \<Rightarrow> u8 list \<Rightarrow> 'a expst_scheme \<Rightarrow> exp_fault + t_stat \<times> 'r expect \<times> 'a expst_scheme" where
  "exp_feed env ex [] s = Inr (SCPE_OK, ex, s)"
| "exp_feed env ex (d # ds) s =
     (case sim_exp_check env ex d s of
        Inl f \<Rightarrow> Inl f
      | Inr (st, ex', s') \<Rightarrow> if st \<noteq> SCPE_OK then Inr (st, ex', s') else exp_feed env ex' ds s')"

lemma first_match_rules: "ex_rules ex' = ex_rules ex \<Longrightarrow> first_match ex' = first_match ex"
  by (simp add: first_match_def fun_eq_iff)

lemma exp_feed_quiet:
  assumes "expect_ok ex out" "ex_rules ex \<noteq> []"
    and "\<And>k. k \<le> length ds \<Longrightarrow> 0 < k \<Longrightarrow> first_match ex (out @ take k ds) = None"
  shows "\<exists>ex'. exp_feed env ex ds s = Inr (SCPE_OK, ex', s) \<and> expect_ok ex' (out @ ds) \<and> ex_rules ex' = ex_rules ex"
  using assms
proof (induction ds arbitrary: ex out)
  case (Cons d ds)
  let ?ex = "wrap_buffer False (put_byte d ex)"
  have ok: "expect_ok ?ex (out @ [d])" by (rule sim_exp_check_exact(2) [OF Cons.prems(1,2)])
  have "first_match ex (out @ [d]) = None" using Cons.prems(3) [of 1] by simp
  then have c: "sim_exp_check env ex d s = Inr (SCPE_OK, ?ex, s)"
    by (simp add: sim_exp_check_exact(1) [OF Cons.prems(1,2)] Let_def)
  have "first_match ?ex ((out @ [d]) @ take k ds) = None" if "k \<le> length ds" "0 < k" for k
    using Cons.prems(3) [of "Suc k"] that by (simp add: first_match_rules [of ?ex ex])
  with Cons.IH [OF ok] Cons.prems(2) c show ?case by simp
qed simp

subsection \<open>Setting and clearing rules\<close>

text \<open>A buffer that has not wrapped around holds the output from its start.\<close>

definition calm :: "'r expect \<Rightarrow> u8 list \<Rightarrow> bool" where
  "calm ex out \<longleftrightarrow> buf_data ex = length out \<and> buf_ins ex = length out \<and> take (length out) (ex_buf ex) = out \<and>
     (buf_size ex = 0 \<and> ex_buf ex = [] \<or> length (ex_buf ex) = buf_size ex + 1 \<and> length out < buf_size ex)"

lemma calm_view: "calm ex out \<Longrightarrow> 0 < buf_size ex \<Longrightarrow> ring_view ex out \<and> buf_ins ex < buf_size ex"
  by (auto simp: calm_def ring_view_def ring_back_def)

lemma grow_buffer_calm:
  assumes "calm ex out" "\<not> is_regex r"
  shows "calm (grow_buffer env pl r ex) out" "length (ex_match r) < buf_size (grow_buffer env pl r ex)"
    "buf_size ex \<le> buf_size (grow_buffer env pl r ex)" "ex_rules (grow_buffer env pl r ex) = ex_rules ex"
  using assms by (auto simp: grow_buffer_def calm_def Let_def)

lemma grow_all_calm:
  "calm ex out \<Longrightarrow> list_all (\<lambda>r. \<not> is_regex r) rs \<Longrightarrow>
     calm (fold (grow_buffer env pl) rs ex) out \<and> ex_rules (fold (grow_buffer env pl) rs ex) = ex_rules ex \<and>
     buf_size ex \<le> buf_size (fold (grow_buffer env pl) rs ex) \<and>
     list_all (\<lambda>r. length (ex_match r) < buf_size (fold (grow_buffer env pl) rs ex)) rs"
proof (induction rs arbitrary: ex)
  case (Cons r rs)
  note g = grow_buffer_calm [OF Cons.prems(1), of r env pl]
  from Cons.IH [of "grow_buffer env pl r ex"] Cons.prems(2) g show ?case by auto
qed simp

definition exact_rule :: "('r, 's) exp_env \<Rightarrow> string \<Rightarrow> u8 list \<Rightarrow> int \<Rightarrow> u32 \<Rightarrow> u32 \<Rightarrow> string option \<Rightarrow> 'r exptab" where
  "exact_rule env pat m cnt after switches act =
     \<lparr>ex_match = m, match_pattern = pat, ex_cnt = cnt, ex_after = after, ex_switches = switches, ex_regex = None,
      ex_act = (case act of None \<Rightarrow> None
                | Some t \<Rightarrow> (let t' = skip_space t in if t' = [] then None else Some (exp_unsub env t')))\<rparr>"

lemma sim_exp_set_exact:
  assumes set: "sim_exp_set env ex pat cnt after switches act = Inr (SCPE_OK, ex')"
    and calm: "calm ex out" and exact: "list_all (\<lambda>r. \<not> is_regex r) (ex_rules ex)" "switches AND EXP_TYP_REGEX = 0"
  shows "\<exists>m. sim_decode_quoted_string pat = Inr (SCPE_OK, m) \<and>
    ex_rules ex' = ex_rules ex @ [exact_rule env pat m cnt after switches act] \<and> expect_ok ex' out \<and> calm ex' out"
proof -
  obtain m where m: "sim_decode_quoted_string pat = Inr (SCPE_OK, m)"
    and ex': "ex' = fold (grow_buffer env (length pat)) (ex_rules ex @ [exact_rule env pat m cnt after switches act])
      (ex\<lparr>ex_rules := ex_rules ex @ [exact_rule env pat m cnt after switches act]\<rparr>)"
    using set exact(2) by (auto simp: sim_exp_set_def sim_exp_prepare_def exact_rule_def Let_def split: if_splits sum.splits prod.splits)
  let ?r = "ex_rules ex @ [exact_rule env pat m cnt after switches act]"
  have "calm (ex\<lparr>ex_rules := ?r\<rparr>) out" "list_all (\<lambda>r. \<not> is_regex r) ?r"
    using calm exact by (simp_all add: calm_def exact_rule_def)
  from grow_all_calm [OF this, of env "length pat"] ex'
  have g: "calm ex' out" "ex_rules ex' = ?r" "list_all (\<lambda>r. length (ex_match r) < buf_size ex') ?r" by auto
  then have "0 < buf_size ex'" by auto
  with g \<open>list_all (\<lambda>r. \<not> is_regex r) ?r\<close> calm_view [OF g(1)] have "expect_ok ex' out"
    by (auto simp: expect_ok_def exact_rules_def list_all_iff)
  with m g show ?thesis by blast
qed

lemma sim_exp_fnd_None: "sim_exp_fnd ex pat i = None \<Longrightarrow> \<forall>r \<in> set (drop i (ex_rules ex)). match_pattern r \<noteq> pat"
  by (auto simp: sim_exp_fnd_def find_None_iff in_set_conv_nth) (metis add.commute atLeastLessThan_iff le_add2 less_diff_conv)

lemma sim_exp_fnd_Some:
  assumes "sim_exp_fnd ex pat i = Some j"
  shows "match_pattern (ex_rules ex ! j) = pat" "\<forall>r \<in> set (take (j - i) (drop i (ex_rules ex))). match_pattern r \<noteq> pat"
  using assms by (auto simp: sim_exp_fnd_def find_Some_iff in_set_conv_nth)

lemma sim_exp_clr_loop_filter:
  "i \<le> length (ex_rules ex) \<Longrightarrow> sim_exp_clr_loop ex pat i =
     ex\<lparr>ex_rules := take i (ex_rules ex) @ filter (\<lambda>r. match_pattern r \<noteq> pat) (drop i (ex_rules ex))\<rparr>"
proof (induction ex pat i rule: sim_exp_clr_loop.induct)
  case (1 ex pat i)
  show ?case
  proof (cases "sim_exp_fnd ex pat i")
    case None
    with sim_exp_fnd_None [OF None] show ?thesis by (simp add: filter_id_conv sim_exp_clr_loop.simps [of ex])
  next
    case (Some j)
    let ?r = "ex_rules ex"
    have j: "i \<le> j" "j < length ?r" using sim_exp_fnd_bound [OF Some] by simp_all
    have rest: "drop i ?r = take (j - i) (drop i ?r) @ ?r ! j # drop (Suc j) ?r"
      using j by (metis Cons_nth_drop_Suc append_take_drop_id drop_drop le_add_diff_inverse2)
    have "filter (\<lambda>r. match_pattern r \<noteq> pat) (drop i ?r) =
        take (j - i) (drop i ?r) @ filter (\<lambda>r. match_pattern r \<noteq> pat) (drop (Suc j) ?r)"
      using sim_exp_fnd_Some [OF Some] by (subst rest) (simp add: filter_id_conv)
    moreover have "take j ?r = take i ?r @ take (j - i) (drop i ?r)" using j by (simp add: take_add [symmetric])
    moreover have "sim_exp_clr_loop ex pat i = sim_exp_clr_loop (sim_exp_clr_tab ex j) pat j"
      using Some by (subst sim_exp_clr_loop.simps) simp
    moreover have "take j (ex_rules (sim_exp_clr_tab ex j)) = take j ?r" "drop j (ex_rules (sim_exp_clr_tab ex j)) = drop (Suc j) ?r"
      "j \<le> length (ex_rules (sim_exp_clr_tab ex j))" using j by (simp_all add: sim_exp_clr_tab_def)
    moreover have "(sim_exp_clr_tab ex j)\<lparr>ex_rules := rs\<rparr> = ex\<lparr>ex_rules := rs\<rparr>" for rs by (simp add: sim_exp_clr_tab_def)
    ultimately show ?thesis using "1.IH" [OF Some] by (simp only: append_assoc)
  qed
qed

lemma sim_exp_clr_filter:
  "sim_exp_clr ex pat = (SCPE_OK, ex\<lparr>ex_rules := filter (\<lambda>r. match_pattern r \<noteq> pat) (ex_rules ex)\<rparr>)"
  by (simp add: sim_exp_clr_def sim_exp_clr_loop_filter)

text \<open>A context without rules does not look at the output.\<close>

lemma exp_feed_no_rules: "ex_rules ex = [] \<Longrightarrow> exp_feed env ex zs s = Inr (SCPE_OK, ex, s)"
  by (induction zs) (simp_all add: sim_exp_check_def)

subsection \<open>Rules set by commands\<close>

lemma sim_exp_set_plain:
  assumes "sim_decode_quoted_string pat = Inr (SCPE_OK, m)" "switches AND EXP_TYP_REGEX = 0" "switches AND EXP_TYP_REGEX_I = 0"
    "list_all (\<lambda>r. ex_switches r AND EXP_TYP_PERSIST = 0) (ex_rules ex)"
  shows "\<exists>ex'. sim_exp_set env ex pat cnt 0 switches act = Inr (SCPE_OK, ex')"
  using assms by (auto simp: sim_exp_set_def sim_exp_prepare_def Let_def list_all_iff)

lemma sim_exp_set_keeps:
  "sim_exp_set env ex pat cnt after switches act = Inr (st, ex') \<Longrightarrow> default_haltafter ex' = default_haltafter ex"
proof -
  have g: "default_haltafter (grow_buffer env pl r x) = default_haltafter x" for pl r and x :: "'a expect"
    by (simp add: grow_buffer_def Let_def)
  have "default_haltafter (fold (grow_buffer env pl) rs x) = default_haltafter x" for pl rs and x :: "'a expect"
    by (induction rs arbitrary: x) (simp_all add: g)
  with g show "sim_exp_set env ex pat cnt after switches act = Inr (st, ex') \<Longrightarrow> default_haltafter ex' = default_haltafter ex"
    by (auto simp: sim_exp_set_def Let_def split: if_splits sum.splits prod.splits)
qed

lemma sim_set_expect_encoded:
  "sim_set_expect env switches ex (sim_encode_quoted_string m @ rest) =
     sim_exp_set env ex (sim_encode_quoted_string m) 0 (default_haltafter ex) switches (Some (skip_space rest))"
proof -
  obtain t where t: "sim_encode_quoted_string m = quote_for m # t" by (simp add: sim_encode_quoted_string_def Let_def)
  have "operand ''HALTAFTER='' (fst (get_glyph (quote_for m # t @ rest) CHR '','')) = None"
    using quote_for_cases [of m] by (intro quote_no_operand) auto
  moreover have "get_glyph_quoted (quote_for m # t @ rest) NUL = (quote_for m # t, skip_space rest)"
    using get_glyph_encoded [of m rest] by (simp add: t)
  ultimately show ?thesis
    using quote_for_cases [of m] by (auto simp: t sim_set_expect_def expect_count_def expect_haltafter_def case_prod_beta)
qed

text \<open>A sequence of \<^verbatim>\<open>EXPECT\<close> commands with the encodings of byte strings, up to the first error.\<close>

primrec expect_cmds :: "('r, 's) exp_env \<Rightarrow> u32 \<Rightarrow> u8 list list \<Rightarrow> 'r expect \<Rightarrow> exp_fault + t_stat \<times> 'r expect" where
  "expect_cmds env sw [] ex = Inr (SCPE_OK, ex)"
| "expect_cmds env sw (m # ms) ex =
     (case sim_set_expect env sw ex (sim_encode_quoted_string m) of
        Inl f \<Rightarrow> Inl f
      | Inr (st, ex') \<Rightarrow> if st \<noteq> SCPE_OK then Inr (st, ex') else expect_cmds env sw ms ex')"

definition cmd_rule :: "('r, 's) exp_env \<Rightarrow> u32 \<Rightarrow> u8 list \<Rightarrow> 'r exptab" where
  "cmd_rule env sw m = exact_rule env (sim_encode_quoted_string m) m 0 0 sw None"

definition plain_switches :: "u32 \<Rightarrow> bool" where
  "plain_switches sw \<longleftrightarrow> sw AND EXP_TYP_REGEX = 0 \<and> sw AND EXP_TYP_REGEX_I = 0 \<and> sw AND EXP_TYP_PERSIST = 0"

lemma expect_cmds_rules:
  assumes "calm ex out" "default_haltafter ex = 0" "plain_switches sw"
    "list_all (\<lambda>r. ex_switches r = sw) (ex_rules ex)" "ms \<noteq> []"
  shows "\<exists>ex'. expect_cmds env sw ms ex = Inr (SCPE_OK, ex') \<and> ex_rules ex' = ex_rules ex @ map (cmd_rule env sw) ms \<and>
    expect_ok ex' out \<and> calm ex' out \<and> default_haltafter ex' = 0"
  using assms
proof (induction ms arbitrary: ex)
  case (Cons m ms)
  have "list_all (\<lambda>r. \<not> is_regex r) (ex_rules ex)" "list_all (\<lambda>r. ex_switches r AND EXP_TYP_PERSIST = 0) (ex_rules ex)"
    using Cons.prems by (auto simp: plain_switches_def list_all_iff)
  moreover have sw: "sw AND EXP_TYP_REGEX = 0" "sw AND EXP_TYP_REGEX_I = 0" using Cons.prems(3) by (simp_all add: plain_switches_def)
  moreover from sim_exp_set_plain [OF decode_encode sw calculation(2), of env m 0 "Some []"] obtain ex1
    where set: "sim_exp_set env ex (sim_encode_quoted_string m) 0 0 sw (Some []) = Inr (SCPE_OK, ex1)" by blast
  ultimately have ex1: "ex_rules ex1 = ex_rules ex @ [cmd_rule env sw m]" "expect_ok ex1 out" "calm ex1 out"
    using sim_exp_set_exact [OF set Cons.prems(1)] Cons.prems(3) decode_encode [of m]
    by (auto simp: plain_switches_def cmd_rule_def exact_rule_def skip_space_def)
  have "sim_set_expect env sw ex (sim_encode_quoted_string m) = Inr (SCPE_OK, ex1)"
    using sim_set_expect_encoded [of env sw ex m "[]"] set Cons.prems(2) by (simp add: skip_space_def)
  moreover have "default_haltafter ex1 = 0" using sim_exp_set_keeps [OF set] Cons.prems(2) by simp
  moreover have "list_all (\<lambda>r. ex_switches r = sw) (ex_rules ex1)" using Cons.prems(4) ex1(1) by (simp add: cmd_rule_def exact_rule_def)
  ultimately show ?case using Cons.IH [OF ex1(3) _ Cons.prems(3)] ex1 by (cases "ms = []") auto
qed simp

lemma calm_put:
  assumes "calm ex out" "length out + 1 < buf_size ex"
  shows "calm (wrap_buffer False (put_byte d ex)) (out @ [d])"
  using assms by (auto simp: calm_def wrap_buffer_def put_byte_def take_Suc_conv_app_nth)

lemma exp_feed_calm:
  assumes "expect_ok ex out" "calm ex out" "ex_rules ex \<noteq> []" "length out + length ds < buf_size ex"
    and "\<And>k. k \<le> length ds \<Longrightarrow> 0 < k \<Longrightarrow> first_match ex (out @ take k ds) = None"
  shows "\<exists>ex'. exp_feed env ex ds s = Inr (SCPE_OK, ex', s) \<and> calm ex' (out @ ds) \<and> ex_rules ex' = ex_rules ex \<and>
    default_haltafter ex' = default_haltafter ex"
  using assms
proof (induction ds arbitrary: ex out)
  case (Cons d ds)
  let ?ex = "wrap_buffer False (put_byte d ex)"
  have ok: "expect_ok ?ex (out @ [d])" by (rule sim_exp_check_exact(2) [OF Cons.prems(1,3)])
  have calm: "calm ?ex (out @ [d])" using Cons.prems(2,4) by (intro calm_put) simp_all
  have "first_match ex (out @ [d]) = None" using Cons.prems(5) [of 1] by simp
  then have c: "sim_exp_check env ex d s = Inr (SCPE_OK, ?ex, s)"
    by (simp add: sim_exp_check_exact(1) [OF Cons.prems(1,3)] Let_def)
  have "first_match ?ex ((out @ [d]) @ take k ds) = None" if "k \<le> length ds" "0 < k" for k
    using Cons.prems(5) [of "Suc k"] that by (simp add: first_match_rules [of ?ex ex])
  moreover have "default_haltafter ?ex = default_haltafter ex" by (simp add: wrap_buffer_def put_byte_def)
  ultimately show ?case using Cons.IH [OF ok calm] Cons.prems(3,4) c by simp
qed simp

lemma calm_new: "calm new_expect []"
  by (simp add: calm_def new_expect_def)

text \<open>The first of some strings that the output ends with.\<close>

definition first_suffix :: "u8 list list \<Rightarrow> u8 list \<Rightarrow> nat option" where
  "first_suffix ms out = List.find (\<lambda>i. suffix (ms ! i) out) [0..<length ms]"

lemma first_match_cmds:
  assumes "ex_rules ex = map (cmd_rule env sw) ms"
  shows "first_match ex = first_suffix ms"
proof
  fix out
  have "List.find (\<lambda>i. suffix (ex_match (map (cmd_rule env sw) ms ! i)) out) [0..<length ms] = first_suffix ms out"
    unfolding first_suffix_def by (rule find_cong_upt) (simp add: cmd_rule_def exact_rule_def)
  with assms show "first_match ex out = first_suffix ms out" by (simp add: first_match_def)
qed

subsection \<open>Properties\<close>

text \<open>
  C14. Functional: \<^verbatim>\<open>EXPECT\<close> commands with the encodings of any byte strings succeed on a fresh
  context.  However long the output is that follows, as long as it never ends with one of the strings
  the check of each byte changes nothing but the buffer; the next byte fires the first rule whose
  string the whole output then ends with, and no rule otherwise.
\<close>

theorem expect_fires_on_suffix:
  assumes "plain_switches sw" "ms \<noteq> []"
    and quiet: "\<forall>k \<in> {1..length ds}. first_suffix ms (take k ds) = None"
  shows "\<exists>ex ex1 ex2. expect_cmds env sw ms new_expect = Inr (SCPE_OK, ex) \<and>
    exp_feed env ex ds s = Inr (SCPE_OK, ex1, s) \<and> ex_rules ex2 = map (cmd_rule env sw) ms \<and>
    sim_exp_check env ex1 d s =
      Inr (case first_suffix ms (ds @ [d]) of None \<Rightarrow> (SCPE_OK, ex2, s) | Some i \<Rightarrow> exp_fire env ex2 i s)"
proof -
  obtain ex where ex: "expect_cmds env sw ms new_expect = Inr (SCPE_OK, ex)" "ex_rules ex = map (cmd_rule env sw) ms" "expect_ok ex []"
    using expect_cmds_rules [OF calm_new _ assms(1) _ assms(2)] by (auto simp: new_expect_def)
  obtain ex1 where ex1: "exp_feed env ex ds s = Inr (SCPE_OK, ex1, s)" "expect_ok ex1 ds" "ex_rules ex1 = ex_rules ex"
    using exp_feed_quiet [OF ex(3)] quiet assms(2) by (fastforce simp: ex(2) first_match_cmds [OF ex(2)])
  have "ex_rules ex1 \<noteq> []" "ex_rules ex1 = map (cmd_rule env sw) ms" using ex(2) ex1(3) assms(2) by simp_all
  then have "sim_exp_check env ex1 d s = (let ex' = wrap_buffer False (put_byte d ex1)
      in Inr (case first_suffix ms (ds @ [d]) of None \<Rightarrow> (SCPE_OK, ex', s) | Some i \<Rightarrow> exp_fire env ex' i s))"
    using sim_exp_check_exact(1) [OF ex1(2)] first_match_cmds by metis
  with ex ex1 show ?thesis
    by (intro exI [of _ ex] exI [of _ ex1] exI [of _ "wrap_buffer False (put_byte d ex1)"]) (simp add: Let_def)
qed

text \<open>A library that compiles no pattern, and units without actions.\<close>

definition no_regex :: "(unit, expst) exp_env" where
  "no_regex = \<lparr>pcre2_compile = (\<lambda>p i. None), capture_count = (\<lambda>r. 0), pcre2_match = (\<lambda>r b. None), fresh_byte = (\<lambda>i. 0xA5),
     exp_unsub = (\<lambda>t. t),
     exp_ops = \<lparr>action = (\<lambda>u. None), cancel = (\<lambda>u e. (False, e)), tmr_unit = (\<lambda>u e. False), sim_timer_is_active = (\<lambda>u e. False),
       sim_timer_cancel = (\<lambda>u e. (SCPE_OK, e)), sim_timer_activate = (\<lambda>u t e. (SCPE_OK, e)),
       sim_timer_activate_after = (\<lambda>u d e. (SCPE_OK, e)), sim_timer_activate_time = (\<lambda>u e. -1),
       sim_timer_inst_per_sec = (\<lambda>e. 1)\<rparr>,
     sim_expect_unit = 0\<rparr>"

theorem expect_fires_on_suffix_witness:
  "\<forall>s :: expst. \<exists>ex ex1 ex2. expect_cmds no_regex 0 [[65, 66], [66]] new_expect = Inr (SCPE_OK, ex) \<and>
     exp_feed no_regex ex [65, 65] s = Inr (SCPE_OK, ex1, s) \<and> sim_exp_check no_regex ex1 66 s = Inr (exp_fire no_regex ex2 0 s)"
proof
  fix s :: expst
  have p: "plain_switches 0" "[[65, 66], [66 :: u8]] \<noteq> []" by (simp_all add: plain_switches_def)
  have q: "\<forall>k \<in> {1..length [65, 65 :: u8]}. first_suffix [[65, 66], [66]] (take k [65, 65]) = None"
    by (auto simp: first_suffix_def suffix_def numeral_2_eq_2 le_Suc_eq Cons_eq_append_conv)
  have f: "first_suffix [[65, 66], [66]] ([65, 65] @ [66 :: u8]) = Some 0"
    by (simp add: first_suffix_def suffix_def)
  show "\<exists>ex ex1 ex2. expect_cmds no_regex 0 [[65, 66], [66]] new_expect = Inr (SCPE_OK, ex) \<and>
     exp_feed no_regex ex [65, 65] s = Inr (SCPE_OK, ex1, s) \<and> sim_exp_check no_regex ex1 66 s = Inr (exp_fire no_regex ex2 0 s)"
    using expect_fires_on_suffix [OF p q, of no_regex s 66, unfolded f option.case] by blast
qed

text \<open>
  Error behaviour: a rule set after the only other rule was removed can match output from before
  its own command.  \<^verbatim>\<open>NOEXPECT\<close> of the last rule leaves the buffer, output without rules does not
  reach it, and the new rule finds the old bytes in front of the next one.
\<close>

lemma expect_matches_stale_output:
  assumes "plain_switches sw" "length out \<le> length m1" "suffix m2 (out @ [d])"
    and quiet: "\<forall>k \<in> {1..length out}. \<not> suffix m1 (take k out)"
  shows "\<exists>ex ex1 ex2 ex3 ex4. expect_cmds env sw [m1] new_expect = Inr (SCPE_OK, ex) \<and>
    exp_feed env ex out s = Inr (SCPE_OK, ex1, s) \<and> sim_set_noexpect ex1 (sim_encode_quoted_string m1) = (SCPE_OK, ex2) \<and>
    exp_feed env ex2 later s = Inr (SCPE_OK, ex2, s) \<and> expect_cmds env sw [m2] ex2 = Inr (SCPE_OK, ex3) \<and>
    sim_exp_check env ex3 d s = Inr (exp_fire env ex4 0 s) \<and> ex_rules ex4 = [cmd_rule env sw m2]"
proof -
  obtain ex where ex: "expect_cmds env sw [m1] new_expect = Inr (SCPE_OK, ex)" "ex_rules ex = [cmd_rule env sw m1]" "expect_ok ex []"
    "calm ex []" "default_haltafter ex = 0"
    using expect_cmds_rules [OF calm_new _ assms(1), of "[m1]" env] by (auto simp: new_expect_def)
  then have size: "length m1 < buf_size ex" by (simp add: expect_ok_def exact_rules_def cmd_rule_def exact_rule_def)
  have fm: "first_match ex o' = None \<longleftrightarrow> \<not> suffix m1 o'" for o' using ex(2) by (simp add: first_match_def cmd_rule_def exact_rule_def)
  obtain ex1 where ex1: "exp_feed env ex out s = Inr (SCPE_OK, ex1, s)" "calm ex1 out" "ex_rules ex1 = [cmd_rule env sw m1]"
    "default_haltafter ex1 = 0"
    using exp_feed_calm [OF ex(3,4), of out env s] quiet size assms(2) ex(2,5) fm by fastforce
  let ?ex2 = "ex1\<lparr>ex_rules := []\<rparr>"
  have "sim_set_noexpect ex1 (sim_encode_quoted_string m1) = (SCPE_OK, ?ex2)"
  proof -
    obtain t where t: "sim_encode_quoted_string m1 = quote_for m1 # t" by (simp add: sim_encode_quoted_string_def Let_def)
    have "get_glyph_quoted (quote_for m1 # t) NUL = (quote_for m1 # t, [])"
      using get_glyph_encoded [of m1 "[]"] by (simp add: t skip_space_def)
    moreover have "match_pattern (cmd_rule env sw m1) = quote_for m1 # t" by (simp add: cmd_rule_def exact_rule_def t)
    ultimately show ?thesis using quote_for_cases [of m1] by (auto simp: sim_set_noexpect_def t sim_exp_clr_filter ex1(3))
  qed
  moreover have "calm ?ex2 out" using ex1(2) by (simp add: calm_def)
  moreover from expect_cmds_rules [OF this _ assms(1), of "[m2]" env] ex1(4) obtain ex3
    where "expect_cmds env sw [m2] ?ex2 = Inr (SCPE_OK, ex3)" "ex_rules ex3 = [cmd_rule env sw m2]" "expect_ok ex3 out" by auto
  moreover from this have "sim_exp_check env ex3 d s = Inr (exp_fire env (wrap_buffer False (put_byte d ex3)) 0 s)"
    using sim_exp_check_exact(1) [of ex3 out env d s] assms(3) by (simp add: first_match_def cmd_rule_def exact_rule_def Let_def)
  moreover have "exp_feed env ?ex2 later s = Inr (SCPE_OK, ?ex2, s)" by (simp add: exp_feed_no_rules)
  ultimately show ?thesis using ex(1) ex1(1)
    by (intro exI [of _ ex] exI [of _ ex1] exI [of _ ?ex2] exI [of _ ex3] exI [of _ "wrap_buffer False (put_byte d ex3)"]) simp
qed

end
