(* ===== verification/Send.thy ===== *)
theory Send
  imports Expect
begin

text \<open>
  Injected input, the other half of \<^verbatim>\<open>scp_expect.c\<close>: the \<^verbatim>\<open>SEND\<close> command queues bytes, and the
  keyboard and line polls take them out, one at a time and not before their time.  The pending bytes
  are those between the extraction and the insertion offset.
\<close>

unbundle bit_operations_syntax

subsection \<open>Data\<close>

record send =
  snd_delay :: u32
  snd_after :: u32
  next_time :: real
  snd_buffer :: "u8 list"
  insoff :: nat
  extoff :: nat
  default_delay :: u32
  default_after :: u32

abbreviation (input) SEND_DEFAULT_DELAY :: u32 where "SEND_DEFAULT_DELAY \<equiv> 1000"

definition sim_send_init_context :: "send \<Rightarrow> send" where
  "sim_send_init_context sn =
     sn\<lparr>default_delay := SEND_DEFAULT_DELAY, default_after := SEND_DEFAULT_DELAY, snd_delay := 0, snd_after := 0, next_time := 0\<rparr>"

text \<open>A context as static memory has it, initialised.\<close>

definition new_send :: send where
  "new_send = sim_send_init_context
     \<lparr>snd_delay = 0, snd_after = 0, next_time = 0, snd_buffer = [], insoff = 0, extoff = 0, default_delay = 0, default_after = 0\<rparr>"

subsection \<open>Queueing and polling\<close>

text \<open>
  A delay in instructions.  With the switch \<^verbatim>\<open>-T\<close> it was given in microseconds; the conversion of a
  floating-point number that \<^verbatim>\<open>uint32_t\<close> cannot hold is undefined, here \<^const>\<open>None\<close>.
\<close>

definition send_insts :: "'s unit_ops \<Rightarrow> u32 \<Rightarrow> u32 \<Rightarrow> 's \<Rightarrow> u32 option" where
  "send_insts ops switches n s =
     (if switches AND SWMASK CHR ''T'' \<noteq> 0
      then let x = trunc_real (sim_timer_inst_per_sec ops s * real (unat n) / 1000000)
           in if -1 < x \<and> x < 2 ^ 32 then Some (of_int x) else None
      else Some n)"

text \<open>The pending bytes moved to the start of the buffer.\<close>

definition send_compact :: "send \<Rightarrow> send" where
  "send_compact sn =
     (if extoff sn \<noteq> 0
      then sn\<lparr>snd_buffer := (if insoff sn > extoff sn
                            then take (insoff sn - extoff sn) (drop (extoff sn) (snd_buffer sn)) @
                                 drop (insoff sn - extoff sn) (snd_buffer sn)
                            else snd_buffer sn),
              insoff := insoff sn - extoff sn, extoff := 0\<rparr>
      else sn)"

text \<open>The buffer grows to what the new bytes need; they overwrite what was behind the insertion offset.\<close>

definition send_append :: "u8 list \<Rightarrow> send \<Rightarrow> send" where
  "send_append data sn =
     sn\<lparr>snd_buffer := take (insoff sn) (snd_buffer sn) @ data @ drop (insoff sn + length data) (snd_buffer sn),
        insoff := insoff sn + length data\<rparr>"

definition sim_send_input ::
  "'a evq_scheme unit_ops \<Rightarrow> u32 \<Rightarrow> send \<Rightarrow> u8 list \<Rightarrow> u32 \<Rightarrow> u32 \<Rightarrow> 'a evq_scheme \<Rightarrow> (t_stat \<times> send \<times> 'a evq_scheme) option" where
  "sim_send_input ops switches sn data after delay s =
     (case (send_insts ops switches delay s, send_insts ops switches after s) of
        (Some d, Some a) \<Rightarrow>
          (let (t, s1) = sim_gtime s
           in Some (SCPE_OK, (send_append data (send_compact sn))\<lparr>snd_delay := d, snd_after := a, next_time := t + real (unat a)\<rparr>, s1))
      | _ \<Rightarrow> None)"

definition sim_send_clear :: "send \<Rightarrow> t_stat \<times> send" where
  "sim_send_clear sn = (SCPE_OK, sn\<lparr>insoff := 0, extoff := 0\<rparr>)"

text \<open>The status is not written when there is nothing to send: \<^const>\<open>None\<close>.\<close>

definition sim_send_poll_data :: "send \<Rightarrow> 'a evq_scheme \<Rightarrow> t_stat option \<times> send \<times> 'a evq_scheme" where
  "sim_send_poll_data sn s =
     (if extoff sn < insoff sn
      then let (t, s1) = sim_gtime s
           in if t < next_time sn then (Some SCPE_OK, sn, s1)
              else let b = snd_buffer sn ! extoff sn; (t', s2) = sim_gtime s1
                   in (Some (uint b + SCPE_KFLAG), sn\<lparr>extoff := extoff sn + 1, next_time := t' + real (unat (snd_delay sn))\<rparr>, s2)
      else (None, sn, s))"

subsection \<open>The command\<close>

text \<open>The operands of the command: delay and wait, each with whether it was given.\<close>

record send_args =
  arg_delay :: u32
  arg_after :: u32
  delay_set :: bool
  after_set :: bool

text \<open>The loop over the operands, up to a quote or the end of the command; an operand that is neither is an error.\<close>

function send_operands :: "string \<Rightarrow> send_args \<Rightarrow> t_stat + string \<times> send_args" where
  "send_operands cptr a =
     (if cptr = [] then Inr (cptr, a)
      else let (g, tptr) = get_glyph cptr CHR '','' in
      case operand ''DELAY='' g of
        Some v \<Rightarrow>
          (let (d, r) = get_uint v 10 2000000000 in
           if r \<noteq> SCPE_OK then Inl SCPE_ARG
           else send_operands tptr (a\<lparr>arg_delay := ucast d, delay_set := True,
                  arg_after := (if after_set a then arg_after a else ucast d)\<rparr>))
      | None \<Rightarrow>
      case operand ''AFTER='' g of
        Some v \<Rightarrow>
          (let (d, r) = get_uint v 10 2000000000 in
           if r \<noteq> SCPE_OK then Inl SCPE_ARG
           else send_operands tptr (a\<lparr>arg_after := ucast d, after_set := True\<rparr>))
      | None \<Rightarrow> if deref cptr = CHR 0x22 \<or> deref cptr = CHR 0x27 then Inr (cptr, a) else Inl SCPE_ARG)"
  by pat_completeness auto

termination
  by (relation "measure (length \<circ> fst)") (auto dest: operand_nonempty get_glyph_shorter [OF sym])

declare send_operands.simps [simp del]

text \<open>\<^verbatim>\<open>SEND\<close> and \<^verbatim>\<open>NOSEND\<close> on the context that the command names; \<open>switches\<close> are those of the command.\<close>

definition send_cmd ::
  "'a evq_scheme unit_ops \<Rightarrow> u32 \<Rightarrow> bool \<Rightarrow> send \<Rightarrow> string \<Rightarrow> 'a evq_scheme \<Rightarrow>
   str_fault + (t_stat \<times> send \<times> 'a evq_scheme) option" where
  "send_cmd ops switches flag sn cptr s =
     (if \<not> flag then let (r, sn1) = sim_send_clear sn in Inr (Some (r, sn1, s))
      else case send_operands cptr \<lparr>arg_delay = default_delay sn, arg_after = default_after sn, delay_set = False, after_set = False\<rparr> of
        Inl r \<Rightarrow> Inr (Some (r, sn, s))
      | Inr (c, a) \<Rightarrow>
          if c = []
          then if \<not> delay_set a \<and> \<not> after_set a then Inr (Some (SCPE_2FARG, sn, s))
               else Inr (Some (SCPE_OK, sn\<lparr>default_delay := arg_delay a, default_after := arg_after a\<rparr>, s))
          else let (g, r) = get_glyph_quoted c NUL
          in if r \<noteq> [] then Inr (Some (SCPE_2MARG, sn, s))
          else case sim_decode_quoted_string g of
                 Inl f \<Rightarrow> Inl f
               | Inr (st, data) \<Rightarrow>
                   if st \<noteq> SCPE_OK then Inr (Some (SCPE_ARG, sn, s))
                   else Inr (sim_send_input ops switches sn data (arg_after a) (arg_delay a) s))"

subsection \<open>The queue that the context implements\<close>

definition send_ok :: "send \<Rightarrow> bool" where
  "send_ok sn \<longleftrightarrow> extoff sn \<le> insoff sn \<and> insoff sn \<le> length (snd_buffer sn)"

definition send_pending :: "send \<Rightarrow> u8 list" where
  "send_pending sn = drop (extoff sn) (take (insoff sn) (snd_buffer sn))"

lemma send_ok_new [scp_inv]: "send_ok new_send" "send_pending new_send = []"
  by (simp_all add: send_ok_def send_pending_def new_send_def sim_send_init_context_def)

lemma send_compact_ok:
  assumes "send_ok sn"
  shows "send_ok (send_compact sn)" "send_pending (send_compact sn) = send_pending sn" "extoff (send_compact sn) = 0"
  using assms by (auto simp: send_ok_def send_pending_def send_compact_def drop_take)

lemma send_append_ok:
  assumes "send_ok sn"
  shows "send_ok (send_append data sn)" "send_pending (send_append data sn) = send_pending sn @ data"
  using assms by (auto simp: send_ok_def send_pending_def send_append_def)

lemma send_frame [simp]:
  "send_ok (sn\<lparr>snd_delay := d, snd_after := a, next_time := t\<rparr>) = send_ok sn"
  "send_pending (sn\<lparr>snd_delay := d, snd_after := a, next_time := t\<rparr>) = send_pending sn"
  by (simp_all add: send_ok_def send_pending_def)

lemma gtime: "sim_gtime s = (now s, update_sim_time s)"
  by (simp add: sim_gtime_def Let_def)

lemma sim_send_input_queue:
  assumes "send_ok sn" "sim_send_input ops switches sn data after delay s = Some (r, sn', s')"
  shows "send_ok sn'" "send_pending sn' = send_pending sn @ data" "r = SCPE_OK" "next_time sn' = now s + real (unat (snd_after sn'))"
proof -
  obtain d a where "r = SCPE_OK"
    and sn': "sn' = (send_append data (send_compact sn))\<lparr>snd_delay := d, snd_after := a, next_time := now s + real (unat a)\<rparr>"
    using assms(2) by (auto simp: sim_send_input_def gtime split: option.splits)
  then show "r = SCPE_OK" "next_time sn' = now s + real (unat (snd_after sn'))" by simp_all
  show "send_ok sn'" "send_pending sn' = send_pending sn @ data"
    using send_append_ok [OF send_compact_ok(1) [OF assms(1)], of data] send_compact_ok(2) [OF assms(1)] by (simp_all add: sn')
qed

lemma sim_send_poll_queue:
  assumes "send_ok sn"
  shows "sim_send_poll_data sn s =
    (case send_pending sn of
       [] \<Rightarrow> (None, sn, s)
     | b # bs \<Rightarrow>
         if now s < next_time sn then (Some SCPE_OK, sn, update_sim_time s)
         else (Some (uint b + SCPE_KFLAG), sn\<lparr>extoff := extoff sn + 1, next_time := now s + real (unat (snd_delay sn))\<rparr>,
               update_sim_time (update_sim_time s)))"
proof (cases "extoff sn < insoff sn")
  case True
  with assms have "send_pending sn = snd_buffer sn ! extoff sn # drop (Suc (extoff sn)) (take (insoff sn) (snd_buffer sn))"
    using Cons_nth_drop_Suc [of "extoff sn" "take (insoff sn) (snd_buffer sn)"] by (simp add: send_pending_def send_ok_def)
  with True show ?thesis by (simp add: sim_send_poll_data_def gtime)
next
  case False
  then show ?thesis by (simp add: sim_send_poll_data_def send_pending_def)
qed

subsection \<open>Sequences of operations\<close>

text \<open>
  Each operation comes with the state of the simulator at that moment.  A run gives the bytes that
  polls delivered, with the time of each; it is undefined where a delay does not fit.
\<close>

datatype send_op = Queue u32 "u8 list" u32 u32 | Poll

fun send_run :: "'a evq_scheme unit_ops \<Rightarrow> (send_op \<times> 'a evq_scheme) list \<Rightarrow> send \<Rightarrow> ((u8 \<times> real) list \<times> send) option" where
  "send_run ops [] sn = Some ([], sn)"
| "send_run ops ((Queue sw data after delay, s) # xs) sn =
     (case sim_send_input ops sw sn data after delay s of
        None \<Rightarrow> None
      | Some (r, sn1, s1) \<Rightarrow> send_run ops xs sn1)"
| "send_run ops ((Poll, s) # xs) sn =
     (case sim_send_poll_data sn s of
        (c, sn1, s1) \<Rightarrow> map_option (apfst ((@) (case c of Some k \<Rightarrow> if k \<ge> SCPE_KFLAG then [(of_int k, now s)] else [] | None \<Rightarrow> [])))
                        (send_run ops xs sn1))"

fun queued :: "send_op \<times> 's \<Rightarrow> u8 list" where
  "queued (Queue sw data after delay, s) = data"
| "queued (Poll, s) = []"

lemma key_byte: "(of_int (uint b + SCPE_KFLAG) :: u8) = b"
proof -
  have "(0x10000000 :: u8) = 0" by simp
  then show ?thesis by (simp only: of_int_add of_int_numeral of_int_uint add_0_right ucast_id)
qed

text \<open>A poll, as a run sees it.\<close>

lemma poll_delivers:
  assumes "send_ok sn" "sim_send_poll_data sn s = (c, sn1, s1)"
  shows "case c of Some k \<Rightarrow>
        if k \<ge> SCPE_KFLAG then next_time sn \<le> now s \<and> send_pending sn = of_int k # send_pending sn1 \<and>
                           next_time sn1 = now s + real (unat (snd_delay sn))
        else sn1 = sn
      | None \<Rightarrow> sn1 = sn" "send_ok sn1" "snd_delay sn1 = snd_delay sn"
proof -
  have "send_ok (sn\<lparr>extoff := extoff sn + 1, next_time := t\<rparr>)"
    "send_pending (sn\<lparr>extoff := extoff sn + 1, next_time := t\<rparr>) = tl (send_pending sn)" if "send_pending sn \<noteq> []" for t
    using that assms(1) by (auto simp: send_ok_def send_pending_def tl_drop drop_Suc)
  then show "case c of Some k \<Rightarrow>
        if k \<ge> SCPE_KFLAG then next_time sn \<le> now s \<and> send_pending sn = of_int k # send_pending sn1 \<and>
                           next_time sn1 = now s + real (unat (snd_delay sn))
        else sn1 = sn
      | None \<Rightarrow> sn1 = sn" "send_ok sn1" "snd_delay sn1 = snd_delay sn"
    using assms by (auto simp: sim_send_poll_queue [OF assms(1)] key_byte split: list.splits if_splits)
qed

lemma send_run_fifo:
  assumes "send_ok sn" "send_run ops xs sn = Some (out, sn')"
  shows "send_ok sn' \<and> map fst out @ send_pending sn' = send_pending sn @ concat (map queued xs)"
  using assms
proof (induction ops xs sn arbitrary: out rule: send_run.induct)
  case (2 ops sw data after delay s xs sn)
  then obtain r sn1 s1 where q: "sim_send_input ops sw sn data after delay s = Some (r, sn1, s1)"
    "send_run ops xs sn1 = Some (out, sn')" by (auto split: option.splits)
  from "2.IH" [OF q(1) refl refl _ q(2)] sim_send_input_queue [OF "2.prems"(1) q(1)] show ?case by simp
next
  case (3 ops s xs sn)
  obtain c sn1 s1 where p: "sim_send_poll_data sn s = (c, sn1, s1)" by (cases "sim_send_poll_data sn s") auto
  note d = poll_delivers [OF "3.prems"(1) p]
  from "3.prems"(2) p obtain out1 where r: "send_run ops xs sn1 = Some (out1, sn')"
    and out: "out = (case c of Some k \<Rightarrow> if k \<ge> SCPE_KFLAG then [(of_int k, now s)] else [] | None \<Rightarrow> []) @ out1" by auto
  from "3.IH" [OF p [symmetric] refl d(2) r] d(1) show ?case by (auto simp: out split: option.splits if_splits)
qed simp

lemma send_run_spaced:
  assumes "send_ok sn" "send_run ops xs sn = Some (out, sn')" "fst ` set xs \<subseteq> {Poll}"
  shows "successively (\<lambda>p q. snd p + real (unat (snd_delay sn)) \<le> snd q) out \<and> (out \<noteq> [] \<longrightarrow> next_time sn \<le> snd (hd out))"
  using assms
proof (induction ops xs sn arbitrary: out rule: send_run.induct)
  case (3 ops s xs sn)
  obtain c sn1 s1 where p: "sim_send_poll_data sn s = (c, sn1, s1)" by (cases "sim_send_poll_data sn s") auto
  note d = poll_delivers [OF "3.prems"(1) p]
  from "3.prems"(2) p obtain out1 where r: "send_run ops xs sn1 = Some (out1, sn')"
    and out: "out = (case c of Some k \<Rightarrow> if k \<ge> SCPE_KFLAG then [(of_int k, now s)] else [] | None \<Rightarrow> []) @ out1" by auto
  from "3.IH" [OF p [symmetric] refl d(2) r] "3.prems"(3) d(1,3) show ?case
    by (cases out1) (auto simp: out split: option.splits if_splits)
qed simp_all

subsection \<open>Commands with encoded strings\<close>

lemma send_operands_quoted:
  assumes "c = CHR 0x22 \<or> c = CHR 0x27"
  shows "send_operands (c # s) a = Inr (c # s, a)"
  using quote_no_operand [OF assms, of "CHR '',''" "''DELAY=''" s] quote_no_operand [OF assms, of "CHR '',''" "''AFTER=''" s] assms
  by (subst send_operands.simps) (auto simp: case_prod_beta)

lemma send_cmd_encoded:
  "send_cmd ops sw True sn (sim_encode_quoted_string data) s =
     Inr (sim_send_input ops sw sn data (default_after sn) (default_delay sn) s)"
proof -
  obtain t where t: "sim_encode_quoted_string data = quote_for data # t" by (simp add: sim_encode_quoted_string_def Let_def)
  have "get_glyph_quoted (quote_for data # t) NUL = (quote_for data # t, [])"
    using get_glyph_encoded [of data "[]"] by (simp add: t skip_space_def)
  moreover have "sim_decode_quoted_string (quote_for data # t) = Inr (SCPE_OK, data)" using decode_encode [of data] by (simp add: t)
  ultimately show ?thesis by (simp add: t send_cmd_def send_operands_quoted [OF quote_for_cases])
qed

text \<open>Polls at times from the first on, each a delay after the one before.\<close>

fun spaced :: "real \<Rightarrow> real \<Rightarrow> 'a evq_scheme list \<Rightarrow> bool" where
  "spaced t d [] \<longleftrightarrow> True"
| "spaced t d (s # ss) \<longleftrightarrow> t \<le> now s \<and> spaced (now s + d) d ss"

lemma poll_due:
  assumes "send_ok sn" "send_pending sn = b # bs" "next_time sn \<le> now s"
  shows "\<exists>sn1 s1. sim_send_poll_data sn s = (Some (uint b + SCPE_KFLAG), sn1, s1) \<and> send_ok sn1 \<and> send_pending sn1 = bs \<and>
    next_time sn1 = now s + real (unat (snd_delay sn)) \<and> snd_delay sn1 = snd_delay sn"
proof -
  obtain sn1 s1 where p: "sim_send_poll_data sn s = (Some (uint b + SCPE_KFLAG), sn1, s1)"
    using assms by (auto simp: sim_send_poll_queue [OF assms(1)])
  from poll_delivers [OF assms(1) p] assms(2) p show ?thesis by (auto simp: key_byte)
qed

lemma polls_deliver:
  assumes "send_ok sn" "length ss = length (send_pending sn)" "spaced (next_time sn) (real (unat (snd_delay sn))) ss"
  shows "\<exists>sn'. send_run ops (map (Pair Poll) ss) sn = Some (zip (send_pending sn) (map now ss), sn') \<and> send_pending sn' = []"
  using assms
proof (induction ss arbitrary: sn)
  case (Cons s ss)
  then obtain b bs where p: "send_pending sn = b # bs" by (cases "send_pending sn") auto
  with Cons.prems obtain sn1 s1 where "sim_send_poll_data sn s = (Some (uint b + SCPE_KFLAG), sn1, s1)" "send_ok sn1" "send_pending sn1 = bs"
    "next_time sn1 = now s + real (unat (snd_delay sn))" "snd_delay sn1 = snd_delay sn"
    using poll_due [OF Cons.prems(1) p, of s] by auto
  with Cons.IH [of sn1] Cons.prems(2,3) p show ?case by (auto simp: key_byte)
qed simp

lemma sim_send_input_insts:
  "sw AND SWMASK CHR ''T'' = 0 \<Longrightarrow> \<exists>sn' s'. sim_send_input ops sw sn data after delay s = Some (SCPE_OK, sn', s') \<and>
     snd_delay sn' = delay \<and> snd_after sn' = after"
  by (simp add: sim_send_input_def send_insts_def gtime)

subsection \<open>Properties\<close>

text \<open>
  C15. Refinement: over any sequence of queueings and polls the bytes that polls deliver, followed
  by those still pending, are the ones that were pending, followed by those that were queued, in
  order; between two deliveries with no queueing passes at least the delay, and the first is not
  before its time.
\<close>

theorem send_is_fifo:
  assumes "send_ok sn" "send_run ops xs sn = Some (out, sn')"
  shows "map fst out @ send_pending sn' = send_pending sn @ concat (map queued xs) \<and>
    (fst ` set xs \<subseteq> {Poll} \<longrightarrow>
       successively (\<lambda>p q. snd p + real (unat (snd_delay sn)) \<le> snd q) out \<and> (out \<noteq> [] \<longrightarrow> next_time sn \<le> snd (hd out)))"
  using send_run_fifo [OF assms] send_run_spaced [OF assms] by blast

theorem send_is_fifo_witness:
  "\<exists>out sn'. send_run log_ops [(Queue 0 [104, 105] 0 5, ev_log [] 10000), (Poll, ev_log [] 9990), (Queue 0 [33] 0 5, ev_log [] 9980)] new_send = Some (out, sn') \<and>
     map fst out @ send_pending sn' = [104, 105, 33]"
proof -
  let ?xs = "[(Queue 0 [104, 105] 0 5, ev_log [] 10000), (Poll, ev_log [] 9990), (Queue 0 [33] 0 5, ev_log [] 9980)]"
  have "\<exists>out sn'. send_run log_ops ?xs new_send = Some (out, sn')"
    by (simp add: sim_send_input_def send_insts_def case_prod_beta)
  then obtain out sn' where r: "send_run log_ops ?xs new_send = Some (out, sn')" by blast
  from send_is_fifo [OF send_ok_new(1) r] r show ?thesis by (simp add: send_ok_new(2))
qed

text \<open>
  Round trip: \<^verbatim>\<open>SEND\<close> of the encoding of any bytes, when nothing is pending, succeeds, and as
  many polls at the command's default times deliver exactly these bytes and leave nothing.
\<close>

lemma send_cmd_delivers:
  assumes "send_ok sn" "send_pending sn = []" "sw AND SWMASK CHR ''T'' = 0" "length ss = length data"
    "spaced (now s + real (unat (default_after sn))) (real (unat (default_delay sn))) ss"
  shows "\<exists>sn1 s1 sn2. send_cmd ops sw True sn (sim_encode_quoted_string data) s = Inr (Some (SCPE_OK, sn1, s1)) \<and>
    send_run ops (map (Pair Poll) ss) sn1 = Some (zip data (map now ss), sn2) \<and> send_pending sn2 = []"
proof -
  obtain sn1 s1 where i: "sim_send_input ops sw sn data (default_after sn) (default_delay sn) s = Some (SCPE_OK, sn1, s1)"
    "snd_delay sn1 = default_delay sn" "snd_after sn1 = default_after sn"
    using sim_send_input_insts [OF assms(3)] by blast
  note q = sim_send_input_queue [OF assms(1) i(1)]
  have "\<exists>sn2. send_run ops (map (Pair Poll) ss) sn1 = Some (zip data (map now ss), sn2) \<and> send_pending sn2 = []"
    using polls_deliver [OF q(1), of ss ops] q(2,4) assms(2,4,5) i(2,3) by simp
  with i(1) show ?thesis by (auto simp: send_cmd_encoded)
qed

end
