(* ===== verification/CmdVars.thy ===== *)
theory CmdVars
  imports SubVars QuotedArgs
begin

text \<open>
  Command variables and the substitution of arguments, \<^verbatim>\<open>scp_cmdvars.c\<close>.  Every command line
  goes through \<^verbatim>\<open>sim_sub_args\<close>, which replaces \<^verbatim>\<open>%1\<close>, \<^verbatim>\<open>%*\<close>, \<^verbatim>\<open>%NAME%\<close> and their modifiers
  and notes for every character of the result where in the original line it came from.

  Texts of the host and of the simulator's state (formats of \<^verbatim>\<open>strftime\<close>, status, names) are
  a parameter, as are the host's environment and the file name functions.
\<close>

subsection \<open>Faults\<close>

text \<open>
  A read behind the terminator or behind the argument vector, a write behind a buffer, overflow of an
  \<^verbatim>\<open>int\<close>, a loop that does not end, and the faults of quoted strings.
\<close>

datatype sub_fault = Line_End_Passed | Args_End_Passed | Token_Overrun | Int_Overflow | No_Return | Quoted_Fault str_fault

subsection \<open>Dates\<close>

record tm =
  tm_year :: int
  tm_mon :: int
  tm_mday :: int
  tm_hour :: int
  tm_min :: int
  tm_sec :: int
  tm_wday :: int
  tm_yday :: int

text \<open>Division and remainder of C truncate towards zero.\<close>

definition cdiv :: "int \<Rightarrow> int \<Rightarrow> int" where
  "cdiv a b = sgn a * sgn b * (\<bar>a\<bar> div \<bar>b\<bar>)"

definition crem :: "int \<Rightarrow> int \<Rightarrow> int" where
  "crem a b = a - b * cdiv a b"

definition years_19xx :: "int list" where
  "years_19xx = [90, 91, 97, 98, 99, 94, 89, 96, 80, 92, 76, 88, 72, 84]"

definition leap_year :: "int \<Rightarrow> bool" where
  "leap_year y \<longleftrightarrow> crem y 4 = 0 \<and> (crem y 100 \<noteq> 0 \<or> crem y 400 = 0)"

definition date_19xx :: "int \<Rightarrow> int" where
  "date_19xx year =
     (let days = year - 2001;
          leaps = cdiv days 4 - cdiv days 100 + cdiv days 400;
          selector = crem (days + leaps + 7) 7 + (if leap_year year then 7 else 0)
      in years_19xx ! nat selector)"

definition iso_day :: "int \<Rightarrow> int" where
  "iso_day wday = (if wday \<noteq> 0 then wday else 7)"

definition iso_week :: "tm \<Rightarrow> int \<times> int" where
  "iso_week t =
     (let iso_yr = tm_year t + 1900;
          iso_wk = cdiv (tm_yday t + 11 - iso_day (tm_wday t)) 7
      in if iso_wk = 0
         then let y = iso_yr - 1; yday = tm_yday t + (365 + (if crem y 4 = 0 then 1 else 0))
              in (y, cdiv (yday + 11 - iso_day (tm_wday t)) 7)
         else if iso_wk = 53 \<and> (31 - tm_mday t) + tm_wday t < 4 then (iso_yr + 1, 1)
         else (iso_yr, iso_wk))"

text \<open>\<^verbatim>\<open>%d\<close>, and padded to a width with zeros or spaces.\<close>

definition show_int :: "int \<Rightarrow> string" where
  "show_int i = (if i < 0 then CHR ''-'' # decimal (nat (- i)) else decimal (nat i))"

definition zero_padded :: "nat \<Rightarrow> int \<Rightarrow> string" where
  "zero_padded w i =
     (let s = decimal (nat \<bar>i\<bar>); sign = (if i < 0 then ''-'' else [])
      in sign @ replicate (w - length sign - length s) CHR ''0'' @ s)"

definition space_padded :: "nat \<Rightarrow> int \<Rightarrow> string" where
  "space_padded w i = replicate (w - length (show_int i)) CHR '' '' @ show_int i"

definition date_text :: "tm \<Rightarrow> string \<Rightarrow> string option" where
  "date_text t name =
     (let date = zero_padded 2 (tm_mon t + 1) @ ''-'' @ zero_padded 2 (tm_mday t);
          time = zero_padded 2 (tm_hour t) @ '':'' @ zero_padded 2 (tm_min t) @ '':'' @ zero_padded 2 (tm_sec t)
      in if name = ''DATE'' then Some (space_padded 4 (tm_year t + 1900) @ ''-'' @ date)
         else if name = ''TIME'' then Some time
         else if name = ''DATETIME'' then Some (zero_padded 4 (tm_year t + 1900) @ ''-'' @ date @ ''T'' @ time)
         else if name = ''DATE_19XX_YY'' then Some (show_int (date_19xx (tm_year t + 1900)))
         else if name = ''DATE_19XX_YYYY'' then Some (show_int (date_19xx (tm_year t + 1900) + 1900))
         else if name = ''DATE_D'' then Some (show_int (iso_day (tm_wday t)))
         else if name = ''DATE_WW'' then Some (zero_padded 2 (snd (iso_week t)))
         else if name = ''DATE_WYYYY'' then Some (zero_padded 4 (fst (iso_week t)))
         else None)"

subsection \<open>Modifiers of a value\<close>

text \<open>One \<^verbatim>\<open>%d\<close> of \<^verbatim>\<open>sscanf\<close>: a number with an optional sign, and the text behind it.\<close>

definition scan_int :: "string \<Rightarrow> (int \<times> string) option" where
  "scan_int s0 =
     (let s = skip_space s0;
          neg = (deref s = CHR ''-'');
          s1 = (if neg \<or> deref s = CHR ''+'' then tl s else s);
          ds = takeWhile (\<lambda>c. sim_isdigit (cint c)) s1;
          v = foldl (\<lambda>v c. 10 * v + (cint c - 48)) 0 ds
      in if ds = [] then None else Some (if neg then - v else v, dropWhile (\<lambda>c. sim_isdigit (cint c)) s1))"

definition int_range :: "int \<Rightarrow> bool" where
  "int_range x \<longleftrightarrow> - (2 ^ 31) \<le> x \<and> x < 2 ^ 31"

text \<open>The characters that an offset and a length select; negative ones count from the end.\<close>

definition substring :: "string \<Rightarrow> int \<Rightarrow> int option \<Rightarrow> sub_fault + string" where
  "substring s o' l' =
     (let n = int (length s);
          len = (case l' of None \<Rightarrow> n | Some l \<Rightarrow> if l < 0 then n - min (- l) n else l);
          offset = (if o' < 0 then n - min (- o') n else min o' n)
      in if \<not> int_range (- o') \<or> (case l' of None \<Rightarrow> False | Some l \<Rightarrow> \<not> int_range (- l)) \<or> \<not> int_range (offset + len)
         then Inl Int_Overflow
         else Inr (take (nat (if offset + len > n then n - offset else len)) (drop (nat offset) s)))"

fun strstr :: "string \<Rightarrow> string \<Rightarrow> string option" where
  "strstr s needle =
     (if take (length needle) s = needle then Some s
      else case s of [] \<Rightarrow> None | c # r \<Rightarrow> strstr r needle)"

declare strstr.simps [simp del]

text \<open>
  The loop that replaces the matches; \<open>left\<close> is the room in the buffer.  With an asterisk the text in
  front of the first match goes with it.  The loop need not end.
\<close>

partial_function (option) subst_loop :: "bool \<Rightarrow> string \<Rightarrow> string \<Rightarrow> string \<Rightarrow> nat \<Rightarrow> string \<Rightarrow> string option" where
  "subst_loop asterisk mat rep last' left out =
     (case strstr last' mat of
        None \<Rightarrow> Some (out @ take left last')
      | Some cur \<Rightarrow>
          (let move = (if asterisk then [] else take (min (length last' - length cur) left) last');
               left1 = left - length move;
               ins = take left1 rep
           in subst_loop False mat rep (drop (length mat) cur) (left1 - length ins) (out @ move @ ins)))"

definition sim_subststr_substr :: "string \<Rightarrow> string \<Rightarrow> nat \<Rightarrow> sub_fault + string" where
  "sim_subststr_substr ops rbuf rbuf_size =
     (if deref ops = CHR ''~''
      then case scan_int (tl ops) of
             None \<Rightarrow> Inr rbuf
           | Some (o', r) \<Rightarrow>
               if \<not> int_range o' then Inl Int_Overflow
               else (case (if deref r = CHR '','' then scan_int (tl r) else None) of
                       None \<Rightarrow> substring rbuf o' None
                     | Some (l, r') \<Rightarrow> if int_range l then substring rbuf o' (Some l) else Inl Int_Overflow)
      else if CHR ''='' \<in> set ops
      then let mat = takeWhile (\<lambda>c. c \<noteq> CHR ''='') ops;
               rep = tl (dropWhile (\<lambda>c. c \<noteq> CHR ''='') ops);
               asterisk = (deref ops = CHR ''*'')
           in case subst_loop asterisk (if asterisk then tl mat else mat) rep rbuf (rbuf_size - 1) [] of
                None \<Rightarrow> Inl No_Return
              | Some r \<Rightarrow> Inr r
      else Inr rbuf)"

subsection \<open>Names\<close>

record cmd_env =
  local_time :: "tm option"
  state_text :: "string \<Rightarrow> string option"
  getenv :: "string \<Rightarrow> string option"
  sim_filepath_parts :: "string \<Rightarrow> string \<Rightarrow> string"

text \<open>
  The variables, the host variables that were taken out of the environment, and what the last
  substitution left: the original line, and for every character of the result its place there.
\<close>

record cmdvars =
  cv_sub_vars :: sub_vars
  sim_external_env :: sub_vars
  sim_sub_instr :: string
  sim_sub_instr_off :: "nat list"
  sim_sub_instr_size :: nat

definition sim_sub_var_get :: "string \<Rightarrow> cmdvars \<Rightarrow> string option" where
  "sim_sub_var_get name v = map_of (cv_sub_vars v) name"

definition sim_get_host_env_uplowcase :: "cmd_env \<Rightarrow> string \<Rightarrow> nat \<Rightarrow> string option" where
  "sim_get_host_env_uplowcase env gbuf rbuf_size =
     (case getenv env gbuf of
        Some v \<Rightarrow> Some v
      | None \<Rightarrow> getenv env (map (\<lambda>c. if sim_islower (cint c) then to_char (cint c - 32) else c) (take (rbuf_size - 1) gbuf)))"

definition lookup_name :: "cmd_env \<Rightarrow> cmdvars \<Rightarrow> string \<Rightarrow> nat \<Rightarrow> string option" where
  "lookup_name env v name rbuf_size =
     (case (case local_time env of Some t \<Rightarrow> date_text t name | None \<Rightarrow> None) of
        Some x \<Rightarrow> Some (take (rbuf_size - 1) x)
      | None \<Rightarrow>
      case state_text env name of
        Some x \<Rightarrow> Some (take (rbuf_size - 1) x)
      | None \<Rightarrow>
      case sim_sub_var_get name v of
        Some x \<Rightarrow> Some x
      | None \<Rightarrow>
      case map_of (sim_external_env v) name of
        Some x \<Rightarrow> Some x
      | None \<Rightarrow> sim_get_host_env_uplowcase env name rbuf_size)"

definition sim_get_env_special :: "cmd_env \<Rightarrow> cmdvars \<Rightarrow> string \<Rightarrow> nat \<Rightarrow> sub_fault + string option" where
  "sim_get_env_special env v gbuf rbuf_size =
     (if CHR '':'' \<notin> set gbuf then Inr (lookup_name env v gbuf rbuf_size)
      else let name = takeWhile (\<lambda>c. c \<noteq> CHR '':'') gbuf;
               fixup = tl (dropWhile (\<lambda>c. c \<noteq> CHR '':'') gbuf);
               tgbuf_size = max rbuf_size (1 + length name)
           in case lookup_name env v name rbuf_size of
                None \<Rightarrow> Inr None
              | Some x \<Rightarrow>
                  (case sim_subststr_substr fixup (take (tgbuf_size - 1) x) tgbuf_size of
                     Inl f \<Rightarrow> Inl f
                   | Inr y \<Rightarrow> Inr (Some (take (rbuf_size - 1) y))))"

definition sim_cmdvars_capture_env_alias :: "cmd_env \<Rightarrow> string \<Rightarrow> cmdvars \<Rightarrow> cmd_env \<times> cmdvars" where
  "sim_cmdvars_capture_env_alias env name v =
     (case getenv env name of
        None \<Rightarrow> (env, v)
      | Some x \<Rightarrow> (env\<lparr>getenv := (getenv env)(name := None)\<rparr>, v\<lparr>sim_external_env := sim_external_env v @ [(name, x)]\<rparr>))"

fun sim_external_env_remove_name :: "string \<Rightarrow> sub_vars \<Rightarrow> sub_vars" where
  "sim_external_env_remove_name name [] = []"
| "sim_external_env_remove_name name ((n, x) # r) = (if name = n then r else (n, x) # sim_external_env_remove_name name r)"

subsection \<open>Percent forms\<close>

text \<open>An element of the argument vector; the outer option is a read behind its end.\<close>

definition arg_at :: "string option list \<Rightarrow> nat \<Rightarrow> string option option" where
  "arg_at do_arg i = (if i < length do_arg then Some (do_arg ! i) else None)"

definition star_arg :: "string \<Rightarrow> string" where
  "star_arg a =
     (if CHR '' '' \<in> set a
      then let quote = (if CHR 0x22 \<in> set a then CHR 0x27 else CHR 0x22) in quote # a @ [quote]
      else a)"

fun star_args :: "string option list \<Rightarrow> nat list \<Rightarrow> sub_fault + string" where
  "star_args do_arg [] = Inr []"
| "star_args do_arg (i # is) =
     (case arg_at do_arg i of
        None \<Rightarrow> Inl Args_End_Passed
      | Some None \<Rightarrow> Inr []
      | Some (Some a) \<Rightarrow>
          (case star_args do_arg is of
             Inl f \<Rightarrow> Inl f
           | Inr r \<Rightarrow> Inr ((if i \<noteq> 1 then '' '' else []) @ star_arg a @ r)))"

definition sim_cmdvars_expand_star_args :: "string option list \<Rightarrow> sub_fault + string" where
  "sim_cmdvars_expand_star_args do_arg = star_args do_arg [1..<10]"

text \<open>A numbered argument; it is none when an earlier one is missing.\<close>

definition numbered_arg :: "string option list \<Rightarrow> nat \<Rightarrow> sub_fault + string option" where
  "numbered_arg do_arg k =
     (case arg_at do_arg k of
        None \<Rightarrow> Inl Args_End_Passed
      | Some a \<Rightarrow> Inr (if \<exists>i \<in> set [0..<k]. do_arg ! i = None then None else a))"

record percent =
  pct_ip :: string
  pct_ap :: "string option"
  expand_it :: bool
  pct_parts :: string
  emit_percent :: bool

definition part_letter :: "char \<Rightarrow> bool" where
  "part_letter c \<longleftrightarrow> c \<in> set ''fpnxtz''"

text \<open>
  The letters behind a tilde.  The search for a letter in the literal also finds its terminator, so a
  line that ends within the letters is read on behind its end.
\<close>

definition tilde_parts :: "string \<Rightarrow> sub_fault + bool \<times> string \<times> string" where
  "tilde_parts ip =
     (let letters = takeWhile part_letter ip; rest = dropWhile part_letter ip
      in if rest = [] then Inl Line_End_Passed
         else Inr (31 < length letters, take 31 letters, rest))"

definition digit_char_value :: "char \<Rightarrow> nat" where
  "digit_char_value c = nat (cint c - 48)"

text \<open>A token must fit a buffer of \<^verbatim>\<open>CBUFSIZE\<close>.\<close>

definition token_nc :: "string \<Rightarrow> char \<Rightarrow> sub_fault + string" where
  "token_nc ip m = (let g = fst (get_glyph_nc ip m) in if length g \<ge> CBUFSIZE then Inl Token_Overrun else Inr g)"

abbreviation skip_percent :: "string \<Rightarrow> string" where
  "skip_percent s \<equiv> (if deref s = CHR ''%'' then tl s else s)"

definition percent_value ::
  "cmd_env \<Rightarrow> cmdvars \<Rightarrow> string option list \<Rightarrow> bool \<Rightarrow> string \<Rightarrow> string \<Rightarrow> sub_fault + percent" where
  "percent_value env v do_arg expand parts ip =
     (let res = \<lambda>r ap. \<lparr>pct_ip = r, pct_ap = ap, expand_it = expand, pct_parts = parts, emit_percent = False\<rparr>
      in if sim_isdigit (cint (deref ip))
         then (case numbered_arg do_arg (digit_char_value (deref ip)) of Inl f \<Rightarrow> Inl f | Inr a \<Rightarrow> Inr (res (tl ip) a))
         else if deref ip = CHR ''*''
         then (case sim_cmdvars_expand_star_args do_arg of Inl f \<Rightarrow> Inl f | Inr a \<Rightarrow> Inr (res (tl ip) (Some a)))
         else if ip = [] then Inr ((res [] None)\<lparr>emit_percent := True\<rparr>)
         else (case token_nc ip CHR ''%'' of
                 Inl f \<Rightarrow> Inl f
               | Inr g \<Rightarrow>
                   (case sim_get_env_special env v g CBUFSIZE of
                      Inl f \<Rightarrow> Inl f
                    | Inr a \<Rightarrow> Inr (res (skip_percent (drop (length g) ip)) a))))"

definition sim_cmdvars_parse_percent :: "cmd_env \<Rightarrow> cmdvars \<Rightarrow> string option list \<Rightarrow> string \<Rightarrow> sub_fault + percent" where
  "sim_cmdvars_parse_percent env v do_arg ip =
     (if deref ip = CHR ''~''
      then case tilde_parts (tl ip) of
             Inl f \<Rightarrow> Inl f
           | Inr (malformed, parts, r) \<Rightarrow>
               if malformed
               then let none = \<lambda>r'. \<lparr>pct_ip = r', pct_ap = None, expand_it = True, pct_parts = parts, emit_percent = False\<rparr>
                    in if sim_isdigit (cint (deref r)) \<or> deref r = CHR ''*'' then Inr (none (tl r))
                       else (case token_nc r CHR ''%'' of
                               Inl f \<Rightarrow> Inl f
                             | Inr g \<Rightarrow> Inr (none (skip_percent (drop (length g) r))))
               else percent_value env v do_arg True parts r
      else percent_value env v do_arg False [] ip)"

subsection \<open>Lines\<close>

text \<open>Expanded text, as far as it fits; all its characters come from one place of the original line.\<close>

definition sim_cmdvars_copy_expansion :: "string \<Rightarrow> nat \<Rightarrow> nat \<Rightarrow> string \<times> nat list \<Rightarrow> string \<times> nat list" where
  "sim_cmdvars_copy_expansion ap oend pos po =
     (let t = take (oend - length (fst po)) ap in (fst po @ t, snd po @ replicate (length t) pos))"

definition sim_cmdvars_expand_and_copy :: "cmd_env \<Rightarrow> percent \<Rightarrow> nat \<Rightarrow> nat \<Rightarrow> string \<times> nat list \<Rightarrow> string \<times> nat list" where
  "sim_cmdvars_expand_and_copy env p oend pos po =
     (case pct_ap p of
        None \<Rightarrow> po
      | Some a \<Rightarrow> sim_cmdvars_copy_expansion (if expand_it p then sim_filepath_parts env a (pct_parts p) else a) oend pos po)"

text \<open>A line that is one quoted string becomes what it quotes.\<close>

definition sim_cmdvars_decode_initial_quoted_line :: "string \<Rightarrow> sub_fault + string" where
  "sim_cmdvars_decode_initial_quoted_line ip =
     (if deref ip = CHR 0x22 \<or> deref ip = CHR 0x27
      then let (tp, cptr) = get_glyph_quoted ip NUL
           in if cptr \<noteq> [] then Inr ip
              else (case sim_decode_quoted_string tp of
                      Inl f \<Rightarrow> Inl (Quoted_Fault f)
                    | Inr (st, data) \<Rightarrow>
                        if st = SCPE_OK
                        then Inr (skip_space (takeWhile (\<lambda>c. c \<noteq> NUL) (map (\<lambda>b. char_of (unat b)) data)))
                        else Inr ip)
      else Inr ip)"

lemma token_nc_length: "token_nc ip m = Inr g \<Longrightarrow> length g \<le> length ip"
  using glyph_loop_lengths [of m False False NUL False False NUL ip]
  by (auto simp: token_nc_def get_glyph_nc_def get_glyph_gen_def Let_def case_prod_beta split: if_splits)

lemma percent_value_length: "percent_value env v do_arg e parts ip = Inr p \<Longrightarrow> length (pct_ip p) \<le> length ip"
  by (auto simp: percent_value_def Let_def split: if_splits sum.splits)

lemma parse_percent_length: "sim_cmdvars_parse_percent env v do_arg ip = Inr p \<Longrightarrow> length (pct_ip p) \<le> length ip"
proof -
  have t: "tilde_parts s = Inr (mf, parts, r) \<Longrightarrow> length r \<le> length s" for s mf parts r
    by (auto simp: tilde_parts_def Let_def length_dropWhile_le split: if_splits)
  assume p: "sim_cmdvars_parse_percent env v do_arg ip = Inr p"
  show ?thesis
  proof (cases "deref ip = CHR ''~''")
    case True
    with p obtain mf parts r where r: "tilde_parts (tl ip) = Inr (mf, parts, r)"
      by (auto simp: sim_cmdvars_parse_percent_def split: sum.splits)
    with p True have "length (pct_ip p) \<le> length r"
      using percent_value_length [of env v do_arg True parts r p]
      by (auto simp: sim_cmdvars_parse_percent_def Let_def split: if_splits sum.splits)
    with t [OF r] show ?thesis by simp
  next
    case False
    with p show ?thesis using percent_value_length [of env v do_arg False "[]" ip p] by (simp add: sim_cmdvars_parse_percent_def)
  qed
qed

text \<open>
  The loop over the line; \<open>n\<close> is the length of the original, so that \<open>n - length ip\<close> is where the
  loop stands in it.
\<close>

function sub_loop ::
  "cmd_env \<Rightarrow> cmdvars \<Rightarrow> string option list \<Rightarrow> nat \<Rightarrow> nat \<Rightarrow> string \<Rightarrow> string \<times> nat list \<Rightarrow> sub_fault + string \<times> nat list" where
  "sub_loop env v do_arg n oend ip po =
     (if ip = [] \<or> length (fst po) \<ge> oend then Inr po
      else if hd ip = CHR ''%'' \<and> deref (tl ip) = CHR ''%''
      then sub_loop env v do_arg n oend (tl (tl ip)) (fst po @ ''%'', snd po @ [n - length ip])
      else if hd ip = CHR ''%''
      then (case sim_cmdvars_parse_percent env v do_arg (tl ip) of
              Inl f \<Rightarrow> Inl f
            | Inr p \<Rightarrow>
                sub_loop env v do_arg n oend (pct_ip p)
                  (sim_cmdvars_expand_and_copy env p oend (n - length (pct_ip p))
                     (if emit_percent p then (fst po @ ''%'', snd po) else po)))
      else sub_loop env v do_arg n oend (tl ip) (fst po @ [hd ip], snd po @ [n - length ip]))"
  by pat_completeness auto

termination
proof (relation "measure (\<lambda>(env, v, do_arg, n, oend, ip, po). length ip)", goal_cases)
  case (3 env v do_arg n oend ip po p)
  then have "length (pct_ip p) \<le> length (tl ip)" by (intro parse_percent_length) simp
  with 3 show ?case by (cases ip) auto
qed (auto simp: neq_Nil_conv)

declare sub_loop.simps [simp del]

text \<open>The first token, in capitals, may name a variable.\<close>

definition sub_first ::
  "cmd_env \<Rightarrow> cmdvars \<Rightarrow> string option list \<Rightarrow> nat \<Rightarrow> nat \<Rightarrow> string \<Rightarrow> string \<times> nat list \<Rightarrow> sub_fault + string \<times> nat list" where
  "sub_first env v do_arg n oend ip po =
     (if ip = [] \<or> length (fst po) \<ge> oend \<or> hd ip = CHR ''%'' then sub_loop env v do_arg n oend ip po
      else let g = fst (get_glyph ip NUL) in
      if length g \<ge> CBUFSIZE then Inl Token_Overrun
      else case sim_get_env_special env v g CBUFSIZE of
             Inl f \<Rightarrow> Inl f
           | Inr None \<Rightarrow> sub_loop env v do_arg n oend (tl ip) (fst po @ [hd ip], snd po @ [n - length ip])
           | Inr (Some a) \<Rightarrow>
               sub_loop env v do_arg n oend (drop (length g) ip) (sim_cmdvars_copy_expansion a oend (n - length ip) po))"

definition sim_sub_args :: "cmd_env \<Rightarrow> string \<Rightarrow> nat \<Rightarrow> string option list \<Rightarrow> cmdvars \<Rightarrow> sub_fault + string \<times> cmdvars" where
  "sim_sub_args env instr instr_size do_arg v =
     (let sp = takeWhile (\<lambda>c. sim_isspace (cint c)) instr
      in case sim_cmdvars_decode_initial_quoted_line (skip_space instr) of
           Inl f \<Rightarrow> Inl f
         | Inr ip \<Rightarrow>
             (let line = sp @ ip
              in case sub_first env v do_arg (length line) (instr_size - 2) ip (sp, [0..<length sp]) of
                   Inl f \<Rightarrow> Inl f
                 | Inr (out, off) \<Rightarrow>
                     Inr (take (instr_size - 1) out,
                          v\<lparr>sim_sub_instr := line, sim_sub_instr_off := off @ [0],
                            sim_sub_instr_size := max instr_size (sim_sub_instr_size v)\<rparr>)))"

text \<open>
  The original text of a pointer into the substituted line, given as its offset; \<^const>\<open>None\<close> is an
  offset for which the last substitution noted no place.
\<close>

definition sim_unsub_args :: "cmdvars \<Rightarrow> string \<Rightarrow> nat \<Rightarrow> string option" where
  "sim_unsub_args v instr k =
     (if 0 < k \<and> k < sim_sub_instr_size v
      then if k < length (sim_sub_instr_off v) then Some (drop (sim_sub_instr_off v ! k) (sim_sub_instr v)) else None
      else Some (drop k instr))"

end
