(* ===== verification/CmdVarsSemantics.thy ===== *)
theory CmdVarsSemantics
  imports CmdVars
begin

text \<open>
  What the substitution of a command line gives: replacements in values, dates, the value of a line
  made of parts, and the way back to the original text.
\<close>

subsection \<open>Replacement\<close>

text \<open>The reference: every match replaced, from the left, without overlap.\<close>

function replace_all :: "string \<Rightarrow> string \<Rightarrow> string \<Rightarrow> string" where
  "replace_all mat rep s =
     (if mat = [] \<or> s = [] then s
      else if take (length mat) s = mat then rep @ replace_all mat rep (drop (length mat) s)
      else hd s # replace_all mat rep (tl s))"
  by pat_completeness auto

termination by (relation "measure (\<lambda>(mat, rep, s). length s)") auto

declare replace_all.simps [simp del]

text \<open>What an asterisk adds: the text in front of the first match goes with it.\<close>

definition replace_from_start :: "string \<Rightarrow> string \<Rightarrow> string \<Rightarrow> string" where
  "replace_from_start mat rep s =
     (case strstr s mat of None \<Rightarrow> s | Some cur \<Rightarrow> rep @ replace_all mat rep (drop (length mat) cur))"

lemma strstr_None: "mat \<noteq> [] \<Longrightarrow> strstr s mat = None \<Longrightarrow> replace_all mat rep s = s"
proof (induction s)
  case (Cons c s)
  then show ?case
    by (subst replace_all.simps) (auto simp: strstr.simps [of "c # s"] split: if_splits)
qed (simp add: replace_all.simps)

lemma strstr_Some:
  assumes "mat \<noteq> []" "strstr s mat = Some cur"
  shows "length cur \<le> length s" "mat = take (length mat) cur"
    "replace_all mat rep s = take (length s - length cur) s @ rep @ replace_all mat rep (drop (length mat) cur)"
proof -
  have "length cur \<le> length s \<and> mat = take (length mat) cur \<and>
      replace_all mat rep s = take (length s - length cur) s @ rep @ replace_all mat rep (drop (length mat) cur)"
    using assms
  proof (induction s)
    case (Cons c s)
    show ?case
    proof (cases "take (length mat) (c # s) = mat")
      case True
      with Cons.prems have "cur = c # s" by (simp add: strstr.simps)
      with True Cons.prems show ?thesis by (simp add: replace_all.simps [of _ _ "c # s"])
    next
      case False
      with Cons.prems have "strstr s mat = Some cur" by (simp add: strstr.simps [of "c # s"])
      with Cons False show ?thesis by (simp add: replace_all.simps [of _ _ "c # s"] Suc_diff_le)
    qed
  qed (simp add: strstr.simps)
  then show "length cur \<le> length s" "mat = take (length mat) cur"
    "replace_all mat rep s = take (length s - length cur) s @ rep @ replace_all mat rep (drop (length mat) cur)" by blast+
qed

lemma diff_min:
  "a - min b a = a - b" "a - min a b = a - b" "a - (min a k + r) = a - (k + r)" for a b k r :: nat
  by simp_all

lemma subst_loop_replaces:
  "mat \<noteq> [] \<Longrightarrow> subst_loop asterisk mat rep s left out =
     Some (out @ take left (if asterisk then replace_from_start mat rep s else replace_all mat rep s))"
proof (induction "length s" arbitrary: s asterisk left out rule: less_induct)
  case less
  show ?case
  proof (cases "strstr s mat")
    case None
    with less.prems show ?thesis by (subst subst_loop.simps) (simp add: strstr_None replace_from_start_def)
  next
    case (Some cur)
    note c = strstr_Some [OF less.prems Some]
    have "length (drop (length mat) cur) < length s"
      using less.prems c(1,2) by (cases mat; cases cur) auto
    note ih = less.hyps [OF this less.prems, of False]
    let ?r = "replace_all mat rep (drop (length mat) cur)"
    have m: "take (min (length s - length cur) left) s = take left (take (length s - length cur) s)" by (simp add: min.commute)
    define move where "move = (if asterisk then [] else take left (take (length s - length cur) s))"
    define ins where "ins = take (left - length move) rep"
    have "subst_loop asterisk mat rep s left out = Some ((out @ move @ ins) @ take (left - length move - length ins) ?r)"
      using Some ih by (subst subst_loop.simps) (simp only: Let_def option.case ins_def move_def m if_False)
    also have "(out @ move @ ins) @ take (left - length move - length ins) ?r =
        out @ take left (if asterisk then rep @ ?r else take (length s - length cur) s @ rep @ ?r)"
    proof (cases asterisk)
      case True
      then show ?thesis by (simp add: move_def ins_def diff_min)
    next
      case False
      then have "length move = min left (length s - length cur)" by (simp add: move_def)
      then have "left - length move = left - (length s - length cur)" by (simp only: diff_min)
      with False show ?thesis by (simp add: move_def ins_def diff_min take_append)
    qed
    finally show ?thesis using Some c(3) by (simp add: replace_from_start_def)
  qed
qed

text \<open>With an empty string to look for the loop finds it again and again.\<close>

lemma strstr_empty [simp]: "strstr s [] = Some s"
  by (simp add: strstr.simps)

lemma subst_loop_returns: "subst_loop asterisk mat rep s left out = Some y \<Longrightarrow> mat \<noteq> []"
proof (rule subst_loop.raw_induct [where P = "\<lambda>a m r s l o' y. m \<noteq> []"], goal_cases)
  case (1 loop asterisk mat rep s left out y)
  show ?case
  proof
    assume "mat = []"
    with "1"(3) obtain l o' where "loop False [] rep s l o' = Some y" by (auto simp: Let_def)
    with "1"(2) show False by blast
  qed
qed

lemma subst_loop_empty: "subst_loop asterisk [] rep s left out = None"
  by (metis not_None_eq subst_loop_returns)

subsection \<open>Dates\<close>

text \<open>Days before a year, and its first weekday, with Monday as 0, in the Gregorian calendar.\<close>

definition first_weekday :: "int \<Rightarrow> int" where
  "first_weekday y = (365 * (y - 1) + (y - 1) div 4 - (y - 1) div 100 + (y - 1) div 400) mod 7"

lemma cdiv_pos: "0 \<le> a \<Longrightarrow> 0 < b \<Longrightarrow> cdiv a b = a div b"
  by (cases "a = 0") (simp_all add: cdiv_def)

lemma crem_pos: "0 \<le> a \<Longrightarrow> 0 < b \<Longrightarrow> crem a b = a mod b"
  by (simp add: crem_def cdiv_pos minus_mult_div_eq_mod)

definition gregorian_leap :: "int \<Rightarrow> bool" where
  "gregorian_leap y \<longleftrightarrow> y mod 400 = 0 \<or> y mod 4 = 0 \<and> y mod 100 \<noteq> 0"

lemma leap_year_gregorian: "0 \<le> y \<Longrightarrow> leap_year y = gregorian_leap y"
  by (auto simp: leap_year_def gregorian_leap_def crem_pos)

lemma first_weekday_2001:
  assumes "2001 \<le> y"
  shows "first_weekday y = (y - 2001 + ((y - 2001) div 4 - (y - 2001) div 100 + (y - 2001) div 400)) mod 7"
proof -
  define d where "d = y - 2001"
  have y: "y - 1 = d + 500 * 4" "y - 1 = d + 20 * 100" "y - 1 = d + 5 * 400" by (simp_all add: d_def)
  have "(y - 1) div 4 = 500 + d div 4" unfolding y(1) by (rule div_mult_self1) simp
  moreover have "(y - 1) div 100 = 20 + d div 100" unfolding y(2) by (rule div_mult_self1) simp
  moreover have "(y - 1) div 400 = 5 + d div 400" unfolding y(3) by (rule div_mult_self1) simp
  moreover have "365 * z + (500 + a) - (20 + b) + (5 + c) = d + (a - b + c) + 7 * (52 * d + 104355)" if "z = d + 500 * 4" for z a b c
    using that by simp
  ultimately have "365 * (y - 1) + (y - 1) div 4 - (y - 1) div 100 + (y - 1) div 400 =
      d + (d div 4 - d div 100 + d div 400) + 7 * (52 * d + 104355)" using y(1) by metis
  then have "first_weekday y = (d + (d div 4 - d div 100 + d div 400) + 7 * (52 * d + 104355)) mod 7"
    by (simp only: first_weekday_def)
  then show ?thesis by (simp only: mod_mult_self2 d_def)
qed

lemma years_19xx_calendar:
  assumes "k < 14"
  shows "first_weekday (1900 + years_19xx ! k) = int k mod 7 \<and> gregorian_leap (1900 + years_19xx ! k) = (7 \<le> k)"
proof -
  have "list_all (\<lambda>k. first_weekday (1900 + years_19xx ! k) = int k mod 7 \<and> gregorian_leap (1900 + years_19xx ! k) = (7 \<le> k)) [0..<14]"
    by code_simp
  with assms show ?thesis by (simp add: list_all_iff)
qed

lemma date_19xx_entry:
  assumes "2001 \<le> y"
  shows "\<exists>k. date_19xx y = years_19xx ! k \<and> k < 14 \<and> int k mod 7 = first_weekday y \<and> (7 \<le> k) = gregorian_leap y"
proof -
  let ?s = "y - 2001 + ((y - 2001) div 4 - (y - 2001) div 100 + (y - 2001) div 400)"
  let ?k = "nat (first_weekday y + (if gregorian_leap y then 7 else 0))"
  have "0 \<le> ?s" using assms by (simp add: div_le_mono2 pos_imp_zdiv_nonneg_iff)
  then have "crem (?s + 7) 7 = (?s + 7) mod 7" by (intro crem_pos) simp_all
  then have "crem (?s + 7) 7 = first_weekday y" by (simp only: mod_add_self2 first_weekday_2001 [OF assms])
  then have "date_19xx y = years_19xx ! ?k" using assms by (simp add: date_19xx_def Let_def cdiv_pos leap_year_gregorian algebra_simps)
  moreover have w: "0 \<le> first_weekday y" "first_weekday y < 7" by (simp_all add: first_weekday_def)
  then have "?k < 14" "int ?k mod 7 = first_weekday y" "(7 \<le> ?k) = gregorian_leap y" by auto
  ultimately show ?thesis by blast
qed

lemma date_19xx_calendar:
  assumes "2001 \<le> y"
  shows "first_weekday (1900 + date_19xx y) = first_weekday y \<and> gregorian_leap (1900 + date_19xx y) = gregorian_leap y \<and> date_19xx y < 100"
proof -
  obtain k where k: "date_19xx y = years_19xx ! k" "k < 14" "int k mod 7 = first_weekday y" "(7 \<le> k) = gregorian_leap y"
    using date_19xx_entry [OF assms] by blast
  have "list_all (\<lambda>k. years_19xx ! k < 100) [0..<14]" by code_simp
  then have "years_19xx ! k < 100" using k(2) by (simp add: list_all_iff)
  with k years_19xx_calendar [OF k(2)] show ?thesis by simp
qed

text \<open>
  The week of a day belongs to the year of its Thursday, whose days in steps of seven number the
  weeks.  \<open>valid_tm\<close> says that the day of the year, of the month and of the week agree.
\<close>

definition year_days :: "int \<Rightarrow> int" where
  "year_days y = (if gregorian_leap y then 366 else 365)"

definition valid_tm :: "tm \<Rightarrow> bool" where
  "valid_tm t \<longleftrightarrow> 0 \<le> tm_wday t \<and> tm_wday t < 7 \<and> 0 \<le> tm_yday t \<and> tm_yday t < year_days (tm_year t + 1900) \<and>
     (year_days (tm_year t + 1900) - 31 \<le> tm_yday t \<longrightarrow> year_days (tm_year t + 1900) - 1 - tm_yday t = 31 - tm_mday t)"

definition iso_reference :: "tm \<Rightarrow> int \<times> int" where
  "iso_reference t =
     (let y = tm_year t + 1900; thursday = tm_yday t + 4 - iso_day (tm_wday t)
      in if thursday < 0 then (y - 1, (thursday + year_days (y - 1)) div 7 + 1)
         else if thursday \<ge> year_days y then (y + 1, (thursday - year_days y) div 7 + 1)
         else (y, thursday div 7 + 1))"

lemma iso_week_correct:
  assumes v: "valid_tm t" and y: "crem (tm_year t + 1899) 4 = 0 \<longleftrightarrow> gregorian_leap (tm_year t + 1899)"
  shows "iso_week t = iso_reference t"
proof -
  let ?y = "tm_year t + 1900" and ?w = "iso_day (tm_wday t)"
  define th where "th = tm_yday t + 4 - ?w"
  have w: "1 \<le> ?w" "?w \<le> 7" using v by (auto simp: valid_tm_def iso_day_def)
  have d: "0 \<le> tm_yday t" "tm_yday t < year_days ?y" "year_days ?y \<le> 366" "365 \<le> year_days ?y"
    using v by (auto simp: valid_tm_def year_days_def)
  have c: "cdiv (tm_yday t + 11 - ?w) 7 = th div 7 + 1" using w d by (simp add: cdiv_pos th_def algebra_simps)
  have week: "cdiv (x + 7) 7 = x div 7 + 1" if "0 \<le> x + 7" for x using that by (simp add: cdiv_pos)
  have th: "-3 \<le> th" "th < year_days ?y + 3" using w d by (simp_all add: th_def)
  consider "th < 0" | "0 \<le> th" "year_days ?y \<le> th" | "0 \<le> th" "th < year_days ?y" by linarith
  then show ?thesis
  proof cases
    case 1
    then have "th div 7 = -1" using th by (simp add: div_pos_neg_trivial)
    moreover have "cdiv (tm_yday t + (365 + (if crem (tm_year t + 1899) 4 = 0 then 1 else 0)) + 11 - ?w) 7 =
        (th + year_days (tm_year t + 1899)) div 7 + 1"
    proof -
      have "tm_yday t + (365 + (if crem (tm_year t + 1899) 4 = 0 then 1 else 0)) + 11 - ?w = (th + year_days (tm_year t + 1899)) + 7"
        using y by (simp add: th_def year_days_def)
      moreover have "0 \<le> (th + year_days (tm_year t + 1899)) + 7" using th by (simp add: year_days_def)
      ultimately show ?thesis by (simp only: week)
    qed
    ultimately show ?thesis
      using 1 c by (cases "crem (tm_year t + 1899) 4 = 0") (simp_all add: iso_week_def iso_reference_def Let_def th_def ac_simps)
  next
    case 2
    then have "th div 7 = 52" "(th - year_days ?y) div 7 = 0" using th d by presburger+
    moreover have "31 - tm_mday t + tm_wday t < 4"
      using v 2 d w by (auto simp: valid_tm_def th_def iso_day_def split: if_splits)
    ultimately show ?thesis using 2 c by (simp add: iso_week_def iso_reference_def Let_def th_def)
  next
    case 3
    then have "th div 7 \<noteq> -1" by presburger
    moreover have "\<not> (th div 7 = 52 \<and> 31 - tm_mday t + tm_wday t < 4)"
      using v 3 d w by (auto simp: valid_tm_def th_def iso_day_def split: if_splits)
    ultimately show ?thesis using 3 c by (auto simp: iso_week_def iso_reference_def Let_def th_def)
  qed
qed

subsection \<open>Substitution of a line\<close>

text \<open>
  The parts of a line: a character, a doubled percent sign, a numbered argument, a variable and, at its
  start, a word that names a variable, in small or capital letters.  Each has a notation, a value, and
  for every character of the value the place to which \<^verbatim>\<open>sim_unsub_args\<close> maps it, \<open>pos\<close> being
  the place of the notation.
\<close>

datatype seg = Text char | Percent | Arg nat | Var string | First string

definition upcase :: "string \<Rightarrow> string" where
  "upcase s = map (\<lambda>c. if sim_islower (cint c) then to_char (sim_toupper (cint c)) else c) s"

fun seg_print :: "seg \<Rightarrow> string" where
  "seg_print (Text c) = [c]"
| "seg_print Percent = ''%%''"
| "seg_print (Arg k) = [CHR ''%'', char_of (48 + k)]"
| "seg_print (Var nm) = CHR ''%'' # nm @ ''%''"
| "seg_print (First tok) = tok"

fun seg_value :: "cmd_env \<Rightarrow> cmdvars \<Rightarrow> string option list \<Rightarrow> seg \<Rightarrow> string" where
  "seg_value env v do_arg (Text c) = [c]"
| "seg_value env v do_arg Percent = ''%''"
| "seg_value env v do_arg (Arg k) = (case numbered_arg do_arg k of Inr (Some a) \<Rightarrow> a | _ \<Rightarrow> [])"
| "seg_value env v do_arg (Var nm) = (case sim_get_env_special env v nm CBUFSIZE of Inr (Some a) \<Rightarrow> a | _ \<Rightarrow> [])"
| "seg_value env v do_arg (First tok) = (case sim_get_env_special env v (upcase tok) CBUFSIZE of Inr (Some a) \<Rightarrow> a | _ \<Rightarrow> [])"

fun seg_place :: "cmd_env \<Rightarrow> cmdvars \<Rightarrow> string option list \<Rightarrow> seg \<Rightarrow> nat \<Rightarrow> nat list" where
  "seg_place env v do_arg (Text c) pos = [pos]"
| "seg_place env v do_arg Percent pos = [pos]"
| "seg_place env v do_arg (First tok) pos = replicate (length (seg_value env v do_arg (First tok))) pos"
| "seg_place env v do_arg x pos = replicate (length (seg_value env v do_arg x)) (pos + length (seg_print x))"

text \<open>A name has no blank and no percent sign, and is not taken for another form.\<close>

definition var_name :: "string \<Rightarrow> bool" where
  "var_name nm \<longleftrightarrow> nm \<noteq> [] \<and> length nm < CBUFSIZE \<and> (\<forall>c \<in> set nm. \<not> sim_isspace (cint c) \<and> c \<noteq> CHR ''%'') \<and>
     \<not> sim_isdigit (cint (hd nm)) \<and> hd nm \<noteq> CHR ''*'' \<and> hd nm \<noteq> CHR ''~''"

fun seg_ok :: "cmd_env \<Rightarrow> cmdvars \<Rightarrow> string option list \<Rightarrow> seg \<Rightarrow> bool" where
  "seg_ok env v do_arg (Text c) \<longleftrightarrow> c \<noteq> CHR ''%''"
| "seg_ok env v do_arg Percent \<longleftrightarrow> True"
| "seg_ok env v do_arg (Arg k) \<longleftrightarrow> k < 10 \<and> k < length do_arg"
| "seg_ok env v do_arg (Var nm) \<longleftrightarrow> var_name nm \<and> \<not> isl (sim_get_env_special env v nm CBUFSIZE)"
| "seg_ok env v do_arg (First tok) \<longleftrightarrow> False"

definition line_text :: "seg list \<Rightarrow> string" where
  "line_text segs = concat (map seg_print segs)"

definition line_value :: "cmd_env \<Rightarrow> cmdvars \<Rightarrow> string option list \<Rightarrow> seg list \<Rightarrow> string" where
  "line_value env v do_arg segs = concat (map (seg_value env v do_arg) segs)"

fun line_places :: "cmd_env \<Rightarrow> cmdvars \<Rightarrow> string option list \<Rightarrow> seg list \<Rightarrow> nat \<Rightarrow> nat list" where
  "line_places env v do_arg [] pos = []"
| "line_places env v do_arg (x # xs) pos = seg_place env v do_arg x pos @ line_places env v do_arg xs (pos + length (seg_print x))"

lemma line_simps [simp]:
  "line_text [] = []" "line_text (x # xs) = seg_print x @ line_text xs" "line_text (xs @ ys) = line_text xs @ line_text ys"
  "line_value env v a [] = []" "line_value env v a (x # xs) = seg_value env v a x @ line_value env v a xs"
  "line_value env v a (xs @ ys) = line_value env v a xs @ line_value env v a ys"
  by (simp_all add: line_text_def line_value_def)

lemma seg_place_length [simp]: "length (seg_place env v a x pos) = length (seg_value env v a x)"
  by (cases x) simp_all

lemma line_places_length [simp]: "length (line_places env v a xs pos) = length (line_value env v a xs)"
  by (induction xs arbitrary: pos) simp_all

lemma line_places_append:
  "line_places env v a (xs @ ys) pos = line_places env v a xs pos @ line_places env v a ys (pos + length (line_text xs))"
  by (induction xs arbitrary: pos) (simp_all add: add.assoc)

lemma token_name:
  assumes "var_name nm"
  shows "token_nc (nm @ CHR ''%'' # r) CHR ''%'' = Inr nm"
proof -
  have "fst (glyph_loop (CHR ''%'') False False NUL False False NUL (xs @ CHR ''%'' # r)) = xs"
    if "\<forall>c \<in> set xs. \<not> sim_isspace (cint c) \<and> c \<noteq> CHR ''%''" for xs
    using that by (induction xs) (simp_all add: Let_def case_prod_beta)
  with assms show ?thesis
    by (simp add: token_nc_def get_glyph_nc_def get_glyph_gen_def var_name_def Let_def case_prod_beta)
qed

text \<open>A percent form of the line, as the parser reads it.\<close>

lemma parse_arg:
  assumes "k < 10" "k < length do_arg"
  shows "sim_cmdvars_parse_percent env v do_arg (char_of (48 + k) # r) =
    Inr \<lparr>pct_ip = r, pct_ap = (case numbered_arg do_arg k of Inr x \<Rightarrow> x | Inl f \<Rightarrow> None), expand_it = False, pct_parts = [], emit_percent = False\<rparr>"
proof -
  have c: "cint (char_of (48 + k)) = 48 + int k" using assms(1) by (simp add: cint_char_of)
  then have "char_of (48 + k) \<noteq> CHR ''~''" using assms(1) by (auto simp: cint_def)
  moreover have "sim_isdigit (cint (char_of (48 + k)))" "digit_char_value (char_of (48 + k)) = k"
    using assms(1) c by (simp_all add: ctype_defs digit_char_value_def)
  ultimately show ?thesis
    using assms(2) by (simp add: sim_cmdvars_parse_percent_def percent_value_def numbered_arg_def arg_at_def Let_def)
qed

lemma parse_var:
  assumes "var_name nm" "sim_get_env_special env v nm CBUFSIZE = Inr a"
  shows "sim_cmdvars_parse_percent env v do_arg (nm @ CHR ''%'' # r) =
    Inr \<lparr>pct_ip = r, pct_ap = a, expand_it = False, pct_parts = [], emit_percent = False\<rparr>"
proof -
  obtain c s where nm: "nm = c # s" using assms(1) by (cases nm) (auto simp: var_name_def)
  with assms(1) have c: "\<not> sim_isdigit (cint c)" "c \<noteq> CHR ''*''" "c \<noteq> CHR ''~''" by (simp_all add: var_name_def)
  show ?thesis
    using token_name [OF assms(1), of r] assms(2) c
    by (simp add: nm sim_cmdvars_parse_percent_def percent_value_def Let_def)
qed

lemma sub_loop_line:
  assumes "list_all (seg_ok env v do_arg) segs" "length out + length (line_value env v do_arg segs) \<le> oend"
    "n = pos + length (line_text segs @ rest)"
  shows "sub_loop env v do_arg n oend (line_text segs @ rest) (out, off) =
    sub_loop env v do_arg n oend rest (out @ line_value env v do_arg segs, off @ line_places env v do_arg segs pos)"
  using assms
proof (induction segs arbitrary: out off pos)
  case Nil
  then show ?case by simp
next
  case (Cons x segs)
  let ?v = "seg_value env v do_arg x"
  show ?case
  proof (cases "length out < oend")
    case False
    with Cons.prems have e: "length (line_value env v do_arg (x # segs)) = 0" by linarith
    then have "seg_place env v do_arg x pos = []" "line_places env v do_arg segs (pos + length (seg_print x)) = []"
      by (simp_all flip: length_0_conv)
    with e False show ?thesis by (simp add: sub_loop.simps)
  next
    case True
    have ih: "sub_loop env v do_arg n oend (line_text segs @ rest) (out @ ?v, off @ seg_place env v do_arg x pos) =
        sub_loop env v do_arg n oend rest (out @ line_value env v do_arg (x # segs), off @ line_places env v do_arg (x # segs) pos)"
      using Cons.IH [of "out @ ?v" "pos + length (seg_print x)" "off @ seg_place env v do_arg x pos"] Cons.prems by simp
    have step: "sub_loop env v do_arg n oend (seg_print x @ line_text segs @ rest) (out, off) =
        sub_loop env v do_arg n oend (line_text segs @ rest) (out @ ?v, off @ seg_place env v do_arg x pos)"
    proof (cases x)
      case (Text c)
      with True Cons.prems show ?thesis by (subst sub_loop.simps) simp
    next
      case Percent
      with True Cons.prems show ?thesis by (subst sub_loop.simps) simp
    next
      case (Arg k)
      with Cons.prems have k: "k < 10" "k < length do_arg" by simp_all
      then have "cint (char_of (48 + k)) = 48 + int k" by (simp add: cint_char_of)
      then have "char_of (48 + k) \<noteq> CHR ''%''" using k(1) by (auto simp: cint_def)
      moreover obtain a where "numbered_arg do_arg k = Inr a" using k by (simp add: numbered_arg_def arg_at_def)
      ultimately show ?thesis using True Cons.prems Arg parse_arg [OF k, of env v "line_text segs @ rest"]
        by (subst sub_loop.simps) (auto simp: sim_cmdvars_expand_and_copy_def sim_cmdvars_copy_expansion_def Let_def split: option.splits)
    next
      case (Var nm)
      with Cons.prems obtain a where a: "var_name nm" "sim_get_env_special env v nm CBUFSIZE = Inr a"
        by (auto simp: isl_def) (metis sum.exhaust_sel)
      then obtain c s where "nm = c # s" "c \<noteq> CHR ''%''" by (cases nm) (auto simp: var_name_def)
      with True Cons.prems Var a parse_var [OF a, of do_arg "line_text segs @ rest"] show ?thesis
        by (subst sub_loop.simps) (auto simp: sim_cmdvars_expand_and_copy_def sim_cmdvars_copy_expansion_def Let_def numeral_3_eq_3 split: option.splits)
    qed (use Cons.prems in simp)
    from step ih show ?thesis by simp
  qed
qed

text \<open>A line that does not start with a blank or a quote, and whose first token names no variable.\<close>

definition plain_start :: "cmd_env \<Rightarrow> cmdvars \<Rightarrow> string \<Rightarrow> bool" where
  "plain_start env v line \<longleftrightarrow> line \<noteq> [] \<and> \<not> sim_isspace (cint (hd line)) \<and> hd line \<noteq> CHR 0x22 \<and> hd line \<noteq> CHR 0x27 \<and>
     (hd line = CHR ''%'' \<or> length (fst (get_glyph line NUL)) < CBUFSIZE \<and>
      sim_get_env_special env v (fst (get_glyph line NUL)) CBUFSIZE = Inr None)"

lemma sim_sub_args_plain:
  assumes "plain_start env v line" "2 < size'"
  shows "sim_sub_args env line size' do_arg v =
    (case sub_loop env v do_arg (length line) (size' - 2) line ([], []) of
       Inl f \<Rightarrow> Inl f
     | Inr (out, off) \<Rightarrow>
         Inr (take (size' - 1) out, v\<lparr>sim_sub_instr := line, sim_sub_instr_off := off @ [0],
                sim_sub_instr_size := max size' (sim_sub_instr_size v)\<rparr>))"
proof -
  obtain c r where line: "line = c # r" using assms(1) by (cases line) (auto simp: plain_start_def)
  have "sub_first env v do_arg (length line) (size' - 2) line ([], []) = sub_loop env v do_arg (length line) (size' - 2) line ([], [])"
  proof (cases "c = CHR ''%''")
    case True
    then show ?thesis by (simp add: sub_first_def line)
  next
    case False
    then have "sub_loop env v do_arg (length line) (size' - 2) line ([], []) = sub_loop env v do_arg (length line) (size' - 2) r ([c], [0])"
      using assms(2) by (subst sub_loop.simps) (simp add: line)
    with False assms show ?thesis by (simp add: sub_first_def plain_start_def line)
  qed
  moreover have "skip_space line = line" "takeWhile (\<lambda>c. sim_isspace (cint c)) line = []"
    "sim_cmdvars_decode_initial_quoted_line line = Inr line"
    using assms(1) by (simp_all add: plain_start_def line skip_space_def sim_cmdvars_decode_initial_quoted_line_def)
  ultimately show ?thesis by (simp add: sim_sub_args_def Let_def split: sum.split)
qed

text \<open>
  The first word.  A line may start with it when it names a variable; a line that starts with none must
  start with a word that names no variable, or with a percent form.
\<close>

definition first_word :: "string \<Rightarrow> string" where
  "first_word s = takeWhile (\<lambda>c. \<not> sim_isspace (cint c) \<and> c \<noteq> NUL) s"

lemma get_glyph_word: "fst (get_glyph s NUL) = upcase (first_word s)"
proof -
  have "fst (glyph_loop NUL True False NUL False False NUL s) = upcase (first_word s)"
    by (induction s) (simp_all add: upcase_def first_word_def Let_def case_prod_beta)
  then show ?thesis by (simp add: get_glyph_def get_glyph_gen_def Let_def case_prod_beta)
qed

definition line_ok :: "cmd_env \<Rightarrow> cmdvars \<Rightarrow> string option list \<Rightarrow> seg list \<Rightarrow> bool" where
  "line_ok env v do_arg segs \<longleftrightarrow>
     (case segs of
        First tok # r \<Rightarrow>
          list_all (seg_ok env v do_arg) r \<and> first_word (line_text segs) = tok \<and> tok \<noteq> [] \<and> hd tok \<noteq> CHR ''%'' \<and> length tok < CBUFSIZE \<and>
          (case sim_get_env_special env v (upcase tok) CBUFSIZE of Inr (Some a) \<Rightarrow> True | _ \<Rightarrow> False)
      | _ \<Rightarrow>
          list_all (seg_ok env v do_arg) segs \<and>
          (line_text segs = [] \<or> hd (line_text segs) = CHR ''%'' \<or>
           length (first_word (line_text segs)) < CBUFSIZE \<and>
           sim_get_env_special env v (upcase (first_word (line_text segs))) CBUFSIZE = Inr None))"

lemma upcase_length [simp]: "length (upcase s) = length s"
  by (simp add: upcase_def)

lemma sub_first_line:
  assumes "line_ok env v do_arg segs" "length out + length (line_value env v do_arg segs) \<le> oend" "n = pos + length (line_text segs)"
  shows "sub_first env v do_arg n oend (line_text segs) (out, off) =
    Inr (out @ line_value env v do_arg segs, off @ line_places env v do_arg segs pos)"
proof (cases "\<exists>tok r. segs = First tok # r")
  case False
  then have ok: "list_all (seg_ok env v do_arg) segs"
    "line_text segs = [] \<or> hd (line_text segs) = CHR ''%'' \<or> length (first_word (line_text segs)) < CBUFSIZE \<and>
       sim_get_env_special env v (upcase (first_word (line_text segs))) CBUFSIZE = Inr None"
    using assms(1) by (auto simp: line_ok_def split: list.splits seg.splits)
  have "sub_first env v do_arg n oend (line_text segs) (out, off) = sub_loop env v do_arg n oend (line_text segs) (out, off)"
  proof (cases "line_text segs = [] \<or> oend \<le> length out \<or> hd (line_text segs) = CHR ''%''")
    case True
    then show ?thesis by (auto simp: sub_first_def)
  next
    case False
    with ok(2) show ?thesis by (subst sub_loop.simps) (auto simp: sub_first_def get_glyph_word Let_def)
  qed
  also have "\<dots> = Inr (out @ line_value env v do_arg segs, off @ line_places env v do_arg segs pos)"
    using sub_loop_line [OF ok(1) assms(2), of n pos "[]" off] assms(3) by (simp add: sub_loop.simps [of _ _ _ _ _ "[]"])
  finally show ?thesis .
next
  case True
  then obtain tok r where segs: "segs = First tok # r" by blast
  then obtain a where ok: "list_all (seg_ok env v do_arg) r" "first_word (tok @ line_text r) = tok" "tok \<noteq> []" "hd tok \<noteq> CHR ''%''"
    "length tok < CBUFSIZE" "sim_get_env_special env v (upcase tok) CBUFSIZE = Inr (Some a)"
    using assms(1) by (auto simp: line_ok_def split: sum.splits option.splits)
  show ?thesis
  proof (cases "oend \<le> length out")
    case True
    then have "length (line_value env v do_arg segs) = 0" using assms(2) by linarith
    then have e: "line_value env v do_arg segs = []" by simp
    then have "line_places env v do_arg segs pos = []" by (metis length_0_conv line_places_length)
    with True e show ?thesis by (simp add: sub_first_def sub_loop.simps)
  next
    case False
    have "sub_first env v do_arg n oend (line_text segs) (out, off) =
        sub_loop env v do_arg n oend (line_text r) (out @ a, off @ replicate (length a) pos)"
      using False ok assms(2,3) by (simp add: segs sub_first_def get_glyph_word sim_cmdvars_copy_expansion_def Let_def)
    with sub_loop_line [OF ok(1), of "out @ a" oend n "pos + length tok" "[]" "off @ replicate (length a) pos"] assms(2,3) ok(6)
    show ?thesis by (simp add: segs sub_loop.simps [of _ _ _ _ _ "[]"])
  qed
qed

text \<open>A whole line: blanks, and behind them a text or a quoted string that stands for it.\<close>

definition reads_as :: "cmd_env \<Rightarrow> cmdvars \<Rightarrow> string option list \<Rightarrow> string \<Rightarrow> string \<Rightarrow> seg list \<Rightarrow> bool" where
  "reads_as env v do_arg sp body segs \<longleftrightarrow>
     list_all (\<lambda>c. sim_isspace (cint c)) sp \<and> (body = [] \<or> \<not> sim_isspace (cint (hd body))) \<and>
     sim_cmdvars_decode_initial_quoted_line body = Inr (line_text segs) \<and> line_ok env v do_arg segs"

lemma takeWhile_blanks:
  assumes "list_all (\<lambda>c. sim_isspace (cint c)) sp" "body = [] \<or> \<not> sim_isspace (cint (hd body))"
  shows "takeWhile (\<lambda>c. sim_isspace (cint c)) (sp @ body) = sp" "skip_space (sp @ body) = body"
  using assms by (induction sp) (cases body; simp add: skip_space_def)+

lemma line_places_blanks: "line_places env v a (map Text sp) pos = [pos..<pos + length sp]"
  by (induction sp arbitrary: pos) (simp_all add: upt_conv_Cons del: upt_Suc)

lemma line_text_blanks [simp]: "line_text (map Text sp) = sp" "line_value env v a (map Text sp) = sp"
  by (induction sp) simp_all

lemma sub_args_whole_line:
  assumes "reads_as env v do_arg sp body segs" "length sp + length (line_value env v do_arg segs) + 2 < size'"
  shows "sim_sub_args env (sp @ body) size' do_arg v =
    Inr (sp @ line_value env v do_arg segs,
      v\<lparr>sim_sub_instr := sp @ line_text segs, sim_sub_instr_off := line_places env v do_arg (map Text sp @ segs) 0 @ [0],
        sim_sub_instr_size := max size' (sim_sub_instr_size v)\<rparr>)"
proof -
  have r: "takeWhile (\<lambda>c. sim_isspace (cint c)) (sp @ body) = sp" "skip_space (sp @ body) = body"
    "sim_cmdvars_decode_initial_quoted_line body = Inr (line_text segs)" "line_ok env v do_arg segs"
    using assms(1) takeWhile_blanks [of sp body] by (simp_all add: reads_as_def)
  show ?thesis
    using sub_first_line [OF r(4), of sp "size' - 2" "length sp + length (line_text segs)" "length sp" "[0..<length sp]"] assms(2)
    by (simp add: sim_sub_args_def r(1-3) line_places_append line_places_blanks Let_def)
qed

text \<open>Where a pointer into the result leads, after a substitution.\<close>

lemma unsub_whole_line:
  assumes "reads_as env v do_arg sp body segs" "length sp + length (line_value env v do_arg segs) + 2 < size'"
    "map Text sp @ segs = xs @ x # ys" "seg_value env v do_arg x \<noteq> []"
  defines "out \<equiv> sp @ line_value env v do_arg segs"
  shows "\<exists>v'. sim_sub_args env (sp @ body) size' do_arg v = Inr (out, v') \<and>
    sim_unsub_args v' out (length (line_value env v do_arg xs)) =
      Some (if line_value env v do_arg xs = [] then out
            else line_text (case x of Arg k \<Rightarrow> ys | Var nm \<Rightarrow> ys | _ \<Rightarrow> x # ys))"
proof -
  let ?k = "length (line_value env v do_arg xs)" and ?places = "line_places env v do_arg (map Text sp @ segs) 0"
  have "line_text (map Text sp @ segs) = line_text (xs @ x # ys)" "line_value env v do_arg (map Text sp @ segs) = line_value env v do_arg (xs @ x # ys)"
    by (simp_all only: assms(3))
  then have t: "sp @ line_text segs = line_text xs @ seg_print x @ line_text ys"
    and o: "out = line_value env v do_arg xs @ seg_value env v do_arg x @ line_value env v do_arg ys" by (simp_all add: out_def)
  have "length out = ?k + length (seg_value env v do_arg x) + length (line_value env v do_arg ys)" by (simp add: o)
  then have k: "?k < length ?places" "?k < size'" using assms(2,4) by (simp_all add: assms(3)) (simp add: out_def)
  have "?places ! ?k = length (line_text xs) + length (case x of Arg k \<Rightarrow> seg_print x | Var nm \<Rightarrow> seg_print x | _ \<Rightarrow> [])"
    using assms(4) by (cases x) (auto simp: assms(3) line_places_append nth_append)
  then show ?thesis
    using sub_args_whole_line [OF assms(1,2)] k t
    by (cases x) (auto simp: sim_unsub_args_def nth_append out_def [symmetric])
qed

text \<open>The output never outgrows the temporary buffer, and a place is noted for no more than its characters.\<close>

definition fits_line :: "nat \<Rightarrow> string \<times> nat list \<Rightarrow> bool" where
  "fits_line oend po \<longleftrightarrow> length (fst po) \<le> oend \<and> length (snd po) \<le> length (fst po)"

lemma copy_fits: "fits_line oend po \<Longrightarrow> fits_line oend (sim_cmdvars_copy_expansion ap oend pos po)"
  by (auto simp: fits_line_def sim_cmdvars_copy_expansion_def Let_def min_def)

lemma expand_fits: "fits_line oend po \<Longrightarrow> fits_line oend (sim_cmdvars_expand_and_copy env p oend pos po)"
  by (simp add: sim_cmdvars_expand_and_copy_def copy_fits split: option.split)

lemma fits_line_add: "fits_line oend po \<Longrightarrow> length (fst po) < oend \<Longrightarrow> fits_line oend (fst po @ [c], snd po @ [k])"
  "fits_line oend po \<Longrightarrow> length (fst po) < oend \<Longrightarrow> fits_line oend (fst po @ [c], snd po)"
  by (simp_all add: fits_line_def)

lemma sub_loop_fits:
  "sub_loop env v do_arg n oend ip po = Inr r \<Longrightarrow> fits_line oend po \<Longrightarrow> fits_line oend r"
proof (induction env v do_arg n oend ip po rule: sub_loop.induct)
  case (1 env v do_arg n oend ip po)
  show ?case
  proof (cases "ip = [] \<or> length (fst po) \<ge> oend")
    case True
    with "1.prems" show ?thesis by (simp add: sub_loop.simps)
  next
    case more: False
    then have a: "fits_line oend (fst po @ [c], snd po @ [k])" "fits_line oend (if b then (fst po @ ''%'', snd po) else po)" for c k b
      using fits_line_add [OF "1.prems"(2)] "1.prems"(2) by simp_all
    show ?thesis
    proof (cases "hd ip = CHR ''%'' \<and> deref (tl ip) = CHR ''%''")
      case True
      with "1.IH"(1) [OF more True] more "1.prems"(1) a show ?thesis by (subst (asm) sub_loop.simps) simp
    next
      case no: False
      show ?thesis
      proof (cases "hd ip = CHR ''%''")
        case True
        with more no "1.prems"(1) obtain p where "sim_cmdvars_parse_percent env v do_arg (tl ip) = Inr p"
          by (subst (asm) sub_loop.simps) (auto split: sum.splits)
        with "1.IH"(2) [OF more no True this] more no True "1.prems"(1) expand_fits [OF a(2)] show ?thesis
          by (subst (asm) (2) sub_loop.simps) auto
      next
        case False
        with "1.IH"(3) [OF more no False] more no "1.prems"(1) a show ?thesis by (subst (asm) sub_loop.simps) auto
      qed
    qed
  qed
qed

lemma sub_first_fits:
  assumes "sub_first env v do_arg n oend ip po = Inr r" "fits_line oend po"
  shows "fits_line oend r"
proof (cases "ip = [] \<or> oend \<le> length (fst po) \<or> hd ip = CHR ''%''")
  case True
  with assms show ?thesis by (auto simp: sub_first_def intro: sub_loop_fits)
next
  case False
  then have a: "fits_line oend (fst po @ [hd ip], snd po @ [k])" for k using fits_line_add(1) [OF assms(2)] by simp
  from False assms(1) show ?thesis
    by (auto simp: sub_first_def Let_def intro: sub_loop_fits [OF _ a] sub_loop_fits [OF _ copy_fits [OF assms(2)]]
        split: if_splits sum.splits option.splits)
qed

lemma sub_first_full: "oend \<le> length (fst po) \<Longrightarrow> sub_first env v do_arg n oend ip po = Inr po"
  by (simp add: sub_first_def sub_loop.simps)

text \<open>Only the blanks at the start are copied without a look at the end of the buffer.\<close>

lemma sub_args_fits:
  assumes "length line < size'" "2 < size'" "sim_sub_args env line size' do_arg v = Inr (out, v')"
  shows "length out < size'" "length (sim_sub_instr_off v') \<le> length out + 1"
proof -
  define sp where "sp = takeWhile (\<lambda>c. sim_isspace (cint c)) line"
  obtain n ip r where r: "sub_first env v do_arg n (size' - 2) ip (sp, [0..<length sp]) = Inr r" "out = take (size' - 1) (fst r)"
    "sim_sub_instr_off v' = snd r @ [0]"
    using assms(3) by (auto simp: sim_sub_args_def Let_def sp_def split: sum.splits)
  have sp: "length sp < size'" using assms(1) length_takeWhile_le [of "\<lambda>c. sim_isspace (cint c)" line] by (simp add: sp_def)
  have "length (fst r) < size' \<and> length (snd r) \<le> length (fst r)"
  proof (cases "size' - 2 \<le> length sp")
    case True
    then show ?thesis using r(1) sp sub_first_full [of "size' - 2" "(sp, [0..<length sp])"] by auto
  next
    case False
    then have "fits_line (size' - 2) r" using sub_first_fits [OF r(1)] by (simp add: fits_line_def)
    then have "length (fst r) \<le> size' - 2" "length (snd r) \<le> length (fst r)" by (simp_all add: fits_line_def)
    with assms(2) show ?thesis by linarith
  qed
  with r show "length out < size'" "length (sim_sub_instr_off v') \<le> length out + 1" by auto
qed

text \<open>Forms at the end of a line that are read on behind it.\<close>

lemma tilde_at_end:
  assumes "list_all part_letter letters"
  shows "sim_cmdvars_parse_percent env v do_arg (CHR ''~'' # letters) = Inl Line_End_Passed"
  using assms by (simp add: sim_cmdvars_parse_percent_def tilde_parts_def list_all_iff)

subsection \<open>Properties\<close>

text \<open>
  C18. Functional: take a line of blanks and a text behind them, which may be given as one quoted string
  that stands for it, and let the text consist of characters, doubled percent signs, numbered arguments
  and variables, where the first word may also be the name of a variable.  When the result fits, the line
  becomes the blanks and the concatenation of the values of the parts, a first word that names a variable
  being replaced by its value.  For any line that its buffer holds, whatever its forms, if the
  substitution returns the result fits the buffer, and so do the places that are noted.
\<close>

theorem sub_args_expands:
  assumes "reads_as env v do_arg sp body segs" "length sp + length (line_value env v do_arg segs) + 2 < size'"
    and "length line < size1" "2 < size1"
  shows "(\<exists>v'. sim_sub_args env (sp @ body) size' do_arg v = Inr (sp @ line_value env v do_arg segs, v') \<and> cv_sub_vars v' = cv_sub_vars v) \<and>
    (case sim_sub_args env line size1 do_arg v of
       Inl f \<Rightarrow> True
     | Inr (out, v') \<Rightarrow> length out < size1 \<and> length (sim_sub_instr_off v') \<le> length out + 1)"
  using sub_args_whole_line [OF assms(1,2)] sub_args_fits [OF assms(3,4)] by (auto split: sum.split)

text \<open>An environment where one variable is set, and its state.\<close>

definition demo_env :: cmd_env where
  "demo_env = \<lparr>local_time = None, state_text = (\<lambda>n. None), getenv = (\<lambda>n. if n = ''FILE'' then Some ''disk.img'' else None),
     sim_filepath_parts = (\<lambda>f p. f)\<rparr>"

definition demo_vars :: cmdvars where
  "demo_vars = \<lparr>cv_sub_vars = [], sim_external_env = [], sim_sub_instr = [], sim_sub_instr_off = [], sim_sub_instr_size = 0\<rparr>"

definition demo_line :: "seg list" where
  "demo_line = map Text ''at '' @ [Arg 1, Text CHR '' '', Var ''FILE'']"

definition demo_first :: "seg list" where
  "demo_first = First ''file'' # map Text '' at '' @ [Arg 1, Text CHR '' '', Var ''FILE'']"

lemma demo_reads:
  "reads_as demo_env demo_vars [Some ''do'', Some ''rk0''] [] (line_text demo_line) demo_line"
  "reads_as demo_env demo_vars [Some ''do'', Some ''rk0''] ''  '' (line_text demo_first) demo_first"
  by code_simp+

lemma demo_texts: "line_text demo_line = ''at %1 %FILE%''" "line_text demo_first = ''file at %1 %FILE%''"
  by code_simp+

lemma demo_values:
  "line_value demo_env demo_vars [Some ''do'', Some ''rk0''] demo_line = ''at rk0 disk.img''"
  "line_value demo_env demo_vars [Some ''do'', Some ''rk0''] demo_first = ''disk.img at rk0 disk.img''"
  by code_simp+

theorem sub_args_expands_witness:
  "(\<exists>v'. sim_sub_args demo_env ''at %1 %FILE%'' 4224 [Some ''do'', Some ''rk0''] demo_vars = Inr (''at rk0 disk.img'', v')) \<and>
   (\<exists>v'. sim_sub_args demo_env ''  file at %1 %FILE%'' 4224 [Some ''do'', Some ''rk0''] demo_vars = Inr (''  disk.img at rk0 disk.img'', v'))"
  using sub_args_expands [OF demo_reads(1), of 4224 "''  ''" 4224] sub_args_expands [OF demo_reads(2), of 4224 "''  ''" 4224]
  by (auto simp: demo_values demo_texts)

text \<open>
  C28. Round trip, on the same lines: let \<open>x\<close> be a part of the line whose value is not empty, the blanks
  being parts as well.  A pointer to the start of this value leads \<^verbatim>\<open>sim_unsub_args\<close> back to the
  text of the line, with its variables not yet replaced: from \<open>x\<close> on when \<open>x\<close> is a character, a percent
  sign or a first word that names a variable.  When \<open>x\<close> is an argument or a variable, however, it leads
  behind its notation: the variable is lost.  And a pointer to the start of the substituted line is
  returned as it is.
\<close>

theorem unsub_args_places:
  assumes "reads_as env v do_arg sp body segs" "length sp + length (line_value env v do_arg segs) + 2 < size'"
    and "map Text sp @ segs = xs @ x # ys" "seg_value env v do_arg x \<noteq> []"
  shows "\<exists>v'. sim_sub_args env (sp @ body) size' do_arg v = Inr (sp @ line_value env v do_arg segs, v') \<and>
    sim_unsub_args v' (sp @ line_value env v do_arg segs) (length (line_value env v do_arg xs)) =
      Some (if line_value env v do_arg xs = [] then sp @ line_value env v do_arg segs
            else line_text (case x of Arg k \<Rightarrow> ys | Var nm \<Rightarrow> ys | _ \<Rightarrow> x # ys))"
  by (rule unsub_whole_line [OF assms])

theorem unsub_args_places_witness:
  "\<exists>v'. sim_sub_args demo_env ''at %1 %FILE%'' 4224 [Some ''do'', Some ''rk0''] demo_vars = Inr (''at rk0 disk.img'', v') \<and>
     sim_unsub_args v' ''at rk0 disk.img'' 7 = Some []"
proof -
  let ?a = "[Some ''do'', Some ''rk0'']" and ?xs = "map Text ''at '' @ [Arg 1, Text CHR '' '']"
  have x: "map Text [] @ demo_line = ?xs @ Var ''FILE'' # []" by (simp add: demo_line_def)
  have "seg_value demo_env demo_vars ?a (Var ''FILE'') \<noteq> []" "line_value demo_env demo_vars ?a ?xs = ''at rk0 ''" by code_simp+
  with unsub_args_places [OF demo_reads(1) _ x, of 4224]
  show ?thesis by (simp add: demo_values demo_texts eval_nat_numeral)
qed

text \<open>
  C21. Equivalence: the modifier \<^verbatim>\<open>:str1=str2\<close> of a variable replaces every occurrence of a string that
  is not empty, from the left, and with an asterisk also what stands before the first; the result is
  cut to the buffer.
\<close>

theorem variable_replacement:
  assumes "mat \<noteq> []" "CHR ''='' \<notin> set mat" "hd mat \<noteq> CHR ''~''" "hd mat \<noteq> CHR ''*''"
  shows "sim_subststr_substr (mat @ ''='' @ rep) s n = Inr (take (n - 1) (replace_all mat rep s)) \<and>
    sim_subststr_substr (''*'' @ mat @ ''='' @ rep) s n = Inr (take (n - 1) (replace_from_start mat rep s))"
proof -
  have t: "takeWhile (\<lambda>c. c \<noteq> CHR ''='') (m @ CHR ''='' # rep) = m" "dropWhile (\<lambda>c. c \<noteq> CHR ''='') (m @ CHR ''='' # rep) = CHR ''='' # rep"
    if "CHR ''='' \<notin> set m" for m using that by (induction m) auto
  obtain c m where mat: "mat = c # m" using assms(1) by (cases mat) auto
  show ?thesis
    using assms t [of mat] t [of "CHR ''*'' # mat"] subst_loop_replaces [OF assms(1)]
    by (simp add: sim_subststr_substr_def mat Let_def)
qed

theorem variable_replacement_witness:
  "sim_subststr_substr ''ab=X'' ''cabdab'' 100 = Inr ''cXdX'' \<and> sim_subststr_substr ''*ab=X'' ''cabdab'' 100 = Inr ''XdX''"
proof -
  have "replace_all ''ab'' ''X'' ''cabdab'' = ''cXdX''" "replace_from_start ''ab'' ''X'' ''cabdab'' = ''XdX''"
    by (simp_all add: replace_all.simps replace_from_start_def strstr.simps)
  then show ?thesis using variable_replacement [of "''ab''" "''X''" "''cabdab''" 100] by simp
qed

text \<open>
  C40. Error behaviour: replacing the empty string never returns, a line that ends in \<^verbatim>\<open>%~\<close> or in
  letters of file parts behind it is read on behind its terminator, and \<^verbatim>\<open>%*\<close> with the argument
  vector of the remote console, a single null pointer, is read behind its end.
\<close>

theorem substitution_faults:
  assumes "lookup_name env v nm CBUFSIZE = Some x" "CHR '':'' \<notin> set nm"
    and "list_all (seg_ok env v do_arg) segs" "length (line_value env v do_arg segs) + 2 < size'"
    and "plain_start env v (line_text segs @ ''%~'' @ letters)" "list_all part_letter letters"
    and "list_all (seg_ok env v [None]) segs1" "length (line_value env v [None] segs1) + 2 < size'" "plain_start env v (line_text segs1 @ ''%*'')"
  shows "sim_get_env_special env v (nm @ '':='' @ rep) CBUFSIZE = Inl No_Return \<and>
    sim_sub_args env (line_text segs @ ''%~'' @ letters) size' do_arg v = Inl Line_End_Passed \<and>
    sim_sub_args env (line_text segs1 @ ''%*'') size' [None] v = Inl Args_End_Passed"
proof (intro conjI)
  have "takeWhile (\<lambda>c. c \<noteq> CHR '':'') (nm @ CHR '':'' # r) = nm" "dropWhile (\<lambda>c. c \<noteq> CHR '':'') (nm @ CHR '':'' # r) = CHR '':'' # r" for r
    using assms(2) by (induction nm) auto
  with assms(1) show "sim_get_env_special env v (nm @ '':='' @ rep) CBUFSIZE = Inl No_Return"
    by (simp add: sim_get_env_special_def sim_subststr_substr_def subst_loop_empty Let_def)
  have "sub_loop env v do_arg n (size' - 2) (''%~'' @ letters) (out, off) = Inl Line_End_Passed" if "length out < size' - 2" for n out off
    using that tilde_at_end [OF assms(6)] by (subst sub_loop.simps) simp
  with sub_loop_line [OF assms(3), of "[]" "size' - 2" "length (line_text segs @ ''%~'' @ letters)" 0 "''%~'' @ letters" "[]"] assms(4)
  have "sub_loop env v do_arg (length (line_text segs @ ''%~'' @ letters)) (size' - 2) (line_text segs @ ''%~'' @ letters) ([], []) = Inl Line_End_Passed"
    by simp
  then show "sim_sub_args env (line_text segs @ ''%~'' @ letters) size' do_arg v = Inl Line_End_Passed"
    using assms(4) by (simp add: sim_sub_args_plain [OF assms(5)] del: append_Cons append_assoc)
  have "sub_loop env v [None] n (size' - 2) ''%*'' (out, off) = Inl Args_End_Passed" if "length out < size' - 2" for n out off
    using that by (subst sub_loop.simps)
      (simp add: sim_cmdvars_parse_percent_def percent_value_def ctype_defs cint_def sim_cmdvars_expand_star_args_def upt_conv_Cons arg_at_def Let_def)
  with sub_loop_line [OF assms(7), of "[]" "size' - 2" "length (line_text segs1 @ ''%*'')" 0 "''%*''" "[]"] assms(8)
  have "sub_loop env v [None] (length (line_text segs1 @ ''%*'')) (size' - 2) (line_text segs1 @ ''%*'') ([], []) = Inl Args_End_Passed"
    by simp
  then show "sim_sub_args env (line_text segs1 @ ''%*'') size' [None] v = Inl Args_End_Passed"
    using assms(8) by (simp add: sim_sub_args_plain [OF assms(9)] del: append_Cons append_assoc)
qed

theorem substitution_faults_witness:
  "sim_get_env_special demo_env demo_vars ''FILE:=x'' CBUFSIZE = Inl No_Return \<and>
   sim_sub_args demo_env ''at %~f'' 4224 [None] demo_vars = Inl Line_End_Passed \<and>
   sim_sub_args demo_env ''at %*'' 4224 [None] demo_vars = Inl Args_End_Passed"
proof -
  have "lookup_name demo_env demo_vars ''FILE'' CBUFSIZE = Some ''disk.img''" "CHR '':'' \<notin> set ''FILE''"
    "list_all (seg_ok demo_env demo_vars [None]) (map Text ''at '')"
    "length (line_value demo_env demo_vars [None] (map Text ''at '')) + 2 < 4224"
    "plain_start demo_env demo_vars (line_text (map Text ''at '') @ ''%~'' @ ''f'')" "list_all part_letter ''f''"
    "plain_start demo_env demo_vars (line_text (map Text ''at '') @ ''%*'')"
    by (code_simp, code_simp, code_simp, code_simp, code_simp, code_simp, code_simp)
  from substitution_faults [OF this(1-6) this(3,4,7), of "''x''"] show ?thesis by simp
qed

text \<open>
  Equivalence: for a year from 2001 on \<^verbatim>\<open>DATE_19XX_YYYY\<close> is a year of the twentieth century
  that starts on the same weekday and has the same length; the week and week year of \<^verbatim>\<open>DATE_WW\<close>
  and \<^verbatim>\<open>DATE_WYYYY\<close> are those of the Thursday of the week, as ISO 8601 has it, unless the
  year before is one of the centuries that the test for leap years leaves out.
\<close>

lemma calendar_variables:
  assumes "2001 \<le> y" "valid_tm t" "crem (tm_year t + 1899) 4 = 0 \<longleftrightarrow> gregorian_leap (tm_year t + 1899)"
  shows "first_weekday (1900 + date_19xx y) = first_weekday y \<and> gregorian_leap (1900 + date_19xx y) = gregorian_leap y \<and>
    date_19xx y < 100 \<and> iso_week t = iso_reference t"
  using date_19xx_calendar [OF assms(1)] iso_week_correct [OF assms(2,3)] by blast

end
