(* ===== verification/Tape.thy ===== *)
theory Tape
  imports Prelude
begin

text \<open>
  Magnetic tape images, \<^verbatim>\<open>sim_tape.c\<close>, in the two formats with counted records, SIMH and E11.  A
  record is stored between two copies of its length, so that it can be read in both directions; a
  tape mark, a gap and the end of the medium are single markers.  The file is a list of bytes, shorter
  than the range of a position, which has 32 bits; the host's file functions do not fail.  A unit has
  its position, the end of the medium as far as it is known, the position-not-updated flag, and
  whether it is attached, has a tape context and is write protected.
\<close>

unbundle bit_operations_syntax

subsection \<open>Data\<close>

datatype tape_fmt = MTUF_F_STD | MTUF_F_E11

record tape =
  tp_file :: "u8 list"
  tp_pos :: nat
  tape_eom :: nat
  tp_pnu :: bool
  tp_att :: bool
  tp_ctx :: bool
  tp_wrp :: bool
  tp_dens :: nat
  tp_fmt :: tape_fmt

text \<open>A length that was never read, an index before the marker buffer.\<close>

datatype tape_fault = Uninitialised_Length | Buffer_Underrun

abbreviation (input) MTSE_OK :: t_stat where "MTSE_OK \<equiv> 0"
abbreviation (input) MTSE_TMK :: t_stat where "MTSE_TMK \<equiv> 1"
abbreviation (input) MTSE_UNATT :: t_stat where "MTSE_UNATT \<equiv> 2"
abbreviation (input) MTSE_INVRL :: t_stat where "MTSE_INVRL \<equiv> 4"
abbreviation (input) MTSE_BOT :: t_stat where "MTSE_BOT \<equiv> 6"
abbreviation (input) MTSE_EOM :: t_stat where "MTSE_EOM \<equiv> 7"
abbreviation (input) MTSE_RECE :: t_stat where "MTSE_RECE \<equiv> 8"
abbreviation (input) MTSE_WRP :: t_stat where "MTSE_WRP \<equiv> 9"
abbreviation (input) MTSE_LEOT :: t_stat where "MTSE_LEOT \<equiv> 10"
abbreviation (input) MTSE_RUNAWAY :: t_stat where "MTSE_RUNAWAY \<equiv> 11"

text \<open>A unit without a tape context: an internal error whose message has been shown.\<close>

abbreviation (input) Bad_Attach :: t_stat where "Bad_Attach \<equiv> SCPE_IERR + 0x40000000"

abbreviation (input) MTR_TMK :: u32 where "MTR_TMK \<equiv> 0"
abbreviation (input) MTR_EOM :: u32 where "MTR_EOM \<equiv> 0xFFFFFFFF"
abbreviation (input) MTR_GAP :: u32 where "MTR_GAP \<equiv> 0xFFFFFFFE"
abbreviation (input) MTR_FHGAP :: u32 where "MTR_FHGAP \<equiv> 0xFFFEFFFF"
abbreviation (input) MTR_RHGAP :: u32 where "MTR_RHGAP \<equiv> 0xFFFF0000"
abbreviation (input) MTR_M_RHGAP :: u32 where "MTR_M_RHGAP \<equiv> 0xFFFF7F00"

definition MTR_F :: "u32 \<Rightarrow> bool" where "MTR_F x \<longleftrightarrow> x AND 0x80000000 \<noteq> 0"
definition MTR_L :: "u32 \<Rightarrow> u32" where "MTR_L x = x AND 0x7FFFFFFF"

definition bpi :: "nat list" where "bpi = [0, 200, 556, 800, 1600, 6250]"

text \<open>A position is a 32-bit number.\<close>

definition wrap_pos :: "int \<Rightarrow> nat" where "wrap_pos x = nat (x mod 2 ^ 32)"

definition stored_len :: "tape_fmt \<Rightarrow> u32 \<Rightarrow> nat" where
  "stored_len f n = unat (if f = MTUF_F_STD then (n + 1) AND NOT 1 else n)"

subsection \<open>The file\<close>

text \<open>Markers are little-endian; a read of several gives those that are there completely.\<close>

definition le32 :: "u32 \<Rightarrow> u8 list" where
  "le32 w = [ucast w, ucast (drop_bit 8 w), ucast (drop_bit 16 w), ucast (drop_bit 24 w)]"

definition of_le32 :: "u8 list \<Rightarrow> u32" where
  "of_le32 b = ucast (b ! 0) OR push_bit 8 (ucast (b ! 1)) OR push_bit 16 (ucast (b ! 2)) OR push_bit 24 (ucast (b ! 3))"

definition marker_at :: "u8 list \<Rightarrow> nat \<Rightarrow> u32 option" where
  "marker_at file p = (if p + 4 \<le> length file then Some (of_le32 (take 4 (drop p file))) else None)"

definition fread_markers :: "u8 list \<Rightarrow> nat \<Rightarrow> nat \<Rightarrow> u32 list" where
  "fread_markers file p n = map (\<lambda>i. of_le32 (take 4 (drop (p + 4 * i) file))) [0..<min n ((length file - p) div 4)]"

text \<open>Bytes written at a position; a file that is too short is filled with zeros.\<close>

definition fwrite :: "u8 list \<Rightarrow> nat \<Rightarrow> u8 list \<Rightarrow> u8 list" where
  "fwrite file p b = take p (file @ replicate (p - length file) 0) @ b @ drop (p + length b) file"

subsection \<open>Reading lengths forward\<close>

record rdlnt =
  rd_st :: t_stat
  rd_bc :: u32
  rd_pos :: nat
  rd_data :: nat
  rd_pnu :: bool
  rd_eom :: bool

text \<open>The gap that makes a runaway, and how much of it a gap marker is; without a density none is too long.\<close>

definition runaway_limit :: "nat \<Rightarrow> int" where
  "runaway_limit dens = (if bpi ! dens = 0 then 2 ^ 31 - 1 else int (25 * 12 * bpi ! dens))"

definition sizeof_gap :: "nat \<Rightarrow> int" where
  "sizeof_gap dens = (if bpi ! dens = 0 then 0 else 4)"

definition gap_end :: "int \<Rightarrow> t_stat" where
  "gap_end gap = (if gap > 0 then MTSE_RUNAWAY else MTSE_EOM)"

text \<open>The loop's end: a counter that has run out overrides the status.\<close>

definition loop_end :: "int \<Rightarrow> t_stat \<Rightarrow> u32 \<Rightarrow> nat \<Rightarrow> rdlnt" where
  "loop_end runaway st bc pos =
     \<lparr>rd_st = (if runaway \<le> 0 then MTSE_RUNAWAY else st), rd_bc = bc, rd_pos = pos, rd_data = pos, rd_pnu = False, rd_eom = False\<rparr>"

lemma fread_markers_some: "fread_markers file p n = w # ws \<Longrightarrow> p + 4 \<le> length file"
  by (cases "(length file - p) div 4 = 0") (auto simp: fread_markers_def)

text \<open>
  The loop with its buffer: \<open>buf\<close> are the markers that were read and not yet looked at, and the file
  stands behind them; \<open>first\<close> says that nothing has been read, \<open>eof\<close> that the last read met the end.
\<close>

function fwd_loop :: "tape_fmt \<Rightarrow> u8 list \<Rightarrow> int \<Rightarrow> nat \<Rightarrow> u32 list \<Rightarrow> bool \<Rightarrow> bool \<Rightarrow> int \<Rightarrow> rdlnt" where
  "fwd_loop f file gap pos buf first eof runaway =
     (let n = (if first then 1 else 256);
          ws = (if buf = [] then fread_markers file pos n else buf);
          eof1 = (if buf = [] then length ws < n else eof)
      in if buf = [] \<and> eof then loop_end runaway (gap_end gap) MTR_GAP pos
         else if buf = [] \<and> (ws = [] \<or> hd ws = MTR_EOM)
         then if first then (loop_end runaway MTSE_EOM 0 pos)\<lparr>rd_pnu := True, rd_eom := True\<rparr>
              else loop_end runaway (gap_end gap) MTR_GAP pos
         else if hd ws = MTR_EOM then loop_end runaway (gap_end gap) MTR_EOM pos
         else if hd ws = MTR_TMK then loop_end runaway MTSE_TMK MTR_TMK (pos + 4)
         else if hd ws = MTR_GAP
         then if runaway - gap > 0 then fwd_loop f file gap (pos + 4) (tl ws) False eof1 (runaway - gap)
              else loop_end (runaway - gap) MTSE_OK MTR_GAP (pos + 4)
         else if hd ws = MTR_FHGAP
         then if runaway - gap div 2 > 0 then fwd_loop f file gap (pos + 2) [] False False (runaway - gap div 2)
              else loop_end (runaway - gap div 2) MTSE_OK MTR_GAP (pos + 2)
         else (loop_end runaway MTSE_OK (hd ws) (wrap_pos (int (pos + 8 + stored_len f (MTR_L (hd ws))))))\<lparr>rd_data := pos + 4\<rparr>)"
  by pat_completeness auto

termination
  by (relation "measures [\<lambda>(f, file, gap, pos, buf, first, eof, runaway). length file - pos,
      \<lambda>(f, file, gap, pos, buf, first, eof, runaway). length buf]")
    (auto simp: Let_def neq_Nil_conv dest!: fread_markers_some split: if_splits)

declare fwd_loop.simps [simp del]

definition sim_tape_rdlntf :: "tape \<Rightarrow> tape_fault + t_stat \<times> u32 \<times> nat \<times> tape" where
  "sim_tape_rdlntf u0 =
     (let u = u0\<lparr>tp_pnu := False\<rparr> in
      if \<not> tp_att u then Inr (MTSE_UNATT, 0, 0, u)
      else if tape_eom u > 0 \<and> tp_pos u \<ge> tape_eom u then Inr (MTSE_EOM, 0, 0, u\<lparr>tp_pnu := True\<rparr>)
      else let r = fwd_loop (tp_fmt u) (tp_file u) (sizeof_gap (tp_dens u)) (tp_pos u) [] True False (runaway_limit (tp_dens u));
               u1 = u\<lparr>tp_pos := rd_pos r, tp_pnu := rd_pnu r, tape_eom := (if rd_eom r then tp_pos u else tape_eom u)\<rparr>
           in if rd_st r \<noteq> MTSE_OK then Inr (rd_st r, rd_bc r, rd_data r, u1)
              else case marker_at (tp_file u) (wrap_pos (int (rd_pos r) - 4)) of
                     None \<Rightarrow> Inl Uninitialised_Length
                   | Some rev_lnt \<Rightarrow>
                       if rev_lnt \<noteq> rd_bc r
                       then Inr (MTSE_INVRL, rd_bc r, rd_data r, u1\<lparr>tp_pos := wrap_pos (int (rd_pos r) - (8 + uint (rd_bc r))), tp_pnu := True\<rparr>)
                       else Inr (MTSE_OK, rd_bc r, rd_data r, u1))"

subsection \<open>Reading lengths in reverse\<close>

definition sim_tape_bot :: "tape \<Rightarrow> bool" where
  "sim_tape_bot u \<longleftrightarrow> tp_pos u \<le> 3"

text \<open>
  Here \<open>buf\<close> holds the markers before the position, the nearest last.  While it holds any, the position
  is behind them, so that it is above 3.
\<close>

function rev_loop :: "tape_fmt \<Rightarrow> u8 list \<Rightarrow> int \<Rightarrow> nat \<Rightarrow> u32 list \<Rightarrow> bool \<Rightarrow> int \<Rightarrow> tape_fault + rdlnt" where
  "rev_loop f file gap pos buf first runaway =
     (let n = (if first then 1 else if pos < 1024 then pos div 4 else 256);
          ws = (if buf = [] then fread_markers file (pos - 4 * n) n else buf)
      in if pos \<le> 3 then (if buf = [] then Inr (loop_end runaway MTSE_BOT MTR_GAP pos) else Inl Buffer_Underrun)
         else if ws = [] then Inl Buffer_Underrun
         else if last ws = MTR_TMK then Inr (loop_end runaway MTSE_TMK MTR_TMK (pos - 4))
         else if last ws = MTR_GAP
         then if runaway - gap > 0 then rev_loop f file gap (pos - 4) (butlast ws) False (runaway - gap)
              else Inr (loop_end (runaway - gap) MTSE_OK MTR_GAP (pos - 4))
         else if last ws AND MTR_M_RHGAP = MTR_RHGAP \<or> last ws = MTR_EOM
         then if runaway - gap div 2 > 0 then rev_loop f file gap (pos - 2) [] False (runaway - gap div 2)
              else Inr (loop_end (runaway - gap div 2) MTSE_OK MTR_GAP (pos - 2))
         else let p = wrap_pos (int pos - 8 - int (stored_len f (MTR_L (last ws))))
              in Inr ((loop_end runaway MTSE_OK (last ws) p)\<lparr>rd_data := wrap_pos (int p + 4)\<rparr>))"
  by pat_completeness auto

termination
  by (relation "measure (\<lambda>(f, file, gap, pos, buf, first, runaway). pos)") auto

declare rev_loop.simps [simp del]

definition sim_tape_rdlntr :: "tape \<Rightarrow> tape_fault + t_stat \<times> u32 \<times> nat \<times> tape" where
  "sim_tape_rdlntr u0 =
     (let u = u0\<lparr>tp_pnu := False\<rparr> in
      if \<not> tp_att u then Inr (MTSE_UNATT, 0, 0, u)
      else if sim_tape_bot u then Inr (MTSE_BOT, 0, 0, u)
      else case rev_loop (tp_fmt u) (tp_file u) (sizeof_gap (tp_dens u)) (tp_pos u) [] True (runaway_limit (tp_dens u)) of
             Inl e \<Rightarrow> Inl e
           | Inr r \<Rightarrow> Inr (rd_st r, rd_bc r, rd_data r, u\<lparr>tp_pos := rd_pos r\<rparr>))"

subsection \<open>Records\<close>

text \<open>The bytes of a record; what the file lacks is zero.\<close>

definition fread_record :: "u8 list \<Rightarrow> nat \<Rightarrow> nat \<Rightarrow> u8 list" where
  "fread_record file p n = (let b = take n (drop p file) in b @ replicate (n - length b) 0)"

definition sim_tape_rdrlfwd :: "tape \<Rightarrow> tape_fault + t_stat \<times> u32 \<times> nat \<times> tape" where
  "sim_tape_rdrlfwd u = (if \<not> tp_ctx u then Inr (Bad_Attach, 0, 0, u) else sim_tape_rdlntf u)"

definition sim_tape_rdrlrev :: "tape \<Rightarrow> tape_fault + t_stat \<times> u32 \<times> nat \<times> tape" where
  "sim_tape_rdrlrev u = (if \<not> tp_ctx u then Inr (Bad_Attach, 0, 0, u) else sim_tape_rdlntr u)"

text \<open>The results are the status, the length and the data.\<close>

definition sim_tape_rdrecf :: "tape \<Rightarrow> u32 \<Rightarrow> tape_fault + t_stat \<times> u32 \<times> u8 list \<times> tape" where
  "sim_tape_rdrecf u max' =
     (if \<not> tp_ctx u then Inr (Bad_Attach, 0, [], u)
      else case sim_tape_rdrlfwd u of
        Inl e \<Rightarrow> Inl e
      | Inr (st, tbc, dpos, u1) \<Rightarrow>
          if st \<noteq> MTSE_OK then Inr (st, 0, [], u1)
          else let rbc = MTR_L tbc
               in if rbc > max' then Inr (MTSE_INVRL, rbc, [], u1\<lparr>tp_pnu := True, tp_pos := tp_pos u\<rparr>)
                  else Inr (if MTR_F tbc then MTSE_RECE else MTSE_OK, rbc, fread_record (tp_file u) dpos (unat rbc), u1))"

definition sim_tape_rdrecr :: "tape \<Rightarrow> u32 \<Rightarrow> tape_fault + t_stat \<times> u32 \<times> u8 list \<times> tape" where
  "sim_tape_rdrecr u max' =
     (if \<not> tp_ctx u then Inr (Bad_Attach, 0, [], u)
      else case sim_tape_rdrlrev u of
        Inl e \<Rightarrow> Inl e
      | Inr (st, tbc, dpos, u1) \<Rightarrow>
          if st \<noteq> MTSE_OK then Inr (st, 0, [], u1)
          else let rbc = MTR_L tbc
               in if rbc > max' then Inr (MTSE_INVRL, rbc, [], u1)
                  else Inr (if MTR_F tbc then MTSE_RECE else MTSE_OK, rbc, fread_record (tp_file u) dpos (unat rbc), u1))"

definition sim_tape_sprecf :: "tape \<Rightarrow> tape_fault + t_stat \<times> u32 \<times> tape" where
  "sim_tape_sprecf u =
     (if \<not> tp_ctx u then Inr (Bad_Attach, 0, u)
      else map_sum id (\<lambda>(st, bc, dpos, u1). (st, MTR_L bc, u1)) (sim_tape_rdrlfwd u))"

definition sim_tape_sprecr :: "tape \<Rightarrow> tape_fault + t_stat \<times> u32 \<times> tape" where
  "sim_tape_sprecr u =
     (if \<not> tp_ctx u then Inr (Bad_Attach, 0, u)
      else if tp_pnu u then Inr (MTSE_OK, 0, u\<lparr>tp_pnu := False\<rparr>)
      else map_sum id (\<lambda>(st, bc, dpos, u1). (st, MTR_L bc, u1)) (sim_tape_rdrlrev u))"

text \<open>Spacing over a number of records, with the number that was spaced over.\<close>

fun space_records :: "(tape \<Rightarrow> tape_fault + t_stat \<times> u32 \<times> tape) \<Rightarrow> nat \<Rightarrow> nat \<Rightarrow> tape \<Rightarrow> tape_fault + t_stat \<times> nat \<times> tape" where
  "space_records op 0 skipped u = Inr (MTSE_OK, skipped, u)"
| "space_records op (Suc n) skipped u =
     (case op u of
        Inl e \<Rightarrow> Inl e
      | Inr (st, bc, u1) \<Rightarrow> if st \<noteq> MTSE_OK then Inr (st, skipped, u1) else space_records op n (Suc skipped) u1)"

definition sim_tape_sprecsf :: "nat \<Rightarrow> tape \<Rightarrow> tape_fault + t_stat \<times> nat \<times> tape" where
  "sim_tape_sprecsf count u = (if \<not> tp_ctx u then Inr (Bad_Attach, 0, u) else space_records sim_tape_sprecf count 0 u)"

definition sim_tape_sprecsr :: "nat \<Rightarrow> tape \<Rightarrow> tape_fault + t_stat \<times> nat \<times> tape" where
  "sim_tape_sprecsr count u = (if \<not> tp_ctx u then Inr (Bad_Attach, 0, u) else space_records sim_tape_sprecr count 0 u)"

definition sim_tape_rewind :: "tape \<Rightarrow> t_stat \<times> tape" where
  "sim_tape_rewind u = (if tp_att u \<and> \<not> tp_ctx u then (Bad_Attach, u) else (MTSE_OK, u\<lparr>tp_pos := 0, tp_pnu := False\<rparr>))"

subsection \<open>Spacing over files\<close>

text \<open>
  Records are spaced over in batches until an operation gives a status: the status, the records of the
  last batch and the count of all of them.  A damaged image can send the position round in a circle.
\<close>

partial_function (option) space_file ::
  "(nat \<Rightarrow> tape \<Rightarrow> tape_fault + t_stat \<times> nat \<times> tape) \<Rightarrow> u32 \<Rightarrow> tape \<Rightarrow> (tape_fault + t_stat \<times> nat \<times> u32 \<times> tape) option" where
  "space_file op recs u =
     (case op 0x1ffffff u of
        Inl e \<Rightarrow> Some (Inl e)
      | Inr (st, k, u1) \<Rightarrow> if st \<noteq> MTSE_OK then Some (Inr (st, k, recs + of_nat k, u1)) else space_file op (recs + of_nat k) u1)"

text \<open>The results are the status, the files and the records that were spaced over.\<close>

fun space_files ::
  "(nat \<Rightarrow> tape \<Rightarrow> tape_fault + t_stat \<times> nat \<times> tape) \<Rightarrow> nat \<Rightarrow> nat \<Rightarrow> u32 \<Rightarrow> tape \<Rightarrow> (tape_fault + t_stat \<times> nat \<times> u32 \<times> tape) option" where
  "space_files op 0 skipped recs u = Some (Inr (MTSE_OK, skipped, recs, u))"
| "space_files op (Suc n) skipped recs u =
     (case space_file op recs u of
        None \<Rightarrow> None
      | Some (Inl e) \<Rightarrow> Some (Inl e)
      | Some (Inr (st, k, recs1, u1)) \<Rightarrow>
          if st = MTSE_TMK then space_files op n (skipped + 1) recs1 u1 else Some (Inr (st, skipped, recs1, u1)))"

definition sim_tape_spfilebyrecr :: "nat \<Rightarrow> tape \<Rightarrow> (tape_fault + t_stat \<times> nat \<times> u32 \<times> tape) option" where
  "sim_tape_spfilebyrecr count u =
     (if \<not> tp_ctx u then Some (Inr (Bad_Attach, 0, 0, u)) else space_files sim_tape_sprecsr count 0 0 u)"

text \<open>Forward, two marks in a row can be taken for the logical end of the tape; the second is then backed over.\<close>

fun files_forward :: "bool \<Rightarrow> nat \<Rightarrow> bool \<Rightarrow> nat \<Rightarrow> u32 \<Rightarrow> tape \<Rightarrow> (tape_fault + t_stat \<times> nat \<times> u32 \<times> tape) option" where
  "files_forward leot 0 last_tapemark skipped recs u = Some (Inr (MTSE_OK, skipped, recs, u))"
| "files_forward leot (Suc n) last_tapemark skipped recs u =
     (case space_file sim_tape_sprecsf recs u of
        None \<Rightarrow> None
      | Some (Inl e) \<Rightarrow> Some (Inl e)
      | Some (Inr (st, k, recs1, u1)) \<Rightarrow>
          if st = MTSE_TMK
          then if leot \<and> k = 0 \<and> last_tapemark
               then (case sim_tape_spfilebyrecr 1 u1 of
                       None \<Rightarrow> None
                     | Some (Inl e) \<Rightarrow> Some (Inl e)
                     | Some (Inr (st2, files2, k2, u2)) \<Rightarrow> Some (Inr (MTSE_LEOT, skipped, recs1, u2)))
               else files_forward leot n True (skipped + 1) recs1 u1
          else Some (Inr (st, skipped, recs1, u1)))"

definition sim_tape_spfilebyrecf :: "nat \<Rightarrow> bool \<Rightarrow> tape \<Rightarrow> (tape_fault + t_stat \<times> nat \<times> u32 \<times> tape) option" where
  "sim_tape_spfilebyrecf count check_leot u =
     (if \<not> tp_ctx u then Some (Inr (Bad_Attach, 0, 0, u))
      else if \<not> check_leot then files_forward False count False 0 0 u
      else case sim_tape_rdrlrev u of
             Inl e \<Rightarrow> Some (Inl e)
           | Inr (st, rbc, dpos, u1) \<Rightarrow>
               if st = MTSE_OK \<or> st = MTSE_TMK
               then (case sim_tape_rdrlfwd u1 of
                       Inl e \<Rightarrow> Some (Inl e)
                     | Inr (st2, rbc2, dpos2, u2) \<Rightarrow> files_forward True count (st = MTSE_TMK) 0 0 u2)
               else files_forward True count False 0 0 u1)"

definition sim_tape_spfilef :: "nat \<Rightarrow> tape \<Rightarrow> (tape_fault + t_stat \<times> nat \<times> tape) option" where
  "sim_tape_spfilef count u =
     (if \<not> tp_ctx u then Some (Inr (Bad_Attach, 0, u))
      else map_option (map_sum id (\<lambda>(st, skipped, recs, u1). (st, skipped, u1))) (sim_tape_spfilebyrecf count False u))"

definition sim_tape_spfiler :: "nat \<Rightarrow> tape \<Rightarrow> (tape_fault + t_stat \<times> nat \<times> tape) option" where
  "sim_tape_spfiler count u =
     (if \<not> tp_ctx u then Some (Inr (Bad_Attach, 0, u))
      else map_option (map_sum id (\<lambda>(st, skipped, recs, u1). (st, skipped, u1))) (sim_tape_spfilebyrecr count u))"

subsection \<open>Positioning\<close>

abbreviation (input) MTPOS_M_REW :: u32 where "MTPOS_M_REW \<equiv> 8"
abbreviation (input) MTPOS_M_REV :: u32 where "MTPOS_M_REV \<equiv> 4"
abbreviation (input) MTPOS_M_OBJ :: u32 where "MTPOS_M_OBJ \<equiv> 2"
abbreviation (input) MTPOS_M_DLE :: u32 where "MTPOS_M_DLE \<equiv> 16"

text \<open>Objects are records and marks; the results are the status and the number of objects that were spaced over.\<close>

partial_function (option) position_objects ::
  "(nat \<Rightarrow> tape \<Rightarrow> tape_fault + t_stat \<times> nat \<times> tape) \<Rightarrow> nat \<Rightarrow> nat \<Rightarrow> nat \<Rightarrow> tape \<Rightarrow> (tape_fault + t_stat \<times> nat \<times> tape) option" where
  "position_objects op objs remaining objectsskipped u =
     (if \<not> objectsskipped < objs then Some (Inr (MTSE_OK, objectsskipped, u))
      else case op remaining u of
             Inl e \<Rightarrow> Some (Inl e)
           | Inr (r, skipped, u1) \<Rightarrow>
               let k = skipped + (if r = MTSE_TMK then 1 else 0)
               in if r = MTSE_TMK \<or> r = MTSE_OK then position_objects op objs (remaining - k) (objectsskipped + k) u1
                  else Some (Inr (r, objectsskipped, u1)))"

text \<open>The results are the status and the records, files and objects that were spaced over.\<close>

definition sim_tape_position :: "u32 \<Rightarrow> nat \<Rightarrow> nat \<Rightarrow> tape \<Rightarrow> (tape_fault + t_stat \<times> nat \<times> nat \<times> u32 \<times> tape) option" where
  "sim_tape_position flags recs files u =
     (if \<not> tp_ctx u then Some (Inr (Bad_Attach, 0, 0, 0, u))
      else let (r, u0) = (if flags AND MTPOS_M_REW \<noteq> 0 then sim_tape_rewind u else (MTSE_OK, u));
               back = (flags AND MTPOS_M_REV \<noteq> 0);
               sprecs = (if back then sim_tape_sprecsr else sim_tape_sprecsf)
      in if r \<noteq> MTSE_OK then Some (Inr (r, 0, 0, 0, u0))
         else if flags AND MTPOS_M_OBJ \<noteq> 0
         then map_option (map_sum id (\<lambda>(r, objs, u1). (r, 0, 0, of_nat objs, u1))) (position_objects sprecs recs recs 0 u0)
         else case (if back then sim_tape_spfilebyrecr files u0 else sim_tape_spfilebyrecf files (flags AND MTPOS_M_DLE \<noteq> 0) u0) of
                None \<Rightarrow> None
              | Some (Inl e) \<Rightarrow> Some (Inl e)
              | Some (Inr (r, filesskipped, fileskiprecs, u1)) \<Rightarrow>
                  if r \<noteq> MTSE_OK then Some (Inr (r, 0, filesskipped, 0, u1))
                  else case sprecs recs u1 of
                         Inl e \<Rightarrow> Some (Inl e)
                       | Inr (r, recsskipped, u2) \<Rightarrow>
                           let filesskipped2 = (if r = MTSE_TMK then filesskipped + 1 else filesskipped)
                           in Some (Inr (r, recsskipped, filesskipped2, fileskiprecs + of_nat filesskipped2 + of_nat recsskipped, u2)))"

subsection \<open>Writing\<close>

definition sim_tape_update_eom :: "tape \<Rightarrow> tape" where
  "sim_tape_update_eom u = (if tp_pos u > tape_eom u then u\<lparr>tape_eom := tp_pos u\<rparr> else u)"

definition sim_tape_counted_record_storage_size :: "tape_fmt \<Rightarrow> u32 \<Rightarrow> nat" where
  "sim_tape_counted_record_storage_size f n = (if f = MTUF_F_STD then unat (MTR_L ((n + 1) AND NOT 1)) else unat n)"

text \<open>The buffer holds at least as many bytes as the record.\<close>

definition sim_tape_write_counted_record :: "tape \<Rightarrow> u8 list \<Rightarrow> u32 \<Rightarrow> nat \<Rightarrow> nat \<Rightarrow> tape" where
  "sim_tape_write_counted_record u buf metadata record_size storage_size =
     u\<lparr>tp_file := fwrite (tp_file u) (tp_pos u) (le32 metadata @ take record_size buf @ replicate (storage_size - record_size) 0 @ le32 metadata),
       tp_pos := wrap_pos (int (tp_pos u + storage_size + 8))\<rparr>"

definition sim_tape_check_write_allowed :: "tape \<Rightarrow> t_stat \<times> tape" where
  "sim_tape_check_write_allowed u =
     (if \<not> tp_att u then MTSE_UNATT else if tp_wrp u then MTSE_WRP else MTSE_OK, u\<lparr>tp_pnu := False\<rparr>)"

definition sim_tape_wrrecf :: "tape \<Rightarrow> u8 list \<Rightarrow> u32 \<Rightarrow> t_stat \<times> tape" where
  "sim_tape_wrrecf u buf bc =
     (if \<not> tp_ctx u then (Bad_Attach, u)
      else let rbc = MTR_L bc; (st, u1) = sim_tape_check_write_allowed u
      in if st \<noteq> MTSE_OK then (st, u1)
         else if rbc = 0 then (MTSE_OK, u1)
         else (MTSE_OK, sim_tape_update_eom
                 (sim_tape_write_counted_record u1 buf bc (unat rbc) (sim_tape_counted_record_storage_size (tp_fmt u) rbc))))"

definition sim_tape_wrdata :: "tape \<Rightarrow> u32 \<Rightarrow> t_stat \<times> tape" where
  "sim_tape_wrdata u0 dat =
     (let u = u0\<lparr>tp_pnu := False\<rparr>
      in if \<not> tp_att u then (MTSE_UNATT, u)
         else if \<not> tp_ctx u then (Bad_Attach, u)
         else if tp_wrp u then (MTSE_WRP, u)
         else (MTSE_OK, sim_tape_update_eom (u\<lparr>tp_file := fwrite (tp_file u) (tp_pos u) (le32 dat), tp_pos := wrap_pos (int (tp_pos u + 4))\<rparr>)))"

definition sim_tape_wrtmk :: "tape \<Rightarrow> t_stat \<times> tape" where
  "sim_tape_wrtmk u = (if \<not> tp_ctx u then (Bad_Attach, u) else sim_tape_wrdata u MTR_TMK)"

definition sim_tape_wreom :: "tape \<Rightarrow> t_stat \<times> tape" where
  "sim_tape_wreom u =
     (if \<not> tp_ctx u then (Bad_Attach, u)
      else if tp_wrp u then (MTSE_WRP, u)
      else let (st, u1) = sim_tape_wrdata u MTR_EOM in (st, u1\<lparr>tp_pos := wrap_pos (int (tp_pos u1) - 4), tp_pnu := True\<rparr>))"

definition sim_tape_wreomrw :: "tape \<Rightarrow> t_stat \<times> tape" where
  "sim_tape_wreomrw u =
     (if \<not> tp_ctx u then (Bad_Attach, u)
      else let (r, u1) = sim_tape_wreom u in if r = MTSE_OK then sim_tape_rewind u1 else (r, u1))"

end
