(* ===== verification/TapeImage.thy ===== *)
theory TapeImage
  imports Tape
begin

text \<open>
  Tape images as lists of records and marks.  First the markers in a file and the equivalence of the
  buffered loop with one that reads every marker at its own position; then the bytes of a list of
  items, the relation between a unit and the items before and behind its head, and what reading a
  length does there in either direction.
\<close>

unbundle bit_operations_syntax

subsection \<open>Markers\<close>

lemma of_le32_le32 [simp]: "of_le32 (le32 w) = w"
proof (rule bit_word_eqI)
  fix k assume "k < LENGTH(32)"
  then consider "k < 8" | "8 \<le> k" "k < 16" | "16 \<le> k" "k < 24" | "24 \<le> k" "k < 32" by fastforce
  then show "bit (of_le32 (le32 w)) k = bit w k"
    by cases (auto simp: le32_def of_le32_def bit_simps not_le)
qed

lemma length_le32 [simp]: "length (le32 w) = 4"
  by (simp add: le32_def)

lemma marker_at_le32: "p = length a \<Longrightarrow> marker_at (a @ le32 w @ b) p = Some w"
  by (simp add: marker_at_def)

lemma fread_markers_one: "fread_markers file p 1 = (case marker_at file p of None \<Rightarrow> [] | Some w \<Rightarrow> [w])"
proof (cases "p + 4 \<le> length file")
  case True
  then have "1 \<le> (length file - p) div 4" by (simp add: less_eq_div_iff_mult_less_eq)
  with True show ?thesis by (simp add: fread_markers_def marker_at_def min_absorb1)
next
  case False
  then show ?thesis by (simp add: fread_markers_def marker_at_def)
qed

lemma markers_left: "p + 4 \<le> n \<Longrightarrow> (n - p) div 4 = Suc ((n - (p + 4)) div 4)" for n p :: nat
proof -
  assume "p + 4 \<le> n"
  then have "n - p = (n - (p + 4)) + 4" by simp
  then have "(n - p) div 4 = ((n - (p + 4)) + 4) div 4" by (rule arg_cong)
  then show ?thesis by simp
qed

lemma fread_markers_Cons:
  "fread_markers file p (Suc n) = (case marker_at file p of None \<Rightarrow> [] | Some w \<Rightarrow> w # fread_markers file (p + 4) n)"
proof (cases "p + 4 \<le> length file")
  case True
  then obtain m where m: "(length file - p) div 4 = Suc m" "(length file - (p + 4)) div 4 = m" by (simp add: markers_left)
  have "[0..<Suc (min n m)] = 0 # map Suc [0..<min n m]" by (simp add: upt_conv_Cons map_Suc_upt del: upt_Suc)
  with True m show ?thesis by (simp add: fread_markers_def marker_at_def add.assoc del: upt_Suc)
next
  case False
  then show ?thesis by (simp add: fread_markers_def marker_at_def)
qed

lemma fread_markers_0 [simp]: "fread_markers file p 0 = []"
  by (simp add: fread_markers_def)

lemma length_fread_markers: "length (fread_markers file p n) = min n ((length file - p) div 4)"
  by (simp add: fread_markers_def)

subsection \<open>The buffer of markers\<close>

text \<open>The reference: one marker at a time.\<close>

function ref_loop :: "tape_fmt \<Rightarrow> u8 list \<Rightarrow> int \<Rightarrow> nat \<Rightarrow> bool \<Rightarrow> int \<Rightarrow> rdlnt" where
  "ref_loop f file gap pos first runaway =
     (case marker_at file pos of
        None \<Rightarrow> if first then (loop_end runaway MTSE_EOM 0 pos)\<lparr>rd_pnu := True, rd_eom := True\<rparr>
                else loop_end runaway (gap_end gap) 0 pos
      | Some w \<Rightarrow>
          if w = MTR_EOM
          then if first then (loop_end runaway MTSE_EOM 0 pos)\<lparr>rd_pnu := True, rd_eom := True\<rparr>
               else loop_end runaway (gap_end gap) 0 pos
          else if w = MTR_TMK then loop_end runaway MTSE_TMK MTR_TMK (pos + 4)
          else if w = MTR_GAP
          then if runaway - gap > 0 then ref_loop f file gap (pos + 4) False (runaway - gap)
               else loop_end (runaway - gap) MTSE_OK MTR_GAP (pos + 4)
          else if w = MTR_FHGAP
          then if runaway - gap div 2 > 0 then ref_loop f file gap (pos + 2) False (runaway - gap div 2)
               else loop_end (runaway - gap div 2) MTSE_OK MTR_GAP (pos + 2)
          else (loop_end runaway MTSE_OK w (wrap_pos (int (pos + 8 + stored_len f (MTR_L w)))))\<lparr>rd_data := pos + 4\<rparr>)"
  by pat_completeness auto

termination
  by (relation "measure (\<lambda>(f, file, gap, pos, first, runaway). length file - pos)")
    (auto simp: marker_at_def split: if_splits)

declare ref_loop.simps [simp del]

text \<open>The count that comes with an error depends on the buffer, and nobody reads it.\<close>

definition erase_count :: "rdlnt \<Rightarrow> rdlnt" where
  "erase_count r = (if rd_st r = MTSE_OK then r else r\<lparr>rd_bc := 0\<rparr>)"

definition buffer_ok :: "u8 list \<Rightarrow> nat \<Rightarrow> u32 list \<Rightarrow> bool \<Rightarrow> bool \<Rightarrow> bool" where
  "buffer_ok file pos buf first eof \<longleftrightarrow> buf = fread_markers file pos (length buf) \<and>
     (eof \<longrightarrow> (length file - pos) div 4 = length buf) \<and> (first \<longrightarrow> buf = [] \<and> \<not> eof)"

lemma buffer_hd:
  assumes "buffer_ok file pos buf first eof" "buf = w # ws"
  shows "marker_at file pos = Some w" "buffer_ok file (pos + 4) ws False eof"
proof -
  have l: "w # ws = fread_markers file pos (Suc (length ws))" using assms by (simp add: buffer_ok_def)
  then show m: "marker_at file pos = Some w" by (simp add: fread_markers_Cons split: option.splits)
  from assms l m show "buffer_ok file (pos + 4) ws False eof"
    by (auto simp: buffer_ok_def fread_markers_Cons marker_at_def markers_left split: if_splits)
qed

lemma buffer_refill:
  assumes "ws = fread_markers file pos n" "0 < n"
  shows "ws = [] \<longleftrightarrow> marker_at file pos = None" "buffer_ok file pos ws False (length ws < n)"
proof -
  obtain k where n: "n = Suc k" using assms(2) by (cases n) auto
  show "ws = [] \<longleftrightarrow> marker_at file pos = None" using assms(1) by (simp add: n fread_markers_Cons split: option.splits)
  have "fread_markers file pos (min n ((length file - pos) div 4)) = fread_markers file pos n" by (simp add: fread_markers_def)
  then show "buffer_ok file pos ws False (length ws < n)" using assms by (auto simp: buffer_ok_def length_fread_markers)
qed

lemma erase_loop_end [simp]:
  "st \<noteq> MTSE_OK \<Longrightarrow> erase_count (loop_end runaway st bc pos) = loop_end runaway st 0 pos"
  by (simp add: erase_count_def loop_end_def)

lemma gap_end_error [simp]: "gap_end gap \<noteq> MTSE_OK"
  by (simp add: gap_end_def)

text \<open>Without a marker at the position both stop.\<close>

lemma fwd_loop_none:
  assumes "buffer_ok fl pos buf first eof" "marker_at fl pos = None"
  shows "erase_count (fwd_loop f fl gap pos buf first eof runaway) = erase_count (ref_loop f fl gap pos first runaway)"
proof -
  have "\<not> pos + 4 \<le> length fl" using assms(2) by (simp add: marker_at_def split: if_splits)
  then have z: "(length fl - pos) div 4 = 0" by simp
  have "buf = fread_markers fl pos (length buf)" using assms(1) unfolding buffer_ok_def by blast
  then have "length buf = length (fread_markers fl pos (length buf))" by (rule arg_cong)
  then have "buf = []" by (simp add: length_fread_markers z)
  moreover have e: "fread_markers fl pos n = []" for n using z by (simp add: length_fread_markers flip: length_0_conv)
  moreover have "first \<Longrightarrow> \<not> eof" using assms(1) by (simp add: buffer_ok_def)
  ultimately show ?thesis
    using assms(2) by (subst fwd_loop.simps, subst ref_loop.simps) (cases first; simp add: erase_count_def loop_end_def)
qed

text \<open>With one, the loop looks at it and goes on with a good buffer.\<close>

lemma fwd_loop_step:
  assumes ok: "buffer_ok fl pos buf first eof" and w: "marker_at fl pos = Some w"
  shows "\<exists>r eof1. buffer_ok fl (pos + 4) r False eof1 \<and> fwd_loop f fl gap pos buf first eof runaway =
    (if buf = [] \<and> w = MTR_EOM
     then if first then (loop_end runaway MTSE_EOM 0 pos)\<lparr>rd_pnu := True, rd_eom := True\<rparr>
          else loop_end runaway (gap_end gap) MTR_GAP pos
     else if w = MTR_EOM then loop_end runaway (gap_end gap) MTR_EOM pos
     else if w = MTR_TMK then loop_end runaway MTSE_TMK MTR_TMK (pos + 4)
     else if w = MTR_GAP
     then if runaway - gap > 0 then fwd_loop f fl gap (pos + 4) r False eof1 (runaway - gap)
          else loop_end (runaway - gap) MTSE_OK MTR_GAP (pos + 4)
     else if w = MTR_FHGAP
     then if runaway - gap div 2 > 0 then fwd_loop f fl gap (pos + 2) [] False False (runaway - gap div 2)
          else loop_end (runaway - gap div 2) MTSE_OK MTR_GAP (pos + 2)
     else (loop_end runaway MTSE_OK w (wrap_pos (int (pos + 8 + stored_len f (MTR_L w)))))\<lparr>rd_data := pos + 4\<rparr>)"
proof -
  let ?n = "if first then 1 else 256 :: nat"
  define ws where "ws = (if buf = [] then fread_markers fl pos ?n else buf)"
  define eof1 where "eof1 = (if buf = [] then length ws < ?n else eof)"
  have ne: "\<not> (buf = [] \<and> eof)" using ok w markers_left [of pos "length fl"] by (auto simp: buffer_ok_def marker_at_def split: if_splits)
  have "buffer_ok fl pos ws False eof1 \<and> ws \<noteq> []"
  proof (cases "buf = []")
    case True
    then have "ws = fread_markers fl pos ?n" "0 < ?n" "eof1 \<longleftrightarrow> length ws < ?n" by (simp_all add: ws_def eof1_def)
    from buffer_refill [OF this(1,2)] this(3) w show ?thesis by simp
  next
    case False
    then have "ws = buf" "eof1 = eof" by (simp_all add: ws_def eof1_def)
    with ok False show ?thesis unfolding buffer_ok_def by blast
  qed
  then obtain r where ws: "ws = w # r" and r: "buffer_ok fl (pos + 4) r False eof1"
    using buffer_hd [of fl pos ws False eof1] w by (cases ws) auto
  show ?thesis
    unfolding fwd_loop.simps [of f fl gap pos buf] Let_def ws_def [symmetric] eof1_def [symmetric]
    by (rule exI [of _ r], rule exI [of _ eof1]) (simp only: r ws list.sel list.distinct simp_thms if_not_P [OF ne])
qed

lemma fwd_loop_ref:
  "buffer_ok file pos buf first eof \<Longrightarrow>
     erase_count (fwd_loop f file gap pos buf first eof runaway) = erase_count (ref_loop f file gap pos first runaway)"
proof (induction f "file" gap pos "first" runaway arbitrary: buf eof rule: ref_loop.induct)
  case (1 f fl gap pos first runaway)
  show ?case
  proof (cases "marker_at fl pos")
    case None
    with "1.prems" show ?thesis by (rule fwd_loop_none)
  next
    case (Some w)
    from fwd_loop_step [OF "1.prems" Some, of f gap runaway] obtain r eof1 where
      r: "buffer_ok fl (pos + 4) r False eof1" and loop: "fwd_loop f fl gap pos buf first eof runaway = (if buf = [] \<and> w = MTR_EOM
         then if first then (loop_end runaway MTSE_EOM 0 pos)\<lparr>rd_pnu := True, rd_eom := True\<rparr>
              else loop_end runaway (gap_end gap) MTR_GAP pos
         else if w = MTR_EOM then loop_end runaway (gap_end gap) MTR_EOM pos
         else if w = MTR_TMK then loop_end runaway MTSE_TMK MTR_TMK (pos + 4)
         else if w = MTR_GAP
         then if runaway - gap > 0 then fwd_loop f fl gap (pos + 4) r False eof1 (runaway - gap)
              else loop_end (runaway - gap) MTSE_OK MTR_GAP (pos + 4)
         else if w = MTR_FHGAP
         then if runaway - gap div 2 > 0 then fwd_loop f fl gap (pos + 2) [] False False (runaway - gap div 2)
              else loop_end (runaway - gap div 2) MTSE_OK MTR_GAP (pos + 2)
         else (loop_end runaway MTSE_OK w (wrap_pos (int (pos + 8 + stored_len f (MTR_L w)))))\<lparr>rd_data := pos + 4\<rparr>)" by blast
    have half: "buffer_ok fl (pos + 2) [] False False" by (simp add: buffer_ok_def)
    have f: "first \<Longrightarrow> buf = []" using "1.prems" by (simp add: buffer_ok_def)
    consider (eom) "w = MTR_EOM" | (gap) "w = MTR_GAP" | (half) "w = MTR_FHGAP" | (other) "w \<noteq> MTR_EOM" "w \<noteq> MTR_GAP" "w \<noteq> MTR_FHGAP" by blast
    then show ?thesis
    proof cases
      case eom
      then show ?thesis unfolding loop ref_loop.simps [of f fl gap pos first] Some option.case using f by (cases "first"; cases "buf = []") simp_all
    next
      case gap
      then show ?thesis using "1.IH"(1) [OF Some _ _ _ _ r] unfolding loop ref_loop.simps [of f fl gap pos first] Some option.case by simp
    next
      case half
      then show ?thesis using "1.IH"(2) [OF Some _ _ _ _ _ \<open>buffer_ok fl (pos + 2) [] False False\<close>] unfolding loop ref_loop.simps [of f fl gap pos first] Some option.case by simp
    next
      case other
      then show ?thesis unfolding loop ref_loop.simps [of f fl gap pos first] Some option.case by simp
    qed
  qed
qed

subsection \<open>Images of records and marks\<close>

datatype item = Rec bool "u8 list" | Mark

definition rec_marker :: "bool \<Rightarrow> nat \<Rightarrow> u32" where
  "rec_marker e n = of_nat n OR (if e then 0x80000000 else 0)"

fun item_bytes :: "tape_fmt \<Rightarrow> item \<Rightarrow> u8 list" where
  "item_bytes f (Rec e d) = le32 (rec_marker e (length d)) @ d @ replicate (stored_len f (of_nat (length d)) - length d) 0 @ le32 (rec_marker e (length d))"
| "item_bytes f Mark = le32 MTR_TMK"

definition tape_image :: "tape_fmt \<Rightarrow> item list \<Rightarrow> u8 list" where
  "tape_image f is = concat (map (item_bytes f) is)"

text \<open>Records are not empty and shorter than the 24 bits that their length has.\<close>

fun item_ok :: "item \<Rightarrow> bool" where
  "item_ok (Rec e d) \<longleftrightarrow> d \<noteq> [] \<and> length d < 2 ^ 24"
| "item_ok Mark \<longleftrightarrow> True"

lemma tape_image_simps [simp]:
  "tape_image f [] = []" "tape_image f (x # xs) = item_bytes f x @ tape_image f xs" "tape_image f (xs @ ys) = tape_image f xs @ tape_image f ys"
  by (simp_all add: tape_image_def)

lemma bit_small: "n < 2 ^ 25 \<Longrightarrow> bit (of_nat n :: u32) k \<Longrightarrow> k < 25"
proof -
  assume n: "n < 2 ^ 25" and k: "bit (of_nat n :: u32) k"
  then have "bit n k" by (simp add: bit_of_nat_iff)
  then have "2 ^ k \<le> n" by (metis bit_nat_iff bit_iff_odd div_less even_zero linorder_not_le)
  then have "(2::nat) ^ k < 2 ^ 25" using n by linarith
  then show "k < 25" using power_strict_increasing_iff [of "2::nat" k 25] by simp
qed

lemma bit_top: "bit (0x80000000 :: u32) k \<longleftrightarrow> k = 31" "bit (0x7FFFFFFF :: u32) k \<longleftrightarrow> k < 31"
proof -
  have h: "(0x80000000 :: u32) = push_bit 31 1" by simp
  show "bit (0x80000000 :: u32) k \<longleftrightarrow> k = 31" unfolding h by (auto simp only: bit_push_bit_iff bit_1_iff) (auto simp: possible_bit_def)
  have m: "(0x7FFFFFFF :: u32) = mask 31" by (simp add: mask_eq_exp_minus_1)
  show "bit (0x7FFFFFFF :: u32) k \<longleftrightarrow> k < 31" unfolding m bit_mask_iff by (auto simp: possible_bit_def)
qed

lemma bit_rec_marker: "n < 2 ^ 25 \<Longrightarrow> bit (rec_marker e n) k \<longleftrightarrow> bit (of_nat n :: u32) k \<or> e \<and> k = 31"
  unfolding rec_marker_def bit_or_iff by (cases e) (simp_all only: bit_top if_True if_False bit_0_eq bot_fun_def bot_bool_def simp_thms)


lemma rec_marker_parts:
  assumes "n < 2 ^ 25"
  shows "MTR_L (rec_marker e n) = of_nat n" "MTR_F (rec_marker e n) = e"
proof -
  show "MTR_L (rec_marker e n) = of_nat n"
    unfolding MTR_L_def
    by (rule bit_word_eqI, unfold bit_and_iff bit_rec_marker [OF assms] bit_top) (use bit_small [OF assms] in fastforce)
  have "rec_marker e n AND 0x80000000 = (if e then 0x80000000 else 0)"
    by (rule bit_word_eqI, cases e, simp_all only: if_True if_False bit_and_iff bit_rec_marker [OF assms] bit_top bit_0_eq bot_fun_def bot_bool_def)
      (use bit_small [OF assms, of 31] in auto)
  then show "MTR_F (rec_marker e n) = e" by (auto simp: MTR_F_def)
qed

lemma rec_marker_plain:
  assumes "n < 2 ^ 25" "0 < n"
  shows "rec_marker e n \<noteq> MTR_TMK" "rec_marker e n \<noteq> MTR_EOM" "rec_marker e n \<noteq> MTR_GAP" "rec_marker e n \<noteq> MTR_FHGAP"
    "rec_marker e n AND MTR_M_RHGAP \<noteq> MTR_RHGAP"
proof -
  have n: "(of_nat n :: u32) \<noteq> 0" using assms by (simp add: word_of_nat_eq_0_iff nat_dvd_not_less)
  then show "rec_marker e n \<noteq> MTR_TMK" using rec_marker_parts(1) [OF assms(1), of e] by (auto simp: MTR_L_def)
  have b: "\<not> bit (rec_marker e n) 30" using bit_small [OF assms(1), of 30] by (auto simp: bit_rec_marker [OF assms(1)])
  have s: "bit MTR_EOM 30" "bit MTR_GAP 30" "bit MTR_FHGAP 30" "bit MTR_RHGAP 30" by (simp_all add: bit_iff_odd_drop_bit)
  from b s show "rec_marker e n \<noteq> MTR_EOM" "rec_marker e n \<noteq> MTR_GAP" "rec_marker e n \<noteq> MTR_FHGAP" by metis+
  show "rec_marker e n AND MTR_M_RHGAP \<noteq> MTR_RHGAP" using b s(4) by (metis bit_and_iff)
qed

lemma stored_len_small:
  assumes "n < 2 ^ 24"
  shows "stored_len f (of_nat n) = (if f = MTUF_F_STD then n + n mod 2 else n)"
proof (cases "f = MTUF_F_STD")
  case True
  have "unat ((of_nat n + 1 :: u32) AND NOT 1) = 2 * ((n + 1) div 2)"
  proof -
    have "(of_nat n + 1 :: u32) = of_nat (n + 1)" by simp
    moreover have "x AND NOT 1 = push_bit 1 (drop_bit 1 x)" for x :: u32
    proof (rule bit_word_eqI)
      fix k assume "k < LENGTH(32)"
      then show "bit (x AND NOT 1) k = bit (push_bit 1 (drop_bit 1 x)) k"
        unfolding bit_and_iff bit_not_iff bit_push_bit_iff bit_drop_bit_eq bit_1_iff comp_def by (cases k) (simp_all add: possible_bit_def)
    qed
    moreover have "push_bit 1 (drop_bit 1 (of_nat (n + 1) :: u32)) = of_nat (2 * ((n + 1) div 2))"
    proof -
      have "drop_bit 1 (of_nat m :: u32) = of_nat (m div 2)" if "m < 2 ^ 25" for m
        using that by (simp add: word_unat_eq_iff unat_div unsigned_of_nat take_bit_nat_eq_self drop_bit_eq_div)
      from this [of "n + 1"] have "drop_bit 1 (of_nat (n + 1) :: u32) = of_nat ((n + 1) div 2)" using assms by simp
      then show ?thesis by (simp add: push_bit_eq_mult)
    qed
    ultimately have "(of_nat n + 1 :: u32) AND NOT 1 = of_nat (2 * ((n + 1) div 2))" by (simp only:)
    moreover have "unat (of_nat m :: u32) = m" if "m < 2 ^ 25" for m using that by (simp add: unsigned_of_nat take_bit_nat_eq_self)
    moreover have "2 * ((n + 1) div 2) < 2 ^ 25" using assms by simp
    ultimately show ?thesis by (simp only:)
  qed
  moreover have "2 * ((n + 1) div 2) = n + n mod 2" by presburger
  ultimately show ?thesis using True by (simp add: stored_len_def)
next
  case False
  then show ?thesis using assms by (simp add: stored_len_def unsigned_of_nat take_bit_nat_eq_self)
qed

subsection \<open>Positions between items\<close>

definition tape_rel :: "tape \<Rightarrow> item list \<Rightarrow> item list \<Rightarrow> bool" where
  "tape_rel u bs as \<longleftrightarrow> tp_att u \<and> tp_ctx u \<and> \<not> tp_wrp u \<and> tp_dens u < length bpi \<and> tp_file u = tape_image (tp_fmt u) (bs @ as) \<and>
     tp_pos u = length (tape_image (tp_fmt u) bs) \<and> (tape_eom u = 0 \<or> tape_eom u = length (tp_file u)) \<and>
     list_all item_ok (bs @ as) \<and> length (tp_file u) < 2 ^ 32"

lemma wrap_pos_small: "0 \<le> x \<Longrightarrow> x < 2 ^ 32 \<Longrightarrow> wrap_pos x = nat x"
  by (simp add: wrap_pos_def)

lemma runaway_limit_pos: "dens < length bpi \<Longrightarrow> 0 < runaway_limit dens"
proof -
  have "list_all (\<lambda>d. 0 < runaway_limit d) [0..<6]" by (simp add: upt_rec runaway_limit_def bpi_def)
  moreover have "length bpi = 6" by (simp add: bpi_def)
  ultimately show "dens < length bpi \<Longrightarrow> 0 < runaway_limit dens" by (simp add: list_all_iff)
qed

lemma stored_len_ge: "length d < 2 ^ 24 \<Longrightarrow> length d \<le> stored_len f (of_nat (length d))"
  by (simp add: stored_len_small)

lemma item_length: "item_ok (Rec e d) \<Longrightarrow> length (item_bytes f (Rec e d)) = 8 + stored_len f (of_nat (length d))"
  using stored_len_ge [of d f] by simp

lemma image_length_pos: "x # xs \<noteq> [] \<Longrightarrow> list_all item_ok (x # xs) \<Longrightarrow> 4 \<le> length (tape_image f (x # xs))"
  by (cases x) simp_all

lemma fwd_first:
  assumes "marker_at fl pos = Some w" "0 < runaway"
  shows "w = MTR_TMK \<Longrightarrow> fwd_loop f fl gap pos [] True False runaway = loop_end runaway MTSE_TMK MTR_TMK (pos + 4)"
    "w \<noteq> MTR_TMK \<Longrightarrow> w \<noteq> MTR_EOM \<Longrightarrow> w \<noteq> MTR_GAP \<Longrightarrow> w \<noteq> MTR_FHGAP \<Longrightarrow> fwd_loop f fl gap pos [] True False runaway =
       (loop_end runaway MTSE_OK w (wrap_pos (int (pos + 8 + stored_len f (MTR_L w)))))\<lparr>rd_data := pos + 4\<rparr>"
proof -
  have ws: "fread_markers fl pos 1 = [w]" using assms(1) by (simp only: fread_markers_one option.case)
  show "w = MTR_TMK \<Longrightarrow> fwd_loop f fl gap pos [] True False runaway = loop_end runaway MTSE_TMK MTR_TMK (pos + 4)"
    by (subst fwd_loop.simps) (simp only: Let_def if_True simp_thms ws list.sel list.distinct if_False, simp)
  show "w \<noteq> MTR_TMK \<Longrightarrow> w \<noteq> MTR_EOM \<Longrightarrow> w \<noteq> MTR_GAP \<Longrightarrow> w \<noteq> MTR_FHGAP \<Longrightarrow> fwd_loop f fl gap pos [] True False runaway =
       (loop_end runaway MTSE_OK w (wrap_pos (int (pos + 8 + stored_len f (MTR_L w)))))\<lparr>rd_data := pos + 4\<rparr>"
    by (subst fwd_loop.simps) (simp only: Let_def if_True simp_thms ws list.sel list.distinct if_False)
qed

lemma fwd_none:
  assumes "marker_at fl pos = None" "0 < runaway"
  shows "fwd_loop f fl gap pos [] True False runaway = (loop_end runaway MTSE_EOM 0 pos)\<lparr>rd_pnu := True, rd_eom := True\<rparr>"
proof -
  have ws: "fread_markers fl pos 1 = []" using assms(1) by (simp only: fread_markers_one option.case)
  show ?thesis by (subst fwd_loop.simps) (simp only: Let_def if_True simp_thms ws if_False)
qed

lemma rev_first:
  assumes "marker_at fl (pos - 4) = Some w" "0 < runaway" "4 \<le> pos"
  shows "w = MTR_TMK \<Longrightarrow> rev_loop f fl gap pos [] True runaway = Inr (loop_end runaway MTSE_TMK MTR_TMK (pos - 4))"
    "w \<noteq> MTR_TMK \<Longrightarrow> w \<noteq> MTR_EOM \<Longrightarrow> w \<noteq> MTR_GAP \<Longrightarrow> w AND MTR_M_RHGAP \<noteq> MTR_RHGAP \<Longrightarrow> rev_loop f fl gap pos [] True runaway =
       (let p = wrap_pos (int pos - 8 - int (stored_len f (MTR_L w)))
        in Inr ((loop_end runaway MTSE_OK w p)\<lparr>rd_data := wrap_pos (int p + 4)\<rparr>))"
proof -
  have ws: "fread_markers fl (pos - 4 * 1) 1 = [w]" using assms(1) by (simp only: mult_1_right fread_markers_one option.case)
  have p: "\<not> pos \<le> 3" using assms(3) by simp
  show "w = MTR_TMK \<Longrightarrow> rev_loop f fl gap pos [] True runaway = Inr (loop_end runaway MTSE_TMK MTR_TMK (pos - 4))"
    by (subst rev_loop.simps) (simp only: Let_def if_True simp_thms ws p last.simps list.distinct if_False)
  show "w \<noteq> MTR_TMK \<Longrightarrow> w \<noteq> MTR_EOM \<Longrightarrow> w \<noteq> MTR_GAP \<Longrightarrow> w AND MTR_M_RHGAP \<noteq> MTR_RHGAP \<Longrightarrow> rev_loop f fl gap pos [] True runaway =
       (let p = wrap_pos (int pos - 8 - int (stored_len f (MTR_L w)))
        in Inr ((loop_end runaway MTSE_OK w p)\<lparr>rd_data := wrap_pos (int p + 4)\<rparr>))"
    by (subst rev_loop.simps) (simp only: Let_def if_True simp_thms ws p last.simps list.distinct if_False)
qed

lemma wrap_pos_nat: "n < 2 ^ 32 \<Longrightarrow> wrap_pos (int n) = n"
  by (simp add: wrap_pos_def)

lemma tape_relD:
  assumes "tape_rel u bs as"
  shows "tp_att u" "\<not> tp_wrp u" "tp_file u = tape_image (tp_fmt u) bs @ tape_image (tp_fmt u) as" "tp_pos u = length (tape_image (tp_fmt u) bs)"
    "tape_eom u = 0 \<or> tape_eom u = length (tape_image (tp_fmt u) bs) + length (tape_image (tp_fmt u) as)" "list_all item_ok bs" "list_all item_ok as"
    "length (tape_image (tp_fmt u) bs) + length (tape_image (tp_fmt u) as) < 2 ^ 32" "0 < runaway_limit (tp_dens u)" "tp_ctx u"
  using assms runaway_limit_pos [of "tp_dens u"] by (auto simp: tape_rel_def)

text \<open>The tape moved to another place, with its flag.\<close>

definition move_tape :: "tape \<Rightarrow> item list \<Rightarrow> bool \<Rightarrow> tape" where
  "move_tape u bs p = u\<lparr>tp_pos := length (tape_image (tp_fmt u) bs), tp_pnu := p\<rparr>"

lemma move_tape_rel:
  assumes "tape_rel u bs as" "bs @ as = bs' @ as'"
  shows "tape_rel (move_tape u bs' p) bs' as'" "tp_pnu (move_tape u bs' p) = p"
  using assms by (auto simp: tape_rel_def move_tape_def)

lemma rdlntf_rec:
  assumes "tape_rel u bs (Rec e d # as)"
  shows "sim_tape_rdlntf u = Inr (MTSE_OK, rec_marker e (length d), tp_pos u + 4, move_tape u (bs @ [Rec e d]) False)"
    "fread_record (tp_file u) (tp_pos u + 4) (length d) = d"
proof -
  note r = tape_relD [OF assms]
  let ?f = "tp_fmt u" and ?w = "rec_marker e (length d)"
  let ?pad = "replicate (stored_len ?f (of_nat (length d)) - length d) (0 :: u8)"
  have d: "0 < length d" "length d < 2 ^ 24" "length d < 2 ^ 25" using r(7) by auto
  note plain = rec_marker_plain [OF d(3,1), of e]
  have len: "length (item_bytes ?f (Rec e d)) = 8 + stored_len ?f (of_nat (length d))" using r(7) by (intro item_length) simp
  have file1: "tp_file u = tape_image ?f bs @ le32 ?w @ (d @ ?pad @ le32 ?w @ tape_image ?f as)" by (simp add: r(3))
  have file2: "tp_file u = (tape_image ?f bs @ le32 ?w @ d @ ?pad) @ le32 ?w @ tape_image ?f as" by (simp add: r(3))
  have m1: "marker_at (tp_file u) (tp_pos u) = Some ?w" unfolding file1 by (rule marker_at_le32) (simp add: r(4))
  have end': "length (tape_image ?f (bs @ [Rec e d])) = tp_pos u + 8 + stored_len ?f (of_nat (length d))" by (simp only: tape_image_simps length_append len r(4)) simp
  have "length (tape_image ?f (bs @ [Rec e d])) < 2 ^ 32" using r(8) by simp
  then have w: "wrap_pos (int (tp_pos u + 8 + stored_len ?f (MTR_L ?w))) = length (tape_image ?f (bs @ [Rec e d]))"
    by (simp only: rec_marker_parts [OF d(3)] end' wrap_pos_nat)
  have "wrap_pos (int (length (tape_image ?f (bs @ [Rec e d]))) - 4) = length (tape_image ?f bs @ le32 ?w @ d @ ?pad)"
    using r(8) by (subst wrap_pos_small) simp_all
  then have m2: "marker_at (tp_file u) (wrap_pos (int (length (tape_image ?f (bs @ [Rec e d]))) - 4)) = Some ?w"
    unfolding file2 by (intro marker_at_le32) simp
  have "\<not> (0 < tape_eom u \<and> tape_eom u \<le> tp_pos u)" using r(4,5) len by auto
  note loop = fwd_first(2) [OF m1 r(9) plain(1,2,3,4), where f = ?f and gap = "sizeof_gap (tp_dens u)", unfolded w]
  show "sim_tape_rdlntf u = Inr (MTSE_OK, ?w, tp_pos u + 4, move_tape u (bs @ [Rec e d]) False)"
    using r(1,9) m2 \<open>\<not> (0 < tape_eom u \<and> tape_eom u \<le> tp_pos u)\<close> by (simp add: sim_tape_rdlntf_def loop Let_def loop_end_def move_tape_def del: tape_image_simps)
  show "fread_record (tp_file u) (tp_pos u + 4) (length d) = d"
    by (simp add: fread_record_def file1 r(4) Let_def)
qed

lemma rdlntf_mark:
  assumes "tape_rel u bs (Mark # as)"
  shows "\<exists>dpos. sim_tape_rdlntf u = Inr (MTSE_TMK, 0, dpos, move_tape u (bs @ [Mark]) False)"
proof -
  note r = tape_relD [OF assms]
  have m: "marker_at (tp_file u) (tp_pos u) = Some MTR_TMK"
    using marker_at_le32 [of "tp_pos u" "tape_image (tp_fmt u) bs" MTR_TMK "tape_image (tp_fmt u) as"] by (simp add: r(3,4))
  have "\<not> (0 < tape_eom u \<and> tape_eom u \<le> tp_pos u)" using r(4,5) by auto
  then have "sim_tape_rdlntf u = Inr (MTSE_TMK, 0, tp_pos u + 4, u\<lparr>tp_pos := tp_pos u + 4, tp_pnu := False\<rparr>)"
    using r(1,9) by (simp add: sim_tape_rdlntf_def fwd_first(1) [OF m r(9)] Let_def loop_end_def)
  then show ?thesis using r(4) by (simp add: move_tape_def)
qed

lemma rdlntf_end:
  assumes "tape_rel u bs []"
  shows "\<exists>dpos u'. sim_tape_rdlntf u = Inr (MTSE_EOM, 0, dpos, u') \<and> tape_rel u' bs [] \<and> tp_pnu u' \<and> tp_fmt u' = tp_fmt u"
proof (cases "tape_eom u = 0")
  case True
  note r = tape_relD [OF assms]
  have m: "marker_at (tp_file u) (tp_pos u) = None" using r(3,4) by (simp add: marker_at_def)
  have "sim_tape_rdlntf u = Inr (MTSE_EOM, 0, tp_pos u, u\<lparr>tp_pnu := True, tape_eom := tp_pos u\<rparr>)"
    using True r(1,9) by (simp add: sim_tape_rdlntf_def fwd_none [OF m r(9)] Let_def loop_end_def)
  moreover have "tape_rel (u\<lparr>tp_pnu := True, tape_eom := tp_pos u\<rparr>) bs []" using assms unfolding tape_rel_def by auto
  ultimately show ?thesis by simp
next
  case False
  then show ?thesis using assms by (auto simp: sim_tape_rdlntf_def Let_def tape_rel_def)
qed

lemma rdlntr_rec:
  assumes "tape_rel u (bs @ [Rec e d]) as"
  shows "sim_tape_rdlntr u = Inr (MTSE_OK, rec_marker e (length d), length (tape_image (tp_fmt u) bs) + 4, move_tape u bs False)"
    "fread_record (tp_file u) (length (tape_image (tp_fmt u) bs) + 4) (length d) = d"
proof -
  note r = tape_relD [OF assms]
  let ?f = "tp_fmt u" and ?w = "rec_marker e (length d)"
  let ?pad = "replicate (stored_len ?f (of_nat (length d)) - length d) (0 :: u8)"
  have d: "0 < length d" "length d < 2 ^ 24" "length d < 2 ^ 25" using r(6) by auto
  note plain = rec_marker_plain [OF d(3,1), of e]
  have len: "length (item_bytes ?f (Rec e d)) = 8 + stored_len ?f (of_nat (length d))" using r(6) by (intro item_length) simp
  have pos: "tp_pos u = length (tape_image ?f bs) + 8 + stored_len ?f (of_nat (length d))" by (simp only: r(4) tape_image_simps length_append len) simp
  have file1: "tp_file u = tape_image ?f bs @ le32 ?w @ (d @ ?pad @ le32 ?w @ tape_image ?f as)" by (simp add: r(3))
  have file2: "tp_file u = (tape_image ?f bs @ le32 ?w @ d @ ?pad) @ le32 ?w @ tape_image ?f as" by (simp add: r(3))
  have m: "marker_at (tp_file u) (tp_pos u - 4) = Some ?w" unfolding file2 by (rule marker_at_le32) (simp add: r(4))
  have w: "wrap_pos (int (tp_pos u) - 8 - int (stored_len ?f (MTR_L ?w))) = length (tape_image ?f bs)"
    using r(8) by (subst wrap_pos_small) (simp_all add: rec_marker_parts [OF d(3)] pos)
  have w4: "wrap_pos (int (length (tape_image ?f bs)) + 4) = length (tape_image ?f bs) + 4"
    using r(8) by (subst wrap_pos_small) simp_all
  have "\<not> tp_pos u \<le> 3" "4 \<le> tp_pos u" using pos by simp_all
  then show "sim_tape_rdlntr u = Inr (MTSE_OK, ?w, length (tape_image ?f bs) + 4, move_tape u bs False)"
    using r(1,9) by (simp add: sim_tape_rdlntr_def sim_tape_bot_def rev_first(2) [OF m r(9) _ plain(1-3,5)] Let_def w w4 loop_end_def move_tape_def)
  show "fread_record (tp_file u) (length (tape_image ?f bs) + 4) (length d) = d"
    by (simp add: fread_record_def file1 Let_def)
qed

lemma rdlntr_mark:
  assumes "tape_rel u (bs @ [Mark]) as"
  shows "\<exists>dpos. sim_tape_rdlntr u = Inr (MTSE_TMK, 0, dpos, move_tape u bs False)"
proof -
  note r = tape_relD [OF assms]
  have m: "marker_at (tp_file u) (tp_pos u - 4) = Some MTR_TMK"
    using marker_at_le32 [of "tp_pos u - 4" "tape_image (tp_fmt u) bs" MTR_TMK "tape_image (tp_fmt u) as"] by (simp add: r(3,4))
  have "\<not> tp_pos u \<le> 3" "4 \<le> tp_pos u" using r(4) by simp_all
  then have "sim_tape_rdlntr u = Inr (MTSE_TMK, 0, tp_pos u - 4, u\<lparr>tp_pos := tp_pos u - 4, tp_pnu := False\<rparr>)"
    using r(1,9) by (simp add: sim_tape_rdlntr_def sim_tape_bot_def rev_first(1) [OF m r(9)] Let_def loop_end_def)
  then show ?thesis using r(4) by (simp add: move_tape_def)
qed

lemma rdlntr_start:
  assumes "tape_rel u [] as"
  shows "sim_tape_rdlntr u = Inr (MTSE_BOT, 0, 0, move_tape u [] False)"
  using tape_relD(1,4) [OF assms] by (simp add: sim_tape_rdlntr_def sim_tape_bot_def move_tape_def)

lemma fwrite_end: "p = length fl \<Longrightarrow> fwrite fl p b = fl @ b"
  by (simp add: fwrite_def)

end
