(* ===== verification/TapeSemantics.thy ===== *)
theory TapeSemantics
  imports TapeImage
begin

text \<open>
  The tape operations against their contract: a list of items with a head.  Every operation is
  simulated by one on lists, so sequences of operations are; writing and reading are inverse; spacing
  over records, files and objects is proved once for an operation that moves over one item and
  interpreted for both directions.
\<close>

unbundle bit_operations_syntax

subsection \<open>What the operations do to a list of items\<close>

datatype tape_op = Read_Forward u32 | Read_Reverse u32 | Space_Forward | Space_Reverse | Write_Record bool "u8 list" | Write_Mark | Rewind_Tape

type_synonym tape_out = "t_stat \<times> u8 list \<times> nat"
type_synonym tape_abs = "item list \<times> item list \<times> bool"

text \<open>The whole operations, with the status, the data and the length that they give.\<close>

fun tape_do :: "tape_op \<Rightarrow> tape \<Rightarrow> tape_fault + tape_out \<times> tape" where
  "tape_do (Read_Forward m) u = map_sum id (\<lambda>(st, bc, d, u'). ((st, d, unat bc), u')) (sim_tape_rdrecf u m)"
| "tape_do (Read_Reverse m) u = map_sum id (\<lambda>(st, bc, d, u'). ((st, d, unat bc), u')) (sim_tape_rdrecr u m)"
| "tape_do Space_Forward u = map_sum id (\<lambda>(st, bc, u'). ((st, [], unat bc), u')) (sim_tape_sprecf u)"
| "tape_do Space_Reverse u = map_sum id (\<lambda>(st, bc, u'). ((st, [], unat bc), u')) (sim_tape_sprecr u)"
| "tape_do (Write_Record e d) u = Inr (let (st, u') = sim_tape_wrrecf u d (rec_marker e (length d)) in ((st, [], 0), u'))"
| "tape_do Write_Mark u = Inr (let (st, u') = sim_tape_wrtmk u in ((st, [], 0), u'))"
| "tape_do Rewind_Tape u = Inr (let (st, u') = sim_tape_rewind u in ((st, [], 0), u'))"

fun tape_run :: "tape_op list \<Rightarrow> tape \<Rightarrow> tape_fault + tape_out list \<times> tape" where
  "tape_run [] u = Inr ([], u)"
| "tape_run (p # ps) u =
     (case tape_do p u of
        Inl e \<Rightarrow> Inl e
      | Inr (out, u') \<Rightarrow> map_sum id (\<lambda>(outs, u''). (out # outs, u'')) (tape_run ps u'))"

text \<open>
  The contract: the items before and behind the head, and whether the last operation left the position
  as it was.  A record may be written only behind the last item, if the image stays within the range of
  a position.
\<close>

fun spec_forward :: "(bool \<Rightarrow> u8 list \<Rightarrow> tape_out \<times> bool) \<Rightarrow> tape_abs \<Rightarrow> tape_out \<times> tape_abs" where
  "spec_forward g (bs, [], p) = ((MTSE_EOM, [], 0), (bs, [], True))"
| "spec_forward g (bs, Mark # as, p) = ((MTSE_TMK, [], 0), (bs @ [Mark], as, False))"
| "spec_forward g (bs, Rec e d # as, p) = (let (out, stay) = g e d in (out, if stay then (bs, Rec e d # as, True) else (bs @ [Rec e d], as, False)))"

definition spec_reverse :: "(bool \<Rightarrow> u8 list \<Rightarrow> tape_out) \<Rightarrow> tape_abs \<Rightarrow> tape_out \<times> tape_abs" where
  "spec_reverse g s =
     (case s of (bs, as, p) \<Rightarrow>
        if bs = [] then ((MTSE_BOT, [], 0), ([], as, False))
        else (case last bs of Mark \<Rightarrow> (MTSE_TMK, [], 0) | Rec e d \<Rightarrow> g e d, (butlast bs, last bs # as, False)))"

definition read_out :: "u32 \<Rightarrow> bool \<Rightarrow> u8 list \<Rightarrow> tape_out" where
  "read_out m e d = (if length d > unat m then (MTSE_INVRL, [], length d) else (if e then MTSE_RECE else MTSE_OK, d, length d))"

fun tape_spec :: "tape_fmt \<Rightarrow> tape_op \<Rightarrow> tape_abs \<Rightarrow> (tape_out \<times> tape_abs) option" where
  "tape_spec f (Read_Forward m) s = Some (spec_forward (\<lambda>e d. (read_out m e d, length d > unat m)) s)"
| "tape_spec f (Read_Reverse m) s = Some (spec_reverse (read_out m) s)"
| "tape_spec f Space_Forward s = Some (spec_forward (\<lambda>e d. ((MTSE_OK, [], length d), False)) s)"
| "tape_spec f Space_Reverse (bs, as, p) =
     Some (if p then ((MTSE_OK, [], 0), (bs, as, False)) else spec_reverse (\<lambda>e d. (MTSE_OK, [], length d)) (bs, as, p))"
| "tape_spec f (Write_Record e d) (bs, as, p) =
     (if d = [] then Some ((MTSE_OK, [], 0), (bs, as, False))
      else if as = [] \<and> length d < 2 ^ 24 \<and> length (tape_image f (bs @ [Rec e d])) < 2 ^ 32 then Some ((MTSE_OK, [], 0), (bs @ [Rec e d], [], False))
      else None)"
| "tape_spec f Write_Mark (bs, as, p) =
     (if as = [] \<and> length (tape_image f (bs @ [Mark])) < 2 ^ 32 then Some ((MTSE_OK, [], 0), (bs @ [Mark], [], False)) else None)"
| "tape_spec f Rewind_Tape (bs, as, p) = Some ((MTSE_OK, [], 0), ([], bs @ as, False))"

fun spec_run :: "tape_fmt \<Rightarrow> tape_op list \<Rightarrow> tape_abs \<Rightarrow> (tape_out list \<times> tape_abs) option" where
  "spec_run f [] s = Some ([], s)"
| "spec_run f (p # ps) s =
     (case tape_spec f p s of
        None \<Rightarrow> None
      | Some (out, s') \<Rightarrow> map_option (\<lambda>(outs, s''). (out # outs, s'')) (spec_run f ps s'))"

subsection \<open>Each operation keeps the contract\<close>

definition tape_sim :: "tape_fmt \<Rightarrow> tape \<Rightarrow> tape_abs \<Rightarrow> bool" where
  "tape_sim f u s \<longleftrightarrow> (case s of (bs, as, p) \<Rightarrow> tape_rel u bs as \<and> tp_pnu u = p \<and> tp_fmt u = f)"

lemma move_tape_sim:
  "tape_rel u bs as \<Longrightarrow> bs @ as = bs' @ as' \<Longrightarrow> tape_sim (tp_fmt u) (move_tape u bs' p) (bs', as', p)"
  using move_tape_rel [of u bs as bs' as' p] by (simp add: tape_sim_def move_tape_def)

lemma rec_length:
  assumes "item_ok (Rec e d)"
  shows "MTR_L (rec_marker e (length d)) = of_nat (length d)" "MTR_F (rec_marker e (length d)) = e"
    "unat (of_nat (length d) :: u32) = length d" "m < (of_nat (length d) :: u32) \<longleftrightarrow> unat m < length d"
proof -
  have "length d < 2 ^ 25" using assms by simp
  from rec_marker_parts [OF this] show "MTR_L (rec_marker e (length d)) = of_nat (length d)" "MTR_F (rec_marker e (length d)) = e" .
  show u: "unat (of_nat (length d) :: u32) = length d" using assms by (simp add: unsigned_of_nat take_bit_nat_eq_self)
  show "m < (of_nat (length d) :: u32) \<longleftrightarrow> unat m < length d" by (simp add: word_less_nat_alt u)
qed

lemma stay_sim:
  "tape_rel u bs as \<Longrightarrow> tape_sim (tp_fmt u) ((move_tape u bs' p)\<lparr>tp_pnu := True, tp_pos := tp_pos u\<rparr>) (bs, as, True)"
  by (auto simp: tape_sim_def move_tape_def tape_rel_def)

lemma read_forward_sim:
  assumes "tape_rel u bs as"
  shows "\<exists>u'. tape_do (Read_Forward m) u = Inr (fst (the (tape_spec f (Read_Forward m) (bs, as, p))), u') \<and>
    tape_sim (tp_fmt u) u' (snd (the (tape_spec f (Read_Forward m) (bs, as, p))))"
  supply ctx = tape_relD(10) [OF assms]
proof (cases as)
  case Nil
  then show ?thesis using rdlntf_end [of u bs] assms by (auto simp: sim_tape_rdrecf_def sim_tape_rdrlfwd_def ctx tape_sim_def)
next
  case (Cons x as')
  show ?thesis
  proof (cases x)
    case Mark
    then show ?thesis using Cons rdlntf_mark [of u bs as'] assms move_tape_sim [OF assms, of "bs @ [Mark]" as' False]
      by (auto simp: sim_tape_rdrecf_def sim_tape_rdrlfwd_def ctx)
  next
    case (Rec e d)
    have ok: "item_ok (Rec e d)" using tape_relD(7) [OF assms] Cons Rec by simp
    note r = rdlntf_rec [of u bs e d as'] rec_length [OF ok]
    show ?thesis using assms Cons Rec r move_tape_sim [OF assms, of "bs @ [Rec e d]" as' False] stay_sim [OF assms, of "bs @ [Rec e d]" False]
      by (simp add: sim_tape_rdrecf_def sim_tape_rdrlfwd_def ctx read_out_def Let_def)
  qed
qed

lemma space_forward_sim:
  assumes "tape_rel u bs as"
  shows "\<exists>u'. tape_do Space_Forward u = Inr (fst (the (tape_spec f Space_Forward (bs, as, p))), u') \<and>
    tape_sim (tp_fmt u) u' (snd (the (tape_spec f Space_Forward (bs, as, p))))"
  supply ctx = tape_relD(10) [OF assms]
proof (cases as)
  case Nil
  then show ?thesis using rdlntf_end [of u bs] assms by (auto simp: sim_tape_sprecf_def sim_tape_rdrlfwd_def ctx tape_sim_def MTR_L_def)
next
  case (Cons x as')
  show ?thesis
  proof (cases x)
    case Mark
    then show ?thesis using Cons rdlntf_mark [of u bs as'] assms move_tape_sim [OF assms, of "bs @ [Mark]" as' False]
      by (auto simp: sim_tape_sprecf_def sim_tape_rdrlfwd_def ctx MTR_L_def)
  next
    case (Rec e d)
    have ok: "item_ok (Rec e d)" using tape_relD(7) [OF assms] Cons Rec by simp
    note r = rdlntf_rec [of u bs e d as'] rec_length [OF ok]
    show ?thesis using assms Cons Rec r move_tape_sim [OF assms, of "bs @ [Rec e d]" as' False] by (simp add: sim_tape_sprecf_def sim_tape_rdrlfwd_def ctx)
  qed
qed

lemma reverse_sim:
  assumes "tape_rel u bs as"
  shows "\<exists>u'. tape_do (Read_Reverse m) u = Inr (fst (spec_reverse (read_out m) (bs, as, p)), u') \<and>
      tape_sim (tp_fmt u) u' (snd (spec_reverse (read_out m) (bs, as, p)))"
    "\<exists>bc u'. map_sum id (\<lambda>(st, bc, dpos, u1). (st, MTR_L bc, u1)) (sim_tape_rdrlrev u) = Inr (fst (fst (spec_reverse (\<lambda>e d. (MTSE_OK, [], length d)) (bs, as, p))), bc, u') \<and>
      snd (fst (spec_reverse (\<lambda>e d. (MTSE_OK, [], length d)) (bs, as, p))) = ([], unat bc) \<and>
      tape_sim (tp_fmt u) u' (snd (spec_reverse (\<lambda>e d. (MTSE_OK, [], length d)) (bs, as, p)))"
proof -
  have ctx: "tp_ctx u" "sim_tape_rdrlrev u = sim_tape_rdlntr u" using tape_relD(10) [OF assms] by (simp_all add: sim_tape_rdrlrev_def)
  have goal: "(\<exists>u'. tape_do (Read_Reverse m) u = Inr (fst (spec_reverse (read_out m) (bs, as, p)), u') \<and>
      tape_sim (tp_fmt u) u' (snd (spec_reverse (read_out m) (bs, as, p)))) \<and>
    (\<exists>bc u'. map_sum id (\<lambda>(st, bc, dpos, u1). (st, MTR_L bc, u1)) (sim_tape_rdrlrev u) = Inr (fst (fst (spec_reverse (\<lambda>e d. (MTSE_OK, [], length d)) (bs, as, p))), bc, u') \<and>
      snd (fst (spec_reverse (\<lambda>e d. (MTSE_OK, [], length d)) (bs, as, p))) = ([], unat bc) \<and>
      tape_sim (tp_fmt u) u' (snd (spec_reverse (\<lambda>e d. (MTSE_OK, [], length d)) (bs, as, p))))"
  proof (cases bs rule: rev_cases)
    case Nil
    then show ?thesis using rdlntr_start [of u as] assms move_tape_sim [OF assms, of "[]" as False]
      by (simp add: sim_tape_rdrecr_def ctx spec_reverse_def MTR_L_def)
  next
    case (snoc bs' x)
    show ?thesis
    proof (cases x)
      case Mark
      have rel: "tape_rel u (bs' @ [Mark]) as" using assms snoc Mark by simp
      obtain dp where "sim_tape_rdlntr u = Inr (MTSE_TMK, 0, dp, move_tape u bs' False)" using rdlntr_mark [OF rel] by blast
      then show ?thesis using snoc Mark move_tape_sim [OF assms, of bs' "Mark # as" False]
        by (simp add: sim_tape_rdrecr_def ctx spec_reverse_def MTR_L_def)
    next
      case (Rec e d)
      have rel: "tape_rel u (bs' @ [Rec e d]) as" using assms snoc Rec by simp
      then have ok: "item_ok (Rec e d)" using tape_relD(6) [OF rel] by simp
      show ?thesis
        using snoc Rec rdlntr_rec [OF rel] rec_length [OF ok] move_tape_sim [OF assms, of bs' "Rec e d # as" False]
        by (simp add: sim_tape_rdrecr_def ctx spec_reverse_def read_out_def Let_def)
    qed
  qed
  then show "\<exists>u'. tape_do (Read_Reverse m) u = Inr (fst (spec_reverse (read_out m) (bs, as, p)), u') \<and>
      tape_sim (tp_fmt u) u' (snd (spec_reverse (read_out m) (bs, as, p)))"
    "\<exists>bc u'. map_sum id (\<lambda>(st, bc, dpos, u1). (st, MTR_L bc, u1)) (sim_tape_rdrlrev u) = Inr (fst (fst (spec_reverse (\<lambda>e d. (MTSE_OK, [], length d)) (bs, as, p))), bc, u') \<and>
      snd (fst (spec_reverse (\<lambda>e d. (MTSE_OK, [], length d)) (bs, as, p))) = ([], unat bc) \<and>
      tape_sim (tp_fmt u) u' (snd (spec_reverse (\<lambda>e d. (MTSE_OK, [], length d)) (bs, as, p)))"
    by blast+
qed

lemma space_reverse_sim:
  assumes "tape_rel u bs as" "tp_pnu u = p"
  shows "\<exists>u'. tape_do Space_Reverse u = Inr (fst (the (tape_spec f Space_Reverse (bs, as, p))), u') \<and>
    tape_sim (tp_fmt u) u' (snd (the (tape_spec f Space_Reverse (bs, as, p))))"
proof (cases p)
  case True
  have "tape_rel (u\<lparr>tp_pnu := False\<rparr>) bs as" using assms by (auto simp: tape_rel_def)
  then show ?thesis using True assms tape_relD(10) [OF assms(1)] by (simp add: sim_tape_sprecr_def tape_sim_def)
next
  case False
  with assms(2) have "sim_tape_sprecr u = map_sum id (\<lambda>(st, bc, dpos, u1). (st, MTR_L bc, u1)) (sim_tape_rdrlrev u)"
    using tape_relD(10) [OF assms(1)] by (simp add: sim_tape_sprecr_def)
  then show ?thesis using reverse_sim(2) [OF assms(1), of p] False by (auto simp: prod_eq_iff)
qed

text \<open>Writing behind the last item.\<close>

lemma storage_size:
  assumes "length d < 2 ^ 24"
  shows "sim_tape_counted_record_storage_size f (of_nat (length d)) = stored_len f (of_nat (length d))"
proof -
  have "((of_nat (length d) + 1 :: u32) AND NOT 1) < 2 ^ 25"
  proof (rule le_less_trans)
    show "(of_nat (length d) + 1 :: u32) AND NOT 1 \<le> of_nat (length d) + 1" by (rule word_and_le2)
    have "unat (of_nat (length d) + 1 :: u32) < 2 ^ 25"
    proof -
      have "unat (of_nat (Suc (length d)) :: u32) = Suc (length d)" using assms by (simp only: unat_of_nat) simp
      then show ?thesis using assms by (simp add: add.commute)
    qed
    then show "(of_nat (length d) + 1 :: u32) < 2 ^ 25" by (simp add: word_less_nat_alt)
  qed
  then have "((of_nat (length d) + 1 :: u32) AND NOT 1) < 2 ^ 31" by (rule less_trans) simp
  then have "((of_nat (length d) + 1 :: u32) AND NOT 1) AND mask 31 = (of_nat (length d) + 1) AND NOT 1" by (rule less_mask_eq)
  then have "((of_nat (length d) + 1 :: u32) AND NOT 1) AND 0x7FFFFFFF = (of_nat (length d) + 1) AND NOT 1" by (simp add: mask_eq_exp_minus_1)
  then show ?thesis by (simp add: sim_tape_counted_record_storage_size_def stored_len_def MTR_L_def)
qed

lemma append_sim:
  assumes "tape_rel u bs []" "item_ok x" "length (tape_image (tp_fmt u) (bs @ [x])) < 2 ^ 32"
  shows "tape_sim (tp_fmt u) (sim_tape_update_eom (u\<lparr>tp_pnu := False, tp_file := fwrite (tp_file u) (tp_pos u) (item_bytes (tp_fmt u) x),
    tp_pos := wrap_pos (int (tp_pos u + length (item_bytes (tp_fmt u) x)))\<rparr>)) (bs @ [x], [], False)"
proof -
  note r = tape_relD [OF assms(1)]
  have "fwrite (tp_file u) (tp_pos u) (item_bytes (tp_fmt u) x) = tape_image (tp_fmt u) (bs @ [x])"
    using r(3,4) by (simp add: fwrite_end)
  moreover have "wrap_pos (int (tp_pos u + length (item_bytes (tp_fmt u) x))) = length (tape_image (tp_fmt u) (bs @ [x]))"
    using assms(3) r(4) by (subst wrap_pos_nat) simp_all
  moreover have "0 < length (item_bytes (tp_fmt u) x)" by (cases x) simp_all
  ultimately show ?thesis
    using r(1-6,10) assms by (auto simp: tape_sim_def tape_rel_def sim_tape_update_eom_def)
qed

lemma write_sim:
  assumes "tape_rel u bs []" "length (tape_image (tp_fmt u) (bs @ [x])) < 2 ^ 32"
  shows "x = Rec e d \<Longrightarrow> item_ok x \<Longrightarrow> \<exists>u'. sim_tape_wrrecf u d (rec_marker e (length d)) = (MTSE_OK, u') \<and> tape_sim (tp_fmt u) u' (bs @ [x], [], False)"
    "x = Mark \<Longrightarrow> \<exists>u'. sim_tape_wrtmk u = (MTSE_OK, u') \<and> tape_sim (tp_fmt u) u' (bs @ [x], [], False)"
proof -
  note r = tape_relD [OF assms(1)]
  {
    assume x: "x = Rec e d" "item_ok x"
    then have ok: "item_ok (Rec e d)" "length d < 2 ^ 24" by simp_all
    have n: "(of_nat (length d) :: u32) \<noteq> 0" using rec_length(3) [OF ok(1)] x by auto
    define p where "p = wrap_pos (int (tp_pos u + stored_len (tp_fmt u) (of_nat (length d)) + 8))"
    have p: "wrap_pos (int (tp_pos u + length (item_bytes (tp_fmt u) x))) = p"
      unfolding x(1) item_length [OF ok(1)] p_def by (simp add: algebra_simps)
    have w: "sim_tape_write_counted_record (u\<lparr>tp_pnu := False\<rparr>) d (rec_marker e (length d)) (length d) (stored_len (tp_fmt u) (of_nat (length d))) =
        u\<lparr>tp_pnu := False, tp_file := fwrite (tp_file u) (tp_pos u) (item_bytes (tp_fmt u) x), tp_pos := p\<rparr>"
      by (simp add: sim_tape_write_counted_record_def p_def x(1))
    have "sim_tape_wrrecf u d (rec_marker e (length d)) =
        (MTSE_OK, sim_tape_update_eom (u\<lparr>tp_pnu := False, tp_file := fwrite (tp_file u) (tp_pos u) (item_bytes (tp_fmt u) x), tp_pos := p\<rparr>))"
      using r(1,2,10) n by (simp add: sim_tape_wrrecf_def sim_tape_check_write_allowed_def rec_length(1) [OF ok(1)] rec_length(3) [OF ok(1)] storage_size [OF ok(2)] w)
    then show "\<exists>u'. sim_tape_wrrecf u d (rec_marker e (length d)) = (MTSE_OK, u') \<and> tape_sim (tp_fmt u) u' (bs @ [x], [], False)"
      using append_sim [OF assms(1) x(2) assms(2)] unfolding p by blast
  }
  assume x: "x = Mark"
  then show "\<exists>u'. sim_tape_wrtmk u = (MTSE_OK, u') \<and> tape_sim (tp_fmt u) u' (bs @ [x], [], False)"
    using append_sim [OF assms(1) _ assms(2)] r(1,2,10) by (simp add: sim_tape_wrtmk_def sim_tape_wrdata_def)
qed

lemma tape_do_sim:
  assumes "tape_sim f u s" "tape_spec f op s = Some (out, s')"
  shows "\<exists>u'. tape_do op u = Inr (out, u') \<and> tape_sim f u' s'"
proof -
  obtain bs as p where s: "s = (bs, as, p)" by (cases s)
  with assms(1) have rel: "tape_rel u bs as" "tp_pnu u = p" "tp_fmt u = f" by (simp_all add: tape_sim_def)
  show ?thesis
  proof (cases op)
    case (Read_Forward m)
    then show ?thesis using read_forward_sim [OF rel(1), of m f p] assms(2) s rel(3) by simp
  next
    case (Read_Reverse m)
    then show ?thesis using reverse_sim(1) [OF rel(1), of m p] assms(2) s rel(3) by simp
  next
    case Space_Forward
    then show ?thesis using space_forward_sim [OF rel(1), of f p] assms(2) s rel(3) by simp
  next
    case Space_Reverse
    then show ?thesis using space_reverse_sim [OF rel(1,2), of f] assms(2) s rel(3) by (simp split: if_splits)
  next
    case (Write_Record e d)
    show ?thesis
    proof (cases "d = []")
      case True
      have "MTR_L (rec_marker e 0) = 0" using rec_marker_parts(1) [of 0 e] by simp
      moreover have "tape_rel (u\<lparr>tp_pnu := False\<rparr>) bs as" using rel(1) by (auto simp: tape_rel_def)
      ultimately show ?thesis
        using True Write_Record assms(2) s rel tape_relD(1,2,10) [OF rel(1)]
        by (auto simp: sim_tape_wrrecf_def sim_tape_check_write_allowed_def tape_sim_def)
    next
      case False
      then have "as = []" "item_ok (Rec e d)" "length (tape_image (tp_fmt u) (bs @ [Rec e d])) < 2 ^ 32"
        "out = (MTSE_OK, [], 0)" "s' = (bs @ [Rec e d], [], False)"
        using Write_Record assms(2) s rel(3) by (simp_all split: if_splits)
      then show ?thesis using write_sim(1) [of u bs "Rec e d" e d] rel Write_Record by auto
    qed
  next
    case Write_Mark
    then have "as = []" "length (tape_image (tp_fmt u) (bs @ [Mark])) < 2 ^ 32" "out = (MTSE_OK, [], 0)" "s' = (bs @ [Mark], [], False)"
      using assms(2) s rel(3) by (simp_all split: if_splits)
    then show ?thesis using write_sim(2) [of u bs Mark] rel Write_Mark by auto
  next
    case Rewind_Tape
    moreover have "tape_rel (u\<lparr>tp_pos := 0, tp_pnu := False\<rparr>) [] (bs @ as)" using rel(1) by (auto simp: tape_rel_def)
    ultimately show ?thesis using assms(2) s rel(3) tape_relD(10) [OF rel(1)] by (auto simp: sim_tape_rewind_def tape_sim_def)
  qed
qed

lemma tape_run_sim:
  "tape_sim f u s \<Longrightarrow> spec_run f ops s = Some (outs, s') \<Longrightarrow> \<exists>u'. tape_run ops u = Inr (outs, u') \<and> tape_sim f u' s'"
proof (induction ops arbitrary: u s outs)
  case (Cons op ops)
  then obtain out t outs1 where op: "tape_spec f op s = Some (out, t)" and ops: "spec_run f ops t = Some (outs1, s')" "outs = out # outs1"
    by (auto split: option.splits)
  from tape_do_sim [OF Cons.prems(1) op] obtain v where v: "tape_do op u = Inr (out, v)" "tape_sim f v t" by blast
  from Cons.IH [OF v(2) ops(1)] v(1) ops(2) show ?case by auto
qed simp

subsection \<open>What is written is read\<close>

fun write_op :: "item \<Rightarrow> tape_op" where
  "write_op (Rec e d) = Write_Record e d"
| "write_op Mark = Write_Mark"

fun item_out :: "item \<Rightarrow> tape_out" where
  "item_out (Rec e d) = (if e then MTSE_RECE else MTSE_OK, d, length d)"
| "item_out Mark = (MTSE_TMK, [], 0)"

lemma spec_run_append:
  "spec_run f (ps @ qs) s = (case spec_run f ps s of None \<Rightarrow> None | Some (outs, t) \<Rightarrow> map_option (\<lambda>(o2, t'). (outs @ o2, t')) (spec_run f qs t))"
  by (induction ps arbitrary: s) (auto simp: option.map_comp comp_def split_def option.map_id0 map_option.identity map_prod_def split: option.splits)

lemma spec_write_items:
  "list_all item_ok items \<Longrightarrow> length (tape_image f (bs @ items)) < 2 ^ 32 \<Longrightarrow>
   spec_run f (map write_op items) (bs, [], p) = Some (map (\<lambda>_. (MTSE_OK, [], 0)) items, (bs @ items, [], if items = [] then p else False))"
proof (induction items arbitrary: bs p)
  case (Cons x items)
  have "tape_spec f (write_op x) (bs, [], p) = Some ((MTSE_OK, [], 0), (bs @ [x], [], False))"
    using Cons.prems by (cases x) auto
  moreover have "list_all item_ok items" "length (tape_image f ((bs @ [x]) @ items)) < 2 ^ 32" using Cons.prems by simp_all
  ultimately show ?case using Cons.IH [of "bs @ [x]" False] by simp
qed simp

lemma read_out_item: "item_ok (Rec e d) \<Longrightarrow> \<not> unat (0xFFFFFF :: u32) < length d"
  by simp

lemma spec_read_items:
  "list_all item_ok items \<Longrightarrow>
   spec_run f (replicate (length items) (Read_Forward 0xFFFFFF)) (bs, items, p) = Some (map item_out items, (bs @ items, [], if items = [] then p else False))"
proof (induction items arbitrary: bs p)
  case (Cons x items)
  have "tape_spec f (Read_Forward 0xFFFFFF) (bs, x # items, p) = Some (item_out x, (bs @ [x], items, False))"
    using Cons.prems read_out_item by (cases x) (auto simp: read_out_def)
  with Cons show ?case by simp
qed simp

lemma spec_read_back:
  "list_all item_ok items \<Longrightarrow>
   spec_run f (replicate (length items) (Read_Reverse 0xFFFFFF)) (items, as, p) = Some (rev (map item_out items), ([], items @ as, if items = [] then p else False))"
proof (induction items arbitrary: as p rule: rev_induct)
  case (snoc x items)
  have "tape_spec f (Read_Reverse 0xFFFFFF) (items @ [x], as, p) = Some (item_out x, (items, x # as, False))"
    using snoc.prems read_out_item by (cases x) (auto simp: spec_reverse_def read_out_def)
  with snoc show ?case by simp
qed simp

subsection \<open>Spacing over records and files, in either direction\<close>

fun is_rec :: "item \<Rightarrow> bool" where
  "is_rec (Rec e d) \<longleftrightarrow> True"
| "is_rec Mark \<longleftrightarrow> False"

definition lead :: "item list \<Rightarrow> nat" where "lead xs = length (takeWhile is_rec xs)"
definition marks :: "item list \<Rightarrow> nat" where "marks xs = length (filter (\<lambda>x. x = Mark) xs)"

lemma lead_simps [simp]: "lead [] = 0" "lead (Rec e d # xs) = Suc (lead xs)" "lead (Mark # xs) = 0"
  by (simp_all add: lead_def)

lemma marks_simps [simp]: "marks [] = 0" "marks (Rec e d # xs) = marks xs" "marks (Mark # xs) = Suc (marks xs)" "marks (xs @ ys) = marks xs + marks ys"
  "marks (rev xs) = marks xs"
  by (simp_all add: marks_def rev_filter [symmetric])

lemma marks_recs: "list_all is_rec xs \<Longrightarrow> marks xs = 0"
  by (auto simp: marks_def list_all_iff filter_empty_conv)

lemma lead_split:
  "marks xs = 0 \<and> list_all is_rec xs \<and> lead xs = length xs \<or> 0 < marks xs \<and> (\<exists>rs ys. xs = rs @ Mark # ys \<and> list_all is_rec rs \<and> lead xs = length rs)"
proof (induction xs)
  case (Cons x xs)
  show ?case
  proof (cases x)
    case (Rec e d)
    from Cons.IH show ?thesis
    proof (elim disjE conjE exE)
      fix rs ys assume "0 < marks xs" "xs = rs @ Mark # ys" "list_all is_rec rs" "lead xs = length rs"
      then show ?thesis using Rec by (intro disjI2 conjI exI [of _ "x # rs"] exI [of _ ys]) simp_all
    qed (use Rec in simp)
  next
    case Mark
    then show ?thesis by (intro disjI2 conjI exI [of _ "[]"] exI [of _ xs]) simp_all
  qed
qed simp

text \<open>An operation that moves over one item, seen in its direction: the items that it has passed, the nearest first, and those ahead.\<close>

locale spacing =
  fixes op :: "tape \<Rightarrow> tape_fault + t_stat \<times> u32 \<times> tape"
    and ops :: "nat \<Rightarrow> tape \<Rightarrow> tape_fault + t_stat \<times> nat \<times> tape"
    and place :: "tape \<Rightarrow> item list \<Rightarrow> item list \<Rightarrow> bool"
    and stop :: t_stat
  assumes over_rec: "place u bh (Rec e d # ah) \<Longrightarrow> \<exists>bc u'. op u = Inr (MTSE_OK, bc, u') \<and> place u' (Rec e d # bh) ah"
    and over_mark: "place u bh (Mark # ah) \<Longrightarrow> \<exists>bc u'. op u = Inr (MTSE_TMK, bc, u') \<and> place u' (Mark # bh) ah \<and> \<not> tp_pnu u'"
    and at_stop: "place u bh [] \<Longrightarrow> \<exists>bc u'. op u = Inr (stop, bc, u') \<and> place u' bh []"
    and stop: "stop \<noteq> MTSE_OK" "stop \<noteq> MTSE_TMK"
    and ops: "place u bh ah \<Longrightarrow> ops n u = space_records op n 0 u"
begin

lemma records_enough:
  "place u bh ah \<Longrightarrow> n \<le> lead ah \<Longrightarrow>
   \<exists>u'. space_records op n k u = Inr (MTSE_OK, k + n, u') \<and> place u' (rev (take n ah) @ bh) (drop n ah)"
proof (induction n arbitrary: u bh ah k)
  case (Suc n)
  then obtain e d xs where ah: "ah = Rec e d # xs" "n \<le> lead xs" by (cases ah rule: list.exhaust [case_product item.exhaust]) (auto simp: lead_def split: if_splits elim: is_rec.elims)
  with over_rec Suc.prems(1) obtain bc u1 where "op u = Inr (MTSE_OK, bc, u1)" "place u1 (Rec e d # bh) xs" by blast
  with Suc.IH [OF this(2) ah(2), of "Suc k"] ah(1) show ?case by auto
qed simp

lemma records_stop:
  "place u bh ah \<Longrightarrow> lead ah < n \<Longrightarrow>
   \<exists>u'. space_records op n k u = Inr (if lead ah = length ah then stop else MTSE_TMK, k + lead ah, u') \<and>
     place u' (rev (take (Suc (lead ah)) ah) @ bh) (drop (Suc (lead ah)) ah) \<and> (lead ah \<noteq> length ah \<longrightarrow> \<not> tp_pnu u')"
proof (induction ah arbitrary: u bh n k)
  case Nil
  from at_stop [OF Nil.prems(1)] stop(1) show ?case using Nil.prems(2) by (cases n) auto
next
  case (Cons x ah)
  then obtain m where n: "n = Suc m" by (cases n) simp_all
  show ?case
  proof (cases x)
    case (Rec e d)
    with over_rec Cons.prems(1) obtain bc u1 where "op u = Inr (MTSE_OK, bc, u1)" "place u1 (Rec e d # bh) ah" by blast
    with Cons.IH [OF this(2), of m "Suc k"] Cons.prems(2) Rec n show ?thesis by auto
  next
    case Mark
    with over_mark Cons.prems(1) obtain bc u1 where "op u = Inr (MTSE_TMK, bc, u1)" "place u1 (Mark # bh) ah" "\<not> tp_pnu u1" by blast
    with Mark n show ?thesis by auto
  qed
qed

text \<open>The batches end, with the records of the last one counted separately.\<close>

lemma file_stop:
  "place u bh ah \<Longrightarrow>
   \<exists>u'. space_file ops recs u = Some (Inr (if lead ah = length ah then stop else MTSE_TMK, lead ah mod 0x1ffffff, recs + of_nat (lead ah), u')) \<and>
     place u' (rev (take (Suc (lead ah)) ah) @ bh) (drop (Suc (lead ah)) ah) \<and> (lead ah \<noteq> length ah \<longrightarrow> \<not> tp_pnu u')"
proof (induction "length ah" arbitrary: u bh ah recs rule: less_induct)
  case less
  show ?case
  proof (cases "lead ah < 0x1ffffff")
    case True
    from records_stop [OF less.prems True, of 0] obtain u' where
      "space_records op 0x1ffffff 0 u = Inr (if lead ah = length ah then stop else MTSE_TMK, lead ah, u')"
      "place u' (rev (take (Suc (lead ah)) ah) @ bh) (drop (Suc (lead ah)) ah)" "lead ah \<noteq> length ah \<longrightarrow> \<not> tp_pnu u'" by auto
    then show ?thesis using stop(1) True by (subst space_file.simps) (simp add: ops [OF less.prems])
  next
    case False
    then have le: "0x1ffffff \<le> lead ah" by simp
    from records_enough [OF less.prems le, of 0] obtain u1 where
      u1: "space_records op 0x1ffffff 0 u = Inr (MTSE_OK, 0x1ffffff, u1)" "place u1 (rev (take 0x1ffffff ah) @ bh) (drop 0x1ffffff ah)" by auto
    have len: "lead ah \<le> length ah" by (simp add: lead_def length_takeWhile_le)
    then have "length (drop 0x1ffffff ah) < length ah" using le by simp
    from less.hyps [OF this u1(2), of "recs + of_nat 0x1ffffff"]
    obtain u' where u': "space_file ops (recs + of_nat 0x1ffffff) u1 = Some (Inr (if lead (drop 0x1ffffff ah) = length (drop 0x1ffffff ah) then stop else MTSE_TMK,
        lead (drop 0x1ffffff ah) mod 0x1ffffff, recs + of_nat 0x1ffffff + of_nat (lead (drop 0x1ffffff ah)), u'))"
      "place u' (rev (take (Suc (lead (drop 0x1ffffff ah))) (drop 0x1ffffff ah)) @ rev (take 0x1ffffff ah) @ bh) (drop (Suc (lead (drop 0x1ffffff ah))) (drop 0x1ffffff ah))"
      "lead (drop 0x1ffffff ah) \<noteq> length (drop 0x1ffffff ah) \<longrightarrow> \<not> tp_pnu u'" by blast
    have d: "lead (drop n ah) = lead ah - n" if "n \<le> lead ah" for n
      using that by (induction ah arbitrary: n) (auto simp: lead_def drop_Cons split: nat.splits if_splits)
    have "take (Suc (lead ah)) ah = take 0x1ffffff ah @ take (Suc (lead ah - 0x1ffffff)) (drop 0x1ffffff ah)"
      using le take_add [of "0x1ffffff" "Suc (lead ah - 0x1ffffff)" ah] by simp
    then have t: "rev (take (Suc (lead ah - 0x1ffffff)) (drop 0x1ffffff ah)) @ rev (take 0x1ffffff ah) @ bh = rev (take (Suc (lead ah)) ah) @ bh" by simp
    have "recs + of_nat 0x1ffffff + of_nat (lead ah - 0x1ffffff) = recs + (of_nat (lead ah) :: u32)"
      using le by (simp add: of_nat_diff)
    moreover have "(lead ah - 0x1ffffff) mod 0x1ffffff = lead ah mod 0x1ffffff" using le by (simp add: le_mod_geq)
    moreover have "lead ah - 0x1ffffff = length ah - 0x1ffffff \<longleftrightarrow> lead ah = length ah" using le len by linarith
    ultimately show ?thesis
      using u' t le by (subst space_file.simps) (simp add: ops [OF less.prems] u1(1) d [OF le] drop_drop del: of_nat_numeral)
  qed
qed

lemma file_mark:
  assumes "place u bh (rs @ Mark # ys)" "list_all is_rec rs"
  shows "\<exists>u'. space_file ops recs u = Some (Inr (MTSE_TMK, length rs mod 0x1ffffff, recs + of_nat (length rs), u')) \<and> place u' (rev (rs @ [Mark]) @ bh) ys \<and> \<not> tp_pnu u'"
proof -
  have "lead (rs @ Mark # ys) = length rs" using assms(2) by (simp add: lead_def list_all_iff takeWhile_append2)
  with file_stop [OF assms(1), of recs] show ?thesis by simp
qed

text \<open>Objects, marks included.\<close>

lemma objects_enough:
  "place u bh ah \<Longrightarrow> n \<le> length ah \<Longrightarrow> objs = k + n \<Longrightarrow>
   \<exists>u'. position_objects ops objs n k u = Some (Inr (MTSE_OK, objs, u')) \<and> place u' (rev (take n ah) @ bh) (drop n ah)"
proof (induction n arbitrary: u bh ah k rule: less_induct)
  case (less n)
  consider (none) "n = 0" | (recs) "0 < n" "n \<le> lead ah" | (mark) "lead ah < n" by linarith
  then show ?case
  proof cases
    case none
    then show ?thesis using less.prems by (subst position_objects.simps) simp
  next
    case recs
    from records_enough [OF less.prems(1) recs(2), of 0] obtain u1 where
      u1: "ops n u = Inr (MTSE_OK, n, u1)" "place u1 (rev (take n ah) @ bh) (drop n ah)" using ops [OF less.prems(1)] by auto
    have "position_objects ops objs 0 objs u1 = Some (Inr (MTSE_OK, objs, u1))" by (subst position_objects.simps) simp
    with u1 less.prems(3) recs(1) show ?thesis by (subst position_objects.simps) simp
  next
    case mark
    then have l: "lead ah \<noteq> length ah" using less.prems(2) by simp
    from records_stop [OF less.prems(1) mark, of 0] obtain u1 where
      u1: "ops n u = Inr (MTSE_TMK, lead ah, u1)" "place u1 (rev (take (Suc (lead ah)) ah) @ bh) (drop (Suc (lead ah)) ah)"
      using ops [OF less.prems(1)] l by auto
    have "n - Suc (lead ah) < n" "n - Suc (lead ah) \<le> length (drop (Suc (lead ah)) ah)" "objs = k + Suc (lead ah) + (n - Suc (lead ah))"
      using mark less.prems by simp_all
    from less.IH [OF this(1) u1(2) this(2,3)] obtain u' where u': "position_objects ops objs (n - Suc (lead ah)) (k + Suc (lead ah)) u1 = Some (Inr (MTSE_OK, objs, u'))"
      "place u' (rev (take (n - Suc (lead ah)) (drop (Suc (lead ah)) ah)) @ rev (take (Suc (lead ah)) ah) @ bh) (drop (n - Suc (lead ah)) (drop (Suc (lead ah)) ah))"
      by blast
    have "take n ah = take (Suc (lead ah)) ah @ take (n - Suc (lead ah)) (drop (Suc (lead ah)) ah)"
      using mark take_add [of "Suc (lead ah)" "n - Suc (lead ah)" ah] by simp
    then show ?thesis using u' u1(1) mark less.prems(3) by (subst position_objects.simps) simp
  qed
qed

text \<open>Files: up to and over the wanted number of marks, or to the stop.\<close>

lemma files_enough:
  "place u bh ah \<Longrightarrow> n \<le> marks ah \<Longrightarrow>
   \<exists>u' xs ys. space_files ops n sk recs u = Some (Inr (MTSE_OK, sk + n, recs + of_nat (length xs - n), u')) \<and> ah = xs @ ys \<and> marks xs = n \<and>
     (xs = [] \<or> last xs = Mark) \<and> place u' (rev xs @ bh) ys"
proof (induction n arbitrary: u bh ah sk recs)
  case (Suc n)
  then obtain rs ys where ah: "ah = rs @ Mark # ys" "list_all is_rec rs" using lead_split [of ah] by auto
  from file_mark [OF Suc.prems(1) [unfolded ah(1)] ah(2), of recs] obtain u1 where
    u1: "space_file ops recs u = Some (Inr (MTSE_TMK, length rs mod 0x1ffffff, recs + of_nat (length rs), u1))" "place u1 (rev (rs @ [Mark]) @ bh) ys" by blast
  have "n \<le> marks ys" using Suc.prems(2) ah by (simp add: marks_recs)
  from Suc.IH [OF u1(2) this, of "sk + 1" "recs + of_nat (length rs)"] obtain u' xs zs where
    u': "space_files ops n (sk + 1) (recs + of_nat (length rs)) u1 = Some (Inr (MTSE_OK, sk + 1 + n, recs + of_nat (length rs) + of_nat (length xs - n), u'))"
      "ys = xs @ zs" "marks xs = n" "xs = [] \<or> last xs = Mark" "place u' (rev xs @ rev (rs @ [Mark]) @ bh) zs" by blast
  have "n \<le> length xs" using u'(3) by (auto simp: marks_def)
  then have "length ((rs @ [Mark]) @ xs) - Suc n = length rs + (length xs - n)" by simp
  moreover have "marks ((rs @ [Mark]) @ xs) = Suc n" using ah(2) u'(3) by (simp add: marks_recs)
  moreover have "last ((rs @ [Mark]) @ xs) = Mark" using u'(4) by auto
  ultimately show ?case using u1(1) u' ah(1)
    by (intro exI [of _ u'] exI [of _ "(rs @ [Mark]) @ xs"] exI [of _ zs]) (simp add: add.assoc)
next
  case 0
  then show ?case by (intro exI [of _ u] exI [of _ "[]"] exI [of _ ah]) simp
qed

lemma files_stop:
  "place u bh ah \<Longrightarrow> marks ah < n \<Longrightarrow>
   \<exists>u'. space_files ops n sk recs u = Some (Inr (stop, sk + marks ah, recs + of_nat (length ah - marks ah), u')) \<and> place u' (rev ah @ bh) []"
proof (induction n arbitrary: u bh ah sk recs)
  case (Suc n)
  show ?case
  proof (cases "marks ah = 0")
    case True
    then have r: "list_all is_rec ah" "lead ah = length ah" using lead_split [of ah] by auto
    from file_stop [OF Suc.prems(1), of recs] stop(2) r(2) True show ?thesis by auto
  next
    case False
    then obtain rs ys where ah: "ah = rs @ Mark # ys" "list_all is_rec rs" using lead_split [of ah] by auto
    from file_mark [OF Suc.prems(1) [unfolded ah(1)] ah(2), of recs] obtain u1 where
      u1: "space_file ops recs u = Some (Inr (MTSE_TMK, length rs mod 0x1ffffff, recs + of_nat (length rs), u1))" "place u1 (rev (rs @ [Mark]) @ bh) ys" by blast
    have "marks ys < n" using Suc.prems(2) ah by (simp add: marks_recs)
    from Suc.IH [OF u1(2) this, of "sk + 1" "recs + of_nat (length rs)"] obtain u' where
      u': "space_files ops n (sk + 1) (recs + of_nat (length rs)) u1 = Some (Inr (stop, sk + 1 + marks ys, recs + of_nat (length rs) + of_nat (length ys - marks ys), u'))"
      "place u' (rev ys @ rev (rs @ [Mark]) @ bh) []" by blast
    have "marks ys \<le> length ys" by (simp add: marks_def)
    then have "length ah - marks ah = length rs + (length ys - marks ys)" using ah by (simp add: marks_recs)
    then show ?thesis using u1(1) u' ah(1,2) by (simp add: marks_recs add.assoc)
  qed
qed simp

end

lemma rdrl_att:
  assumes "tape_rel u bs as"
  shows "tp_ctx u" "sim_tape_rdrlfwd u = sim_tape_rdlntf u" "sim_tape_rdrlrev u = sim_tape_rdlntr u"
  using tape_relD(10) [OF assms] by (simp_all add: sim_tape_rdrlfwd_def sim_tape_rdrlrev_def)

interpretation forward: spacing sim_tape_sprecf sim_tape_sprecsf "\<lambda>u bh ah. tape_rel u (rev bh) ah" MTSE_EOM
proof
  show "\<exists>bc u'. sim_tape_sprecf u = Inr (MTSE_OK, bc, u') \<and> tape_rel u' (rev (Rec e d # bh)) ah" if "tape_rel u (rev bh) (Rec e d # ah)" for u bh e d ah
    using rdlntf_rec(1) [OF that] move_tape_rel(1) [OF that, of "rev bh @ [Rec e d]" ah False] rdrl_att [OF that] by (simp add: sim_tape_sprecf_def)
  show "\<exists>bc u'. sim_tape_sprecf u = Inr (MTSE_TMK, bc, u') \<and> tape_rel u' (rev (Mark # bh)) ah \<and> \<not> tp_pnu u'" if "tape_rel u (rev bh) (Mark # ah)" for u bh ah
    using rdlntf_mark [OF that] move_tape_rel [OF that, of "rev bh @ [Mark]" ah False] rdrl_att [OF that] by (auto simp: sim_tape_sprecf_def)
  show "\<exists>bc u'. sim_tape_sprecf u = Inr (MTSE_EOM, bc, u') \<and> tape_rel u' (rev bh) []" if "tape_rel u (rev bh) []" for u bh
    using rdlntf_end [OF that] rdrl_att [OF that] by (auto simp: sim_tape_sprecf_def)
  show "sim_tape_sprecsf n u = space_records sim_tape_sprecf n 0 u" if "tape_rel u (rev bh) ah" for u bh ah n
    using rdrl_att [OF that] by (simp add: sim_tape_sprecsf_def)
qed simp_all

interpretation reverse: spacing sim_tape_sprecr sim_tape_sprecsr "\<lambda>u bh ah. tape_rel u (rev ah) bh \<and> \<not> tp_pnu u" MTSE_BOT
proof
  show "\<exists>bc u'. sim_tape_sprecr u = Inr (MTSE_OK, bc, u') \<and> tape_rel u' (rev ah) (Rec e d # bh) \<and> \<not> tp_pnu u'"
    if a: "tape_rel u (rev (Rec e d # ah)) bh \<and> \<not> tp_pnu u" for u bh e d ah
  proof -
    from a have r: "tape_rel u (rev ah @ [Rec e d]) bh" by simp
    show ?thesis using a rdlntr_rec(1) [OF r] move_tape_rel [OF r, of "rev ah" "Rec e d # bh" False] rdrl_att [OF r] by (simp add: sim_tape_sprecr_def)
  qed
  show "\<exists>bc u'. sim_tape_sprecr u = Inr (MTSE_TMK, bc, u') \<and> (tape_rel u' (rev ah) (Mark # bh) \<and> \<not> tp_pnu u') \<and> \<not> tp_pnu u'"
    if a: "tape_rel u (rev (Mark # ah)) bh \<and> \<not> tp_pnu u" for u bh ah
  proof -
    from a have r: "tape_rel u (rev ah @ [Mark]) bh" by simp
    show ?thesis using a rdlntr_mark [OF r] move_tape_rel [OF r, of "rev ah" "Mark # bh" False] rdrl_att [OF r] by (auto simp: sim_tape_sprecr_def)
  qed
  show "\<exists>bc u'. sim_tape_sprecr u = Inr (MTSE_BOT, bc, u') \<and> tape_rel u' (rev []) bh \<and> \<not> tp_pnu u'"
    if a: "tape_rel u (rev []) bh \<and> \<not> tp_pnu u" for u bh
  proof -
    from a have r: "tape_rel u [] bh" by simp
    show ?thesis using a rdlntr_start [OF r] move_tape_rel [OF r, of "[]" bh False] rdrl_att [OF r] by (simp add: sim_tape_sprecr_def)
  qed
  show "sim_tape_sprecsr n u = space_records sim_tape_sprecr n 0 u" if "tape_rel u (rev ah) bh \<and> \<not> tp_pnu u" for u bh ah n
    using that rdrl_att [of u "rev ah" bh] by (simp add: sim_tape_sprecsr_def)
qed simp_all

subsection \<open>Files\<close>

lemma files_forward_plain: "files_forward False n lt sk recs u = space_files sim_tape_sprecsf n sk recs u"
  by (induction n arbitrary: lt sk recs u) (simp_all split: option.splits sum.splits)

lemma spfilef_rel:
  assumes "tape_rel u bs as"
  shows "n \<le> marks as \<Longrightarrow> \<exists>u' xs ys. sim_tape_spfilef n u = Some (Inr (MTSE_OK, n, u')) \<and> as = xs @ ys \<and> marks xs = n \<and>
      (xs = [] \<or> last xs = Mark) \<and> tape_rel u' (bs @ xs) ys"
    "marks as < n \<Longrightarrow> \<exists>u'. sim_tape_spfilef n u = Some (Inr (MTSE_EOM, marks as, u')) \<and> tape_rel u' (bs @ as) []"
proof -
  have e: "sim_tape_spfilef n u = map_option (map_sum id (\<lambda>(st, skipped, recs, u1). (st, skipped, u1))) (space_files sim_tape_sprecsf n 0 0 u)"
    using rdrl_att [OF assms] by (simp add: sim_tape_spfilef_def sim_tape_spfilebyrecf_def files_forward_plain)
  have p: "tape_rel u (rev (rev bs)) as" using assms by simp
  show "n \<le> marks as \<Longrightarrow> \<exists>u' xs ys. sim_tape_spfilef n u = Some (Inr (MTSE_OK, n, u')) \<and> as = xs @ ys \<and> marks xs = n \<and>
      (xs = [] \<or> last xs = Mark) \<and> tape_rel u' (bs @ xs) ys"
    using forward.files_enough [OF p, of n 0 0] unfolding e by fastforce
  show "marks as < n \<Longrightarrow> \<exists>u'. sim_tape_spfilef n u = Some (Inr (MTSE_EOM, marks as, u')) \<and> tape_rel u' (bs @ as) []"
    using forward.files_stop [OF p, of n 0 0] unfolding e by fastforce
qed

lemma spfiler_rel:
  assumes "tape_rel u bs as" "\<not> tp_pnu u"
  shows "n \<le> marks bs \<Longrightarrow> \<exists>u' xs ys. sim_tape_spfiler n u = Some (Inr (MTSE_OK, n, u')) \<and> bs = ys @ xs \<and> marks xs = n \<and>
      (xs = [] \<or> hd xs = Mark) \<and> tape_rel u' ys (xs @ as)"
    "marks bs < n \<Longrightarrow> \<exists>u'. sim_tape_spfiler n u = Some (Inr (MTSE_BOT, marks bs, u')) \<and> tape_rel u' [] (bs @ as)"
proof -
  have e: "sim_tape_spfiler n u = map_option (map_sum id (\<lambda>(st, skipped, recs, u1). (st, skipped, u1))) (space_files sim_tape_sprecsr n 0 0 u)"
    using rdrl_att [OF assms(1)] by (simp add: sim_tape_spfiler_def sim_tape_spfilebyrecr_def)
  have p: "tape_rel u (rev (rev bs)) as \<and> \<not> tp_pnu u" using assms by simp
  show "\<exists>u' xs ys. sim_tape_spfiler n u = Some (Inr (MTSE_OK, n, u')) \<and> bs = ys @ xs \<and> marks xs = n \<and> (xs = [] \<or> hd xs = Mark) \<and> tape_rel u' ys (xs @ as)"
    if n: "n \<le> marks bs"
  proof -
    from reverse.files_enough [OF p, of n 0 0] n obtain u' xs ys where
      r: "space_files sim_tape_sprecsr n 0 0 u = Some (Inr (MTSE_OK, n, of_nat (length xs - n), u'))" "rev bs = xs @ ys" "marks xs = n"
        "xs = [] \<or> last xs = Mark" "tape_rel u' (rev ys) (rev xs @ as)" by auto
    have "bs = rev ys @ rev xs" using r(2) by (metis rev_append rev_rev_ident)
    with r show ?thesis unfolding e by (intro exI [of _ u'] exI [of _ "rev xs"] exI [of _ "rev ys"]) (auto simp: hd_rev)
  qed
  show "marks bs < n \<Longrightarrow> \<exists>u'. sim_tape_spfiler n u = Some (Inr (MTSE_BOT, marks bs, u')) \<and> tape_rel u' [] (bs @ as)"
    using reverse.files_stop [OF p, of n 0 0] unfolding e by fastforce
qed

subsection \<open>The logical end of the tape\<close>

text \<open>No two marks in a row; the flag says that a mark comes before.\<close>

fun no_pair :: "bool \<Rightarrow> item list \<Rightarrow> bool" where
  "no_pair lt [] \<longleftrightarrow> True"
| "no_pair lt (Mark # xs) \<longleftrightarrow> \<not> lt \<and> no_pair True xs"
| "no_pair lt (Rec e d # xs) \<longleftrightarrow> no_pair False xs"

lemma no_pair_recs: "list_all is_rec rs \<Longrightarrow> no_pair lt (rs @ Mark # xs) \<Longrightarrow> \<not> (rs = [] \<and> lt) \<and> no_pair True xs"
  by (induction rs arbitrary: lt) (auto elim: is_rec.elims)

lemma back_over_mark:
  assumes "tape_rel u (bs @ [Mark]) as" "\<not> tp_pnu u"
  shows "\<exists>recs u'. sim_tape_spfilebyrecr 1 u = Some (Inr (MTSE_OK, 1, recs, u')) \<and> tape_rel u' bs (Mark # as)"
proof -
  have "tape_rel u (rev ([] @ Mark # rev bs)) as \<and> \<not> tp_pnu u" using assms by simp
  from reverse.file_mark [OF this, of 0] show ?thesis
    using rdrl_att [OF assms(1)] by (auto simp: sim_tape_spfilebyrecr_def One_nat_def)
qed

lemma files_forward_leot:
  "tape_rel u bs (xs @ Mark # Mark # ys) \<Longrightarrow> no_pair lt (xs @ [Mark]) \<Longrightarrow> length xs < 0x1ffffff \<Longrightarrow> marks xs + 1 < n \<Longrightarrow>
   \<exists>recs' u'. files_forward True n lt sk recs u = Some (Inr (MTSE_LEOT, sk + marks xs + 1, recs', u')) \<and> tape_rel u' (bs @ xs @ [Mark]) (Mark # ys)"
proof (induction "length xs" arbitrary: u bs xs lt n sk recs rule: less_induct)
  case less
  then obtain m where n: "n = Suc m" "marks xs < m" by (cases n) simp_all
  have first: "\<exists>k recs1 u1. files_forward True n lt sk recs u = files_forward True m True (Suc sk) recs1 u1 \<and> tape_rel u1 (bs @ rs @ [Mark]) zs"
    if r: "list_all is_rec rs" "length rs < 0x1ffffff" "no_pair lt (rs @ Mark # ws)" "xs @ Mark # Mark # ys = rs @ Mark # zs" for rs ws zs
  proof -
    have p: "tape_rel u (rev (rev bs)) (rs @ Mark # zs)" using less.prems(1) r(4) by simp
    from forward.file_mark [OF this r(1), of recs] obtain u1 where
      u1: "space_file sim_tape_sprecsf recs u = Some (Inr (MTSE_TMK, length rs mod 0x1ffffff, recs + of_nat (length rs), u1))" "tape_rel u1 (bs @ rs @ [Mark]) zs" by auto
    have "\<not> (length rs mod 0x1ffffff = 0 \<and> lt)" using no_pair_recs [OF r(1,3)] r(2) by auto
    with u1 n(1) show ?thesis by auto
  qed
  show ?case
  proof (cases "marks xs = 0")
    case True
    then have r: "list_all is_rec xs" using lead_split [of xs] by auto
    from first [OF r, of "[]" "Mark # ys"] less.prems obtain recs1 u1 where
      u1: "files_forward True n lt sk recs u = files_forward True m True (Suc sk) recs1 u1" "tape_rel u1 (bs @ xs @ [Mark]) (Mark # ys)" by auto
    have p: "tape_rel u1 (rev (rev (bs @ xs @ [Mark]))) ([] @ Mark # ys)" using u1(2) by simp
    from forward.file_mark [OF p, of recs1] obtain u2 where
      u2: "space_file sim_tape_sprecsf recs1 u1 = Some (Inr (MTSE_TMK, 0, recs1, u2))" "tape_rel u2 ((bs @ xs @ [Mark]) @ [Mark]) ys" "\<not> tp_pnu u2" by auto
    from back_over_mark [OF u2(2,3)] obtain recs3 u3 where u3: "sim_tape_spfilebyrecr 1 u2 = Some (Inr (MTSE_OK, 1, recs3, u3))" "tape_rel u3 (bs @ xs @ [Mark]) (Mark # ys)" by blast
    obtain l where "m = Suc l" using n(2) by (cases m) simp_all
    then show ?thesis using u1(1) u2(1) u3 True by simp
  next
    case False
    then obtain rs zs where xs: "xs = rs @ Mark # zs" "list_all is_rec rs" using lead_split [of xs] by auto
    from first [OF xs(2), of "zs @ [Mark]" "zs @ Mark # Mark # ys"] less.prems xs(1) obtain recs1 u1 where
      u1: "files_forward True n lt sk recs u = files_forward True m True (Suc sk) recs1 u1" "tape_rel u1 (bs @ rs @ [Mark]) (zs @ Mark # Mark # ys)" by auto
    have pr: "no_pair True (zs @ [Mark])" using no_pair_recs [OF xs(2), of lt "zs @ [Mark]"] less.prems(2) xs(1) by simp
    have "length zs < length xs" "length zs < 0x1ffffff" "marks zs + 1 < m" using less.prems(3) n xs by (simp_all add: marks_recs)
    from less.hyps [OF this(1) u1(2) pr this(2,3), of "Suc sk" recs1] u1(1) xs show ?thesis by (auto simp: marks_recs)
  qed
qed

text \<open>The look at the item before leaves the tape where it was.\<close>

lemma spfilebyrecf_check:
  assumes "tape_rel u bs as"
  shows "\<exists>u'. sim_tape_spfilebyrecf n True u = files_forward True n (bs \<noteq> [] \<and> last bs = Mark) 0 0 u' \<and> tape_rel u' bs as"
proof (cases bs rule: rev_cases)
  case Nil
  then show ?thesis using rdlntr_start [of u as] move_tape_rel(1) [of u "[]" as "[]" as False] assms rdrl_att [OF assms]
    by (intro exI [of _ "move_tape u [] False"]) (simp add: sim_tape_spfilebyrecf_def)
next
  case (snoc bs' x)
  define v where "v = move_tape u bs' False"
  have v: "tape_rel v bs' (x # as)" unfolding v_def by (rule move_tape_rel(1) [OF assms]) (simp add: snoc)
  have bk: "\<exists>rbc dpos. sim_tape_rdlntr u = Inr (if x = Mark then MTSE_TMK else MTSE_OK, rbc, dpos, v)"
    using rdlntr_mark [of u bs' as] rdlntr_rec(1) [of u bs' _ _ as] assms snoc by (cases x) (auto simp: v_def)
  have "\<exists>st rbc dpos w. sim_tape_rdlntf v = Inr (st, rbc, dpos, w) \<and> tape_rel w bs as"
    using rdlntf_mark [of v bs' as] rdlntf_rec(1) [of v bs' _ _ as] v move_tape_rel(1) [OF v, of bs as False] snoc by (cases x) auto
  with bk show ?thesis using rdrl_att [OF assms] rdrl_att [OF v] snoc by (auto simp: sim_tape_spfilebyrecf_def)
qed

subsection \<open>A record whose two lengths differ\<close>

lemma uint_rec_marker:
  assumes "n < 2 ^ 25"
  shows "uint (rec_marker e n) = int n + (if e then 2 ^ 31 else 0)"
proof (cases e)
  case True
  have "(of_nat n :: u32) + 0x80000000 = of_nat n OR 0x80000000"
    by (rule disjunctive_add, unfold bit_top(1)) (use bit_small [OF assms] in fastforce)
  moreover have "(of_nat n :: u32) + 0x80000000 = of_nat (n + 2 ^ 31)" by simp
  ultimately have "rec_marker e n = of_nat (n + 2 ^ 31)" using True by (simp only: rec_marker_def if_True)
  moreover have "uint (of_nat (n + 2 ^ 31) :: u32) = int (n + 2 ^ 31)" using assms by (simp only: uint_nat unat_of_nat) simp
  ultimately show ?thesis using True by simp
next
  case False
  have "uint (of_nat n :: u32) = int n" using assms by (simp only: uint_nat unat_of_nat) simp
  then show ?thesis using False by (simp add: rec_marker_def)
qed

lemma wrap_pos_far:
  assumes "p \<le> 1"
  shows "wrap_pos (int a + int p - 2 ^ 31) \<noteq> a"
proof
  assume "wrap_pos (int a + int p - 2 ^ 31) = a"
  then have "(int a + int p - 2 ^ 31) mod 2 ^ 32 = int a" by (auto simp: wrap_pos_def)
  then have "(int a + int p - 2 ^ 31) mod 2 ^ 32 = int a mod 2 ^ 32" by (metis mod_mod_trivial)
  then have "(2 :: int) ^ 32 dvd int p - 2 ^ 31" by (simp only: mod_eq_dvd_iff) simp
  moreover have "p = 0 \<or> p = 1" using assms by auto
  ultimately show False by (elim disjE) simp_all
qed

lemma bad_trailer:
  assumes u: "tp_att u" "tp_ctx u" "tape_eom u = 0" "tp_dens u < length bpi" "length (tp_file u) < 2 ^ 32"
    and img: "tp_file u = pre @ le32 (rec_marker e n) @ body @ le32 w @ post" "tp_pos u = length pre" "length body = stored_len (tp_fmt u) (of_nat n)"
    and n: "0 < n" "n < 2 ^ 24" and w: "w \<noteq> rec_marker e n"
  shows "\<exists>u'. sim_tape_rdrecf u m = Inr (MTSE_INVRL, 0, [], u') \<and> tp_pnu u' \<and>
    tp_pos u' = wrap_pos (int (tp_pos u) + int (stored_len (tp_fmt u) (of_nat n)) - int n - (if e then 2 ^ 31 else 0))"
proof -
  let ?f = "tp_fmt u" and ?w = "rec_marker e n"
  have n': "n < 2 ^ 25" using n by simp
  note plain = rec_marker_plain [OF n' n(1), of e]
  define q where "q = tp_pos u + 8 + stored_len ?f (of_nat n)"
  have m1: "marker_at (tp_file u) (tp_pos u) = Some ?w" unfolding img(1) by (rule marker_at_le32) (simp add: img(2))
  have r: "0 < runaway_limit (tp_dens u)" by (rule runaway_limit_pos [OF u(4)])
  have q: "q = length (pre @ le32 ?w @ body) + 4" "q < 2 ^ 32" using u(5) by (simp_all add: q_def img)
  have wq: "wrap_pos (int (tp_pos u + 8 + stored_len ?f (MTR_L ?w))) = q"
    unfolding rec_marker_parts(1) [OF n'] q_def [symmetric] by (rule wrap_pos_nat [OF q(2)])
  have "wrap_pos (int q - 4) = length (pre @ le32 ?w @ body)" using q by (subst wrap_pos_small) simp_all
  moreover have "tp_file u = (pre @ le32 ?w @ body) @ le32 w @ post" by (simp add: img(1))
  ultimately have m2: "marker_at (tp_file u) (wrap_pos (int q - 4)) = Some w" by (simp only: marker_at_le32)
  note loop = fwd_first(2) [OF m1 r plain(1,2,3,4), where f = ?f and gap = "sizeof_gap (tp_dens u)", unfolded wq]
  have "sim_tape_rdlntf u = Inr (MTSE_INVRL, ?w, tp_pos u + 4, u\<lparr>tp_pos := wrap_pos (int q - (8 + uint ?w)), tp_pnu := True\<rparr>)"
    using u(1,3) r m2 w by (simp add: sim_tape_rdlntf_def loop Let_def loop_end_def)
  moreover have "int q - (8 + uint ?w) = int (tp_pos u) + int (stored_len ?f (of_nat n)) - int n - (if e then 2 ^ 31 else 0)"
    by (simp add: uint_rec_marker [OF n'] q_def)
  ultimately show ?thesis using u(2) by (simp add: sim_tape_rdrecf_def sim_tape_rdrlfwd_def)
qed

lemma position_absolute:
  assumes "tape_rel u bs as" "n \<le> length (bs @ as)"
  shows "\<exists>u'. sim_tape_position (MTPOS_M_REW OR MTPOS_M_OBJ) n files u = Some (Inr (MTSE_OK, 0, 0, of_nat n, u')) \<and>
    tape_rel u' (take n (bs @ as)) (drop n (bs @ as))"
proof -
  have p: "tape_rel (u\<lparr>tp_pos := 0, tp_pnu := False\<rparr>) (rev []) (bs @ as)" using assms(1) by (auto simp: tape_rel_def)
  from forward.objects_enough [OF p assms(2), of n 0] show ?thesis
    using rdrl_att(1) [OF assms(1)] by (auto simp: sim_tape_position_def sim_tape_rewind_def Let_def)
qed

subsection \<open>Properties\<close>

text \<open>A blank tape, one with a damaged record and one with two files.\<close>

definition blank_tape :: "tape_fmt \<Rightarrow> tape" where
  "blank_tape f = \<lparr>tp_file = [], tp_pos = 0, tape_eom = 0, tp_pnu = False, tp_att = True, tp_ctx = True, tp_wrp = False, tp_dens = 0, tp_fmt = f\<rparr>"

definition damaged_tape :: tape where
  "damaged_tape = (blank_tape MTUF_F_STD)\<lparr>tp_file := [3, 0, 0, 0, 65, 66, 67, 0, 4, 0, 0, 0]\<rparr>"

definition sample_tape :: tape where
  "sample_tape = (blank_tape MTUF_F_E11)\<lparr>tp_file := tape_image MTUF_F_E11 [Rec False [5], Mark, Mark, Rec True [6]]\<rparr>"

lemma blank_rel: "tape_rel (blank_tape f) [] []"
  by (simp add: tape_rel_def blank_tape_def bpi_def)

lemma sample_rel: "tape_rel sample_tape [] [Rec False [5], Mark, Mark, Rec True [6]]"
  by (simp add: tape_rel_def sample_tape_def blank_tape_def bpi_def stored_len_def)

text \<open>
  C16. The tape operations implement a tape of records and marks with a head between two of them.  If the
  image of a unit holds the given items with the head between \<open>bs\<close> and \<open>as\<close>, then every sequence of
  forward and reverse reads with a maximum length, spacings, writes behind the last item and rewinds
  that the contract allows runs without a fault, gives the status, data and length of the contract at
  every step, and leaves an image that holds exactly the items of the contract with the head where it
  says, and the position-not-updated flag as it says, which makes a following reverse spacing stay.
\<close>

theorem tape_operations_are_items:
  assumes "tape_rel u bs as"
    and "spec_run (tp_fmt u) ops (bs, as, tp_pnu u) = Some (outs, (bs', as', p))"
  shows "\<exists>u'. tape_run ops u = Inr (outs, u') \<and> tape_rel u' bs' as' \<and> tp_pnu u' = p"
proof -
  have "tape_sim (tp_fmt u) u (bs, as, tp_pnu u)" using assms(1) by (simp add: tape_sim_def)
  from tape_run_sim [OF this assms(2)] show ?thesis by (auto simp: tape_sim_def)
qed

theorem tape_operations_are_items_witness:
  "\<exists>u'. tape_run [Write_Record True [1, 2, 3], Write_Mark, Rewind_Tape, Read_Forward 2, Space_Reverse, Read_Forward 3, Space_Forward, Read_Forward 9, Space_Reverse, Read_Reverse 9]
      (blank_tape MTUF_F_STD) =
    Inr ([(MTSE_OK, [], 0), (MTSE_OK, [], 0), (MTSE_OK, [], 0), (MTSE_INVRL, [], 3), (MTSE_OK, [], 0), (MTSE_RECE, [1, 2, 3], 3), (MTSE_TMK, [], 0), (MTSE_EOM, [], 0), (MTSE_OK, [], 0), (MTSE_TMK, [], 0)], u') \<and>
    tape_rel u' [Rec True [1, 2, 3]] [Mark] \<and> tp_pnu u' = False"
proof -
  have "spec_run (tp_fmt (blank_tape MTUF_F_STD))
      [Write_Record True [1, 2, 3], Write_Mark, Rewind_Tape, Read_Forward 2, Space_Reverse, Read_Forward 3, Space_Forward, Read_Forward 9, Space_Reverse, Read_Reverse 9]
      ([], [], tp_pnu (blank_tape MTUF_F_STD)) =
    Some ([(MTSE_OK, [], 0), (MTSE_OK, [], 0), (MTSE_OK, [], 0), (MTSE_INVRL, [], 3), (MTSE_OK, [], 0), (MTSE_RECE, [1, 2, 3], 3), (MTSE_TMK, [], 0), (MTSE_EOM, [], 0), (MTSE_OK, [], 0), (MTSE_TMK, [], 0)],
      ([Rec True [1, 2, 3]], [Mark], False))"
    by (simp add: blank_tape_def read_out_def spec_reverse_def Let_def stored_len_def)
  from tape_operations_are_items [OF blank_rel this] show ?thesis .
qed

text \<open>
  C27. What is written is read, in both directions: any list of records, with or without the error flag,
  of one to 2^24 - 1 bytes and tape marks written to a blank tape, a rewind, as many forward reads as
  there are items and then as many reverse reads give every item with its data and its status, first in
  their order and then in reverse order, as long as the image stays below 4 GB.
\<close>

theorem tape_round_trip:
  assumes "list_all item_ok items" "length (tape_image f items) < 2 ^ 32"
  shows "\<exists>u'. tape_run (map write_op items @ Rewind_Tape # replicate (length items) (Read_Forward 0xFFFFFF) @ replicate (length items) (Read_Reverse 0xFFFFFF)) (blank_tape f) =
    Inr (map (\<lambda>_. (MTSE_OK, [], 0)) items @ (MTSE_OK, [], 0) # map item_out items @ rev (map item_out items), u')"
proof -
  have sim: "tape_sim f (blank_tape f) ([], [], False)" using blank_rel by (simp add: tape_sim_def blank_tape_def)
  have "spec_run f (map write_op items) ([], [], False) = Some (map (\<lambda>_. (MTSE_OK, [], 0)) items, (items, [], False))"
    using spec_write_items [OF assms(1), of f "[]" False] assms(2) by simp
  moreover have "spec_run f (replicate (length items) (Read_Forward 0xFFFFFF)) ([], items, False) = Some (map item_out items, (items, [], False))"
    using spec_read_items [OF assms(1), of f "[]" False] by simp
  moreover have "spec_run f (replicate (length items) (Read_Reverse 0xFFFFFF)) (items, [], False) = Some (rev (map item_out items), ([], items, False))"
    using spec_read_back [OF assms(1), of f "[]" False] by simp
  ultimately have "spec_run f (map write_op items @ Rewind_Tape # replicate (length items) (Read_Forward 0xFFFFFF) @ replicate (length items) (Read_Reverse 0xFFFFFF)) ([], [], False) =
      Some (map (\<lambda>_. (MTSE_OK, [], 0)) items @ (MTSE_OK, [], 0) # map item_out items @ rev (map item_out items), ([], items, False))"
    by (simp add: spec_run_append)
  from tape_run_sim [OF sim this] show ?thesis by blast
qed

theorem tape_round_trip_witness:
  "\<exists>u'. tape_run (map write_op [Rec False [7, 8, 9], Mark] @ Rewind_Tape # replicate 2 (Read_Forward 0xFFFFFF) @ replicate 2 (Read_Reverse 0xFFFFFF)) (blank_tape MTUF_F_STD) =
    Inr ([(MTSE_OK, [], 0), (MTSE_OK, [], 0), (MTSE_OK, [], 0), (MTSE_OK, [7, 8, 9], 3), (MTSE_TMK, [], 0), (MTSE_TMK, [], 0), (MTSE_OK, [7, 8, 9], 3)], u')"
proof -
  have "list_all item_ok [Rec False [7, 8, 9], Mark]" "length (tape_image MTUF_F_STD [Rec False [7, 8, 9], Mark]) < 2 ^ 32" by (simp_all add: stored_len_def)
  from tape_round_trip [OF this] show ?thesis by (simp add: numeral_2_eq_2 numeral_3_eq_3 del: tape_run.simps)
qed

text \<open>
  C22. The buffer of 256 markers that is read ahead while an erase gap is skipped makes no difference: on
  any file, from any position and with any density, skipping forward to the next record ends with the
  same status, position, data position and flags, and for a record with the same length, as when every
  marker is read from the file at its own position, and it always ends.
\<close>

theorem tape_buffer_transparent:
  "erase_count (fwd_loop f file gap pos [] True False runaway) = erase_count (ref_loop f file gap pos True runaway)"
  by (rule fwd_loop_ref) (simp add: buffer_ok_def fread_markers_def)

text \<open>
  C39. A record whose trailing length differs from its leading one is refused as invalid, with the
  position-not-updated flag set.  The position is nevertheless left as it was only for a record without
  the error flag whose data need no pad byte: after an odd number of bytes in the SIMH format the tape
  stands one byte further on, and the error flag moves it by 2^31.
\<close>

theorem tape_length_mismatch:
  assumes "tp_att u" "tp_ctx u" "tape_eom u = 0" "tp_dens u < length bpi" "length (tp_file u) < 2 ^ 32"
    and "tp_file u = pre @ le32 (rec_marker e n) @ body @ le32 w @ post" "tp_pos u = length pre" "length body = stored_len (tp_fmt u) (of_nat n)"
    and n: "0 < n" "n < 2 ^ 24" and "w \<noteq> rec_marker e n"
  shows "\<exists>u'. sim_tape_rdrecf u m = Inr (MTSE_INVRL, 0, [], u') \<and> tp_pnu u' \<and>
    (\<not> e \<longrightarrow> tp_pos u' = tp_pos u + (if tp_fmt u = MTUF_F_STD then n mod 2 else 0)) \<and> (e \<longrightarrow> tp_pos u' \<noteq> tp_pos u)"
proof -
  have len: "length pre + (n + n mod 2) < 2 ^ 32 - 4" "length pre + n < 2 ^ 32 - 4"
    using assms(5,6,8) by (auto simp: stored_len_small [OF n(2)] split: if_splits)
  from bad_trailer [OF assms, of m] obtain u' where u': "sim_tape_rdrecf u m = Inr (MTSE_INVRL, 0, [], u')" "tp_pnu u'"
    "tp_pos u' = wrap_pos (int (length pre) + int (if tp_fmt u = MTUF_F_STD then n mod 2 else 0) - (if e then 2 ^ 31 else 0))"
    by (auto simp: assms(7) stored_len_small [OF n(2)])
  let ?p = "if tp_fmt u = MTUF_F_STD then n mod 2 else 0"
  have p: "?p \<le> 1" "length pre + ?p < 2 ^ 32" using len by auto
  have "\<not> e \<longrightarrow> tp_pos u' = length pre + ?p" using u'(3) p by (auto simp: wrap_pos_def)
  moreover have "e \<longrightarrow> tp_pos u' \<noteq> length pre" using u'(3) wrap_pos_far [OF p(1)] by simp
  ultimately show ?thesis using u'(1,2) assms(7) by auto
qed

theorem tape_length_mismatch_witness:
  "\<exists>u'. sim_tape_rdrecf damaged_tape 100 = Inr (MTSE_INVRL, 0, [], u') \<and> tp_pnu u' \<and> tp_pos u' = tp_pos damaged_tape + 1"
proof -
  have m: "rec_marker False 3 = 3" by (simp add: rec_marker_def)
  have "\<exists>u'. sim_tape_rdrecf damaged_tape 100 = Inr (MTSE_INVRL, 0, [], u') \<and> tp_pnu u' \<and>
    (\<not> False \<longrightarrow> tp_pos u' = tp_pos damaged_tape + (if tp_fmt damaged_tape = MTUF_F_STD then 3 mod 2 else 0)) \<and> (False \<longrightarrow> tp_pos u' \<noteq> tp_pos damaged_tape)"
    by (rule tape_length_mismatch [where pre = "[]" and e = False and body = "[65, 66, 67, 0]" and w = 4 and post = "[]"])
      (simp_all add: damaged_tape_def blank_tape_def bpi_def m le32_def stored_len_def)
  then show ?thesis by (simp add: damaged_tape_def blank_tape_def)
qed

text \<open>
  C17. Spacing over files returns and goes to the marks: forward over a number of files that lie ahead it
  stops right behind that many tape marks, and otherwise at the end of the medium with the number of
  marks it found; backward, with the position-not-updated flag clear, it stops right before that many
  tape marks, and otherwise at the beginning of the tape.  No record or mark of the tape is changed.
\<close>

theorem tape_file_spacing:
  assumes "tape_rel u bs as"
  shows "(n \<le> marks as \<longrightarrow> (\<exists>u' xs ys. sim_tape_spfilef n u = Some (Inr (MTSE_OK, n, u')) \<and> as = xs @ ys \<and> marks xs = n \<and>
      (xs = [] \<or> last xs = Mark) \<and> tape_rel u' (bs @ xs) ys)) \<and>
    (marks as < n \<longrightarrow> (\<exists>u'. sim_tape_spfilef n u = Some (Inr (MTSE_EOM, marks as, u')) \<and> tape_rel u' (bs @ as) [])) \<and>
    (\<not> tp_pnu u \<and> n \<le> marks bs \<longrightarrow> (\<exists>u' xs ys. sim_tape_spfiler n u = Some (Inr (MTSE_OK, n, u')) \<and> bs = ys @ xs \<and> marks xs = n \<and>
      (xs = [] \<or> hd xs = Mark) \<and> tape_rel u' ys (xs @ as))) \<and>
    (\<not> tp_pnu u \<and> marks bs < n \<longrightarrow> (\<exists>u'. sim_tape_spfiler n u = Some (Inr (MTSE_BOT, marks bs, u')) \<and> tape_rel u' [] (bs @ as)))"
  using spfilef_rel [OF assms, of n] spfiler_rel [OF assms, of n] by (intro conjI impI) blast+

theorem tape_file_spacing_witness:
  "(\<exists>u' xs ys. sim_tape_spfilef 2 sample_tape = Some (Inr (MTSE_OK, 2, u')) \<and> [Rec False [5], Mark, Mark, Rec True [6]] = xs @ ys \<and> marks xs = 2 \<and>
      (xs = [] \<or> last xs = Mark) \<and> tape_rel u' ([] @ xs) ys) \<and>
   (\<exists>u'. sim_tape_spfiler 1 sample_tape = Some (Inr (MTSE_BOT, 0, u')) \<and> tape_rel u' [] [Rec False [5], Mark, Mark, Rec True [6]])"
  using tape_file_spacing [OF sample_rel, of 2] tape_file_spacing [OF sample_rel, of 1]
  by (simp add: sample_tape_def blank_tape_def)

text \<open>
  With the check for the logical end of the tape, spacing forward over more files than there are
  before the first two tape marks in a row stops between these two marks, reports the logical end and
  the number of files before it.
\<close>

lemma tape_logical_end:
  assumes "tape_rel u bs (xs @ Mark # Mark # ys)"
    and "no_pair (bs \<noteq> [] \<and> last bs = Mark) (xs @ [Mark])" "marks xs + 1 < n" "length xs < 0x1ffffff"
  shows "\<exists>recs u'. sim_tape_spfilebyrecf n True u = Some (Inr (MTSE_LEOT, marks xs + 1, recs, u')) \<and> tape_rel u' (bs @ xs @ [Mark]) (Mark # ys)"
proof -
  from spfilebyrecf_check [OF assms(1), of n] obtain v where
    v: "sim_tape_spfilebyrecf n True u = files_forward True n (bs \<noteq> [] \<and> last bs = Mark) 0 0 v" "tape_rel v bs (xs @ Mark # Mark # ys)" by blast
  from files_forward_leot [OF v(2) assms(2,4,3), of 0 0] v(1) show ?thesis by simp
qed

end
