(* ===== verification/Registers.thy ===== *)
theory Registers
  imports Numbers Breakpoint SubVars
begin

text \<open>
  Registers as the commands see them: descriptors of bit fields in the simulator's own variables,
  looked up by name, read and written through the size and the bit offset that they declare
  (\<^verbatim>\<open>find_reg\<close> to \<^verbatim>\<open>put_rval\<close> of \<^verbatim>\<open>scp.c\<close>), and the loop of \<^verbatim>\<open>EXAMINE\<close> and \<^verbatim>\<open>DEPOSIT\<close> over
  registers and their elements.  The variables are bytes of memory, the host is little-endian, and
  what a command prints and the lines that it reads are part of the state.
\<close>

unbundle bit_operations_syntax

subsection \<open>Data\<close>

record REG =
  reg_name :: string
  reg_loc :: nat
  reg_radix :: nat
  reg_width :: nat
  reg_offset :: nat
  reg_depth :: u32
  reg_qptr :: u32
  reg_stride :: nat
  reg_size :: nat
  reg_flags :: u32
  reg_maxval :: t_value

record regst = brkst +
  host_mem :: "nat \<Rightarrow> u8"
  ex_eval :: "t_value list"
  ex_last_val :: t_value
  ex_out :: string
  ex_in :: "string list"

abbreviation (input) REG_FMT :: u32 where "REG_FMT \<equiv> 0x3"
abbreviation (input) REG_RO :: u32 where "REG_RO \<equiv> 0x4"
abbreviation (input) REG_HIDDEN :: u32 where "REG_HIDDEN \<equiv> 0x8"
abbreviation (input) REG_NZ :: u32 where "REG_NZ \<equiv> 0x10"
abbreviation (input) REG_CIRC :: u32 where "REG_CIRC \<equiv> 0x80"
abbreviation (input) REG_VMIO :: u32 where "REG_VMIO \<equiv> 0x100"
abbreviation (input) REG_VMAD :: u32 where "REG_VMAD \<equiv> 0x200"
abbreviation (input) REG_DEPOSIT :: u32 where "REG_DEPOSIT \<equiv> 0x800"
abbreviation (input) REG_UFMASK :: u32 where "REG_UFMASK \<equiv> 0xFFFF0000"
abbreviation (input) REG_VMFLAGS :: u32 where "REG_VMFLAGS \<equiv> 0xFFFF0100"

abbreviation (input) SIM_SW_HIDE :: u32 where "SIM_SW_HIDE \<equiv> 0x4000000"
abbreviation (input) SIM_SW_REG :: u32 where "SIM_SW_REG \<equiv> 0x10000000"

abbreviation (input) SCPE_RO :: t_stat where "SCPE_RO \<equiv> 75"
abbreviation (input) SCPE_SUB :: t_stat where "SCPE_SUB \<equiv> 88"
abbreviation (input) SCPE_AMBREG :: t_stat where "SCPE_AMBREG \<equiv> 109"

text \<open>The command: deposit, examine and the two interactive ones, which read every new value.\<close>

datatype ex_flag = EX_D | EX_E | EX_ID | EX_IE

definition flag_E :: "ex_flag \<Rightarrow> bool" where "flag_E f \<longleftrightarrow> f = EX_E \<or> f = EX_IE"
definition flag_I :: "ex_flag \<Rightarrow> bool" where "flag_I f \<longleftrightarrow> f = EX_ID \<or> f = EX_IE"

text \<open>
  What a simulator supplies: its program counter, the notice of a register's change, and the forms of
  addresses and of symbolic values.  Symbolic parsing gives the values that it stores, printing gives
  the text; a positive status means that the form is not known.
\<close>

record 's vm_hooks =
  sim_PC :: "REG option"
  sim_vm_reg_update :: "(REG \<Rightarrow> u32 \<Rightarrow> t_value \<Rightarrow> t_value \<Rightarrow> 's \<Rightarrow> 's) option"
  sim_vm_parse_addr :: "(string \<Rightarrow> t_addr \<times> string) option"
  sim_vm_fprint_addr :: "(t_addr \<Rightarrow> string) option"
  parse_sym :: "string \<Rightarrow> u32 \<Rightarrow> bool \<Rightarrow> u32 \<Rightarrow> t_stat \<times> t_value list"
  fprint_sym :: "u32 \<Rightarrow> t_value list \<Rightarrow> bool \<Rightarrow> u32 \<Rightarrow> t_stat \<times> string"
  fprint_fields :: "REG \<Rightarrow> t_value \<Rightarrow> string"

text \<open>The radix of the switches, or else the given one.\<close>

definition get_radix :: "switches \<Rightarrow> nat \<Rightarrow> nat" where
  "get_radix sw dft =
     (if sim_switches sw AND SWMASK CHR ''O'' \<noteq> 0 then 8
      else if sim_switches sw AND SWMASK CHR ''D'' \<noteq> 0 then 10
      else if sim_switches sw AND SWMASK CHR ''H'' \<noteq> 0 then 16
      else if 2 \<le> sim_switch_number sw \<and> sim_switch_number sw \<le> 36 then nat (sim_switch_number sw)
      else dft)"

subsection \<open>Names\<close>

definition reg_name_char :: "char \<Rightarrow> bool" where
  "reg_name_char c \<longleftrightarrow> sim_isalnum (cint c) \<or> c = CHR ''*'' \<or> c = CHR ''_'' \<or> c = CHR ''.''"

text \<open>The name is the first character, whatever it is, and the name characters behind it.\<close>

definition find_reg :: "string \<Rightarrow> REG list \<Rightarrow> (REG \<times> string) option" where
  "find_reg cptr regs =
     (let slnt = Suc (length (takeWhile reg_name_char (tl cptr)))
      in map_option (\<lambda>r. (r, drop slnt cptr)) (List.find (\<lambda>r. slnt = length (reg_name r) \<and> take slnt cptr = reg_name r) regs))"

text \<open>
  Devices are given by whether they are disabled and by their registers.  The search goes on after a
  second find when the caller asks for the reason.
\<close>

fun find_reg_glob_loop ::
  "bool \<Rightarrow> string \<Rightarrow> (bool \<times> REG list) list \<Rightarrow> nat \<Rightarrow> (REG \<times> string \<times> nat) option \<Rightarrow> t_stat \<Rightarrow> (REG \<times> string \<times> nat) option \<times> t_stat" where
  "find_reg_glob_loop want cptr [] i found stat = (if want \<and> stat \<noteq> SCPE_OK then None else found, stat)"
| "find_reg_glob_loop want cptr ((dis, regs) # devs) i found stat =
     (if dis then find_reg_glob_loop want cptr devs (i + 1) found stat
      else case find_reg cptr regs of
             None \<Rightarrow> find_reg_glob_loop want cptr devs (i + 1) found stat
           | Some (r, t) \<Rightarrow>
               if found \<noteq> None \<and> \<not> want then (None, stat)
               else find_reg_glob_loop want cptr devs (i + 1) (Some (r, t, i))
                      (if found \<noteq> None then SCPE_AMBREG + 0x40000000 else stat))"

definition find_reg_glob_reason :: "bool \<Rightarrow> string \<Rightarrow> (bool \<times> REG list) list \<Rightarrow> (REG \<times> string \<times> nat) option \<times> t_stat" where
  "find_reg_glob_reason want cptr devs = find_reg_glob_loop want cptr devs 0 None SCPE_OK"

definition find_reg_glob :: "string \<Rightarrow> (bool \<times> REG list) list \<Rightarrow> (REG \<times> string \<times> nat) option" where
  "find_reg_glob cptr devs = fst (find_reg_glob_reason False cptr devs)"

subsection \<open>Access\<close>

primrec load_le :: "(nat \<Rightarrow> u8) \<Rightarrow> nat \<Rightarrow> nat \<Rightarrow> t_value" where
  "load_le m p 0 = 0"
| "load_le m p (Suc n) = ucast (m p) OR push_bit 8 (load_le m (p + 1) n)"

primrec store_le :: "(nat \<Rightarrow> u8) \<Rightarrow> nat \<Rightarrow> nat \<Rightarrow> t_value \<Rightarrow> (nat \<Rightarrow> u8)" where
  "store_le m p 0 v = m"
| "store_le m p (Suc n) v = store_le (m(p := ucast v)) (p + 1) n (drop_bit 8 v)"

definition elem_bytes :: "REG \<Rightarrow> nat" where
  "elem_bytes r = (if reg_size r = 1 \<or> reg_size r = 2 \<or> reg_size r = 4 then reg_size r else 8)"

text \<open>The index into a circular queue is relative to its start.\<close>

definition elem_index :: "REG \<Rightarrow> u32 \<Rightarrow> u32" where
  "elem_index r idx =
     (if reg_depth r > 1 \<and> reg_flags r AND REG_CIRC \<noteq> 0
      then let i = idx + reg_qptr r in if i \<ge> reg_depth r then i - reg_depth r else i
      else idx)"

definition elem_ptr :: "REG \<Rightarrow> u32 \<Rightarrow> nat" where
  "elem_ptr r idx = reg_loc r + unat (elem_index r idx) * reg_stride r"

definition get_rval :: "REG \<Rightarrow> u32 \<Rightarrow> (nat \<Rightarrow> u8) \<Rightarrow> t_value" where
  "get_rval r idx m = drop_bit (reg_offset r) (load_le m (elem_ptr r idx) (elem_bytes r)) AND width_mask (reg_width r)"

text \<open>The notice gets the index into the queue's storage and the shifted value.\<close>

definition put_rval_pcchk ::
  "'a regst_scheme vm_hooks \<Rightarrow> switches \<Rightarrow> REG \<Rightarrow> u32 \<Rightarrow> t_value \<Rightarrow> bool \<Rightarrow> 'a regst_scheme \<Rightarrow> 'a regst_scheme" where
  "put_rval_pcchk vm sw r idx val pc_chk s =
     (let notify = (sim_switches sw AND SWMASK CHR ''Z'' = 0 \<and> reg_flags r AND REG_DEPOSIT \<noteq> 0);
          prev = (if notify \<and> sim_vm_reg_update vm \<noteq> None then get_rval r idx (host_mem s) else 0);
          s1 = (if pc_chk \<and> sim_PC vm = Some r then sim_brk_npc 0 s else s);
          hole = NOT (push_bit (reg_offset r) (width_mask (reg_width r)));
          v = push_bit (reg_offset r) val;
          p = elem_ptr r idx;
          s2 = s1\<lparr>host_mem := store_le (host_mem s1) p (elem_bytes r) (load_le (host_mem s1) p (elem_bytes r) AND hole OR v)\<rparr>
      in case sim_vm_reg_update vm of
           None \<Rightarrow> s2
         | Some f \<Rightarrow> if notify then f r (elem_index r idx) prev v s2 else s2)"

definition put_rval :: "'a regst_scheme vm_hooks \<Rightarrow> switches \<Rightarrow> REG \<Rightarrow> u32 \<Rightarrow> t_value \<Rightarrow> 'a regst_scheme \<Rightarrow> 'a regst_scheme" where
  "put_rval vm sw r idx val s = put_rval_pcchk vm sw r idx val True s"

subsection \<open>Deposit and examine\<close>

text \<open>The value of a text: its error, or the value.\<close>

definition reg_value :: "'a regst_scheme vm_hooks \<Rightarrow> switches \<Rightarrow> string \<Rightarrow> REG \<Rightarrow> t_value option" where
  "reg_value vm sw cptr r =
     (let max' = (if reg_maxval r > 0 then reg_maxval r else width_mask (reg_width r));
          rdx = get_radix sw (reg_radix r)
      in case (if reg_flags r AND REG_VMAD \<noteq> 0 then sim_vm_parse_addr vm else None) of
           Some f \<Rightarrow> let (a, t) = f cptr; val = ucast a in if t = cptr \<or> t \<noteq> [] \<or> val > max' then None else Some val
         | None \<Rightarrow>
             (let (st, vals) = parse_sym vm cptr (reg_flags r AND REG_UFMASK OR of_nat rdx) False (sim_switches sw OR SIM_SW_REG)
              in if reg_flags r AND REG_VMFLAGS = 0 \<or> st > SCPE_OK
                 then (let (val, st2) = get_uint cptr rdx max' in if st2 \<noteq> SCPE_OK then None else Some val)
                 else Some (if vals = [] then 0 else hd vals)))"

definition dep_reg ::
  "'a regst_scheme vm_hooks \<Rightarrow> switches \<Rightarrow> ex_flag \<Rightarrow> string \<Rightarrow> REG \<Rightarrow> u32 \<Rightarrow> 'a regst_scheme \<Rightarrow> t_stat \<times> 'a regst_scheme" where
  "dep_reg vm sw flag cptr r idx s =
     (if reg_flags r AND REG_RO \<noteq> 0 then (SCPE_RO, s)
      else let put = (\<lambda>c s. case reg_value vm sw c r of
                              None \<Rightarrow> (SCPE_ARG, s)
                            | Some val \<Rightarrow> if reg_flags r AND REG_NZ \<noteq> 0 \<and> val = 0 then (SCPE_ARG, s)
                                           else (SCPE_OK, put_rval vm sw r idx val s))
           in if flag_I flag
              then (case ex_in s of
                      [] \<Rightarrow> (1, s)
                    | l # ls \<Rightarrow> if l = [] then (SCPE_OK, s\<lparr>ex_in := ls\<rparr>) else put l (s\<lparr>ex_in := ls\<rparr>))
              else put cptr s)"

definition fprint_val :: "t_value \<Rightarrow> nat \<Rightarrow> nat \<Rightarrow> nat \<Rightarrow> string" where
  "fprint_val val radix width format =
     (case sprint_val 65 val (of_nat radix) (min width MAX_WIDTH) format of None \<Rightarrow> [] | Some (st, s) \<Rightarrow> s)"

definition put_text :: "string \<Rightarrow> 'a regst_scheme \<Rightarrow> 'a regst_scheme" where
  "put_text t s = s\<lparr>ex_out := ex_out s @ t\<rparr>"

definition elem_text :: "REG \<Rightarrow> u32 \<Rightarrow> string" where
  "elem_text r idx = reg_name r @ ''['' @ decimal (unat idx) @ '']''"

definition reg_text :: "'a regst_scheme vm_hooks \<Rightarrow> switches \<Rightarrow> REG \<Rightarrow> t_value \<Rightarrow> t_value list \<Rightarrow> string" where
  "reg_text vm sw r val evl =
     (let rdx = get_radix sw (reg_radix r);
          (st, sym) = fprint_sym vm (reg_flags r AND REG_UFMASK OR of_nat rdx) evl False (sim_switches sw OR SIM_SW_REG);
          num = fprint_val val rdx (reg_width r) (unat (reg_flags r AND REG_FMT)) @ fprint_fields vm r val
      in case (if reg_flags r AND REG_VMAD \<noteq> 0 then sim_vm_fprint_addr vm else None) of
           Some f \<Rightarrow> f (ucast val)
         | None \<Rightarrow> if reg_flags r AND REG_VMFLAGS = 0 then num else if st > 0 then sym @ num else sym)"

definition ex_reg ::
  "'a regst_scheme vm_hooks \<Rightarrow> switches \<Rightarrow> t_value \<Rightarrow> ex_flag \<Rightarrow> REG \<Rightarrow> u32 \<Rightarrow> 'a regst_scheme \<Rightarrow> t_stat \<times> 'a regst_scheme" where
  "ex_reg vm sw val flag r idx s =
     (let s1 = put_text ((if reg_depth r > 1 then elem_text r idx else reg_name r) @ [CHR '':'', CHR 0x09]) s
      in if \<not> flag_E flag then (SCPE_OK, s1)
         else let s2 = s1\<lparr>ex_eval := (ex_eval s1)[0 := val]\<rparr>
              in (SCPE_OK, put_text (reg_text vm sw r val (ex_eval s2) @ (if flag_I flag then [CHR 0x09] else [CHR 0x0A])) s2))"

text \<open>The line for elements that are left out because they repeat the one before.\<close>

definition same_text :: "REG \<Rightarrow> u32 \<Rightarrow> u32 \<Rightarrow> string" where
  "same_text r lo hi =
     (if lo \<noteq> hi then elem_text r lo @ ''-'' @ elem_text r hi else elem_text r lo) @ '': same as above'' @ [CHR 0x0A]"

lemma idx_Suc: "\<not> idx \<ge> (d :: u32) \<Longrightarrow> unat (idx + 1) = Suc (unat idx)"
proof -
  assume "\<not> idx \<ge> d"
  then have "unat idx < unat d" by (simp add: word_le_nat_alt)
  moreover have "unat d < 2 ^ 32" using unsigned_less [of d] by simp
  ultimately have "unat idx + 1 < 2 ^ 32" by linarith
  then show "unat (idx + 1) = Suc (unat idx)" by (simp add: unat_word_ariths)
qed

text \<open>
  The loop over the elements of one register: \<open>val\<close> is the last value read, \<open>last_val\<close> the last one
  printed and \<open>val_start\<close> its index.
\<close>

function reg_elems ::
  "'a regst_scheme vm_hooks \<Rightarrow> switches \<Rightarrow> SCHTAB option \<Rightarrow> ex_flag \<Rightarrow> string \<Rightarrow> REG \<Rightarrow> u32 \<Rightarrow> u32 \<Rightarrow> u32 \<Rightarrow> t_value \<Rightarrow> t_value \<Rightarrow> u32 \<Rightarrow>
   'a regst_scheme \<Rightarrow> t_stat \<times> t_value \<times> u32 \<times> 'a regst_scheme" where
  "reg_elems vm sw sch flag cptr r lows limits idx val last_val val_start s =
     (if \<not> idx \<le> limits then (SCPE_OK, val, val_start, s)
      else if idx \<ge> reg_depth r then (SCPE_SUB, val, val_start, s)
      else let v = get_rval r idx (host_mem s); s1 = s\<lparr>ex_eval := (ex_eval s)[0 := v]\<rparr>
           in if sch \<noteq> None \<and> \<not> test_search (ex_eval s1) sch
              then reg_elems vm sw sch flag cptr r lows limits (idx + 1) v last_val val_start s1
              else if flag = EX_E
              then if idx > lows \<and> v = last_val
                   then reg_elems vm sw sch flag cptr r lows limits (idx + 1) v last_val val_start s1
                   else let s2 = (if idx > val_start + 1 then put_text (same_text r (val_start + 1) (idx - 1)) s1 else s1);
                            (st, s3) = ex_reg vm sw v flag r idx (s2\<lparr>ex_last_val := v\<rparr>)
                        in if st \<noteq> SCPE_OK then (st, v, idx, s3)
                           else reg_elems vm sw sch flag cptr r lows limits (idx + 1) v v idx s3
              else let (st, s2) = dep_reg vm sw flag cptr r idx s1
                   in if st \<noteq> SCPE_OK then (st, v, val_start, s2)
                      else reg_elems vm sw sch flag cptr r lows limits (idx + 1) v last_val val_start s2)"
  by pat_completeness auto

termination
  by (relation "measure (\<lambda>(vm, sw, sch, flag, cptr, r, lows, limits, idx, val, last_val, val_start, s). unat (reg_depth r) - unat idx)")
    (auto simp: idx_Suc word_less_nat_alt not_le intro!: diff_less_mono2)

declare reg_elems.simps [simp del]

definition reg_one ::
  "'a regst_scheme vm_hooks \<Rightarrow> switches \<Rightarrow> SCHTAB option \<Rightarrow> ex_flag \<Rightarrow> string \<Rightarrow> REG \<Rightarrow> u32 \<Rightarrow> u32 \<Rightarrow> u32 \<Rightarrow> 'a regst_scheme \<Rightarrow> t_stat \<times> u32 \<times> 'a regst_scheme" where
  "reg_one vm sw sch flag cptr r lows highs val_start s =
     (if sim_switches sw AND SIM_SW_HIDE \<noteq> 0 \<and> reg_flags r AND REG_HIDDEN \<noteq> 0 then (SCPE_OK, val_start, s)
      else let limits = (if highs = 0xFFFFFFFF then (if reg_depth r > 1 then reg_depth r - 1 else 0) else highs);
               (st, val, vst, s1) = reg_elems vm sw sch flag cptr r lows limits lows 0 0 val_start s
           in if st \<noteq> SCPE_OK then (st, vst, s1)
              else if flag = EX_E \<and> vst \<noteq> limits
              then if highs = vst + 1
                   then (let (st2, s2) = ex_reg vm sw val flag r limits s1 in (st2, vst, s2))
                   else (SCPE_OK, vst, put_text (same_text r (vst + 1) limits) s1)
              else (SCPE_OK, vst, s1))"

text \<open>Registers are given by the table of their device and the first and the last index into it.\<close>

fun reg_range ::
  "'a regst_scheme vm_hooks \<Rightarrow> switches \<Rightarrow> SCHTAB option \<Rightarrow> ex_flag \<Rightarrow> string \<Rightarrow> REG list \<Rightarrow> u32 \<Rightarrow> u32 \<Rightarrow> u32 \<Rightarrow> 'a regst_scheme \<Rightarrow> t_stat \<times> 'a regst_scheme" where
  "reg_range vm sw sch flag cptr [] lows highs val_start s = (SCPE_OK, s)"
| "reg_range vm sw sch flag cptr (r # rs) lows highs val_start s =
     (let (st, vst, s1) = reg_one vm sw sch flag cptr r lows highs val_start s
      in if st \<noteq> SCPE_OK then (st, s1) else reg_range vm sw sch flag cptr rs lows highs vst s1)"

definition exdep_reg_loop ::
  "'a regst_scheme vm_hooks \<Rightarrow> switches \<Rightarrow> SCHTAB option \<Rightarrow> ex_flag \<Rightarrow> string \<Rightarrow> REG list \<Rightarrow> nat \<Rightarrow> nat \<Rightarrow> u32 \<Rightarrow> u32 \<Rightarrow> 'a regst_scheme \<Rightarrow> t_stat \<times> 'a regst_scheme" where
  "exdep_reg_loop vm sw sch flag cptr regs lowr highr lows highs s =
     (if lowr > highr then (SCPE_ARG, s)
      else reg_range vm sw sch flag cptr (take (Suc highr - lowr) (drop lowr regs)) lows highs lows s)"

end
