(* ===== verification/Units.thy ===== *)
theory Units
  imports Registers Tape
begin

text \<open>
  Units and their files: attaching and detaching with the generic buffering (\<^verbatim>\<open>scp_unit.c\<close>), and
  reading and writing single locations and ranges of a device's address space for \<^verbatim>\<open>EXAMINE\<close> and
  \<^verbatim>\<open>DEPOSIT\<close> (\<^verbatim>\<open>get_aval\<close>, \<^verbatim>\<open>dep_addr\<close> and their loop in \<^verbatim>\<open>scp.c\<close>).  A device reads and writes its
  locations itself or leaves that to the file or the buffer of its unit.  Files are lists of bytes
  under their names; the host answers every attempt to open one.
\<close>

unbundle bit_operations_syntax

subsection \<open>Data\<close>

record UNIT =
  un_attable :: bool
  un_att :: bool
  un_ro :: bool
  un_roable :: bool
  un_seq :: bool
  un_fix :: bool
  un_dis :: bool
  un_bufable :: bool
  un_mustbuf :: bool
  un_buf :: bool
  un_no_fio :: bool
  un_capac :: t_addr
  un_hwmark :: u32
  un_pos :: t_addr
  un_filename :: "string option"
  un_fileref :: "string option"
  un_filebuf :: "u8 list option"
  un_filebuf2 :: "u8 list option"

text \<open>The parts of a device that are used here; its routines work on the simulator's machine.\<close>

record 'm DEVICE =
  dv_awidth :: nat
  dv_aincr :: u32
  dv_aradix :: nat
  dv_dradix :: nat
  dv_dwidth :: nat
  dv_examine :: "(t_addr \<Rightarrow> u32 \<Rightarrow> 'm \<Rightarrow> t_stat \<times> t_value option) option"
  dv_deposit :: "(t_value \<Rightarrow> t_addr \<Rightarrow> u32 \<Rightarrow> 'm \<Rightarrow> t_stat \<times> 'm) option"

type_synonym fs = "string \<rightharpoonup> u8 list"

datatype open_mode = Open_rb | Open_rb_plus | Open_wb_plus
datatype open_error = Not_Permitted | Other_Error

text \<open>A read or a write outside a buffer.\<close>

datatype unit_fault = Buffer_Overrun

abbreviation (input) SIM_SW_REST :: u32 where "SIM_SW_REST \<equiv> 0x8000000"
abbreviation (input) SCPE_NOMSG :: t_stat where "SCPE_NOMSG \<equiv> 0x40000000"
abbreviation (input) SCPE_UNATT :: t_stat where "SCPE_UNATT \<equiv> 65"
abbreviation (input) SCPE_NOATT :: t_stat where "SCPE_NOATT \<equiv> 69"
abbreviation (input) SCPE_OPENERR :: t_stat where "SCPE_OPENERR \<equiv> 70"
abbreviation (input) SCPE_EOF :: t_stat where "SCPE_EOF \<equiv> 81"
abbreviation (input) SCPE_UDIS :: t_stat where "SCPE_UDIS \<equiv> 90"
abbreviation (input) SCPE_NORO :: t_stat where "SCPE_NORO \<equiv> 91"

definition scp_storage_size_for_width_bytes :: "nat \<Rightarrow> nat" where
  "scp_storage_size_for_width_bytes n = (if n \<le> 1 then 1 else if n = 2 then 2 else if n \<le> 4 then 4 else if n \<le> 8 then 8 else 0)"

definition scp_device_data_size_bytes :: "'m DEVICE \<Rightarrow> nat" where
  "scp_device_data_size_bytes d = scp_storage_size_for_width_bytes ((dv_dwidth d + 7) div 8)"

subsection \<open>Attaching and detaching\<close>

text \<open>The host's answer; a file opened for writing only starts empty.\<close>

definition sim_fopen :: "(string \<Rightarrow> open_mode \<Rightarrow> open_error option) \<Rightarrow> string \<Rightarrow> open_mode \<Rightarrow> fs \<Rightarrow> open_error + fs" where
  "sim_fopen host name mode fs =
     (case host name mode of
        Some e \<Rightarrow> Inl e
      | None \<Rightarrow> Inr (if mode = Open_wb_plus then fs(name \<mapsto> []) else fs))"

text \<open>
  Which file is opened: the error status and whether an attempt to open a file failed, or whether the
  unit is read only, whether the file was opened for update, and the files.
\<close>

definition open_unit_file ::
  "(string \<Rightarrow> open_mode \<Rightarrow> open_error option) \<Rightarrow> u32 \<Rightarrow> string \<Rightarrow> UNIT \<Rightarrow> fs \<Rightarrow> t_stat \<times> bool + bool \<times> bool \<times> fs" where
  "open_unit_file host sw name u fs =
     (let attempt = (\<lambda>mode ro. case sim_fopen host name mode fs of
                                Inl e \<Rightarrow> Inl (SCPE_OPENERR + SCPE_NOMSG, True)
                              | Inr fs1 \<Rightarrow> Inr (ro, False, fs1))
      in if sw AND SWMASK CHR ''R'' \<noteq> 0 \<or> un_ro u
         then if \<not> un_roable u \<and> \<not> un_ro u then Inl (SCPE_NORO + SCPE_NOMSG, False) else attempt Open_rb True
         else if sw AND SWMASK CHR ''N'' \<noteq> 0 then attempt Open_wb_plus (un_ro u)
         else (case sim_fopen host name Open_rb_plus fs of
                 Inr fs1 \<Rightarrow> Inr (un_ro u, True, fs1)
               | Inl Not_Permitted \<Rightarrow> if \<not> un_roable u then Inl (SCPE_NORO + SCPE_NOMSG, True) else attempt Open_rb True
               | Inl Other_Error \<Rightarrow>
                   if sw AND SWMASK CHR ''E'' \<noteq> 0 then Inl (SCPE_OPENERR + SCPE_NOMSG, True) else attempt Open_wb_plus (un_ro u)))"

definition file_bytes :: "fs \<Rightarrow> string \<Rightarrow> u8 list" where
  "file_bytes fs name = (case fs name of None \<Rightarrow> [] | Some b \<Rightarrow> b)"

text \<open>What a buffer of \<open>n\<close> bytes holds after reading the file into it.\<close>

definition fill_buffer :: "nat \<Rightarrow> u8 list \<Rightarrow> u8 list \<Rightarrow> u8 list" where
  "fill_buffer n content old = take n content @ drop (length (take n content)) old"

definition attach_unit ::
  "(string \<Rightarrow> open_mode \<Rightarrow> open_error option) \<Rightarrow> u32 \<Rightarrow> 'm DEVICE option \<Rightarrow> string \<Rightarrow> UNIT \<Rightarrow> fs \<Rightarrow> unit_fault + t_stat \<times> UNIT \<times> fs" where
  "attach_unit host sw dptr cptr u fs =
     (if \<not> un_attable u then Inr (SCPE_NOATT, u, fs)
      else case dptr of
             None \<Rightarrow> Inr (SCPE_NOATT, u, fs)
           | Some d \<Rightarrow>
               (case open_unit_file host sw cptr u fs of
                  Inl (st, failed) \<Rightarrow> Inr (st, u\<lparr>un_filename := None, un_fileref := (if failed then None else un_fileref u)\<rparr>, fs)
                | Inr (ro, open_rw, fs1) \<Rightarrow>
                    let content = file_bytes fs1 cptr;
                        n = unat (un_capac u div dv_aincr d) * scp_device_data_size_bytes d;
                        u1 = u\<lparr>un_filename := Some (take (CBUFSIZE - 1) cptr), un_fileref := Some cptr, un_ro := ro\<rparr>;
                        finish = (\<lambda>v. Inr (SCPE_OK,
                                   v\<lparr>un_att := True,
                                      un_pos := (if open_rw \<and> sw AND SWMASK CHR ''A'' \<noteq> 0 \<and> un_seq u \<and> \<not> un_mustbuf u
                                                 then of_nat (length content) else 0)\<rparr>, fs1))
                    in if \<not> un_bufable u then finish u1
                       else case (if un_mustbuf u then Some (replicate n 0) else un_filebuf u) of
                              None \<Rightarrow> Inl Buffer_Overrun
                            | Some old \<Rightarrow>
                                if length old < n then Inl Buffer_Overrun
                                else let buf = fill_buffer n content old
                                     in finish (u1\<lparr>un_filebuf := Some buf, un_filebuf2 := Some (take n buf),
                                                    un_hwmark := of_nat (length (take n content) div scp_device_data_size_bytes d), un_buf := True\<rparr>)))"

text \<open>The file is written when the buffer has changed: as many locations as the high-water mark says, divided by the address increment.\<close>

definition flush_buffer :: "'m DEVICE \<Rightarrow> UNIT \<Rightarrow> u8 list \<Rightarrow> fs \<Rightarrow> unit_fault + fs" where
  "flush_buffer d u b fs =
     (let sz = scp_device_data_size_bytes d;
          cap = unat ((un_hwmark u + dv_aincr d - 1) div dv_aincr d);
          n = sz * unat (un_capac u div dv_aincr d)
      in if un_ro u then Inr fs
         else case (un_filebuf2 u, un_fileref u) of
                (Some b2, Some name) \<Rightarrow>
                  if length b < n \<or> length b2 < n \<or> length b < sz * cap then Inl Buffer_Overrun
                  else Inr (if take n b \<noteq> take n b2 then fs(name \<mapsto> fwrite (file_bytes fs name) 0 (take (sz * cap) b)) else fs)
              | _ \<Rightarrow> Inl Buffer_Overrun)"

definition detach_unit :: "u32 \<Rightarrow> 'm DEVICE option \<Rightarrow> UNIT \<Rightarrow> fs \<Rightarrow> unit_fault + t_stat \<times> UNIT \<times> fs" where
  "detach_unit sw dptr u fs =
     (if \<not> un_attable u then Inr (SCPE_NOATT, u, fs)
      else if \<not> un_att u then Inr (if sw AND SIM_SW_REST \<noteq> 0 then SCPE_OK else SCPE_UNATT, u, fs)
      else case dptr of
             None \<Rightarrow> Inr (SCPE_OK, u, fs)
           | Some d \<Rightarrow>
               let finish = (\<lambda>v fs1. Inr (SCPE_OK, v\<lparr>un_att := False, un_ro := (un_ro u \<and> \<not> un_roable u), un_filename := None, un_fileref := None\<rparr>, fs1))
               in case (if un_buf u then un_filebuf u else None) of
                    None \<Rightarrow> finish u fs
                  | Some b \<Rightarrow>
                      (case flush_buffer d u b fs of
                         Inl f \<Rightarrow> Inl f
                       | Inr fs1 \<Rightarrow> finish (if un_mustbuf u then u\<lparr>un_filebuf := None, un_filebuf2 := None, un_buf := False\<rparr> else u\<lparr>un_buf := False\<rparr>) fs1))"

subsection \<open>Locations\<close>

record 'm adst =
  ad_vm :: 'm
  ad_unit :: UNIT
  ad_fs :: fs
  ad_eval :: "t_value list"
  ad_last_val :: t_value
  ad_out :: string
  ad_in :: "string list"

definition list_mem :: "u8 list \<Rightarrow> nat \<Rightarrow> u8" where
  "list_mem b p = (if p < length b then b ! p else 0)"

definition le_bytes :: "nat \<Rightarrow> t_value \<Rightarrow> u8 list" where
  "le_bytes n v = map (\<lambda>i. ucast (drop_bit (8 * i) v)) [0..<n]"

text \<open>
  One location: the fault or the status, whether the status ends the command at once, and the value if
  one is stored.
\<close>

definition read_loc :: "'m DEVICE \<Rightarrow> u32 \<Rightarrow> t_addr \<Rightarrow> 'm adst \<Rightarrow> unit_fault + bool \<times> t_stat \<times> t_value option" where
  "read_loc d sw j s =
     (case dv_examine d of
        Some ex \<Rightarrow> (let (r, v) = ex j sw (ad_vm s) in Inr (False, r, v))
      | None \<Rightarrow>
          let u = ad_unit s; sz = scp_device_data_size_bytes d; loc = unat (j div dv_aincr d)
          in if \<not> un_att u then Inr (True, SCPE_UNATT, None)
             else if un_no_fio u \<or> un_fileref u = None then Inr (True, SCPE_NOFNC, None)
             else if un_fix u \<and> j \<ge> un_capac u then Inr (False, SCPE_NXM, None)
             else if un_buf u
             then (case un_filebuf u of
                     None \<Rightarrow> Inl Buffer_Overrun
                   | Some b \<Rightarrow> if sz * loc + sz \<le> length b then Inr (False, SCPE_OK, Some (load_le (list_mem b) (sz * loc) sz)) else Inl Buffer_Overrun)
             else let b = take sz (drop (unat (of_nat (sz * loc) :: t_addr)) (file_bytes (ad_fs s) (the (un_fileref u))))
                  in Inr (False, if length b < sz \<and> \<not> un_fix u then SCPE_EOF else SCPE_OK, Some (load_le (list_mem b) 0 sz)))"

text \<open>
  The values from an address on, as many as instructions can have; an error after the first location
  ends them without an error.
\<close>

fun aval_loop :: "'m DEVICE \<Rightarrow> u32 \<Rightarrow> nat \<Rightarrow> nat \<Rightarrow> t_addr \<Rightarrow> 'm adst \<Rightarrow> unit_fault + t_stat \<times> 'm adst" where
  "aval_loop d sw 0 i j s = Inr (SCPE_OK, s)"
| "aval_loop d sw (Suc n) i j s =
     (case read_loc d sw j s of
        Inl f \<Rightarrow> Inl f
      | Inr (atonce, r, v) \<Rightarrow>
          let s1 = (case v of None \<Rightarrow> s | Some x \<Rightarrow> s\<lparr>ad_eval := (ad_eval s)[i := x]\<rparr>)
          in if atonce then Inr (r, s)
             else if r \<noteq> SCPE_OK then Inr (if i = 0 then r else SCPE_OK, s1)
             else let x = (ad_eval s1 ! i) AND width_mask (dv_dwidth d)
                  in aval_loop d sw n (i + 1) (j + dv_aincr d) (s1\<lparr>ad_eval := (ad_eval s1)[i := x], ad_last_val := x\<rparr>))"

definition get_aval :: "'m DEVICE \<Rightarrow> u32 \<Rightarrow> t_addr \<Rightarrow> 'm adst \<Rightarrow> unit_fault + t_stat \<times> 'm adst" where
  "get_aval d sw addr s = (let n = length (ad_eval s) in aval_loop d sw n 0 addr (s\<lparr>ad_eval := replicate n 0\<rparr>))"

definition write_loc :: "'m DEVICE \<Rightarrow> u32 \<Rightarrow> t_value \<Rightarrow> t_addr \<Rightarrow> 'm adst \<Rightarrow> unit_fault + t_stat \<times> 'm adst" where
  "write_loc d sw v j s =
     (case dv_deposit d of
        Some dep \<Rightarrow> (let (r, m) = dep v j sw (ad_vm s) in Inr (r, s\<lparr>ad_vm := m\<rparr>))
      | None \<Rightarrow>
          let u = ad_unit s; sz = scp_device_data_size_bytes d; loc = unat (j div dv_aincr d)
          in if \<not> un_att u then Inr (SCPE_UNATT, s)
             else if un_no_fio u then Inr (SCPE_NOFNC, s)
             else if un_fix u \<and> j \<ge> un_capac u then Inr (SCPE_NXM, s)
             else if un_buf u
             then (case un_filebuf u of
                     None \<Rightarrow> Inl Buffer_Overrun
                   | Some b \<Rightarrow>
                       if sz * loc + sz \<le> length b
                       then Inr (SCPE_OK, s\<lparr>ad_unit := u\<lparr>un_filebuf := Some (take (sz * loc) b @ le_bytes sz v @ drop (sz * loc + sz) b),
                                                     un_hwmark := (if of_nat loc \<ge> un_hwmark u then of_nat loc + 1 else un_hwmark u)\<rparr>\<rparr>)
                       else Inl Buffer_Overrun)
             else (case un_fileref u of
                     None \<Rightarrow> Inl Buffer_Overrun
                   | Some name \<Rightarrow>
                       Inr (SCPE_OK, s\<lparr>ad_fs := (ad_fs s)(name \<mapsto> fwrite (file_bytes (ad_fs s) name) (unat (of_nat (sz * loc) :: t_addr)) (le_bytes sz v))\<rparr>)))"

fun dep_loop :: "'m DEVICE \<Rightarrow> u32 \<Rightarrow> nat \<Rightarrow> nat \<Rightarrow> t_addr \<Rightarrow> 'm adst \<Rightarrow> unit_fault + t_stat \<times> 'm adst" where
  "dep_loop d sw 0 i j s = Inr (SCPE_OK, s)"
| "dep_loop d sw (Suc n) i j s =
     (let x = (ad_eval s ! i) AND width_mask (dv_dwidth d); s1 = s\<lparr>ad_eval := (ad_eval s)[i := x]\<rparr>
      in case write_loc d sw x j s1 of
           Inl f \<Rightarrow> Inl f
         | Inr (r, s2) \<Rightarrow> if r \<noteq> SCPE_OK then Inr (r, s2) else dep_loop d sw n (i + 1) (j + dv_aincr d) s2)"

text \<open>A positive result is an error; otherwise it is how many address units beyond the first were written, negated.\<close>

definition dep_addr ::
  "'x vm_hooks \<Rightarrow> switches \<Rightarrow> ex_flag \<Rightarrow> string \<Rightarrow> t_addr \<Rightarrow> 'm DEVICE \<Rightarrow> t_stat \<Rightarrow> 'm adst \<Rightarrow> unit_fault + t_stat \<times> 'm adst" where
  "dep_addr vm sw flag cptr addr d dfltinc s =
     (let put = (\<lambda>c s.
            if un_ro (ad_unit s) then Inr (SCPE_RO + SCPE_NOMSG, s)
            else let (r, vals) = parse_sym vm c addr True (sim_switches sw);
                     (val, st) = get_uint c (get_radix sw (dv_dradix d)) (width_mask (dv_dwidth d));
                     s1 = s\<lparr>ad_eval := (if r > 0 then (ad_eval s)[0 := val] else vals @ drop (length vals) (ad_eval s))\<rparr>;
                     reason = (if r > 0 then dfltinc else r);
                     count = nat ((1 - reason + (uint (dv_aincr d) - 1)) div uint (dv_aincr d))
                 in if r > 0 \<and> st \<noteq> SCPE_OK then Inr (st, s1)
                    else case dep_loop d (sim_switches sw) count 0 addr s1 of
                           Inl f \<Rightarrow> Inl f
                         | Inr (st2, s2) \<Rightarrow> Inr (if st2 \<noteq> SCPE_OK then st2 else reason, s2))
      in if flag_I flag
         then (case ad_in s of
                 [] \<Rightarrow> Inr (1, s)
               | l # ls \<Rightarrow> if l = [] then Inr (dfltinc, s\<lparr>ad_in := ls\<rparr>) else put l (s\<lparr>ad_in := ls\<rparr>))
         else put cptr s)"

definition ex_addr :: "'x vm_hooks \<Rightarrow> switches \<Rightarrow> ex_flag \<Rightarrow> t_addr \<Rightarrow> 'm DEVICE \<Rightarrow> t_stat \<Rightarrow> 'm adst \<Rightarrow> t_stat \<times> 'm adst" where
  "ex_addr vm sw flag addr d dfltinc s =
     (let head = (case sim_vm_fprint_addr vm of Some f \<Rightarrow> f addr | None \<Rightarrow> fprint_val (ucast addr) (dv_aradix d) (dv_awidth d) PV_LEFT) @ [CHR '':'', CHR 0x09];
          (r, sym) = fprint_sym vm addr (ad_eval s) True (sim_switches sw);
          body = (if r > 0 then sym @ fprint_val (ad_eval s ! 0) (get_radix sw (dv_dradix d)) (dv_dwidth d) PV_RZRO else sym);
          tail = (if flag_I flag then [CHR 0x09] else [CHR 0x0A])
      in if \<not> flag_E flag then (dfltinc, s\<lparr>ad_out := ad_out s @ head\<rparr>)
         else (if r > 0 then dfltinc else r, s\<lparr>ad_out := ad_out s @ head @ body @ tail\<rparr>))"

text \<open>The next address wraps around.\<close>

partial_function (option) addr_loop ::
  "'x vm_hooks \<Rightarrow> switches \<Rightarrow> SCHTAB option \<Rightarrow> ex_flag \<Rightarrow> string \<Rightarrow> t_addr \<Rightarrow> 'm DEVICE \<Rightarrow> t_stat \<Rightarrow> t_addr \<Rightarrow> 'm adst \<Rightarrow> (unit_fault + t_stat \<times> 'm adst) option" where
  "addr_loop vm sw sch flag cptr high d dfltinc i s =
     (if \<not> i \<le> high then Some (Inr (SCPE_OK, s))
      else case get_aval d (sim_switches sw) i s of
             Inl f \<Rightarrow> Some (Inl f)
           | Inr (r, s1) \<Rightarrow>
               if r \<noteq> SCPE_OK then Some (Inr (r, s1))
               else if sch \<noteq> None \<and> \<not> test_search (ad_eval s1) sch
               then addr_loop vm sw sch flag cptr high d dfltinc (i + of_int (1 - dfltinc)) s1
               else (case (if flag \<noteq> EX_D then ex_addr vm sw flag i d dfltinc s1 else (dfltinc, s1)) of
                       (r1, s2) \<Rightarrow>
                         if flag \<noteq> EX_D \<and> r1 > SCPE_OK then Some (Inr (r1, s2))
                         else (case (if flag \<noteq> EX_E then dep_addr vm sw flag cptr i d r1 s2 else Inr (r1, s2)) of
                                 Inl f \<Rightarrow> Some (Inl f)
                               | Inr (r2, s3) \<Rightarrow>
                                   if flag \<noteq> EX_E \<and> r2 > SCPE_OK then Some (Inr (r2, s3))
                                   else addr_loop vm sw sch flag cptr high d dfltinc (i + of_int (1 - r2)) s3)))"

definition exdep_addr_loop ::
  "'x vm_hooks \<Rightarrow> switches \<Rightarrow> SCHTAB option \<Rightarrow> ex_flag \<Rightarrow> string \<Rightarrow> t_addr \<Rightarrow> t_addr \<Rightarrow> 'm DEVICE \<Rightarrow> 'm adst \<Rightarrow> (unit_fault + t_stat \<times> 'm adst) option" where
  "exdep_addr_loop vm sw sch flag cptr low high d s =
     (let mask = ucast (width_mask (dv_awidth d));
          (r, vals) = parse_sym vm ''0'' 0 True (sim_switches sw);
          dfltinc = (if r > 0 then 1 - uint (dv_aincr d) else r)
      in if un_dis (ad_unit s) then Some (Inr (SCPE_UDIS + SCPE_NOMSG, s))
         else if low > mask \<or> high > mask \<or> low > high then Some (Inr (SCPE_ARG, s))
         else addr_loop vm sw sch flag cptr high d dfltinc low s)"

end
