(* ===== verification/RegisterAccess.thy ===== *)
theory RegisterAccess
  imports Registers
begin

text \<open>
  Registers by the bits of memory that they occupy: what a deposit writes and what it leaves alone,
  what an examination prints, what a search reports, and how names are found.
\<close>

unbundle bit_operations_syntax

subsection \<open>Memory by bits\<close>

definition mem_bit :: "(nat \<Rightarrow> u8) \<Rightarrow> nat \<Rightarrow> bool" where
  "mem_bit m b = bit (m (b div 8)) (b mod 8)"

lemma bit_load_le: "n \<le> 8 \<Longrightarrow> bit (load_le m p n) k \<longleftrightarrow> k < 8 * n \<and> mem_bit m (8 * p + k)"
proof (induction n arbitrary: p k)
  case (Suc n)
  have "bit (load_le m p (Suc n)) k \<longleftrightarrow> bit (m p) k \<and> k < 64 \<or> 8 \<le> k \<and> k < 64 \<and> bit (load_le m (p + 1) n) (k - 8)"
    by (auto simp: bit_or_iff bit_push_bit_iff bit_ucast_iff possible_bit_def dest: bit_imp_le_length)
  moreover have "bit (m p) k \<Longrightarrow> k < 8" by (drule bit_imp_le_length) simp
  moreover have "k < 8 \<Longrightarrow> mem_bit m (8 * p + k) = bit (m p) k" by (simp add: mem_bit_def)
  moreover have "8 \<le> k \<Longrightarrow> 8 * (p + 1) + (k - 8) = 8 * p + k" by simp
  ultimately show ?case using Suc.IH [of "p + 1" "k - 8"] Suc.prems by (cases "k < 8") auto
qed simp

lemma store_le_byte: "n \<le> 8 \<Longrightarrow> store_le m p n v q = (if p \<le> q \<and> q < p + n then ucast (drop_bit (8 * (q - p)) v) else m q)"
proof (induction n arbitrary: m p v)
  case (Suc n)
  have "8 * (q - Suc p) + 8 = 8 * (q - p)" if "Suc p \<le> q" using that by simp
  with Suc show ?case by (auto simp: not_le less_Suc_eq)
qed auto

lemma mem_bit_store_le:
  assumes "n \<le> 8"
  shows "mem_bit (store_le m p n v) b = (if 8 * p \<le> b \<and> b < 8 * (p + n) then bit v (b - 8 * p) else mem_bit m b)"
proof -
  have "p \<le> b div 8 \<and> b div 8 < p + n \<longleftrightarrow> 8 * p \<le> b \<and> b < 8 * (p + n)" by (simp add: less_mult_imp_div_less div_less_iff_less_mult less_eq_div_iff_mult_less_eq mult.commute)
  moreover have "8 * p \<le> b \<Longrightarrow> 8 * (b div 8 - p) + b mod 8 = b - 8 * p"
    using mult_div_mod_eq [of 8 b] by (simp add: diff_mult_distrib2)
  ultimately show ?thesis
    by (simp add: mem_bit_def store_le_byte [OF assms] bit_ucast_iff possible_bit_def bit_drop_bit_eq)
qed

subsection \<open>Registers by bits\<close>

text \<open>A descriptor that fits its storage, as the register macros make them.\<close>

definition reg_ok :: "REG \<Rightarrow> bool" where
  "reg_ok r \<longleftrightarrow> 0 < reg_width r \<and> reg_offset r + reg_width r \<le> 8 * elem_bytes r \<and>
     (reg_depth r > 1 \<longrightarrow> elem_bytes r \<le> reg_stride r) \<and> reg_qptr r < reg_depth r \<and> unat (reg_depth r) < 2 ^ 31"

definition reg_bits :: "REG \<Rightarrow> u32 \<Rightarrow> nat set" where
  "reg_bits r idx = {8 * elem_ptr r idx + reg_offset r ..< 8 * elem_ptr r idx + reg_offset r + reg_width r}"

lemma elem_bytes_le: "elem_bytes r \<le> 8"
  by (simp add: elem_bytes_def)

lemma bit_get_rval:
  assumes "reg_ok r"
  shows "bit (get_rval r idx m) k \<longleftrightarrow> k < reg_width r \<and> mem_bit m (8 * elem_ptr r idx + reg_offset r + k)"
  using assms bit_load_le [OF elem_bytes_le, of m "elem_ptr r idx" r "reg_offset r + k"]
  by (auto simp: get_rval_def width_mask_def reg_ok_def bit_and_iff bit_drop_bit_eq bit_mask_iff possible_bit_def add.assoc elem_bytes_def split: if_splits)

lemma reg_eqI: "reg_ok r \<Longrightarrow> (\<And>b. b \<in> reg_bits r idx \<Longrightarrow> mem_bit m b = mem_bit m' b) \<Longrightarrow> get_rval r idx m = get_rval r idx m'"
  by (rule bit_word_eqI) (auto simp: bit_get_rval reg_bits_def)

text \<open>What is stored for a value that fits the width.\<close>

definition put_mem :: "REG \<Rightarrow> u32 \<Rightarrow> t_value \<Rightarrow> (nat \<Rightarrow> u8) \<Rightarrow> (nat \<Rightarrow> u8)" where
  "put_mem r idx val m =
     store_le m (elem_ptr r idx) (elem_bytes r)
       (load_le m (elem_ptr r idx) (elem_bytes r) AND NOT (push_bit (reg_offset r) (width_mask (reg_width r))) OR push_bit (reg_offset r) val)"

lemma mem_bit_put:
  assumes "reg_ok r" "fits (reg_width r) val"
  shows "mem_bit (put_mem r idx val m) b =
    (if b \<in> reg_bits r idx then bit val (b - (8 * elem_ptr r idx + reg_offset r)) else mem_bit m b)"
proof -
  let ?p = "8 * elem_ptr r idx" and ?o = "reg_offset r" and ?n = "elem_bytes r"
  have w: "?o + reg_width r \<le> 8 * ?n" "8 * ?n \<le> 64" using assms(1) elem_bytes_le [of r] by (simp_all add: reg_ok_def)
  have v: "bit val k \<Longrightarrow> k < reg_width r" for k using assms(2) by (rule fits_bitD)
  show ?thesis
  proof (cases "?p \<le> b \<and> b < 8 * (elem_ptr r idx + ?n)")
    case True
    define k where "k = b - ?p"
    then have b: "b = ?p + k" "k < 8 * ?n" "k < 64" using True w by auto
    have "bit (load_le m (elem_ptr r idx) ?n) k = mem_bit m b" using bit_load_le [OF elem_bytes_le, of m "elem_ptr r idx" r k] b by simp
    moreover have "b \<in> reg_bits r idx \<longleftrightarrow> ?o \<le> k \<and> k < ?o + reg_width r" by (auto simp: reg_bits_def b(1))
    ultimately show ?thesis
      using True b v [of "k - ?o"]
      by (auto simp: put_mem_def mem_bit_store_le [OF elem_bytes_le] bit_or_iff bit_and_iff bit_not_iff bit_push_bit_iff width_mask_def bit_mask_iff possible_bit_def)
  next
    case False
    then have "b \<notin> reg_bits r idx" using w by (auto simp: reg_bits_def)
    with False show ?thesis by (auto simp: put_mem_def mem_bit_store_le [OF elem_bytes_le])
  qed
qed

lemma get_put_same: "reg_ok r \<Longrightarrow> fits (reg_width r) val \<Longrightarrow> get_rval r idx (put_mem r idx val m) = val"
  by (rule bit_word_eqI) (auto simp: bit_get_rval mem_bit_put reg_bits_def dest: fits_bitD)

lemma get_put_other:
  "reg_ok r \<Longrightarrow> fits (reg_width r) val \<Longrightarrow> reg_ok r' \<Longrightarrow> reg_bits r idx \<inter> reg_bits r' idx' = {} \<Longrightarrow>
   get_rval r' idx' (put_mem r idx val m) = get_rval r' idx' m"
  by (rule reg_eqI) (auto simp: mem_bit_put)

lemma elem_index_nat:
  assumes "reg_ok r" "i < reg_depth r"
  shows "unat (elem_index r i) = (if reg_depth r > 1 \<and> reg_flags r AND REG_CIRC \<noteq> 0 then (unat i + unat (reg_qptr r)) mod unat (reg_depth r) else unat i)"
proof -
  have lt: "unat i < unat (reg_depth r)" "unat (reg_qptr r) < unat (reg_depth r)" "unat (reg_depth r) < 2 ^ 31"
    using assms by (simp_all add: reg_ok_def word_less_nat_alt)
  then have sum: "unat (i + reg_qptr r) = unat i + unat (reg_qptr r)" by (simp add: unat_word_ariths)
  show ?thesis
    using lt by (auto simp: elem_index_def Let_def word_le_nat_alt sum unat_sub mod_if)
qed

lemma elem_index_inj:
  assumes "reg_ok r" "i < reg_depth r" "j < reg_depth r" "elem_index r i = elem_index r j"
  shows "i = j"
proof -
  have lt: "unat i < unat (reg_depth r)" "unat j < unat (reg_depth r)" "unat (reg_qptr r) < unat (reg_depth r)"
    using assms by (simp_all add: reg_ok_def word_less_nat_alt)
  have "unat (elem_index r i) = unat (elem_index r j)" using assms(4) by simp
  then have "unat i = unat j"
    unfolding elem_index_nat [OF assms(1,2)] elem_index_nat [OF assms(1,3)] using lt by (auto simp: mod_if split: if_splits)
  then show ?thesis by (simp add: word_unat_eq_iff)
qed

text \<open>Different elements of a register do not share bits.\<close>

lemma elems_disjoint:
  assumes "reg_ok r" "i < reg_depth r" "j < reg_depth r" "i \<noteq> j"
  shows "reg_bits r i \<inter> reg_bits r j = {}"
proof -
  have ne: "unat (elem_index r i) \<noteq> unat (elem_index r j)" using elem_index_inj [OF assms(1-3)] assms(4) by (auto simp: word_unat_eq_iff)
  have d: "reg_depth r > 1" using assms(2-4) by (auto simp: word_less_nat_alt word_unat_eq_iff)
  then have st: "elem_bytes r \<le> reg_stride r" "reg_offset r + reg_width r \<le> 8 * elem_bytes r" using assms(1) by (auto simp: reg_ok_def)
  have far: "8 * elem_ptr r a + (reg_offset r + reg_width r) \<le> 8 * elem_ptr r b" if "unat (elem_index r a) < unat (elem_index r b)" for a b
  proof -
    have "Suc (unat (elem_index r a)) * reg_stride r \<le> unat (elem_index r b) * reg_stride r" using that by (intro mult_le_mono1) simp
    then show ?thesis using st by (simp add: elem_ptr_def)
  qed
  from ne consider "unat (elem_index r i) < unat (elem_index r j)" | "unat (elem_index r j) < unat (elem_index r i)" by linarith
  then show ?thesis by cases (use far in \<open>fastforce simp: reg_bits_def\<close>)+
qed

subsection \<open>Deposit\<close>

text \<open>No notice of the change is given.\<close>

definition quiet :: "'a regst_scheme vm_hooks \<Rightarrow> switches \<Rightarrow> REG \<Rightarrow> bool" where
  "quiet vm sw r \<longleftrightarrow> sim_vm_reg_update vm = None \<or> sim_switches sw AND SWMASK CHR ''Z'' \<noteq> 0 \<or> reg_flags r AND REG_DEPOSIT = 0"

lemma npc_keeps: "host_mem (sim_brk_npc n s) = host_mem s" "ex_out (sim_brk_npc n s) = ex_out s"
  by (simp_all add: sim_brk_npc_def map_used_def Let_def)

lemma put_rval_mem: "quiet vm sw r \<Longrightarrow> host_mem (put_rval vm sw r idx val s) = put_mem r idx val (host_mem s)"
  by (auto simp: quiet_def put_rval_def put_rval_pcchk_def Let_def put_mem_def npc_keeps split: option.splits)

lemma dep_reg_value:
  assumes "reg_flags r AND REG_RO = 0" "reg_value vm sw text r = Some val" "reg_flags r AND REG_NZ = 0 \<or> val \<noteq> 0"
  shows "dep_reg vm sw EX_D text r idx s = (SCPE_OK, put_rval vm sw r idx val s)"
  using assms by (auto simp: dep_reg_def flag_I_def)

definition untouched :: "REG \<Rightarrow> u32 \<Rightarrow> u32 \<Rightarrow> (nat \<Rightarrow> u8) \<Rightarrow> (nat \<Rightarrow> u8) \<Rightarrow> bool" where
  "untouched r lo hi m m' \<longleftrightarrow> (\<forall>b. (\<forall>i. lo \<le> i \<longrightarrow> i \<le> hi \<longrightarrow> b \<notin> reg_bits r i) \<longrightarrow> mem_bit m' b = mem_bit m b)"

lemma reg_elems_deposit:
  assumes r: "reg_ok r" "fits (reg_width r) val" "quiet vm sw r"
    and d: "reg_flags r AND REG_RO = 0" "reg_value vm sw text r = Some val" "reg_flags r AND REG_NZ = 0 \<or> val \<noteq> 0"
    and lim: "limits < reg_depth r"
  shows "\<exists>v vst s'. reg_elems vm sw None EX_D text r lows limits idx v0 l0 vs0 s = (SCPE_OK, v, vst, s') \<and>
    (\<forall>i. idx \<le> i \<longrightarrow> i \<le> limits \<longrightarrow> get_rval r i (host_mem s') = val) \<and> untouched r idx limits (host_mem s) (host_mem s')"
proof (induction "Suc (unat limits) - unat idx" arbitrary: idx v0 s rule: less_induct)
  case less
  show ?case
  proof (cases "idx \<le> limits")
    case False
    then show ?thesis by (subst reg_elems.simps) (auto simp: untouched_def)
  next
    case True
    then have lt: "\<not> idx \<ge> reg_depth r" using lim by auto
    define s1 where "s1 = s\<lparr>ex_eval := (ex_eval s)[0 := get_rval r idx (host_mem s)]\<rparr>"
    define s2 where "s2 = put_rval vm sw r idx val s1"
    have m2: "host_mem s2 = put_mem r idx val (host_mem s)" by (simp add: s2_def s1_def put_rval_mem [OF r(3)])
    have step: "reg_elems vm sw None EX_D text r lows limits idx v0 l0 vs0 s =
        reg_elems vm sw None EX_D text r lows limits (idx + 1) (get_rval r idx (host_mem s)) l0 vs0 s2"
      using True lt by (subst reg_elems.simps) (simp add: dep_reg_value [OF d] Let_def s1_def s2_def)
    have nxt: "unat (idx + 1) = Suc (unat idx)" by (rule idx_Suc [OF lt])
    have "Suc (unat limits) - unat (idx + 1) < Suc (unat limits) - unat idx" using nxt True by (simp add: word_le_nat_alt)
    from less.hyps [OF this, of "get_rval r idx (host_mem s)" s2] obtain v vst s' where
      ih: "reg_elems vm sw None EX_D text r lows limits (idx + 1) (get_rval r idx (host_mem s)) l0 vs0 s2 = (SCPE_OK, v, vst, s')"
        "\<And>i. idx + 1 \<le> i \<Longrightarrow> i \<le> limits \<Longrightarrow> get_rval r i (host_mem s') = val" "untouched r (idx + 1) limits (host_mem s2) (host_mem s')" by blast
    have above: "idx \<le> i \<and> i \<noteq> idx \<longleftrightarrow> idx + 1 \<le> i" for i using nxt by (auto simp: word_le_nat_alt word_unat_eq_iff)
    have dis: "reg_bits r idx \<inter> reg_bits r i = {}" if "idx + 1 \<le> i" "i \<le> limits" for i
      using that above [of i] lt lim by (intro elems_disjoint [OF r(1)]) auto
    have "get_rval r idx (host_mem s') = get_rval r idx (host_mem s2)"
      using ih(3) dis by (intro reg_eqI [OF r(1)]) (auto simp: untouched_def)
    also have "\<dots> = val" unfolding m2 by (rule get_put_same [OF r(1,2)])
    finally have "\<forall>i. idx \<le> i \<longrightarrow> i \<le> limits \<longrightarrow> get_rval r i (host_mem s') = val" using ih(2) above by blast
    moreover have "untouched r idx limits (host_mem s) (host_mem s')"
      unfolding untouched_def
    proof (intro allI impI)
      fix b assume b: "\<forall>i. idx \<le> i \<longrightarrow> i \<le> limits \<longrightarrow> b \<notin> reg_bits r i"
      then have "mem_bit (host_mem s') b = mem_bit (host_mem s2) b" using ih(3) above unfolding untouched_def by blast
      then show "mem_bit (host_mem s') b = mem_bit (host_mem s) b" using b True by (simp add: m2 mem_bit_put [OF r(1,2)])
    qed
    ultimately show ?thesis using ih(1) step by auto
  qed
qed

lemma untouched_reg:
  "untouched r lo hi m m' \<Longrightarrow> reg_ok r' \<Longrightarrow> (\<And>i. lo \<le> i \<Longrightarrow> i \<le> hi \<Longrightarrow> reg_bits r i \<inter> reg_bits r' j = {}) \<Longrightarrow> get_rval r' j m' = get_rval r' j m"
  by (rule reg_eqI) (auto simp: untouched_def)

subsection \<open>Examine\<close>

text \<open>The lines of an examination: an element with its value, or elements that repeat the value before.\<close>

datatype ex_line = Shown u32 t_value | Same u32 u32

fun shown_text :: "'a regst_scheme vm_hooks \<Rightarrow> switches \<Rightarrow> REG \<Rightarrow> t_value list \<Rightarrow> ex_line \<Rightarrow> string" where
  "shown_text vm sw r evl (Shown i v) =
     (if reg_depth r > 1 then elem_text r i else reg_name r) @ [CHR '':'', CHR 0x09] @ reg_text vm sw r v (evl[0 := v]) @ [CHR 0x0A]"
| "shown_text vm sw r evl (Same i j) = same_text r i j"

text \<open>What the lines say of the elements.\<close>

fun expand_lines :: "t_value \<Rightarrow> ex_line list \<Rightarrow> (nat \<times> t_value) list" where
  "expand_lines v [] = []"
| "expand_lines v (Shown i w # ls) = (unat i, w) # expand_lines w ls"
| "expand_lines v (Same i j # ls) = map (\<lambda>k. (k, v)) [unat i..<Suc (unat j)] @ expand_lines v ls"

fun line_value :: "t_value \<Rightarrow> ex_line list \<Rightarrow> t_value" where
  "line_value v [] = v"
| "line_value v (Shown i w # ls) = line_value w ls"
| "line_value v (Same i j # ls) = line_value v ls"

lemma expand_append: "expand_lines v (ls @ ms) = expand_lines v ls @ expand_lines (line_value v ls) ms"
  by (induction v ls rule: expand_lines.induct) simp_all

lemma line_value_append [simp]: "line_value v (ls @ ms) = line_value (line_value v ls) ms"
  by (induction v ls rule: line_value.induct) simp_all

text \<open>
  The lines that are printed.  The elements fall into runs \<open>(first, last, value)\<close> of equal values, as long
  as they can be.  Of every run the first element is shown and one line stands for the others; in the last
  run a single other element is shown as well.
\<close>

fun runs :: "(nat \<times> t_value) list \<Rightarrow> (nat \<times> nat \<times> t_value) list" where
  "runs [] = []"
| "runs ((i, v) # xs) =
     (case runs xs of
        [] \<Rightarrow> [(i, i, v)]
      | (a, b, w) # rs \<Rightarrow> if w = v then (i, b, v) # rs else (i, i, v) # (a, b, w) # rs)"

fun run_lines :: "nat \<times> nat \<times> t_value \<Rightarrow> ex_line list" where
  "run_lines (a, b, v) = Shown (of_nat a) v # (if a < b then [Same (of_nat (Suc a)) (of_nat b)] else [])"

fun last_run_lines :: "nat \<times> nat \<times> t_value \<Rightarrow> ex_line list" where
  "last_run_lines (a, b, v) = (if b = Suc a then [Shown (of_nat a) v, Shown (of_nat b) v] else run_lines (a, b, v))"

definition examine_lines :: "(nat \<times> t_value) list \<Rightarrow> ex_line list" where
  "examine_lines xs = (let rs = runs xs in
     if rs = [] then [] else concat (map run_lines (butlast rs)) @ last_run_lines (last rs))"

lemma runs_not_Nil: "xs \<noteq> [] \<Longrightarrow> runs xs \<noteq> []"
  by (cases xs) (auto split: list.splits if_splits)

lemma runs_snoc:
  "runs xs = rs @ [(a, b, w)] \<Longrightarrow>
   runs (xs @ [(i, v)]) = (if w = v then rs @ [(a, i, w)] else rs @ [(a, b, w), (i, i, v)])"
proof (induction xs arbitrary: rs a b w)
  case (Cons x xs)
  obtain j u where x: "x = (j, u)" by (cases x)
  show ?case
  proof (cases "runs xs")
    case Nil
    then have "xs = []" using runs_not_Nil by blast
    with Cons.prems x show ?thesis by auto
  next
    case (Cons p ps)
    then obtain rs' a' b' w' where l: "runs xs = rs' @ [(a', b', w')]" by (metis append_butlast_last_id list.distinct(1) prod_cases3)
    show ?thesis using Cons.prems Cons.IH [OF l] l x by (cases rs') (auto split: if_splits list.splits)
  qed
qed simp

lemma ex_reg_line:
  "ex_reg vm sw v EX_E r idx s =
     (SCPE_OK, s\<lparr>ex_out := ex_out s @ shown_text vm sw r (ex_eval s) (Shown idx v), ex_eval := (ex_eval s)[0 := v]\<rparr>)"
  by (simp add: ex_reg_def flag_E_def flag_I_def put_text_def Let_def)

definition elems :: "REG \<Rightarrow> (nat \<Rightarrow> u8) \<Rightarrow> nat \<Rightarrow> nat \<Rightarrow> (nat \<times> t_value) list" where
  "elems r m lo hi = map (\<lambda>k. (k, get_rval r (of_nat k) m)) [lo..<hi]"

text \<open>
  What holds in the loop before \<open>idx\<close>: the lines tell the elements up to \<open>vst\<close>, and the others have
  the same value.
\<close>

definition ex_inv ::
  "'a regst_scheme vm_hooks \<Rightarrow> switches \<Rightarrow> REG \<Rightarrow> u32 \<Rightarrow> 'a regst_scheme \<Rightarrow> u32 \<Rightarrow> t_value \<Rightarrow> u32 \<Rightarrow> 'a regst_scheme \<Rightarrow> ex_line list \<Rightarrow> bool" where
  "ex_inv vm sw r lows s0 idx last_val vst s ls \<longleftrightarrow>
     host_mem s = host_mem s0 \<and> tl (ex_eval s) = tl (ex_eval s0) \<and> length (ex_eval s) = length (ex_eval s0) \<and>
     ex_out s = ex_out s0 @ concat (map (shown_text vm sw r (ex_eval s0)) ls) \<and>
     expand_lines 0 ls = elems r (host_mem s0) (unat lows) (Suc (unat vst)) \<and> line_value 0 ls = last_val \<and>
     lows \<le> vst \<and> vst < idx \<and> (\<forall>i. vst \<le> i \<longrightarrow> i < idx \<longrightarrow> get_rval r i (host_mem s0) = last_val) \<and>
     (\<exists>rs. runs (elems r (host_mem s0) (unat lows) (unat idx)) = rs @ [(unat vst, unat idx - 1, last_val)] \<and>
       ls = concat (map run_lines rs) @ [Shown vst last_val])"

lemma eval_upd: "tl e = tl e' \<Longrightarrow> length e = length e' \<Longrightarrow> e[0 := v] = e'[0 := (v :: t_value)]"
  by (cases e; cases e') auto

lemma elems_snoc: "lo \<le> hi \<Longrightarrow> elems r m lo (Suc hi) = elems r m lo hi @ [(hi, get_rval r (of_nat hi) m)]"
  by (simp add: elems_def)

lemma elems_const:
  assumes "\<And>i. a \<le> i \<Longrightarrow> i < b \<Longrightarrow> get_rval r i m = v"
  shows "elems r m (unat a) (unat b) = map (\<lambda>k. (k, v)) [unat a..<unat b]"
proof -
  have "get_rval r (of_nat k) m = v" if "unat a \<le> k" "k < unat b" for k
  proof -
    have "unat b < 2 ^ 32" using unsigned_less [of b] by simp
    with that(2) have "k < 2 ^ 32" by linarith
    then have "unat (of_nat k :: u32) = k" by (simp add: unat_of_nat)
    then show ?thesis using that by (intro assms) (simp_all add: word_le_nat_alt word_less_nat_alt)
  qed
  then show ?thesis by (simp add: elems_def)
qed

lemma elems_split: "lo \<le> mid \<Longrightarrow> mid \<le> hi \<Longrightarrow> elems r m lo hi = elems r m lo mid @ elems r m mid hi"
  using upt_add_eq_append [of lo mid "hi - mid"] by (simp add: elems_def)

text \<open>The lines that the element \<open>idx\<close> adds when it is printed.\<close>

definition add_lines :: "u32 \<Rightarrow> u32 \<Rightarrow> t_value \<Rightarrow> ex_line list" where
  "add_lines vst idx v = (if idx > vst + 1 then [Same (vst + 1) (idx - 1)] else []) @ [Shown idx v]"

lemma run_lines_step:
  assumes "vst < idx"
  shows "run_lines (unat vst, unat idx - 1, l) = Shown vst l # (if idx > vst + 1 then [Same (vst + 1) (idx - 1)] else [])"
proof -
  have vst1: "unat (vst + 1) = Suc (unat vst)" using idx_Suc [of idx vst] assms by simp
  have "of_nat (Suc (unat vst)) = vst + 1" by simp
  moreover have "of_nat (unat idx - 1) = idx - 1"
  proof -
    have "unat (idx - 1) = unat idx - 1" using assms by (simp add: unat_sub word_le_nat_alt word_less_nat_alt)
    then have "of_nat (unat idx - 1) = (of_nat (unat (idx - 1)) :: u32)" by simp
    then show ?thesis by simp
  qed
  moreover have "unat vst < unat idx - 1 \<longleftrightarrow> idx > vst + 1" using vst1 by (auto simp: word_less_nat_alt)
  ultimately show ?thesis by simp
qed

lemma ex_inv_show:
  assumes inv: "ex_inv vm sw r lows s0 idx l vst s ls" and v: "v = get_rval r idx (host_mem s0)"
    and s': "host_mem s' = host_mem s0" "tl (ex_eval s') = tl (ex_eval s0)" "length (ex_eval s') = length (ex_eval s0)"
      "ex_out s' = ex_out s @ concat (map (shown_text vm sw r (ex_eval s0)) (add_lines vst idx v))"
    and nxt: "unat (idx + 1) = Suc (unat idx)" and ne: "v \<noteq> l"
  shows "ex_inv vm sw r lows s0 (idx + 1) v idx s' (ls @ add_lines vst idx v)"
proof -
  have lt: "lows \<le> vst" "vst < idx" using inv by (simp_all add: ex_inv_def)
  have vst1: "unat (vst + 1) = Suc (unat vst)" using idx_Suc [of idx vst] lt(2) by simp
  have i1: "idx > vst + 1 \<Longrightarrow> Suc (unat (idx - 1)) = unat idx"
    using vst1 by (simp add: word_less_nat_alt unat_sub word_le_nat_alt)
  have le: "unat lows \<le> Suc (unat vst)" "Suc (unat vst) \<le> unat idx" using lt by (simp_all add: word_le_nat_alt word_less_nat_alt)
  have con: "elems r (host_mem s0) (unat (vst + 1)) (unat idx) = map (\<lambda>k. (k, l)) [unat (vst + 1)..<unat idx]"
    using inv by (intro elems_const) (auto simp: ex_inv_def word_le_nat_alt word_less_nat_alt vst1)
  have "expand_lines l (add_lines vst idx v) = elems r (host_mem s0) (Suc (unat vst)) (unat idx) @ [(unat idx, v)]"
  proof (cases "idx > vst + 1")
    case True
    then show ?thesis using con i1 by (simp add: add_lines_def vst1)
  next
    case False
    then have "unat idx = Suc (unat vst)" using le vst1 by (simp add: word_less_nat_alt)
    with False show ?thesis by (simp add: add_lines_def elems_def)
  qed
  then have "expand_lines 0 (ls @ add_lines vst idx v) = elems r (host_mem s0) (unat lows) (Suc (unat idx))"
    using inv le v by (simp add: ex_inv_def expand_append elems_snoc elems_split [of "unat lows" "Suc (unat vst)" "unat idx"])
  moreover have "line_value 0 (ls @ add_lines vst idx v) = v" by (simp add: add_lines_def)
  moreover have "i = idx" if "idx \<le> i" "i < idx + 1" for i using that nxt by (simp add: word_le_nat_alt word_less_nat_alt word_unat_eq_iff)
  moreover have "\<exists>rs. runs (elems r (host_mem s0) (unat lows) (unat (idx + 1))) = rs @ [(unat idx, unat (idx + 1) - 1, v)] \<and>
      ls @ add_lines vst idx v = concat (map run_lines rs) @ [Shown idx v]"
  proof -
    obtain rs where rs: "runs (elems r (host_mem s0) (unat lows) (unat idx)) = rs @ [(unat vst, unat idx - 1, l)]"
      "ls = concat (map run_lines rs) @ [Shown vst l]" using inv by (auto simp: ex_inv_def)
    have "runs (elems r (host_mem s0) (unat lows) (Suc (unat idx))) = rs @ [(unat vst, unat idx - 1, l), (unat idx, unat idx, v)]"
      using runs_snoc [OF rs(1), of "unat idx" v] ne v le by (simp add: elems_snoc)
    moreover have "run_lines (unat vst, unat idx - 1, l) @ [Shown idx v] = Shown vst l # add_lines vst idx v"
      using run_lines_step [of vst idx l] lt(2) by (simp add: add_lines_def)
    ultimately show ?thesis using rs(2) nxt by (intro exI [of _ "rs @ [(unat vst, unat idx - 1, l)]"]) simp
  qed
  ultimately show ?thesis
    using inv s' lt nxt v unfolding ex_inv_def by (auto simp: word_less_nat_alt word_le_nat_alt)
qed

lemma tl_upd [simp]: "tl (e[0 := v]) = tl e"
  by (cases e) simp_all

lemma below_Suc: "unat (idx + 1 :: u32) = Suc (unat idx) \<Longrightarrow> i < idx + 1 \<longleftrightarrow> i < idx \<or> i = idx"
  by (auto simp: word_less_nat_alt word_unat_eq_iff)

lemma ex_inv_repeat:
  assumes "ex_inv vm sw r lows s0 idx l vst s ls" "unat (idx + 1) = Suc (unat idx)" "get_rval r idx (host_mem s0) = l"
  shows "ex_inv vm sw r lows s0 (idx + 1) l vst (s\<lparr>ex_eval := (ex_eval s)[0 := v]\<rparr>) ls"
proof -
  have le: "unat lows \<le> unat idx" "0 < unat idx" using assms(1) by (auto simp: ex_inv_def word_less_nat_alt word_le_nat_alt)
  obtain rs where rs: "runs (elems r (host_mem s0) (unat lows) (unat idx)) = rs @ [(unat vst, unat idx - 1, l)]"
    "ls = concat (map run_lines rs) @ [Shown vst l]" using assms(1) by (auto simp: ex_inv_def)
  have "runs (elems r (host_mem s0) (unat lows) (unat (idx + 1))) = rs @ [(unat vst, unat (idx + 1) - 1, l)]"
    using runs_snoc [OF rs(1), of "unat idx" l] assms(2,3) le by (simp add: elems_snoc)
  with assms rs(2) show ?thesis unfolding ex_inv_def by (auto simp: below_Suc)
qed

text \<open>The step of the loop that prints.\<close>

lemma reg_elems_show:
  assumes "idx \<le> limits" "\<not> idx \<ge> reg_depth r" "tl (ex_eval s) = tl e" "length (ex_eval s) = length e"
    and v: "v = get_rval r idx (host_mem s)" "\<not> (idx > lows \<and> v = l)" and ok: "sch = None \<or> test_search (e[0 := v]) sch"
  shows "reg_elems vm sw sch EX_E text r lows limits idx v0 l vst s =
    reg_elems vm sw sch EX_E text r lows limits (idx + 1) v v idx
      (s\<lparr>ex_last_val := v, ex_out := ex_out s @ concat (map (shown_text vm sw r e) (add_lines vst idx v)), ex_eval := e[0 := v]\<rparr>)"
proof -
  have e: "(ex_eval s)[0 := v] = e[0 := v]" by (rule eval_upd [OF assms(3,4)])
  show ?thesis
    using assms(1,2) v(2) ok by (subst reg_elems.simps) (auto simp: Let_def ex_reg_line put_text_def add_lines_def e v(1) [symmetric])
qed

lemma reg_elems_examine:
  assumes "limits < reg_depth r"
  shows "ex_inv vm sw r lows s0 idx l vst s ls \<Longrightarrow> idx \<le> limits + 1 \<Longrightarrow> v0 = l \<Longrightarrow>
    \<exists>l' vst' s' ls'. reg_elems vm sw None EX_E text r lows limits idx v0 l vst s = (SCPE_OK, l', vst', s') \<and>
      ex_inv vm sw r lows s0 (limits + 1) l' vst' s' ls'"
proof (induction "Suc (unat limits) - unat idx" arbitrary: idx v0 l vst s ls rule: less_induct)
  case less
  have lim: "unat (limits + 1) = Suc (unat limits)" using idx_Suc [of "reg_depth r" limits] assms by simp
  show ?case
  proof (cases "idx \<le> limits")
    case False
    then have "idx = limits + 1" using less.prems(2) lim by (simp add: word_le_nat_alt word_unat_eq_iff)
    then show ?thesis using False less.prems by (subst reg_elems.simps) auto
  next
    case True
    then have lt: "\<not> idx \<ge> reg_depth r" using assms by auto
    have nxt: "unat (idx + 1) = Suc (unat idx)" by (rule idx_Suc [OF lt])
    have meas: "Suc (unat limits) - unat (idx + 1) < Suc (unat limits) - unat idx" "idx + 1 \<le> limits + 1"
      using nxt True lim by (simp_all add: word_le_nat_alt)
    have inv: "host_mem s = host_mem s0" "tl (ex_eval s) = tl (ex_eval s0)" "length (ex_eval s) = length (ex_eval s0)" "lows < idx" "vst < idx"
      using less.prems(1) by (auto simp: ex_inv_def)
    define v where "v = get_rval r idx (host_mem s0)"
    define s1 where "s1 = s\<lparr>ex_eval := (ex_eval s)[0 := v]\<rparr>"
    show ?thesis
    proof (cases "v = l")
      case True
      have "ex_inv vm sw r lows s0 (idx + 1) l vst (s\<lparr>ex_eval := (ex_eval s)[0 := v]\<rparr>) ls"
        using ex_inv_repeat [OF less.prems(1) nxt] True by (simp add: v_def)
      from less.hyps [OF meas(1) this meas(2) True]
      show ?thesis using \<open>idx \<le> limits\<close> lt inv True by (subst reg_elems.simps) (simp add: Let_def v_def)
    next
      case False
      let ?s = "s\<lparr>ex_last_val := v, ex_out := ex_out s @ concat (map (shown_text vm sw r (ex_eval s0)) (add_lines vst idx v)), ex_eval := (ex_eval s0)[0 := v]\<rparr>"
      have "ex_inv vm sw r lows s0 (idx + 1) v idx ?s (ls @ add_lines vst idx v)"
        by (rule ex_inv_show [OF less.prems(1) v_def _ _ _ _ nxt False]) (simp_all add: inv(1))
      from less.hyps [OF meas(1) this meas(2) refl] reg_elems_show [OF True lt inv(2,3), where v = v and lows = lows and l = l and sch = None] False
      show ?thesis by (simp add: v_def inv(1))
    qed
  qed
qed

text \<open>One register without a search: the lines tell exactly its elements.\<close>

lemma examine_lines_end:
  assumes "runs xs = rs @ [(unat vst, unat (highs :: u32), l)]" "vst \<le> highs"
  shows "examine_lines xs = concat (map run_lines rs) @ [Shown vst l] @
    (if vst = highs then [] else if highs = vst + 1 then [Shown highs l] else [Same (vst + 1) highs])"
proof -
  consider (full) "vst = highs" | (less) "vst < highs" using assms(2) by force
  then show ?thesis
  proof cases
    case full
    then show ?thesis using assms(1) by (simp add: examine_lines_def Let_def)
  next
    case less
    then have "unat (vst + 1) = Suc (unat vst)" using idx_Suc [of highs vst] by (simp add: not_le)
    moreover have "unat vst < unat highs" using less by (simp add: word_less_nat_alt)
    moreover from calculation have "highs = vst + 1 \<longleftrightarrow> unat highs = Suc (unat vst)" by (simp add: word_unat_eq_iff)
    ultimately show ?thesis using assms(1) less by (auto simp: examine_lines_def Let_def)
  qed
qed

lemma reg_one_examine:
  assumes "sim_switches sw AND SIM_SW_HIDE = 0 \<or> reg_flags r AND REG_HIDDEN = 0" "lows \<le> highs" "highs < reg_depth r"
    and "lows \<le> vst0 \<and> unat vst0 < 2 ^ 31" "unat (reg_depth r) < 2 ^ 31"
  shows "\<exists>vst s' ls. reg_one vm sw None EX_E text r lows highs vst0 s = (SCPE_OK, vst, s') \<and> host_mem s' = host_mem s \<and>
    ex_out s' = ex_out s @ concat (map (shown_text vm sw r (ex_eval s)) ls) \<and> expand_lines 0 ls = elems r (host_mem s) (unat lows) (Suc (unat highs)) \<and>
    ls = examine_lines (elems r (host_mem s) (unat lows) (Suc (unat highs)))"
proof -
  have lt: "\<not> lows \<ge> reg_depth r" using assms(2,3) by auto
  have nxt: "unat (lows + 1) = Suc (unat lows)" by (rule idx_Suc [OF lt])
  have hi: "unat (highs + 1) = Suc (unat highs)" using idx_Suc [of "reg_depth r" highs] assms(3) by simp
  define v where "v = get_rval r lows (host_mem s)"
  let ?s = "s\<lparr>ex_last_val := v, ex_out := ex_out s @ concat (map (shown_text vm sw r (ex_eval s)) (add_lines vst0 lows v)), ex_eval := (ex_eval s)[0 := v]\<rparr>"
  have one: "i < lows + 1 \<longleftrightarrow> i < lows \<or> i = lows" for i by (rule below_Suc [OF nxt])
  have no_gap: "add_lines vst0 lows v = [Shown lows v]"
    using assms(4) by (simp add: add_lines_def word_less_nat_alt word_le_nat_alt unat_word_ariths)
  have "ex_inv vm sw r lows s (lows + 1) v lows ?s [Shown lows v]"
    unfolding ex_inv_def no_gap using nxt by (auto simp: one v_def elems_def)
  moreover have "lows + 1 \<le> highs + 1" using assms(2) nxt hi by (simp add: word_le_nat_alt)
  ultimately obtain l vst s' ls where
    loop: "reg_elems vm sw None EX_E text r lows highs (lows + 1) v v lows ?s = (SCPE_OK, l, vst, s')"
    and inv: "ex_inv vm sw r lows s (highs + 1) l vst s' ls" using reg_elems_examine [OF assms(3)] by blast
  have start: "reg_elems vm sw None EX_E text r lows highs lows 0 0 vst0 s = (SCPE_OK, l, vst, s')"
    using reg_elems_show [OF assms(2) lt refl refl v_def, where lows = lows and l = 0 and sch = None] loop by simp
  have "highs \<noteq> 0xFFFFFFFF" using assms(3,5) by (auto simp: word_less_nat_alt)
  note unf = this assms(1) start
  have le: "vst \<le> highs" "lows \<le> vst" using inv below_Suc [OF hi] by (auto simp: ex_inv_def)
  have v1: "vst \<noteq> highs \<Longrightarrow> unat (vst + 1) = Suc (unat vst)" using idx_Suc [of highs vst] le by (simp add: not_le order.strict_iff_order)
  have same: "elems r (host_mem s) (Suc (unat vst)) (Suc (unat highs)) = map (\<lambda>k. (k, l)) [Suc (unat vst)..<Suc (unat highs)]" if "vst \<noteq> highs"
  proof -
    have "elems r (host_mem s) (unat (vst + 1)) (unat (highs + 1)) = map (\<lambda>k. (k, l)) [unat (vst + 1)..<unat (highs + 1)]"
      using inv v1 [OF that] by (intro elems_const) (auto simp: ex_inv_def word_le_nat_alt)
    then show ?thesis by (simp only: v1 [OF that] hi)
  qed
  have all: "elems r (host_mem s) (unat lows) (Suc (unat highs)) = elems r (host_mem s) (unat lows) (Suc (unat vst)) @ elems r (host_mem s) (Suc (unat vst)) (Suc (unat highs))"
    using le by (intro elems_split) (simp_all add: word_le_nat_alt)
  obtain rs where rs: "runs (elems r (host_mem s) (unat lows) (Suc (unat highs))) = rs @ [(unat vst, unat highs, l)]"
    "ls = concat (map run_lines rs) @ [Shown vst l]" using inv hi by (auto simp: ex_inv_def)
  note lines = examine_lines_end [OF rs(1) le(1)] rs(2)
  consider (full) "vst = highs" | (one) "vst \<noteq> highs" "highs = vst + 1" | (rest) "vst \<noteq> highs" "highs \<noteq> vst + 1" by blast
  then show ?thesis
  proof cases
    case full
    then show ?thesis using inv unf by (intro exI [of _ vst] exI [of _ s'] exI [of _ ls]) (auto simp: reg_one_def ex_inv_def lines)
  next
    case one
    have "elems r (host_mem s) (Suc (unat vst)) (Suc (unat highs)) = [(unat highs, l)]" using same [OF one(1)] v1 [OF one(1)] one(2) by simp
    then have x: "expand_lines 0 (ls @ [Shown highs l]) = elems r (host_mem s) (unat lows) (Suc (unat highs))"
      using inv all by (simp add: ex_inv_def expand_append)
    have y: "ls @ [Shown highs l] = examine_lines (elems r (host_mem s) (unat lows) (Suc (unat highs)))" using lines one by simp
    let ?s' = "snd (ex_reg vm sw l EX_E r highs s')"
    have "reg_one vm sw None EX_E text r lows highs vst0 s = (SCPE_OK, vst, ?s')" "host_mem ?s' = host_mem s"
      "ex_out ?s' = ex_out s @ concat (map (shown_text vm sw r (ex_eval s)) (ls @ [Shown highs l]))"
      using inv unf one eval_upd [of "ex_eval s'" "ex_eval s" l] by (auto simp: reg_one_def ex_inv_def ex_reg_line)
    with x y show ?thesis by blast
  next
    case rest
    have x: "expand_lines 0 (ls @ [Same (vst + 1) highs]) = elems r (host_mem s) (unat lows) (Suc (unat highs))"
      using rest inv all same v1 by (simp add: ex_inv_def expand_append)
    have y: "ls @ [Same (vst + 1) highs] = examine_lines (elems r (host_mem s) (unat lows) (Suc (unat highs)))" using lines rest by simp
    let ?s' = "put_text (same_text r (vst + 1) highs) s'"
    have "reg_one vm sw None EX_E text r lows highs vst0 s = (SCPE_OK, vst, ?s')" "host_mem ?s' = host_mem s"
      "ex_out ?s' = ex_out s @ concat (map (shown_text vm sw r (ex_eval s)) (ls @ [Same (vst + 1) highs]))"
      using inv unf rest by (auto simp: reg_one_def ex_inv_def put_text_def)
    with x y show ?thesis by blast
  qed
qed

subsection \<open>Names\<close>

lemma find_reg_name:
  assumes "List.find (\<lambda>r. reg_name r = name) regs = Some r" "name \<noteq> []" "list_all reg_name_char (tl name)" "rest = [] \<or> \<not> reg_name_char (hd rest)"
  shows "find_reg (name @ rest) regs = Some (r, rest)"
proof -
  have "takeWhile reg_name_char (tl (name @ rest)) = tl name"
    using assms(2-4) by (cases name; cases rest) (auto simp: list_all_iff takeWhile_append)
  then have slnt: "Suc (length (takeWhile reg_name_char (tl (name @ rest)))) = length name" using assms(2) by (cases name) auto
  have eq: "(\<lambda>r. length name = length (reg_name r) \<and> take (length name) (name @ rest) = reg_name r) = (\<lambda>r. reg_name r = name)" by auto
  show ?thesis unfolding find_reg_def slnt Let_def eq assms(1) by simp
qed

definition reg_hits :: "string \<Rightarrow> (bool \<times> REG list) list \<Rightarrow> nat \<Rightarrow> (REG \<times> string \<times> nat) list" where
  "reg_hits cptr devs k =
     concat (map (\<lambda>(i, dis, regs). if dis then [] else case find_reg cptr regs of None \<Rightarrow> [] | Some (r, t) \<Rightarrow> [(r, t, i)]) (zip [k..<k + length devs] devs))"

lemma reg_hits_Cons:
  "reg_hits cptr ((dis, regs) # devs) k =
     (if dis then [] else case find_reg cptr regs of None \<Rightarrow> [] | Some (r, t) \<Rightarrow> [(r, t, k)]) @ reg_hits cptr devs (Suc k)"
  by (simp add: reg_hits_def upt_rec)

lemma find_glob_loop:
  "find_reg_glob_loop want cptr devs k found st =
     (let hits = (case found of None \<Rightarrow> [] | Some x \<Rightarrow> [x]) @ reg_hits cptr devs k
      in if want then (if st \<noteq> SCPE_OK \<or> 2 \<le> length hits \<and> reg_hits cptr devs k \<noteq> [] then (None, if 2 \<le> length hits \<and> reg_hits cptr devs k \<noteq> [] then SCPE_AMBREG + 0x40000000 else st)
                       else (case hits of [] \<Rightarrow> None | x # _ \<Rightarrow> Some x, st))
         else if 2 \<le> length hits then (None, st) else (case hits of [] \<Rightarrow> None | x # _ \<Rightarrow> Some x, st))"
proof (induction want cptr devs k found st rule: find_reg_glob_loop.induct)
  case (1 want cptr i found stat)
  then show ?case by (cases found) (auto simp: reg_hits_def Let_def)
next
  case (2 want cptr dis regs devs i found stat)
  show ?case
  proof (cases "dis \<or> find_reg cptr regs = None")
    case True
    then have "reg_hits cptr ((dis, regs) # devs) i = reg_hits cptr devs (Suc i)"
      "find_reg_glob_loop want cptr ((dis, regs) # devs) i found stat = find_reg_glob_loop want cptr devs (i + 1) found stat"
      by (auto simp: reg_hits_Cons)
    then show ?thesis unfolding Suc_eq_plus1 using "2.IH"(1,2) True by (cases dis) (simp_all only: simp_thms)
  next
    case False
    then obtain r t where "find_reg cptr regs = Some (r, t)" "\<not> dis" by auto
    then show ?thesis using "2.IH"(3) by (cases found) (auto simp: reg_hits_Cons Let_def split: list.splits)
  qed
qed

subsection \<open>Searching\<close>

definition selected :: "SCHTAB \<Rightarrow> t_value list \<Rightarrow> REG \<Rightarrow> (nat \<Rightarrow> u8) \<Rightarrow> u32 \<Rightarrow> bool" where
  "selected t evl r m i = test_search (evl[0 := get_rval r i m]) (Some t)"

text \<open>
  What holds in the loop of a search before \<open>idx\<close>: the lines say something of every element up to the last
  one printed, \<open>vst\<close>, and of those that are not selected something wrong.
\<close>

definition misreported :: "(nat \<times> t_value) list \<Rightarrow> REG \<Rightarrow> (nat \<Rightarrow> u8) \<Rightarrow> u32 \<Rightarrow> bool" where
  "misreported xs r m i \<longleftrightarrow> (\<exists>w. (unat i, w) \<in> set xs \<and> w \<noteq> get_rval r i m)"

definition search_inv ::
  "'a regst_scheme vm_hooks \<Rightarrow> switches \<Rightarrow> SCHTAB \<Rightarrow> REG \<Rightarrow> u32 \<Rightarrow> 'a regst_scheme \<Rightarrow> u32 \<Rightarrow> t_value \<Rightarrow> u32 \<Rightarrow> 'a regst_scheme \<Rightarrow> ex_line list \<Rightarrow> bool" where
  "search_inv vm sw t r lows s0 idx last_val vst s ls \<longleftrightarrow>
     host_mem s = host_mem s0 \<and> tl (ex_eval s) = tl (ex_eval s0) \<and> length (ex_eval s) = length (ex_eval s0) \<and>
     ex_out s = ex_out s0 @ concat (map (shown_text vm sw r (ex_eval s0)) ls) \<and>
     map fst (expand_lines 0 ls) = [unat lows..<Suc (unat vst)] \<and> line_value 0 ls = last_val \<and> lows \<le> vst \<and> vst < idx \<and>
     last_val = get_rval r vst (host_mem s0) \<and> selected t (ex_eval s0) r (host_mem s0) vst \<and>
     (\<forall>i. lows \<le> i \<longrightarrow> i \<le> vst \<longrightarrow> \<not> selected t (ex_eval s0) r (host_mem s0) i \<longrightarrow> misreported (expand_lines 0 ls) r (host_mem s0) i)"

lemma selected_differs: "selected t e r m i \<Longrightarrow> \<not> selected t e r m j \<Longrightarrow> get_rval r i m \<noteq> get_rval r j m"
  by (auto simp: selected_def)

lemma misreported_append: "misreported (xs @ ys) r m i \<longleftrightarrow> misreported xs r m i \<or> misreported ys r m i"
  by (auto simp: misreported_def)

lemma expand_add_lines:
  assumes "vst < idx"
  shows "expand_lines l (add_lines vst idx v) = map (\<lambda>k. (k, l)) [Suc (unat vst)..<unat idx] @ [(unat idx, v)]"
proof -
  have vst1: "unat (vst + 1) = Suc (unat vst)" using idx_Suc [of idx vst] assms by simp
  have "unat (idx - 1) = unat idx - 1" using assms by (simp add: unat_sub word_le_nat_alt word_less_nat_alt)
  then show ?thesis using assms vst1 by (auto simp: add_lines_def word_less_nat_alt)
qed

lemma same_misreported:
  assumes "selected t e r m vst" "l = get_rval r vst m" "vst < i" "unat i < n" "\<not> selected t e r m i"
  shows "misreported (map (\<lambda>k. (k, l)) [Suc (unat vst)..<n]) r m i"
proof -
  have "unat i \<in> set [Suc (unat vst)..<n]" using assms(3,4) by (simp add: word_less_nat_alt Suc_le_eq)
  then have "(unat i, l) \<in> set (map (\<lambda>k. (k, l)) [Suc (unat vst)..<n])" by simp
  with selected_differs [OF assms(1,5)] assms(2) show ?thesis unfolding misreported_def by blast
qed

lemma upt_join: "a \<le> b \<Longrightarrow> b \<le> c \<Longrightarrow> [a..<b] @ [b..<c] = [a..<c]"
  using upt_add_eq_append [of a b "c - b"] by simp

lemma search_inv_show:
  assumes inv: "search_inv vm sw t r lows s0 idx l vst s ls" and v: "v = get_rval r idx (host_mem s0)"
    and s': "host_mem s' = host_mem s0" "tl (ex_eval s') = tl (ex_eval s0)" "length (ex_eval s') = length (ex_eval s0)"
      "ex_out s' = ex_out s @ concat (map (shown_text vm sw r (ex_eval s0)) (add_lines vst idx v))"
    and nxt: "unat (idx + 1) = Suc (unat idx)" and sel: "selected t (ex_eval s0) r (host_mem s0) idx"
  shows "search_inv vm sw t r lows s0 (idx + 1) v idx s' (ls @ add_lines vst idx v)"
proof -
  have lt: "lows \<le> vst" "vst < idx" using inv by (simp_all add: search_inv_def)
  have le: "unat lows \<le> Suc (unat vst)" "Suc (unat vst) \<le> unat idx" using lt by (simp_all add: word_le_nat_alt word_less_nat_alt)
  have ex: "expand_lines 0 (ls @ add_lines vst idx v) = expand_lines 0 ls @ map (\<lambda>k. (k, l)) [Suc (unat vst)..<unat idx] @ [(unat idx, v)]"
    using inv expand_add_lines [OF lt(2)] by (simp add: expand_append search_inv_def)
  have "map fst (expand_lines 0 (ls @ add_lines vst idx v)) = [unat lows..<Suc (unat idx)]"
    using inv le upt_join [OF le] by (simp add: ex search_inv_def comp_def)
  moreover have "misreported (expand_lines 0 (ls @ add_lines vst idx v)) r (host_mem s0) i"
    if i: "lows \<le> i" "i \<le> idx" "\<not> selected t (ex_eval s0) r (host_mem s0) i" for i
  proof (cases "i \<le> vst")
    case True
    then show ?thesis using inv i by (simp add: ex misreported_append search_inv_def)
  next
    case False
    have "i \<noteq> idx" using i(3) sel by auto
    then have "unat i < unat idx" using i(2) by (simp add: word_le_nat_alt word_unat_eq_iff)
    with False i(3) inv show ?thesis
      using same_misreported [of t "ex_eval s0" r "host_mem s0" vst l i "unat idx"] by (simp add: ex misreported_append search_inv_def)
  qed
  moreover have "line_value 0 (ls @ add_lines vst idx v) = v" by (simp add: add_lines_def)
  moreover have "idx < idx + 1" using nxt by (simp add: word_less_nat_alt)
  ultimately show ?thesis
    using inv s' lt v sel unfolding search_inv_def by simp
qed

lemma search_inv_skip:
  "search_inv vm sw t r lows s0 idx l vst s ls \<Longrightarrow> unat (idx + 1) = Suc (unat idx) \<Longrightarrow>
   search_inv vm sw t r lows s0 (idx + 1) l vst (s\<lparr>ex_eval := (ex_eval s)[0 := v]\<rparr>) ls"
  unfolding search_inv_def by (auto simp: below_Suc)

lemma reg_elems_search:
  assumes "limits < reg_depth r"
  shows "search_inv vm sw t r lows s0 idx l vst s ls \<Longrightarrow> idx \<le> limits + 1 \<Longrightarrow>
    \<exists>v' l' vst' s' ls'. reg_elems vm sw (Some t) EX_E text r lows limits idx v0 l vst s = (SCPE_OK, v', vst', s') \<and>
      search_inv vm sw t r lows s0 (limits + 1) l' vst' s' ls'"
proof (induction "Suc (unat limits) - unat idx" arbitrary: idx v0 l vst s ls rule: less_induct)
  case less
  have lim: "unat (limits + 1) = Suc (unat limits)" using idx_Suc [of "reg_depth r" limits] assms by simp
  show ?case
  proof (cases "idx \<le> limits")
    case False
    then have "idx = limits + 1" using less.prems(2) lim by (simp add: word_le_nat_alt word_unat_eq_iff)
    then show ?thesis using False less.prems by (subst reg_elems.simps) auto
  next
    case True
    then have lt: "\<not> idx \<ge> reg_depth r" using assms by auto
    have nxt: "unat (idx + 1) = Suc (unat idx)" by (rule idx_Suc [OF lt])
    have meas: "Suc (unat limits) - unat (idx + 1) < Suc (unat limits) - unat idx" "idx + 1 \<le> limits + 1"
      using nxt True lim by (simp_all add: word_le_nat_alt)
    have inv: "host_mem s = host_mem s0" "tl (ex_eval s) = tl (ex_eval s0)" "length (ex_eval s) = length (ex_eval s0)" "lows < idx"
      using less.prems(1) by (auto simp: search_inv_def)
    define v where "v = get_rval r idx (host_mem s0)"
    have e: "(ex_eval s)[0 := v] = (ex_eval s0)[0 := v]" by (rule eval_upd [OF inv(2,3)])
    show ?thesis
    proof (cases "selected t (ex_eval s0) r (host_mem s0) idx \<and> v \<noteq> l")
      case False
      have "reg_elems vm sw (Some t) EX_E text r lows limits idx v0 l vst s =
          reg_elems vm sw (Some t) EX_E text r lows limits (idx + 1) v l vst (s\<lparr>ex_eval := (ex_eval s)[0 := v]\<rparr>)"
        using False \<open>idx \<le> limits\<close> lt inv e
        by (subst reg_elems.simps) (auto simp: Let_def v_def [symmetric] selected_def)
      with less.hyps [OF meas(1) search_inv_skip [OF less.prems(1) nxt, of v] meas(2), of v] show ?thesis by simp
    next
      case sel: True
      let ?s = "s\<lparr>ex_last_val := v, ex_out := ex_out s @ concat (map (shown_text vm sw r (ex_eval s0)) (add_lines vst idx v)), ex_eval := (ex_eval s0)[0 := v]\<rparr>"
      have "search_inv vm sw t r lows s0 (idx + 1) v idx ?s (ls @ add_lines vst idx v)"
        using sel by (intro search_inv_show [OF less.prems(1) v_def _ _ _ _ nxt]) (simp_all add: inv(1))
      from less.hyps [OF meas(1) this meas(2)] reg_elems_show [OF True lt inv(2,3), where v = v and lows = lows and l = l and sch = "Some t"] sel
      show ?thesis by (simp add: v_def inv(1) selected_def)
    qed
  qed
qed

lemma reg_one_search:
  assumes "sim_switches sw AND SIM_SW_HIDE = 0 \<or> reg_flags r AND REG_HIDDEN = 0" "lows \<le> highs" "highs < reg_depth r"
    "unat (reg_depth r) < 2 ^ 31" "selected t (ex_eval s) r (host_mem s) lows"
  shows "\<exists>vst s' ls. reg_one vm sw (Some t) EX_E text r lows highs lows s = (SCPE_OK, vst, s') \<and> host_mem s' = host_mem s \<and>
    ex_out s' = ex_out s @ concat (map (shown_text vm sw r (ex_eval s)) ls) \<and>
    map fst (expand_lines 0 ls) = [unat lows..<Suc (unat highs)] \<and>
    (\<forall>i. lows \<le> i \<longrightarrow> i < highs \<longrightarrow> \<not> selected t (ex_eval s) r (host_mem s) i \<longrightarrow> misreported (expand_lines 0 ls) r (host_mem s) i)"
proof -
  have lt: "\<not> lows \<ge> reg_depth r" using assms(2,3) by auto
  have nxt: "unat (lows + 1) = Suc (unat lows)" by (rule idx_Suc [OF lt])
  have hi: "unat (highs + 1) = Suc (unat highs)" using idx_Suc [of "reg_depth r" highs] assms(3) by simp
  define v where "v = get_rval r lows (host_mem s)"
  let ?s = "s\<lparr>ex_last_val := v, ex_out := ex_out s @ concat (map (shown_text vm sw r (ex_eval s)) (add_lines lows lows v)), ex_eval := (ex_eval s)[0 := v]\<rparr>"
  have no_gap: "add_lines lows lows v = [Shown lows v]" using nxt by (simp add: add_lines_def word_less_nat_alt)
  have "i = lows" if "lows \<le> i" "i \<le> lows" for i using that by simp
  then have first: "search_inv vm sw t r lows s (lows + 1) v lows ?s [Shown lows v]"
    unfolding search_inv_def no_gap using nxt assms(5) by (auto simp: v_def word_less_nat_alt)
  have "lows + 1 \<le> highs + 1" using assms(2) nxt hi by (simp add: word_le_nat_alt)
  from reg_elems_search [OF assms(3) first this, of "text" v] obtain v' l vst s' ls where
    loop: "reg_elems vm sw (Some t) EX_E text r lows highs (lows + 1) v v lows ?s = (SCPE_OK, v', vst, s')"
    and inv: "search_inv vm sw t r lows s (highs + 1) l vst s' ls" by blast
  have start: "reg_elems vm sw (Some t) EX_E text r lows highs lows 0 0 lows s = (SCPE_OK, v', vst, s')"
    using reg_elems_show [OF assms(2) lt refl refl v_def, where lows = lows and l = 0 and sch = "Some t"] loop assms(5)
    by (simp add: selected_def v_def)
  have "highs \<noteq> 0xFFFFFFFF" using assms(3,4) by (auto simp: word_less_nat_alt)
  note unf = this assms(1) start
  have le: "vst \<le> highs" "lows \<le> vst" using inv below_Suc [OF hi] by (auto simp: search_inv_def)
  have fin: ?thesis if out: "reg_one vm sw (Some t) EX_E text r lows highs lows s = (SCPE_OK, vst, s'')" "host_mem s'' = host_mem s"
      "ex_out s'' = ex_out s' @ concat (map (shown_text vm sw r (ex_eval s)) tail)"
    and told: "map fst (expand_lines l tail) = [Suc (unat vst)..<Suc (unat highs)]"
      "\<And>i. vst < i \<Longrightarrow> i < highs \<Longrightarrow> \<not> selected t (ex_eval s) r (host_mem s) i \<Longrightarrow> misreported (expand_lines l tail) r (host_mem s) i" for s'' tail
  proof -
    have ex: "expand_lines 0 (ls @ tail) = expand_lines 0 ls @ expand_lines l tail" using inv by (simp add: expand_append search_inv_def)
    have "map fst (expand_lines 0 (ls @ tail)) = [unat lows..<Suc (unat highs)]"
      using inv told(1) le upt_join [of "unat lows" "Suc (unat vst)" "Suc (unat highs)"] by (simp add: ex search_inv_def word_le_nat_alt del: upt_Suc)
    moreover have "misreported (expand_lines 0 (ls @ tail)) r (host_mem s) i"
      if "lows \<le> i" "i < highs" "\<not> selected t (ex_eval s) r (host_mem s) i" for i
      using that inv told(2) [of i] by (cases "i \<le> vst") (auto simp: ex misreported_append search_inv_def not_le)
    moreover have "ex_out s'' = ex_out s @ concat (map (shown_text vm sw r (ex_eval s)) (ls @ tail))" using inv out(3) by (simp add: search_inv_def)
    ultimately show ?thesis using out(1,2) by blast
  qed
  consider (full) "vst = highs" | (one) "vst \<noteq> highs" "highs = vst + 1" | (rest) "vst \<noteq> highs" "highs \<noteq> vst + 1" by blast
  then show ?thesis
  proof cases
    case full
    show ?thesis by (rule fin [of s' "[]"]) (use full inv unf in \<open>auto simp: reg_one_def search_inv_def\<close>)
  next
    case one
    have v1: "unat highs = Suc (unat vst)" using idx_Suc [of highs vst] le one by (simp add: not_le order.strict_iff_order)
    have ev: "(ex_eval s')[0 := v'] = (ex_eval s)[0 := v']" using inv by (intro eval_upd) (simp_all add: search_inv_def)
    show ?thesis
    proof (rule fin [of "snd (ex_reg vm sw v' EX_E r highs s')" "[Shown highs v']"])
      show "misreported (expand_lines l [Shown highs v']) r (host_mem s) i" if "vst < i" "i < highs" for i
        using that v1 by (simp add: word_less_nat_alt)
    qed (use one unf inv v1 ev in \<open>auto simp: reg_one_def ex_reg_line search_inv_def\<close>)
  next
    case rest
    have v1: "unat (vst + 1) = Suc (unat vst)" using idx_Suc [of highs vst] le rest by (simp add: not_le order.strict_iff_order)
    have ex: "expand_lines l [Same (vst + 1) highs] = map (\<lambda>k. (k, l)) [Suc (unat vst)..<Suc (unat highs)]" by (simp add: v1)
    show ?thesis
    proof (rule fin [of "put_text (same_text r (vst + 1) highs) s'" "[Same (vst + 1) highs]"])
      show "misreported (expand_lines l [Same (vst + 1) highs]) r (host_mem s) i"
        if "vst < i" "i < highs" "\<not> selected t (ex_eval s) r (host_mem s) i" for i
        unfolding ex using that inv by (intro same_misreported) (simp_all add: search_inv_def word_less_nat_alt)
      show "map fst (expand_lines l [Same (vst + 1) highs]) = [Suc (unat vst)..<Suc (unat highs)]" unfolding ex by (simp add: comp_def del: upt_Suc)
    qed (use rest unf inv in \<open>auto simp: reg_one_def put_text_def search_inv_def\<close>)
  qed
qed

subsection \<open>Properties\<close>

text \<open>A circular queue of three six-bit fields with bits of something else below them, and a simulator without special forms.\<close>

definition sample_reg :: REG where
  "sample_reg = \<lparr>reg_name = ''Q'', reg_loc = 100, reg_radix = 8, reg_width = 6, reg_offset = 2, reg_depth = 3, reg_qptr = 1, reg_stride = 4,
     reg_size = 2, reg_flags = REG_CIRC, reg_maxval = 0\<rparr>"

definition plain_vm :: "regst vm_hooks" where
  "plain_vm = \<lparr>sim_PC = None, sim_vm_reg_update = None, sim_vm_parse_addr = None, sim_vm_fprint_addr = None,
     parse_sym = (\<lambda>_ _ _ _. (1, [])), fprint_sym = (\<lambda>_ _ _ _. (1, [])), fprint_fields = (\<lambda>_ _. [])\<rparr>"

definition no_switches :: switches where
  "no_switches = \<lparr>sim_switches = 0, sim_switch_number = 0\<rparr>"

lemma one_register: "k < length regs \<Longrightarrow> take (Suc k - k) (drop k regs) = [regs ! k]"
  by (simp add: Suc_diff_le take_Suc_conv_app_nth hd_drop_conv_nth)

lemma sample_ok: "reg_ok sample_reg" "quiet plain_vm no_switches sample_reg" "sim_switches no_switches = 0"
  by (simp_all add: reg_ok_def sample_reg_def elem_bytes_def quiet_def plain_vm_def no_switches_def word_less_nat_alt)

lemma sample_value: "reg_value plain_vm no_switches ''52'' sample_reg = Some 42"
  by (simp add: reg_value_def sample_reg_def plain_vm_def no_switches_def get_radix_def width_mask_def Let_def) code_simp

text \<open>
  C5. \<^verbatim>\<open>DEPOSIT\<close> into a range of elements of a register puts the value of the text into every one of
  them, so that reading them gives it, and changes nothing else: any other register, or part of one,
  whose bits are not among those of the elements reads as before, also when it shares their bytes.
  This holds for every element size, bit offset and width and for circular queues wherever they start.
\<close>

theorem register_deposit:
  assumes "reg_ok r" "k < length regs" "regs ! k = r" "lows \<le> highs" "highs < reg_depth r"
    and "reg_flags r AND REG_RO = 0" "reg_value vm sw text r = Some val" "fits (reg_width r) val" "reg_flags r AND REG_NZ = 0 \<or> val \<noteq> 0"
    and "quiet vm sw r" "sim_switches sw AND SIM_SW_HIDE = 0"
  shows "\<exists>s'. exdep_reg_loop vm sw None EX_D text regs k k lows highs s = (SCPE_OK, s') \<and>
    (\<forall>i. lows \<le> i \<and> i \<le> highs \<longrightarrow> get_rval r i (host_mem s') = val) \<and>
    (\<forall>r' j. reg_ok r' \<and> (\<forall>i. lows \<le> i \<and> i \<le> highs \<longrightarrow> reg_bits r i \<inter> reg_bits r' j = {}) \<longrightarrow> get_rval r' j (host_mem s') = get_rval r' j (host_mem s))"
proof -
  from reg_elems_deposit [OF assms(1,8,10,6,7,9,5), of lows lows 0 0 lows s] obtain v vst s' where
    e: "reg_elems vm sw None EX_D text r lows highs lows 0 0 lows s = (SCPE_OK, v, vst, s')"
      "\<forall>i. lows \<le> i \<longrightarrow> i \<le> highs \<longrightarrow> get_rval r i (host_mem s') = val" "untouched r lows highs (host_mem s) (host_mem s')" by blast
  have "highs \<noteq> 0xFFFFFFFF" using assms(1,5) by (auto simp: reg_ok_def word_less_nat_alt)
  then have one: "reg_one vm sw None EX_D text r lows highs lows s = (SCPE_OK, vst, s')" using e(1) assms(11) by (simp add: reg_one_def)
  have "take (Suc k - k) (drop k regs) = [r]" using one_register [OF assms(2)] assms(3) by simp
  then have "exdep_reg_loop vm sw None EX_D text regs k k lows highs s = (SCPE_OK, s')" using one by (simp add: exdep_reg_loop_def)
  with e(2,3) untouched_reg [OF e(3)] show ?thesis by (intro exI [of _ s']) auto
qed

theorem register_deposit_witness:
  "\<forall>s. \<exists>s'. exdep_reg_loop plain_vm no_switches None EX_D ''52'' [sample_reg] 0 0 1 2 s = (SCPE_OK, s') \<and>
    (\<forall>i. 1 \<le> i \<and> i \<le> 2 \<longrightarrow> get_rval sample_reg i (host_mem s') = 42) \<and>
    (\<forall>r' j. reg_ok r' \<and> (\<forall>i. 1 \<le> i \<and> i \<le> 2 \<longrightarrow> reg_bits sample_reg i \<inter> reg_bits r' j = {}) \<longrightarrow> get_rval r' j (host_mem s') = get_rval r' j (host_mem s))"
proof
  fix s :: regst
  have "fits (reg_width sample_reg) (42 :: t_value)" by (simp add: fits_def sample_reg_def)
  moreover have "reg_flags sample_reg AND REG_RO = 0" "reg_flags sample_reg AND REG_NZ = 0 \<or> (42 :: t_value) \<noteq> 0"
    "(1 :: u32) \<le> 2" "2 < reg_depth sample_reg" by (simp_all add: sample_reg_def)
  ultimately show "\<exists>s'. exdep_reg_loop plain_vm no_switches None EX_D ''52'' [sample_reg] 0 0 1 2 s = (SCPE_OK, s') \<and>
    (\<forall>i. 1 \<le> i \<and> i \<le> 2 \<longrightarrow> get_rval sample_reg i (host_mem s') = 42) \<and>
    (\<forall>r' j. reg_ok r' \<and> (\<forall>i. 1 \<le> i \<and> i \<le> 2 \<longrightarrow> reg_bits sample_reg i \<inter> reg_bits r' j = {}) \<longrightarrow> get_rval r' j (host_mem s') = get_rval r' j (host_mem s))"
    by (intro register_deposit) (simp_all add: sample_ok sample_value)
qed

definition sample_search :: SCHTAB where
  "sample_search = \<lparr>sch_logic = 3, sch_boolop = 4, sch_count = 1, sch_mask = [0], sch_comp = [5]\<rparr>"

definition sample_bytes :: "nat \<Rightarrow> u8" where
  "sample_bytes p = (if p = 104 then 20 else if p = 108 then 24 else 28)"

lemma sample_depth: "reg_depth sample_reg = 3"
  by (simp add: sample_reg_def)

lemma sample_names: "elem_text sample_reg 1 = ''Q[1]''" "elem_text sample_reg 2 = ''Q[2]''"
  by code_simp+

lemma load_two: "load_le m p 2 = ucast (m p) OR push_bit 8 (ucast (m (p + 1)))"
  by (simp add: numeral_2_eq_2)

lemma sample_elems: "get_rval sample_reg 0 sample_bytes = 5" "get_rval sample_reg 1 sample_bytes = 6" "get_rval sample_reg 2 sample_bytes = 7"
  by (simp_all add: get_rval_def sample_reg_def elem_ptr_def elem_index_def elem_bytes_def load_two sample_bytes_def width_mask_def mask_eq_exp_minus_1 word_le_nat_alt)

lemma same_elems: "get_rval sample_reg i (\<lambda>_. 20) = 5"
  by (simp add: get_rval_def sample_reg_def elem_bytes_def load_two width_mask_def mask_eq_exp_minus_1)

text \<open>
  C7. \<^verbatim>\<open>EXAMINE\<close> of a range of elements of one register, without a search, prints exactly these lines:
  for every longest run of neighbouring elements with the same value, the first element with its value and,
  if the run has others, one line saying which are the same as above; only when the last run has two
  elements the second is printed with its value instead.  So the lines say of every element of the range,
  in their order and once each, the value that it has.  The command changes no register.
\<close>

theorem register_examine:
  assumes "k < length regs" "regs ! k = r" "lows \<le> highs" "highs < reg_depth r" "unat (reg_depth r) < 2 ^ 31"
    and "sim_switches sw AND SIM_SW_HIDE = 0"
  shows "\<exists>s'. exdep_reg_loop vm sw None EX_E text regs k k lows highs s = (SCPE_OK, s') \<and> host_mem s' = host_mem s \<and>
    (let xs = map (\<lambda>i. (i, get_rval r (of_nat i) (host_mem s))) [unat lows..<Suc (unat highs)]
     in ex_out s' = ex_out s @ concat (map (shown_text vm sw r (ex_eval s)) (examine_lines xs)) \<and>
        expand_lines 0 (examine_lines xs) = xs)"
proof -
  have "unat lows < 2 ^ 31" using assms(3-5) by (simp add: word_le_nat_alt word_less_nat_alt)
  then obtain vst s' ls where
    one: "reg_one vm sw None EX_E text r lows highs lows s = (SCPE_OK, vst, s')" "host_mem s' = host_mem s"
      "ex_out s' = ex_out s @ concat (map (shown_text vm sw r (ex_eval s)) ls)" "expand_lines 0 ls = elems r (host_mem s) (unat lows) (Suc (unat highs))"
      "ls = examine_lines (elems r (host_mem s) (unat lows) (Suc (unat highs)))"
    using reg_one_examine [of sw r lows highs lows vm "text" s] assms(3-6) by blast
  have "take (Suc k - k) (drop k regs) = [r]" using one_register [OF assms(1)] assms(2) by simp
  then have "exdep_reg_loop vm sw None EX_E text regs k k lows highs s = (SCPE_OK, s')" using one(1) by (simp add: exdep_reg_loop_def)
  with one show ?thesis unfolding elems_def Let_def by metis
qed

theorem register_examine_witness:
  "\<forall>s. \<exists>s'. exdep_reg_loop plain_vm no_switches None EX_E [] [sample_reg] 0 0 0 2 (s\<lparr>host_mem := \<lambda>_. 20\<rparr>) = (SCPE_OK, s') \<and>
    ex_out s' = ex_out s @ shown_text plain_vm no_switches sample_reg (ex_eval s) (Shown 0 5) @ ''Q[1]-Q[2]: same as above'' @ [CHR 0x0A]"
proof
  fix s :: regst
  let ?s = "s\<lparr>host_mem := \<lambda>_. 20\<rparr>"
  have d: "(2 :: u32) < reg_depth sample_reg" "unat (reg_depth sample_reg) < 2 ^ 31" by (simp_all add: sample_reg_def)
  have "[unat (0 :: u32)..<Suc (unat (2 :: u32))] = [0, 1, 2]" by (simp add: upt_rec)
  moreover have "examine_lines [(0, 5), (1, 5), (2, 5)] = [Shown 0 5, Same 1 2]" by (simp add: examine_lines_def)
  ultimately show "\<exists>s'. exdep_reg_loop plain_vm no_switches None EX_E [] [sample_reg] 0 0 0 2 ?s = (SCPE_OK, s') \<and>
    ex_out s' = ex_out s @ shown_text plain_vm no_switches sample_reg (ex_eval s) (Shown 0 5) @ ''Q[1]-Q[2]: same as above'' @ [CHR 0x0A]"
    using register_examine [of 0 "[sample_reg]" sample_reg 0 2 no_switches plain_vm "[]" ?s] d sample_ok(3)
    by (auto simp: same_elems Let_def same_text_def sample_names simp del: upt_Suc)
qed

text \<open>
  C37. A search misleads \<^verbatim>\<open>EXAMINE\<close> of a range of elements of a register: when it selects the first
  element of the range, the lines still say something of every element, also of those that the search
  rejects, and of every rejected element before the last one of the range they say a value that it does
  not have.
\<close>

theorem register_search_misreports:
  assumes "k < length regs" "regs ! k = r" "lows \<le> highs" "highs < reg_depth r" "unat (reg_depth r) < 2 ^ 31"
    and "sim_switches sw AND SIM_SW_HIDE = 0" "test_search ((ex_eval s)[0 := get_rval r lows (host_mem s)]) (Some t)"
  shows "\<exists>s' ls. exdep_reg_loop vm sw (Some t) EX_E text regs k k lows highs s = (SCPE_OK, s') \<and> host_mem s' = host_mem s \<and>
    ex_out s' = ex_out s @ concat (map (shown_text vm sw r (ex_eval s)) ls) \<and>
    map fst (expand_lines 0 ls) = [unat lows..<Suc (unat highs)] \<and>
    (\<forall>i. lows \<le> i \<and> i < highs \<and> \<not> test_search ((ex_eval s)[0 := get_rval r i (host_mem s)]) (Some t) \<longrightarrow>
      (\<exists>w. (unat i, w) \<in> set (expand_lines 0 ls) \<and> w \<noteq> get_rval r i (host_mem s)))"
proof -
  from reg_one_search [of sw r lows highs t s vm "text"] assms(3-7) obtain vst s' ls where
    one: "reg_one vm sw (Some t) EX_E text r lows highs lows s = (SCPE_OK, vst, s')" "host_mem s' = host_mem s"
      "ex_out s' = ex_out s @ concat (map (shown_text vm sw r (ex_eval s)) ls)" "map fst (expand_lines 0 ls) = [unat lows..<Suc (unat highs)]"
      "\<forall>i. lows \<le> i \<longrightarrow> i < highs \<longrightarrow> \<not> selected t (ex_eval s) r (host_mem s) i \<longrightarrow> misreported (expand_lines 0 ls) r (host_mem s) i"
    by (auto simp: selected_def)
  have "exdep_reg_loop vm sw (Some t) EX_E text regs k k lows highs s = (SCPE_OK, s')"
    using one(1) one_register [OF assms(1)] assms(2) by (simp add: exdep_reg_loop_def)
  with one show ?thesis unfolding selected_def misreported_def by blast
qed

theorem register_search_misreports_witness:
  "\<forall>s. \<exists>s' ls. exdep_reg_loop plain_vm no_switches (Some sample_search) EX_E [] [sample_reg] 0 0 0 2 (s\<lparr>host_mem := sample_bytes, ex_eval := [0]\<rparr>) = (SCPE_OK, s') \<and>
    ex_out s' = ex_out s @ concat (map (shown_text plain_vm no_switches sample_reg [0]) ls) \<and>
    (\<exists>w. (1, w) \<in> set (expand_lines 0 ls) \<and> w \<noteq> 6)"
proof
  fix s :: regst
  let ?s = "s\<lparr>host_mem := sample_bytes, ex_eval := [0]\<rparr>"
  have d: "(2 :: u32) < reg_depth sample_reg" "unat (reg_depth sample_reg) < 2 ^ 31" by (simp_all add: sample_reg_def)
  have t: "test_search ([0][0 := get_rval sample_reg 0 sample_bytes]) (Some sample_search)"
    "\<not> test_search ([0][0 := get_rval sample_reg 1 sample_bytes]) (Some sample_search)"
    by (simp_all add: sample_elems sample_search_def test_search_def sch_masked_def sch_fails_def Let_def)
  from register_search_misreports [of 0 "[sample_reg]" sample_reg 0 2 no_switches ?s sample_search plain_vm "[]"] d t sample_ok(3)
  obtain s' ls where r: "exdep_reg_loop plain_vm no_switches (Some sample_search) EX_E [] [sample_reg] 0 0 0 2 ?s = (SCPE_OK, s')"
    "ex_out s' = ex_out s @ concat (map (shown_text plain_vm no_switches sample_reg [0]) ls)"
    "\<forall>i. 0 \<le> i \<and> i < 2 \<and> \<not> test_search ([0][0 := get_rval sample_reg i sample_bytes]) (Some sample_search) \<longrightarrow>
      (\<exists>w. (unat i, w) \<in> set (expand_lines 0 ls) \<and> w \<noteq> get_rval sample_reg i sample_bytes)"
    by auto
  from r(3) [rule_format, of 1] t(2) have "\<exists>w. (1, w) \<in> set (expand_lines 0 ls) \<and> w \<noteq> 6" by (simp add: sample_elems)
  with r(1,2) show "\<exists>s' ls. exdep_reg_loop plain_vm no_switches (Some sample_search) EX_E [] [sample_reg] 0 0 0 2 ?s = (SCPE_OK, s') \<and>
    ex_out s' = ex_out s @ concat (map (shown_text plain_vm no_switches sample_reg [0]) ls) \<and>
    (\<exists>w. (1, w) \<in> set (expand_lines 0 ls) \<and> w \<noteq> 6)" by blast
qed

text \<open>
  A register that is looked up in all devices is found exactly when one enabled device has it, with
  this device; when several have it the name is ambiguous, nothing is found, and the caller that asks
  for the reason learns it.
\<close>

lemma global_register_lookup:
  "find_reg_glob_reason want cptr devs =
     (case reg_hits cptr devs 0 of
        [] \<Rightarrow> (None, SCPE_OK)
      | [hit] \<Rightarrow> (Some hit, SCPE_OK)
      | _ \<Rightarrow> (None, if want then SCPE_AMBREG + 0x40000000 else SCPE_OK))"
  unfolding find_reg_glob_reason_def find_glob_loop by (auto simp: Let_def split: list.splits)

end
