(* ===== verification/AddressSpace.thy ===== *)
theory AddressSpace
  imports Units RegisterAccess
begin

text \<open>
  The contract between \<^verbatim>\<open>EXAMINE\<close> and \<^verbatim>\<open>DEPOSIT\<close> and the devices whose locations they read and write, as the
  locale \<open>address_space\<close>, with the effect of both commands proved once from it; and the units that buffer
  their files, which fulfil it, as the locale \<open>buffered_unit\<close>.
\<close>

unbundle bit_operations_syntax

lemma masked_bitD: "v AND mask n = v \<Longrightarrow> bit (v :: 'w::len word) k \<Longrightarrow> k < n"
  by (metis bit_and_iff bit_mask_iff)

lemma ucast_back [simp]: "ucast (ucast v :: t_value) = (v :: u32)"
  by (rule bit_word_eqI) (simp add: bit_simps)

text \<open>What commands change other than the values just read and the text: the machine, the unit and the files.\<close>

definition ad_store :: "'m adst \<Rightarrow> 'm \<times> UNIT \<times> fs" where
  "ad_store s = (ad_vm s, ad_unit s, ad_fs s)"

lemma ad_store_simps [simp]:
  "ad_store (s\<lparr>ad_eval := e\<rparr>) = ad_store s" "ad_store (s\<lparr>ad_last_val := v\<rparr>) = ad_store s"
  "ad_store (s\<lparr>ad_out := t\<rparr>) = ad_store s" "ad_store (s\<lparr>ad_in := l\<rparr>) = ad_store s"
  by (simp_all add: ad_store_def)

text \<open>
  Forms that take one location each: parsing and printing never ask for more, and what is printed for a
  location does not depend on the ones behind it.
\<close>

definition one_word :: "'x vm_hooks \<Rightarrow> switches \<Rightarrow> bool" where
  "one_word vm w \<longleftrightarrow>
     fst (parse_sym vm ''0'' 0 True (sim_switches w)) \<ge> 0 \<and>
     (\<forall>a v e. fst (fprint_sym vm a (v # e) True (sim_switches w)) \<ge> 0 \<and>
        fprint_sym vm a (v # e) True (sim_switches w) = fprint_sym vm a [v] True (sim_switches w))"

text \<open>The value of a text, symbolic or else a number, and the text of a value.\<close>

definition text_value :: "'x vm_hooks \<Rightarrow> switches \<Rightarrow> 'm DEVICE \<Rightarrow> string \<Rightarrow> t_addr \<Rightarrow> t_value option" where
  "text_value vm w d c a =
     (case parse_sym vm c a True (sim_switches w) of
        (r, vals) \<Rightarrow>
          if r > 0
          then (case get_uint c (get_radix w (dv_dradix d)) (width_mask (dv_dwidth d)) of (v, st) \<Rightarrow> if st = SCPE_OK then Some v else None)
          else if r < 0 \<or> vals = [] then None else Some (hd vals))"

definition value_text :: "'x vm_hooks \<Rightarrow> switches \<Rightarrow> 'm DEVICE \<Rightarrow> t_addr \<Rightarrow> t_value \<Rightarrow> string" where
  "value_text vm w d a v =
     (case fprint_sym vm a [v] True (sim_switches w) of
        (r, t) \<Rightarrow> if r > 0 then t @ fprint_val v (get_radix w (dv_dradix d)) (dv_dwidth d) PV_RZRO else t)"

definition addr_text :: "'x vm_hooks \<Rightarrow> 'm DEVICE \<Rightarrow> t_addr \<Rightarrow> string" where
  "addr_text vm d a = (case sim_vm_fprint_addr vm of Some f \<Rightarrow> f a | None \<Rightarrow> fprint_val (ucast a) (dv_aradix d) (dv_awidth d) PV_LEFT)"

definition addr_line :: "'x vm_hooks \<Rightarrow> switches \<Rightarrow> 'm DEVICE \<Rightarrow> t_addr \<Rightarrow> t_value \<Rightarrow> string" where
  "addr_line vm w d a v = addr_text vm d a @ [CHR '':'', CHR 0x09] @ value_text vm w d a v @ [CHR 0x0A]"

definition addr_range :: "t_addr \<Rightarrow> t_addr \<Rightarrow> t_addr list" where
  "addr_range low high = map of_nat [unat low..<Suc (unat high)]"

lemma next_addr: "i < (h :: t_addr) \<Longrightarrow> unat (i + 1) = Suc (unat i)" "i \<le> h \<Longrightarrow> h \<noteq> - 1 \<Longrightarrow> unat (i + 1) = Suc (unat i)"
proof -
  have *: "unat i < unat (- 1 :: t_addr) \<Longrightarrow> unat (i + 1) = Suc (unat i)"
    by (simp add: unsigned_minus_1_eq_mask unat_word_ariths mask_eq_exp_minus_1)
  show "i < h \<Longrightarrow> unat (i + 1) = Suc (unat i)"
    by (rule *) (use word_order.extremum [of h] in \<open>auto simp: word_less_nat_alt word_le_nat_alt\<close>)
  show "i \<le> h \<Longrightarrow> h \<noteq> - 1 \<Longrightarrow> unat (i + 1) = Suc (unat i)"
    by (rule *) (use word_order.extremum_strict [of h] word_order.not_eq_extremum [of h] in \<open>auto simp: word_less_nat_alt word_le_nat_alt\<close>)
qed

lemma addr_range_Cons:
  assumes "i \<le> h" "h \<noteq> - 1"
  shows "addr_range i h = i # addr_range (i + 1) h"
proof -
  have "unat i \<le> unat h" using assms(1) by (simp add: word_le_nat_alt)
  then have "[unat i..<Suc (unat h)] = unat i # [Suc (unat i)..<Suc (unat h)]" by (simp add: upt_conv_Cons del: upt_Suc)
  then show ?thesis using assms by (simp add: addr_range_def next_addr(2) del: upt_Suc)
qed

lemma addr_range_Nil: "\<not> i \<le> h \<Longrightarrow> addr_range i h = []"
  by (simp add: addr_range_def word_le_nat_alt)

lemma addr_range_set: "k \<in> set (addr_range i h) \<longleftrightarrow> i \<le> k \<and> k \<le> h"
proof -
  have "k = of_nat n \<longleftrightarrow> n = unat k" if "n \<le> unat h" for n
  proof -
    have "unat h < 2 ^ 32" using unsigned_less [of h] by simp
    with that have "n < 2 ^ 32" by linarith
    then show ?thesis by (auto simp: unsigned_of_nat take_bit_nat_eq_self)
  qed
  then show ?thesis
    unfolding addr_range_def word_le_nat_alt by (auto simp: image_iff simp del: upt_Suc intro: bexI [of _ "unat k"])
qed

subsection \<open>The contract of an address space\<close>

text \<open>
  What \<^verbatim>\<open>EXAMINE\<close> and \<^verbatim>\<open>DEPOSIT\<close> rely on: valid addresses are read and written without an error, a read
  gives what the last write to the address stored, and reading elsewhere does not end the command.
\<close>

locale address_space =
  fixes d :: "'m DEVICE" and ok :: "'m \<times> UNIT \<times> fs \<Rightarrow> bool" and valid :: "t_addr \<Rightarrow> bool"
    and content :: "'m \<times> UNIT \<times> fs \<Rightarrow> t_addr \<Rightarrow> t_value"
  assumes aincr: "dv_aincr d = 1"
    and read_valid: "ok (ad_store s) \<Longrightarrow> valid j \<Longrightarrow>
      \<exists>v. read_loc d sw j s = Inr (False, SCPE_OK, Some v) \<and> v AND width_mask (dv_dwidth d) = content (ad_store s) j"
    and read_beyond: "ok (ad_store s) \<Longrightarrow> \<exists>r v. read_loc d sw j s = Inr (False, r, v)"
    and write_valid: "ok (ad_store s) \<Longrightarrow> valid j \<Longrightarrow> v AND width_mask (dv_dwidth d) = v \<Longrightarrow>
      \<exists>m u f. write_loc d sw v j s = Inr (SCPE_OK, s\<lparr>ad_vm := m, ad_unit := u, ad_fs := f\<rparr>) \<and> ok (m, u, f) \<and>
        un_ro u = un_ro (ad_unit s) \<and> un_dis u = un_dis (ad_unit s) \<and> (\<forall>k. valid k \<longrightarrow> content (m, u, f) k = (if k = j then v else content (ad_store s) k))"
begin

lemma aval_later:
  assumes "ok (ad_store s)" "0 < i"
  shows "\<exists>e lv. aval_loop d sw n i j s = Inr (SCPE_OK, s\<lparr>ad_eval := e, ad_last_val := lv\<rparr>) \<and>
    length e = length (ad_eval s) \<and> e ! 0 = ad_eval s ! 0"
  using assms
proof (induction n arbitrary: i j s)
  case (Suc n)
  obtain r v where rd: "read_loc d sw j s = Inr (False, r, v)" using read_beyond [OF Suc.prems(1)] by blast
  let ?s1 = "case v of None \<Rightarrow> s | Some x \<Rightarrow> s\<lparr>ad_eval := (ad_eval s)[i := x]\<rparr>"
  have s1: "\<exists>e. ?s1 = s\<lparr>ad_eval := e\<rparr> \<and> length e = length (ad_eval s) \<and> e ! 0 = ad_eval s ! 0"
    using Suc.prems(2) by (cases v) (auto intro: exI [of _ "ad_eval s"])
  then obtain e where e: "?s1 = s\<lparr>ad_eval := e\<rparr>" "length e = length (ad_eval s)" "e ! 0 = ad_eval s ! 0" by blast
  show ?case
  proof (cases "r = SCPE_OK")
    case True
    let ?x = "e ! i AND width_mask (dv_dwidth d)"
    obtain e2 lv where "aval_loop d sw n (i + 1) (j + dv_aincr d) (s\<lparr>ad_eval := e[i := ?x], ad_last_val := ?x\<rparr>)
        = Inr (SCPE_OK, s\<lparr>ad_eval := e2, ad_last_val := lv\<rparr>)" "length e2 = length e" "e2 ! 0 = e[i := ?x] ! 0"
      using Suc.IH [of "s\<lparr>ad_eval := e[i := ?x], ad_last_val := ?x\<rparr>" "i + 1" "j + dv_aincr d"] Suc.prems(1) by auto
    then show ?thesis using rd e True Suc.prems(2) by (auto simp: Let_def)
  qed (use rd e Suc.prems(2) in \<open>auto simp: Let_def intro!: exI [of _ e] exI [of _ "ad_last_val s"]\<close>)
next
  case 0
  then show ?case by (intro exI [of _ "ad_eval s"] exI [of _ "ad_last_val s"]) simp
qed

lemma get_aval_valid:
  assumes "ok (ad_store s)" "valid j" "ad_eval s \<noteq> []"
  shows "\<exists>e lv. get_aval d sw j s = Inr (SCPE_OK, s\<lparr>ad_eval := content (ad_store s) j # e, ad_last_val := lv\<rparr>)"
proof -
  obtain n where n: "length (ad_eval s) = Suc n" using assms(3) by (cases "ad_eval s") auto
  let ?v = "content (ad_store s) j"
  let ?s = "s\<lparr>ad_eval := ?v # replicate n 0, ad_last_val := ?v\<rparr>"
  obtain e lv where "aval_loop d sw n 1 (j + dv_aincr d) ?s = Inr (SCPE_OK, ?s\<lparr>ad_eval := e, ad_last_val := lv\<rparr>)"
      "length e = Suc n" "e ! 0 = ?v"
    using aval_later [of ?s 1 sw n "j + dv_aincr d"] assms(1) by auto
  moreover from this obtain e' where "e = ?v # e'" by (cases e) auto
  ultimately show ?thesis
    using n read_valid [of "s\<lparr>ad_eval := replicate (Suc n) 0\<rparr>" j sw] assms(1,2)
    by (intro exI [of _ e'] exI [of _ lv]) (auto simp: get_aval_def Let_def)
qed

end

context address_space
begin

lemma dep_addr_one:
  assumes "ok (ad_store s)" "valid i" "ad_eval s \<noteq> []" "\<not> un_ro (ad_unit s)" "text_value vm w d cptr i = Some v"
  shows "\<exists>m u f e. dep_addr vm w EX_D cptr i d 0 s = Inr (0, s\<lparr>ad_vm := m, ad_unit := u, ad_fs := f, ad_eval := e\<rparr>) \<and> e \<noteq> [] \<and>
    ok (m, u, f) \<and> \<not> un_ro u \<and> un_dis u = un_dis (ad_unit s) \<and> (\<forall>k. valid k \<longrightarrow> content (m, u, f) k = (if k = i then v AND width_mask (dv_dwidth d) else content (ad_store s) k))"
proof -
  let ?x = "v AND width_mask (dv_dwidth d)"
  obtain e0 e1 where e: "ad_eval s = e0 # e1" using assms(3) by (cases "ad_eval s") auto
  obtain vals r where ps: "parse_sym vm cptr i True (sim_switches w) = (r, vals)" by (cases "parse_sym vm cptr i True (sim_switches w)")
  obtain e' where e': "(if r > 0 then (ad_eval s)[0 := fst (get_uint cptr (get_radix w (dv_dradix d)) (width_mask (dv_dwidth d)))]
      else vals @ drop (length vals) (ad_eval s)) = v # e'"
    using assms(5) e ps by (auto simp: text_value_def split: if_splits prod.splits list.splits) (metis append_Cons list.collapse)
  let ?s = "s\<lparr>ad_eval := ?x # e'\<rparr>"
  obtain m u f where "write_loc d (sim_switches w) ?x i ?s = Inr (SCPE_OK, ?s\<lparr>ad_vm := m, ad_unit := u, ad_fs := f\<rparr>)"
      "ok (m, u, f)" "un_ro u = un_ro (ad_unit s)" "un_dis u = un_dis (ad_unit s)" "\<forall>k. valid k \<longrightarrow> content (m, u, f) k = (if k = i then ?x else content (ad_store s) k)"
    using write_valid [of ?s i ?x "sim_switches w"] assms(1,2) by (auto simp: and.assoc)
  with assms(4,5) ps e' e aincr show ?thesis
    by (intro exI [of _ m] exI [of _ u] exI [of _ f] exI [of _ "?x # e'"])
      (auto simp: dep_addr_def flag_I_def text_value_def Let_def split: if_splits prod.splits)
qed

lemma deposit_loop:
  assumes "\<And>a. text_value vm w d cptr a = Some v"
    and "high \<noteq> - 1" "ok (ad_store s)" "ad_eval s \<noteq> []" "\<not> un_ro (ad_unit s)" "\<forall>k. low \<le> k \<and> k \<le> high \<longrightarrow> valid k"
  shows "\<exists>s'. addr_loop vm w None EX_D cptr high d 0 low s = Some (Inr (SCPE_OK, s')) \<and> ok (ad_store s') \<and>
    ad_out s' = ad_out s \<and> ad_in s' = ad_in s \<and> ad_eval s' \<noteq> [] \<and> \<not> un_ro (ad_unit s') \<and> un_dis (ad_unit s') = un_dis (ad_unit s) \<and>
    (\<forall>k. valid k \<longrightarrow> content (ad_store s') k = (if low \<le> k \<and> k \<le> high then v AND width_mask (dv_dwidth d) else content (ad_store s) k))"
  using assms(3-6)
proof (induction "Suc (unat high) - unat low" arbitrary: low s)
  case 0
  then have "\<not> low \<le> high" by (simp add: word_le_nat_alt)
  with 0 show ?case by (subst addr_loop.simps) auto
next
  case (Suc n)
  then have le: "low \<le> high" by (simp add: word_le_nat_alt)
  let ?x = "v AND width_mask (dv_dwidth d)"
  have nx: "unat (low + 1) = Suc (unat low)" by (rule next_addr(2) [OF le assms(2)])
  obtain e lv where ga: "get_aval d (sim_switches w) low s = Inr (SCPE_OK, s\<lparr>ad_eval := content (ad_store s) low # e, ad_last_val := lv\<rparr>)"
    using get_aval_valid [OF Suc.prems(1), of low "sim_switches w"] Suc.prems(2,4) le by auto
  let ?s = "s\<lparr>ad_eval := content (ad_store s) low # e, ad_last_val := lv\<rparr>"
  obtain m u f e' where dep: "dep_addr vm w EX_D cptr low d 0 ?s = Inr (0, ?s\<lparr>ad_vm := m, ad_unit := u, ad_fs := f, ad_eval := e'\<rparr>)" "e' \<noteq> []"
      "ok (m, u, f)" "\<not> un_ro u" "un_dis u = un_dis (ad_unit s)" "\<forall>k. valid k \<longrightarrow> content (m, u, f) k = (if k = low then ?x else content (ad_store s) k)"
    using dep_addr_one [OF _ _ _ _ assms(1), of ?s low] Suc.prems le by auto
  let ?s' = "?s\<lparr>ad_vm := m, ad_unit := u, ad_fs := f, ad_eval := e'\<rparr>"
  have st: "ad_store ?s' = (m, u, f)" by (simp add: ad_store_def)
  have in_range: "low \<le> k \<and> k \<le> high \<longleftrightarrow> k = low \<or> low + 1 \<le> k \<and> k \<le> high" for k
    using nx le by (auto simp: word_le_nat_alt unsigned_word_eqI intro: word_unat_eq_iff [THEN iffD2])
  have "n = Suc (unat high) - unat (low + 1)" using Suc.hyps(2) nx by simp
  from Suc.hyps(1) [OF this, of ?s'] dep st Suc.prems(4) in_range obtain s' where
    "addr_loop vm w None EX_D cptr high d 0 (low + 1) ?s' = Some (Inr (SCPE_OK, s'))" "ok (ad_store s')" "ad_out s' = ad_out s" "ad_in s' = ad_in s"
    "ad_eval s' \<noteq> []" "\<not> un_ro (ad_unit s')" "un_dis (ad_unit s') = un_dis (ad_unit s)"
    "\<forall>k. valid k \<longrightarrow> content (ad_store s') k = (if low + 1 \<le> k \<and> k \<le> high then ?x else content (m, u, f) k)"
    by auto
  then show ?case
    using dep(6) in_range le by (intro exI [of _ s']) (subst addr_loop.simps, auto simp: ga dep(1))
qed

lemma examine_loop:
  assumes "one_word vm w" "high \<noteq> - 1" "ok (ad_store s)" "ad_eval s \<noteq> []" "\<forall>k. low \<le> k \<and> k \<le> high \<longrightarrow> valid k"
  shows "\<exists>s'. addr_loop vm w None EX_E cptr high d 0 low s = Some (Inr (SCPE_OK, s')) \<and> ad_store s' = ad_store s \<and> ad_in s' = ad_in s \<and>
    ad_out s' = ad_out s @ concat (map (\<lambda>a. addr_line vm w d a (content (ad_store s) a)) (addr_range low high))"
  using assms(3-5)
proof (induction "Suc (unat high) - unat low" arbitrary: low s)
  case 0
  then have "\<not> low \<le> high" by (simp add: word_le_nat_alt)
  with 0 show ?case by (subst addr_loop.simps) (auto simp: addr_range_Nil)
next
  case (Suc n)
  then have le: "low \<le> high" by (simp add: word_le_nat_alt)
  have nx: "unat (low + 1) = Suc (unat low)" by (rule next_addr(2) [OF le assms(2)])
  let ?v = "content (ad_store s) low"
  obtain e lv where ga: "get_aval d (sim_switches w) low s = Inr (SCPE_OK, s\<lparr>ad_eval := ?v # e, ad_last_val := lv\<rparr>)"
    using get_aval_valid [OF Suc.prems(1), of low "sim_switches w"] Suc.prems(2,3) le by auto
  let ?s = "s\<lparr>ad_eval := ?v # e, ad_last_val := lv\<rparr>"
  let ?s' = "?s\<lparr>ad_out := ad_out s @ addr_line vm w d low ?v\<rparr>"
  obtain r sym where fs: "fprint_sym vm low (?v # e) True (sim_switches w) = (r, sym)" "fprint_sym vm low [?v] True (sim_switches w) = (r, sym)" "r \<ge> 0"
    using assms(1) by (metis one_word_def prod.collapse)
  have ex: "ex_addr vm w EX_E low d 0 ?s = (0, ?s')"
    using fs by (auto simp: ex_addr_def flag_E_def flag_I_def addr_line_def addr_text_def value_text_def Let_def split: option.split)
  have later: "low + 1 \<le> k \<Longrightarrow> low \<le> k" for k using nx by (simp add: word_le_nat_alt)
  have "n = Suc (unat high) - unat (low + 1)" using Suc.hyps(2) nx by simp
  from Suc.hyps(1) [OF this, of ?s'] Suc.prems later obtain s' where
    "addr_loop vm w None EX_E cptr high d 0 (low + 1) ?s' = Some (Inr (SCPE_OK, s'))" "ad_store s' = ad_store s" "ad_in s' = ad_in s"
    "ad_out s' = ad_out ?s' @ concat (map (\<lambda>a. addr_line vm w d a (content (ad_store s) a)) (addr_range (low + 1) high))"
    by auto
  then show ?case
    using le by (intro exI [of _ s']) (subst addr_loop.simps, auto simp: ga ex addr_range_Cons [OF le assms(2)])
qed

lemma exdep_valid:
  assumes "one_word vm w" "low \<le> high" "high \<le> ucast (width_mask (dv_awidth d))" "\<not> un_dis (ad_unit s)"
  shows "exdep_addr_loop vm w sch flag cptr low high d s = addr_loop vm w sch flag cptr high d 0 low s"
proof -
  have "\<exists>r vals. parse_sym vm ''0'' 0 True (sim_switches w) = (r, vals) \<and> r \<ge> 0"
    using assms(1) by (metis one_word_def prod.collapse)
  with assms(2-4) aincr show ?thesis
    by (auto simp: exdep_addr_loop_def Let_def)
qed

lemma deposit_range:
  assumes "one_word vm w" "\<And>a. text_value vm w d cptr a = Some v"
    and "low \<le> high" "high \<le> ucast (width_mask (dv_awidth d))" "high \<noteq> - 1" "\<forall>k. low \<le> k \<and> k \<le> high \<longrightarrow> valid k"
    and "ok (ad_store s)" "ad_eval s \<noteq> []" "\<not> un_dis (ad_unit s)" "\<not> un_ro (ad_unit s)"
  shows "\<exists>s'. exdep_addr_loop vm w None EX_D cptr low high d s = Some (Inr (SCPE_OK, s')) \<and> ok (ad_store s') \<and>
    ad_out s' = ad_out s \<and> ad_in s' = ad_in s \<and> ad_eval s' \<noteq> [] \<and> \<not> un_ro (ad_unit s') \<and> un_dis (ad_unit s') = un_dis (ad_unit s) \<and>
    (\<forall>k. valid k \<longrightarrow> content (ad_store s') k = (if low \<le> k \<and> k \<le> high then v AND width_mask (dv_dwidth d) else content (ad_store s) k))"
  using deposit_loop [OF assms(2,5,7,8,10,6)] exdep_valid [OF assms(1,3,4,9)] by simp

lemma examine_range:
  assumes "one_word vm w" "low \<le> high" "high \<le> ucast (width_mask (dv_awidth d))" "high \<noteq> - 1"
    "\<forall>k. low \<le> k \<and> k \<le> high \<longrightarrow> valid k" "ok (ad_store s)" "ad_eval s \<noteq> []" "\<not> un_dis (ad_unit s)"
  shows "\<exists>s'. exdep_addr_loop vm w None EX_E cptr low high d s = Some (Inr (SCPE_OK, s')) \<and> ad_store s' = ad_store s \<and> ad_in s' = ad_in s \<and>
    ad_out s' = ad_out s @ concat (map (\<lambda>a. addr_line vm w d a (content (ad_store s) a)) (addr_range low high))"
  using examine_loop [OF assms(1,4,6,7,5)] exdep_valid [OF assms(1-3,8)] by simp

end

subsection \<open>Values as text\<close>

lemma horner_zeros: "horner radix 0 (replicate k 0 @ ds) = horner radix 0 ds"
  by (induction k) (simp_all add: horner_def)

lemma print_zeros:
  fixes val :: t_value
  assumes "2 \<le> radix" "radix \<le> 36" "width \<le> 64" "width_digits 65 (width_mask width) (of_nat radix) (of_nat radix) (of_nat radix) 1 = Some nd"
    and "nd \<le> width" "0 < nd" "unat val < radix ^ nd"
  shows "\<exists>k. fprint_val val radix width PV_RZRO = map digit_char (replicate k 0 @ to_digits MAX_WIDTH (of_nat radix) val)"
proof -
  let ?ds = "to_digits MAX_WIDTH (of_nat radix) val"
  have len: "length ?ds \<le> nd" using to_digits_short [OF assms(1,2), of val "nd - 1" MAX_WIDTH] assms(6,7) by simp
  have "digit_char 0 = CHR ''0''" by code_simp
  moreover have "nd \<le> MAX_WIDTH" using assms(3,5) by simp
  ultimately have eq: "drop (MAX_WIDTH - nd) (replicate (MAX_WIDTH - length ?ds) CHR ''0'' @ map digit_char ?ds) = map digit_char (replicate (nd - length ?ds) 0 @ ?ds)"
    using len by simp
  have "sprint_digits MAX_WIDTH (of_nat radix) val (replicate MAX_WIDTH CHR ''0'') =
      (MAX_WIDTH - length ?ds, replicate (MAX_WIDTH - length ?ds) CHR ''0'' @ map digit_char ?ds)"
    using sprint_digits_spec [of MAX_WIDTH "replicate MAX_WIDTH CHR ''0''" "of_nat radix" val] by simp
  then have "sprint_val 65 val (of_nat radix) (min width MAX_WIDTH) PV_RZRO = Some (SCPE_OK, map digit_char (replicate (nd - length ?ds) 0 @ ?ds))"
    using assms(3,4,5) len eq by (simp add: sprint_val_def sprint_justify_def Let_def min_def)
  then show ?thesis by (auto simp: fprint_val_def)
qed

lemma print_zeros_parse:
  fixes val :: t_value
  assumes "2 \<le> radix" "radix \<le> 36" "width \<le> 64" "width_digits 65 (width_mask width) (of_nat radix) (of_nat radix) (of_nat radix) 1 = Some nd"
    and "nd \<le> width" "0 < nd" "unat val < radix ^ nd" "val \<le> m"
  shows "get_uint (fprint_val val radix width PV_RZRO) radix m = (val, SCPE_OK)"
proof -
  let ?ds = "to_digits MAX_WIDTH (of_nat radix) val"
  obtain k where k: "fprint_val val radix width PV_RZRO = map digit_char (replicate k 0 @ ?ds)" using print_zeros [OF assms(1-7)] by blast
  have "radix ^ nd \<le> radix ^ MAX_WIDTH" using assms(1,3,5) by (intro power_increasing) simp_all
  with assms(7) have "unat val < radix ^ MAX_WIDTH" by linarith
  then have v: "horner radix 0 (replicate k 0 @ ?ds) = val" using horner_to_digits [OF assms(1,2)] by (simp add: horner_zeros)
  have "list_all (\<lambda>x. x < radix) (replicate k 0 @ ?ds)" "replicate k 0 @ ?ds \<noteq> []"
    using to_digits_radix [OF assms(1,2)] to_digits_length(2) assms(1) by (auto simp: list_all_iff)
  from get_uint_digits [OF this(1) assms(1,2) this(2)] v assms(8) show ?thesis by (simp add: k)
qed

subsection \<open>Bytes in a buffer\<close>

lemma load_le_bytes:
  assumes "n \<le> 8" "\<And>q. p \<le> q \<Longrightarrow> q < p + n \<Longrightarrow> m q = m' q"
  shows "load_le m p n = load_le m' p n"
  using assms by (induction n arbitrary: p) auto

definition put_bytes :: "nat \<Rightarrow> u8 list \<Rightarrow> u8 list \<Rightarrow> u8 list" where
  "put_bytes p new b = take p b @ new @ drop (p + length new) b"

lemma put_bytes_props:
  assumes "p + length new \<le> length b"
  shows "length (put_bytes p new b) = length b"
    "list_mem (put_bytes p new b) q = (if p \<le> q \<and> q < p + length new then list_mem new (q - p) else list_mem b q)"
  using assms by (auto simp: put_bytes_def list_mem_def nth_append min_def)

lemma le_bytes_props: "length (le_bytes n v) = n" "i < n \<Longrightarrow> list_mem (le_bytes n v) i = ucast (drop_bit (8 * i) v)"
  by (simp_all add: le_bytes_def list_mem_def)

lemma load_put_bytes:
  assumes "n \<le> 8" "p + n \<le> length b"
  shows "load_le (list_mem (put_bytes p (le_bytes n v) b)) p n = take_bit (8 * n) v"
proof -
  have "load_le (list_mem (put_bytes p (le_bytes n v) b)) p n = load_le (store_le (list_mem b) p n v) p n"
    using assms by (intro load_le_bytes) (auto simp: put_bytes_props le_bytes_props store_le_byte)
  also have "\<dots> = take_bit (8 * n) v"
    by (rule bit_word_eqI) (auto simp: bit_load_le mem_bit_store_le assms bit_take_bit_iff)
  finally show ?thesis .
qed

lemma load_put_other:
  assumes "n \<le> 8" "p + n \<le> length b" "p' + n \<le> p \<or> p + n \<le> p'"
  shows "load_le (list_mem (put_bytes p (le_bytes n v) b)) p' n = load_le (list_mem b) p' n"
  using assms by (intro load_le_bytes) (auto simp: put_bytes_props le_bytes_props)

subsection \<open>Buffered units\<close>

text \<open>A device that leaves its locations to the buffer of its unit, one address for each.\<close>

definition file_dev :: "'m DEVICE \<Rightarrow> bool" where
  "file_dev d \<longleftrightarrow> dv_examine d = None \<and> dv_deposit d = None \<and> dv_aincr d = 1 \<and> 0 < dv_dwidth d \<and> dv_dwidth d \<le> 64"

lemma file_dev_size:
  assumes "file_dev d"
  shows "0 < scp_device_data_size_bytes d" "scp_device_data_size_bytes d \<le> 8" "dv_dwidth d \<le> 8 * scp_device_data_size_bytes d"
proof -
  have "(dv_dwidth d + 7) div 8 \<le> 8" "dv_dwidth d \<le> 8 * ((dv_dwidth d + 7) div 8)" "0 < (dv_dwidth d + 7) div 8"
    using assms by (auto simp: file_dev_def)
  then show "0 < scp_device_data_size_bytes d" "scp_device_data_size_bytes d \<le> 8" "dv_dwidth d \<le> 8 * scp_device_data_size_bytes d"
    by (auto simp: scp_device_data_size_bytes_def scp_storage_size_for_width_bytes_def)
qed

definition buffer_of :: "UNIT \<Rightarrow> u8 list" where
  "buffer_of u = (case un_filebuf u of None \<Rightarrow> [] | Some b \<Rightarrow> b)"

text \<open>
  An attached unit: the file still holds what was read, and beyond the high-water mark the buffer does
  not differ from it.
\<close>

definition buffered :: "'m DEVICE \<Rightarrow> t_addr \<Rightarrow> string \<Rightarrow> 'm \<times> UNIT \<times> fs \<Rightarrow> bool" where
  "buffered d cap name st =
     (case st of (m, u, fs) \<Rightarrow>
        let n = scp_device_data_size_bytes d * unat cap; b = buffer_of u; file = file_bytes fs name
        in un_attable u \<and> un_bufable u \<and> un_mustbuf u \<and> un_fix u \<and> un_att u \<and> un_buf u \<and> \<not> un_no_fio u \<and>
           un_fileref u = Some name \<and> un_capac u = cap \<and> un_filebuf u \<noteq> None \<and> length b = n \<and> un_hwmark u \<le> cap \<and>
           un_filebuf2 u = Some (map (list_mem file) [0..<n]) \<and>
           (\<forall>q<n. scp_device_data_size_bytes d * unat (un_hwmark u) \<le> q \<longrightarrow> b ! q = list_mem file q))"

definition buffer_word :: "'m DEVICE \<Rightarrow> 'm \<times> UNIT \<times> fs \<Rightarrow> t_addr \<Rightarrow> t_value" where
  "buffer_word d st a =
     (let sz = scp_device_data_size_bytes d in load_le (list_mem (buffer_of (fst (snd st)))) (sz * unat a) sz AND width_mask (dv_dwidth d))"

text \<open>The unit after a write.\<close>

definition put_loc :: "'m DEVICE \<Rightarrow> t_value \<Rightarrow> t_addr \<Rightarrow> UNIT \<Rightarrow> UNIT" where
  "put_loc d v j u =
     (let sz = scp_device_data_size_bytes d
      in u\<lparr>un_filebuf := Some (put_bytes (sz * unat j) (le_bytes sz v) (buffer_of u)),
            un_hwmark := (if j \<ge> un_hwmark u then j + 1 else un_hwmark u)\<rparr>)"

locale buffered_unit =
  fixes d :: "'m DEVICE"
  assumes dev: "file_dev d"

text \<open>Where a location lies in the buffer.\<close>

lemma loc_fits:
  assumes "j < (cap :: t_addr)"
  shows "sz * unat j + sz \<le> sz * unat cap"
proof -
  have "Suc (unat j) \<le> unat cap" using assms by (simp add: word_less_nat_alt)
  then have "sz * Suc (unat j) \<le> sz * unat cap" by (rule mult_le_mono2)
  then show ?thesis by simp
qed

lemma loc_apart: "j \<noteq> (k :: t_addr) \<Longrightarrow> sz * unat j + sz \<le> sz * unat k \<or> sz * unat k + sz \<le> sz * unat j"
proof -
  assume "j \<noteq> k"
  then have "j < k \<or> k < j" by auto
  then show ?thesis using loc_fits [of j k sz] loc_fits [of k j sz] by auto
qed

lemma mark_above: "j < (cap :: t_addr) \<Longrightarrow> unat (j + 1) = Suc (unat j)" "j < cap \<Longrightarrow> j + 1 \<le> cap"
  using next_addr(1) [of j cap] by (simp_all add: word_le_nat_alt word_less_nat_alt)

context buffered_unit
begin

lemma data_size: "0 < scp_device_data_size_bytes d" "scp_device_data_size_bytes d \<le> 8" "dv_dwidth d \<le> 8 * scp_device_data_size_bytes d"
  using file_dev_size [OF dev] by simp_all

lemma masked_size: "v AND width_mask (dv_dwidth d) = v \<Longrightarrow> take_bit (8 * scp_device_data_size_bytes d) v = v"
proof -
  assume v: "v AND width_mask (dv_dwidth d) = v"
  then have "bit v k \<Longrightarrow> k < 8 * scp_device_data_size_bytes d" for k
    using data_size(3) by (metis bit_and_iff bit_mask_iff less_le_trans width_mask_def)
  then show ?thesis by (intro bit_word_eqI) (auto simp: bit_take_bit_iff)
qed

lemma bufferedD:
  assumes "buffered d cap name (ad_store s)"
  shows "un_att (ad_unit s)" "\<not> un_no_fio (ad_unit s)" "un_fileref (ad_unit s) = Some name" "un_fix (ad_unit s)" "un_buf (ad_unit s)"
    "un_capac (ad_unit s) = cap" "un_filebuf (ad_unit s) = Some (buffer_of (ad_unit s))"
    "length (buffer_of (ad_unit s)) = scp_device_data_size_bytes d * unat cap"
  using assms by (auto simp: buffered_def ad_store_def buffer_of_def Let_def)

lemma write_buffered:
  fixes v
  assumes "buffered d cap name (ad_store s)" "j < cap"
  defines "b \<equiv> buffer_of (ad_unit s)" and "sz \<equiv> scp_device_data_size_bytes d"
  defines "u \<equiv> put_loc d v j (ad_unit s)"
  shows "write_loc d sw v j s = Inr (SCPE_OK, s\<lparr>ad_unit := u\<rparr>)" "buffered d cap name (ad_vm s, u, ad_fs s)"
proof -
  let ?n = "sz * unat cap"
  have inv: "length b = ?n" and fit: "sz * unat j + sz \<le> length b"
    using bufferedD(8) [OF assms(1)] loc_fits [OF assms(2), of sz] by (simp_all add: b_def sz_def)
  show "write_loc d sw v j s = Inr (SCPE_OK, s\<lparr>ad_unit := u\<rparr>)"
  proof -
    have "dv_deposit d = None" "dv_aincr d = 1" "\<not> cap \<le> j" using dev assms(2) by (simp_all add: file_dev_def)
    moreover have "sz * unat j + sz \<le> length (buffer_of (ad_unit s))" using fit by (simp add: b_def)
    ultimately show ?thesis
      using bufferedD(1-7) [OF assms(1)]
      by (simp add: write_loc_def Let_def u_def put_loc_def sz_def put_bytes_def le_bytes_props(1))
  qed
  let ?b = "put_bytes (sz * unat j) (le_bytes sz v) b"
  have other: "?b ! q = b ! q" if "q < length b" "\<not> (sz * unat j \<le> q \<and> q < sz * unat j + sz)" for q
    using put_bytes_props(1) [of "sz * unat j" "le_bytes sz v" b] put_bytes_props(2) [of "sz * unat j" "le_bytes sz v" b q] fit that
    by (auto simp: le_bytes_props(1) list_mem_def split: if_splits)
  have "length ?b = length b" using put_bytes_props(1) [of "sz * unat j" "le_bytes sz v" b] fit by (simp add: le_bytes_props)
  moreover have "?b ! q = list_mem (file_bytes (ad_fs s) name) q" if "q < ?n" "sz * unat (un_hwmark u) \<le> q" for q
  proof -
    have "Suc (unat j) \<le> unat (un_hwmark u)" "unat (un_hwmark (ad_unit s)) \<le> unat (un_hwmark u)"
      using mark_above(1) [OF assms(2)] by (auto simp: u_def put_loc_def Let_def word_le_nat_alt)
    then have "sz * Suc (unat j) \<le> sz * unat (un_hwmark u)" "sz * unat (un_hwmark (ad_unit s)) \<le> sz * unat (un_hwmark u)"
      by (auto intro: mult_le_mono2 simp del: mult_Suc_right)
    then have "sz * unat j + sz \<le> q" "sz * unat (un_hwmark (ad_unit s)) \<le> q" using that(2) by (simp, linarith)
    then show ?thesis using other [of q] that(1) inv assms(1)
      by (auto simp: buffered_def ad_store_def Let_def b_def sz_def)
  qed
  moreover have "un_hwmark u \<le> cap"
    using assms(1) mark_above(2) [OF assms(2)] by (auto simp: buffered_def ad_store_def Let_def u_def put_loc_def Let_def b_def sz_def)
  ultimately show "buffered d cap name (ad_vm s, u, ad_fs s)"
    using assms(1) inv by (simp add: buffered_def ad_store_def Let_def buffer_of_def u_def put_loc_def b_def sz_def)
qed

lemma buffer_word_write:
  assumes "buffered d cap name (ad_store s)" "j < cap" "k < cap" "v AND width_mask (dv_dwidth d) = v"
  defines "b \<equiv> buffer_of (ad_unit s)" and "sz \<equiv> scp_device_data_size_bytes d"
  shows "buffer_word d (m, put_loc d v j (ad_unit s), f) k =
    (if k = j then v else buffer_word d (ad_store s) k)"
proof -
  have fit: "sz * unat j + sz \<le> length b"
    using assms(1) loc_fits [OF assms(2), of sz] by (auto simp: buffered_def ad_store_def b_def sz_def Let_def)
  show ?thesis
  proof (cases "k = j")
    case True
    then show ?thesis using load_put_bytes [OF data_size(2), of "sz * unat j" b v] fit masked_size [OF assms(4)] assms(4)
      by (simp add: buffer_word_def buffer_of_def put_loc_def b_def sz_def Let_def)
  next
    case False
    then show ?thesis using load_put_other [OF data_size(2), of "sz * unat j" b "sz * unat k" v] fit loc_apart [of k j sz]
      by (simp add: buffer_word_def buffer_of_def put_loc_def sz_def b_def ad_store_def Let_def)
  qed
qed

end

sublocale buffered_unit \<subseteq> space: address_space d "\<lambda>st. buffered d cap name st \<and> snd (snd st) = fs" "\<lambda>j. j < cap" "buffer_word d"
proof unfold_locales
  fix s :: "'m adst" and j sw v
  assume "buffered d cap name (ad_store s) \<and> snd (snd (ad_store s)) = fs"
  then have ok: "buffered d cap name (ad_store s)" and fs: "ad_fs s = fs" by (auto simp: ad_store_def)
  have ex: "dv_examine d = None" "dv_aincr d = 1" using dev by (auto simp: file_dev_def)
  note u = bufferedD [OF ok]
  show "\<exists>r v. read_loc d sw j s = Inr (False, r, v)"
    using u ex loc_fits [of j cap "scp_device_data_size_bytes d"] by (auto simp: read_loc_def Let_def not_le)
  assume j: "j < cap"
  show "\<exists>v. read_loc d sw j s = Inr (False, SCPE_OK, Some v) \<and> v AND width_mask (dv_dwidth d) = buffer_word d (ad_store s) j"
    using u ex j loc_fits [OF j, of "scp_device_data_size_bytes d"]
    by (auto simp: read_loc_def Let_def not_le buffer_word_def ad_store_def)
  assume v: "v AND width_mask (dv_dwidth d) = v"
  show "\<exists>m u f. write_loc d sw v j s = Inr (SCPE_OK, s\<lparr>ad_vm := m, ad_unit := u, ad_fs := f\<rparr>) \<and> (buffered d cap name (m, u, f) \<and> snd (snd (m, u, f)) = fs) \<and>
      un_ro u = un_ro (ad_unit s) \<and> un_dis u = un_dis (ad_unit s) \<and> (\<forall>k. k < cap \<longrightarrow> buffer_word d (m, u, f) k = (if k = j then v else buffer_word d (ad_store s) k))"
    using write_buffered(1) [OF ok j, where sw = sw and v = v] write_buffered(2) [OF ok j, where v = v] buffer_word_write [OF ok j _ v, where m = "ad_vm s" and f = "ad_fs s"]
    by (intro exI [of _ "ad_vm s"] exI [of _ "put_loc d v j (ad_unit s)"] exI [of _ "ad_fs s"]) (simp add: put_loc_def fs Let_def)
qed (use dev in \<open>simp add: file_dev_def\<close>)

context buffered_unit
begin

lemmas deposit_buffered = space.deposit_range

end

subsection \<open>Attaching and detaching a buffered unit\<close>

definition unit_ready :: "UNIT \<Rightarrow> bool" where
  "unit_ready u \<longleftrightarrow> un_attable u \<and> un_bufable u \<and> un_mustbuf u \<and> un_fix u \<and> \<not> un_no_fio u \<and> \<not> un_ro u \<and> \<not> un_dis u"

lemma mask_below: "v \<le> mask n \<Longrightarrow> v AND mask n = (v :: 'w::len word)"
proof -
  assume "v \<le> mask n"
  moreover have "fits n (mask n :: 'w word)" by (simp add: fits_bit bit_mask_iff)
  ultimately have "fits n v" by (simp add: fits_less word_le_nat_alt)
  then show ?thesis by (simp add: fits_def flip: take_bit_eq_mask)
qed

lemma fill_zeros: "fill_buffer n content (replicate n 0) = map (list_mem content) [0..<n]"
  by (rule nth_equalityI) (auto simp: fill_buffer_def list_mem_def nth_append)

lemma map_list_mem: "length b = n \<Longrightarrow> map (list_mem b) [0..<n] = b"
  by (rule nth_equalityI) (auto simp: list_mem_def)

context buffered_unit
begin

lemma attach_buffered:
  assumes "unit_ready u" "host name Open_rb_plus = None" "sw AND SWMASK CHR ''R'' = 0" "sw AND SWMASK CHR ''N'' = 0"
  shows "\<exists>u'. attach_unit host sw (Some d) name u fs = Inr (SCPE_OK, u', fs) \<and> buffered d (un_capac u) name (m, u', fs) \<and> unit_ready u' \<and>
    buffer_of u' = map (list_mem (file_bytes fs name)) [0..<scp_device_data_size_bytes d * unat (un_capac u)]"
proof -
  let ?sz = "scp_device_data_size_bytes d" and ?cap = "un_capac u" and ?F = "file_bytes fs name"
  let ?n = "?sz * unat ?cap" and ?h = "length (take (?sz * unat ?cap) ?F) div ?sz"
  have "?h \<le> unat ?cap" using data_size(1) by (metis div_le_mono length_take min.cobounded2 nonzero_mult_div_cancel_left less_numeral_extra(3))
  moreover have "unat (of_nat ?h :: t_addr) \<le> ?h" by (simp only: unsigned_of_nat of_nat_id take_bit_nat_less_eq_self)
  ultimately have h: "of_nat ?h \<le> ?cap" unfolding word_le_nat_alt by (rule order_trans [rotated])
  have aincr: "dv_aincr d = 1" using dev by (simp add: file_dev_def)
  have len: "length (map (list_mem ?F) [0..<?n]) = ?n" by simp
  show ?thesis
    using assms h by (auto simp: attach_unit_def open_unit_file_def sim_fopen_def unit_ready_def aincr Let_def mult.commute fill_zeros
        buffered_def buffer_of_def)
qed

lemma detach_buffered:
  assumes "buffered d cap name (m, u, fs)" "unit_ready u"
  shows "\<exists>u' fs'. detach_unit sw (Some d) u fs = Inr (SCPE_OK, u', fs') \<and> unit_ready u' \<and> un_capac u' = cap \<and>
    (\<forall>q < scp_device_data_size_bytes d * unat cap. list_mem (file_bytes fs' name) q = buffer_of u ! q) \<and> (\<forall>f. f \<noteq> name \<longrightarrow> fs' f = fs f)"
proof -
  let ?sz = "scp_device_data_size_bytes d" and ?F = "file_bytes fs name" and ?b = "buffer_of u"
  let ?n = "?sz * unat cap" and ?h = "?sz * unat (un_hwmark u)"
  let ?b2 = "map (list_mem ?F) [0..<?n]"
  define fs' where "fs' = (if ?b \<noteq> ?b2 then fs(name \<mapsto> fwrite ?F 0 (take ?h ?b)) else fs)"
  have inv: "length ?b = ?n" "?h \<le> ?n" "un_filebuf u = Some ?b" "un_filebuf2 u = Some ?b2" "\<And>q. q < ?n \<Longrightarrow> ?h \<le> q \<Longrightarrow> ?b ! q = list_mem ?F q"
    using assms(1) by (auto simp: buffered_def buffer_of_def word_le_nat_alt Let_def)
  have aincr: "dv_aincr d = 1" using dev by (simp add: file_dev_def)
  have fl: "flush_buffer d u ?b fs = Inr fs'"
    using inv(1-4) assms by (simp add: flush_buffer_def aincr fs'_def unit_ready_def buffered_def Let_def not_less word_le_nat_alt del: map_eq_conv)
  have "list_mem (file_bytes fs' name) q = ?b ! q" if "q < ?n" for q
  proof (cases "?b = ?b2")
    case True
    then show ?thesis using that by (simp add: fs'_def list_mem_def)
  next
    case False
    then have "file_bytes fs' name = take ?h ?b @ drop ?h ?F" using inv(1,2) by (simp add: fs'_def file_bytes_def fwrite_def)
    then show ?thesis using that inv by (auto simp: list_mem_def nth_append)
  qed
  moreover have "\<forall>f. f \<noteq> name \<longrightarrow> fs' f = fs f" by (simp add: fs'_def)
  ultimately show ?thesis
    using fl assms inv(3) by (auto simp: detach_unit_def buffered_def unit_ready_def Let_def)
qed

lemma buffer_word_bytes:
  assumes "length (buffer_of u) = scp_device_data_size_bytes d * unat cap"
    "buffer_of u' = map (list_mem file) [0..<scp_device_data_size_bytes d * unat cap]"
    "\<forall>q < scp_device_data_size_bytes d * unat cap. list_mem file q = buffer_of u ! q"
  shows "buffer_word d (m, u', f) = buffer_word d (m', u, f')"
proof -
  have "buffer_of u' = buffer_of u" using assms by (intro nth_equalityI) auto
  then show ?thesis by (simp add: buffer_word_def fun_eq_iff)
qed

end

subsection \<open>Samples\<close>

text \<open>A state and a unit for the witnesses, and a number that the simulator itself reads.\<close>

definition plain_adst :: "'m \<Rightarrow> UNIT \<Rightarrow> fs \<Rightarrow> 'm adst" where
  "plain_adst m u f = \<lparr>ad_vm = m, ad_unit = u, ad_fs = f, ad_eval = [0, 0, 0, 0], ad_last_val = 0, ad_out = [], ad_in = []\<rparr>"

definition sample_unit :: UNIT where
  "sample_unit =
     \<lparr>un_attable = True, un_att = False, un_ro = False, un_roable = False, un_seq = False, un_fix = True, un_dis = False,
      un_bufable = True, un_mustbuf = True, un_buf = False, un_no_fio = False, un_capac = 64, un_hwmark = 0, un_pos = 0,
      un_filename = None, un_fileref = None, un_filebuf = None, un_filebuf2 = None\<rparr>"

lemma plain_forms: "one_word plain_vm no_switches" "dv_dradix d = 8 \<Longrightarrow> dv_dwidth d = 12 \<Longrightarrow> text_value plain_vm no_switches d ''1234'' a = Some 668"
proof -
  show "one_word plain_vm no_switches" by (simp add: one_word_def plain_vm_def)
  have "get_uint ''1234'' 8 (mask 12) = (668, SCPE_OK)" by code_simp
  then show "dv_dradix d = 8 \<Longrightarrow> dv_dwidth d = 12 \<Longrightarrow> text_value plain_vm no_switches d ''1234'' a = Some 668"
    by (simp add: text_value_def plain_vm_def no_switches_def get_radix_def width_mask_def)
qed

end
