(* ===== verification/Pdp8Memory.thy ===== *)
theory Pdp8Memory
  imports AddressSpace Pdp8Semantics
begin

text \<open>
  The memory of the PDP-8 and its two drums as address spaces, \<^verbatim>\<open>EXAMINE\<close> and \<^verbatim>\<open>DEPOSIT\<close> on them, and the
  contents of a buffered unit across detaching and attaching.
\<close>

unbundle bit_operations_syntax

subsection \<open>The memory of the PDP-8\<close>

definition pdp8_cpu_dev :: "('a pdp8_scheme) DEVICE" where
  "pdp8_cpu_dev = \<lparr>dv_awidth = 15, dv_aincr = 1, dv_aradix = 8, dv_dradix = 8, dv_dwidth = 12,
     dv_examine = Some (\<lambda>a sw s. map_prod id (map_option ucast) (cpu_ex a s)), dv_deposit = Some (\<lambda>v a sw s. cpu_dep v a s)\<rparr>"

definition pdp8_word :: "('a pdp8_scheme) \<times> UNIT \<times> fs \<Rightarrow> t_addr \<Rightarrow> t_value" where
  "pdp8_word st a = ucast (mem (fst st) a)"

lemma fits_masked: "fits n x \<Longrightarrow> x AND mask n = x"
  by (rule bit_word_eqI) (auto simp: bit_simps fits_bitD)

lemma ucast_fits: "fits n (x :: u32) \<Longrightarrow> (ucast x :: t_value) AND mask n = ucast x"
  by (rule bit_word_eqI) (auto simp: bit_simps fits_bitD)

interpretation pdp8_memory: address_space pdp8_cpu_dev "\<lambda>st. pdp8_wf (fst st) \<and> memsize (fst st) = n" "\<lambda>a. a < n" pdp8_word
proof unfold_locales
  fix s :: "('a pdp8_scheme) adst" and j :: t_addr and sw :: u32 and v :: t_value
  assume ok: "pdp8_wf (fst (ad_store s)) \<and> memsize (fst (ad_store s)) = n"
  then have wf: "pdp8_wf (ad_vm s)" "memsize (ad_vm s) = n" and f: "fits 12 (mem (ad_vm s) a)" for a
    by (auto simp: ad_store_def pdp8_wf_def)
  have m: "mem (ad_vm s) a AND 0xFFF = mem (ad_vm s) a" for a
    using fits_masked [OF f, of a] by (simp add: mask_eq_exp_minus_1)
  show "\<exists>r v. read_loc pdp8_cpu_dev sw j s = Inr (False, r, v)"
    by (simp add: read_loc_def pdp8_cpu_dev_def cpu_ex_def)
  assume j: "j < n"
  show "\<exists>v. read_loc pdp8_cpu_dev sw j s = Inr (False, SCPE_OK, Some v) \<and> v AND width_mask (dv_dwidth pdp8_cpu_dev) = pdp8_word (ad_store s) j"
    using j wf f by (simp add: not_le m read_loc_def pdp8_cpu_dev_def cpu_ex_def pdp8_word_def ad_store_def width_mask_def ucast_fits)
  assume v: "v AND width_mask (dv_dwidth pdp8_cpu_dev) = v"
  then have "bit v k \<Longrightarrow> k < 12" for k by (auto simp: pdp8_cpu_dev_def width_mask_def dest: masked_bitD)
  then have "ucast (ucast v AND mask 12 :: u32) = v" by (intro bit_word_eqI) (fastforce simp: bit_simps)
  then have "ucast (ucast v AND 0xFFF :: u32) = v" by (simp add: mask_eq_exp_minus_1)
  then show "\<exists>m u f. write_loc pdp8_cpu_dev sw v j s = Inr (SCPE_OK, s\<lparr>ad_vm := m, ad_unit := u, ad_fs := f\<rparr>) \<and>
      (pdp8_wf (fst (m, u, f)) \<and> memsize (fst (m, u, f)) = n) \<and> un_ro u = un_ro (ad_unit s) \<and> un_dis u = un_dis (ad_unit s) \<and>
      (\<forall>k. k < n \<longrightarrow> pdp8_word (m, u, f) k = (if k = j then v else pdp8_word (ad_store s) k))"
    using j wf by (intro exI [of _ "write_mem j (ucast v AND 0xFFF) (ad_vm s)"] exI [of _ "ad_unit s"] exI [of _ "ad_fs s"])
      (auto simp: write_loc_def pdp8_cpu_dev_def cpu_dep_def write_mem_def pdp8_word_def ad_store_def pdp8_wf_def)
qed (simp add: pdp8_cpu_dev_def)

subsection \<open>Properties\<close>

lemma pdp8_widths [simp]: "dv_awidth pdp8_cpu_dev = 15" "dv_dwidth pdp8_cpu_dev = 12"
  by (simp_all add: pdp8_cpu_dev_def)

lemma pdp8_addresses:
  fixes high :: t_addr
  assumes "pdp8_wf m" "high < memsize m"
  shows "high \<noteq> - 1" "high \<le> ucast (width_mask 15)"
proof -
  have "unat (memsize m) \<le> 0x8000" using assms(1) by (simp add: pdp8_wf_def word_le_nat_alt)
  then have "unat high < 0x8000" using assms(2) by (simp add: word_less_nat_alt)
  then show "high \<noteq> - 1" "high \<le> ucast (width_mask 15)"
    by (auto simp: width_mask_def unsigned_minus_1_eq_mask mask_eq_exp_minus_1 word_le_nat_alt)
qed

text \<open>
  C6. \<^verbatim>\<open>DEPOSIT\<close> into a range of the PDP-8's memory ends, stores the value of the text at every address of
  the range and changes no other, and \<^verbatim>\<open>EXAMINE\<close> of the range then prints one line for each address, in
  order, with that value, and changes nothing.
\<close>

theorem pdp8_deposit_examine:
  fixes s :: "('a pdp8_scheme) adst"
  assumes "one_word vm w" "\<And>a. text_value vm w (pdp8_cpu_dev :: ('a pdp8_scheme) DEVICE) cptr a = Some v"
    and "pdp8_wf (ad_vm s)" "low \<le> high" "high < memsize (ad_vm s)"
    and "ad_eval s \<noteq> []" "\<not> un_dis (ad_unit s)" "\<not> un_ro (ad_unit s)"
  shows "\<exists>s1 s2. exdep_addr_loop vm w None EX_D cptr low high pdp8_cpu_dev s = Some (Inr (SCPE_OK, s1)) \<and>
    pdp8_wf (ad_vm s1) \<and> memsize (ad_vm s1) = memsize (ad_vm s) \<and>
    (\<forall>k. k < memsize (ad_vm s) \<longrightarrow> mem (ad_vm s1) k = (if low \<le> k \<and> k \<le> high then ucast (v AND 0xFFF) else mem (ad_vm s) k)) \<and>
    exdep_addr_loop vm w None EX_E c low high pdp8_cpu_dev s1 = Some (Inr (SCPE_OK, s2)) \<and> ad_vm s2 = ad_vm s1 \<and>
    ad_out s2 = ad_out s @ concat (map (\<lambda>a. addr_line vm w (pdp8_cpu_dev :: ('a pdp8_scheme) DEVICE) a (v AND 0xFFF)) (addr_range low high))"
proof -
  have adr: "high \<noteq> - 1" "high \<le> ucast (width_mask 15)" using pdp8_addresses [OF assms(3,5)] by simp_all
  have within: "\<forall>k. low \<le> k \<and> k \<le> high \<longrightarrow> k < memsize (ad_vm s)" using assms(5) by auto
  have m: "(0xFFF :: t_value) = mask 12" by (simp add: mask_eq_exp_minus_1)
  obtain s1 where s1: "exdep_addr_loop vm w None EX_D cptr low high pdp8_cpu_dev s = Some (Inr (SCPE_OK, s1))"
      "pdp8_wf (ad_vm s1)" "memsize (ad_vm s1) = memsize (ad_vm s)" "ad_out s1 = ad_out s" "ad_eval s1 \<noteq> []" "un_dis (ad_unit s1) = un_dis (ad_unit s)"
      "\<forall>k. k < memsize (ad_vm s) \<longrightarrow> pdp8_word (ad_store s1) k = (if low \<le> k \<and> k \<le> high then v AND mask 12 else pdp8_word (ad_store s) k)"
    using pdp8_memory.deposit_range [OF assms(1,2,4), of "memsize (ad_vm s)" s] adr within assms(3,6-8)
    by (auto simp: width_mask_def ad_store_def cong: if_cong)
  obtain s2 where s2: "exdep_addr_loop vm w None EX_E c low high pdp8_cpu_dev s1 = Some (Inr (SCPE_OK, s2))" "ad_store s2 = ad_store s1"
      "ad_out s2 = ad_out s1 @ concat (map (\<lambda>a. addr_line vm w (pdp8_cpu_dev :: ('a pdp8_scheme) DEVICE) a (pdp8_word (ad_store s1) a)) (addr_range low high))"
    using pdp8_memory.examine_range [OF assms(1,4), of "memsize (ad_vm s)" s1 c] adr within s1 assms(7) by (auto simp: ad_store_def)
  have "mem (ad_vm s1) k = (if low \<le> k \<and> k \<le> high then ucast (v AND mask 12) else mem (ad_vm s) k)" if "k < memsize (ad_vm s)" for k
    using s1(7) that ucast_back [of "mem (ad_vm s1) k"] ucast_back [of "mem (ad_vm s) k"]
    by (auto simp: pdp8_word_def ad_store_def split: if_splits)
  moreover have lines: "map (\<lambda>a. addr_line vm w (pdp8_cpu_dev :: ('a pdp8_scheme) DEVICE) a (pdp8_word (ad_store s1) a)) (addr_range low high) =
      map (\<lambda>a. addr_line vm w (pdp8_cpu_dev :: ('a pdp8_scheme) DEVICE) a (v AND mask 12)) (addr_range low high)"
    using s1(7) within by (auto simp: addr_range_set)
  moreover have "ad_vm s2 = ad_vm s1" using s2(2) by (simp add: ad_store_def)
  ultimately show ?thesis
    using s1(1-3) s2(1) by - (rule exI [of _ s1], rule exI [of _ s2], simp only: s2(3) lines s1(4) m, simp)
qed


theorem pdp8_deposit_examine_witness:
  "\<exists>s1 s2. exdep_addr_loop plain_vm no_switches None EX_D ''1234'' 0x80 0x82 pdp8_cpu_dev (plain_adst (pdp8_machine 0 0 0 (\<lambda>_. 0)) sample_unit Map.empty) =
      Some (Inr (SCPE_OK, s1)) \<and> mem (ad_vm s1) 0x81 = 668 \<and> mem (ad_vm s1) 0x83 = 0 \<and>
    exdep_addr_loop plain_vm no_switches None EX_E [] 0x80 0x82 pdp8_cpu_dev s1 = Some (Inr (SCPE_OK, s2)) \<and>
    ad_out s2 = concat (map (\<lambda>a. addr_line plain_vm no_switches (pdp8_cpu_dev :: pdp8 DEVICE) a 668) (addr_range 0x80 0x82))"
proof -
  let ?s = "plain_adst (pdp8_machine 0 0 0 (\<lambda>_. 0)) sample_unit Map.empty"
  have wf: "pdp8_wf (ad_vm ?s)" by (simp add: plain_adst_def pdp8_machine_wf)
  have m: "(668 :: t_value) AND 0xFFF = 668" by simp
  have "text_value plain_vm no_switches (pdp8_cpu_dev :: pdp8 DEVICE) ''1234'' a = Some 668" for a
    by (rule plain_forms(2)) (simp_all add: pdp8_cpu_dev_def)
  from pdp8_deposit_examine [OF plain_forms(1) this wf, where low = "0x80" and high = "0x82" and c = "[]"] m show ?thesis
    by (auto simp: plain_adst_def pdp8_machine_def sample_unit_def word_le_nat_alt)
qed

subsection \<open>Disks of the PDP-8\<close>

definition rf_dev :: "'m DEVICE" where
  "rf_dev = \<lparr>dv_awidth = 20, dv_aincr = 1, dv_aradix = 8, dv_dradix = 8, dv_dwidth = 12, dv_examine = None, dv_deposit = None\<rparr>"

definition df_dev :: "'m DEVICE" where
  "df_dev = \<lparr>dv_awidth = 17, dv_aincr = 1, dv_aradix = 8, dv_dradix = 8, dv_dwidth = 12, dv_examine = None, dv_deposit = None\<rparr>"

interpretation rf: buffered_unit rf_dev
  by unfold_locales (simp add: file_dev_def rf_dev_def)

interpretation df: buffered_unit df_dev
  by unfold_locales (simp add: file_dev_def df_dev_def)

text \<open>
  C23. Round trip, for a unit of fixed capacity that must be buffered, is not disabled or read-only, and
  belongs to a device with one address to a location (address increment 1) and no examine and deposit
  routines: the unit is attached to a file that opens for update (without \<^verbatim>\<open>-R\<close> and
  \<^verbatim>\<open>-N\<close>), a value is deposited into a range of locations within the capacity, and the unit is
  detached.  Every step succeeds, and when the file is attached again every location holds what it held
  before: the deposited value, cut to the width, within the range and the old contents of the file
  elsewhere.  Other files are untouched.
\<close>

theorem buffered_file_roundtrip:
  assumes "file_dev d" "unit_ready u" "host name Open_rb_plus = None" "sw AND SWMASK CHR ''R'' = 0" "sw AND SWMASK CHR ''N'' = 0"
    and "one_word vm w" "\<And>a. text_value vm w d cptr a = Some v"
    and "low \<le> high" "high < un_capac u" "high \<le> ucast (width_mask (dv_awidth d))" "ad_eval s \<noteq> []"
  shows "\<exists>u1 s2 u3 fs3 u4. attach_unit host sw (Some d) name u fs = Inr (SCPE_OK, u1, fs) \<and>
    exdep_addr_loop vm w None EX_D cptr low high d (s\<lparr>ad_unit := u1, ad_fs := fs\<rparr>) = Some (Inr (SCPE_OK, s2)) \<and>
    detach_unit sw (Some d) (ad_unit s2) (ad_fs s2) = Inr (SCPE_OK, u3, fs3) \<and>
    attach_unit host sw (Some d) name u3 fs3 = Inr (SCPE_OK, u4, fs3) \<and>
    (\<forall>k. k < un_capac u \<longrightarrow> buffer_word d (m, u4, fs3) k =
       (if low \<le> k \<and> k \<le> high then v AND width_mask (dv_dwidth d) else buffer_word d (m, u1, fs) k)) \<and>
    (\<forall>f. f \<noteq> name \<longrightarrow> fs3 f = fs f)"
proof -
  note bu = buffered_unit.intro [OF assms(1)]
  obtain u1 where u1: "attach_unit host sw (Some d) name u fs = Inr (SCPE_OK, u1, fs)" "buffered d (un_capac u) name (ad_vm s, u1, fs)" "unit_ready u1"
    using buffered_unit.attach_buffered [OF bu assms(2), where host = host and name = name and sw = sw, OF assms(3-5)] by blast
  let ?s = "s\<lparr>ad_unit := u1, ad_fs := fs\<rparr>"
  have "high \<noteq> - 1" using assms(9) word_order.extremum [of "un_capac u"] by auto
  moreover have "\<forall>k. low \<le> k \<and> k \<le> high \<longrightarrow> k < un_capac u" using assms(9) by auto
  ultimately obtain s2 where s2: "exdep_addr_loop vm w None EX_D cptr low high d ?s = Some (Inr (SCPE_OK, s2))" "buffered d (un_capac u) name (ad_store s2)" "ad_fs s2 = fs"
      "\<not> un_ro (ad_unit s2)" "un_dis (ad_unit s2) = un_dis u1"
      "\<forall>k. k < un_capac u \<longrightarrow> buffer_word d (ad_store s2) k =
        (if low \<le> k \<and> k \<le> high then v AND width_mask (dv_dwidth d) else buffer_word d (ad_store ?s) k)"
    using buffered_unit.deposit_buffered [OF bu assms(6,7,8,10), where s = ?s and cap = "un_capac u" and name = name and fs = fs] u1 assms(9,11)
    by (auto simp: ad_store_def unit_ready_def)
  have st: "buffered d (un_capac u) name (ad_vm s2, ad_unit s2, ad_fs s2)" using s2(2) by (simp add: ad_store_def)
  have rd: "unit_ready (ad_unit s2)" using st s2(4,5) u1(3) by (simp add: buffered_def unit_ready_def Let_def)
  obtain u3 fs3 where u3: "detach_unit sw (Some d) (ad_unit s2) (ad_fs s2) = Inr (SCPE_OK, u3, fs3)" "unit_ready u3" "un_capac u3 = un_capac u"
      "\<forall>q < scp_device_data_size_bytes d * unat (un_capac u). list_mem (file_bytes fs3 name) q = buffer_of (ad_unit s2) ! q"
      "\<forall>f. f \<noteq> name \<longrightarrow> fs3 f = ad_fs s2 f"
    using buffered_unit.detach_buffered [OF bu st rd] by blast
  obtain u4 where u4: "attach_unit host sw (Some d) name u3 fs3 = Inr (SCPE_OK, u4, fs3)"
      "buffer_of u4 = map (list_mem (file_bytes fs3 name)) [0..<scp_device_data_size_bytes d * unat (un_capac u)]"
    using buffered_unit.attach_buffered [OF bu u3(2), where host = host and name = name and sw = sw, OF assms(3-5)] u3(3) by metis
  have "length (buffer_of (ad_unit s2)) = scp_device_data_size_bytes d * unat (un_capac u)" using st by (simp add: buffered_def Let_def)
  from buffered_unit.buffer_word_bytes [OF bu this u4(2) u3(4)]
  have "buffer_word d (m, u4, fs3) = buffer_word d (ad_store s2)" by (simp add: ad_store_def)
  moreover have "buffer_word d (ad_store ?s) = buffer_word d (m, u1, fs)" by (simp add: fun_eq_iff buffer_word_def ad_store_def)
  ultimately show ?thesis using u1(1) s2(1,6) u3(1,5) u4(1) s2(3) by auto
qed


theorem buffered_file_roundtrip_witness:
  "\<exists>u1 s2 u3 fs3 u4. attach_unit (\<lambda>_ _. None) 0 (Some (rf_dev :: unit DEVICE)) ''disk'' sample_unit Map.empty = Inr (SCPE_OK, u1, Map.empty) \<and>
    exdep_addr_loop plain_vm no_switches None EX_D ''1234'' 5 7 rf_dev ((plain_adst () sample_unit Map.empty)\<lparr>ad_unit := u1, ad_fs := Map.empty\<rparr>) =
      Some (Inr (SCPE_OK, s2)) \<and>
    detach_unit 0 (Some (rf_dev :: unit DEVICE)) (ad_unit s2) (ad_fs s2) = Inr (SCPE_OK, u3, fs3) \<and>
    attach_unit (\<lambda>_ _. None) 0 (Some (rf_dev :: unit DEVICE)) ''disk'' u3 fs3 = Inr (SCPE_OK, u4, fs3) \<and> buffer_word rf_dev ((), u4, fs3) 6 = 668"
proof -
  have u: "unit_ready sample_unit" "un_capac sample_unit = 64" by (simp_all add: unit_ready_def sample_unit_def)
  have w: "(668 :: t_value) AND width_mask (dv_dwidth (rf_dev :: unit DEVICE)) = 668" "(7 :: t_addr) \<le> ucast (width_mask (dv_awidth (rf_dev :: unit DEVICE)))"
    by (simp_all add: rf_dev_def width_mask_def mask_eq_exp_minus_1 word_le_nat_alt)
  have tv: "text_value plain_vm no_switches (rf_dev :: unit DEVICE) ''1234'' a = Some 668" for a
    by (rule plain_forms(2)) (simp_all add: rf_dev_def)
  have z: "(0 :: u32) AND SWMASK CHR ''R'' = 0" "(0 :: u32) AND SWMASK CHR ''N'' = 0" "(5 :: t_addr) \<le> 7" "(7 :: t_addr) < un_capac sample_unit"
      "ad_eval (plain_adst () sample_unit Map.empty) \<noteq> []"
    by (simp_all add: u(2) plain_adst_def word_le_nat_alt word_less_nat_alt)
  note inst = buffered_file_roundtrip [where host = "\<lambda>_ _. None" and name = "''disk''" and fs = Map.empty and m = "()", OF rf.dev u(1) refl z(1,2)
      plain_forms(1) tv z(3,4) w(2) z(5)]
  from inst show ?thesis
    by (elim exE conjE, intro exI conjI) (assumption | simp add: u(2) w(1) word_le_nat_alt word_less_nat_alt)+
qed

subsection \<open>The high-water mark of devices with larger address increments\<close>

text \<open>
  A device with four addresses to a location: a deposit into its third location sets the mark to three
  locations, and detaching divides it by the increment once more and writes one.
\<close>

definition long_dev :: "'m DEVICE" where
  "long_dev = \<lparr>dv_awidth = 16, dv_aincr = 4, dv_aradix = 16, dv_dradix = 16, dv_dwidth = 32, dv_examine = None, dv_deposit = None\<rparr>"

lemma detach_divides_mark:
  "(case attach_unit (\<lambda>_ _. None) 0 (Some (long_dev :: unit DEVICE)) ''nvr'' sample_unit Map.empty of
      Inr (_, u1, fs1) \<Rightarrow>
        (case write_loc long_dev 0 7 8 (plain_adst () u1 fs1) of
           Inr (r, s) \<Rightarrow>
             (case detach_unit 0 (Some (long_dev :: unit DEVICE)) (ad_unit s) (ad_fs s) of
                Inr (_, _, fs3) \<Rightarrow> Some (r, un_hwmark (ad_unit s), length (file_bytes fs3 ''nvr'')) | Inl _ \<Rightarrow> None)
         | Inl _ \<Rightarrow> None)
    | Inl _ \<Rightarrow> None) = Some (SCPE_OK, 3, 4)"
  by code_simp

end
