(* ===== verification/SsemSys.thy ===== *)
theory SsemSys
  imports Units Ssem
begin

text \<open>
  The SSEM's side of the commands, \<^verbatim>\<open>src/simulators/SSEM/ssem_sys.c\<close>: its dumps of the machine, and the
  forms in which words are printed and parsed: backward binary with the least significant digit first,
  decimal, binary instructions and mnemonics.  Parsing has no result where the code's integer
  arithmetic has none.
\<close>

unbundle bit_operations_syntax

abbreviation (input) SMASK :: u32 where "SMASK \<equiv> 0x80000000"
abbreviation (input) OP_UNDOCUMENTED :: nat where "OP_UNDOCUMENTED \<equiv> 5"
abbreviation (input) OP_TEST :: nat where "OP_TEST \<equiv> 6"
abbreviation (input) OP_STOP :: nat where "OP_STOP \<equiv> 7"

subsection \<open>Dumps\<close>

definition ssem_dump :: "'a ssem_scheme \<Rightarrow> u8 list" where
  "ssem_dump s =
     le_bytes 4 (ucast (reg_A s)) @ le_bytes 4 (ucast (C0 s)) @ concat (map (\<lambda>i. le_bytes 4 (ucast (store_S s (of_nat i)))) [0..<32])"

definition file_word :: "u8 list \<Rightarrow> nat \<Rightarrow> u32" where
  "file_word fi p = ucast (load_le (list_mem fi) p 4)"

text \<open>Of a file that is too short, the whole words are read.\<close>

definition ssem_load_dmp :: "u8 list \<Rightarrow> 'a ssem_scheme \<Rightarrow> t_stat \<times> 'a ssem_scheme" where
  "ssem_load_dmp fi s =
     (let s1 = s\<lparr>C1 := 0\<rparr>
      in if length fi < 4 then (SCPE_IOERR, s1)
         else let s2 = s1\<lparr>reg_A := file_word fi 0\<rparr>
              in if length fi < 8 then (SCPE_IOERR, s2)
                 else let n = min 32 ((length fi - 8) div 4);
                          s3 = s2\<lparr>C0 := file_word fi 4,
                                   store_S := (\<lambda>a. if unat a < n then file_word fi (8 + 4 * unat a) else store_S s2 a)\<rparr>
                      in (if n < 32 then SCPE_IOERR else SCPE_OK, s3))"

text \<open>The status, the bytes written to the file and the machine.\<close>

definition ssem_sim_load :: "string \<Rightarrow> bool \<Rightarrow> u8 list \<Rightarrow> 'a ssem_scheme \<Rightarrow> t_stat \<times> u8 list \<times> 'a ssem_scheme" where
  "ssem_sim_load fnam dump fi s =
     (let len = length fnam
      in if len \<le> 3 \<or> drop (len - 3) fnam \<noteq> ''.st'' then (SCPE_ARG, [], s)
         else if dump then (SCPE_OK, ssem_dump s, s)
         else let (r, s1) = ssem_load_dmp fi s in (r, [], s1))"

subsection \<open>Printing\<close>

definition ssem_fprint_decimal :: "u32 \<Rightarrow> string" where
  "ssem_fprint_decimal inst =
     (if inst AND SMASK \<noteq> 0 then ''-'' @ decimal (nat (- sint inst)) @ '' ['' @ decimal (unat inst) @ '']'' else decimal (unat inst))"

primrec ssem_fprint_binary_number :: "u32 \<Rightarrow> nat \<Rightarrow> string" where
  "ssem_fprint_binary_number n 0 = []"
| "ssem_fprint_binary_number n (Suc k) = (if n AND 1 \<noteq> 0 then CHR ''1'' else CHR ''0'') # ssem_fprint_binary_number (drop_bit 1 n) k"

definition ssem_fprint_binary :: "u32 \<Rightarrow> bool \<Rightarrow> string" where
  "ssem_fprint_binary inst flag =
     (if \<not> flag then ssem_fprint_binary_number inst 32
      else let op = I_GETOP inst
           in (if unat op \<noteq> OP_TEST \<and> unat op \<noteq> OP_STOP then ssem_fprint_binary_number (I_GETEA inst) 5 @ '' '' else []) @
              ssem_fprint_binary_number op 3)"

definition ssem_fprint_competition_mnemonic :: "u32 \<Rightarrow> t_stat \<times> string" where
  "ssem_fprint_competition_mnemonic inst =
     (let op = unat (I_GETOP inst); ea = decimal (unat (I_GETEA inst))
      in if op = 0 then (SCPE_OK, ''JMP '' @ ea)
         else if op = 1 then (SCPE_OK, ''JRP '' @ ea)
         else if op = 2 then (SCPE_OK, ''LDN '' @ ea)
         else if op = 3 then (SCPE_OK, ''STO '' @ ea)
         else if op = 4 then (SCPE_OK, ''SUB '' @ ea)
         else if op = OP_UNDOCUMENTED then (SCPE_ARG, [])
         else if op = OP_TEST then (SCPE_OK, ''CMP'') else (SCPE_OK, ''STOP''))"

definition ssem_fprint_sym :: "t_value \<Rightarrow> u32 \<Rightarrow> t_stat \<times> string" where
  "ssem_fprint_sym val sw =
     (if sw AND SWMASK CHR ''H'' \<noteq> 0 then (SCPE_ARG, [])
      else if sw AND SWMASK CHR ''D'' \<noteq> 0 then (SCPE_OK, ssem_fprint_decimal (ucast val))
      else if sw AND SWMASK CHR ''M'' \<noteq> 0 then ssem_fprint_competition_mnemonic (ucast val)
      else (SCPE_OK, ssem_fprint_binary (ucast val) (sw AND SWMASK CHR ''I'' \<noteq> 0)))"

subsection \<open>Parsing\<close>

definition ssem_opcode :: "string list" where
  "ssem_opcode = [''JMP'', ''JRP'', ''LDN'', ''STO'', ''SUB'', [], ''CMP'', ''STOP'']"

text \<open>Decimal digits into an \<^verbatim>\<open>int\<close>, which must not overflow.\<close>

fun int_digits :: "string \<Rightarrow> int \<Rightarrow> (int \<times> string) option" where
  "int_digits [] n = Some (n, [])"
| "int_digits (c # cs) n =
     (if 48 \<le> cint c \<and> cint c \<le> 57
      then let n1 = n * 10 + (cint c - 48) in if n1 < 2 ^ 31 then int_digits cs n1 else None
      else Some (n, c # cs))"

definition parse_sym_d :: "string \<Rightarrow> (t_stat \<times> t_value list) option" where
  "parse_sym_d cptr =
     (let neg = (deref cptr = CHR ''-'')
      in case int_digits (if neg then tl cptr else cptr) 0 of
           None \<Rightarrow> None
         | Some (n, r) \<Rightarrow> Some (if r \<noteq> [] then (SCPE_ARG, []) else (SCPE_OK, [of_int (if neg then - n else n)])))"

text \<open>Decimal digits into an unsigned word, which wraps around.\<close>

fun word_digits :: "string \<Rightarrow> u32 \<Rightarrow> u32 \<times> string" where
  "word_digits [] n = (n, [])"
| "word_digits (c # cs) n =
     (if 48 \<le> cint c \<and> cint c \<le> 57 then word_digits cs (n * 10 + of_int (cint c - 48)) else (n, c # cs))"

definition parse_sym_m :: "string \<Rightarrow> t_stat \<times> t_value list" where
  "parse_sym_m cptr =
     (let (gbuf, r) = get_glyph cptr NUL;
          n = length (takeWhile (\<lambda>op. op \<noteq> gbuf) ssem_opcode)
      in if n \<ge> length ssem_opcode then (SCPE_ARG, [])
         else if r = [] \<and> n > OP_UNDOCUMENTED \<and> n \<le> OP_STOP then (SCPE_OK, [push_bit 13 (of_nat n)])
         else let r1 = skip_space r
              in if \<not> (48 \<le> cint (deref r1) \<and> cint (deref r1) \<le> 57) then (SCPE_ARG, [])
                 else let (a, r2) = word_digits r1 0
                      in if a \<ge> MEMSIZE then (SCPE_ARG, [])
                         else if r2 \<noteq> [] then (SCPE_ARG, [])
                         else (SCPE_OK, [ucast (push_bit 13 (of_nat n) + a)]))"

text \<open>Binary digits: each is an \<^verbatim>\<open>int\<close> shifted by its place, the one at place 31 is negative.\<close>

fun binary_digits :: "string \<Rightarrow> nat \<Rightarrow> t_value \<Rightarrow> (t_value \<times> string) option" where
  "binary_digits [] count n = Some (n, [])"
| "binary_digits (c # cs) count n =
     (if c = CHR ''0'' \<or> c = CHR ''1''
      then if count \<ge> 32 then None
           else binary_digits cs (count + 1) (n + (if c = CHR ''0'' then 0 else of_int (signed_take_bit 31 (2 ^ count))))
      else Some (n, c # cs))"

definition parse_sym_b :: "string \<Rightarrow> (t_stat \<times> t_value list) option" where
  "parse_sym_b cptr =
     (case binary_digits cptr 0 0 of
        None \<Rightarrow> None
      | Some (n, r) \<Rightarrow> Some (if r \<noteq> [] then (SCPE_ARG, []) else (SCPE_OK, [n])))"

definition parse_sym_i :: "string \<Rightarrow> (t_stat \<times> t_value list) option" where
  "parse_sym_i cptr =
     (case binary_digits cptr 0 0 of
        None \<Rightarrow> None
      | Some (a, r) \<Rightarrow>
          if r = [] \<and> a > of_nat OP_UNDOCUMENTED \<and> a \<le> of_nat OP_STOP then Some (SCPE_OK, [push_bit 13 a])
          else if a \<ge> 32 then Some (SCPE_ARG, [])
          else let r1 = skip_space r
               in if deref r1 \<noteq> CHR ''0'' \<and> deref r1 \<noteq> CHR ''1'' then Some (SCPE_ARG, [])
                  else case binary_digits r1 0 0 of
                         None \<Rightarrow> None
                       | Some (n, r2) \<Rightarrow>
                           Some (if n \<ge> of_nat OP_UNDOCUMENTED then (SCPE_ARG, [])
                                 else if r2 \<noteq> [] then (SCPE_ARG, [])
                                 else (SCPE_OK, [push_bit 13 n + a])))"

definition ssem_parse_sym :: "string \<Rightarrow> u32 \<Rightarrow> (t_stat \<times> t_value list) option" where
  "ssem_parse_sym cptr sw =
     (if sw AND SWMASK CHR ''H'' \<noteq> 0 then Some (SCPE_ARG, [])
      else let c = skip_space cptr
           in if sw AND SWMASK CHR ''D'' \<noteq> 0 then parse_sym_d c
              else if sw AND SWMASK CHR ''I'' \<noteq> 0 then parse_sym_i c
              else if sw AND SWMASK CHR ''M'' \<noteq> 0 then Some (parse_sym_m c)
              else parse_sym_b c)"

definition ssem_cpu_dev :: "('a ssem_scheme) DEVICE" where
  "ssem_cpu_dev = \<lparr>dv_awidth = 5, dv_aincr = 1, dv_aradix = 10, dv_dradix = 16, dv_dwidth = 32,
     dv_examine = Some (\<lambda>a sw s. ssem_cpu_ex a s), dv_deposit = Some (\<lambda>v a sw s. ssem_cpu_dep v a s)\<rparr>"

end
