(* ===== verification/SsemText.thy ===== *)
theory SsemText
  imports SsemSys AddressSpace
begin

text \<open>
  The SSEM's printed forms and dumps are read back, and its memory is an address space, so that words are
  copied by depositing what an examination printed.
\<close>

unbundle bit_operations_syntax

subsection \<open>Dumps\<close>

lemma load_le_append:
  "n \<le> 8 \<Longrightarrow> p + n \<le> length xs \<Longrightarrow> load_le (list_mem (xs @ ys)) p n = load_le (list_mem xs) p n"
  "n \<le> 8 \<Longrightarrow> length xs \<le> p \<Longrightarrow> load_le (list_mem (xs @ ys)) p n = load_le (list_mem ys) (p - length xs) n"
proof -
  show "n \<le> 8 \<Longrightarrow> p + n \<le> length xs \<Longrightarrow> load_le (list_mem (xs @ ys)) p n = load_le (list_mem xs) p n"
    by (rule load_le_bytes) (auto simp: list_mem_def nth_append)
  show "n \<le> 8 \<Longrightarrow> length xs \<le> p \<Longrightarrow> load_le (list_mem (xs @ ys)) p n = load_le (list_mem ys) (p - length xs) n"
  proof (induction n arbitrary: p)
    case (Suc n)
    moreover have "list_mem (xs @ ys) p = list_mem ys (p - length xs)" using Suc.prems by (auto simp: list_mem_def nth_append)
    moreover have "p + 1 - length xs = p - length xs + 1" using Suc.prems by simp
    ultimately show ?case by simp
  qed simp
qed

lemma load_word: "ucast (load_le (list_mem (le_bytes 4 (ucast (x :: u32)))) 0 4) = x"
proof -
  have "load_le (list_mem (put_bytes 0 (le_bytes 4 (ucast x)) (replicate 4 0))) 0 4 = take_bit 32 (ucast x :: t_value)"
    using load_put_bytes [of 4 0 "replicate 4 0" "ucast x"] by simp
  then have "load_le (list_mem (le_bytes 4 (ucast x))) 0 4 = take_bit 32 (ucast x :: t_value)"
    by (simp add: put_bytes_def le_bytes_props)
  then show ?thesis by (simp, intro bit_word_eqI) (auto simp: bit_simps)
qed

lemma file_word_here: "file_word (le_bytes 4 (ucast x) @ ys) 0 = x"
  by (simp add: file_word_def load_le_append(1) le_bytes_props load_word)

lemma file_word_later: "length xs \<le> p \<Longrightarrow> file_word (xs @ ys) p = file_word ys (p - length xs)"
  by (simp add: file_word_def load_le_append(2))

lemma file_word_concat: "k < n \<Longrightarrow> file_word (concat (map (\<lambda>i. le_bytes 4 (ucast (f i))) [0..<n])) (4 * k) = f k"
proof (induction n arbitrary: f k)
  case (Suc n)
  have s: "[0..<Suc n] = 0 # map Suc [0..<n]" by (simp add: map_Suc_upt upt_conv_Cons del: upt_Suc)
  show ?case
  proof (cases k)
    case 0
    then show ?thesis by (simp add: s file_word_here del: upt_Suc)
  next
    case (Suc j)
    then show ?thesis using Suc.prems Suc.IH [of j "\<lambda>i. f (Suc i)"]
      by (simp add: s file_word_later le_bytes_props comp_def del: upt_Suc)
  qed
qed simp

lemma dump_length: "length (ssem_dump s) = 136"
  by (simp add: ssem_dump_def le_bytes_props length_concat comp_def sum_list_triv)

lemma dump_words:
  "file_word (ssem_dump s) 0 = reg_A s" "file_word (ssem_dump s) 4 = C0 s"
  "k < 32 \<Longrightarrow> file_word (ssem_dump s) (8 + 4 * k) = store_S s (of_nat k)"
  by (simp_all add: ssem_dump_def file_word_here file_word_later le_bytes_props file_word_concat)

lemma load_dump:
  "ssem_load_dmp (ssem_dump s) t =
     (SCPE_OK, t\<lparr>C1 := 0, reg_A := reg_A s, C0 := C0 s, store_S := (\<lambda>a. if a < MEMSIZE then store_S s a else store_S t a)\<rparr>)"
proof -
  have "(\<lambda>a. if unat a < 32 then file_word (ssem_dump s) (8 + 4 * unat a) else store_S t a) =
      (\<lambda>a. if a < MEMSIZE then store_S s a else store_S t a)"
    by (auto simp: fun_eq_iff dump_words word_less_nat_alt)
  then show ?thesis by (simp add: ssem_load_dmp_def dump_length dump_words Let_def cong: if_cong)
qed

subsection \<open>Binary numbers\<close>

lemma binary_number_bits: "ssem_fprint_binary_number v k = map (\<lambda>i. if bit v i then CHR ''1'' else CHR ''0'') [0..<k]"
proof (induction k arbitrary: v)
  case (Suc k)
  have s: "[0..<Suc k] = 0 # map Suc [0..<k]" by (simp add: map_Suc_upt upt_conv_Cons del: upt_Suc)
  have "v AND 1 \<noteq> 0 \<longleftrightarrow> bit v 0" by (simp add: and_one_eq odd_iff_mod_2_eq_one bit_0)
  then show ?case by (simp add: s Suc.IH bit_drop_bit_eq comp_def del: upt_Suc)
qed simp

text \<open>What the digits of a word add up to: up to 31 digits its low bits, with the last one its sign extension.\<close>

definition low_value :: "nat \<Rightarrow> u32 \<Rightarrow> int" where
  "low_value c v = (if c = 32 then sint v else take_bit c (sint v))"

lemma low_value_Suc:
  assumes "c < 32"
  shows "low_value (Suc c) v = low_value c v + (if bit v c then signed_take_bit 31 (2 ^ c) else 0)"
proof -
  have b: "bit (sint v) c = bit v c" using assms by (simp add: bit_sint_iff)
  show ?thesis
  proof (cases "c = 31")
    case True
    have "signed_take_bit 31 (sint v) = sint v" by (simp add: sint_uint)
    then have "sint v = take_bit 31 (sint v) - 2 ^ 31 * of_bool (bit (sint v) 31)"
      using signed_take_bit_eq_take_bit_minus [of 31 "sint v"] take_bit_Suc_from_most [of 31 "sint v"] by simp
    then show ?thesis using True b by (cases "bit v 31") (simp_all add: low_value_def)
  next
    case False
    then have "2 ^ c < (2 ^ 31 :: int)" using assms by (intro power_strict_increasing) simp_all
    then have "signed_take_bit 31 (2 ^ c) = (2 ^ c :: int)" 
      by (intro signed_take_bit_int_eq_self) (simp_all, use zero_less_power [of "2 :: int" c] in linarith)
    then show ?thesis using False assms b by (simp add: low_value_def take_bit_Suc_from_most)
  qed
qed

lemma binary_digits_word:
  assumes "m \<le> 32" "r = [] \<or> hd r \<notin> {CHR ''0'', CHR ''1''}" "c \<le> m"
  shows "binary_digits (map (\<lambda>i. if bit v i then CHR ''1'' else CHR ''0'') [c..<m] @ r) c (of_int (low_value c v)) =
    Some (of_int (low_value m v), r)"
  using assms(3)
proof (induction "m - c" arbitrary: c)
  case 0
  then show ?case using assms(2) by (cases r) auto
next
  case (Suc n)
  then have lt: "c < m" "c < 32" "n = m - Suc c" "Suc c \<le> m" using assms(1) by simp_all
  then have "[c..<m] = c # [Suc c..<m]" by (simp add: upt_conv_Cons)
  then show ?case using Suc.hyps(1) [OF lt(3,4)] lt(2) by (cases "bit v c") (simp_all add: low_value_Suc)
qed

lemma low_value_0: "low_value 0 v = 0"
  by (simp add: low_value_def)

lemma parse_binary_number: "m \<le> 32 \<Longrightarrow> r = [] \<or> hd r \<notin> {CHR ''0'', CHR ''1''} \<Longrightarrow>
    binary_digits (ssem_fprint_binary_number v m @ r) 0 0 = Some (of_int (low_value m v), r)"
  using binary_digits_word [of m r 0 v] by (simp add: binary_number_bits low_value_0)

lemma low_value_small: "m < 32 \<Longrightarrow> of_int (low_value m v) = (take_bit m (ucast v) :: t_value)"
  by (rule bit_word_eqI) (auto simp: low_value_def bit_simps possible_bit_def simp flip: take_bit_of_int)

subsection \<open>Decimal numbers\<close>

lemma decimal_digit: "k < 10 \<Longrightarrow> cint (char_of (48 + k)) = 48 + int k" for k :: nat
  by (simp add: cint_char_of)

lemma int_digits_decimal: "n < 2 ^ 31 \<Longrightarrow> int_digits (decimal n @ r) 0 = int_digits r (int n)"
proof (induction n arbitrary: r rule: decimal.induct)
  case (1 n)
  show ?case
  proof (cases "n < 10")
    case True
    then show ?thesis using decimal_digit [of n] by (subst decimal.simps) simp
  next
    case False
    have d: "n mod 10 < 10" "n mod 10 \<le> 9" "int (n div 10) * 10 + int (n mod 10) = int n" by presburger+
    have "int_digits (decimal (n div 10) @ [char_of (48 + n mod 10)] @ r) 0 = int_digits ([char_of (48 + n mod 10)] @ r) (int (n div 10))"
      using 1 False by simp
    then show ?thesis using False "1.prems" d decimal_digit [OF d(1)] by (subst decimal.simps) (simp add: Let_def)
  qed
qed

lemma word_digits_decimal: "word_digits (decimal n @ r) 0 = word_digits r (of_nat n)"
proof (induction n arbitrary: r rule: decimal.induct)
  case (1 n)
  show ?case
  proof (cases "n < 10")
    case True
    then show ?thesis using decimal_digit [of n] by (subst decimal.simps) simp
  next
    case False
    have d: "n mod 10 < 10" "n mod 10 \<le> 9" by presburger+
    have "(of_nat n :: u32) = of_nat (n div 10 * 10 + n mod 10)" by simp
    then have e: "(of_nat n :: u32) = of_nat (n div 10) * 10 + of_int (int (n mod 10))" by (simp only: of_nat_add of_nat_mult of_int_of_nat_eq of_nat_numeral)
    have "word_digits (decimal (n div 10) @ [char_of (48 + n mod 10)] @ r) 0 = word_digits ([char_of (48 + n mod 10)] @ r) (of_nat (n div 10))"
      using 1 False by simp
    then show ?thesis using False d decimal_digit [OF d(1)] by (subst decimal.simps) (simp add: e)
  qed
qed

lemma decimal_hd: "decimal n \<noteq> [] \<and> 48 \<le> cint (hd (decimal n)) \<and> cint (hd (decimal n)) \<le> 57"
proof (induction n rule: decimal.induct)
  case (1 n)
  show ?case
  proof (cases "n < 10")
    case True
    with decimal_digit [of n] show ?thesis by (subst (1 2 3) decimal.simps) simp
  qed (use 1 in \<open>subst (1 2 3) decimal.simps, simp\<close>)
qed

lemma decimal_start: "skip_space (decimal n @ r) = decimal n @ r" "deref (decimal n @ r) \<noteq> CHR ''-''"
    "48 \<le> cint (deref (decimal n @ r))" "cint (deref (decimal n @ r)) \<le> 57"
proof -
  obtain c cs where c: "decimal n = c # cs" "48 \<le> cint c" "cint c \<le> 57" using decimal_hd [of n] by (cases "decimal n") auto
  then show "48 \<le> cint (deref (decimal n @ r))" "cint (deref (decimal n @ r)) \<le> 57" by (simp_all add: deref_def)
  have "c \<noteq> CHR ''-''" using c(2) by (auto simp: cint_def)
  then show "deref (decimal n @ r) \<noteq> CHR ''-''" using c by (simp add: deref_def)
  show "skip_space (decimal n @ r) = decimal n @ r" using c by (simp add: skip_space_def ctype_defs)
qed

lemma parse_decimal: "n < 2 ^ 31 \<Longrightarrow> parse_sym_d (decimal n) = Some (SCPE_OK, [of_nat n])"
  using int_digits_decimal [of n "[]"] decimal_start(2) [of n "[]"] by (simp add: parse_sym_d_def)

subsection \<open>Instructions\<close>

definition plain_word :: "string \<Rightarrow> bool" where
  "plain_word w \<longleftrightarrow> list_all (\<lambda>c. \<not> sim_isspace (cint c) \<and> c \<noteq> NUL \<and> \<not> sim_islower (cint c)) w"

lemma glyph_plain: "plain_word w \<Longrightarrow> glyph_loop NUL True False NUL False False NUL (w @ CHR '' '' # t) = (w, CHR '' '' # t)"
proof (induction w)
  case Nil
  have "sim_isspace (cint CHR '' '')" by code_simp
  then show ?case by simp
qed (simp add: plain_word_def)

lemma get_glyph_plain: "plain_word w \<Longrightarrow> get_glyph (w @ CHR '' '' # t) NUL = (w, skip_space t)"
proof -
  have "sim_isspace (cint CHR '' '')" by code_simp
  then show "plain_word w \<Longrightarrow> get_glyph (w @ CHR '' '' # t) NUL = (w, skip_space t)"
    by (simp add: get_glyph_def get_glyph_gen_def glyph_plain skip_space_def)
qed

lemma opcodes_plain: "list_all plain_word ssem_opcode"
  by code_simp

lemma mnemonic_parse:
  assumes "op < 5" "ea < 32"
  shows "parse_sym_m (ssem_opcode ! op @ '' '' @ decimal ea) = (SCPE_OK, [ucast (push_bit 13 (of_nat op) + of_nat ea :: u32)])"
proof -
  have "plain_word (ssem_opcode ! op)" using opcodes_plain assms(1) by (auto simp: list_all_length ssem_opcode_def)
  then have g: "get_glyph (ssem_opcode ! op @ '' '' @ decimal ea) NUL = (ssem_opcode ! op, decimal ea)"
    using get_glyph_plain [of "ssem_opcode ! op" "decimal ea"] decimal_start(1) [of ea "[]"] by simp
  have "op \<in> {0, 1, 2, 3, 4}" using assms(1) by auto
  then have n: "length (takeWhile (\<lambda>x. x \<noteq> ssem_opcode ! op) ssem_opcode) = op" by (auto simp: ssem_opcode_def)
  have "\<not> (of_nat ea :: u32) \<ge> MEMSIZE" using assms(2) by (simp add: word_le_nat_alt unsigned_of_nat take_bit_nat_eq_self)
  moreover have "word_digits (decimal ea) 0 = (of_nat ea, [])" using word_digits_decimal [of ea "[]"] by simp
  moreover have "\<not> op \<ge> length ssem_opcode" using assms(1) by (simp add: ssem_opcode_def)
  ultimately show ?thesis
    using assms(1) decimal_start [of ea "[]"] decimal_hd [of ea] by (simp add: parse_sym_m_def g [simplified] n Let_def)
qed

lemma mnemonics_parse_plain: "parse_sym_m ''CMP'' = (SCPE_OK, [0xC000])" "parse_sym_m ''STOP'' = (SCPE_OK, [0xE000])"
  by code_simp+

text \<open>The bits of an instruction: the operation and, unless it has none, the address.\<close>

definition ssem_canon :: "u32 \<Rightarrow> u32" where
  "ssem_canon v = (if unat (I_GETOP v) \<ge> OP_TEST then v AND 0xE000 else v AND 0xE01F)"

lemma fields_disjoint: "push_bit 13 (I_GETOP v) AND I_GETEA v = 0"
  unfolding I_GETOP_def I_GETEA_def ssem_masks by (rule bit_word_eqI) (auto simp: bit_simps)

lemma fields_join: "push_bit 13 (I_GETOP v) + I_GETEA v = v AND 0xE01F" "push_bit 13 (I_GETOP v) = v AND 0xE000"
proof -
  have m: "(0xE000 :: u32) = push_bit 13 (mask 3)" by (simp add: mask_eq_exp_minus_1)
  show "push_bit 13 (I_GETOP v) = v AND 0xE000"
    unfolding I_GETOP_def ssem_masks(2) m by (rule bit_word_eqI) (auto simp: bit_simps)
  have "push_bit 13 (I_GETOP v) + I_GETEA v = push_bit 13 (I_GETOP v) OR I_GETEA v"
    by (simp add: disjunctive_add_eq_or fields_disjoint)
  also have "\<dots> = v AND 0xE01F"
    unfolding I_GETOP_def I_GETEA_def ssem_masks by (rule bit_word_eqI) (auto simp: bit_simps)
  finally show "push_bit 13 (I_GETOP v) + I_GETEA v = v AND 0xE01F" .
qed

lemma field_bounds: "unat (I_GETOP v) < 8" "unat (I_GETEA v) < 32"
proof -
  have "fits 3 (I_GETOP v)" "fits 5 (I_GETEA v)" by (simp_all add: I_GETOP_def I_GETEA_def ssem_masks fits_bit bit_simps)
  then show "unat (I_GETOP v) < 8" "unat (I_GETEA v) < 32" by (simp_all add: fits_less)
qed

lemma field_digits:
  "of_int (low_value 3 (I_GETOP v)) = (ucast (I_GETOP v) :: t_value)" "of_int (low_value 5 (I_GETEA v)) = (ucast (I_GETEA v) :: t_value)"
proof -
  show "of_int (low_value 3 (I_GETOP v)) = (ucast (I_GETOP v) :: t_value)"
    by (simp add: low_value_small) (rule bit_word_eqI, auto simp: I_GETOP_def ssem_masks bit_simps)
  show "of_int (low_value 5 (I_GETEA v)) = (ucast (I_GETEA v) :: t_value)"
    by (simp add: low_value_small) (rule bit_word_eqI, auto simp: I_GETEA_def ssem_masks bit_simps)
qed

lemma binary_form: "parse_sym_b (ssem_fprint_binary v False) = Some (SCPE_OK, [scast v])"
  using parse_binary_number [of 32 "[]" v] by (simp add: parse_sym_b_def ssem_fprint_binary_def low_value_def)

lemma mnemonic_form:
  assumes "unat (I_GETOP v) \<noteq> OP_UNDOCUMENTED"
  shows "\<exists>t. ssem_fprint_competition_mnemonic v = (SCPE_OK, t) \<and> skip_space t = t \<and> parse_sym_m t = (SCPE_OK, [ucast (ssem_canon v)])"
proof -
  let ?op = "unat (I_GETOP v)" and ?ea = "unat (I_GETEA v)"
  show ?thesis
  proof (cases "?op < 5")
    case True
    then have "?op \<in> {0, 1, 2, 3, 4}" by auto
    then have "ssem_fprint_competition_mnemonic v = (SCPE_OK, ssem_opcode ! ?op @ '' '' @ decimal ?ea)"
      by (auto simp: ssem_fprint_competition_mnemonic_def ssem_opcode_def Let_def)
    moreover have "ucast (push_bit 13 (of_nat ?op) + of_nat ?ea :: u32) = (ucast (ssem_canon v) :: t_value)"
      using True fields_join(1) [of v] by (simp add: ssem_canon_def)
    moreover have "skip_space (ssem_opcode ! ?op @ '' '' @ decimal ?ea) = ssem_opcode ! ?op @ '' '' @ decimal ?ea"
      using \<open>?op \<in> {0, 1, 2, 3, 4}\<close> by (auto simp: ssem_opcode_def skip_space_def ctype_defs cint_def)
    ultimately show ?thesis using mnemonic_parse [OF True field_bounds(2)] by auto
  next
    case False
    then have op: "?op = 6 \<or> ?op = 7" using assms field_bounds(1) [of v] by linarith
    then have "I_GETOP v = 6 \<or> I_GETOP v = 7" by (auto simp: word_unat_eq_iff)
    then have "ssem_canon v = (if ?op = 6 then 0xC000 else 0xE000)" using fields_join(2) [of v] op by (auto simp: ssem_canon_def)
    moreover have "skip_space ''CMP'' = ''CMP''" "skip_space ''STOP'' = ''STOP''" by (simp_all add: skip_space_def ctype_defs cint_def)
    ultimately show ?thesis using op mnemonics_parse_plain by (auto simp: ssem_fprint_competition_mnemonic_def Let_def)
  qed
qed

lemma instruction_form:
  assumes "unat (I_GETOP v) \<noteq> OP_UNDOCUMENTED"
  shows "parse_sym_i (ssem_fprint_binary v True) = Some (SCPE_OK, [ucast (ssem_canon v)])"
proof -
  let ?op = "I_GETOP v" and ?ea = "I_GETEA v"
  have w: "unat (ucast ?op :: t_value) = unat ?op" "unat (ucast ?ea :: t_value) = unat ?ea"
    using field_bounds [of v] by (simp_all add: unsigned_ucast_eq take_bit_nat_eq_self)
  have up: "ucast (push_bit 13 ?op) = (push_bit 13 (ucast ?op) :: t_value)"
    unfolding I_GETOP_def ssem_masks by (rule bit_word_eqI) (auto simp: bit_simps)
  have sp: "skip_space ('' '' @ t) = skip_space t" for t by (simp add: skip_space_def ctype_defs cint_def)
  have ops: "skip_space (ssem_fprint_binary_number ?op 3) = ssem_fprint_binary_number ?op 3"
      "deref (ssem_fprint_binary_number ?op 3) = CHR ''0'' \<or> deref (ssem_fprint_binary_number ?op 3) = CHR ''1''"
    by (simp_all add: binary_number_bits upt_conv_Cons skip_space_def deref_def ctype_defs cint_def)
  have num: "binary_digits (ssem_fprint_binary_number ?op 3) 0 0 = Some (ucast ?op, [])"
    using parse_binary_number [of 3 "[]" ?op] by (simp add: field_digits)
  show ?thesis
  proof (cases "unat ?op < 5")
    case True
    have "binary_digits (ssem_fprint_binary_number ?ea 5 @ '' '' @ ssem_fprint_binary_number ?op 3) 0 0 =
        Some (ucast ?ea, '' '' @ ssem_fprint_binary_number ?op 3)"
      using parse_binary_number [of 5 "'' '' @ ssem_fprint_binary_number ?op 3" ?ea] by (simp add: field_digits)
    moreover have "ucast (ssem_canon v) = (push_bit 13 (ucast ?op) + ucast ?ea :: t_value)"
    proof -
      have "ucast (push_bit 13 ?op + ?ea) = (ucast (push_bit 13 ?op) OR ucast ?ea :: t_value)"
        by (simp add: disjunctive_add_eq_or fields_disjoint unsigned_or_eq)
      also have "\<dots> = push_bit 13 (ucast ?op) + ucast ?ea"
        by (subst disjunctive_add_eq_or) (simp_all add: up fields_disjoint flip: up unsigned_and_eq)
      finally show ?thesis using True fields_join(1) [of v] by (simp add: ssem_canon_def)
    qed
    ultimately show ?thesis
      using True w sp [of "ssem_fprint_binary_number ?op 3"] ops num field_bounds(2) [of v]
      by (simp add: parse_sym_i_def ssem_fprint_binary_def Let_def word_le_nat_alt word_less_nat_alt)
  next
    case False
    then have "unat ?op = 6 \<or> unat ?op = 7" using assms field_bounds(1) [of v] by linarith
    then show ?thesis
      using w num fields_join(2) [of v] up by (auto simp: parse_sym_i_def ssem_fprint_binary_def ssem_canon_def Let_def word_le_nat_alt word_less_nat_alt)
  qed
qed

lemma instruction_refused:
  assumes "unat (I_GETOP v) = OP_UNDOCUMENTED"
  shows "parse_sym_i (ssem_fprint_binary v True) = Some (SCPE_ARG, [])"
proof -
  let ?op = "I_GETOP v" and ?ea = "I_GETEA v"
  have w: "unat (ucast ?op :: t_value) = unat ?op" "unat (ucast ?ea :: t_value) = unat ?ea"
    using field_bounds [of v] by (simp_all add: unsigned_ucast_eq take_bit_nat_eq_self)
  have sp: "skip_space ('' '' @ t) = skip_space t" for t by (simp add: skip_space_def ctype_defs cint_def)
  have ops: "skip_space (ssem_fprint_binary_number ?op 3) = ssem_fprint_binary_number ?op 3"
      "deref (ssem_fprint_binary_number ?op 3) = CHR ''0'' \<or> deref (ssem_fprint_binary_number ?op 3) = CHR ''1''"
    by (simp_all add: binary_number_bits upt_conv_Cons skip_space_def deref_def ctype_defs cint_def)
  have "binary_digits (ssem_fprint_binary_number ?op 3) 0 0 = Some (ucast ?op, [])"
    "binary_digits (ssem_fprint_binary_number ?ea 5 @ '' '' @ ssem_fprint_binary_number ?op 3) 0 0 =
      Some (ucast ?ea, '' '' @ ssem_fprint_binary_number ?op 3)"
    using parse_binary_number [of 3 "[]" ?op] parse_binary_number [of 5 "'' '' @ ssem_fprint_binary_number ?op 3" ?ea]
    by (simp_all add: field_digits)
  then show ?thesis
    using assms w sp [of "ssem_fprint_binary_number ?op 3"] ops field_bounds(2) [of v]
    by (simp add: parse_sym_i_def ssem_fprint_binary_def Let_def word_le_nat_alt word_less_nat_alt)
qed

lemma binary_start: "0 < k \<Longrightarrow> skip_space (ssem_fprint_binary_number v k @ r) = ssem_fprint_binary_number v k @ r"
  by (cases k) (simp_all add: skip_space_def ctype_defs cint_def)

lemma binary_text_start: "skip_space (ssem_fprint_binary v flag) = ssem_fprint_binary v flag"
  using binary_start [of 32 v "[]"] binary_start [of 3 "I_GETOP v" "[]"] binary_start [of 5 "I_GETEA v" "'' '' @ ssem_fprint_binary_number (I_GETOP v) 3"]
  by (auto simp: ssem_fprint_binary_def Let_def)

lemma sign_bit: "v AND SMASK \<noteq> 0 \<longleftrightarrow> bit (v :: u32) 31"
  by (simp add: bit_iff_and_push_bit_not_eq_0)

lemma decimal_form:
  assumes "\<not> bit v 31"
  shows "parse_sym_d (ssem_fprint_decimal v) = Some (SCPE_OK, [ucast v])" "skip_space (ssem_fprint_decimal v) = ssem_fprint_decimal v"
proof -
  have "\<not> bit v k" if "31 \<le> k" for k
    using that assms bit_imp_le_length [of v k] by (cases "k = 31") auto
  then have "fits 31 v" by (simp add: fits_bit)
  then have "unat v < 2 ^ 31" by (simp add: fits_less)
  then show "parse_sym_d (ssem_fprint_decimal v) = Some (SCPE_OK, [ucast v])"
    using parse_decimal [of "unat v"] assms sign_bit [of v] by (simp add: ssem_fprint_decimal_def)
  show "skip_space (ssem_fprint_decimal v) = ssem_fprint_decimal v"
    using decimal_start(1) [of "unat v" "[]"] assms sign_bit [of v] by (simp add: ssem_fprint_decimal_def)
qed

subsection \<open>The memory\<close>

definition ssem_word :: "('a ssem_scheme) \<times> UNIT \<times> fs \<Rightarrow> t_addr \<Rightarrow> t_value" where
  "ssem_word st a = ucast (store_S (fst st) a)"

lemma word_width: "ucast (x :: u32) AND (mask 32 :: t_value) = (ucast x :: t_value)"
  by (rule bit_word_eqI) (auto simp: bit_simps dest: bit_imp_le_length)

interpretation ssem_memory: address_space ssem_cpu_dev "\<lambda>st. True" "\<lambda>a. a < MEMSIZE" ssem_word
proof unfold_locales
  fix s :: "('a ssem_scheme) adst" and j :: t_addr and sw :: u32 and v :: t_value
  show "\<exists>r v. read_loc ssem_cpu_dev sw j s = Inr (False, r, v)"
    by (simp add: read_loc_def ssem_cpu_dev_def ssem_cpu_ex_def)
  assume j: "j < MEMSIZE"
  show "\<exists>v. read_loc ssem_cpu_dev sw j s = Inr (False, SCPE_OK, Some v) \<and> v AND width_mask (dv_dwidth ssem_cpu_dev) = ssem_word (ad_store s) j"
    using j by (simp add: read_loc_def ssem_cpu_dev_def ssem_cpu_ex_def ssem_word_def ad_store_def width_mask_def word_width ssem_Read_def)
  assume v: "v AND width_mask (dv_dwidth ssem_cpu_dev) = v"
  then have "ucast (ucast v :: u32) = v"
    by (intro bit_word_eqI) (auto simp: bit_simps ssem_cpu_dev_def width_mask_def dest: masked_bitD)
  then show "\<exists>m u f. write_loc ssem_cpu_dev sw v j s = Inr (SCPE_OK, s\<lparr>ad_vm := m, ad_unit := u, ad_fs := f\<rparr>) \<and>
      True \<and> un_ro u = un_ro (ad_unit s) \<and> un_dis u = un_dis (ad_unit s) \<and>
      (\<forall>k. k < MEMSIZE \<longrightarrow> ssem_word (m, u, f) k = (if k = j then v else ssem_word (ad_store s) k))"
    using j by (intro exI [of _ "ssem_Write j (ucast v) (ad_vm s)"] exI [of _ "ad_unit s"] exI [of _ "ad_fs s"])
      (auto simp: write_loc_def ssem_cpu_dev_def ssem_cpu_dep_def ssem_Write_eq ssem_word_def ad_store_def)
qed (simp add: ssem_cpu_dev_def)



subsection \<open>Properties\<close>

definition sw_given :: "u32 \<Rightarrow> char \<Rightarrow> bool" where
  "sw_given sw c \<longleftrightarrow> sw AND SWMASK c \<noteq> 0"

text \<open>
  C25. Round trip, with the switches for one of the forms other than hexadecimal (\<^verbatim>\<open>-I\<close> and
  \<^verbatim>\<open>-M\<close> not both): what the SSEM prints for a word in backward binary or, unless negative, in
  decimal, it parses back to the word; what it prints as a binary instruction or as a mnemonic, to the
  bits that the instruction uses.  The exception are words with the undocumented operation 5 in the
  last two forms: printing the mnemonic fails, and the binary instruction that is printed is refused by
  the parser.
\<close>

theorem ssem_text_roundtrip:
  fixes v :: u32
  assumes "\<not> sw_given sw CHR ''H''" "\<not> (sw_given sw CHR ''I'' \<and> sw_given sw CHR ''M'')" "sw_given sw CHR ''D'' \<Longrightarrow> \<not> bit v 31"
  defines "instr \<equiv> \<not> sw_given sw CHR ''D'' \<and> (sw_given sw CHR ''I'' \<or> sw_given sw CHR ''M'')"
  shows "if instr \<and> unat (I_GETOP v) = OP_UNDOCUMENTED
    then if sw_given sw CHR ''M'' then ssem_fprint_sym (ucast v) sw = (SCPE_ARG, [])
         else \<exists>t. ssem_fprint_sym (ucast v) sw = (SCPE_OK, t) \<and> ssem_parse_sym t sw = Some (SCPE_ARG, [])
    else \<exists>t x. ssem_fprint_sym (ucast v) sw = (SCPE_OK, t) \<and> ssem_parse_sym t sw = Some (SCPE_OK, [x]) \<and>
           ucast x = (if instr then ssem_canon v else v)"
proof -
  have u: "ucast (ucast v :: t_value) = v" "ucast (scast v :: t_value) = v" for v :: u32
    by (simp, rule bit_word_eqI, simp add: bit_simps)
  consider (D) "sw_given sw CHR ''D''" | (M) "\<not> sw_given sw CHR ''D''" "sw_given sw CHR ''M''" "\<not> sw_given sw CHR ''I''" | (I) "\<not> sw_given sw CHR ''D''" "sw_given sw CHR ''I''" "\<not> sw_given sw CHR ''M''"
    | (B) "\<not> sw_given sw CHR ''D''" "\<not> sw_given sw CHR ''M''" "\<not> sw_given sw CHR ''I''"
    using assms(2) by blast
  then show ?thesis
  proof cases
    case D
    with decimal_form [of v] assms(1,3) u(1) [of v] show ?thesis
      by (auto simp: instr_def sw_given_def ssem_fprint_sym_def ssem_parse_sym_def Let_def)
  next
    case M
    with mnemonic_form [of v] assms(1) u(1) show ?thesis
      by (auto simp: instr_def sw_given_def ssem_fprint_sym_def ssem_parse_sym_def ssem_fprint_competition_mnemonic_def [of v] Let_def)
  next
    case I
    with instruction_form [of v] instruction_refused [of v] binary_text_start [of v True] assms(1) u(1) show ?thesis
      by (auto simp: instr_def sw_given_def ssem_fprint_sym_def ssem_parse_sym_def Let_def)
  next
    case B
    with binary_form [of v] binary_text_start [of v False] assms(1) u show ?thesis
      by (auto simp: instr_def sw_given_def ssem_fprint_sym_def ssem_parse_sym_def Let_def)
  qed
qed

text \<open>A simulator whose forms are those of the SSEM, wherever its arithmetic has a result.\<close>

definition ssem_forms :: "'x vm_hooks \<Rightarrow> bool" where
  "ssem_forms vm \<longleftrightarrow>
     (\<forall>c a sw r. ssem_parse_sym c sw = Some r \<longrightarrow> parse_sym vm c a True sw = r) \<and>
     (\<forall>a v e sw. fprint_sym vm a (v # e) True sw = ssem_fprint_sym v sw)"

text \<open>No switch selects another form than backward binary.\<close>

definition binary_switches :: "switches \<Rightarrow> bool" where
  "binary_switches w \<longleftrightarrow> \<not> list_ex (sw_given (sim_switches w)) ''HDIM''"

lemma binary_hooks:
  assumes "ssem_forms vm" "binary_switches w"
  shows "one_word vm w" "value_text vm w d a (ucast v) = ssem_fprint_binary v False"
    "text_value vm w d (ssem_fprint_binary v False) a = Some (scast v)"
proof -
  have fp: "fprint_sym vm a (x # e) True (sim_switches w) = (SCPE_OK, ssem_fprint_binary (ucast x) False)" for a x e
    using assms by (simp add: ssem_forms_def binary_switches_def sw_given_def ssem_fprint_sym_def)
  have ps: "ssem_parse_sym t (sim_switches w) = parse_sym_b (skip_space t)" for t
    using assms(2) by (simp add: binary_switches_def sw_given_def ssem_parse_sym_def Let_def)
  have zero: "parse_sym_b (skip_space ''0'') = Some (SCPE_OK, [0])" by code_simp
  have "parse_sym vm ''0'' 0 True (sim_switches w) = (SCPE_OK, [0])"
    using assms(1) ps [of "''0''"] zero by (simp add: ssem_forms_def)
  then show "one_word vm w" by (simp add: one_word_def fp)
  show "value_text vm w d a (ucast v) = ssem_fprint_binary v False" by (simp add: value_text_def fp)
  have "ssem_parse_sym (ssem_fprint_binary v False) (sim_switches w) = Some (SCPE_OK, [scast v])"
    by (simp add: ps binary_text_start binary_form)
  then have "parse_sym vm (ssem_fprint_binary v False) a True (sim_switches w) = (SCPE_OK, [scast v])"
    using assms(1) by (simp add: ssem_forms_def)
  then show "text_value vm w d (ssem_fprint_binary v False) a = Some (scast v)" by (simp add: text_value_def)
qed

lemma scast_width: "scast (v :: u32) AND (mask 32 :: t_value) = ucast v"
proof (rule bit_word_eqI)
  fix n assume "n < LENGTH(64)"
  moreover have "bit v n \<Longrightarrow> n < 32" using bit_imp_le_length [of v n] by simp
  moreover have "n < 32 \<Longrightarrow> min 31 n = n" by (simp add: min_def)
  ultimately show "bit (scast v AND (mask 32 :: t_value)) n = bit (ucast v :: t_value) n" by (auto simp: bit_simps)
qed

lemma ucast_u32_inject: "(ucast (x :: u32) :: t_value) = ucast y \<longleftrightarrow> x = y"
proof
  show "(ucast x :: t_value) = ucast y \<Longrightarrow> x = y" by (metis ucast_back)
qed simp

lemma ssem_widths [simp]: "dv_awidth ssem_cpu_dev = 5" "dv_dwidth ssem_cpu_dev = 32"
  by (simp_all add: ssem_cpu_dev_def)

lemma ssem_addresses: "k \<le> high \<Longrightarrow> high < MEMSIZE \<Longrightarrow> k < MEMSIZE" "high < MEMSIZE \<Longrightarrow> high \<noteq> - 1"
    "high < MEMSIZE \<Longrightarrow> high \<le> ucast (width_mask 5)" for high :: t_addr
  by (auto simp: ssem_cpu_dev_def width_mask_def unsigned_minus_1_eq_mask mask_eq_exp_minus_1 word_less_nat_alt word_le_nat_alt)

lemma ssem_copies:
  fixes s :: "('a ssem_scheme) adst"
  assumes "ssem_forms vm" "binary_switches w" "ad_eval s \<noteq> []" "\<not> un_dis (ad_unit s)" "\<not> un_ro (ad_unit s)"
    and "src < MEMSIZE" "low \<le> high" "high < MEMSIZE"
  defines "t \<equiv> ssem_fprint_binary (store_S (ad_vm s) src) False"
  shows "\<exists>s1. exdep_addr_loop vm w None EX_E c src src ssem_cpu_dev s = Some (Inr (SCPE_OK, s1)) \<and> ad_vm s1 = ad_vm s \<and>
      ad_out s1 = ad_out s @ addr_text vm (ssem_cpu_dev :: ('a ssem_scheme) DEVICE) src @ [CHR '':'', CHR 0x09] @ t @ [CHR 0x0A]"
    "\<exists>s2. exdep_addr_loop vm w None EX_D t low high ssem_cpu_dev s = Some (Inr (SCPE_OK, s2)) \<and>
      (\<forall>k. k < MEMSIZE \<longrightarrow> store_S (ad_vm s2) k = (if low \<le> k \<and> k \<le> high then store_S (ad_vm s) src else store_S (ad_vm s) k))"
proof -
  note hooks = binary_hooks(1) [OF assms(1,2)] binary_hooks(2,3) [OF assms(1,2), where d = "ssem_cpu_dev :: ('a ssem_scheme) DEVICE"]
  have "addr_range src src = [src]" by (simp add: addr_range_def)
  then show "\<exists>s1. exdep_addr_loop vm w None EX_E c src src ssem_cpu_dev s = Some (Inr (SCPE_OK, s1)) \<and> ad_vm s1 = ad_vm s \<and>
      ad_out s1 = ad_out s @ addr_text vm (ssem_cpu_dev :: ('a ssem_scheme) DEVICE) src @ [CHR '':'', CHR 0x09] @ t @ [CHR 0x0A]"
    using ssem_memory.examine_range [OF hooks(1), of src src s c] assms(3,4,6) ssem_addresses(1) [of _ src] ssem_addresses(2,3) [of src] hooks(2)
    by (auto simp: addr_line_def ssem_word_def ad_store_def t_def)
  obtain s2 where s2: "exdep_addr_loop vm w None EX_D t low high ssem_cpu_dev s = Some (Inr (SCPE_OK, s2))"
      "\<forall>k. k < MEMSIZE \<longrightarrow> ssem_word (ad_store s2) k =
        (if low \<le> k \<and> k \<le> high then scast (store_S (ad_vm s) src) AND width_mask 32 else ssem_word (ad_store s) k)"
    using ssem_memory.deposit_range [OF hooks(1) hooks(3) [where v = "store_S (ad_vm s) src"] assms(7) _ _ _ _ assms(3,4,5)] ssem_addresses(2,3) [OF assms(8)] ssem_addresses(1) [OF _ assms(8)]
    by (auto simp: t_def)
  then show "\<exists>s2. exdep_addr_loop vm w None EX_D t low high ssem_cpu_dev s = Some (Inr (SCPE_OK, s2)) \<and>
      (\<forall>k. k < MEMSIZE \<longrightarrow> store_S (ad_vm s2) k = (if low \<le> k \<and> k \<le> high then store_S (ad_vm s) src else store_S (ad_vm s) k))"
    by (intro exI [of _ s2]) (auto simp: ssem_word_def ad_store_def width_mask_def scast_width ucast_u32_inject)
qed

text \<open>
  C24. Round trip: \<^verbatim>\<open>EXAMINE\<close> of an SSEM location prints its address and its word in backward binary, and
  \<^verbatim>\<open>DEPOSIT\<close> of that word's text into a range of locations copies the word to each of them and changes no
  other location.
\<close>

theorem ssem_copies_by_text:
  fixes s :: "('a ssem_scheme) adst"
  assumes "ssem_forms vm" "binary_switches w" "ad_eval s \<noteq> []" "\<not> un_dis (ad_unit s)" "\<not> un_ro (ad_unit s)"
    and "src < MEMSIZE" "low \<le> high" "high < MEMSIZE"
  shows "(\<exists>s1. exdep_addr_loop vm w None EX_E c src src ssem_cpu_dev s = Some (Inr (SCPE_OK, s1)) \<and> ad_vm s1 = ad_vm s \<and>
      ad_out s1 = ad_out s @ addr_text vm (ssem_cpu_dev :: ('a ssem_scheme) DEVICE) src @ [CHR '':'', CHR 0x09] @
        ssem_fprint_binary (store_S (ad_vm s) src) False @ [CHR 0x0A]) \<and>
    (\<exists>s2. exdep_addr_loop vm w None EX_D (ssem_fprint_binary (store_S (ad_vm s) src) False) low high ssem_cpu_dev s = Some (Inr (SCPE_OK, s2)) \<and>
      (\<forall>k. k < MEMSIZE \<longrightarrow> store_S (ad_vm s2) k = (if low \<le> k \<and> k \<le> high then store_S (ad_vm s) src else store_S (ad_vm s) k)))"
  using ssem_copies [OF assms] by blast

text \<open>
  Round trip: loading what a dump wrote succeeds and restores the accumulator, the control
  instruction and all 32 words of the store.
\<close>

lemma ssem_dump_restores:
  assumes "base \<noteq> []"
  shows "ssem_sim_load (base @ ''.st'') True fi s = (SCPE_OK, ssem_dump s, s) \<and>
    ssem_sim_load (base @ ''.st'') False (ssem_dump s) t =
      (SCPE_OK, [], t\<lparr>C1 := 0, reg_A := reg_A s, C0 := C0 s, store_S := (\<lambda>a. if a < MEMSIZE then store_S s a else store_S t a)\<rparr>)"
  using assms by (simp add: ssem_sim_load_def load_dump Let_def)

theorem ssem_text_roundtrip_witness:
  "\<exists>t x. ssem_fprint_sym (ucast (0x601C :: u32)) (SWMASK CHR ''M'') = (SCPE_OK, t) \<and> ssem_parse_sym t (SWMASK CHR ''M'') = Some (SCPE_OK, [x]) \<and>
    ucast x = (0x601C :: u32)"
proof -
  have "\<not> sw_given (SWMASK CHR ''M'') CHR ''H''" "\<not> sw_given (SWMASK CHR ''M'') CHR ''I''" "\<not> sw_given (SWMASK CHR ''M'') CHR ''D''"
      "sw_given (SWMASK CHR ''M'') CHR ''M''" "unat (I_GETOP 0x601C) \<noteq> OP_UNDOCUMENTED" "ssem_canon 0x601C = 0x601C"
    by code_simp+
  with ssem_text_roundtrip [of "SWMASK CHR ''M''" "0x601C"] show ?thesis by auto
qed

definition ssem_vm :: "regst vm_hooks" where
  "ssem_vm = plain_vm\<lparr>parse_sym := (\<lambda>c a m sw. case ssem_parse_sym c sw of Some r \<Rightarrow> r | None \<Rightarrow> (SCPE_ARG, [])),
     fprint_sym := (\<lambda>a e m sw. case e of [] \<Rightarrow> (SCPE_ARG, []) | v # _ \<Rightarrow> ssem_fprint_sym v sw)\<rparr>"

theorem ssem_copies_by_text_witness:
  "\<exists>s2. exdep_addr_loop ssem_vm no_switches None EX_D (ssem_fprint_binary 20 False) 5 7 ssem_cpu_dev (plain_adst (ssem_adder 20 22) sample_unit Map.empty) =
      Some (Inr (SCPE_OK, s2)) \<and> store_S (ad_vm s2) 6 = 20 \<and> store_S (ad_vm s2) 29 = 22"
proof -
  let ?s = "plain_adst (ssem_adder 20 22) sample_unit Map.empty"
  have f: "ssem_forms ssem_vm" by (simp add: ssem_forms_def ssem_vm_def)
  have b: "binary_switches no_switches" by (simp add: binary_switches_def sw_given_def no_switches_def)
  have w: "store_S (ad_vm ?s) 28 = 20" "store_S (ad_vm ?s) 29 = 22" by (simp_all add: plain_adst_def ssem_adder_def)
  have s: "ad_eval ?s \<noteq> []" "\<not> un_dis (ad_unit ?s)" "\<not> un_ro (ad_unit ?s)" by (simp_all add: plain_adst_def sample_unit_def)
  have "(28 :: t_addr) < MEMSIZE" "(5 :: t_addr) \<le> 7" "(7 :: t_addr) < MEMSIZE" by (simp_all add: word_le_nat_alt word_less_nat_alt)
  from ssem_copies_by_text [OF f b s this, where c = "[]"] obtain s2 where
    s2: "exdep_addr_loop ssem_vm no_switches None EX_D (ssem_fprint_binary (store_S (ad_vm ?s) 28) False) 5 7 ssem_cpu_dev ?s = Some (Inr (SCPE_OK, s2))"
      "\<forall>k. k < MEMSIZE \<longrightarrow> store_S (ad_vm s2) k = (if 5 \<le> k \<and> k \<le> 7 then store_S (ad_vm ?s) 28 else store_S (ad_vm ?s) k)"
    by blast
  have "store_S (ad_vm s2) 6 = 20 \<and> store_S (ad_vm s2) 29 = 22" using s2(2) w by (simp add: word_le_nat_alt word_less_nat_alt)
  with s2(1) w(1) show ?thesis by auto
qed

end
