(* ===== verification/Pdp8Load.thy ===== *)
theory Pdp8Load
  imports Pdp8Semantics
begin

text \<open>
  The PDP-8's loaders, \<^verbatim>\<open>sim_load\<close> of \<^verbatim>\<open>src/simulators/PDP8/pdp8_sys.c\<close>, for the RIM and the BIN format of
  paper tapes.  A file is the list of its bytes; every routine returns what is left of it.  The second half says what a
  BIN tape means and shows that the loader does it.
\<close>

unbundle bit_operations_syntax

abbreviation (input) SCPE_FMT :: t_stat where "SCPE_FMT \<equiv> 68"
abbreviation (input) SCPE_CSUM :: t_stat where "SCPE_CSUM \<equiv> 67"
abbreviation (input) SCPE_UNK :: t_stat where "SCPE_UNK \<equiv> 74"

subsection \<open>RIM\<close>

fun rim_leader :: "u8 list \<Rightarrow> (u32 \<times> u8 list) option" where
  "rim_leader [] = None"
| "rim_leader (c # fi) = (if c = 0 \<or> c \<ge> 0x80 then rim_leader fi else Some (ucast c, fi))"

fun rim_data :: "u32 \<Rightarrow> u32 \<Rightarrow> u8 list \<Rightarrow> 'a pdp8_scheme \<Rightarrow> t_stat \<times> 'a pdp8_scheme" where
  "rim_data origin hi (lo # fi) s =
     (let wd = push_bit 6 hi OR ucast lo;
          (origin1, s1) = (if wd > 0xFFF then (wd AND 0xFFF, s) else (origin + 1, write_mem (origin AND 0xFFF) wd s))
      in case fi of
           [] \<Rightarrow> (SCPE_FMT, s1)
         | hi1 # fi1 \<Rightarrow> if hi1 < 0x80 then rim_data origin1 (ucast hi1) fi1 s1 else (SCPE_OK, s1))"
| "rim_data origin hi [] s = (SCPE_FMT, s)"

definition sim_load_rim :: "u8 list \<Rightarrow> 'a pdp8_scheme \<Rightarrow> t_stat \<times> 'a pdp8_scheme" where
  "sim_load_rim fi s = (case rim_leader fi of None \<Rightarrow> (SCPE_FMT, s) | Some (hi, fi1) \<Rightarrow> rim_data 0x80 hi fi1 s)"

subsection \<open>BIN\<close>

text \<open>The next frame that is neither a rubout nor a change of field, and the field then.\<close>

fun bin_getc :: "bool \<Rightarrow> u32 \<Rightarrow> u8 list \<Rightarrow> u32 option \<times> u32 \<times> u8 list" where
  "bin_getc rubout newf [] = (None, newf, [])"
| "bin_getc rubout newf (c # fi) =
     (if rubout \<and> c \<noteq> 0xFF then bin_getc rubout newf fi
      else if c = 0xFF then bin_getc True newf fi
      else if c > 0x80 then bin_getc False (push_bit 9 (ucast c AND 0x38)) fi
      else (Some (ucast c), newf, fi))"

definition sim_bin_getc :: "u32 \<Rightarrow> u8 list \<Rightarrow> u32 option \<times> u32 \<times> u8 list" where
  "sim_bin_getc newf fi = bin_getc False newf fi"

lemma bin_getc_shorter: "bin_getc rubout newf fi = (Some c, newf', fi') \<Longrightarrow> length fi' < length fi"
  by (induction rubout newf fi rule: bin_getc.induct) (auto split: if_splits)

lemma sim_bin_getc_shorter: "sim_bin_getc newf fi = (Some c, newf', fi') \<Longrightarrow> length fi' < length fi"
  by (auto simp: sim_bin_getc_def dest: bin_getc_shorter)

function bin_leader :: "u32 \<Rightarrow> u8 list \<Rightarrow> u32 option \<times> u32 \<times> u8 list" where
  "bin_leader newf fi =
     (case sim_bin_getc newf fi of
        (None, newf1, fi1) \<Rightarrow> (None, newf1, fi1)
      | (Some hi, newf1, fi1) \<Rightarrow> if hi = 0 \<or> hi \<ge> 0x80 then bin_leader newf1 fi1 else (Some hi, newf1, fi1))"
  by pat_completeness auto
termination
  by (relation "measure (\<lambda>(newf, fi). length fi)") (auto dest: sim_bin_getc_shorter [OF sym])

declare bin_leader.simps [simp del]

text \<open>
  The words of a section up to its checksum: the error, or none when the section is complete.
  A word with the link bit is a new origin; the field changes after the word before the change.
\<close>

function bin_data ::
  "bool \<Rightarrow> u32 \<Rightarrow> int \<Rightarrow> u32 \<Rightarrow> u32 \<Rightarrow> u32 \<Rightarrow> u8 list \<Rightarrow> 'a pdp8_scheme \<Rightarrow> t_stat option \<times> u8 list \<times> 'a pdp8_scheme" where
  "bin_data do_load hi csum origin field newf fi s =
     (let fmt = (if do_load then SCPE_FMT + 0x40000000 else SCPE_FMT)
      in case sim_bin_getc newf fi of
           (None, newf1, fi1) \<Rightarrow> (Some fmt, fi1, s)
         | (Some lo, newf1, fi1) \<Rightarrow>
             let wd = push_bit 6 hi OR lo
             in case sim_bin_getc newf1 fi1 of
                  (None, newf2, fi2) \<Rightarrow> (Some fmt, fi2, s)
                | (Some hi1, newf2, fi2) \<Rightarrow>
                    if hi1 = 0x80
                    then (if (csum - uint wd) mod 0x1000 \<noteq> 0 then Some (if do_load then SCPE_CSUM + 0x40000000 else SCPE_CSUM) else None, fi2, s)
                    else let csum1 = csum + uint hi + uint lo
                         in if wd > 0xFFF then bin_data do_load hi1 csum1 (wd AND 0xFFF) newf2 newf2 fi2 s
                            else if field OR origin \<ge> memsize s then (Some SCPE_NXM, fi2, s)
                            else bin_data do_load hi1 csum1 ((origin + 1) AND 0xFFF) newf2 newf2 fi2
                                   (if do_load then write_mem (field OR origin) wd s else s))"
  by pat_completeness auto
termination
  by (relation "measure (\<lambda>(do_load, hi, csum, origin, field, newf, fi, s). length fi)") (auto dest!: sim_bin_getc_shorter [OF sym])

declare bin_data.simps [simp del]

lemma sim_bin_getc_end: "sim_bin_getc newf fi = (None, newf', fi') \<Longrightarrow> fi' = []"
proof -
  have "bin_getc rubout newf fi = (None, newf', fi') \<Longrightarrow> fi' = []" for rubout
    by (induction rubout newf fi rule: bin_getc.induct) (auto split: if_splits)
  then show "sim_bin_getc newf fi = (None, newf', fi') \<Longrightarrow> fi' = []" by (simp add: sim_bin_getc_def)
qed

lemma bin_leader_shorter: "bin_leader newf fi = (Some hi, newf', fi') \<Longrightarrow> length fi' < length fi"
proof (induction "length fi" arbitrary: newf fi rule: less_induct)
  case less
  obtain c n f where g: "sim_bin_getc newf fi = (c, n, f)" by (cases "sim_bin_getc newf fi")
  show ?case
  proof (cases c)
    case (Some x)
    with g have "length f < length fi" by (auto dest: sim_bin_getc_shorter)
    with less.hyps [of f n] less.prems g Some show ?thesis by (subst (asm) (2) bin_leader.simps) (auto split: if_splits)
  qed (use less.prems g in \<open>subst (asm) bin_leader.simps, simp\<close>)
qed

lemma bin_data_shorter: "bin_data do_load hi csum origin field newf fi s = (r, fi', s') \<Longrightarrow> length fi' \<le> length fi"
proof (induction "length fi" arbitrary: do_load hi csum origin field newf fi s rule: less_induct)
  case less
  obtain lo n f where g: "sim_bin_getc newf fi = (lo, n, f)" by (cases "sim_bin_getc newf fi")
  obtain hi1 n2 f2 where g2: "sim_bin_getc n f = (hi1, n2, f2)" by (cases "sim_bin_getc n f")
  show ?case
  proof (cases "lo = None \<or> hi1 = None")
    case True
    then have "fi' = []" using less.prems g g2
      by (subst (asm) bin_data.simps) (auto simp: Let_def dest: sim_bin_getc_end split: option.splits)
    then show ?thesis by simp
  next
    case False
    then obtain x y where xy: "lo = Some x" "hi1 = Some y" by auto
    then have l: "length f2 < length fi" using g g2 sim_bin_getc_shorter [of newf fi x n f] sim_bin_getc_shorter [of n f y n2 f2] by simp
    note IH = less.hyps [OF l]
    from less.prems g g2 xy l show ?thesis
      by (subst (asm) bin_data.simps) (auto simp: Let_def split: if_splits dest!: IH)
  qed
qed

text \<open>
  Sections one after the other: all of them with the switch \<^verbatim>\<open>-A\<close>, else the first one.
\<close>

function bin_sections ::
  "u32 \<Rightarrow> bool \<Rightarrow> nat \<Rightarrow> u8 list \<Rightarrow> 'a pdp8_scheme \<Rightarrow> t_stat \<times> u8 list \<times> 'a pdp8_scheme" where
  "bin_sections sw do_load sections_read fi s =
     (case bin_leader 0 fi of
        (None, newf, fi1) \<Rightarrow>
          (if sections_read \<noteq> 0 then SCPE_OK else if do_load then SCPE_FMT + 0x40000000 else SCPE_ARG, fi1, s)
      | (Some hi, newf, fi1) \<Rightarrow>
          (case bin_data do_load hi 0 0 0 newf fi1 s of
             (Some st, fi2, s1) \<Rightarrow> (st, fi2, s1)
           | (None, fi2, s1) \<Rightarrow>
               if sw AND SWMASK CHR ''A'' = 0 then (SCPE_OK, fi2, s1)
               else bin_sections sw do_load (sections_read + 1) fi2 s1))"
  by pat_completeness auto
termination
  by (relation "measure (\<lambda>(sw, do_load, n, fi, s). length fi)")
    (auto dest!: bin_leader_shorter [OF sym] bin_data_shorter [OF sym])

declare bin_sections.simps [simp del]

text \<open>
  After the first section the rest of the file is scanned without loading it; the result, here the
  second component, selects a message.
\<close>

definition sim_load_bin :: "u32 \<Rightarrow> u8 list \<Rightarrow> 'a pdp8_scheme \<Rightarrow> t_stat \<times> t_stat option \<times> 'a pdp8_scheme" where
  "sim_load_bin sw fi s =
     (case bin_sections sw True 0 fi s of
        (st, fi1, s1) \<Rightarrow>
          (st, if st = SCPE_OK \<and> sw AND SWMASK CHR ''A'' = 0 then Some (fst (bin_sections sw False 0 fi1 s1)) else None, s1))"

definition pdp8_sim_load :: "u32 \<Rightarrow> string \<Rightarrow> string \<Rightarrow> bool \<Rightarrow> u8 list \<Rightarrow> 'a pdp8_scheme \<Rightarrow> t_stat \<times> 'a pdp8_scheme" where
  "pdp8_sim_load sw cptr fnam dump fi s =
     (if cptr \<noteq> [] then (SCPE_ARG, s)
      else if dump then (SCPE_UNK + 0x40000000, s)
      else if sw AND SWMASK CHR ''R'' \<noteq> 0 \<or> match_ext (Some fnam) (Some ''RIM'') \<noteq> None \<and> sw AND SWMASK CHR ''B'' = 0
      then sim_load_rim fi s
      else case sim_load_bin sw fi s of (st, extra, s1) \<Rightarrow> (st, s1))"

subsection \<open>Tapes\<close>

text \<open>
  What a BIN tape says: origins and words, each with the changes of field behind it.  A word takes two
  frames of six bits, an origin has bit 12 set.
\<close>

datatype bin_item = Org u32 | Dat u32

type_synonym bin_group = "bin_item \<times> u32 list"

fun item_word :: "bin_item \<Rightarrow> u32" where
  "item_word (Org a) = 0x1000 OR a"
| "item_word (Dat w) = w"

definition frame_hi :: "u32 \<Rightarrow> u8" where "frame_hi w = ucast (drop_bit 6 w)"
definition frame_lo :: "u32 \<Rightarrow> u8" where "frame_lo w = ucast (w AND 0x3F)"
definition field_frame :: "u32 \<Rightarrow> u8" where "field_frame f = 0xC0 OR push_bit 3 (ucast f)"

definition group_frames :: "bin_group \<Rightarrow> u8 list" where
  "group_frames g = frame_hi (item_word (fst g)) # frame_lo (item_word (fst g)) # map field_frame (snd g)"

definition item_sum :: "bin_item \<Rightarrow> int" where
  "item_sum x = uint (frame_hi (item_word x)) + uint (frame_lo (item_word x))"

definition tape_sum :: "bin_group list \<Rightarrow> int" where
  "tape_sum gs = sum_list (map (item_sum \<circ> fst) gs)"

text \<open>A leader, fields, the groups, a checksum and the trailer, and what else is on the tape.\<close>

definition bin_tape :: "nat \<Rightarrow> u32 list \<Rightarrow> bin_group list \<Rightarrow> u32 \<Rightarrow> u8 list \<Rightarrow> u8 list" where
  "bin_tape k fs gs c r = replicate k 0x80 @ map field_frame fs @ concat (map group_frames gs) @ [frame_hi c, frame_lo c, 0x80] @ r"

definition last_field :: "u32 \<Rightarrow> u32 list \<Rightarrow> u32" where
  "last_field f fs = (if fs = [] then f else push_bit 12 (last fs))"

text \<open>What is stored, and where.\<close>

fun placed :: "bin_group list \<Rightarrow> u32 \<Rightarrow> u32 \<Rightarrow> (u32 \<Rightarrow> u32) \<Rightarrow> (u32 \<Rightarrow> u32)" where
  "placed [] f a m = m"
| "placed ((Org b, fs) # gs) f a m = placed gs (last_field f fs) b m"
| "placed ((Dat w, fs) # gs) f a m = placed gs (last_field f fs) ((a + 1) AND 0xFFF) (m(f OR a := w))"

fun in_memory :: "u32 \<Rightarrow> bin_group list \<Rightarrow> u32 \<Rightarrow> u32 \<Rightarrow> bool" where
  "in_memory n [] f a = True"
| "in_memory n ((Org b, fs) # gs) f a = in_memory n gs (last_field f fs) b"
| "in_memory n ((Dat w, fs) # gs) f a = (f OR a < n \<and> in_memory n gs (last_field f fs) ((a + 1) AND 0xFFF))"

fun item_ok :: "bin_item \<Rightarrow> bool" where
  "item_ok (Org a) = fits 12 a"
| "item_ok (Dat w) = fits 12 w"

definition group_ok :: "bin_group \<Rightarrow> bool" where
  "group_ok g \<longleftrightarrow> item_ok (fst g) \<and> list_all (\<lambda>f. f < 8) (snd g)"

subsection \<open>Frames\<close>

lemma frame_bits:
  assumes "fits 13 w"
  shows "push_bit 6 (ucast (frame_hi w)) OR ucast (frame_lo w) = w" "frame_hi w < 0x80" "frame_lo w < 0x80"
proof -
  have m: "(0x3F :: u32) = mask 6" by (simp add: mask_eq_exp_minus_1)
  have b: "bit w k \<Longrightarrow> k < 13" for k using assms by (rule fits_bitD)
  show "push_bit 6 (ucast (frame_hi w)) OR ucast (frame_lo w) = w"
    unfolding frame_hi_def frame_lo_def m by (rule bit_word_eqI) (auto simp: bit_simps dest: b)
  have "fits 7 (frame_hi w)" "fits 6 (frame_lo w)" by (auto simp: fits_bit frame_hi_def frame_lo_def m bit_simps dest: b)
  then show "frame_hi w < 0x80" "frame_lo w < 0x80" by (simp_all add: fits_less word_less_nat_alt)
qed

lemma item_word_fits: "item_ok x \<Longrightarrow> fits 13 (item_word x)"
  by (cases x) (auto intro!: fits_bitwise(3) intro: fits_mono)

lemma fits_12_limit: "x > 0xFFF \<longleftrightarrow> \<not> fits 12 x" for x :: u32
  by (auto simp: fits_less word_less_nat_alt)

lemma item_word_origin:
  assumes "item_ok x"
  shows "item_word x > 0xFFF \<longleftrightarrow> (\<exists>a. x = Org a)" "x = Org a \<Longrightarrow> item_word x AND 0xFFF = a"
proof -
  have m: "(0xFFF :: u32) = mask 12" by (simp add: mask_eq_exp_minus_1)
  have "bit (2 ^ 12 :: u32) n \<longleftrightarrow> n = 12" for n by (simp only: bit_exp_iff possible_bit_def) auto
  then have link: "bit (0x1000 :: u32) n \<longleftrightarrow> n = 12" for n by simp
  then show "item_word x > 0xFFF \<longleftrightarrow> (\<exists>a. x = Org a)"
    using assms unfolding fits_12_limit by (cases x) (auto simp: fits_bit bit_or_iff)
  show "x = Org a \<Longrightarrow> item_word x AND 0xFFF = a"
  proof (rule bit_word_eqI)
    fix n assume "x = Org a" "n < LENGTH(32)"
    with assms link [of n] fits_bitD [of 12 a n] show "bit (item_word x AND 0xFFF) n = bit a n"
      unfolding m by (auto simp: bit_or_iff bit_and_iff bit_mask_iff)
  qed
qed

lemma field_frame_props:
  assumes "f < 8"
  shows "field_frame f \<noteq> 0xFF" "field_frame f > 0x80" "push_bit 9 (ucast (field_frame f) AND 0x38) = push_bit 12 f"
proof -
  have "f \<in> {0, 1, 2, 3, 4, 5, 6, 7}" 
    using assms by (simp add: word_unat_eq_iff word_less_nat_alt) linarith
  then show "field_frame f \<noteq> 0xFF" "field_frame f > 0x80" "push_bit 9 (ucast (field_frame f) AND 0x38) = push_bit 12 f"
    by (auto simp: field_frame_def)
qed

lemma getc_fields:
  assumes "list_all (\<lambda>f. f < 8) fs" "c \<le> 0x80"
  shows "sim_bin_getc newf (map field_frame fs @ c # r) = (Some (ucast c), last_field newf fs, r)"
  using assms(1)
proof (induction fs arbitrary: newf)
  case Nil
  have "c \<noteq> 0xFF" using assms(2) by (auto simp: word_le_nat_alt)
  moreover have "\<not> 0x80 < c" using assms(2) by (simp only: not_less)
  ultimately show ?case by (simp add: sim_bin_getc_def last_field_def del: not_less)
next
  case (Cons f fs)
  then show ?case using field_frame_props [of f] by (auto simp: sim_bin_getc_def last_field_def)
qed

subsection \<open>Sections\<close>

lemma frame_value: "uint (ucast x :: u32) = uint x" for x :: u8
proof -
  have "uint x < 2 ^ 8" using unsigned_less [of x] by simp
  then show ?thesis by (simp add: unsigned_ucast_eq take_bit_int_eq_self)
qed

lemma frame_not_trailer: "c < 0x80 \<Longrightarrow> (ucast c :: u32) \<noteq> 0x80" for c :: u8
proof
  assume "c < 0x80" "(ucast c :: u32) = 0x80"
  then have "uint c = 0x80" using frame_value [of c] by simp
  with \<open>c < 0x80\<close> show False by (simp add: word_less_def)
qed

lemma bin_step:
  assumes "group_ok (x, fs)" "c < 0x80"
  shows "bin_data True (ucast (frame_hi (item_word x))) csum a f newf (frame_lo (item_word x) # map field_frame fs @ c # r) s =
    (case x of
       Org b \<Rightarrow> bin_data True (ucast c) (csum + item_sum x) b (last_field newf fs) (last_field newf fs) r s
     | Dat w \<Rightarrow> if f OR a \<ge> memsize s then (Some SCPE_NXM, r, s)
                else bin_data True (ucast c) (csum + item_sum x) ((a + 1) AND 0xFFF) (last_field newf fs) (last_field newf fs) r (write_mem (f OR a) w s))"
proof -
  define w where "w = item_word x"
  have ok: "item_ok x" "list_all (\<lambda>f. f < 8) fs" using assms(1) by (simp_all add: group_ok_def)
  note fr = frame_bits [OF item_word_fits [OF ok(1)], folded w_def]
  have lo: "sim_bin_getc newf (frame_lo w # map field_frame fs @ c # r) = (Some (ucast (frame_lo w)), newf, map field_frame fs @ c # r)"
    using getc_fields [of "[]" "frame_lo w" newf] fr(3) by (simp add: last_field_def)
  have nx: "sim_bin_getc newf (map field_frame fs @ c # r) = (Some (ucast c), last_field newf fs, r)"
    using getc_fields [OF ok(2), of c] assms(2) by simp
  have c: "(ucast c :: u32) \<noteq> 0x80" by (rule frame_not_trailer [OF assms(2)])
  have sum: "csum + uint (ucast (frame_hi w) :: u32) + uint (ucast (frame_lo w) :: u32) = csum + item_sum x"
    by (simp add: item_sum_def frame_value w_def)
  have step: "bin_data True (ucast (frame_hi w)) csum a f newf (frame_lo w # map field_frame fs @ c # r) s =
      (if w > 0xFFF then bin_data True (ucast c) (csum + item_sum x) (w AND 0xFFF) (last_field newf fs) (last_field newf fs) r s
       else if f OR a \<ge> memsize s then (Some SCPE_NXM, r, s)
       else bin_data True (ucast c) (csum + item_sum x) ((a + 1) AND 0xFFF) (last_field newf fs) (last_field newf fs) r (write_mem (f OR a) w s))"
    by (subst bin_data.simps) (simp add: lo nx c fr(1) sum Let_def)
  show ?thesis
  proof (cases x)
    case (Org b)
    then have "w > 0xFFF" "w AND 0xFFF = b" using item_word_origin [OF ok(1)] by (simp_all add: w_def)
    then show ?thesis using step Org by (simp add: w_def)
  next
    case (Dat v)
    then have "\<not> w > 0xFFF" "w = v" using item_word_origin(1) [OF ok(1)] by (simp_all add: w_def)
    then show ?thesis using step Dat by (simp add: w_def)
  qed
qed

lemma bin_last:
  assumes "fits 12 c"
  shows "bin_data True (ucast (frame_hi c)) csum a f newf (frame_lo c # 0x80 # r) s =
    (if (csum - uint c) mod 0x1000 = 0 then None else Some (SCPE_CSUM + 0x40000000), r, s)"
proof -
  note fr = frame_bits [OF fits_mono [OF assms]]
  have "sim_bin_getc newf (frame_lo c # 0x80 # r) = (Some (ucast (frame_lo c)), newf, 0x80 # r)" "sim_bin_getc newf (0x80 # r) = (Some 0x80, newf, r)"
    using getc_fields [of "[]" "frame_lo c" newf] getc_fields [of "[]" "0x80" newf r] fr(3) by (simp_all add: last_field_def)
  then show ?thesis by (subst bin_data.simps) (simp add: fr(1) Let_def)
qed

text \<open>From the first frame of a group on.\<close>

definition section_frames :: "bin_group list \<Rightarrow> u32 \<Rightarrow> u8 list \<Rightarrow> u8 list" where
  "section_frames gs c r = concat (map group_frames gs) @ [frame_hi c, frame_lo c, 0x80] @ r"

lemma section_start:
  assumes "list_all group_ok gs" "fits 12 c"
  shows "hd (section_frames gs c r) < 0x80" "section_frames gs c r = hd (section_frames gs c r) # tl (section_frames gs c r)"
proof -
  have "frame_hi c < 0x80" using frame_bits(2) [OF fits_mono [OF assms(2)]] by simp
  moreover have "item_ok (fst h) \<Longrightarrow> frame_hi (item_word (fst h)) < 0x80" for h :: bin_group by (rule frame_bits(2) [OF item_word_fits])
  ultimately show "hd (section_frames gs c r) < 0x80"
    using assms(1) by (cases gs) (auto simp: section_frames_def group_frames_def group_ok_def)
  show "section_frames gs c r = hd (section_frames gs c r) # tl (section_frames gs c r)"
    by (cases gs) (simp_all add: section_frames_def group_frames_def)
qed

lemma bin_groups:
  assumes "list_all group_ok gs" "fits 12 c" "in_memory (memsize s) gs f a"
  shows "bin_data True (ucast (hd (section_frames gs c r))) csum a f f (tl (section_frames gs c r)) s =
    (if (csum + tape_sum gs - uint c) mod 0x1000 = 0 then None else Some (SCPE_CSUM + 0x40000000), r, s\<lparr>mem := placed gs f a (mem s)\<rparr>)"
  using assms(1,3)
proof (induction gs arbitrary: csum f a s)
  case Nil
  then show ?case by (simp add: bin_last [OF assms(2)] tape_sum_def section_frames_def)
next
  case (Cons g gs)
  obtain x fs where g: "g = (x, fs)" by (cases g)
  let ?t = "section_frames gs c r"
  have "hd ?t < 0x80" "?t = hd ?t # tl ?t" using section_start [of gs c r] Cons.prems(1) assms(2) by simp_all
  moreover have "section_frames (g # gs) c r = frame_hi (item_word x) # frame_lo (item_word x) # map field_frame fs @ ?t"
    by (simp add: section_frames_def group_frames_def g)
  ultimately show ?case
    using bin_step [of x fs "hd ?t" csum a f f "tl ?t" s] Cons g
    by (cases x) (auto simp: tape_sum_def write_mem_def add.assoc)
qed

lemma leader_skips:
  assumes "list_all (\<lambda>f. f < 8) fs" "h < 0x80" "h \<noteq> 0"
  shows "bin_leader newf (replicate k 0x80 @ map field_frame fs @ h # t) = (Some (ucast h), last_field newf fs, t)"
proof (induction k)
  case 0
  have "uint h < 0x80" "uint h \<noteq> 0" using assms(2,3) by (simp_all add: word_less_def word_uint_eq_iff)
  then have "(ucast h :: u32) \<noteq> 0" "\<not> (ucast h :: u32) \<ge> 0x80" using frame_value [of h] by (auto simp: word_le_def)
  then show ?case using getc_fields [OF assms(1), of h newf t] assms(2) by (subst bin_leader.simps) simp
next
  case (Suc k)
  have "sim_bin_getc newf (0x80 # x) = (Some 0x80, newf, x)" for x using getc_fields [of "[]" "0x80" newf x] by (simp add: last_field_def)
  then show ?case using Suc by (subst bin_leader.simps) simp
qed

lemma origin_frame: "fits 12 a \<Longrightarrow> frame_hi (item_word (Org a)) \<noteq> 0"
proof
  assume "fits 12 a" "frame_hi (item_word (Org a)) = 0"
  moreover have "bit (frame_hi (item_word (Org a))) 6"
  proof -
    have "bit (2 ^ 12 :: u32) 12" by (simp only: bit_exp_iff possible_bit_def) simp
    then have "bit (0x1000 :: u32) 12" by simp
    then show ?thesis by (simp add: frame_hi_def bit_ucast_iff bit_drop_bit_eq bit_or_iff)
  qed
  ultimately show False by simp
qed

lemma bin_tape_data:
  assumes "list_all group_ok ((Org a, fs1) # gs)" "list_all (\<lambda>f. f < 8) fs" "fits 12 c"
    and "in_memory (memsize s) ((Org a, fs1) # gs) (last_field 0 fs) 0"
  shows "bin_sections sw True 0 (bin_tape k fs ((Org a, fs1) # gs) c r) s =
    (if (tape_sum ((Org a, fs1) # gs) - uint c) mod 0x1000 \<noteq> 0
     then (SCPE_CSUM + 0x40000000, r, s\<lparr>mem := placed ((Org a, fs1) # gs) (last_field 0 fs) 0 (mem s)\<rparr>)
     else if sw AND SWMASK CHR ''A'' = 0 then (SCPE_OK, r, s\<lparr>mem := placed ((Org a, fs1) # gs) (last_field 0 fs) 0 (mem s)\<rparr>)
     else bin_sections sw True 1 r (s\<lparr>mem := placed ((Org a, fs1) # gs) (last_field 0 fs) 0 (mem s)\<rparr>))"
proof -
  let ?w = "item_word (Org a)" and ?t = "section_frames gs c r"
  have ok: "item_ok (Org a)" "group_ok (Org a, fs1)" "list_all group_ok gs" using assms(1) by (simp_all add: group_ok_def)
  have "bin_tape k fs ((Org a, fs1) # gs) c r = replicate k 0x80 @ map field_frame fs @ frame_hi ?w # frame_lo ?w # map field_frame fs1 @ ?t"
    by (simp add: bin_tape_def section_frames_def group_frames_def)
  then have ld: "bin_leader 0 (bin_tape k fs ((Org a, fs1) # gs) c r) =
      (Some (ucast (frame_hi ?w)), last_field 0 fs, frame_lo ?w # map field_frame fs1 @ ?t)"
    using leader_skips [OF assms(2) frame_bits(2) [OF item_word_fits [OF ok(1)]] origin_frame] ok(1) by simp
  have hd: "hd ?t < 0x80" "?t = hd ?t # tl ?t"
    using section_start [OF ok(3) assms(3), of r] by simp_all
  have "bin_data True (ucast (frame_hi ?w)) 0 0 0 (last_field 0 fs) (frame_lo ?w # map field_frame fs1 @ ?t) s =
      bin_data True (ucast (hd ?t)) (item_sum (Org a)) a (last_field (last_field 0 fs) fs1) (last_field (last_field 0 fs) fs1) (tl ?t) s"
    using bin_step [OF ok(2) hd(1), of 0 0 0 "last_field 0 fs" "tl ?t" s] hd(2) by simp
  also have "\<dots> = (if (tape_sum ((Org a, fs1) # gs) - uint c) mod 0x1000 = 0 then None else Some (SCPE_CSUM + 0x40000000), r,
      s\<lparr>mem := placed ((Org a, fs1) # gs) (last_field 0 fs) 0 (mem s)\<rparr>)"
    using assms(4) by (simp add: bin_groups [OF ok(3) assms(3)] tape_sum_def)
  finally show ?thesis by (subst bin_sections.simps) (simp add: ld)
qed


lemma bin_sections_end: "bin_leader 0 fi = (None, newf, fi1) \<Longrightarrow> bin_sections sw True 0 fi s = (SCPE_FMT + 0x40000000, fi1, s)"
  by (subst bin_sections.simps) simp

subsection \<open>Any file\<close>

lemma write_mem_wf: "pdp8_wf s \<Longrightarrow> fits 12 w \<Longrightarrow> pdp8_wf (write_mem a w s)"
  by (simp add: pdp8_wf_def write_mem_def)

lemma rim_data_wf: "pdp8_wf s \<Longrightarrow> pdp8_wf (snd (rim_data origin hi fi s))"
  by (induction origin hi fi s rule: rim_data.induct) (auto simp: Let_def write_mem_wf fits_12_limit split: list.splits)

lemma bin_data_wf: "pdp8_wf s \<Longrightarrow> pdp8_wf (snd (snd (bin_data do_load hi csum origin field newf fi s)))"
proof (induction "length fi" arbitrary: do_load hi csum origin field newf fi s rule: less_induct)
  case less
  obtain lo n f where g: "sim_bin_getc newf fi = (lo, n, f)" by (cases "sim_bin_getc newf fi")
  obtain hi1 n2 f2 where g2: "sim_bin_getc n f = (hi1, n2, f2)" by (cases "sim_bin_getc n f")
  show ?case
  proof (cases "lo = None \<or> hi1 = None")
    case True
    then show ?thesis using less.prems g g2 by (subst bin_data.simps) (auto simp: Let_def split: option.splits)
  next
    case False
    then obtain x y where xy: "lo = Some x" "hi1 = Some y" by auto
    then have l: "length f2 < length fi" using g g2 sim_bin_getc_shorter [of newf fi x n f] sim_bin_getc_shorter [of n f y n2 f2] by simp
    note IH = less.hyps [OF l]
    from less.prems g g2 xy IH show ?thesis
      by (subst bin_data.simps) (auto simp: Let_def write_mem_wf fits_12_limit)
  qed
qed

lemma bin_sections_wf: "pdp8_wf s \<Longrightarrow> pdp8_wf (snd (snd (bin_sections sw do_load n fi s)))"
proof (induction "length fi" arbitrary: n fi s rule: less_induct)
  case less
  obtain h newf fi1 where ld: "bin_leader 0 fi = (h, newf, fi1)" by (cases "bin_leader 0 fi")
  show ?case
  proof (cases h)
    case (Some hi)
    obtain st fi2 s1 where d: "bin_data do_load hi 0 0 0 newf fi1 s = (st, fi2, s1)" by (cases "bin_data do_load hi 0 0 0 newf fi1 s")
    have "length fi2 < length fi" using bin_leader_shorter [of 0 fi hi newf fi1] bin_data_shorter [OF d] ld Some by simp
    moreover have "pdp8_wf s1" using bin_data_wf [OF less.prems, of do_load hi 0 0 0 newf fi1] d by simp
    ultimately show ?thesis using less.hyps [of fi2 s1] ld Some d by (subst bin_sections.simps) (auto split: option.splits)
  qed (use less.prems ld in \<open>subst bin_sections.simps, simp\<close>)
qed

lemma pdp8_load_keeps_machine: "pdp8_wf s \<Longrightarrow> pdp8_wf (snd (pdp8_sim_load sw cptr fnam dump fi s))"
  using bin_sections_wf [of s sw True 0 fi]
  by (auto simp: pdp8_sim_load_def sim_load_rim_def sim_load_bin_def rim_data_wf split: prod.splits option.splits)

subsection \<open>Properties\<close>

text \<open>
  C10. A BIN tape of origins, words and field changes, with any leader and anything behind its trailer,
  is loaded: every word is stored at the place that the tape gives it and nothing else changes, and the
  status says whether the checksum is that of the frames.
\<close>

theorem pdp8_loads_bin_tape:
  assumes "list_all group_ok ((Org a, fs1) # gs)" "list_all (\<lambda>f. f < 8) fs" "fits 12 c"
    and "in_memory (memsize s) ((Org a, fs1) # gs) (last_field 0 fs) 0"
    and "sw AND SWMASK CHR ''R'' = 0" "sw AND SWMASK CHR ''A'' = 0" "match_ext (Some fnam) (Some ''RIM'') = None"
  shows "pdp8_sim_load sw [] fnam False (bin_tape k fs ((Org a, fs1) # gs) c r) s =
    (if (tape_sum ((Org a, fs1) # gs) - uint c) mod 0x1000 = 0 then SCPE_OK else SCPE_CSUM + 0x40000000,
     s\<lparr>mem := placed ((Org a, fs1) # gs) (last_field 0 fs) 0 (mem s)\<rparr>)"
  using assms(5-7) by (simp add: pdp8_sim_load_def sim_load_bin_def bin_tape_data [OF assms(1-4)])

theorem pdp8_loads_bin_tape_witness:
  "pdp8_sim_load 0 [] ''dec.bin'' False (bin_tape 3 [1] [(Org 0x80, []), (Dat 7, [])] 73 []) (pdp8_machine 0 0 0 (\<lambda>_. 0)) =
     (SCPE_OK, (pdp8_machine 0 0 0 (\<lambda>_. 0))\<lparr>mem := (\<lambda>_. 0)(0x1080 := 7)\<rparr>)"
proof -
  have "list_all group_ok [(Org 0x80, []), (Dat 7, [])]" "list_all (\<lambda>f :: u32. f < 8) [1]" "fits 12 (73 :: u32)"
    by (simp_all add: group_ok_def word_less_nat_alt)
  moreover have "in_memory (memsize (pdp8_machine 0 0 0 (\<lambda>_. 0))) [(Org 0x80, []), (Dat 7, [])] (last_field 0 [1]) 0"
    by (simp add: pdp8_machine_def last_field_def word_less_nat_alt)
  moreover have "match_ext (Some ''dec.bin'') (Some ''RIM'') = None" by code_simp
  moreover have "tape_sum [(Org 0x80, []), (Dat 7, [])] = 73" by code_simp
  ultimately show ?thesis
    using pdp8_loads_bin_tape [of "0x80" "[]" "[(Dat 7, [])]" "[1]" 73 "pdp8_machine 0 0 0 (\<lambda>_. 0)" 0 "''dec.bin''" 3 "[]"]
    by (simp add: last_field_def pdp8_machine_def)
qed

text \<open>
  C36. Error: the loader skips from a rubout to the end of the file, although two rubouts are meant to
  enclose what is skipped.  A tape with a rubout in its leader is refused, whatever follows.
\<close>

theorem rubout_skips_rest:
  "sim_bin_getc newf (0xFF # fi) = (None, newf, []) \<and>
   sim_load_bin sw (replicate k 0x80 @ 0xFF # fi) s = (SCPE_FMT + 0x40000000, None, s)"
proof -
  have "bin_getc True newf fi = (None, newf, [])" for newf by (induction fi) simp_all
  then have g: "sim_bin_getc newf (0xFF # fi) = (None, newf, [])" for newf by (simp add: sim_bin_getc_def)
  have "sim_bin_getc 0 (0x80 # x) = (Some 0x80, 0, x)" for x using getc_fields [of "[]" "0x80" 0 x] by (simp add: last_field_def)
  then have "bin_leader 0 (replicate k 0x80 @ 0xFF # fi) = (None, 0, [])"
    by (induction k) (subst bin_leader.simps, simp add: g)+
  then show ?thesis by (simp add: g sim_load_bin_def bin_sections_end)
qed

end
