(* ===== verification/Spec2Isabelle.thy ===== *)
theory Spec2Isabelle
  imports EventQueue Breakpoint Quoted ExprSemantics Pdp8System Ssem TailQueue ExpectSemantics Send CmdVarsSemantics TapeSemantics Pdp8Memory SsemText Pdp8Load
begin

text \<open>
  ZIMH is a family of computer simulators around one simulator control program (SCP).  SCP keeps
  the queue of pending device events and the simulated clock, the breakpoints, and the command
  language with its tokens, numbers, quoted strings and expressions.  A simulator supplies an
  instruction loop, \<^verbatim>\<open>sim_instr\<close>, which executes instructions until one of them, an event or a
  breakpoint gives a reason to stop: it counts \<^verbatim>\<open>sim_interval\<close> down, calls
  \<^verbatim>\<open>sim_process_event\<close> when it has run out, and calls \<^verbatim>\<open>sim_brk_test\<close> when
  \<^verbatim>\<open>sim_brk_summ\<close> says that breakpoints are set.  While the machine is stopped, the commands
  \<^verbatim>\<open>EXAMINE\<close> and \<^verbatim>\<open>DEPOSIT\<close> reach its registers through descriptors and its locations through the
  routines of its devices or through the files attached to their units.

  \<^bold>\<open>Theories, in the order of their dependence\<close>

  \<^item> \<^verbatim>\<open>Prelude\<close>: machine words of the code's types, status codes, the width predicate
    \<open>fits\<close> with its simplification rules.
  \<^item> \<^verbatim>\<open>Scheduler\<close> and \<^verbatim>\<open>KeyedStore\<close>: two abstract specifications and the locales that
    state their laws: a calendar of absolute due times with the relation \<open>fires\<close> that runs the due
    units, and a store whose entries under different keys do not interfere.
  \<^item> \<^verbatim>\<open>EventQueue\<close>: the event queue of \<^verbatim>\<open>scp.c\<close> (\<^verbatim>\<open>sim_activate\<close> and its variants,
    \<^verbatim>\<open>sim_cancel\<close>, \<^verbatim>\<open>sim_process_event\<close>, the time accessors).  The record \<open>evq\<close> holds the
    queue, \<^verbatim>\<open>sim_interval\<close> and the clock; a unit is a number, its links are the queue's list, and
    everything reached through a unit's pointers is the record \<open>unit_ops\<close>.
    Shown: the relative-time queue implements the calendar; dispatch, when nothing is overdue and the
    service routines queue units for later only, ends and runs the due units in order; equal times
    keep their order; no intermediate result overflows; an overdue last unit whose routine queues none
    makes the catch-up code follow the end marker.
  \<^item> \<^verbatim>\<open>Simulation\<close> and \<^verbatim>\<open>TailQueue\<close>: the locale of a simulation between step relations,
    and the lock-free queue \<^verbatim>\<open>sim_tailq.c\<close> with which threads hand over packets.  Each access
    to shared memory is a step of \<open>tq_step\<close>; a producer's place in \<^verbatim>\<open>sim_tailq_enqueue\<close> is a
    value of \<open>producer\<close>.  Shown: all interleavings implement a bounded first-in first-out queue, calls
    that run alone return, destruction frees items twice.
  \<^item> \<^verbatim>\<open>CString\<close>, \<^verbatim>\<open>Parse\<close>, \<^verbatim>\<open>Numbers\<close>, \<^verbatim>\<open>Quoted\<close>: character classes, bounded copies
    (\<^verbatim>\<open>strlcpy.c\<close>, \<^verbatim>\<open>strlcat.c\<close>), tokens and switches (\<^verbatim>\<open>scp_parse.c\<close>), numbers, ranges,
    search specifications and quoted strings (\<^verbatim>\<open>scp.c\<close>).  A C string is a list of characters
    without the terminator, a pointer into it a suffix.  Shown: bounds of the copies, round trips
    between printing and parsing, limits and order of what the parsers accept.
  \<^item> \<^verbatim>\<open>Breakpoint\<close>: all of \<^verbatim>\<open>scp_breakpoint.c\<close>, in a record that extends \<open>evq\<close>; the table
    is a list of chains, the chain being the list linked through \<^verbatim>\<open>next\<close>.  Shown: the sorted
    array implements a map from addresses to chains under any sequence of set and clear requests,
    the binary search, the clearing loop, tests with counts, the summary, pending actions.
  \<^item> \<^verbatim>\<open>SubVars\<close>, \<^verbatim>\<open>CmdVars\<close> and \<^verbatim>\<open>CmdVarsSemantics\<close>: the variables of \<^verbatim>\<open>scp_cmdvars.c\<close> and the
    substitution in command lines.  The result is a list of characters with the list of the places
    they came from; reads behind a line or an argument vector, overruns of token buffers and a loop
    that does not end are values of \<open>sub_fault\<close>.  Shown: the table is a map, a line becomes the values
    of its parts, a quoted line and a first word that names a variable included, pointers lead back to the
    original, replacements and calendar arithmetic equal
    their references, four inputs fail.
  \<^item> \<^verbatim>\<open>QuotedArgs\<close>, \<^verbatim>\<open>Expect\<close>, \<^verbatim>\<open>ExpectSemantics\<close> and \<^verbatim>\<open>Send\<close>: \<^verbatim>\<open>scp_expect.c\<close>.  A context's
    rules are a list, its output buffer a list with the offsets of the code; what memory that
    \<^verbatim>\<open>realloc\<close> adds contains is a parameter, as is the regular expression library.  Shown: over
    output of any length the first rule whose string the output ends with fires; injected input is a
    first-in first-out queue with delays; commands with quoted strings do to the bytes what they say;
    a removed rule leaves its output to the next one.
  \<^item> \<^verbatim>\<open>Expr\<close> and \<^verbatim>\<open>ExprSemantics\<close>: the expression evaluator of \<^verbatim>\<open>scp_expr.c\<close> and its
    correctness against expression trees; signed overflow, an out-of-range shift and a call through
    a null pointer are values of \<open>num_fault\<close>.
  \<^item> \<^verbatim>\<open>Tape\<close>, \<^verbatim>\<open>TapeImage\<close> and \<^verbatim>\<open>TapeSemantics\<close>: the magnetic tapes of \<^verbatim>\<open>sim_tape.c\<close> in
    the two formats with counted records.  The image is a list of bytes in the record \<open>tape\<close>; the
    buffer of the reading loops is an argument; a read of memory that was never written is a value of
    \<open>tape_fault\<close>.  Shown: reading, spacing, writing and rewinding implement a list of records and marks
    with a head; what is written is read in both directions; the buffer makes no difference; spacing
    over files and positioning end where they should, also at the logical end; a record with two
    different lengths moves the tape.  Spacing is proved once in a locale and interpreted for both
    directions.
  \<^item> \<^verbatim>\<open>Registers\<close> and \<^verbatim>\<open>RegisterAccess\<close>: registers as SCP sees them (\<^verbatim>\<open>find_reg\<close>, \<^verbatim>\<open>get_rval\<close>,
    \<^verbatim>\<open>put_rval\<close>, \<^verbatim>\<open>ex_reg\<close>, \<^verbatim>\<open>dep_reg\<close> and their loop).  The simulator's variables are bytes of memory,
    a register the bits its descriptor selects.  Shown: a deposit sets exactly the bits of the given
    elements, the lines of an examination are those of the runs of equal values and give them back, names
    are found in exactly one device, a search makes the lines misreport the elements it rejects.
  \<^item> \<^verbatim>\<open>Units\<close> and \<^verbatim>\<open>AddressSpace\<close>: attaching and detaching (\<^verbatim>\<open>scp_unit.c\<close>) and the locations that
    \<^verbatim>\<open>EXAMINE\<close> and \<^verbatim>\<open>DEPOSIT\<close> read and write (\<^verbatim>\<open>get_aval\<close>, \<^verbatim>\<open>dep_addr\<close>, \<^verbatim>\<open>exdep_addr_loop\<close>).  A device is a
    record with its widths and its routines, files are lists of bytes under names, accesses outside a
    buffer are values of \<open>unit_fault\<close>.  The locale \<open>address_space\<close> states what the commands rely on; their
    effect on a range of addresses is proved in it, and \<open>buffered_unit\<close> is a sublocale.
  \<^item> \<^verbatim>\<open>InstrLoop\<close>: the shape of an instruction loop, and the locale of a processor's step.
  \<^item> \<^verbatim>\<open>Pdp8\<close> and \<^verbatim>\<open>Pdp8Semantics\<close>: the PDP-8 processor \<^verbatim>\<open>pdp8_cpu.c\<close>, its invariant and
    the meaning of its instructions.  The machine record extends the breakpoint record; the devices
    are a dispatch table of arbitrary functions.
  \<^item> \<^verbatim>\<open>Pdp8Interrupt\<close>, \<^verbatim>\<open>Pdp8Devices\<close> and \<^verbatim>\<open>Pdp8System\<close>: the interrupt word, the devices
    \<^verbatim>\<open>pdp8_clk.c\<close>, \<^verbatim>\<open>pdp8_tt.c\<close>, \<^verbatim>\<open>pdp8_pt.c\<close>, \<^verbatim>\<open>pdp8_lp.c\<close> and \<^verbatim>\<open>pdp8_tsc.c\<close> (IOT,
    service and reset routines; their registers extend the machine record) and the machine made of
    them.  Shown: every device keeps two invariants, stated once in a locale, and so do whole runs;
    when an interrupt is taken; what reaches a program from keyboard and tape.
  \<^item> \<^verbatim>\<open>Pdp8Load\<close>: the RIM and BIN loaders of \<^verbatim>\<open>pdp8_sys.c\<close>.  Shown: a BIN tape of origins, words and field
    changes is stored where it says, with its checksum checked; any file leaves the machine well
    formed; a rubout makes the loader skip the rest.
  \<^item> \<^verbatim>\<open>Pdp8Memory\<close>: the PDP-8's memory and its drums as address spaces.  Shown: deposits are seen by
    examinations; the contents of a buffered unit of a device with one address to a location survive
    detaching and attaching.
  \<^item> \<^verbatim>\<open>Ssem\<close>: the processor \<^verbatim>\<open>ssem_cpu.c\<close> and its refinement of the architecture.
  \<^item> \<^verbatim>\<open>SsemSys\<close> and \<^verbatim>\<open>SsemText\<close>: the dumps and the symbolic forms of \<^verbatim>\<open>ssem_sys.c\<close>; integer overflow
    in parsing has no result.  Shown: what is printed or dumped is read back, and words are copied by
    depositing the text of an examination.

  \<^bold>\<open>Bounds and fuel\<close>

  The loops that the code's data bound are structural or have a termination proof.  Three loops
  take fuel: the dispatch loop of \<^verbatim>\<open>sim_process_event\<close>, which a service routine that queues
  itself without delay keeps running (enough when units are queued for later only: the length of the
  queue), the loop of \<^verbatim>\<open>sim_brk_clrall\<close> (enough: one more than the entries), and the instruction loops,
  which a program may keep running.  The width loop of \<^verbatim>\<open>sprint_val\<close> takes fuel as well, because
  it does not end for radix 1, and the replacement loop of a variable is a partial function, because
  it does not end for an empty string, as are the batches of records that make a file of a tape and
  the objects of a positioning, because a damaged image can make positions wrap around; on images of
  items they are proved to end.  The loop over addresses of \<^verbatim>\<open>EXAMINE\<close> and \<^verbatim>\<open>DEPOSIT\<close> is a partial
  function too, because the address wraps around at the top of a 32-bit address space; for a range of
  valid addresses below it is proved to end.  Delays are unbounded integers; that they stay below \<open>2^31\<close> is a
  theorem under the stated bound.  Simulated time is a real number where the code has a double, so
  rounding beyond \<open>2^53\<close> instructions is outside the model.

  \<^bold>\<open>Not modelled\<close>

  Asynchronous I/O, threads other than those of the tail queue and memory orderings weaker than
  sequential consistency, the timer calibration (its entry points are parameters), terminal,
  socket, file and packet I/O (the files behind a device are lists of bytes), erase gaps as they are
  written and the other tape formats, disks and the other devices of the PDP-8 (parameters of its
  system, but for the descriptors of its drums), the tables of devices and units, the command
  interpreter with its command lines and files, help texts and everything that only prints; errors of
  the host after a file has been opened; failure of memory allocation; units on a timer's co-schedule list.  The other
  simulators have the structure of the two that are here.
\<close>

end
